(* ===== verification/Prelude.thy ===== *)
theory Prelude
  imports Main "HOL-Library.Word" "HOL-Library.Monad_Syntax"
begin

text \<open>
  Shared vocabulary of the development: machine-word and byte-buffer types, bounds-checked
  little-endian reads of a byte buffer and the matching writers, C string helpers, and the
  interfaces (locales) that several components provide or rely on.

  A byte buffer of the program (a \<open>const uint8_t*\<close> with a size, a \<open>std::vector<uint8_t>\<close>) is
  a list of bytes. Every read is bounds checked in the model: \<open>None\<close> stands for an access
  outside the buffer, which in the C++ code is undefined behaviour. A theorem that a parser's
  result is not \<open>None\<close> is therefore a memory-safety theorem.
\<close>

unbundle bit_operations_syntax

section \<open>Types\<close>

type_synonym byte = "8 word"
type_synonym bytes = "8 word list"
type_synonym u16 = "16 word"
type_synonym u32 = "32 word"
type_synonym u64 = "64 word"

named_theorems rd_simps \<open>evaluation of reads of a buffer written by concatenation\<close>
named_theorems width_simps \<open>lengths of encoded fields\<close>

section \<open>Little-endian reads\<close>

definition le16 :: "byte \<Rightarrow> byte \<Rightarrow> u16" where
  "le16 a b = ucast a OR push_bit 8 (ucast b)"

definition le32 :: "byte \<Rightarrow> byte \<Rightarrow> byte \<Rightarrow> byte \<Rightarrow> u32" where
  "le32 a b c d =
     ucast a OR push_bit 8 (ucast b) OR push_bit 16 (ucast c) OR push_bit 24 (ucast d)"

definition le64 :: "u32 \<Rightarrow> u32 \<Rightarrow> u64" where
  "le64 lo hi = ucast lo OR push_bit 32 (ucast hi)"

definition rd8 :: "bytes \<Rightarrow> nat \<Rightarrow> byte option" where
  "rd8 b i = (if i < length b then Some (b ! i) else None)"

definition rd16 :: "bytes \<Rightarrow> nat \<Rightarrow> u16 option" where
  "rd16 b i = (if i + 2 \<le> length b then Some (le16 (b ! i) (b ! (i + 1))) else None)"

definition rd32 :: "bytes \<Rightarrow> nat \<Rightarrow> u32 option" where
  "rd32 b i = (if i + 4 \<le> length b
     then Some (le32 (b ! i) (b ! (i + 1)) (b ! (i + 2)) (b ! (i + 3))) else None)"

definition rd64 :: "bytes \<Rightarrow> nat \<Rightarrow> u64 option" where
  "rd64 b i = do { lo \<leftarrow> rd32 b i; hi \<leftarrow> rd32 b (i + 4); Some (le64 lo hi) }"

text \<open>\<open>memcpy\<close> of \<open>n\<close> bytes out of a buffer, from offset \<open>i\<close>.\<close>

definition slice :: "bytes \<Rightarrow> nat \<Rightarrow> nat \<Rightarrow> bytes option" where
  "slice b i n = (if i + n \<le> length b then Some (take n (drop i b)) else None)"

text \<open>A loop that reads \<open>n\<close> consecutive fields of \<open>w\<close> bytes each.\<close>

fun read_array :: "(bytes \<Rightarrow> nat \<Rightarrow> 'a option) \<Rightarrow> nat \<Rightarrow> bytes \<Rightarrow> nat \<Rightarrow> nat \<Rightarrow> 'a list option"
where
  "read_array rd w b i 0 = Some []"
| "read_array rd w b i (Suc n) =
     do { x \<leftarrow> rd b i; xs \<leftarrow> read_array rd w b (i + w) n; Some (x # xs) }"

section \<open>Little-endian writes\<close>

definition put16 :: "u16 \<Rightarrow> bytes" where
  "put16 w = [ucast w, ucast (drop_bit 8 w)]"

definition put32 :: "u32 \<Rightarrow> bytes" where
  "put32 w = [ucast w, ucast (drop_bit 8 w), ucast (drop_bit 16 w), ucast (drop_bit 24 w)]"

definition put64 :: "u64 \<Rightarrow> bytes" where
  "put64 w = put32 (ucast w) @ put32 (ucast (drop_bit 32 w))"

lemma length_put [simp, width_simps]:
  "length (put16 a) = 2" "length (put32 b) = 4" "length (put64 c) = 8"
  by (simp_all add: put16_def put32_def put64_def)

lemma le16_put: "le16 (ucast w) (ucast (drop_bit 8 w)) = w"
  by (rule bit_word_eqI) (auto simp: le16_def bit_simps)

lemma le32_put:
  "le32 (ucast w) (ucast (drop_bit 8 w)) (ucast (drop_bit 16 w)) (ucast (drop_bit 24 w)) = w"
proof (rule bit_word_eqI)
  fix n assume n: "n < LENGTH(32)"
  consider "n < 8" | "8 \<le> n" "n < 16" | "16 \<le> n" "n < 24" | "24 \<le> n" by linarith
  then show "bit (le32 (ucast w) (ucast (drop_bit 8 w)) (ucast (drop_bit 16 w))
      (ucast (drop_bit 24 w))) n \<longleftrightarrow> bit w n"
    using n by cases (auto simp: le32_def bit_simps)
qed

lemma le64_put: "le64 (ucast w) (ucast (drop_bit 32 w)) = w"
  by (rule bit_word_eqI) (auto simp: le64_def bit_simps)

section \<open>Bit patterns by arithmetic\<close>

lemma nat_or_low: "x < 2 ^ k \<Longrightarrow> (m * 2 ^ k) OR x = m * 2 ^ k + (x :: nat)"
proof -
  assume "x < 2 ^ k"
  then have "take_bit k x = x" by (simp add: take_bit_nat_eq_self)
  moreover have "push_bit k m AND take_bit k x = 0"
    by (rule bit_eqI) (simp add: bit_simps)
  ultimately have "push_bit k m + x = push_bit k m OR x"
    by (simp add: disjunctive_add_eq_or)
  then show ?thesis by (simp add: push_bit_eq_mult)
qed

lemma nat_or_consts:
  "x < 64 \<Longrightarrow> (128 :: nat) OR x = 128 + x" "x < 64 \<Longrightarrow> (192 :: nat) OR x = 192 + x"
  "x < 16 \<Longrightarrow> (224 :: nat) OR x = 224 + x" "x < 8 \<Longrightarrow> (240 :: nat) OR x = 240 + x"
  using nat_or_low [of x 6 2] nat_or_low [of x 6 3] nat_or_low [of x 4 14] nat_or_low [of x 3 30]
  by simp_all

lemma nat_and_63: "(n :: nat) AND 63 = n mod 64"
  using take_bit_eq_mask [of 6 n] by (simp add: take_bit_eq_mod mask_eq_exp_minus_1)

lemma ucast8_eq: "(ucast (w :: u32) :: byte) = word_of_nat (unat w)"
  by (rule bit_word_eqI) (simp add: bit_simps)

lemma unat_of_nat8: "n < 2 ^ 8 \<Longrightarrow> unat (word_of_nat n :: byte) = n"
  by (simp add: unsigned_of_nat take_bit_nat_eq_self)

lemma bit_unat_iff: "bit w n \<longleftrightarrow> odd (unat w div 2 ^ n)" for w :: "'a::len word"
proof -
  have "bit w n \<longleftrightarrow> bit (unat w) n" by (simp add: bit_unsigned_iff)
  then show ?thesis by (simp only: bit_iff_odd)
qed

lemma odd_top_half: "n < 2 * m \<Longrightarrow> odd (n div m) \<longleftrightarrow> m \<le> n" for n m :: nat
  by (cases "n < m") (simp_all add: le_div_geq)

lemma top_bit8: "(w :: byte) AND 0x80 = 0 \<longleftrightarrow> unat w < 0x80"
proof -
  have "unat w < 256" by (rule order_less_le_trans [OF unsigned_less]) simp
  then have "odd (unat w div 128) \<longleftrightarrow> 128 \<le> unat w" by (intro odd_top_half) simp
  moreover have "w AND 2 ^ 7 = 0 \<longleftrightarrow> even (unat w div 2 ^ 7)"
    by (simp only: and_exp_eq_0_iff_not_bit bit_unat_iff not_not)
  ultimately show ?thesis by (auto simp: not_le)
qed

lemma top_bit16: "(v :: u16) AND 0x8000 = 0 \<longleftrightarrow> unat v < 0x8000"
proof -
  have "unat v < 65536" by (rule order_less_le_trans [OF unsigned_less]) simp
  then have "odd (unat v div 32768) \<longleftrightarrow> 32768 \<le> unat v" by (intro odd_top_half) simp
  moreover have "v AND 2 ^ 15 = 0 \<longleftrightarrow> even (unat v div 2 ^ 15)"
    by (simp only: and_exp_eq_0_iff_not_bit bit_unat_iff not_not)
  ultimately show ?thesis by (auto simp: not_le)
qed

lemmas top_bit_zero_iff = top_bit8 top_bit16

section \<open>Evaluating reads\<close>

lemma rd8_hd [rd_simps]: "rd8 (x # xs) 0 = Some x"
  by (simp add: rd8_def)

lemma rd16_put [rd_simps]: "rd16 (put16 w @ ys) 0 = Some w"
  by (simp add: rd16_def put16_def le16_put)

lemma rd32_put [rd_simps]: "rd32 (put32 w @ ys) 0 = Some w"
  by (simp add: rd32_def put32_def le32_put numeral_3_eq_3 numeral_2_eq_2)

lemma rd_shift:
  "rd8 (xs @ ys) (length xs + i) = rd8 ys i"
  "rd16 (xs @ ys) (length xs + i) = rd16 ys i"
  "rd32 (xs @ ys) (length xs + i) = rd32 ys i"
  by (simp_all add: rd8_def rd16_def rd32_def nth_append add.assoc)

lemma rd64_shift: "rd64 (xs @ ys) (length xs + i) = rd64 ys i"
  by (simp add: rd64_def rd_shift add.assoc)

lemma rd64_put [rd_simps]: "rd64 (put64 w @ ys) 0 = Some w"
proof -
  have "rd32 (put32 (ucast w) @ put32 (ucast (drop_bit 32 w)) @ ys) (length (put32 (ucast w)) + 0)
      = rd32 (put32 (ucast (drop_bit 32 w)) @ ys) 0"
    by (rule rd_shift)
  then show ?thesis
    by (simp add: rd64_def put64_def rd32_put le64_put)
qed

lemma rd_skip [rd_simps]:
  assumes "length xs \<le> i"
  shows "rd8 (xs @ ys) i = rd8 ys (i - length xs)"
    and "rd16 (xs @ ys) i = rd16 ys (i - length xs)"
    and "rd32 (xs @ ys) i = rd32 ys (i - length xs)"
    and "rd64 (xs @ ys) i = rd64 ys (i - length xs)"
  using assms rd_shift [of xs ys "i - length xs"] rd64_shift [of xs ys "i - length xs"] by simp_all

lemma rd_Cons [rd_simps]:
  assumes "0 < i"
  shows "rd8 (x # xs) i = rd8 xs (i - 1)" and "rd16 (x # xs) i = rd16 xs (i - 1)"
    and "rd32 (x # xs) i = rd32 xs (i - 1)" and "rd64 (x # xs) i = rd64 xs (i - 1)"
  using assms rd_skip [of "[x]" i xs] by simp_all

lemma ucast_widen [simp]: "ucast (ucast (x :: byte) :: u16) = x"
  by (rule bit_word_eqI) (simp add: bit_simps)

lemma unat_of_nat16: "n < 2 ^ 16 \<Longrightarrow> unat (word_of_nat n :: u16) = n"
  by (simp add: unsigned_of_nat take_bit_nat_eq_self)

lemma unat_of_nat32: "n < 2 ^ 32 \<Longrightarrow> unat (word_of_nat n :: u32) = n"
  by (simp add: unsigned_of_nat take_bit_nat_eq_self)

lemma unat_of_nat64: "n < 2 ^ 64 \<Longrightarrow> unat (word_of_nat n :: u64) = n"
  by (simp add: unsigned_of_nat take_bit_nat_eq_self)

lemma rd_total:
  "i < length b \<Longrightarrow> \<exists>v. rd8 b i = Some v"
  "i + 2 \<le> length b \<Longrightarrow> \<exists>v. rd16 b i = Some v"
  "i + 4 \<le> length b \<Longrightarrow> \<exists>v. rd32 b i = Some v"
  "i + 8 \<le> length b \<Longrightarrow> \<exists>v. rd64 b i = Some v"
  by (simp_all add: rd8_def rd16_def rd32_def rd64_def)

lemma rd_bound:
  "rd8 b i = Some v8 \<Longrightarrow> i < length b"
  "rd16 b i = Some v16 \<Longrightarrow> i + 2 \<le> length b"
  "rd32 b i = Some v32 \<Longrightarrow> i + 4 \<le> length b"
  "rd64 b i = Some v64 \<Longrightarrow> i + 8 \<le> length b"
  by (auto simp: rd8_def rd16_def rd32_def rd64_def bind_eq_Some_conv split: if_splits)

lemma slice_shift: "slice (xs @ ys) (length xs + i) n = slice ys i n"
  by (simp add: slice_def add.assoc)

lemma slice_skip [rd_simps]: "length xs \<le> i \<Longrightarrow> slice (xs @ ys) i n = slice ys (i - length xs) n"
  using slice_shift [of xs ys "i - length xs" n] by simp

lemma slice_prefix [rd_simps]: "n = length xs \<Longrightarrow> slice (xs @ ys) 0 n = Some xs"
  by (simp add: slice_def)

lemma slice_all [rd_simps]: "n = length xs \<Longrightarrow> slice xs 0 n = Some xs"
  by (simp add: slice_def)

lemma slice_eq_Some_iff: "slice b i n = Some s \<longleftrightarrow> i + n \<le> length b \<and> s = take n (drop i b)"
  by (auto simp: slice_def)

lemma slice_length: "slice b i n = Some s \<Longrightarrow> length s = n"
  by (auto simp: slice_def split: if_splits)

text \<open>Code equations that walk the buffer once.\<close>

lemma rd_drop: "rd8 b i = rd8 (drop i b) 0" "rd16 b i = rd16 (drop i b) 0" "rd32 b i = rd32 (drop i b) 0"
  by (auto simp: rd8_def rd16_def rd32_def)

lemma rd_head:
  "rd8 xs 0 = (case xs of x # _ \<Rightarrow> Some x | [] \<Rightarrow> None)"
  "rd16 xs 0 = (case xs of x # y # _ \<Rightarrow> Some (le16 x y) | _ \<Rightarrow> None)"
  "rd32 xs 0 = (case xs of x # y # z # w # _ \<Rightarrow> Some (le32 x y z w) | _ \<Rightarrow> None)"
  by (auto simp: rd8_def rd16_def rd32_def numeral_2_eq_2 numeral_3_eq_3 split: list.splits)

lemma rd_code [code]:
  "rd8 b i = (case drop i b of x # _ \<Rightarrow> Some x | [] \<Rightarrow> None)"
  "rd16 b i = (case drop i b of x # y # _ \<Rightarrow> Some (le16 x y) | _ \<Rightarrow> None)"
  "rd32 b i = (case drop i b of x # y # z # w # _ \<Rightarrow> Some (le32 x y z w) | _ \<Rightarrow> None)"
  by (subst rd_drop, rule rd_head)+

lemma slice_code [code]:
  "slice b i n = (if n = 0 then (if i \<le> length b then Some [] else None)
     else let s = take n (drop i b) in if length s = n then Some s else None)"
  by (auto simp: slice_def Let_def min_def)

text \<open>A store of \<open>bs\<close> at offset \<open>i\<close> of a buffer; \<open>None\<close> is a write outside it.\<close>

definition poke :: "bytes \<Rightarrow> nat \<Rightarrow> bytes \<Rightarrow> bytes option" where
  "poke b i bs = (if i + length bs \<le> length b
     then Some (take i b @ bs @ drop (i + length bs) b) else None)"

lemma poke_length: "poke b i bs = Some b' \<Longrightarrow> length b' = length b"
  by (auto simp: poke_def split: if_splits)

lemma poke_fits: "i + length bs \<le> length b \<Longrightarrow> \<exists>b'. poke b i bs = Some b'"
  by (simp add: poke_def)

lemma poke_nth:
  assumes "poke b i bs = Some b'" "j < length b"
  shows "b' ! j = (if i \<le> j \<and> j < i + length bs then bs ! (j - i) else b ! j)"
  using assms by (auto simp: poke_def nth_append min_def split: if_splits)

text \<open>Reading back: a slice disjoint from the store is unchanged, the stored slice is the value.\<close>

lemma slice_poke_same: "poke b i bs = Some b' \<Longrightarrow> slice b' i (length bs) = Some bs"
  by (auto simp: poke_def slice_def split: if_splits)

lemma slice_poke_other:
  assumes "poke b i bs = Some b'" "j + n \<le> i \<or> i + length bs \<le> j"
  shows "slice b' j n = slice b j n"
proof (cases "j + n \<le> length b")
  case True
  have "take n (drop j b') = take n (drop j b)"
    using assms True poke_length [OF assms(1)]
    by (intro nth_equalityI) (auto simp: poke_nth [OF assms(1)])
  then show ?thesis using True poke_length [OF assms(1)] by (simp add: slice_def)
qed (use poke_length [OF assms(1)] in \<open>simp add: slice_def\<close>)

section \<open>Interface: a fixed-width field codec\<close>

text \<open>
  What the parsers rely on of a field reader: it decodes what the writer encodes at any
  position, depends only on the bytes from its offset on, and fails exactly when the field does
  not fit. Provided by the 16, 32 and 64 bit little-endian readers below; the array lemmas are
  proved once.
\<close>

locale field_codec =
  fixes enc :: "'a \<Rightarrow> bytes" and rd :: "bytes \<Rightarrow> nat \<Rightarrow> 'a option" and w :: nat
  assumes enc_width: "length (enc a) = w"
    and rd_enc: "rd (enc a @ ys) 0 = Some a"
    and rd_move: "rd (xs @ ys) (length xs + i) = rd ys i"
    and rd_fits: "rd b i \<noteq> None \<longleftrightarrow> i + w \<le> length b"
begin

lemma rd_at: "rd (xs @ enc a @ ys) (length xs) = Some a"
  using rd_move [of xs "enc a @ ys" 0] by (simp add: rd_enc)

lemma rd_slice: "slice b i w = Some (enc a) \<Longrightarrow> rd b i = Some a"
proof -
  assume s: "slice b i w = Some (enc a)"
  then have l: "i + w \<le> length b" "take w (drop i b) = enc a" by (simp_all add: slice_def split: if_splits)
  then have "b = take i b @ enc a @ drop w (drop i b)" by (metis append_take_drop_id)
  moreover have "length (take i b) = i" using l(1) by simp
  ultimately show ?thesis using rd_at [of "take i b" a "drop w (drop i b)"] by simp
qed

lemma array_move: "read_array rd w (xs @ ys) (length xs + i) n = read_array rd w ys i n"
  by (induction n arbitrary: i) (simp_all add: rd_move add.assoc)

lemma array_enc: "read_array rd w (concat (map enc as) @ ys) 0 (length as) = Some as"
proof (induction as)
  case Nil
  show ?case by simp
next
  case (Cons a as)
  have "read_array rd w (enc a @ concat (map enc as) @ ys) (length (enc a) + 0) (length as)
      = read_array rd w (concat (map enc as) @ ys) 0 (length as)"
    by (rule array_move)
  then show ?case
    by (simp add: rd_enc enc_width Cons.IH)
qed

lemma array_at: "read_array rd w (xs @ concat (map enc as) @ ys) (length xs) (length as) = Some as"
  using array_move [of xs "concat (map enc as) @ ys" 0] by (simp add: array_enc)

lemma array_fits: "i + n * w \<le> length b \<Longrightarrow> \<exists>as. read_array rd w b i n = Some as \<and> length as = n"
proof (induction n arbitrary: i)
  case 0
  show ?case by simp
next
  case (Suc n)
  then have "i + w \<le> length b" "(i + w) + n * w \<le> length b" by simp_all
  then obtain x as where "rd b i = Some x" "read_array rd w b (i + w) n = Some as" "length as = n"
    using rd_fits [of b i] Suc.IH [of "i + w"] by auto
  then show ?case by simp
qed

lemma array_overrun: "0 < n \<Longrightarrow> length b < i + n * w \<Longrightarrow> read_array rd w b i n = None"
proof (induction n arbitrary: i)
  case 0
  then show ?case by simp
next
  case (Suc n)
  show ?case
  proof (cases "n = 0")
    case True
    then have "rd b i = None" using Suc.prems rd_fits [of b i] by auto
    then show ?thesis by simp
  next
    case False
    then have "read_array rd w b (i + w) n = None"
      using Suc.IH [of "i + w"] Suc.prems by simp
    then show ?thesis by (cases "rd b i") simp_all
  qed
qed

end

lemma rd_None_iff:
  "rd16 b i = None \<longleftrightarrow> length b < i + 2"
  "rd32 b i = None \<longleftrightarrow> length b < i + 4"
  "rd64 b i = None \<longleftrightarrow> length b < i + 8"
  by (auto simp: rd16_def rd32_def rd64_def)

interpretation f16: field_codec put16 rd16 2
  by unfold_locales (auto simp: rd16_put rd_shift rd_None_iff)

interpretation f32: field_codec put32 rd32 4
  by unfold_locales (auto simp: rd32_put rd_shift rd_None_iff)

interpretation f64: field_codec put64 rd64 8
  by unfold_locales (auto simp: rd64_put rd64_shift rd_None_iff)

section \<open>Interface: a machine driven by a sequence of operations\<close>

text \<open>
  Several components are objects whose public operations are called in any order. The contract
  is an invariant that every operation keeps; the extension adds an abstract machine that every
  operation simulates. Histories are lists of operations, run from left to right.
\<close>

locale op_machine =
  fixes step :: "'s \<Rightarrow> 'op \<Rightarrow> 's" and inv :: "'s \<Rightarrow> bool"
  assumes step_inv: "inv s \<Longrightarrow> inv (step s x)"
begin

lemma run_inv: "inv s \<Longrightarrow> inv (foldl step s xs)"
  by (induction xs arbitrary: s) (auto intro: step_inv)

lemma run_append: "foldl step s (xs @ ys) = foldl step (foldl step s xs) ys"
  by simp

end

locale simulated_machine = op_machine step inv
  for step :: "'s \<Rightarrow> 'op \<Rightarrow> 's" and inv +
  fixes abs :: "'s \<Rightarrow> 'a" and astep :: "'a \<Rightarrow> 'op \<Rightarrow> 'a"
  assumes step_sim: "inv s \<Longrightarrow> abs (step s x) = astep (abs s) x"
begin

lemma run_sim: "inv s \<Longrightarrow> abs (foldl step s xs) = foldl astep (abs s) xs"
  by (induction xs arbitrary: s) (simp_all add: step_sim step_inv)

end

text \<open>Histories of calls that may be undefined, and the side of the client in them.\<close>

fun run_calls :: "('s \<Rightarrow> 'c \<Rightarrow> 's option) \<Rightarrow> 's \<Rightarrow> 'c list \<Rightarrow> 's option" where
  "run_calls step s [] = Some s"
| "run_calls step s (c # cs) = (case step s c of None \<Rightarrow> None | Some s' \<Rightarrow> run_calls step s' cs)"

fun calls_ok :: "('s \<Rightarrow> 'c \<Rightarrow> 's option) \<Rightarrow> ('s \<Rightarrow> 'c \<Rightarrow> bool) \<Rightarrow> 's \<Rightarrow> 'c list \<Rightarrow> bool" where
  "calls_ok step ok s [] = True"
| "calls_ok step ok s (c # cs) \<longleftrightarrow> ok s c \<and> (case step s c of None \<Rightarrow> True | Some s' \<Rightarrow> calls_ok step ok s' cs)"

text \<open>Calls that are defined when the client keeps its side, and then keep an invariant; the extension adds an abstract machine.\<close>

locale guarded_machine =
  fixes step :: "'s \<Rightarrow> 'c \<Rightarrow> 's option" and ok :: "'s \<Rightarrow> 'c \<Rightarrow> bool" and inv :: "'s \<Rightarrow> bool"
  assumes step_defined: "inv s \<Longrightarrow> ok s c \<Longrightarrow> \<exists>s'. step s c = Some s' \<and> inv s'"
begin

lemma run_defined: "inv s \<Longrightarrow> calls_ok step ok s cs \<Longrightarrow> \<exists>s'. run_calls step s cs = Some s' \<and> inv s'"
proof (induction cs arbitrary: s)
  case (Cons c cs)
  obtain s' where "step s c = Some s'" "inv s'" using step_defined[OF Cons.prems(1)] Cons.prems(2) by auto
  then show ?case using Cons by simp
qed simp

end

locale guarded_simulation = guarded_machine step ok inv
  for step :: "'s \<Rightarrow> 'c \<Rightarrow> 's option" and ok and inv +
  fixes abs :: "'s \<Rightarrow> 'a" and astep :: "'a \<Rightarrow> 'c \<Rightarrow> 'a"
  assumes step_abs: "inv s \<Longrightarrow> ok s c \<Longrightarrow> step s c = Some s' \<Longrightarrow> abs s' = astep (abs s) c"
begin

lemma run_abs:
  "inv s \<Longrightarrow> calls_ok step ok s cs \<Longrightarrow> \<exists>s'. run_calls step s cs = Some s' \<and> inv s' \<and> abs s' = foldl astep (abs s) cs"
proof (induction cs arbitrary: s)
  case (Cons c cs)
  have ok: "ok s c" using Cons.prems(2) by simp
  obtain s' where s: "step s c = Some s'" "inv s'" using step_defined[OF Cons.prems(1) ok] by blast
  then show ?case using Cons.IH[OF s(2)] Cons.prems(2) step_abs[OF Cons.prems(1) ok s(1)] by simp
qed simp

end

section \<open>Signed 32-bit range\<close>

definition int32 :: "int \<Rightarrow> bool" where
  "int32 i \<longleftrightarrow> - (2 ^ 31) \<le> i \<and> i < 2 ^ 31"

lemma int32_consts [simp]: "int32 0" "int32 (- 1)"
  by (simp_all add: int32_def)

lemma int32_sint [simp]: "int32 (sint (w :: u32))"
  using sint_ge [of w] sint_lt [of w] by (simp add: int32_def)

lemma sint_small: "- (2 ^ 31) \<le> x \<Longrightarrow> x < 2 ^ 31 \<Longrightarrow> sint (word_of_int x :: u32) = x"
  by (simp add: signed_of_int signed_take_bit_int_eq_self)

lemma sint_unat: "unat (w :: u32) < 2 ^ 31 \<Longrightarrow> sint w = int (unat w)"
proof -
  assume a: "unat w < 2 ^ 31"
  have "- (2 ^ 31) \<le> int (unat w)" by (rule order_trans [OF _ of_nat_0_le_iff]) simp
  moreover have "int (unat w) < int (2 ^ 31)" using a by (simp only: of_nat_less_iff)
  then have "int (unat w) < 2 ^ 31" by (simp only: of_nat_power of_nat_numeral)
  ultimately have "sint (word_of_int (int (unat w)) :: u32) = int (unat w)" by (rule sint_small)
  then show ?thesis by simp
qed

section \<open>Byte strings\<close>

text \<open>\<open>std::string\<close> values are byte sequences; literals are compared as \<open>string\<close>s.\<close>

definition chars :: "bytes \<Rightarrow> string" where
  "chars bs = map (\<lambda>b. char_of (unat b)) bs"

definition bytes_of :: "string \<Rightarrow> bytes" where
  "bytes_of s = map (\<lambda>c. word_of_nat (of_char c)) s"

lemma length_chars [simp]: "length (chars bs) = length bs"
  by (simp add: chars_def)

lemma length_bytes_of [simp, width_simps]: "length (bytes_of s) = length s"
  by (simp add: bytes_of_def)

lemma chars_append [simp]: "chars (xs @ ys) = chars xs @ chars ys"
  by (simp add: chars_def)

lemma chars_Nil_iff [simp]: "chars bs = [] \<longleftrightarrow> bs = []"
  by (simp add: chars_def)

lemma chars_bytes_of [simp]: "chars (bytes_of s) = s"
proof -
  have "char_of (unat (word_of_nat (of_char c) :: byte)) = c" for c
    by (simp add: unsigned_of_nat take_bit_nat_eq_self)
  then show ?thesis by (simp add: chars_def bytes_of_def comp_def)
qed

lemma bytes_of_chars [simp]: "bytes_of (chars bs) = bs"
proof -
  have "word_of_nat (of_char (char_of (unat (b :: byte)))) = b" for b
  proof -
    have "unat b < 256" by (rule order_less_le_trans [OF unsigned_less]) simp
    then show ?thesis by simp
  qed
  then show ?thesis by (simp add: chars_def bytes_of_def comp_def)
qed

lemma chars_inject [simp]: "chars xs = chars ys \<longleftrightarrow> xs = ys"
  by (metis bytes_of_chars)

text \<open>The C string that starts at the head of a buffer, cut at \<open>n\<close> bytes: \<open>strnlen\<close>.\<close>

definition strn :: "nat \<Rightarrow> bytes \<Rightarrow> bytes" where
  "strn n b = takeWhile (\<lambda>x. x \<noteq> 0) (take n b)"

lemma strn_no_nul: "0 \<notin> set (strn n b)"
  by (auto simp: strn_def dest: set_takeWhileD)

lemma length_strn: "length (strn n b) \<le> n"
  unfolding strn_def by (rule order_trans [OF length_takeWhile_le]) simp

lemma strn_padded: "0 \<notin> set s \<Longrightarrow> length s \<le> n \<Longrightarrow> strn n (s @ replicate k 0) = s"
  by (cases k; cases "n - length s") (auto simp: strn_def takeWhile_append takeWhile_eq_all_conv [THEN iffD2])

lemma strn_closed: "0 \<notin> set s \<Longrightarrow> length s < n \<Longrightarrow> strn n (s @ 0 # ys) = s"
  by (cases "n - length s") (auto simp: strn_def takeWhile_append takeWhile_eq_all_conv [THEN iffD2])

end
