(* ===== verification/AxmlParser.thy ===== *)
theory AxmlParser
  imports Prelude
begin

text \<open>
  The binary XML (AXML) pull parser of the package manager bridge:
  \<open>framework/package-manager/jni/axml_parser.cpp\<close> and \<open>axml_parser.h\<close>. The document is a byte
  buffer; pointers into it (\<open>cur_\<close>, \<open>strings_\<close>, \<open>curAttrs_\<close>) are offsets, \<open>nullptr\<close> is
  \<open>None\<close>. Every operation returns an \<open>option\<close>: \<open>None\<close> is a read outside the buffer.
  The first part holds the definitions, the second the cursor invariant and progress of
  \<open>next\<close>, the third a reference encoder with the round trip through \<open>setTo\<close>, \<open>next\<close> and the
  attribute accessors, and the fourth string decoding (UTF-16 to UTF-8, length prefixes, the
  string cache).
\<close>

section \<open>Constants and state\<close>

definition RES_STRING_POOL_TYPE :: u16 where "RES_STRING_POOL_TYPE = 0x0001"
definition RES_XML_TYPE :: u16 where "RES_XML_TYPE = 0x0003"
definition RES_XML_FIRST_CHUNK_TYPE :: u16 where "RES_XML_FIRST_CHUNK_TYPE = 0x0100"
definition RES_XML_START_ELEMENT_TYPE :: u16 where "RES_XML_START_ELEMENT_TYPE = 0x0102"
definition RES_XML_END_ELEMENT_TYPE :: u16 where "RES_XML_END_ELEMENT_TYPE = 0x0103"
definition RES_XML_LAST_CHUNK_TYPE :: u16 where "RES_XML_LAST_CHUNK_TYPE = 0x017f"
definition RES_XML_RESOURCE_MAP_TYPE :: u16 where "RES_XML_RESOURCE_MAP_TYPE = 0x0180"
definition UTF8_FLAG :: u32 where "UTF8_FLAG = 0x100"

lemmas axml_consts =
  RES_STRING_POOL_TYPE_def RES_XML_TYPE_def RES_XML_FIRST_CHUNK_TYPE_def
  RES_XML_START_ELEMENT_TYPE_def RES_XML_END_ELEMENT_TYPE_def RES_XML_LAST_CHUNK_TYPE_def
  RES_XML_RESOURCE_MAP_TYPE_def UTF8_FLAG_def

datatype EventCode =
    EC_NOT_STARTED | EC_BAD_DOCUMENT | EC_START_DOCUMENT | EC_END_DOCUMENT
  | EC_START_NAMESPACE | EC_END_NAMESPACE | EC_START_TAG | EC_END_TAG | EC_TEXT

record ResValue =
  rv_size :: byte
  rv_res0 :: byte
  rv_dataType :: byte
  rv_data :: u32

definition TYPE_REFERENCE :: byte where "TYPE_REFERENCE = 0x01"
definition TYPE_STRING :: byte where "TYPE_STRING = 0x03"
definition TYPE_INT_DEC :: byte where "TYPE_INT_DEC = 0x10"
definition TYPE_INT_HEX :: byte where "TYPE_INT_HEX = 0x11"
definition TYPE_INT_BOOLEAN :: byte where "TYPE_INT_BOOLEAN = 0x12"

lemmas res_types =
  TYPE_REFERENCE_def TYPE_STRING_def TYPE_INT_DEC_def TYPE_INT_HEX_def TYPE_INT_BOOLEAN_def

record axml =
  ax_doc :: bytes
  ax_isUtf8 :: bool
  ax_stringOffsets :: "u32 list"
  ax_strings :: nat
  ax_stringsSize :: nat
  ax_resourceMap :: "u32 list"
  ax_stringCache :: "bytes list"
  ax_stringCached :: "bool list"
  ax_cur :: "nat option"
  ax_end :: nat
  ax_event :: EventCode
  ax_curNameRef :: int
  ax_curAttrs :: "nat option"
  ax_curAttrSize :: u16
  ax_curAttrCount :: u16

definition axml_init :: axml where
  "axml_init = \<lparr>ax_doc = [], ax_isUtf8 = False, ax_stringOffsets = [], ax_strings = 0,
     ax_stringsSize = 0, ax_resourceMap = [], ax_stringCache = [], ax_stringCached = [],
     ax_cur = None, ax_end = 0, ax_event = EC_NOT_STARTED, ax_curNameRef = -1,
     ax_curAttrs = None, ax_curAttrSize = 0, ax_curAttrCount = 0\<rparr>"

section \<open>String decoding\<close>

definition parseUtf16Len :: "bytes \<Rightarrow> nat \<Rightarrow> (nat \<times> nat) option" where
  "parseUtf16Len b p = do {
     v \<leftarrow> rd16 b p;
     if v AND 0x8000 \<noteq> 0 then do {
       lo \<leftarrow> rd16 b (p + 2);
       let v' = (ucast ((push_bit 16 (ucast (v AND 0x7fff)) :: u32) OR ucast lo) :: u16);
       Some (p + 4, unat v') }
     else Some (p + 2, unat v) }"

definition parseUtf8Len :: "bytes \<Rightarrow> nat \<Rightarrow> (nat \<times> nat) option" where
  "parseUtf8Len b p = do {
     v \<leftarrow> rd8 b p;
     if v AND 0x80 \<noteq> 0 then do {
       lo \<leftarrow> rd8 b (p + 1);
       let v' = (ucast ((push_bit 8 (ucast (v AND 0x7f)) :: u32) OR ucast lo) :: byte);
       Some (p + 2, unat v') }
     else Some (p + 1, unat v) }"

text \<open>The body of the conversion loop: the UTF-8 bytes of one code point (lines 88 to 102).\<close>

definition emit_utf8 :: "u32 \<Rightarrow> bytes" where
  "emit_utf8 c =
     (if c < 0x80 then [ucast c]
      else if c < 0x800 then
        [ucast (0xC0 OR drop_bit 6 c), ucast (0x80 OR (c AND 0x3F))]
      else if c < 0x10000 then
        [ucast (0xE0 OR drop_bit 12 c), ucast (0x80 OR (drop_bit 6 c AND 0x3F)),
         ucast (0x80 OR (c AND 0x3F))]
      else
        [ucast (0xF0 OR drop_bit 18 c), ucast (0x80 OR (drop_bit 12 c AND 0x3F)),
         ucast (0x80 OR (drop_bit 6 c AND 0x3F)), ucast (0x80 OR (c AND 0x3F))])"

fun utf16ToUtf8 :: "u16 list \<Rightarrow> bytes" where
  "utf16ToUtf8 [] = []"
| "utf16ToUtf8 [c] = emit_utf8 (ucast c)"
| "utf16ToUtf8 (c # low # rest) =
     (if 0xD800 \<le> c \<and> c \<le> 0xDBFF \<and> 0xDC00 \<le> low \<and> low \<le> 0xDFFF
      then emit_utf8 (0x10000 + (push_bit 10 (ucast c - 0xD800) OR (ucast low - 0xDC00)))
             @ utf16ToUtf8 rest
      else emit_utf8 (ucast c) @ utf16ToUtf8 (low # rest))"

text \<open>The uncached part of \<open>getString\<close> (lines 191 to 202).\<close>

definition decodeString :: "axml \<Rightarrow> nat \<Rightarrow> bytes option" where
  "decodeString a off = (let b = ax_doc a; p = ax_strings a + off in
     if ax_isUtf8 a then do {
       (p1, _) \<leftarrow> parseUtf8Len b p;
       (p2, utf8Len) \<leftarrow> parseUtf8Len b p1;
       slice b p2 utf8Len }
     else do {
       (p1, cnt) \<leftarrow> parseUtf16Len b p;
       us \<leftarrow> read_array rd16 2 b p1 cnt;
       Some (utf16ToUtf8 us) })"

definition getString :: "axml \<Rightarrow> int \<Rightarrow> (bytes \<times> axml) option" where
  "getString a ref =
     (if ref < 0 \<or> nat ref \<ge> length (ax_stringOffsets a) then Some ([], a)
      else let r = nat ref in
        if ax_stringCached a ! r then Some (ax_stringCache a ! r, a)
        else let off = unat (ax_stringOffsets a ! r) in
          if off \<ge> ax_stringsSize a
          then Some (ax_stringCache a ! r, a\<lparr>ax_stringCached := (ax_stringCached a)[r := True]\<rparr>)
          else do {
            s \<leftarrow> decodeString a off;
            Some (s, a\<lparr>ax_stringCache := (ax_stringCache a)[r := s],
                       ax_stringCached := (ax_stringCached a)[r := True]\<rparr>) })"

section \<open>Loading a document\<close>

text \<open>The string pool branch (lines 141 to 158) and the resource map branch (159 to 165).\<close>

definition load_string_pool :: "axml \<Rightarrow> nat \<Rightarrow> u16 \<Rightarrow> u32 \<Rightarrow> axml option" where
  "load_string_pool a q cHeaderSize cSize = do {
     strCount \<leftarrow> rd32 (ax_doc a) (q + 8);
     flags \<leftarrow> rd32 (ax_doc a) (q + 16);
     strStart \<leftarrow> rd32 (ax_doc a) (q + 20);
     offs \<leftarrow> read_array rd32 4 (ax_doc a) (q + unat cHeaderSize) (unat strCount);
     Some (a\<lparr>ax_isUtf8 := (flags AND UTF8_FLAG \<noteq> 0),
             ax_stringOffsets := offs,
             ax_strings := q + unat strStart,
             ax_stringsSize := unat (cSize - strStart),
             ax_stringCache := replicate (unat strCount) [],
             ax_stringCached := replicate (unat strCount) False\<rparr>) }"

definition load_resource_map :: "axml \<Rightarrow> nat \<Rightarrow> u16 \<Rightarrow> u32 \<Rightarrow> axml option" where
  "load_resource_map a q cHeaderSize cSize = do {
     let entryCount = (cSize - ucast cHeaderSize) div 4;
     m \<leftarrow> read_array rd32 4 (ax_doc a) (q + unat cHeaderSize) (unat entryCount);
     Some (a\<lparr>ax_resourceMap := m\<rparr>) }"

function setTo_walk :: "axml \<Rightarrow> nat \<Rightarrow> nat \<Rightarrow> (int \<times> axml) option" where
  "setTo_walk a docEnd q =
     (if q + 8 \<le> docEnd then do {
        cType \<leftarrow> rd16 (ax_doc a) q;
        cHeaderSize \<leftarrow> rd16 (ax_doc a) (q + 2);
        cSize \<leftarrow> rd32 (ax_doc a) (q + 4);
        if unat cSize < 8 \<or> q + unat cSize > docEnd then Some (-1, a)
        else if cType = RES_STRING_POOL_TYPE then do {
          a' \<leftarrow> load_string_pool a q cHeaderSize cSize;
          setTo_walk a' docEnd (q + unat cSize) }
        else if cType = RES_XML_RESOURCE_MAP_TYPE then do {
          a' \<leftarrow> load_resource_map a q cHeaderSize cSize;
          setTo_walk a' docEnd (q + unat cSize) }
        else if RES_XML_FIRST_CHUNK_TYPE \<le> cType \<and> cType \<le> RES_XML_LAST_CHUNK_TYPE
        then Some (0, a\<lparr>ax_cur := Some q, ax_end := docEnd, ax_event := EC_START_DOCUMENT\<rparr>)
        else setTo_walk a docEnd (q + unat cSize) }
      else Some (-1, a))"
  by pat_completeness auto
termination
  by (relation "measure (\<lambda>(a, docEnd, q). docEnd - q)") auto

declare setTo_walk.simps [simp del]

definition setTo :: "axml \<Rightarrow> bytes \<Rightarrow> (int \<times> axml) option" where
  "setTo a data =
     (if length data < 8 then Some (-1, a)
      else do {
        topType \<leftarrow> rd16 data 0;
        topHeaderSize \<leftarrow> rd16 data 2;
        topSize \<leftarrow> rd32 data 4;
        if topType \<noteq> RES_XML_TYPE then Some (-1, a)
        else if unat topSize > length data then Some (-1, a)
        else setTo_walk (a\<lparr>ax_doc := data\<rparr>) (unat topSize) (unat topHeaderSize) })"

section \<open>The pull cursor\<close>

function next_loop :: "axml \<Rightarrow> nat \<Rightarrow> (EventCode \<times> axml) option" where
  "next_loop a c =
     (if c + 8 \<le> ax_end a then do {
        cType \<leftarrow> rd16 (ax_doc a) c;
        cHeaderSize \<leftarrow> rd16 (ax_doc a) (c + 2);
        cSize \<leftarrow> rd32 (ax_doc a) (c + 4);
        if unat cSize < 8 \<or> c + unat cSize > ax_end a
        then Some (EC_BAD_DOCUMENT, a\<lparr>ax_cur := Some c, ax_event := EC_BAD_DOCUMENT\<rparr>)
        else if cType = RES_XML_START_ELEMENT_TYPE then do {
          let ext = c + unat cHeaderSize;
          nameRef \<leftarrow> rd32 (ax_doc a) (ext + 4);
          attrStart \<leftarrow> rd16 (ax_doc a) (ext + 8);
          attrSize \<leftarrow> rd16 (ax_doc a) (ext + 10);
          attrCount \<leftarrow> rd16 (ax_doc a) (ext + 12);
          Some (EC_START_TAG,
            a\<lparr>ax_cur := Some (c + unat cSize), ax_curNameRef := sint nameRef,
              ax_curAttrs := Some (ext + unat attrStart), ax_curAttrSize := attrSize,
              ax_curAttrCount := attrCount, ax_event := EC_START_TAG\<rparr>) }
        else if cType = RES_XML_END_ELEMENT_TYPE then do {
          let ext = c + unat cHeaderSize;
          nameRef \<leftarrow> rd32 (ax_doc a) (ext + 4);
          Some (EC_END_TAG,
            a\<lparr>ax_cur := Some (c + unat cSize), ax_curNameRef := sint nameRef,
              ax_curAttrs := None, ax_curAttrSize := 0, ax_curAttrCount := 0,
              ax_event := EC_END_TAG\<rparr>) }
        else next_loop a (c + unat cSize) }
      else Some (EC_END_DOCUMENT, a\<lparr>ax_cur := Some c, ax_event := EC_END_DOCUMENT\<rparr>))"
  by pat_completeness auto
termination
  by (relation "measure (\<lambda>(a, c). ax_end a - c)") auto

declare next_loop.simps [simp del]

definition axml_next :: "axml \<Rightarrow> (EventCode \<times> axml) option" where
  "axml_next a =
     (if ax_event a = EC_END_DOCUMENT \<or> ax_event a = EC_BAD_DOCUMENT then Some (ax_event a, a)
      else case ax_cur a of
        None \<Rightarrow> Some (EC_BAD_DOCUMENT, a\<lparr>ax_event := EC_BAD_DOCUMENT\<rparr>)
      | Some c \<Rightarrow> next_loop a c)"

section \<open>Accessors of the current event\<close>

text \<open>
  The accessors are \<open>const\<close> methods; the string cache they fill is \<open>mutable\<close>. They return the
  string here, without the updated cache: by \<open>getString_memo\<close> below the string does not depend
  on what was cached before.
\<close>

definition getElementName :: "axml \<Rightarrow> bytes option option" where
  "getElementName a =
     (if ax_curNameRef a < 0 then Some None
      else do { (s, _) \<leftarrow> getString a (ax_curNameRef a); Some (Some s) })"

definition getAttributeCount :: "axml \<Rightarrow> nat" where
  "getAttributeCount a = unat (ax_curAttrCount a)"

text \<open>The guard and the address computation every attribute accessor opens with.\<close>

definition attr_ptr :: "axml \<Rightarrow> nat \<Rightarrow> nat option" where
  "attr_ptr a i =
     (if i \<ge> unat (ax_curAttrCount a) then None
      else case ax_curAttrs a of None \<Rightarrow> None
           | Some p \<Rightarrow> Some (p + i * unat (ax_curAttrSize a)))"

definition getAttributeName :: "axml \<Rightarrow> nat \<Rightarrow> bytes option option" where
  "getAttributeName a i =
     (case attr_ptr a i of
        None \<Rightarrow> Some None
      | Some p \<Rightarrow> do {
          nameRef \<leftarrow> rd32 (ax_doc a) (p + 4);
          (s, _) \<leftarrow> getString a (sint nameRef);
          Some (Some s) })"

definition getAttributeNameResID :: "axml \<Rightarrow> nat \<Rightarrow> u32 option" where
  "getAttributeNameResID a i =
     (case attr_ptr a i of
        None \<Rightarrow> Some 0
      | Some p \<Rightarrow> do {
          nameRef \<leftarrow> rd32 (ax_doc a) (p + 4);
          if sint nameRef \<ge> 0 \<and> nat (sint nameRef) < length (ax_resourceMap a)
          then Some (ax_resourceMap a ! nat (sint nameRef)) else Some 0 })"

definition getAttributeStringValue :: "axml \<Rightarrow> nat \<Rightarrow> bytes option option" where
  "getAttributeStringValue a i =
     (case attr_ptr a i of
        None \<Rightarrow> Some None
      | Some p \<Rightarrow> do {
          rawRef \<leftarrow> rd32 (ax_doc a) (p + 8);
          type \<leftarrow> rd8 (ax_doc a) (p + 15);
          data \<leftarrow> rd32 (ax_doc a) (p + 16);
          if sint rawRef \<ge> 0 then do { (s, _) \<leftarrow> getString a (sint rawRef); Some (Some s) }
          else if type = TYPE_STRING then do { (s, _) \<leftarrow> getString a (sint data); Some (Some s) }
          else Some None })"

definition getAttributeValue :: "axml \<Rightarrow> nat \<Rightarrow> ResValue option option" where
  "getAttributeValue a i =
     (case attr_ptr a i of
        None \<Rightarrow> Some None
      | Some p \<Rightarrow> do {
          sz \<leftarrow> rd16 (ax_doc a) (p + 12);
          r0 \<leftarrow> rd8 (ax_doc a) (p + 14);
          ty \<leftarrow> rd8 (ax_doc a) (p + 15);
          d \<leftarrow> rd32 (ax_doc a) (p + 16);
          Some (Some \<lparr>rv_size = ucast sz, rv_res0 = r0, rv_dataType = ty, rv_data = d\<rparr>) })"

section \<open>The cursor invariant and progress\<close>

definition ax_wf :: "axml \<Rightarrow> bool" where
  "ax_wf a \<longleftrightarrow> ax_end a \<le> length (ax_doc a) \<and> (\<forall>c. ax_cur a = Some c \<longrightarrow> c \<le> ax_end a)"

definition ax_left :: "axml \<Rightarrow> nat" where
  "ax_left a = (case ax_cur a of None \<Rightarrow> 0 | Some c \<Rightarrow> ax_end a - c)"

definition ax_frame :: "axml \<Rightarrow> axml \<Rightarrow> bool" where
  "ax_frame a a' \<longleftrightarrow> ax_doc a' = ax_doc a \<and> ax_end a' = ax_end a \<and> ax_isUtf8 a' = ax_isUtf8 a \<and>
     ax_stringOffsets a' = ax_stringOffsets a \<and> ax_strings a' = ax_strings a \<and>
     ax_stringsSize a' = ax_stringsSize a \<and> ax_resourceMap a' = ax_resourceMap a \<and>
     ax_stringCache a' = ax_stringCache a \<and> ax_stringCached a' = ax_stringCached a"

lemma next_loop_spec:
  assumes "next_loop a c = Some (ev, a')" "c \<le> ax_end a"
  shows "ax_frame a a' \<and> ax_event a' = ev \<and>
    (\<exists>c'. ax_cur a' = Some c' \<and> c \<le> c' \<and> c' \<le> ax_end a \<and>
       (case ev of EC_START_TAG \<Rightarrow> c + 8 \<le> c' | EC_END_TAG \<Rightarrow> c + 8 \<le> c'
        | EC_END_DOCUMENT \<Rightarrow> ax_end a < c' + 8 | EC_BAD_DOCUMENT \<Rightarrow> True | _ \<Rightarrow> False))"
  using assms
proof (induction a c rule: next_loop.induct)
  case (1 a c)
  show ?case
  proof (cases "c + 8 \<le> ax_end a")
    case False
    with "1.prems" show ?thesis
      by (subst (asm) next_loop.simps) (auto simp: ax_frame_def)
  next
    case True
    from "1.prems"(1) True obtain ty hs sz where
      rd: "rd16 (ax_doc a) c = Some ty" "rd16 (ax_doc a) (c + 2) = Some hs"
          "rd32 (ax_doc a) (c + 4) = Some sz"
      by (subst (asm) next_loop.simps) (auto simp: bind_eq_Some_conv)
    show ?thesis
    proof (cases "unat sz < 8 \<or> c + unat sz > ax_end a \<or> ty = RES_XML_START_ELEMENT_TYPE
        \<or> ty = RES_XML_END_ELEMENT_TYPE")
      case True2: True
      then show ?thesis
        using "1.prems" True rd
        by (subst (asm) next_loop.simps)
           (auto simp: ax_frame_def bind_eq_Some_conv Let_def split: if_splits)
    next
      case False
      then have "next_loop a (c + unat sz) = Some (ev, a')"
        using "1.prems" True rd by (subst (asm) next_loop.simps) auto
      then show ?thesis
        using "1.IH" [OF True rd] False by (fastforce split: EventCode.splits)
    qed
  qed
qed

lemma axml_next_wf:
  assumes "ax_wf a" "axml_next a = Some (ev, a')"
  shows "ax_wf a' \<and> ax_frame a a' \<and> ax_event a' = ev"
proof (cases "ax_event a = EC_END_DOCUMENT \<or> ax_event a = EC_BAD_DOCUMENT \<or> ax_cur a = None")
  case True
  with assms show ?thesis
    by (auto simp: axml_next_def ax_frame_def ax_wf_def split: if_splits option.splits)
next
  case False
  then obtain c where "ax_cur a = Some c" by auto
  with assms False have "next_loop a c = Some (ev, a')" "c \<le> ax_end a"
    by (auto simp: axml_next_def ax_wf_def)
  from next_loop_spec [OF this] assms(1) show ?thesis
    by (auto simp: ax_wf_def ax_frame_def)
qed

lemma next_loop_tag_left:
  assumes "next_loop a c = Some (ev, a')" "ev = EC_START_TAG \<or> ev = EC_END_TAG"
  shows "ax_left a' + 8 \<le> ax_end a - c"
proof (cases "c \<le> ax_end a")
  case True
  with next_loop_spec [OF assms(1)] assms(2) show ?thesis
    by (auto simp: ax_left_def ax_frame_def)
next
  case False
  with assms show ?thesis by (subst (asm) next_loop.simps) auto
qed

lemma axml_next_tag_left:
  assumes "axml_next a = Some (ev, a')" "ev = EC_START_TAG \<or> ev = EC_END_TAG"
  shows "ax_left a' + 8 \<le> ax_left a"
proof -
  from assms obtain c where "ax_cur a = Some c" "next_loop a c = Some (ev, a')"
    by (auto simp: axml_next_def split: if_splits option.splits)
  with next_loop_tag_left assms(2) show ?thesis by (simp add: ax_left_def)
qed

section \<open>Reference encoder\<close>

record node_attr =
  na_ns :: u32
  na_name :: u32
  na_raw :: u32
  na_value :: ResValue

datatype xnode =
    XStart u32 u32 u32 u32 "node_attr list"
  | XEnd u32 u32 u32 u32
  | XOther u16 bytes

definition enc_attr :: "node_attr \<Rightarrow> bytes" where
  "enc_attr x = put32 (na_ns x) @ put32 (na_name x) @ put32 (na_raw x)
     @ put16 (ucast (rv_size (na_value x))) @ [rv_res0 (na_value x)] @ [rv_dataType (na_value x)]
     @ put32 (rv_data (na_value x))"

fun enc_node :: "xnode \<Rightarrow> bytes" where
  "enc_node (XStart ln cm ns nm as) =
     put16 0x0102 @ put16 16 @ put32 (word_of_nat (36 + 20 * length as)) @ put32 ln @ put32 cm
     @ put32 ns @ put32 nm @ put16 20 @ put16 20 @ put16 (word_of_nat (length as))
     @ put16 0 @ put16 0 @ put16 0 @ concat (map enc_attr as)"
| "enc_node (XEnd ln cm ns nm) =
     put16 0x0103 @ put16 16 @ put32 24 @ put32 ln @ put32 cm @ put32 ns @ put32 nm"
| "enc_node (XOther t pl) = put16 t @ put16 8 @ put32 (word_of_nat (8 + length pl)) @ pl"

fun node_ok :: "xnode \<Rightarrow> bool" where
  "node_ok (XStart ln cm ns nm as) \<longleftrightarrow> length as < 2 ^ 16"
| "node_ok (XEnd ln cm ns nm) \<longleftrightarrow> True"
| "node_ok (XOther t pl) \<longleftrightarrow> 0x0100 \<le> t \<and> t \<le> 0x017f \<and> t \<noteq> 0x0102 \<and> t \<noteq> 0x0103
     \<and> 8 + length pl < 2 ^ 32"

lemma length_enc_attr [simp, width_simps]: "length (enc_attr x) = 20"
  by (simp add: enc_attr_def)

lemma length_enc_attrs [simp]: "length (concat (map enc_attr as)) = 20 * length as"
  by (induction as) simp_all

lemma length_enc_node [simp]:
  "length (enc_node n) = (case n of XStart _ _ _ _ as \<Rightarrow> 36 + 20 * length as
     | XEnd _ _ _ _ \<Rightarrow> 24 | XOther _ pl \<Rightarrow> 8 + length pl)"
  by (cases n) simp_all

definition start_state :: "axml \<Rightarrow> nat \<Rightarrow> u32 \<Rightarrow> nat \<Rightarrow> axml" where
  "start_state a c nm n = a\<lparr>ax_cur := Some (c + 36 + 20 * n), ax_curNameRef := sint nm,
     ax_curAttrs := Some (c + 36), ax_curAttrSize := 20, ax_curAttrCount := word_of_nat n,
     ax_event := EC_START_TAG\<rparr>"

definition end_state :: "axml \<Rightarrow> nat \<Rightarrow> u32 \<Rightarrow> axml" where
  "end_state a c nm = a\<lparr>ax_cur := Some (c + 24), ax_curNameRef := sint nm, ax_curAttrs := None,
     ax_curAttrSize := 0, ax_curAttrCount := 0, ax_event := EC_END_TAG\<rparr>"

lemma next_loop_node:
  assumes "ax_doc a = pre @ enc_node n @ post" "c = length pre" "node_ok n"
    "c + length (enc_node n) \<le> ax_end a"
  shows "next_loop a c = (case n of
      XStart _ _ _ nm as \<Rightarrow> Some (EC_START_TAG, start_state a c nm (length as))
    | XEnd _ _ _ nm \<Rightarrow> Some (EC_END_TAG, end_state a c nm)
    | XOther _ pl \<Rightarrow> next_loop a (c + (8 + length pl)))"
proof (cases n)
  case (XStart ln cm ns nm as)
  with assms have "36 + 20 * length as < 2 ^ 32" by simp
  note sz = unat_of_nat32 [OF this]
  show ?thesis
    using assms XStart
    by (subst next_loop.simps)
       (simp add: rd_shift rd_simps sz Let_def axml_consts start_state_def
         del: of_nat_add of_nat_mult of_nat_numeral)
next
  case (XEnd ln cm ns nm)
  show ?thesis
    using assms XEnd
    by (subst next_loop.simps)
       (simp add: rd_shift rd_simps Let_def axml_consts end_state_def)
next
  case (XOther t pl)
  with assms have "8 + length pl < 2 ^ 32" by simp
  note sz = unat_of_nat32 [OF this]
  show ?thesis
    using assms XOther
    by (subst next_loop.simps)
       (simp add: rd_shift rd_simps sz Let_def axml_consts
         del: of_nat_add of_nat_mult of_nat_numeral)
qed

text \<open>
  Fact (axml_next_progress): in every state whose cursor lies inside the document, a call of \<open>next\<close>
  that returns keeps the cursor inside the document, changes neither the document nor the loaded
  string pool and resource map, records the event it returns, and advances by at least eight bytes
  when it reports a tag, so that a client that pulls until the document ends makes finitely many
  calls.
\<close>

theorem axml_next_progress:
  assumes "ax_wf a" "axml_next a = Some (ev, a')"
  shows "ax_wf a' \<and> ax_frame a a' \<and> ax_event a' = ev
    \<and> (ev = EC_START_TAG \<or> ev = EC_END_TAG \<longrightarrow> ax_left a' + 8 \<le> ax_left a)"
  using axml_next_wf [OF assms] axml_next_tag_left [OF assms(2)] by blast

theorem axml_next_progress_witness:
  "ax_wf (axml_init\<lparr>ax_doc := enc_node (XEnd 0 0 0 5), ax_cur := Some 0, ax_end := 24\<rparr>) \<and>
   (\<exists>a'. axml_next (axml_init\<lparr>ax_doc := enc_node (XEnd 0 0 0 5), ax_cur := Some 0, ax_end := 24\<rparr>)
      = Some (EC_END_TAG, a') \<and> ax_wf a' \<and> ax_left a' + 8 \<le> 24)"
proof -
  let ?a = "axml_init\<lparr>ax_doc := enc_node (XEnd 0 0 0 5), ax_cur := Some 0, ax_end := 24\<rparr>"
  have wf: "ax_wf ?a" by (simp add: ax_wf_def)
  have nx: "axml_next ?a = Some (EC_END_TAG, end_state ?a 0 5)"
    using next_loop_node [of ?a "[]" "XEnd 0 0 0 5" "[]" 0]
    by (simp add: axml_next_def axml_init_def)
  have "ax_left ?a = 24" by (simp add: ax_left_def)
  with wf nx axml_next_progress [OF wf nx] show ?thesis by auto
qed

lemma attrs_split:
  "i < length as \<Longrightarrow> concat (map enc_attr as) =
     concat (map enc_attr (take i as)) @ enc_attr (as ! i) @ concat (map enc_attr (drop (Suc i) as))"
  by (metis concat_append id_take_nth_drop list.simps(9) map_append concat.simps(2))

lemma start_attr_at:
  assumes "ax_doc a = pre @ enc_node (XStart ln cm ns nm as) @ post" "i < length as"
  obtains xs ys where "ax_doc a = xs @ enc_attr (as ! i) @ ys" "length xs = length pre + 36 + i * 20"
proof -
  let ?h = "put16 0x0102 @ put16 16 @ put32 (word_of_nat (36 + 20 * length as)) @ put32 ln @ put32 cm
     @ put32 ns @ put32 nm @ put16 20 @ put16 20 @ put16 (word_of_nat (length as))
     @ put16 0 @ put16 0 @ put16 0"
  show thesis
  proof
    show "ax_doc a = (pre @ ?h @ concat (map enc_attr (take i as))) @ enc_attr (as ! i)
        @ (concat (map enc_attr (drop (Suc i) as)) @ post)"
      using assms attrs_split [of i as] by simp
    show "length (pre @ ?h @ concat (map enc_attr (take i as))) = length pre + 36 + i * 20"
      using assms by simp
  qed
qed

definition resid :: "u32 list \<Rightarrow> u32 \<Rightarrow> u32" where
  "resid m r = (if sint r \<ge> 0 \<and> nat (sint r) < length m then m ! nat (sint r) else 0)"

lemma start_accessors:
  assumes "ax_doc a = pre @ enc_node (XStart ln cm ns nm as) @ post" "c = length pre"
    "length as < 2 ^ 16" "i < length as"
  shows "getAttributeValue (start_state a c nm (length as)) i = Some (Some (na_value (as ! i)))"
    and "getAttributeNameResID (start_state a c nm (length as)) i
           = Some (resid (ax_resourceMap a) (na_name (as ! i)))"
proof -
  obtain xs ys where d: "ax_doc a = xs @ enc_attr (as ! i) @ ys" and
    l: "length pre + 36 + i * 20 = length xs"
    using start_attr_at [OF assms(1,4)] by metis
  have p: "attr_ptr (start_state a c nm (length as)) i = Some (length xs)"
    using assms l by (simp add: attr_ptr_def start_state_def unat_of_nat16)
  show "getAttributeValue (start_state a c nm (length as)) i = Some (Some (na_value (as ! i)))"
    using d by (simp add: getAttributeValue_def p) (simp add: start_state_def enc_attr_def rd_shift rd_simps)
  show "getAttributeNameResID (start_state a c nm (length as)) i
           = Some (resid (ax_resourceMap a) (na_name (as ! i)))"
    using d by (simp add: getAttributeNameResID_def p)
      (simp add: start_state_def enc_attr_def rd_shift rd_simps resid_def)
qed

section \<open>Event stream\<close>

datatype xevent = EvStart int "(u32 \<times> ResValue) list" | EvEnd int

text \<open>The attributes of the current tag, read through the accessors.\<close>

fun view_attrs :: "axml \<Rightarrow> nat list \<Rightarrow> (u32 \<times> ResValue) list option" where
  "view_attrs a [] = Some []"
| "view_attrs a (i # is) = do {
     r \<leftarrow> getAttributeNameResID a i;
     v \<leftarrow> getAttributeValue a i;
     v \<leftarrow> v;
     vs \<leftarrow> view_attrs a is;
     Some ((r, v) # vs) }"

text \<open>A client that pulls until the document ends and records every tag it sees.\<close>

function pull_events :: "axml \<Rightarrow> (xevent list \<times> EventCode) option" where
  "pull_events a = do {
     (ev, a') \<leftarrow> axml_next a;
     (if ev = EC_START_TAG then do {
        vs \<leftarrow> view_attrs a' [0..<getAttributeCount a'];
        (es, f) \<leftarrow> pull_events a';
        Some (EvStart (ax_curNameRef a') vs # es, f) }
      else if ev = EC_END_TAG then do {
        (es, f) \<leftarrow> pull_events a';
        Some (EvEnd (ax_curNameRef a') # es, f) }
      else Some ([], ev)) }"
  by pat_completeness auto
termination
  by (relation "measure ax_left") (auto dest: axml_next_tag_left)

declare pull_events.simps [simp del]

fun ev_of :: "u32 list \<Rightarrow> xnode \<Rightarrow> xevent list" where
  "ev_of m (XStart ln cm ns nm as) =
     [EvStart (sint nm) (map (\<lambda>x. (resid m (na_name x), na_value x)) as)]"
| "ev_of m (XEnd ln cm ns nm) = [EvEnd (sint nm)]"
| "ev_of m (XOther t pl) = []"

lemma view_attrs_map:
  assumes "\<And>i. i \<in> set is \<Longrightarrow> getAttributeNameResID a i = Some (f i) \<and>
     getAttributeValue a i = Some (Some (g i))"
  shows "view_attrs a is = Some (map (\<lambda>i. (f i, g i)) is)"
  using assms by (induction "is") simp_all

lemma view_start_state:
  assumes "ax_doc a = pre @ enc_node (XStart ln cm ns nm as) @ post" "c = length pre"
    "length as < 2 ^ 16"
  shows "view_attrs (start_state a c nm (length as)) [0..<length as]
    = Some (map (\<lambda>x. (resid (ax_resourceMap a) (na_name x), na_value x)) as)"
proof -
  have "view_attrs (start_state a c nm (length as)) [0..<length as]
    = Some (map (\<lambda>i. (resid (ax_resourceMap a) (na_name (as ! i)), na_value (as ! i)))
        [0..<length as])"
    by (rule view_attrs_map) (simp add: start_accessors [OF assms])
  also have "map (\<lambda>i. (resid (ax_resourceMap a) (na_name (as ! i)), na_value (as ! i)))
        [0..<length as] = map (\<lambda>x. (resid (ax_resourceMap a) (na_name x), na_value x)) as"
    by (rule nth_equalityI) simp_all
  finally show ?thesis .
qed

lemma next_at_end: "ax_end a < c + 8 \<Longrightarrow>
    next_loop a c = Some (EC_END_DOCUMENT, a\<lparr>ax_cur := Some c, ax_event := EC_END_DOCUMENT\<rparr>)"
  by (subst next_loop.simps) simp

definition pulling :: "axml \<Rightarrow> bool" where
  "pulling a \<longleftrightarrow> ax_event a \<noteq> EC_END_DOCUMENT \<and> ax_event a \<noteq> EC_BAD_DOCUMENT"

lemma pull_from:
  "pulling a \<Longrightarrow> ax_cur a = Some c \<Longrightarrow> axml_next a = next_loop a c"
  by (simp add: pulling_def axml_next_def)

text \<open>Pulling from a state whose cursor is at an encoded node skips it or reports it.\<close>

lemma pull_nodes:
  assumes "ax_doc a = pre @ concat (map enc_node ns) @ post"
    and "ax_end a = length pre + length (concat (map enc_node ns))"
    and "pulling a" "ax_cur a = Some c0" "next_loop a c0 = next_loop a (length pre)"
    and "list_all node_ok ns"
  shows "pull_events a = Some (concat (map (ev_of (ax_resourceMap a)) ns), EC_END_DOCUMENT)"
  using assms
proof (induction ns arbitrary: a pre c0)
  case Nil
  then show ?case
    by (subst pull_events.simps) (simp add: pull_from next_at_end)
next
  case (Cons n ns)
  let ?rest = "concat (map enc_node ns) @ post"
  have doc: "ax_doc a = pre @ enc_node n @ ?rest" and ok: "node_ok n" "list_all node_ok ns"
    using Cons.prems by simp_all
  have le: "length pre + length (enc_node n) \<le> ax_end a" using Cons.prems(2) by simp
  note step = next_loop_node [OF doc refl ok(1) le]
  have nx: "axml_next a = next_loop a (length pre)"
    using Cons.prems(3-5) by (simp add: pull_from)
  show ?case
  proof (cases n)
    case (XStart ln cm nsr nm as)
    let ?a = "start_state a (length pre) nm (length as)"
    have "pull_events ?a = Some (concat (map (ev_of (ax_resourceMap ?a)) ns), EC_END_DOCUMENT)"
      using Cons.prems doc ok XStart
      by (intro Cons.IH [where pre = "pre @ enc_node n"])
         (simp_all add: start_state_def pulling_def add.assoc)
    then show ?thesis
      using step nx XStart doc ok view_start_state [of a pre ln cm nsr nm as ?rest]
      by (subst pull_events.simps)
         (simp add: start_state_def getAttributeCount_def unat_of_nat16)
  next
    case (XEnd ln cm nsr nm)
    let ?a = "end_state a (length pre) nm"
    have "pull_events ?a = Some (concat (map (ev_of (ax_resourceMap ?a)) ns), EC_END_DOCUMENT)"
      using Cons.prems doc ok XEnd
      by (intro Cons.IH [where pre = "pre @ enc_node n"])
         (simp_all add: end_state_def pulling_def add.assoc)
    then show ?thesis
      using step nx XEnd by (subst pull_events.simps) (simp add: end_state_def)
  next
    case (XOther t pl)
    have "next_loop a c0 = next_loop a (length (pre @ enc_node n))"
      using Cons.prems(5) step XOther by simp
    then have "pull_events a = Some (concat (map (ev_of (ax_resourceMap a)) ns), EC_END_DOCUMENT)"
      using Cons.prems doc ok XOther
      by (intro Cons.IH [of a "pre @ enc_node n" c0]) (simp_all add: add.assoc)
    then show ?thesis using XOther by simp
  qed
qed

section \<open>Whole documents\<close>

definition enc_pool :: "bool \<Rightarrow> u32 list \<Rightarrow> bytes \<Rightarrow> bytes" where
  "enc_pool utf8 offs dat =
     put16 0x0001 @ put16 28 @ put32 (word_of_nat (28 + 4 * length offs + length dat))
     @ put32 (word_of_nat (length offs)) @ put32 0 @ put32 (if utf8 then 0x100 else 0)
     @ put32 (word_of_nat (28 + 4 * length offs)) @ put32 0
     @ concat (map put32 offs) @ dat"

definition enc_resmap :: "u32 list \<Rightarrow> bytes" where
  "enc_resmap m = put16 0x0180 @ put16 8 @ put32 (word_of_nat (8 + 4 * length m))
     @ concat (map put32 m)"

definition enc_doc :: "bool \<Rightarrow> u32 list \<Rightarrow> bytes \<Rightarrow> u32 list \<Rightarrow> xnode list \<Rightarrow> bytes" where
  "enc_doc utf8 offs dat m ns =
     (let body = enc_pool utf8 offs dat @ enc_resmap m @ concat (map enc_node ns)
      in put16 0x0003 @ put16 8 @ put32 (word_of_nat (8 + length body)) @ body)"

lemma length_puts [simp]: "length (concat (map put32 xs)) = 4 * length xs"
  by (induction xs) simp_all

lemma length_enc_pool [simp]: "length (enc_pool u offs dat) = 28 + 4 * length offs + length dat"
  by (simp add: enc_pool_def)

lemma length_enc_resmap [simp]: "length (enc_resmap m) = 8 + 4 * length m"
  by (simp add: enc_resmap_def)

lemma load_enc_pool:
  assumes "ax_doc a = pre @ enc_pool u offs dat @ post"
    "length (enc_pool u offs dat) < 2 ^ 32"
  shows "load_string_pool a (length pre) 28 (word_of_nat (28 + 4 * length offs + length dat)) =
    Some (a\<lparr>ax_isUtf8 := u, ax_stringOffsets := offs,
      ax_strings := length pre + 28 + 4 * length offs, ax_stringsSize := length dat,
      ax_stringCache := replicate (length offs) [],
      ax_stringCached := replicate (length offs) False\<rparr>)"
proof -
  let ?h = "put16 0x0001 @ put16 28 @ put32 (word_of_nat (28 + 4 * length offs + length dat))
     @ put32 (word_of_nat (length offs)) @ put32 0 @ put32 (if u then 0x100 else 0)
     @ put32 (word_of_nat (28 + 4 * length offs)) @ put32 0"
  have d: "ax_doc a = (pre @ ?h) @ concat (map put32 offs) @ (dat @ post)"
    using assms by (simp add: enc_pool_def)
  have arr: "read_array rd32 4 (ax_doc a) (length pre + 28) (length offs) = Some offs"
    using f32.array_at [of "pre @ ?h" offs "dat @ post"] d by simp
  have n: "unat (word_of_nat (length offs) :: u32) = length offs"
    using assms(2) by (intro unat_of_nat32) simp
  have st: "unat (word_of_nat (28 + 4 * length offs) :: u32) = 28 + 4 * length offs"
    using assms(2) by (intro unat_of_nat32) simp
  have sz: "unat (word_of_nat (28 + 4 * length offs + length dat) - word_of_nat (28 + 4 * length offs) :: u32)
      = length dat"
  proof -
    have "word_of_nat (28 + 4 * length offs + length dat) - word_of_nat (28 + 4 * length offs)
        = (word_of_nat (length dat) :: u32)" by simp
    then show ?thesis using assms(2) unat_of_nat32 [of "length dat"] by simp
  qed
  show ?thesis
    using assms(1) arr n st sz
    by (simp add: load_string_pool_def enc_pool_def rd_shift rd_simps UTF8_FLAG_def
          del: of_nat_add of_nat_mult of_nat_numeral)
qed

lemma load_enc_resmap:
  assumes "ax_doc a = pre @ enc_resmap m @ post" "length (enc_resmap m) < 2 ^ 32"
  shows "load_resource_map a (length pre) 8 (word_of_nat (8 + 4 * length m)) =
    Some (a\<lparr>ax_resourceMap := m\<rparr>)"
proof -
  let ?h = "put16 0x0180 @ put16 8 @ put32 (word_of_nat (8 + 4 * length m))"
  have arr: "read_array rd32 4 (ax_doc a) (length pre + 8) (length m) = Some m"
    using f32.array_at [of "pre @ ?h" m post] assms by (simp add: enc_resmap_def)
  have "word_of_nat (8 + 4 * length m) - ucast (8 :: u16) = (word_of_nat (4 * length m) :: u32)"
    by simp
  moreover have "unat (word_of_nat (4 * length m) div 4 :: u32) = length m"
    using assms(2) unat_of_nat32 [of "4 * length m"] by (simp add: unat_div_distrib del: of_nat_mult)
  ultimately show ?thesis
    using arr by (simp add: load_resource_map_def del: of_nat_add of_nat_mult of_nat_numeral)
qed

section \<open>UTF-16 to UTF-8\<close>

text \<open>UTF-8 and UTF-16 by arithmetic on code points, as the Unicode standard defines them.\<close>

definition utf8_enc :: "nat \<Rightarrow> bytes" where
  "utf8_enc n = map word_of_nat
     (if n < 0x80 then [n]
      else if n < 0x800 then [0xC0 + n div 64, 0x80 + n mod 64]
      else if n < 0x10000 then [0xE0 + n div 4096, 0x80 + (n div 64) mod 64, 0x80 + n mod 64]
      else [0xF0 + n div 262144, 0x80 + (n div 4096) mod 64, 0x80 + (n div 64) mod 64,
            0x80 + n mod 64])"

definition utf16_enc :: "nat \<Rightarrow> u16 list" where
  "utf16_enc n = map word_of_nat
     (if n < 0x10000 then [n]
      else [0xD800 + (n - 0x10000) div 1024, 0xDC00 + (n - 0x10000) mod 1024])"

definition scalar_value :: "nat \<Rightarrow> bool" where
  "scalar_value n \<longleftrightarrow> n < 0xD800 \<or> (0xDFFF < n \<and> n < 0x110000)"

lemma byte_or:
  "unat x < 64 \<Longrightarrow> ucast (0x80 OR x :: u32) = (word_of_nat (128 + unat x) :: byte)"
  "unat x < 64 \<Longrightarrow> ucast (0xC0 OR x :: u32) = (word_of_nat (192 + unat x) :: byte)"
  "unat x < 16 \<Longrightarrow> ucast (0xE0 OR x :: u32) = (word_of_nat (224 + unat x) :: byte)"
  "unat x < 8 \<Longrightarrow> ucast (0xF0 OR x :: u32) = (word_of_nat (240 + unat x) :: byte)"
  by (simp_all only: ucast8_eq unsigned_or_eq) (simp_all add: nat_or_consts)

lemma emit_utf8_eq:
  assumes "unat c < 0x110000"
  shows "emit_utf8 c = utf8_enc (unat c)"
proof -
  let ?n = "unat c"
  have d: "unat (drop_bit k c) = ?n div 2 ^ k" for k
    by (rule trans [OF unat_drop_bit_eq drop_bit_eq_div])
  have a: "unat (x AND 63) = unat x mod 64" for x :: u32
    by (simp add: unsigned_and_eq nat_and_63)
  have low: "ucast (0x80 OR (x AND 63)) = (word_of_nat (128 + unat x mod 64) :: byte)" for x :: u32
    using byte_or(1) [of "x AND 63"] by (simp add: a)
  have c2: "?n < 0x800 \<Longrightarrow> ucast (0xC0 OR drop_bit 6 c) = (word_of_nat (192 + ?n div 64) :: byte)"
    using byte_or(2) [of "drop_bit 6 c"] d [of 6] by simp
  have c3: "?n < 0x10000 \<Longrightarrow> ucast (0xE0 OR drop_bit 12 c) = (word_of_nat (224 + ?n div 4096) :: byte)"
    using byte_or(3) [of "drop_bit 12 c"] d [of 12] by simp
  have c4: "ucast (0xF0 OR drop_bit 18 c) = (word_of_nat (240 + ?n div 262144) :: byte)"
    using byte_or(4) [of "drop_bit 18 c"] d [of 18] assms by simp
  have m: "unat (drop_bit 6 c) = ?n div 64" "unat (drop_bit 12 c) = ?n div 4096"
    using d [of 6] d [of 12] by simp_all
  have lt: "c < 0x80 \<longleftrightarrow> ?n < 0x80" "c < 0x800 \<longleftrightarrow> ?n < 0x800" "c < 0x10000 \<longleftrightarrow> ?n < 0x10000"
    by (simp_all add: word_less_nat_alt)
  show ?thesis
    unfolding emit_utf8_def utf8_enc_def lt
    by (auto simp only: low c2 c3 c4 m ucast8_eq [of c] list.map if_True if_False split: if_split)
qed

lemma surrogate_value:
  assumes "0x10000 \<le> n" "n < 0x110000"
  defines "q \<equiv> (n - 0x10000) div 1024" and "r \<equiv> (n - 0x10000) mod 1024"
  defines "hi \<equiv> (word_of_nat (0xD800 + q) :: u16)" and "lo \<equiv> (word_of_nat (0xDC00 + r) :: u16)"
  shows "unat (0x10000 + (push_bit 10 (ucast hi - 0xD800) OR (ucast lo - 0xDC00)) :: u32) = n"
    and "0xD800 \<le> hi" "hi \<le> 0xDBFF" "0xDC00 \<le> lo" "lo \<le> 0xDFFF"
proof -
  have q: "q < 1024" and r: "r < 1024" and n: "n = 0x10000 + (q * 1024 + r)"
    unfolding q_def r_def using assms(1,2) by simp_all
  have hi: "unat hi = 0xD800 + q" and lo: "unat lo = 0xDC00 + r"
    unfolding hi_def lo_def using q r by (intro unat_of_nat16; simp)+
  then show "0xD800 \<le> hi" "hi \<le> 0xDBFF" "0xDC00 \<le> lo" "lo \<le> 0xDFFF"
    using q r by (simp_all add: word_le_nat_alt)
  have wide: "(ucast w :: u32) = word_of_nat (unat w)" for w :: u16
    by (rule bit_word_eqI) (simp add: bit_simps)
  have "(ucast hi - 0xD800 :: u32) = word_of_nat q" "(ucast lo - 0xDC00 :: u32) = word_of_nat r"
    by (simp_all add: wide hi lo)
  moreover have "unat (push_bit 10 (word_of_nat q) OR word_of_nat r :: u32) = q * 1024 + r"
  proof -
    have "push_bit 10 (word_of_nat q) = (word_of_nat (q * 2 ^ 10) :: u32)"
      by (simp add: push_bit_eq_mult)
    moreover have "(word_of_nat a OR word_of_nat b :: u32) = word_of_nat (a OR b)" for a b
      by (rule bit_word_eqI) (simp add: bit_simps)
    ultimately show ?thesis
      using q r nat_or_low [of r 10 q] unat_of_nat32 [of "q * 1024 + r"]
      by (simp del: of_nat_add of_nat_mult)
  qed
  ultimately have "unat (push_bit 10 (ucast hi - 0xD800) OR (ucast lo - 0xDC00) :: u32) = q * 1024 + r"
    by (simp only:)
  then show "unat (0x10000 + (push_bit 10 (ucast hi - 0xD800) OR (ucast lo - 0xDC00)) :: u32) = n"
    using q r n by (subst unat_add_lem [THEN iffD1]) simp_all
qed

lemma utf16ToUtf8_bmp:
  "\<not> (0xD800 \<le> c \<and> c \<le> 0xDBFF) \<Longrightarrow> utf16ToUtf8 (c # us) = emit_utf8 (ucast c) @ utf16ToUtf8 us"
  by (cases us) auto

lemma utf16ToUtf8_scalar:
  assumes "scalar_value n"
  shows "utf16ToUtf8 (utf16_enc n @ us) = utf8_enc n @ utf16ToUtf8 us"
proof (cases "n < 0x10000")
  case True
  then have "unat (word_of_nat n :: u16) = n" by (intro unat_of_nat16) simp
  moreover from this have "\<not> (0xD800 \<le> (word_of_nat n :: u16) \<and> (word_of_nat n :: u16) \<le> 0xDBFF)"
    using assms by (auto simp: word_le_nat_alt scalar_value_def)
  moreover have "unat (ucast (word_of_nat n :: u16) :: u32) = unat (word_of_nat n :: u16)"
    by (simp add: unsigned_ucast_eq unsigned_of_nat)
  ultimately show ?thesis
    using True emit_utf8_eq [of "ucast (word_of_nat n :: u16)"]
    by (simp add: utf16_enc_def utf16ToUtf8_bmp)
next
  case False
  then have n: "0x10000 \<le> n" "n < 0x110000" using assms by (auto simp: scalar_value_def)
  note s = surrogate_value [OF n]
  show ?thesis
    using False s emit_utf8_eq n by (simp add: utf16_enc_def del: of_nat_add)
qed

text \<open>
  C39 (utf16ToUtf8_correct): on well-formed UTF-16 (the encoding of any sequence of Unicode scalar
  values, surrogate pairs included) \<open>utf16ToUtf8\<close> yields exactly the UTF-8 encoding of that
  sequence.
\<close>

theorem utf16ToUtf8_correct:
  "list_all scalar_value ns \<Longrightarrow>
     utf16ToUtf8 (concat (map utf16_enc ns)) = concat (map utf8_enc ns)"
  by (induction ns) (simp_all add: utf16ToUtf8_scalar)

theorem utf16ToUtf8_correct_witness:
  "list_all scalar_value [0x41, 0xE9, 0x20AC, 0x1F600] \<and>
   utf16ToUtf8 [0x41, 0xE9, 0x20AC, 0xD83D, 0xDE00] =
     [0x41, 0xC3, 0xA9, 0xE2, 0x82, 0xAC, 0xF0, 0x9F, 0x98, 0x80]"
proof -
  have "list_all scalar_value [0x41, 0xE9, 0x20AC, 0x1F600]" by (simp add: scalar_value_def)
  with utf16ToUtf8_correct [OF this] show ?thesis by (simp add: utf16_enc_def utf8_enc_def)
qed

section \<open>Length prefixes and the string cache\<close>

text \<open>The length prefixes AOSP's string pool writer emits (\<open>ENCODE_LENGTH\<close>).\<close>

definition enc_len8 :: "nat \<Rightarrow> bytes" where
  "enc_len8 n = (if n < 0x80 then [word_of_nat n]
     else [word_of_nat (0x80 + n div 256), word_of_nat (n mod 256)])"

definition enc_len16 :: "nat \<Rightarrow> bytes" where
  "enc_len16 n = (if n < 0x8000 then put16 (word_of_nat n)
     else put16 (word_of_nat (0x8000 + n div 65536)) @ put16 (word_of_nat (n mod 65536)))"

lemma low_byte: "ucast ((push_bit 8 x :: u32) OR ucast (lo :: byte)) = lo"
  by (rule bit_word_eqI) (auto simp: bit_simps)

lemma low_half: "ucast ((push_bit 16 x :: u32) OR ucast (lo :: u16)) = lo"
  by (rule bit_word_eqI) (auto simp: bit_simps)

lemma parseUtf8Len_enc:
  assumes "n < 0x8000"
  shows "parseUtf8Len (xs @ enc_len8 n @ ys) (length xs) =
    Some (length xs + length (enc_len8 n), n mod 256)"
proof (cases "n < 0x80")
  case True
  then have "unat (word_of_nat n :: byte) = n" by (intro unat_of_nat8) simp
  with True show ?thesis
    using rd_shift(1) [of xs "word_of_nat n # ys" 0]
    by (simp add: parseUtf8Len_def enc_len8_def top_bit_zero_iff rd_simps)
next
  case False
  have "unat (word_of_nat (0x80 + n div 256) :: byte) = 0x80 + n div 256"
    using assms by (intro unat_of_nat8) simp
  moreover have "unat (word_of_nat (n mod 256) :: byte) = n mod 256" by (intro unat_of_nat8) simp
  ultimately show ?thesis
    using False rd_shift(1) [of xs "word_of_nat (0x80 + n div 256) # word_of_nat (n mod 256) # ys" 0]
      rd_shift(1) [of xs "word_of_nat (0x80 + n div 256) # word_of_nat (n mod 256) # ys" 1]
    by (simp add: parseUtf8Len_def enc_len8_def top_bit_zero_iff rd_simps low_byte Let_def
          del: of_nat_add)
qed

lemma parseUtf16Len_enc:
  assumes "n < 0x80000000"
  shows "parseUtf16Len (xs @ enc_len16 n @ ys) (length xs) =
    Some (length xs + length (enc_len16 n), n mod 65536)"
proof (cases "n < 0x8000")
  case True
  then have "unat (word_of_nat n :: u16) = n" by (intro unat_of_nat16) simp
  with True show ?thesis
    using rd_shift(2) [of xs "put16 (word_of_nat n) @ ys" 0]
    by (simp add: parseUtf16Len_def enc_len16_def top_bit_zero_iff rd_simps)
next
  case False
  let ?h = "word_of_nat (0x8000 + n div 65536) :: u16" and ?l = "word_of_nat (n mod 65536) :: u16"
  have "unat ?h = 0x8000 + n div 65536" using assms by (intro unat_of_nat16) simp
  moreover have "unat ?l = n mod 65536" by (intro unat_of_nat16) simp
  ultimately show ?thesis
    using False rd_shift(2) [of xs "put16 ?h @ put16 ?l @ ys" 0]
      rd_shift(2) [of xs "put16 ?h @ put16 ?l @ ys" 2]
    by (simp add: parseUtf16Len_def enc_len16_def top_bit_zero_iff rd_simps low_half Let_def
          del: of_nat_add)
qed

text \<open>A UTF-8 pool entry: UTF-16 length, UTF-8 length, the bytes, a terminating zero.\<close>

definition enc_str8 :: "nat \<times> bytes \<Rightarrow> bytes" where
  "enc_str8 e = enc_len8 (fst e) @ enc_len8 (length (snd e)) @ snd e @ [0]"

fun pool_offsets :: "nat \<Rightarrow> (nat \<times> bytes) list \<Rightarrow> u32 list" where
  "pool_offsets k [] = []"
| "pool_offsets k (e # es) = word_of_nat k # pool_offsets (k + length (enc_str8 e)) es"

definition entry_ok :: "nat \<times> bytes \<Rightarrow> bool" where
  "entry_ok e \<longleftrightarrow> fst e < 0x8000 \<and> length (snd e) < 0x8000"

lemma length_pool_offsets [simp]: "length (pool_offsets k es) = length es"
  by (induction es arbitrary: k) simp_all

lemma pool_offset_nth:
  "i < length es \<Longrightarrow> pool_offsets k es ! i = word_of_nat (k + length (concat (map enc_str8 (take i es))))"
proof (induction es arbitrary: k i)
  case (Cons e es)
  then show ?case by (cases i) (simp_all add: add.assoc)
qed simp

lemma decodeString_enc:
  assumes "ax_doc a = xs @ enc_str8 e @ ys" "ax_strings a + off = length xs" "ax_isUtf8 a" "entry_ok e"
  shows "decodeString a off = Some (take (length (snd e) mod 256) (snd e))"
proof -
  let ?l1 = "enc_len8 (fst e)" and ?l2 = "enc_len8 (length (snd e))"
  have 1: "parseUtf8Len (ax_doc a) (length xs) = Some (length xs + length ?l1, fst e mod 256)"
    using parseUtf8Len_enc [of "fst e" xs "?l2 @ snd e @ [0] @ ys"] assms(1,4)
    by (simp add: enc_str8_def entry_ok_def)
  have 2: "parseUtf8Len (ax_doc a) (length xs + length ?l1)
      = Some (length xs + length ?l1 + length ?l2, length (snd e) mod 256)"
    using parseUtf8Len_enc [of "length (snd e)" "xs @ ?l1" "snd e @ [0] @ ys"] assms(1,4)
    by (simp add: enc_str8_def entry_ok_def)
  have 3: "slice (ax_doc a) (length xs + length ?l1 + length ?l2) (length (snd e) mod 256)
      = slice (snd e @ [0] @ ys) 0 (length (snd e) mod 256)"
    using slice_shift [of "xs @ ?l1 @ ?l2" "snd e @ [0] @ ys" 0] assms(1)
    by (simp add: enc_str8_def add.assoc)
  have "length (snd e) mod 256 \<le> length (snd e)" by simp
  then show ?thesis
    using assms(2,3) 1 2 3 by (simp add: decodeString_def slice_def)
qed

text \<open>
  What a string reference denotes, without the cache, and the cache invariant: an entry that is
  marked cached holds what it denotes, any other entry is still empty.
\<close>

definition stringAt :: "axml \<Rightarrow> int \<Rightarrow> bytes option" where
  "stringAt a ref =
     (if ref < 0 \<or> nat ref \<ge> length (ax_stringOffsets a)
         \<or> unat (ax_stringOffsets a ! nat ref) \<ge> ax_stringsSize a
      then Some [] else decodeString a (unat (ax_stringOffsets a ! nat ref)))"

definition cache_ok :: "axml \<Rightarrow> bool" where
  "cache_ok a \<longleftrightarrow> length (ax_stringCache a) = length (ax_stringOffsets a)
     \<and> length (ax_stringCached a) = length (ax_stringOffsets a)
     \<and> (\<forall>r < length (ax_stringOffsets a).
          if ax_stringCached a ! r then stringAt a (int r) = Some (ax_stringCache a ! r)
          else ax_stringCache a ! r = [])"

lemma stringAt_cache_indep:
  "stringAt (a\<lparr>ax_stringCache := c\<rparr>) = stringAt a" "stringAt (a\<lparr>ax_stringCached := d\<rparr>) = stringAt a"
  by (simp_all add: fun_eq_iff stringAt_def decodeString_def)

lemma getString_step:
  assumes "cache_ok a"
  shows "getString a ref = None \<and> stringAt a ref = None \<or>
    (\<exists>s a'. getString a ref = Some (s, a') \<and> stringAt a ref = Some s \<and> cache_ok a' \<and>
       stringAt a' = stringAt a)"
proof (cases "ref < 0 \<or> nat ref \<ge> length (ax_stringOffsets a) \<or> ax_stringCached a ! nat ref")
  case True
  show ?thesis
  proof (cases "ref < 0 \<or> nat ref \<ge> length (ax_stringOffsets a)")
    case False
    with True have "ax_stringCached a ! nat ref" by simp
    with False assms have "stringAt a (int (nat ref)) = Some (ax_stringCache a ! nat ref)"
      unfolding cache_ok_def by (metis linorder_not_less)
    with False True assms show ?thesis by (simp add: getString_def Let_def)
  qed (use assms in \<open>auto simp: getString_def stringAt_def\<close>)
next
  case False
  then have r: "nat ref < length (ax_stringOffsets a)" and ri: "int (nat ref) = ref" by auto
  show ?thesis
  proof (cases "unat (ax_stringOffsets a ! nat ref) \<ge> ax_stringsSize a")
    case True
    with False assms r show ?thesis
      by (auto simp: getString_def stringAt_cache_indep cache_ok_def Let_def nth_list_update
          stringAt_def)
  next
    case big: False
    show ?thesis
    proof (cases "decodeString a (unat (ax_stringOffsets a ! nat ref))")
      case None
      with False big show ?thesis by (auto simp: getString_def stringAt_def)
    next
      case (Some s)
      then have "stringAt a ref = Some s" using False big by (simp add: stringAt_def)
      with Some False big assms r ri show ?thesis
        by (auto simp: getString_def stringAt_cache_indep cache_ok_def Let_def nth_list_update)
    qed
  qed
qed

text \<open>
  Fact (getString_memo): the lazily filled string cache is transparent. From any state whose cache is
  coherent, \<open>getString\<close> returns what the reference denotes in the string pool, reads out of
  bounds exactly when that does, and leaves a coherent cache in which every reference still denotes
  the same string.
\<close>

theorem getString_memo:
  assumes "cache_ok a"
  shows "map_option fst (getString a ref) = stringAt a ref \<and>
    (\<forall>s a'. getString a ref = Some (s, a') \<longrightarrow> cache_ok a' \<and> stringAt a' = stringAt a)"
  using getString_step [OF assms, of ref] by auto

theorem getString_memo_witness:
  "cache_ok axml_init \<and> map_option fst (getString axml_init 3) = stringAt axml_init 3"
proof -
  have "cache_ok axml_init" by (simp add: cache_ok_def axml_init_def)
  with getString_memo [OF this] show ?thesis by simp
qed

lemma setTo_walk_step:
  assumes "rd16 (ax_doc a) q = Some t" "rd16 (ax_doc a) (q + 2) = Some hs"
    "rd32 (ax_doc a) (q + 4) = Some cs" "8 \<le> unat cs" "q + unat cs \<le> docEnd"
  shows "setTo_walk a docEnd q =
    (if t = RES_STRING_POOL_TYPE then do {
       a' \<leftarrow> load_string_pool a q hs cs; setTo_walk a' docEnd (q + unat cs) }
     else if t = RES_XML_RESOURCE_MAP_TYPE then do {
       a' \<leftarrow> load_resource_map a q hs cs; setTo_walk a' docEnd (q + unat cs) }
     else if RES_XML_FIRST_CHUNK_TYPE \<le> t \<and> t \<le> RES_XML_LAST_CHUNK_TYPE
     then Some (0, a\<lparr>ax_cur := Some q, ax_end := docEnd, ax_event := EC_START_DOCUMENT\<rparr>)
     else setTo_walk a docEnd (q + unat cs))"
proof -
  have "q + 8 \<le> docEnd" "\<not> (unat cs < 8 \<or> q + unat cs > docEnd)" using assms(4,5) by simp_all
  then show ?thesis
    by (subst setTo_walk.simps) (simp only: assms(1-3) if_True if_False bind.bind_lunit)
qed

lemma setTo_walk_pool:
  assumes "ax_doc a = pre @ enc_pool u offs dat @ post" "length (enc_pool u offs dat) < 2 ^ 32"
    "length pre + length (enc_pool u offs dat) \<le> docEnd"
  shows "setTo_walk a docEnd (length pre) = setTo_walk (a\<lparr>ax_isUtf8 := u, ax_stringOffsets := offs,
      ax_strings := length pre + 28 + 4 * length offs, ax_stringsSize := length dat,
      ax_stringCache := replicate (length offs) [],
      ax_stringCached := replicate (length offs) False\<rparr>) docEnd
      (length pre + length (enc_pool u offs dat))"
proof -
  let ?n = "28 + 4 * length offs + length dat"
  have sz: "unat (word_of_nat ?n :: u32) = ?n" using assms(2) by (intro unat_of_nat32) simp
  have rd: "rd16 (ax_doc a) (length pre) = Some 1" "rd16 (ax_doc a) (length pre + 2) = Some 28"
    "rd32 (ax_doc a) (length pre + 4) = Some (word_of_nat ?n)"
    using assms(1) by (simp_all add: enc_pool_def rd_simps rd_shift)
  have le: "8 \<le> unat (word_of_nat ?n :: u32)" "length pre + unat (word_of_nat ?n :: u32) \<le> docEnd"
    unfolding sz using assms(3) by simp_all
  show ?thesis
    unfolding setTo_walk_step [OF rd le] load_enc_pool [OF assms(1,2)] sz length_enc_pool
    by (simp add: RES_STRING_POOL_TYPE_def)
qed

lemma setTo_walk_resmap:
  assumes "ax_doc a = pre @ enc_resmap m @ post" "length (enc_resmap m) < 2 ^ 32"
    "length pre + length (enc_resmap m) \<le> docEnd"
  shows "setTo_walk a docEnd (length pre) =
    setTo_walk (a\<lparr>ax_resourceMap := m\<rparr>) docEnd (length pre + length (enc_resmap m))"
proof -
  let ?n = "8 + 4 * length m"
  have sz: "unat (word_of_nat ?n :: u32) = ?n" using assms(2) by (intro unat_of_nat32) simp
  have rd: "rd16 (ax_doc a) (length pre) = Some 0x180" "rd16 (ax_doc a) (length pre + 2) = Some 8"
    "rd32 (ax_doc a) (length pre + 4) = Some (word_of_nat ?n)"
    using assms(1) by (simp_all add: enc_resmap_def rd_simps rd_shift)
  have le: "8 \<le> unat (word_of_nat ?n :: u32)" "length pre + unat (word_of_nat ?n :: u32) \<le> docEnd"
    unfolding sz using assms(3) by simp_all
  show ?thesis
    unfolding setTo_walk_step [OF rd le] load_enc_resmap [OF assms(1,2)] sz length_enc_resmap
    by (simp add: RES_STRING_POOL_TYPE_def RES_XML_RESOURCE_MAP_TYPE_def)
qed

lemma node_header:
  assumes "node_ok n" "length (enc_node n) < 2 ^ 32"
  shows "\<exists>t hs. rd16 (enc_node n @ ys) 0 = Some t \<and> rd16 (enc_node n @ ys) 2 = Some hs \<and>
    rd32 (enc_node n @ ys) 4 = Some (word_of_nat (length (enc_node n))) \<and> 0x100 \<le> t \<and> t \<le> 0x17f"
  using assms by (cases n) (simp_all add: rd_simps word_le_nat_alt)

lemma setTo_walk_node:
  assumes "ax_doc a = pre @ enc_node n @ post" "node_ok n" "length (enc_node n) < 2 ^ 32"
    "length pre + length (enc_node n) \<le> docEnd"
  shows "setTo_walk a docEnd (length pre) =
    Some (0, a\<lparr>ax_cur := Some (length pre), ax_end := docEnd, ax_event := EC_START_DOCUMENT\<rparr>)"
proof -
  obtain t hs where h: "rd16 (enc_node n @ post) 0 = Some t" "rd16 (enc_node n @ post) 2 = Some hs"
    "rd32 (enc_node n @ post) 4 = Some (word_of_nat (length (enc_node n)))" "0x100 \<le> t" "t \<le> 0x17f"
    using node_header [OF assms(2,3), of post] by blast
  have rd: "rd16 (ax_doc a) (length pre) = Some t" "rd16 (ax_doc a) (length pre + 2) = Some hs"
    "rd32 (ax_doc a) (length pre + 4) = Some (word_of_nat (length (enc_node n)))"
    using assms(1) h rd_shift [of pre "enc_node n @ post"] by (metis add.right_neutral)+
  have "8 \<le> length (enc_node n)" by (cases n) simp_all
  then have le: "8 \<le> unat (word_of_nat (length (enc_node n)) :: u32)"
    "length pre + unat (word_of_nat (length (enc_node n)) :: u32) \<le> docEnd"
    unfolding unat_of_nat32 [OF assms(3)] using assms(4) by simp_all
  have "t \<noteq> RES_STRING_POOL_TYPE" "t \<noteq> RES_XML_RESOURCE_MAP_TYPE"
    using h(4,5) by (auto simp: axml_consts word_le_nat_alt)
  with h(4,5) show ?thesis
    unfolding setTo_walk_step [OF rd le] by (simp add: axml_consts)
qed

lemma setTo_step:
  assumes "rd16 data 0 = Some RES_XML_TYPE" "rd16 data 2 = Some hs" "rd32 data 4 = Some ts"
    "unat ts \<le> length data"
  shows "setTo a data = setTo_walk (a\<lparr>ax_doc := data\<rparr>) (unat ts) (unat hs)"
  using assms rd_bound(3) [OF assms(3)] by (simp add: setTo_def)

definition doc_start :: "bool \<Rightarrow> u32 list \<Rightarrow> bytes \<Rightarrow> u32 list \<Rightarrow> xnode list \<Rightarrow> axml" where
  "doc_start u offs dat m ns =
    axml_init\<lparr>ax_doc := enc_doc u offs dat m ns, ax_isUtf8 := u, ax_stringOffsets := offs,
      ax_strings := 36 + 4 * length offs, ax_stringsSize := length dat,
      ax_stringCache := replicate (length offs) [],
      ax_stringCached := replicate (length offs) False, ax_resourceMap := m,
      ax_cur := Some (8 + length (enc_pool u offs dat) + length (enc_resmap m)),
      ax_end := length (enc_doc u offs dat m ns), ax_event := EC_START_DOCUMENT\<rparr>"

lemma setTo_enc_doc:
  assumes "ns \<noteq> []" "list_all node_ok ns" "length (enc_doc u offs dat m ns) < 2 ^ 32"
  shows "setTo axml_init (enc_doc u offs dat m ns) = Some (0, doc_start u offs dat m ns)"
proof -
  obtain n ns' where ns: "ns = n # ns'" using assms(1) by (cases ns) auto
  define d where "d = enc_doc u offs dat m ns"
  let ?pool = "enc_pool u offs dat" and ?map = "enc_resmap m"
  define rest where "rest = concat (map enc_node ns)"
  define hdr where "hdr = put16 3 @ put16 8 @ put32 (word_of_nat (8 + length (?pool @ ?map @ rest)))"
  have h8: "length hdr = 8" by (simp add: hdr_def)
  have doc: "d = hdr @ ?pool @ ?map @ rest" by (simp add: d_def enc_doc_def Let_def hdr_def rest_def)
  then have len: "length d = 8 + length (?pool @ ?map @ rest)" by (simp add: h8)
  have small: "length d < 2 ^ 32" using assms(3) d_def by simp
  then have sz: "unat (word_of_nat (length d) :: u32) = length d" by (rule unat_of_nat32)
  have rd: "rd16 d 0 = Some RES_XML_TYPE" "rd16 d 2 = Some 8" "rd32 d 4 = Some (word_of_nat (length d))"
    unfolding len unfolding doc hdr_def RES_XML_TYPE_def
    by (simp_all add: rd_simps del: of_nat_add length_append)
  have ok: "node_ok n" using assms(2) ns by simp
  define a1 where "a1 = axml_init\<lparr>ax_doc := d\<rparr>"
  define a2 where "a2 = a1\<lparr>ax_isUtf8 := u, ax_stringOffsets := offs,
      ax_strings := length hdr + 28 + 4 * length offs, ax_stringsSize := length dat,
      ax_stringCache := replicate (length offs) [],
      ax_stringCached := replicate (length offs) False\<rparr>"
  define a3 where "a3 = a2\<lparr>ax_resourceMap := m\<rparr>"
  have "setTo axml_init d = setTo_walk a1 (length d) (length hdr)"
    using setTo_step [OF rd, of axml_init] by (simp add: sz a1_def h8)
  also have "\<dots> = setTo_walk a2 (length d) (length (hdr @ ?pool))"
    unfolding a2_def length_append using small doc
    by (intro setTo_walk_pool [where post = "?map @ rest"]) (simp_all add: a1_def len)
  also have "\<dots> = setTo_walk a3 (length d) (length (hdr @ ?pool) + length ?map)"
    unfolding a3_def using small doc
    by (intro setTo_walk_resmap [where post = rest]) (simp_all add: a2_def a1_def len)
  also have "length (hdr @ ?pool) + length ?map = length (hdr @ ?pool @ ?map)" by simp
  also have "setTo_walk a3 (length d) (length (hdr @ ?pool @ ?map)) = Some (0, a3\<lparr>ax_cur := Some (length (hdr @ ?pool @ ?map)), ax_end := length d,
      ax_event := EC_START_DOCUMENT\<rparr>)"
    using ok small doc len ns
    by (intro setTo_walk_node [where n = n and post = "concat (map enc_node ns')"])
       (simp_all add: a3_def a2_def a1_def rest_def del: length_enc_node)
  finally show ?thesis
    unfolding d_def [symmetric] by (simp add: doc_start_def a3_def a2_def a1_def h8 d_def add.assoc)
qed

text \<open>
  C1 (axml_document_roundtrip): parsing inverts encoding. For every document with a string pool, a
  resource map and a non-empty sequence of XML nodes (start tags with attributes, end tags,
  namespace, CDATA and other node chunks) of less than 4 GB, \<open>setTo\<close> succeeds without reading
  outside the buffer, and pulling with \<open>next\<close> reports exactly the encoded tags in order, each start
  tag with the encoded attribute values and the resource ids its names map to, and then ends with
  \<open>END_DOCUMENT\<close>.
\<close>

theorem axml_document_roundtrip:
  assumes "ns \<noteq> []" "list_all node_ok ns" "length (enc_doc u offs dat m ns) < 2 ^ 32"
  shows "\<exists>a. setTo axml_init (enc_doc u offs dat m ns) = Some (0, a) \<and>
    pull_events a = Some (concat (map (ev_of m) ns), EC_END_DOCUMENT)"
proof -
  let ?a = "doc_start u offs dat m ns"
  let ?pre = "put16 3 @ put16 8 @ put32 (word_of_nat (8 + length (enc_pool u offs dat @ enc_resmap m
    @ concat (map enc_node ns)))) @ enc_pool u offs dat @ enc_resmap m"
  have d: "enc_doc u offs dat m ns = ?pre @ concat (map enc_node ns) @ []"
    by (simp add: enc_doc_def Let_def)
  then have "length (enc_doc u offs dat m ns) = length (?pre @ concat (map enc_node ns) @ [])"
    by (rule arg_cong)
  then have l: "length (enc_doc u offs dat m ns) = length ?pre + length (concat (map enc_node ns))"
    by simp
  have "pull_events ?a = Some (concat (map (ev_of (ax_resourceMap ?a)) ns), EC_END_DOCUMENT)"
    using assms(2) d l by (intro pull_nodes [of ?a ?pre ns "[]" "length ?pre"])
      (simp_all add: doc_start_def pulling_def)
  then show ?thesis using setTo_enc_doc [OF assms] by (simp add: doc_start_def)
qed

theorem axml_document_roundtrip_witness:
  "\<exists>a. setTo axml_init (enc_doc True [] [] [0x01010003]
      [XOther 0x0100 [], XStart 1 0 0 5 [\<lparr>na_ns = 0, na_name = 0, na_raw = 7,
         na_value = \<lparr>rv_size = 8, rv_res0 = 0, rv_dataType = 3, rv_data = 7\<rparr>\<rparr>], XEnd 1 0 0 5])
      = Some (0, a) \<and>
    pull_events a = Some ([EvStart 5 [(0x01010003,
      \<lparr>rv_size = 8, rv_res0 = 0, rv_dataType = 3, rv_data = 7\<rparr>)], EvEnd 5], EC_END_DOCUMENT)"
  using axml_document_roundtrip [of "[XOther 0x0100 [], XStart 1 0 0 5 [\<lparr>na_ns = 0, na_name = 0,
      na_raw = 7, na_value = \<lparr>rv_size = 8, rv_res0 = 0, rv_dataType = 3, rv_data = 7\<rparr>\<rparr>], XEnd 1 0 0 5]"
      True "[]" "[]" "[0x01010003]"]
  by (simp add: enc_doc_def Let_def resid_def word_le_nat_alt)

lemma entries_split:
  "i < length es \<Longrightarrow> concat (map enc_str8 es) =
     concat (map enc_str8 (take i es)) @ enc_str8 (es ! i) @ concat (map enc_str8 (drop (Suc i) es))"
  by (metis concat_append id_take_nth_drop list.simps(9) map_append concat.simps(2))

text \<open>
  Fact (string_pool_lookup): in a loaded document with a UTF-8 string pool, string reference \<open>i\<close>
  denotes the first \<open>length mod 256\<close> bytes of the \<open>i\<close>-th encoded string: the length prefix is
  accumulated in an 8-bit variable, so a string of 256 bytes or more is cut, and one shorter than
  256 bytes is returned whole.
\<close>

theorem string_pool_lookup:
  fixes es :: "(nat \<times> bytes) list"
  defines "dat \<equiv> concat (map enc_str8 es)" and "offs \<equiv> pool_offsets 0 es"
  assumes "i < length es" "list_all entry_ok es" "length (enc_doc True offs dat m ns) < 2 ^ 32"
  shows "stringAt (doc_start True offs dat m ns) (int i)
    = Some (take (length (snd (es ! i)) mod 256) (snd (es ! i)))"
proof -
  let ?a = "doc_start True offs dat m ns" and ?pre = "concat (map enc_str8 (take i es))"
  let ?post = "concat (map enc_str8 (drop (Suc i) es))"
  define hdr where "hdr = put16 3 @ put16 8 @ put32 (word_of_nat (8 + length (enc_pool True offs dat
    @ enc_resmap m @ concat (map enc_node ns))))"
  define ph where "ph = put16 1 @ put16 28 @ put32 (word_of_nat (28 + 4 * length offs + length dat))
     @ put32 (word_of_nat (length offs)) @ put32 0 @ put32 (if True then 0x100 else 0)
     @ put32 (word_of_nat (28 + 4 * length offs)) @ put32 0 @ concat (map put32 offs)"
  have doc: "enc_doc True offs dat m ns = (hdr @ ph) @ dat @ enc_resmap m @ concat (map enc_node ns)"
    by (simp add: enc_doc_def Let_def hdr_def ph_def enc_pool_def)
  have lens: "length (hdr @ ph) = 36 + 4 * length offs" by (simp add: hdr_def ph_def)
  have dat: "dat = ?pre @ enc_str8 (es ! i) @ ?post"
    unfolding dat_def by (rule entries_split [OF assms(3)])
  have small: "length dat < 2 ^ 32" using assms(5) unfolding doc by simp
  have "length dat = length (?pre @ enc_str8 (es ! i) @ ?post)"
    using dat by (rule arg_cong)
  moreover have "0 < length (enc_str8 (es ! i))" by (simp add: enc_str8_def)
  ultimately have plen: "length ?pre < length dat" by simp
  have off: "unat (offs ! i) = length ?pre"
    using small assms(3) plen unat_of_nat32 [of "length ?pre"]
    by (simp add: offs_def pool_offset_nth)
  have "decodeString ?a (length ?pre)
      = Some (take (length (snd (es ! i)) mod 256) (snd (es ! i)))"
  proof (rule decodeString_enc [where xs = "(hdr @ ph) @ ?pre"
        and ys = "?post @ enc_resmap m @ concat (map enc_node ns)"])
    show "ax_doc ?a = ((hdr @ ph) @ ?pre) @ enc_str8 (es ! i) @ ?post @ enc_resmap m
        @ concat (map enc_node ns)"
      using doc dat by (simp add: doc_start_def)
    show "ax_strings ?a + length ?pre = length ((hdr @ ph) @ ?pre)"
      using lens by (simp add: doc_start_def)
    show "entry_ok (es ! i)" using assms(3,4) by (simp add: list_all_length)
  qed (simp add: doc_start_def)
  with plen show ?thesis
    using off assms(3) by (simp add: stringAt_def doc_start_def offs_def)
qed

theorem string_pool_lookup_witness:
  "stringAt (doc_start True (pool_offsets 0 [(3, [1, 2, 3]), (300, replicate 300 7)])
     (concat (map enc_str8 [(3, [1, 2, 3]), (300, replicate 300 7)])) [] [XEnd 0 0 0 0]) 0
     = Some [1, 2, 3] \<and>
   stringAt (doc_start True (pool_offsets 0 [(3, [1, 2, 3]), (300, replicate 300 7)])
     (concat (map enc_str8 [(3, [1, 2, 3]), (300, replicate 300 7)])) [] [XEnd 0 0 0 0]) 1
     = Some (replicate 44 7)"
proof -
  let ?es = "[(3, [1, 2, 3]), (300, replicate 300 7)] :: (nat \<times> bytes) list"
  have ok: "list_all entry_ok ?es" by (simp add: entry_ok_def)
  have small: "length (enc_doc True (pool_offsets 0 ?es) (concat (map enc_str8 ?es)) [] [XEnd 0 0 0 0])
      < 2 ^ 32"
    by (simp add: enc_doc_def Let_def enc_str8_def enc_len8_def)
  show ?thesis
    using string_pool_lookup [OF _ ok small, of 0] string_pool_lookup [OF _ ok small, of 1] by simp
qed

text \<open>A document whose string pool declares more strings than the buffer holds.\<close>

definition crafted_pool :: "u32 \<Rightarrow> bytes" where
  "crafted_pool n = put16 3 @ put16 8 @ put32 36 @ put16 1 @ put16 28 @ put32 28
     @ put32 n @ put32 0 @ put32 0 @ put32 28 @ put32 0"

text \<open>
  Fact (setTo_overread): the string count of a pool is not checked against the chunk. On a 36-byte
  document whose string pool declares \<open>n > 0\<close> strings, \<open>setTo\<close> reads beyond the end of the
  buffer, whatever \<open>n\<close> is.
\<close>

theorem setTo_overread:
  assumes "0 < n"
  shows "setTo axml_init (crafted_pool n) = None"
proof -
  let ?d = "crafted_pool n" and ?a = "axml_init\<lparr>ax_doc := crafted_pool n\<rparr>"
  have len: "length ?d = 36" by (simp add: crafted_pool_def)
  have rd: "rd16 ?d 0 = Some RES_XML_TYPE" "rd16 ?d 2 = Some 8" "rd32 ?d 4 = Some 36"
    by (simp_all add: crafted_pool_def rd_simps RES_XML_TYPE_def)
  have ch: "rd16 (ax_doc ?a) 8 = Some 1" "rd16 (ax_doc ?a) (8 + 2) = Some 28"
    "rd32 (ax_doc ?a) (8 + 4) = Some 28" "rd32 ?d 16 = Some n" "rd32 ?d 24 = Some 0"
    "rd32 ?d 28 = Some 28"
    by (simp_all add: crafted_pool_def rd_simps)
  have n: "0 < unat n" using assms by (simp add: word_less_nat_alt)
  then have "read_array rd32 4 ?d 36 (unat n) = None"
    by (intro f32.array_overrun) (simp_all add: len)
  then have "load_string_pool ?a 8 28 28 = None"
    using ch by (simp add: load_string_pool_def)
  then have "setTo_walk ?a 36 8 = None"
    using setTo_walk_step [OF ch(1-3), of 36] by (simp add: axml_consts)
  then show ?thesis using setTo_step [OF rd, of axml_init] len by simp
qed

theorem setTo_overread_witness: "length (crafted_pool 1) = 36 \<and> setTo axml_init (crafted_pool 1) = None"
  using setTo_overread [of 1] by (simp add: crafted_pool_def)

end
