(* ===== verification/UnzLib.thy ===== *)
theory UnzLib
  imports Prelude
begin

text \<open>
  The \<open>minizip\<close> archive reader (\<open>unzOpen\<close>, \<open>unzLocateFile\<close>, ...) that the package manager links
  against. Its sources are not part of the repository, so it is a parameter of the model: a record
  of functions. \<open>'z\<close> is an open archive and \<open>'f\<close> a current-file position in it. \<open>unzFiles\<close> lists the
  positions that \<open>unzGoToFirstFile\<close> and repeated \<open>unzGoToNextFile\<close> visit; each \<open>None\<close> or \<open>False\<close>
  is a status other than \<open>UNZ_OK\<close>. \<open>unzReadCurrentFile f n\<close> is the first read after opening, with
  a buffer of \<open>n\<close> bytes: the returned count (negative for an error) and the bytes stored;
  \<open>unzReadChunks f n\<close> are the non-empty chunks that repeated reads with a buffer of \<open>n\<close> bytes
  deliver and the status (zero or negative) that ends them.
\<close>

record ('z, 'f) unz =
  unzOpen :: "string \<Rightarrow> 'z option"
  unzLocateFile :: "'z \<Rightarrow> string \<Rightarrow> 'f option"
  unzFiles :: "'z \<Rightarrow> 'f list"
  unzCurrentName :: "'f \<Rightarrow> string option"
  unzCurrentSize :: "'f \<Rightarrow> nat option"
  unzOpenCurrentFile :: "'f \<Rightarrow> bool"
  unzReadCurrentFile :: "'f \<Rightarrow> nat \<Rightarrow> int \<times> bytes"
  unzReadChunks :: "'f \<Rightarrow> nat \<Rightarrow> bytes list \<times> int"

text \<open>
  The buffer \<open>out\<close> after \<open>resize(n)\<close>, which keeps its first bytes and appends zeros, and after
  \<open>unzReadCurrentFile\<close> stored \<open>bs\<close> at its start.
\<close>

definition filled :: "nat \<Rightarrow> bytes \<Rightarrow> bytes \<Rightarrow> bytes" where
  "filled n bs out = take n bs @ drop (length bs) (take n out @ replicate (n - length out) 0)"

lemma length_filled [simp]: "length (filled n bs out) = n"
  by (simp add: filled_def)

lemma filled_exact: "length bs = n \<Longrightarrow> filled n bs out = bs"
  by (simp add: filled_def)

text \<open>
  The routine that both \<open>apk_manifest_parser.cpp\<close> (\<open>ExtractZipEntry\<close>) and
  \<open>apk_signature_verifier.cpp\<close> (\<open>ReadZipEntry\<close>) contain: read one entry whole. The second
  component is the caller's buffer afterwards.
\<close>

definition read_zip_entry :: "('z, 'f) unz \<Rightarrow> string \<Rightarrow> string \<Rightarrow> bytes \<Rightarrow> bool \<times> bytes" where
  "read_zip_entry u zipPath entryName outData =
     (case unzOpen u zipPath of
        None \<Rightarrow> (False, outData)
      | Some zf \<Rightarrow>
          (case unzLocateFile u zf entryName of
             None \<Rightarrow> (False, outData)
           | Some f \<Rightarrow>
               (case unzCurrentSize u f of
                  None \<Rightarrow> (False, outData)
                | Some n \<Rightarrow>
                    if \<not> unzOpenCurrentFile u f then (False, outData)
                    else
                      (let (bytesRead, bs) = unzReadCurrentFile u f n;
                           outData = filled n bs outData
                       in if bytesRead < 0 \<or> nat bytesRead \<noteq> length outData
                          then (False, outData) else (True, outData)))))"

text \<open>Reading succeeds only with the whole entry, whose size the archive announced.\<close>

lemma read_zip_entry_True:
  assumes "read_zip_entry u zipPath entryName d = (True, out)"
  shows "\<exists>zf f n bs. unzOpen u zipPath = Some zf \<and> unzLocateFile u zf entryName = Some f
    \<and> unzCurrentSize u f = Some n \<and> unzReadCurrentFile u f n = (int n, bs) \<and> out = filled n bs d"
  using assms by (auto simp: read_zip_entry_def Let_def split: option.splits if_splits prod.splits)

lemma read_zip_entry_intro:
  assumes "unzOpen u zipPath = Some zf" "unzLocateFile u zf entryName = Some f"
    "unzCurrentSize u f = Some (length bs)" "unzOpenCurrentFile u f"
    "unzReadCurrentFile u f (length bs) = (int (length bs), bs)"
  shows "read_zip_entry u zipPath entryName d = (True, bs)"
  using assms by (simp add: read_zip_entry_def filled_exact)

end
