(* ===== verification/ApkManifest.thy ===== *)
theory ApkManifest
  imports AxmlParser UnzLib
begin

text \<open>
  The manifest parser of the package manager bridge:
  \<open>framework/package-manager/jni/apk_manifest_parser.cpp\<close> and \<open>.h\<close>. It drives the AXML pull parser
  and keeps a state machine (\<open>State\<close>, a stack of enclosing states, the component being built).
  Each element branch of \<open>ParseAXML\<close> is one definition; \<open>parse_loop\<close> is the event loop.
  \<open>None\<close> is again a read outside the document. The theorems: class-name resolution, the
  well-formedness every successful parse guarantees for arbitrary bytes, and the stack discipline
  of nested elements.
\<close>

section \<open>Parsed data\<close>

record UriData =
  ud_scheme :: string
  ud_host :: string
  ud_path :: string
  ud_type :: string

record IntentFilterData =
  if_actions :: "string list"
  if_categories :: "string list"
  if_dataSpecs :: "UriData list"

record ActivityData =
  ac_name :: string
  ac_label :: string
  ac_launchMode :: int
  ac_screenOrientation :: int
  ac_exported :: bool
  ac_taskAffinity :: string
  ac_permission :: string
  ac_theme :: int
  ac_intentFilters :: "IntentFilterData list"

text \<open>\<open>ServiceData\<close> and \<open>ReceiverData\<close> have the same fields.\<close>

record ServiceData =
  sv_name :: string
  sv_exported :: bool
  sv_permission :: string
  sv_intentFilters :: "IntentFilterData list"

record ProviderData =
  pv_name :: string
  pv_authorities :: string
  pv_exported :: bool
  pv_readPermission :: string
  pv_writePermission :: string
  pv_grantUriPermissions :: bool
  pv_multiprocess :: bool
  pv_initOrder :: int
  pv_processName :: string

record PermissionData =
  pm_name :: string
  pm_protectionLevel :: int

record ManifestData =
  md_packageName :: string
  md_versionCode :: int
  md_versionName :: string
  md_minSdkVersion :: int
  md_targetSdkVersion :: int
  md_sharedUserId :: string
  md_appClassName :: string
  md_appLabel :: string
  md_debuggable :: bool
  md_extractNativeLibs :: bool
  md_appTheme :: int
  md_appProcessName :: string
  md_appComponentFactory :: string
  md_classLoaderName :: string
  md_networkSecurityConfigRes :: int
  md_largeHeap :: bool
  md_allowBackup :: bool
  md_persistent :: bool
  md_hardwareAccelerated :: bool
  md_sharedLibraryFiles :: "string list"
  md_appMetaData :: "(string \<times> string) list"
  md_activities :: "ActivityData list"
  md_services :: "ServiceData list"
  md_receivers :: "ServiceData list"
  md_providers :: "ProviderData list"
  md_usesPermissions :: "string list"
  md_permissionDeclarations :: "PermissionData list"

definition new_filter :: IntentFilterData where
  "new_filter = \<lparr>if_actions = [], if_categories = [], if_dataSpecs = []\<rparr>"

definition new_activity :: ActivityData where
  "new_activity = \<lparr>ac_name = [], ac_label = [], ac_launchMode = 0, ac_screenOrientation = -1,
     ac_exported = False, ac_taskAffinity = [], ac_permission = [], ac_theme = 0,
     ac_intentFilters = []\<rparr>"

definition new_service :: ServiceData where
  "new_service = \<lparr>sv_name = [], sv_exported = False, sv_permission = [], sv_intentFilters = []\<rparr>"

definition new_provider :: ProviderData where
  "new_provider = \<lparr>pv_name = [], pv_authorities = [], pv_exported = False, pv_readPermission = [],
     pv_writePermission = [], pv_grantUriPermissions = False, pv_multiprocess = False,
     pv_initOrder = 0, pv_processName = []\<rparr>"

definition new_manifest :: ManifestData where
  "new_manifest = \<lparr>md_packageName = [], md_versionCode = 0, md_versionName = [],
     md_minSdkVersion = 0, md_targetSdkVersion = 0, md_sharedUserId = [], md_appClassName = [],
     md_appLabel = [], md_debuggable = False, md_extractNativeLibs = True, md_appTheme = 0,
     md_appProcessName = [], md_appComponentFactory = [], md_classLoaderName = [],
     md_networkSecurityConfigRes = 0, md_largeHeap = False, md_allowBackup = True,
     md_persistent = False, md_hardwareAccelerated = True, md_sharedLibraryFiles = [],
     md_appMetaData = [], md_activities = [], md_services = [], md_receivers = [],
     md_providers = [], md_usesPermissions = [], md_permissionDeclarations = []\<rparr>"

section \<open>Attribute helpers\<close>

definition GetStringAttr :: "axml \<Rightarrow> nat \<Rightarrow> string option" where
  "GetStringAttr p i = do {
     s \<leftarrow> getAttributeStringValue p i;
     (case s of None \<Rightarrow> Some [] | Some s \<Rightarrow> Some (chars s)) }"

definition GetIntAttr :: "axml \<Rightarrow> nat \<Rightarrow> int \<Rightarrow> int option" where
  "GetIntAttr p i defValue = do {
     v \<leftarrow> getAttributeValue p i;
     (case v of None \<Rightarrow> Some defValue
      | Some v \<Rightarrow>
          if rv_dataType v = TYPE_INT_DEC \<or> rv_dataType v = TYPE_INT_HEX
             \<or> rv_dataType v = TYPE_REFERENCE
          then Some (sint (rv_data v)) else Some defValue) }"

definition GetBoolAttr :: "axml \<Rightarrow> nat \<Rightarrow> bool \<Rightarrow> bool option" where
  "GetBoolAttr p i defValue = do {
     v \<leftarrow> getAttributeValue p i;
     (case v of None \<Rightarrow> Some defValue
      | Some v \<Rightarrow>
          if rv_dataType v = TYPE_INT_BOOLEAN then Some (rv_data v \<noteq> 0) else Some defValue) }"

fun find_attr :: "axml \<Rightarrow> u32 \<Rightarrow> nat list \<Rightarrow> nat option option" where
  "find_attr p resId [] = Some None"
| "find_attr p resId (i # is) = do {
     r \<leftarrow> getAttributeNameResID p i;
     if r = resId then Some (Some i) else find_attr p resId is }"

definition FindAttrByResId :: "axml \<Rightarrow> u32 \<Rightarrow> nat option option" where
  "FindAttrByResId p resId = find_attr p resId [0..<getAttributeCount p]"

definition ResolveClassName :: "string \<Rightarrow> string \<Rightarrow> string" where
  "ResolveClassName name packageName =
     (if name = [] then name
      else if hd name = CHR ''.'' then packageName @ name
      else if CHR ''.'' \<notin> set name then packageName @ ''.'' @ name
      else name)"

text \<open>
  The pattern \<open>if ((idx = FindAttrByResId(tree, id)) >= 0) field = Get...(tree, idx)\<close>: run the
  assignment on the state when the attribute is present.
\<close>

definition with_attr :: "axml \<Rightarrow> u32 \<Rightarrow> (nat \<Rightarrow> 's option) \<Rightarrow> 's \<Rightarrow> 's option" where
  "with_attr p resId f s = do {
     idx \<leftarrow> FindAttrByResId p resId;
     (case idx of None \<Rightarrow> Some s | Some i \<Rightarrow> f i) }"

definition str_attr :: "axml \<Rightarrow> u32 \<Rightarrow> (string \<Rightarrow> 's \<Rightarrow> 's) \<Rightarrow> 's \<Rightarrow> 's option" where
  "str_attr p resId upd s = with_attr p resId (\<lambda>i. do { v \<leftarrow> GetStringAttr p i; Some (upd v s) }) s"

definition int_attr :: "axml \<Rightarrow> u32 \<Rightarrow> int \<Rightarrow> (int \<Rightarrow> 's \<Rightarrow> 's) \<Rightarrow> 's \<Rightarrow> 's option" where
  "int_attr p resId d upd s = with_attr p resId (\<lambda>i. do { v \<leftarrow> GetIntAttr p i d; Some (upd v s) }) s"

definition bool_attr :: "axml \<Rightarrow> u32 \<Rightarrow> bool \<Rightarrow> (bool \<Rightarrow> 's \<Rightarrow> 's) \<Rightarrow> 's \<Rightarrow> 's option" where
  "bool_attr p resId d upd s = with_attr p resId (\<lambda>i. do { v \<leftarrow> GetBoolAttr p i d; Some (upd v s) }) s"

lemmas attr_defs = with_attr_def str_attr_def int_attr_def bool_attr_def

section \<open>Resource ids of the manifest attributes\<close>

definition ATTR_NAME :: u32 where "ATTR_NAME = 0x01010003"
definition ATTR_LABEL :: u32 where "ATTR_LABEL = 0x01010001"
definition ATTR_VERSION_CODE :: u32 where "ATTR_VERSION_CODE = 0x0101021b"
definition ATTR_VERSION_NAME :: u32 where "ATTR_VERSION_NAME = 0x0101021c"
definition ATTR_MIN_SDK_VERSION :: u32 where "ATTR_MIN_SDK_VERSION = 0x0101020c"
definition ATTR_TARGET_SDK_VERSION :: u32 where "ATTR_TARGET_SDK_VERSION = 0x01010270"
definition ATTR_SHARED_USER_ID :: u32 where "ATTR_SHARED_USER_ID = 0x01010005"
definition ATTR_DEBUGGABLE :: u32 where "ATTR_DEBUGGABLE = 0x0101000f"
definition ATTR_EXPORTED :: u32 where "ATTR_EXPORTED = 0x01010010"
definition ATTR_LAUNCH_MODE :: u32 where "ATTR_LAUNCH_MODE = 0x0101001d"
definition ATTR_SCREEN_ORIENTATION :: u32 where "ATTR_SCREEN_ORIENTATION = 0x0101001e"
definition ATTR_PERMISSION :: u32 where "ATTR_PERMISSION = 0x01010006"
definition ATTR_TASK_AFFINITY :: u32 where "ATTR_TASK_AFFINITY = 0x01010012"
definition ATTR_THEME :: u32 where "ATTR_THEME = 0x01010000"
definition ATTR_AUTHORITIES :: u32 where "ATTR_AUTHORITIES = 0x01010018"
definition ATTR_READ_PERMISSION :: u32 where "ATTR_READ_PERMISSION = 0x01010007"
definition ATTR_WRITE_PERMISSION :: u32 where "ATTR_WRITE_PERMISSION = 0x01010008"
definition ATTR_SCHEME :: u32 where "ATTR_SCHEME = 0x010100c7"
definition ATTR_HOST :: u32 where "ATTR_HOST = 0x010100c8"
definition ATTR_PATH :: u32 where "ATTR_PATH = 0x010100c9"
definition ATTR_MIME_TYPE :: u32 where "ATTR_MIME_TYPE = 0x01010026"
definition ATTR_EXTRACT_NATIVE_LIBS :: u32 where "ATTR_EXTRACT_NATIVE_LIBS = 0x010104ea"
definition ATTR_PROTECTION_LEVEL :: u32 where "ATTR_PROTECTION_LEVEL = 0x01010009"
definition ATTR_PROCESS :: u32 where "ATTR_PROCESS = 0x01010011"
definition ATTR_LARGE_HEAP :: u32 where "ATTR_LARGE_HEAP = 0x0101023a"
definition ATTR_ALLOW_BACKUP :: u32 where "ATTR_ALLOW_BACKUP = 0x01010280"
definition ATTR_PERSISTENT :: u32 where "ATTR_PERSISTENT = 0x0101000d"
definition ATTR_HW_ACCELERATED :: u32 where "ATTR_HW_ACCELERATED = 0x010102d3"
definition ATTR_APP_COMPONENT_FACTORY :: u32 where "ATTR_APP_COMPONENT_FACTORY = 0x0101057a"
definition ATTR_CLASS_LOADER :: u32 where "ATTR_CLASS_LOADER = 0x01010512"
definition ATTR_NETWORK_SECURITY_CONFIG :: u32 where "ATTR_NETWORK_SECURITY_CONFIG = 0x01010527"
definition ATTR_GRANT_URI_PERMISSIONS :: u32 where "ATTR_GRANT_URI_PERMISSIONS = 0x0101001b"
definition ATTR_MULTIPROCESS :: u32 where "ATTR_MULTIPROCESS = 0x01010013"
definition ATTR_INIT_ORDER :: u32 where "ATTR_INIT_ORDER = 0x0101001a"
definition ATTR_VALUE :: u32 where "ATTR_VALUE = 0x01010024"
definition ATTR_RESOURCE :: u32 where "ATTR_RESOURCE = 0x01010025"

section \<open>The state machine\<close>

datatype PState =
    NONE | IN_MANIFEST | IN_APPLICATION | IN_ACTIVITY | IN_SERVICE | IN_RECEIVER | IN_PROVIDER
  | IN_INTENT_FILTER | IN_USES_SDK | IN_USES_PERMISSION | IN_PERMISSION

record mstate =
  ms_state :: PState
  ms_stateStack :: "PState list"
  ms_currentActivity :: ActivityData
  ms_currentService :: ServiceData
  ms_currentReceiver :: ServiceData
  ms_currentProvider :: ProviderData
  ms_currentFilter :: IntentFilterData
  ms_outData :: ManifestData

definition new_mstate :: "ManifestData \<Rightarrow> mstate" where
  "new_mstate out = \<lparr>ms_state = NONE, ms_stateStack = [], ms_currentActivity = new_activity,
     ms_currentService = new_service, ms_currentReceiver = new_service,
     ms_currentProvider = new_provider, ms_currentFilter = new_filter, ms_outData = out\<rparr>"

text \<open>The loop over all attributes of \<open>manifest\<close> that looks for one named \<open>package\<close>.\<close>

fun find_package :: "axml \<Rightarrow> nat list \<Rightarrow> ManifestData \<Rightarrow> ManifestData option" where
  "find_package p [] out = Some out"
| "find_package p (i # is) out = do {
     n \<leftarrow> getAttributeName p i;
     (case n of
        None \<Rightarrow> find_package p is out
      | Some n \<Rightarrow>
          if chars n = ''package'' then do {
            v \<leftarrow> GetStringAttr p i;
            find_package p is (out\<lparr>md_packageName := v\<rparr>) }
          else find_package p is out) }"

definition start_manifest :: "axml \<Rightarrow> ManifestData \<Rightarrow> ManifestData option" where
  "start_manifest p out = do {
     _ \<leftarrow> FindAttrByResId p ATTR_NAME;
     out \<leftarrow> find_package p [0..<getAttributeCount p] out;
     out \<leftarrow> int_attr p ATTR_VERSION_CODE 0 (\<lambda>v o'. o'\<lparr>md_versionCode := v\<rparr>) out;
     out \<leftarrow> str_attr p ATTR_VERSION_NAME (\<lambda>v o'. o'\<lparr>md_versionName := v\<rparr>) out;
     str_attr p ATTR_SHARED_USER_ID (\<lambda>v o'. o'\<lparr>md_sharedUserId := v\<rparr>) out }"

definition start_uses_sdk :: "axml \<Rightarrow> ManifestData \<Rightarrow> ManifestData option" where
  "start_uses_sdk p out = do {
     out \<leftarrow> int_attr p ATTR_MIN_SDK_VERSION 0 (\<lambda>v o'. o'\<lparr>md_minSdkVersion := v\<rparr>) out;
     int_attr p ATTR_TARGET_SDK_VERSION 0 (\<lambda>v o'. o'\<lparr>md_targetSdkVersion := v\<rparr>) out }"

text \<open>The \<open>application\<close> branch; its two debug dumps read every typed value and log it.\<close>

fun dump_attrs :: "axml \<Rightarrow> nat list \<Rightarrow> unit option" where
  "dump_attrs p [] = Some ()"
| "dump_attrs p (i # is) = do {
     _ \<leftarrow> getAttributeValue p i; _ \<leftarrow> getAttributeNameResID p i; dump_attrs p is }"

definition start_application :: "axml \<Rightarrow> ManifestData \<Rightarrow> ManifestData option" where
  "start_application p out = do {
     out \<leftarrow> str_attr p ATTR_NAME
       (\<lambda>v o'. o'\<lparr>md_appClassName := ResolveClassName v (md_packageName o')\<rparr>) out;
     out \<leftarrow> str_attr p ATTR_LABEL (\<lambda>v o'. o'\<lparr>md_appLabel := v\<rparr>) out;
     out \<leftarrow> bool_attr p ATTR_DEBUGGABLE False (\<lambda>v o'. o'\<lparr>md_debuggable := v\<rparr>) out;
     out \<leftarrow> bool_attr p ATTR_EXTRACT_NATIVE_LIBS True (\<lambda>v o'. o'\<lparr>md_extractNativeLibs := v\<rparr>) out;
     _ \<leftarrow> dump_attrs p [0..<getAttributeCount p];
     _ \<leftarrow> dump_attrs p [0..<getAttributeCount p];
     out \<leftarrow> int_attr p ATTR_THEME 0 (\<lambda>v o'. o'\<lparr>md_appTheme := v\<rparr>) out;
     out \<leftarrow> str_attr p ATTR_PROCESS (\<lambda>v o'. o'\<lparr>md_appProcessName := v\<rparr>) out;
     out \<leftarrow> str_attr p ATTR_APP_COMPONENT_FACTORY
       (\<lambda>v o'. o'\<lparr>md_appComponentFactory := ResolveClassName v (md_packageName o')\<rparr>) out;
     out \<leftarrow> str_attr p ATTR_CLASS_LOADER (\<lambda>v o'. o'\<lparr>md_classLoaderName := v\<rparr>) out;
     out \<leftarrow> int_attr p ATTR_NETWORK_SECURITY_CONFIG 0
       (\<lambda>v o'. o'\<lparr>md_networkSecurityConfigRes := v\<rparr>) out;
     out \<leftarrow> bool_attr p ATTR_LARGE_HEAP False (\<lambda>v o'. o'\<lparr>md_largeHeap := v\<rparr>) out;
     out \<leftarrow> bool_attr p ATTR_ALLOW_BACKUP True (\<lambda>v o'. o'\<lparr>md_allowBackup := v\<rparr>) out;
     out \<leftarrow> bool_attr p ATTR_PERSISTENT False (\<lambda>v o'. o'\<lparr>md_persistent := v\<rparr>) out;
     bool_attr p ATTR_HW_ACCELERATED True (\<lambda>v o'. o'\<lparr>md_hardwareAccelerated := v\<rparr>) out }"

definition start_uses_library :: "axml \<Rightarrow> ManifestData \<Rightarrow> ManifestData option" where
  "start_uses_library p out =
     str_attr p ATTR_NAME (\<lambda>v o'. if v \<noteq> []
       then o'\<lparr>md_sharedLibraryFiles := md_sharedLibraryFiles o' @ [v]\<rparr> else o') out"

text \<open>\<open>std::to_string\<close> of an \<open>int32_t\<close>.\<close>

fun nat_digits :: "nat \<Rightarrow> string" where
  "nat_digits n = (if n < 10 then [char_of (48 + n)]
     else nat_digits (n div 10) @ [char_of (48 + n mod 10)])"

declare nat_digits.simps [simp del]

definition to_string :: "int \<Rightarrow> string" where
  "to_string i = (if i < 0 then CHR ''-'' # nat_digits (nat (- i)) else nat_digits (nat i))"

definition start_meta_data :: "axml \<Rightarrow> ManifestData \<Rightarrow> ManifestData option" where
  "start_meta_data p out =
     with_attr p ATTR_NAME (\<lambda>nidx. do {
       mdName \<leftarrow> GetStringAttr p nidx;
       if mdName = [] then Some out
       else do {
         vidx \<leftarrow> FindAttrByResId p ATTR_VALUE;
         mdVal \<leftarrow> (case vidx of
             Some v \<Rightarrow> GetStringAttr p v
           | None \<Rightarrow> do {
               ridx \<leftarrow> FindAttrByResId p ATTR_RESOURCE;
               (case ridx of
                  Some r \<Rightarrow> do { n \<leftarrow> GetIntAttr p r 0; Some (to_string n) }
                | None \<Rightarrow> Some []) });
         Some (out\<lparr>md_appMetaData := md_appMetaData out @ [(mdName, mdVal)]\<rparr>) } }) out"

definition start_activity :: "axml \<Rightarrow> string \<Rightarrow> ActivityData option" where
  "start_activity p pkg = do {
     a \<leftarrow> str_attr p ATTR_NAME (\<lambda>v a. a\<lparr>ac_name := ResolveClassName v pkg\<rparr>) new_activity;
     a \<leftarrow> str_attr p ATTR_LABEL (\<lambda>v a. a\<lparr>ac_label := v\<rparr>) a;
     a \<leftarrow> int_attr p ATTR_LAUNCH_MODE 0 (\<lambda>v a. a\<lparr>ac_launchMode := v\<rparr>) a;
     a \<leftarrow> int_attr p ATTR_SCREEN_ORIENTATION (-1) (\<lambda>v a. a\<lparr>ac_screenOrientation := v\<rparr>) a;
     a \<leftarrow> bool_attr p ATTR_EXPORTED False (\<lambda>v a. a\<lparr>ac_exported := v\<rparr>) a;
     a \<leftarrow> str_attr p ATTR_TASK_AFFINITY (\<lambda>v a. a\<lparr>ac_taskAffinity := v\<rparr>) a;
     a \<leftarrow> str_attr p ATTR_PERMISSION (\<lambda>v a. a\<lparr>ac_permission := v\<rparr>) a;
     int_attr p ATTR_THEME 0 (\<lambda>v a. a\<lparr>ac_theme := v\<rparr>) a }"

definition start_service :: "axml \<Rightarrow> string \<Rightarrow> ServiceData option" where
  "start_service p pkg = do {
     a \<leftarrow> str_attr p ATTR_NAME (\<lambda>v a. a\<lparr>sv_name := ResolveClassName v pkg\<rparr>) new_service;
     a \<leftarrow> bool_attr p ATTR_EXPORTED False (\<lambda>v a. a\<lparr>sv_exported := v\<rparr>) a;
     str_attr p ATTR_PERMISSION (\<lambda>v a. a\<lparr>sv_permission := v\<rparr>) a }"

definition start_receiver :: "axml \<Rightarrow> string \<Rightarrow> ServiceData option" where
  "start_receiver p pkg = do {
     a \<leftarrow> str_attr p ATTR_NAME (\<lambda>v a. a\<lparr>sv_name := ResolveClassName v pkg\<rparr>) new_service;
     a \<leftarrow> bool_attr p ATTR_EXPORTED False (\<lambda>v a. a\<lparr>sv_exported := v\<rparr>) a;
     str_attr p ATTR_PERMISSION (\<lambda>v a. a\<lparr>sv_permission := v\<rparr>) a }"

definition start_provider :: "axml \<Rightarrow> string \<Rightarrow> ProviderData option" where
  "start_provider p pkg = do {
     a \<leftarrow> str_attr p ATTR_NAME (\<lambda>v a. a\<lparr>pv_name := ResolveClassName v pkg\<rparr>) new_provider;
     a \<leftarrow> str_attr p ATTR_AUTHORITIES (\<lambda>v a. a\<lparr>pv_authorities := v\<rparr>) a;
     a \<leftarrow> bool_attr p ATTR_EXPORTED False (\<lambda>v a. a\<lparr>pv_exported := v\<rparr>) a;
     a \<leftarrow> str_attr p ATTR_READ_PERMISSION (\<lambda>v a. a\<lparr>pv_readPermission := v\<rparr>) a;
     a \<leftarrow> str_attr p ATTR_WRITE_PERMISSION (\<lambda>v a. a\<lparr>pv_writePermission := v\<rparr>) a;
     a \<leftarrow> bool_attr p ATTR_GRANT_URI_PERMISSIONS False (\<lambda>v a. a\<lparr>pv_grantUriPermissions := v\<rparr>) a;
     a \<leftarrow> bool_attr p ATTR_MULTIPROCESS False (\<lambda>v a. a\<lparr>pv_multiprocess := v\<rparr>) a;
     a \<leftarrow> int_attr p ATTR_INIT_ORDER 0 (\<lambda>v a. a\<lparr>pv_initOrder := v\<rparr>) a;
     str_attr p ATTR_PROCESS (\<lambda>v a. a\<lparr>pv_processName := v\<rparr>) a }"

definition start_action :: "axml \<Rightarrow> IntentFilterData \<Rightarrow> IntentFilterData option" where
  "start_action p f = str_attr p ATTR_NAME (\<lambda>v f. f\<lparr>if_actions := if_actions f @ [v]\<rparr>) f"

definition start_category :: "axml \<Rightarrow> IntentFilterData \<Rightarrow> IntentFilterData option" where
  "start_category p f = str_attr p ATTR_NAME (\<lambda>v f. f\<lparr>if_categories := if_categories f @ [v]\<rparr>) f"

definition uri_empty :: "UriData \<Rightarrow> bool" where
  "uri_empty u \<longleftrightarrow> ud_scheme u = [] \<and> ud_host u = [] \<and> ud_path u = [] \<and> ud_type u = []"

definition start_data :: "axml \<Rightarrow> IntentFilterData \<Rightarrow> IntentFilterData option" where
  "start_data p f = do {
     let u = \<lparr>ud_scheme = [], ud_host = [], ud_path = [], ud_type = []\<rparr>;
     u \<leftarrow> str_attr p ATTR_SCHEME (\<lambda>v u. u\<lparr>ud_scheme := v\<rparr>) u;
     u \<leftarrow> str_attr p ATTR_HOST (\<lambda>v u. u\<lparr>ud_host := v\<rparr>) u;
     u \<leftarrow> str_attr p ATTR_PATH (\<lambda>v u. u\<lparr>ud_path := v\<rparr>) u;
     u \<leftarrow> str_attr p ATTR_MIME_TYPE (\<lambda>v u. u\<lparr>ud_type := v\<rparr>) u;
     Some (if \<not> uri_empty u then f\<lparr>if_dataSpecs := if_dataSpecs f @ [u]\<rparr> else f) }"

definition start_uses_permission :: "axml \<Rightarrow> ManifestData \<Rightarrow> ManifestData option" where
  "start_uses_permission p out =
     str_attr p ATTR_NAME (\<lambda>v o'. o'\<lparr>md_usesPermissions := md_usesPermissions o' @ [v]\<rparr>) out"

definition start_permission :: "axml \<Rightarrow> ManifestData \<Rightarrow> ManifestData option" where
  "start_permission p out = do {
     let m = \<lparr>pm_name = [], pm_protectionLevel = 0\<rparr>;
     m \<leftarrow> str_attr p ATTR_NAME (\<lambda>v m. m\<lparr>pm_name := v\<rparr>) m;
     m \<leftarrow> int_attr p ATTR_PROTECTION_LEVEL 0 (\<lambda>v m. m\<lparr>pm_protectionLevel := v\<rparr>) m;
     Some (if pm_name m \<noteq> []
           then out\<lparr>md_permissionDeclarations := md_permissionDeclarations out @ [m]\<rparr> else out) }"

definition handle_start :: "string \<Rightarrow> axml \<Rightarrow> mstate \<Rightarrow> mstate option" where
  "handle_start elemName p s0 =
     (let s = s0\<lparr>ms_stateStack := ms_state s0 # ms_stateStack s0\<rparr>;
          out = ms_outData s; pkg = md_packageName out; flt = ms_currentFilter s;
          inApp = (ms_state s = IN_APPLICATION); inFilter = (ms_state s = IN_INTENT_FILTER) in
      if elemName = ''manifest'' then
        map_option (\<lambda>o'. s\<lparr>ms_state := IN_MANIFEST, ms_outData := o'\<rparr>) (start_manifest p out)
      else if elemName = ''uses-sdk'' then
        map_option (\<lambda>o'. s\<lparr>ms_state := IN_USES_SDK, ms_outData := o'\<rparr>) (start_uses_sdk p out)
      else if elemName = ''application'' then
        map_option (\<lambda>o'. s\<lparr>ms_state := IN_APPLICATION, ms_outData := o'\<rparr>) (start_application p out)
      else if elemName = ''uses-library'' \<and> inApp then
        map_option (\<lambda>o'. s\<lparr>ms_outData := o'\<rparr>) (start_uses_library p out)
      else if elemName = ''meta-data'' \<and> inApp then
        map_option (\<lambda>o'. s\<lparr>ms_outData := o'\<rparr>) (start_meta_data p out)
      else if elemName = ''activity'' \<or> elemName = ''activity-alias'' then
        map_option (\<lambda>a. s\<lparr>ms_state := IN_ACTIVITY, ms_currentActivity := a\<rparr>) (start_activity p pkg)
      else if elemName = ''service'' then
        map_option (\<lambda>a. s\<lparr>ms_state := IN_SERVICE, ms_currentService := a\<rparr>) (start_service p pkg)
      else if elemName = ''receiver'' then
        map_option (\<lambda>a. s\<lparr>ms_state := IN_RECEIVER, ms_currentReceiver := a\<rparr>) (start_receiver p pkg)
      else if elemName = ''provider'' then
        map_option (\<lambda>a. s\<lparr>ms_state := IN_PROVIDER, ms_currentProvider := a\<rparr>) (start_provider p pkg)
      else if elemName = ''intent-filter'' then
        Some (s\<lparr>ms_state := IN_INTENT_FILTER, ms_currentFilter := new_filter\<rparr>)
      else if elemName = ''action'' \<and> inFilter then
        map_option (\<lambda>f. s\<lparr>ms_currentFilter := f\<rparr>) (start_action p flt)
      else if elemName = ''category'' \<and> inFilter then
        map_option (\<lambda>f. s\<lparr>ms_currentFilter := f\<rparr>) (start_category p flt)
      else if elemName = ''data'' \<and> inFilter then
        map_option (\<lambda>f. s\<lparr>ms_currentFilter := f\<rparr>) (start_data p flt)
      else if elemName = ''uses-permission'' then
        map_option (\<lambda>o'. s\<lparr>ms_state := IN_USES_PERMISSION, ms_outData := o'\<rparr>)
          (start_uses_permission p out)
      else if elemName = ''permission'' then
        map_option (\<lambda>o'. s\<lparr>ms_state := IN_PERMISSION, ms_outData := o'\<rparr>) (start_permission p out)
      else Some s)"

definition close_activity :: "ActivityData \<Rightarrow> ActivityData" where
  "close_activity a = (if ac_intentFilters a \<noteq> [] \<and> \<not> ac_exported a
     then a\<lparr>ac_exported := True\<rparr> else a)"

definition close_service :: "ServiceData \<Rightarrow> ServiceData" where
  "close_service a = (if sv_intentFilters a \<noteq> [] \<and> \<not> sv_exported a
     then a\<lparr>sv_exported := True\<rparr> else a)"

text \<open>The end-tag branch before the pop (lines 530 to 559).\<close>

definition attach :: "string \<Rightarrow> mstate \<Rightarrow> mstate" where
  "attach elemName s =
     (let out = ms_outData s in
      if elemName = ''intent-filter'' then
        (let parentState = (case ms_stateStack s of [] \<Rightarrow> NONE | t # _ \<Rightarrow> t);
             f = ms_currentFilter s in
         if parentState = IN_ACTIVITY then
           s\<lparr>ms_currentActivity := (ms_currentActivity s)
               \<lparr>ac_intentFilters := ac_intentFilters (ms_currentActivity s) @ [f]\<rparr>\<rparr>
         else if parentState = IN_SERVICE then
           s\<lparr>ms_currentService := (ms_currentService s)
               \<lparr>sv_intentFilters := sv_intentFilters (ms_currentService s) @ [f]\<rparr>\<rparr>
         else if parentState = IN_RECEIVER then
           s\<lparr>ms_currentReceiver := (ms_currentReceiver s)
               \<lparr>sv_intentFilters := sv_intentFilters (ms_currentReceiver s) @ [f]\<rparr>\<rparr>
         else s)
      else if elemName = ''activity'' \<or> elemName = ''activity-alias'' then
        (let a = close_activity (ms_currentActivity s) in
         s\<lparr>ms_currentActivity := a, ms_outData := out\<lparr>md_activities := md_activities out @ [a]\<rparr>\<rparr>)
      else if elemName = ''service'' then
        (let a = close_service (ms_currentService s) in
         s\<lparr>ms_currentService := a, ms_outData := out\<lparr>md_services := md_services out @ [a]\<rparr>\<rparr>)
      else if elemName = ''receiver'' then
        (let a = close_service (ms_currentReceiver s) in
         s\<lparr>ms_currentReceiver := a, ms_outData := out\<lparr>md_receivers := md_receivers out @ [a]\<rparr>\<rparr>)
      else if elemName = ''provider'' then
        s\<lparr>ms_outData := out\<lparr>md_providers := md_providers out @ [ms_currentProvider s]\<rparr>\<rparr>
      else s)"

definition pop_state :: "mstate \<Rightarrow> mstate" where
  "pop_state s = (case ms_stateStack s of
     [] \<Rightarrow> s\<lparr>ms_state := NONE\<rparr>
   | t # ts \<Rightarrow> s\<lparr>ms_state := t, ms_stateStack := ts\<rparr>)"

definition handle_end :: "string \<Rightarrow> mstate \<Rightarrow> mstate" where
  "handle_end elemName s = pop_state (attach elemName s)"

lemma next_loop_codes:
  assumes "next_loop a c = Some (ev, a')"
  shows "ev \<in> {EC_START_TAG, EC_END_TAG, EC_END_DOCUMENT, EC_BAD_DOCUMENT}"
proof (cases "c \<le> ax_end a")
  case True
  with next_loop_spec [OF assms] show ?thesis by (cases ev) auto
next
  case False
  with assms show ?thesis by (subst (asm) next_loop.simps) auto
qed

lemma axml_next_codes:
  assumes "axml_next a = Some (ev, a')"
  shows "ev \<in> {EC_START_TAG, EC_END_TAG, EC_END_DOCUMENT, EC_BAD_DOCUMENT}"
  using assms next_loop_codes by (auto simp: axml_next_def split: if_splits option.splits)

function parse_loop :: "axml \<Rightarrow> mstate \<Rightarrow> (bool \<times> mstate) option" where
  "parse_loop p s = do {
     (ev, p') \<leftarrow> axml_next p;
     (if ev = EC_END_DOCUMENT then Some (True, s)
      else if ev = EC_BAD_DOCUMENT then Some (False, s)
      else if ev = EC_START_TAG then do {
        name \<leftarrow> getElementName p';
        (case name of
           None \<Rightarrow> parse_loop p' s
         | Some n \<Rightarrow> do { s' \<leftarrow> handle_start (chars n) p' s; parse_loop p' s' }) }
      else if ev = EC_END_TAG then do {
        name \<leftarrow> getElementName p';
        parse_loop p' (handle_end (case name of None \<Rightarrow> [] | Some n \<Rightarrow> chars n) s) }
      else parse_loop p' s) }"
  by pat_completeness auto
termination
  by (relation "measure (\<lambda>(p, s). ax_left p)")
     (use axml_next_tag_left axml_next_codes in fastforce)+

declare parse_loop.simps [simp del]

definition ParseAXML :: "bytes \<Rightarrow> ManifestData \<Rightarrow> (bool \<times> ManifestData) option" where
  "ParseAXML data outData = do {
     (rc, tree) \<leftarrow> setTo axml_init data;
     if rc \<noteq> 0 then Some (False, outData)
     else do {
       (ok, s) \<leftarrow> parse_loop tree (new_mstate outData);
       if \<not> ok then Some (False, ms_outData s)
       else if md_packageName (ms_outData s) = [] then Some (False, ms_outData s)
       else Some (True, ms_outData s) } }"

definition ExtractZipEntry :: "('z, 'f) unz \<Rightarrow> string \<Rightarrow> string \<Rightarrow> bytes \<Rightarrow> bool \<times> bytes" where
  "ExtractZipEntry u zipPath entryName outData = read_zip_entry u zipPath entryName outData"

definition Parse :: "('z, 'f) unz \<Rightarrow> string \<Rightarrow> ManifestData \<Rightarrow> (bool \<times> ManifestData) option" where
  "Parse u apkPath outData =
     (let (ok, manifestData) = ExtractZipEntry u apkPath ''AndroidManifest.xml'' [] in
      if \<not> ok then Some (False, outData) else ParseAXML manifestData outData)"

section \<open>What every successful parse guarantees\<close>

definition filter_ok :: "IntentFilterData \<Rightarrow> bool" where
  "filter_ok f \<longleftrightarrow> list_all (\<lambda>u. \<not> uri_empty u) (if_dataSpecs f)"

definition cur_activity_ok :: "ActivityData \<Rightarrow> bool" where
  "cur_activity_ok a \<longleftrightarrow> list_all filter_ok (ac_intentFilters a) \<and> int32 (ac_launchMode a)
     \<and> int32 (ac_screenOrientation a) \<and> int32 (ac_theme a)"

definition activity_ok :: "ActivityData \<Rightarrow> bool" where
  "activity_ok a \<longleftrightarrow> cur_activity_ok a \<and> (ac_intentFilters a \<noteq> [] \<longrightarrow> ac_exported a)"

definition cur_service_ok :: "ServiceData \<Rightarrow> bool" where
  "cur_service_ok a \<longleftrightarrow> list_all filter_ok (sv_intentFilters a)"

definition service_ok :: "ServiceData \<Rightarrow> bool" where
  "service_ok a \<longleftrightarrow> cur_service_ok a \<and> (sv_intentFilters a \<noteq> [] \<longrightarrow> sv_exported a)"

definition provider_ok :: "ProviderData \<Rightarrow> bool" where
  "provider_ok a \<longleftrightarrow> int32 (pv_initOrder a)"

definition manifest_ok :: "ManifestData \<Rightarrow> bool" where
  "manifest_ok m \<longleftrightarrow>
     list_all activity_ok (md_activities m) \<and> list_all service_ok (md_services m)
     \<and> list_all service_ok (md_receivers m) \<and> list_all provider_ok (md_providers m)
     \<and> list_all (\<lambda>l. l \<noteq> []) (md_sharedLibraryFiles m)
     \<and> list_all (\<lambda>(n, v). n \<noteq> []) (md_appMetaData m)
     \<and> list_all (\<lambda>q. pm_name q \<noteq> [] \<and> int32 (pm_protectionLevel q)) (md_permissionDeclarations m)
     \<and> int32 (md_versionCode m) \<and> int32 (md_minSdkVersion m) \<and> int32 (md_targetSdkVersion m)
     \<and> int32 (md_appTheme m) \<and> int32 (md_networkSecurityConfigRes m)"

definition mstate_ok :: "mstate \<Rightarrow> bool" where
  "mstate_ok s \<longleftrightarrow> manifest_ok (ms_outData s) \<and> filter_ok (ms_currentFilter s)
     \<and> cur_activity_ok (ms_currentActivity s) \<and> cur_service_ok (ms_currentService s)
     \<and> cur_service_ok (ms_currentReceiver s) \<and> provider_ok (ms_currentProvider s)"

lemmas ok_defs = manifest_ok_def filter_ok_def activity_ok_def cur_activity_ok_def service_ok_def
  cur_service_ok_def provider_ok_def

lemma pred_bind: "pred_option P m \<Longrightarrow> (\<And>x. P x \<Longrightarrow> pred_option P (f x)) \<Longrightarrow> pred_option P (m \<bind> f)"
  by (cases m) simp_all

lemma pred_bind_any: "(\<And>x. pred_option P (f x)) \<Longrightarrow> pred_option P (m \<bind> f)"
  by (cases m) simp_all

lemma with_attr_ok: "P s \<Longrightarrow> (\<And>i. pred_option P (f i)) \<Longrightarrow> pred_option P (with_attr p r f s)"
  by (auto simp: with_attr_def intro!: pred_bind_any split: option.splits)

lemma str_attr_ok: "P s \<Longrightarrow> (\<And>v. P (u v s)) \<Longrightarrow> pred_option P (str_attr p r u s)"
  by (auto simp: str_attr_def intro!: with_attr_ok pred_bind_any)

lemma GetIntAttr_int32: "int32 d \<Longrightarrow> pred_option int32 (GetIntAttr p i d)"
  by (auto simp: GetIntAttr_def intro!: pred_bind_any split: option.splits)

lemma int_attr_ok:
  "P s \<Longrightarrow> int32 d \<Longrightarrow> (\<And>v. int32 v \<Longrightarrow> P (u v s)) \<Longrightarrow> pred_option P (int_attr p r d u s)"
  unfolding int_attr_def
proof (rule with_attr_ok)
  fix i assume "int32 d" "\<And>v. int32 v \<Longrightarrow> P (u v s)"
  then show "pred_option P (GetIntAttr p i d \<bind> (\<lambda>v. Some (u v s)))"
    using GetIntAttr_int32 [of d p i] by (cases "GetIntAttr p i d") auto
qed

lemma bool_attr_ok: "P s \<Longrightarrow> (\<And>v. P (u v s)) \<Longrightarrow> pred_option P (bool_attr p r d u s)"
  by (auto simp: bool_attr_def intro!: with_attr_ok pred_bind_any)

lemmas attr_ok = str_attr_ok int_attr_ok bool_attr_ok

lemma find_package_ok: "manifest_ok out \<Longrightarrow> pred_option manifest_ok (find_package p is out)"
proof (induction "is" arbitrary: out)
  case (Cons i "is")
  then have "manifest_ok (out\<lparr>md_packageName := v\<rparr>)" for v by (simp add: ok_defs)
  with Cons show ?case by (auto intro!: pred_bind_any split: option.splits)
qed simp

lemma start_manifest_ok: "manifest_ok out \<Longrightarrow> pred_option manifest_ok (start_manifest p out)"
  unfolding start_manifest_def
  by (intro pred_bind_any [where m = "FindAttrByResId p ATTR_NAME"] pred_bind find_package_ok attr_ok)
     (simp_all add: ok_defs)

lemma start_uses_sdk_ok: "manifest_ok out \<Longrightarrow> pred_option manifest_ok (start_uses_sdk p out)"
  unfolding start_uses_sdk_def by (intro pred_bind attr_ok) (simp_all add: ok_defs)

lemma start_application_ok: "manifest_ok out \<Longrightarrow> pred_option manifest_ok (start_application p out)"
  unfolding start_application_def
  by (intro pred_bind pred_bind_any [where m = "dump_attrs p xs" for xs] attr_ok)
     (simp_all add: ok_defs)

lemma start_uses_library_ok: "manifest_ok out \<Longrightarrow> pred_option manifest_ok (start_uses_library p out)"
  unfolding start_uses_library_def by (intro attr_ok) (simp_all add: ok_defs)

lemma start_meta_data_ok: "manifest_ok out \<Longrightarrow> pred_option manifest_ok (start_meta_data p out)"
  unfolding start_meta_data_def
  by (intro with_attr_ok pred_bind_any) (auto intro!: pred_bind_any simp: ok_defs)

lemma start_uses_permission_ok:
  "manifest_ok out \<Longrightarrow> pred_option manifest_ok (start_uses_permission p out)"
  unfolding start_uses_permission_def by (intro attr_ok) (simp_all add: ok_defs)

lemma pred_bind_via:
  "pred_option Q m \<Longrightarrow> (\<And>x. Q x \<Longrightarrow> pred_option P (f x)) \<Longrightarrow> pred_option P (m \<bind> f)"
  by (cases m) simp_all

lemma start_permission_ok:
  assumes "manifest_ok out"
  shows "pred_option manifest_ok (start_permission p out)"
proof -
  let ?Q = "\<lambda>q :: PermissionData. int32 (pm_protectionLevel q)"
  show ?thesis
    unfolding start_permission_def Let_def using assms
    by (intro pred_bind_via [of ?Q] attr_ok) (simp_all add: ok_defs)
qed

lemma start_activity_ok: "pred_option cur_activity_ok (start_activity p pkg)"
  unfolding start_activity_def by (intro pred_bind attr_ok) (simp_all add: ok_defs new_activity_def)

lemma start_service_ok: "pred_option cur_service_ok (start_service p pkg)"
  unfolding start_service_def by (intro pred_bind attr_ok) (simp_all add: ok_defs new_service_def)

lemma start_receiver_ok: "pred_option cur_service_ok (start_receiver p pkg)"
  unfolding start_receiver_def by (intro pred_bind attr_ok) (simp_all add: ok_defs new_service_def)

lemma start_provider_ok: "pred_option provider_ok (start_provider p pkg)"
  unfolding start_provider_def by (intro pred_bind attr_ok) (simp_all add: ok_defs new_provider_def)

lemma start_filter_ok:
  assumes "filter_ok f"
  shows "pred_option filter_ok (start_action p f)" "pred_option filter_ok (start_category p f)"
    "pred_option filter_ok (start_data p f)"
  using assms unfolding start_action_def start_category_def start_data_def Let_def
  by (auto intro!: attr_ok pred_bind_any simp: filter_ok_def)

lemma pred_map_option: "pred_option Q m \<Longrightarrow> (\<And>x. Q x \<Longrightarrow> P (f x)) \<Longrightarrow> pred_option P (map_option f m)"
  by (cases m) simp_all

lemma pred_if: "(b \<Longrightarrow> pred_option P x) \<Longrightarrow> (\<not> b \<Longrightarrow> pred_option P y) \<Longrightarrow> pred_option P (if b then x else y)"
  by simp

lemmas start_oks = start_manifest_ok start_uses_sdk_ok start_application_ok start_uses_library_ok
  start_meta_data_ok start_activity_ok start_service_ok start_receiver_ok start_provider_ok
  start_filter_ok start_uses_permission_ok start_permission_ok

lemma handle_start_ok:
  assumes "mstate_ok s"
  shows "pred_option mstate_ok (handle_start e p s)"
proof -
  from assms have ok: "manifest_ok (ms_outData s)" "filter_ok (ms_currentFilter s)"
    by (simp_all add: mstate_ok_def)
  have new: "filter_ok new_filter" by (simp add: new_filter_def filter_ok_def)
  show ?thesis
    unfolding handle_start_def Let_def
    by (intro pred_if; (rule pred_map_option, rule start_oks)?)
       (use assms ok new in \<open>simp_all add: mstate_ok_def\<close>)
qed

lemma attach_ok: "mstate_ok s \<Longrightarrow> mstate_ok (attach e s)"
  by (auto simp: attach_def mstate_ok_def Let_def ok_defs close_activity_def close_service_def
      split: list.splits)

lemma handle_end_ok: "mstate_ok s \<Longrightarrow> mstate_ok (handle_end e s)"
  using attach_ok [of s e]
  by (auto simp: handle_end_def pop_state_def mstate_ok_def split: list.splits)

text \<open>The tags of a document drive the state machine; any parse is a path of this relation.\<close>

inductive tag_step :: "mstate \<Rightarrow> mstate \<Rightarrow> bool" where
  start_tag: "handle_start e p s = Some s' \<Longrightarrow> tag_step s s'"
| end_tag: "tag_step s (handle_end e s)"

lemma parse_loop_path: "parse_loop p s = Some (ok, s') \<Longrightarrow> tag_step\<^sup>*\<^sup>* s s'"
proof (induction "ax_left p" arbitrary: p s rule: less_induct)
  case less
  from less.prems obtain ev p' where n: "axml_next p = Some (ev, p')"
    by (subst (asm) parse_loop.simps) (auto simp: bind_eq_Some_conv)
  note step = less.prems [unfolded parse_loop.simps [of p s] n bind.simps prod.case]
  show ?case
  proof (cases "ev = EC_START_TAG \<or> ev = EC_END_TAG")
    case True
    then have "ax_left p' < ax_left p" using axml_next_tag_left [OF n] by linarith
    note IH = less.hyps [OF this]
    have "handle_start e p' s = Some s1 \<Longrightarrow> parse_loop p' s1 = Some (ok, s') \<Longrightarrow> tag_step\<^sup>*\<^sup>* s s'"
      for e s1 by (rule converse_rtranclp_into_rtranclp [OF start_tag IH])
    moreover have "parse_loop p' (handle_end e s) = Some (ok, s') \<Longrightarrow> tag_step\<^sup>*\<^sup>* s s'" for e
      by (rule converse_rtranclp_into_rtranclp [OF end_tag IH])
    ultimately show ?thesis
      using step True IH by (auto simp: bind_eq_Some_conv split: option.splits)
  qed (use step axml_next_codes [OF n] in auto)
qed

lemma tag_step_ok: "tag_step s s' \<Longrightarrow> mstate_ok s \<Longrightarrow> mstate_ok s'"
proof (induction rule: tag_step.induct)
  case (start_tag e p s s')
  then show ?case using handle_start_ok [of s e p] by simp
qed (rule handle_end_ok)

lemma path_ok: "tag_step\<^sup>*\<^sup>* s s' \<Longrightarrow> mstate_ok s \<Longrightarrow> mstate_ok s'"
  by (induction rule: rtranclp_induct) (auto intro: tag_step_ok)

lemma new_mstate_ok: "mstate_ok (new_mstate new_manifest)"
  by (simp add: mstate_ok_def new_mstate_def new_manifest_def ok_defs new_filter_def
      new_activity_def new_service_def new_provider_def)

lemma ParseAXML_result:
  assumes "ParseAXML data new_manifest = Some (True, m)"
  shows "\<exists>s. tag_step\<^sup>*\<^sup>* (new_mstate new_manifest) s \<and> m = ms_outData s \<and> md_packageName m \<noteq> []"
  using assms by (auto simp: ParseAXML_def bind_eq_Some_conv dest: parse_loop_path split: if_splits)


text \<open>A small document: a manifest element with a package name.\<close>

definition sample_manifest :: bytes where
  "sample_manifest = enc_doc True [0, 10, 21]
     (concat (map (\<lambda>s. enc_str8 (length s, bytes_of s)) [''package'', ''manifest'', ''a.b'']))
     [] [XStart 1 0xFFFFFFFF 0xFFFFFFFF 1 [\<lparr>na_ns = 0xFFFFFFFF, na_name = 0, na_raw = 2,
           na_value = \<lparr>rv_size = 8, rv_res0 = 0, rv_dataType = 3, rv_data = 2\<rparr>\<rparr>]]"

lemma sample_manifest_parses:
  "\<exists>m. ParseAXML sample_manifest new_manifest = Some (True, m) \<and> md_packageName m = ''a.b''"
proof -
  have "map_option (\<lambda>(ok, m). (ok, md_packageName m)) (ParseAXML sample_manifest new_manifest) = Some (True, ''a.b'')"
    by code_simp
  then show ?thesis by auto
qed


lemma pred_map_any: "(\<And>x. P (f x)) \<Longrightarrow> pred_option P (map_option f m)"
  by (cases m) simp_all

section \<open>Documents as tag sequences\<close>

datatype tag = Open string axml | Close string

fun run_tags :: "tag list \<Rightarrow> mstate \<Rightarrow> mstate option" where
  "run_tags [] s = Some s"
| "run_tags (Open e p # ts) s = do { s' \<leftarrow> handle_start e p s; run_tags ts s' }"
| "run_tags (Close e # ts) s = run_tags ts (handle_end e s)"

lemma run_tags_append: "run_tags (ts @ us) s = run_tags ts s \<bind> run_tags us"
proof (induction ts arbitrary: s)
  case (Cons t ts)
  then have "(\<lambda>s. run_tags (ts @ us) s) = (\<lambda>s. run_tags ts s \<bind> run_tags us)" by blast
  then show ?case by (cases t) simp_all
qed simp

lemma run_tags_path: "run_tags ts s = Some s' \<Longrightarrow> tag_step\<^sup>*\<^sup>* s s'"
proof (induction ts s rule: run_tags.induct)
  case (2 e p ts s)
  then obtain s1 where "handle_start e p s = Some s1" "tag_step\<^sup>*\<^sup>* s1 s'"
    by (auto simp: bind_eq_Some_conv)
  then show ?case by (blast intro: converse_rtranclp_into_rtranclp start_tag)
next
  case (3 e ts s)
  then have "tag_step\<^sup>*\<^sup>* (handle_end e s) s'" by simp
  then show ?case by (blast intro: converse_rtranclp_into_rtranclp end_tag)
qed simp

inductive balanced :: "tag list \<Rightarrow> bool" where
  balanced_Nil: "balanced []"
| balanced_elem: "balanced ts \<Longrightarrow> balanced us \<Longrightarrow> balanced (Open e p # ts @ Close e # us)"

lemma handle_start_stack:
  "handle_start e p s = Some s' \<Longrightarrow> ms_stateStack s' = ms_state s # ms_stateStack s"
proof -
  have "pred_option (\<lambda>s'. ms_stateStack s' = ms_state s # ms_stateStack s) (handle_start e p s)"
    unfolding handle_start_def Let_def by (intro pred_if; (rule pred_map_any)?) simp_all
  then show "handle_start e p s = Some s' \<Longrightarrow> ms_stateStack s' = ms_state s # ms_stateStack s" by simp
qed

lemma handle_end_pop:
  "ms_stateStack s = t # ts \<Longrightarrow> ms_state (handle_end e s) = t \<and> ms_stateStack (handle_end e s) = ts"
  by (auto simp: handle_end_def pop_state_def attach_def Let_def)

text \<open>
  Fact (balanced_restores_state): a properly nested sequence of tags leaves the current state and the
  stack of enclosing states as they were, so an element never changes how its following siblings
  are read.
\<close>

theorem balanced_restores_state:
  assumes "balanced ts" "run_tags ts s = Some s'"
  shows "ms_state s' = ms_state s \<and> ms_stateStack s' = ms_stateStack s"
  using assms
proof (induction arbitrary: s s' rule: balanced.induct)
  case (balanced_elem ts us e p)
  from balanced_elem.prems obtain s1 s2 where
    s1: "handle_start e p s = Some s1" and s2: "run_tags ts s1 = Some s2"
    and s': "run_tags us (handle_end e s2) = Some s'"
    by (auto simp: run_tags_append bind_eq_Some_conv)
  have "ms_stateStack s2 = ms_state s # ms_stateStack s"
    using balanced_elem.IH(1) [OF s2] handle_start_stack [OF s1] by simp
  then show ?case using balanced_elem.IH(2) [OF s'] handle_end_pop by simp
qed simp

text \<open>An intent filter is described by its child elements, in document order.\<close>

fun filter_of :: "(string \<times> axml) list \<Rightarrow> IntentFilterData \<Rightarrow> IntentFilterData option" where
  "filter_of [] f = Some f"
| "filter_of ((e, p) # xs) f = do {
     f' \<leftarrow> (if e = ''action'' then start_action p f
            else if e = ''category'' then start_category p f
            else start_data p f);
     filter_of xs f' }"

definition filter_tags :: "axml \<times> (string \<times> axml) list \<Rightarrow> tag list" where
  "filter_tags x = Open ''intent-filter'' (fst x)
     # concat (map (\<lambda>(e, p). [Open e p, Close e]) (snd x)) @ [Close ''intent-filter'']"

definition filter_child :: "string \<times> axml \<Rightarrow> bool" where
  "filter_child x \<longleftrightarrow> fst x = ''action'' \<or> fst x = ''category'' \<or> fst x = ''data''"

lemma filter_children:
  assumes "list_all filter_child xs" "ms_state s = IN_INTENT_FILTER"
    "filter_of xs (ms_currentFilter s) = Some f"
  shows "run_tags (concat (map (\<lambda>(e, p). [Open e p, Close e]) xs)) s = Some (s\<lparr>ms_currentFilter := f\<rparr>)"
  using assms
proof (induction xs arbitrary: s)
  case (Cons x xs)
  obtain e p where x: "x = (e, p)" by (cases x)
  from Cons.prems x obtain g where g: "(if e = ''action'' then start_action p (ms_currentFilter s)
      else if e = ''category'' then start_category p (ms_currentFilter s)
      else start_data p (ms_currentFilter s)) = Some g" and f: "filter_of xs g = Some f"
    by (auto simp: bind_eq_Some_conv)
  have e: "e = ''action'' \<or> e = ''category'' \<or> e = ''data''"
    using Cons.prems(1) x by (simp add: filter_child_def)
  let ?s1 = "s\<lparr>ms_stateStack := ms_state s # ms_stateStack s, ms_currentFilter := g\<rparr>"
  have "handle_start e p s = Some ?s1"
    using e by (elim disjE; hypsubst) (use g Cons.prems(2) in \<open>simp_all add: handle_start_def Let_def\<close>)
  moreover have "handle_end e ?s1 = s\<lparr>ms_currentFilter := g\<rparr>"
    using e by (elim disjE; hypsubst) (simp_all add: handle_end_def attach_def pop_state_def)
  moreover have "run_tags (concat (map (\<lambda>(e, p). [Open e p, Close e]) xs)) (s\<lparr>ms_currentFilter := g\<rparr>)
      = Some (s\<lparr>ms_currentFilter := f\<rparr>)"
    using Cons.IH [of "s\<lparr>ms_currentFilter := g\<rparr>"] Cons.prems f by simp
  ultimately show ?case by (simp add: x)
qed simp

lemma activity_filter:
  assumes "list_all filter_child (snd x)" "ms_state s = IN_ACTIVITY"
    "filter_of (snd x) new_filter = Some f"
  shows "run_tags (filter_tags x) s = Some (s\<lparr>ms_currentFilter := f,
    ms_currentActivity := (ms_currentActivity s)
      \<lparr>ac_intentFilters := ac_intentFilters (ms_currentActivity s) @ [f]\<rparr>\<rparr>)"
proof -
  let ?s1 = "s\<lparr>ms_stateStack := ms_state s # ms_stateStack s, ms_state := IN_INTENT_FILTER,
    ms_currentFilter := new_filter\<rparr>"
  have "handle_start ''intent-filter'' (fst x) s = Some ?s1"
    by (simp add: handle_start_def Let_def)
  moreover have "run_tags (concat (map (\<lambda>(e, p). [Open e p, Close e]) (snd x))) ?s1
      = Some (?s1\<lparr>ms_currentFilter := f\<rparr>)"
    using assms by (intro filter_children) simp_all
  moreover have "handle_end ''intent-filter'' (?s1\<lparr>ms_currentFilter := f\<rparr>)
      = s\<lparr>ms_currentFilter := f, ms_currentActivity := (ms_currentActivity s)
        \<lparr>ac_intentFilters := ac_intentFilters (ms_currentActivity s) @ [f]\<rparr>\<rparr>"
    using assms(2) by (simp add: handle_end_def attach_def pop_state_def)
  ultimately show ?thesis
    by (simp add: filter_tags_def run_tags_append)
qed

lemma activity_filters:
  assumes "list_all (\<lambda>x. list_all filter_child (snd x)) xs" "ms_state s = IN_ACTIVITY"
    "list_all2 (\<lambda>x f. filter_of (snd x) new_filter = Some f) xs fs"
  shows "\<exists>g. run_tags (concat (map filter_tags xs)) s = Some (s\<lparr>ms_currentFilter := g,
    ms_currentActivity := (ms_currentActivity s)
      \<lparr>ac_intentFilters := ac_intentFilters (ms_currentActivity s) @ fs\<rparr>\<rparr>)"
  using assms(3,1,2)
proof (induction arbitrary: s rule: list_all2_induct)
  case Nil
  show ?case by (intro exI [of _ "ms_currentFilter s"]) simp
next
  case (Cons x xs f fs)
  let ?s1 = "s\<lparr>ms_currentFilter := f, ms_currentActivity := (ms_currentActivity s)
      \<lparr>ac_intentFilters := ac_intentFilters (ms_currentActivity s) @ [f]\<rparr>\<rparr>"
  have "run_tags (filter_tags x) s = Some ?s1"
    using Cons by (intro activity_filter) simp_all
  moreover obtain g where "run_tags (concat (map filter_tags xs)) ?s1 = Some (?s1\<lparr>ms_currentFilter := g,
      ms_currentActivity := (ms_currentActivity ?s1)
        \<lparr>ac_intentFilters := ac_intentFilters (ms_currentActivity ?s1) @ fs\<rparr>\<rparr>)"
    using Cons.IH [of ?s1] Cons.prems by auto
  ultimately show ?case by (auto simp: run_tags_append)
qed

lemma start_activity_no_filters: "pred_option (\<lambda>a. ac_intentFilters a = []) (start_activity p pkg)"
  unfolding start_activity_def by (intro pred_bind attr_ok) (simp_all add: new_activity_def)

text \<open>
  Fact (activity_element_recorded): an \<open>activity\<close> element with any number of intent filters, each with any
  number of \<open>action\<close>, \<open>category\<close> and \<open>data\<close> children, appends exactly one activity to the result:
  the one its attributes describe, with one filter per \<open>intent-filter\<close> child in document order. It
  is exported if its attribute says so or if it has a filter: an explicit \<open>exported="false"\<close> does
  not survive an intent filter. Nothing else of the result and of the parser state changes.
\<close>

theorem activity_element_recorded:
  assumes "start_activity p (md_packageName (ms_outData s)) = Some a"
    and "list_all (\<lambda>x. list_all filter_child (snd x)) xs"
    and "list_all2 (\<lambda>x f. filter_of (snd x) new_filter = Some f) xs fs"
  shows "\<exists>s'. run_tags (Open ''activity'' p # concat (map filter_tags xs) @ [Close ''activity'']) s = Some s'
    \<and> ms_state s' = ms_state s \<and> ms_stateStack s' = ms_stateStack s
    \<and> ms_outData s' = (ms_outData s)\<lparr>md_activities := md_activities (ms_outData s)
        @ [a\<lparr>ac_exported := (ac_exported a \<or> xs \<noteq> []), ac_intentFilters := fs\<rparr>]\<rparr>"
proof -
  let ?s1 = "s\<lparr>ms_stateStack := ms_state s # ms_stateStack s, ms_state := IN_ACTIVITY,
    ms_currentActivity := a\<rparr>"
  have s1: "handle_start ''activity'' p s = Some ?s1"
    using assms(1) by (simp add: handle_start_def Let_def)
  have a: "ac_intentFilters a = []"
    using start_activity_no_filters [of p "md_packageName (ms_outData s)"] assms(1) by simp
  obtain g where "run_tags (concat (map filter_tags xs)) ?s1 = Some (?s1\<lparr>ms_currentFilter := g,
      ms_currentActivity := a\<lparr>ac_intentFilters := fs\<rparr>\<rparr>)"
    using activity_filters [OF assms(2) _ assms(3), of ?s1] a by auto
  moreover have "fs \<noteq> [] \<longleftrightarrow> xs \<noteq> []" using assms(3) by (cases xs; cases fs) auto
  ultimately show ?thesis using s1 a
    by (auto simp: run_tags_append handle_end_def attach_def pop_state_def close_activity_def Let_def)
qed

text \<open>
  Fact (ResolveClassName_idem): class name resolution is idempotent for a package name that is not empty
  and does not start with a dot, and a resolved name is fully qualified: it contains a dot and does
  not start with one.
\<close>

theorem ResolveClassName_idem:
  assumes "pkg \<noteq> []" "hd pkg \<noteq> CHR ''.''"
  shows "ResolveClassName (ResolveClassName name pkg) pkg = ResolveClassName name pkg
    \<and> (name \<noteq> [] \<longrightarrow> CHR ''.'' \<in> set (ResolveClassName name pkg) \<and> hd (ResolveClassName name pkg) \<noteq> CHR ''.'')"
  using assms by (cases name; cases pkg) (auto simp: ResolveClassName_def)


definition attr_view :: "u32 \<Rightarrow> byte \<Rightarrow> u32 \<Rightarrow> axml" where
  "attr_view resId dataType dat =
     axml_init\<lparr>ax_doc := put32 0 @ put32 0 @ put32 0xFFFFFFFF @ put16 8 @ [0, dataType] @ put32 dat,
       ax_resourceMap := [resId], ax_curAttrs := Some 0, ax_curAttrSize := 20, ax_curAttrCount := 1\<rparr>"

theorem activity_element_recorded_witness:
  "start_activity (attr_view ATTR_EXPORTED TYPE_INT_BOOLEAN 0) [] = Some new_activity \<and>
   (\<exists>s'. run_tags (Open ''activity'' (attr_view ATTR_EXPORTED TYPE_INT_BOOLEAN 0)
        # concat (map filter_tags [(axml_init, [(''action'', axml_init)])]) @ [Close ''activity''])
        (new_mstate new_manifest) = Some s'
    \<and> ms_outData s' = new_manifest\<lparr>md_activities :=
        [new_activity\<lparr>ac_exported := True, ac_intentFilters := [new_filter]\<rparr>]\<rparr>)"
proof -
  have s: "start_activity (attr_view ATTR_EXPORTED TYPE_INT_BOOLEAN 0) [] = Some new_activity"
    by code_simp
  moreover have f: "filter_of [(''action'', axml_init)] new_filter = Some new_filter"
    by code_simp
  ultimately show ?thesis
    using activity_element_recorded [of "attr_view ATTR_EXPORTED TYPE_INT_BOOLEAN 0"
        "new_mstate new_manifest" new_activity "[(axml_init, [(''action'', axml_init)])]" "[new_filter]"]
    by (auto simp: new_mstate_def new_manifest_def filter_child_def)
qed

theorem balanced_restores_state_witness:
  "\<exists>s. run_tags [Open ''application'' axml_init, Open ''service'' axml_init, Close ''service'',
      Close ''application''] (new_mstate new_manifest) = Some s \<and> ms_state s = NONE \<and> ms_stateStack s = []"
proof -
  let ?ts = "[Open ''application'' axml_init, Open ''service'' axml_init, Close ''service'', Close ''application'']"
  have "balanced ([Open ''service'' axml_init] @ [] @ [Close ''service''])"
    using balanced_elem [OF balanced_Nil balanced_Nil, of "''service''" axml_init] by simp
  then have "balanced ?ts"
    using balanced_elem [OF _ balanced_Nil, of "[Open ''service'' axml_init, Close ''service'']" "''application''" axml_init]
    by simp
  moreover have "run_tags ?ts (new_mstate new_manifest) \<noteq> None" by code_simp
  then obtain s where "run_tags ?ts (new_mstate new_manifest) = Some s" by blast
  ultimately show ?thesis
    using balanced_restores_state [of ?ts "new_mstate new_manifest" s] by (simp add: new_mstate_def)
qed

theorem ResolveClassName_idem_witness:
  "ResolveClassName ''.Main'' ''com.a'' = ''com.a.Main'' \<and>
   ResolveClassName (ResolveClassName ''.Main'' ''com.a'') ''com.a'' = ''com.a.Main''"
  using ResolveClassName_idem [of "''com.a''" "''.Main''"] by (simp add: ResolveClassName_def)
end
