(* ===== verification/PermissionMapper.thy ===== *)
theory PermissionMapper
  imports Prelude "HOL-Library.Sublist"
begin

text \<open>
  The permission name mapping of the package manager bridge
  (\<open>framework/package-manager/jni/permission_mapper.cpp\<close>): two static tables and the prefix rule for
  names outside them. The tables are association lists with distinct keys; \<open>map_of\<close> is the lookup of
  the \<open>std::unordered_map\<close>. The theorems characterise exactly which names survive a round trip.
\<close>

definition GetAndroidToOHMap :: "(string \<times> string) list" where
  "GetAndroidToOHMap = [
   (''android.permission.INTERNET'', ''ohos.permission.INTERNET''),
   (''android.permission.ACCESS_NETWORK_STATE'', ''ohos.permission.GET_NETWORK_INFO''),
   (''android.permission.ACCESS_WIFI_STATE'', ''ohos.permission.GET_WIFI_INFO''),
   (''android.permission.CHANGE_WIFI_STATE'', ''ohos.permission.SET_WIFI_INFO''),
   (''android.permission.CHANGE_NETWORK_STATE'', ''ohos.permission.SET_NETWORK_INFO''),
   (''android.permission.CAMERA'', ''ohos.permission.CAMERA''),
   (''android.permission.RECORD_AUDIO'', ''ohos.permission.MICROPHONE''),
   (''android.permission.READ_EXTERNAL_STORAGE'', ''ohos.permission.READ_MEDIA''),
   (''android.permission.WRITE_EXTERNAL_STORAGE'', ''ohos.permission.WRITE_MEDIA''),
   (''android.permission.MANAGE_EXTERNAL_STORAGE'', ''ohos.permission.FILE_ACCESS_MANAGER''),
   (''android.permission.ACCESS_FINE_LOCATION'', ''ohos.permission.APPROXIMATELY_LOCATION''),
   (''android.permission.ACCESS_COARSE_LOCATION'', ''ohos.permission.APPROXIMATELY_LOCATION''),
   (''android.permission.ACCESS_BACKGROUND_LOCATION'', ''ohos.permission.LOCATION_IN_BACKGROUND''),
   (''android.permission.READ_CONTACTS'', ''ohos.permission.READ_CONTACTS''),
   (''android.permission.WRITE_CONTACTS'', ''ohos.permission.WRITE_CONTACTS''),
   (''android.permission.READ_PHONE_STATE'', ''ohos.permission.GET_TELEPHONY_STATE''),
   (''android.permission.CALL_PHONE'', ''ohos.permission.PLACE_CALL''),
   (''android.permission.READ_CALL_LOG'', ''ohos.permission.READ_CALL_LOG''),
   (''android.permission.WRITE_CALL_LOG'', ''ohos.permission.WRITE_CALL_LOG''),
   (''android.permission.READ_PHONE_NUMBERS'', ''ohos.permission.GET_TELEPHONY_STATE''),
   (''android.permission.SEND_SMS'', ''ohos.permission.SEND_MESSAGES''),
   (''android.permission.READ_SMS'', ''ohos.permission.READ_MESSAGES''),
   (''android.permission.RECEIVE_SMS'', ''ohos.permission.RECEIVE_SMS''),
   (''android.permission.READ_CALENDAR'', ''ohos.permission.READ_CALENDAR''),
   (''android.permission.WRITE_CALENDAR'', ''ohos.permission.WRITE_CALENDAR''),
   (''android.permission.BODY_SENSORS'', ''ohos.permission.READ_HEALTH_DATA''),
   (''android.permission.BLUETOOTH'', ''ohos.permission.USE_BLUETOOTH''),
   (''android.permission.BLUETOOTH_ADMIN'', ''ohos.permission.MANAGE_BLUETOOTH''),
   (''android.permission.BLUETOOTH_CONNECT'', ''ohos.permission.USE_BLUETOOTH''),
   (''android.permission.BLUETOOTH_SCAN'', ''ohos.permission.USE_BLUETOOTH''),
   (''android.permission.VIBRATE'', ''ohos.permission.VIBRATE''),
   (''android.permission.WAKE_LOCK'', ''ohos.permission.RUNNING_LOCK''),
   (''android.permission.RECEIVE_BOOT_COMPLETED'', ''ohos.permission.RUNNING_LOCK''),
   (''android.permission.SET_ALARM'', ''ohos.permission.PUBLISH_AGENT_REMINDER''),
   (''android.permission.REQUEST_INSTALL_PACKAGES'', ''ohos.permission.INSTALL_BUNDLE''),
   (''android.permission.FOREGROUND_SERVICE'', ''ohos.permission.KEEP_BACKGROUND_RUNNING''),
   (''android.permission.POST_NOTIFICATIONS'', ''ohos.permission.NOTIFICATION_CONTROLLER''),
   (''android.permission.NFC'', ''ohos.permission.NFC_TAG'')]"

definition GetOHToAndroidMap :: "(string \<times> string) list" where
  "GetOHToAndroidMap = [
   (''ohos.permission.INTERNET'', ''android.permission.INTERNET''),
   (''ohos.permission.GET_NETWORK_INFO'', ''android.permission.ACCESS_NETWORK_STATE''),
   (''ohos.permission.GET_WIFI_INFO'', ''android.permission.ACCESS_WIFI_STATE''),
   (''ohos.permission.SET_WIFI_INFO'', ''android.permission.CHANGE_WIFI_STATE''),
   (''ohos.permission.SET_NETWORK_INFO'', ''android.permission.CHANGE_NETWORK_STATE''),
   (''ohos.permission.CAMERA'', ''android.permission.CAMERA''),
   (''ohos.permission.MICROPHONE'', ''android.permission.RECORD_AUDIO''),
   (''ohos.permission.READ_MEDIA'', ''android.permission.READ_EXTERNAL_STORAGE''),
   (''ohos.permission.WRITE_MEDIA'', ''android.permission.WRITE_EXTERNAL_STORAGE''),
   (''ohos.permission.FILE_ACCESS_MANAGER'', ''android.permission.MANAGE_EXTERNAL_STORAGE''),
   (''ohos.permission.APPROXIMATELY_LOCATION'', ''android.permission.ACCESS_FINE_LOCATION''),
   (''ohos.permission.LOCATION_IN_BACKGROUND'', ''android.permission.ACCESS_BACKGROUND_LOCATION''),
   (''ohos.permission.READ_CONTACTS'', ''android.permission.READ_CONTACTS''),
   (''ohos.permission.WRITE_CONTACTS'', ''android.permission.WRITE_CONTACTS''),
   (''ohos.permission.GET_TELEPHONY_STATE'', ''android.permission.READ_PHONE_STATE''),
   (''ohos.permission.PLACE_CALL'', ''android.permission.CALL_PHONE''),
   (''ohos.permission.READ_CALL_LOG'', ''android.permission.READ_CALL_LOG''),
   (''ohos.permission.WRITE_CALL_LOG'', ''android.permission.WRITE_CALL_LOG''),
   (''ohos.permission.SEND_MESSAGES'', ''android.permission.SEND_SMS''),
   (''ohos.permission.READ_MESSAGES'', ''android.permission.READ_SMS''),
   (''ohos.permission.RECEIVE_SMS'', ''android.permission.RECEIVE_SMS''),
   (''ohos.permission.READ_CALENDAR'', ''android.permission.READ_CALENDAR''),
   (''ohos.permission.WRITE_CALENDAR'', ''android.permission.WRITE_CALENDAR''),
   (''ohos.permission.READ_HEALTH_DATA'', ''android.permission.BODY_SENSORS''),
   (''ohos.permission.USE_BLUETOOTH'', ''android.permission.BLUETOOTH''),
   (''ohos.permission.MANAGE_BLUETOOTH'', ''android.permission.BLUETOOTH_ADMIN''),
   (''ohos.permission.VIBRATE'', ''android.permission.VIBRATE''),
   (''ohos.permission.RUNNING_LOCK'', ''android.permission.WAKE_LOCK''),
   (''ohos.permission.PUBLISH_AGENT_REMINDER'', ''android.permission.SET_ALARM''),
   (''ohos.permission.INSTALL_BUNDLE'', ''android.permission.REQUEST_INSTALL_PACKAGES''),
   (''ohos.permission.KEEP_BACKGROUND_RUNNING'', ''android.permission.FOREGROUND_SERVICE''),
   (''ohos.permission.NOTIFICATION_CONTROLLER'', ''android.permission.POST_NOTIFICATIONS''),
   (''ohos.permission.NFC_TAG'', ''android.permission.NFC'')]"

definition kAndroidPrefix :: string where "kAndroidPrefix = ''android.permission.''"
definition kOHAndroidPrefix :: string where "kOHAndroidPrefix = ''ohos.permission.android.''"

definition MapToOH :: "string \<Rightarrow> string" where
  "MapToOH androidPermission =
     (case map_of GetAndroidToOHMap androidPermission of
        Some v \<Rightarrow> v
      | None \<Rightarrow>
          if take (length kAndroidPrefix) androidPermission = kAndroidPrefix
          then kOHAndroidPrefix @ drop (length kAndroidPrefix) androidPermission
          else kOHAndroidPrefix @ androidPermission)"

definition MapToAndroid :: "string \<Rightarrow> string" where
  "MapToAndroid ohPermission =
     (case map_of GetOHToAndroidMap ohPermission of
        Some v \<Rightarrow> v
      | None \<Rightarrow>
          if take (length kOHAndroidPrefix) ohPermission = kOHAndroidPrefix
          then kAndroidPrefix @ drop (length kOHAndroidPrefix) ohPermission
          else ohPermission)"

lemma take_eq_prefix: "take (length p) s = p \<longleftrightarrow> prefix p s"
  by (metis append_eq_conv_conj append_take_drop_id prefix_def)

lemmas tables = GetAndroidToOHMap_def GetOHToAndroidMap_def

text \<open>
  Evaluated facts about the tables: every Android name carries the Android prefix, no OpenHarmony
  key carries the pass-through prefix, and each entry of either table maps back into the other;
  the names in \<open>lossy\<close> share their OpenHarmony name with another entry and come back as that one.
\<close>

definition lossy :: "string list" where
  "lossy = [''android.permission.ACCESS_COARSE_LOCATION'', ''android.permission.READ_PHONE_NUMBERS'',
     ''android.permission.BLUETOOTH_CONNECT'', ''android.permission.BLUETOOTH_SCAN'',
     ''android.permission.RECEIVE_BOOT_COMPLETED'']"

lemma android_table_prefix: "list_all (\<lambda>(a, b). prefix kAndroidPrefix a) GetAndroidToOHMap"
  by code_simp

lemma oh_table_prefix: "list_all (\<lambda>(b, a). \<not> prefix kOHAndroidPrefix b) GetOHToAndroidMap"
  by code_simp

lemma android_table_back:
  "list_all (\<lambda>(a, b). case map_of GetOHToAndroidMap b of
     None \<Rightarrow> False | Some a' \<Rightarrow> (a' = a) = (a \<notin> set lossy)) GetAndroidToOHMap"
  by code_simp

lemma oh_table_back: "list_all (\<lambda>(b, a). map_of GetAndroidToOHMap a = Some b) GetOHToAndroidMap"
  by code_simp

lemma lossy_known: "list_all (\<lambda>a. map_of GetAndroidToOHMap a \<noteq> None) lossy"
  by code_simp

lemma android_entry:
  assumes "map_of GetAndroidToOHMap a = Some b"
  shows "prefix kAndroidPrefix a" "\<exists>a'. map_of GetOHToAndroidMap b = Some a' \<and> (a' = a) = (a \<notin> set lossy)"
  using map_of_SomeD [OF assms] android_table_prefix android_table_back
  by (force simp: list_all_iff split: option.splits)+

lemma oh_entry:
  assumes "map_of GetOHToAndroidMap b = Some a"
  shows "\<not> prefix kOHAndroidPrefix b" "map_of GetAndroidToOHMap a = Some b"
  using map_of_SomeD [OF assms] oh_table_prefix oh_table_back by (auto simp: list_all_iff)

lemma MapToAndroid_pass [simp]: "MapToAndroid (kOHAndroidPrefix @ s) = kAndroidPrefix @ s"
proof -
  have "map_of GetOHToAndroidMap (kOHAndroidPrefix @ s) = None"
    using oh_entry(1) [of "kOHAndroidPrefix @ s"] by (cases "map_of GetOHToAndroidMap (kOHAndroidPrefix @ s)") auto
  then show ?thesis by (simp add: MapToAndroid_def)
qed

lemma MapToOH_unknown:
  "map_of GetAndroidToOHMap (kAndroidPrefix @ s) = None \<Longrightarrow> MapToOH (kAndroidPrefix @ s) = kOHAndroidPrefix @ s"
  by (simp add: MapToOH_def)

text \<open>
  Fact (permission_roundtrip): mapping an Android permission to OpenHarmony and back returns the same
  permission exactly when its name starts with \<open>android.permission.\<close> and it is none of five names
  that share their OpenHarmony permission with another one. In particular coarse location comes
  back as fine location, and a permission an app defines under its own package name does not come
  back at all.
\<close>

theorem permission_roundtrip:
  "MapToAndroid (MapToOH p) = p \<longleftrightarrow> prefix kAndroidPrefix p \<and> p \<notin> set lossy"
proof (cases "map_of GetAndroidToOHMap p")
  case (Some b)
  then show ?thesis using android_entry [OF Some] by (auto simp: MapToOH_def MapToAndroid_def)
next
  case None
  then have nl: "p \<notin> set lossy" using lossy_known by (auto simp: list_all_iff)
  show ?thesis
  proof (cases "prefix kAndroidPrefix p")
    case True
    then obtain s where "p = kAndroidPrefix @ s" by (auto simp: prefix_def)
    then show ?thesis using None nl by (simp add: MapToOH_unknown)
  next
    case False
    with None have "MapToOH p = kOHAndroidPrefix @ p" by (simp add: MapToOH_def take_eq_prefix)
    with False show ?thesis by (simp add: kAndroidPrefix_def)
  qed
qed

text \<open>
  Fact (oh_permission_roundtrip): in the other direction an OpenHarmony permission comes back exactly
  when the reverse table knows it or it is the pass-through form of an Android permission that the
  forward table does not know.
\<close>

theorem oh_permission_roundtrip:
  "MapToOH (MapToAndroid p) = p \<longleftrightarrow>
     p \<in> fst ` set GetOHToAndroidMap
     \<or> (\<exists>s. p = kOHAndroidPrefix @ s \<and> kAndroidPrefix @ s \<notin> fst ` set GetAndroidToOHMap)"
proof (cases "map_of GetOHToAndroidMap p")
  case (Some a)
  then show ?thesis using oh_entry [OF Some] map_of_SomeD [OF Some]
    by (force simp: MapToOH_def MapToAndroid_def)
next
  case None
  then have nt: "p \<notin> fst ` set GetOHToAndroidMap" by (simp add: map_of_eq_None_iff)
  show ?thesis
  proof (cases "prefix kOHAndroidPrefix p")
    case True
    then obtain s where p: "p = kOHAndroidPrefix @ s" by (auto simp: prefix_def)
    show ?thesis
    proof (cases "map_of GetAndroidToOHMap (kAndroidPrefix @ s)")
      case None
      then have "kAndroidPrefix @ s \<notin> fst ` set GetAndroidToOHMap" by (simp add: map_of_eq_None_iff)
      then show ?thesis using p None by (auto simp: MapToOH_unknown)
    next
      case (Some b)
      then have "b \<noteq> p" using nt android_entry(2) [OF Some] None by auto
      moreover have "kAndroidPrefix @ s \<in> fst ` set GetAndroidToOHMap"
        using map_of_SomeD [OF Some] by force
      ultimately show ?thesis using p nt Some by (simp add: MapToOH_def)
    qed
  next
    case False
    then have "MapToAndroid p = p" using None by (simp add: MapToAndroid_def take_eq_prefix)
    moreover have "MapToOH p \<noteq> p"
      using False None android_entry(2) [of p p]
      by (auto simp: MapToOH_def split: option.splits) (metis prefixI)+
    moreover have "\<nexists>s. p = kOHAndroidPrefix @ s" using False by auto
    ultimately show ?thesis using nt by auto
  qed
qed

end
