(* ===== verification/BundleParser.thy ===== *)
theory BundleParser
  imports ApkManifest PermissionMapper
begin

text \<open>
  The conversion of a parsed Android manifest into OpenHarmony bundle data
  (\<open>framework/package-manager/jni/apk_bundle_parser.cpp\<close>). \<open>InnerBundleInfo\<close> is a class of the
  OpenHarmony bundle manager, outside the repository; the model keeps the sequence of calls that
  \<open>Build\<close> makes on it (\<open>SetBaseApplicationInfo\<close>, \<open>InsertAbilitiesInfo\<close>, \<open>InsertExtensionInfo\<close>) with their
  arguments. The module info and the requested permissions, which \<open>Build\<close> computes and then drops,
  are separate definitions. The theorems are about the keys under which abilities are registered
  and about what the maps of launch modes, actions and categories preserve.
\<close>

section \<open>Names, actions, categories and modes\<close>

text \<open>\<open>rfind\<close> of a character: everything after its last occurrence.\<close>

definition after_last :: "char \<Rightarrow> string \<Rightarrow> string" where
  "after_last c s = rev (takeWhile (\<lambda>x. x \<noteq> c) (rev s))"

definition MapClassToAbilityName :: "string \<Rightarrow> string" where
  "MapClassToAbilityName className =
     (let simpleName = (if CHR ''.'' \<in> set className then after_last (CHR ''.'') className
                        else className)
      in simpleName @ ''Ability'')"

definition ACTION_MAIN :: string where "ACTION_MAIN = ''android.intent.action.MAIN''"
definition ACTION_VIEW :: string where "ACTION_VIEW = ''android.intent.action.VIEW''"
definition ACTION_SEND :: string where "ACTION_SEND = ''android.intent.action.SEND''"
definition ACTION_PICK :: string where "ACTION_PICK = ''android.intent.action.PICK''"
definition CATEGORY_DEFAULT :: string where "CATEGORY_DEFAULT = ''android.intent.category.DEFAULT''"
definition CATEGORY_LAUNCHER :: string where "CATEGORY_LAUNCHER = ''android.intent.category.LAUNCHER''"
definition CATEGORY_BROWSABLE :: string where "CATEGORY_BROWSABLE = ''android.intent.category.BROWSABLE''"
definition CATEGORY_INFO :: string where "CATEGORY_INFO = ''android.intent.category.INFO''"

definition MapAction :: "string \<Rightarrow> string" where
  "MapAction androidAction =
     (if androidAction = ACTION_MAIN then ''ohos.want.action.home''
      else if androidAction = ACTION_VIEW then ''ohos.want.action.viewData''
      else if androidAction = ACTION_SEND then ''ohos.want.action.sendData''
      else if androidAction = ACTION_PICK then ''ohos.want.action.select''
      else ''ohos.want.action.'' @ androidAction)"

definition MapCategory :: "string \<Rightarrow> string" where
  "MapCategory androidCategory =
     (if androidCategory = CATEGORY_DEFAULT then ''entity.system.default''
      else if androidCategory = CATEGORY_LAUNCHER then ''entity.system.home''
      else if androidCategory = CATEGORY_BROWSABLE then ''entity.system.browsable''
      else if androidCategory = CATEGORY_INFO then ''entity.system.default''
      else ''entity.system.'' @ androidCategory)"

definition MapLaunchMode :: "int \<Rightarrow> int" where
  "MapLaunchMode m = (if m = 0 \<or> m = 1 then 0 else if m = 2 \<or> m = 3 then 1 else 0)"

definition MapOrientation :: "int \<Rightarrow> int" where
  "MapOrientation i = (if i = -1 then 0 else if i = 0 then 1 else if i = 1 then 2 else 0)"

section \<open>Bundle data\<close>

record ApplicationInfo =
  ai_name :: string
  ai_bundleName :: string
  ai_versionCode :: int
  ai_versionName :: string
  ai_codePath :: string
  ai_dataDir :: string
  ai_isSystemApp :: bool
  ai_process :: string
  ai_apiTargetVersion :: int

record Skill =
  sk_actions :: "string list"
  sk_entities :: "string list"
  sk_uris :: "UriData list"

record AbilityInfo =
  ab_name :: string
  ab_bundleName :: string
  ab_moduleName :: string
  ab_launchMode :: int
  ab_orientation :: int
  ab_visible :: bool
  ab_codePath :: string
  ab_srcLanguage :: string
  ab_skills :: "Skill list"

record HapModuleInfo =
  hm_name :: string
  hm_bundleName :: string
  hm_hapPath :: string
  hm_nativeLibraryPath :: string
  hm_abilityInfos :: "AbilityInfo list"

datatype ExtensionAbilityType = SERVICE | STATICSUBSCRIBER | DATASHARE

record ExtensionAbilityInfo =
  ex_name :: string
  ex_bundleName :: string
  ex_type :: ExtensionAbilityType
  ex_visible :: bool
  ex_uri :: string

datatype bundle_call =
    SetBaseApplicationInfo ApplicationInfo
  | InsertAbilitiesInfo string bool
  | InsertExtensionInfo string

definition build_application :: "ManifestData \<Rightarrow> string \<Rightarrow> ApplicationInfo" where
  "build_application m installDir =
     \<lparr>ai_name = (if md_appClassName m = [] then md_packageName m else md_appClassName m),
      ai_bundleName = md_packageName m, ai_versionCode = md_versionCode m,
      ai_versionName = md_versionName m, ai_codePath = installDir @ ''/base.apk'',
      ai_dataDir = ''/data/app/el2/0/android/'' @ md_packageName m, ai_isSystemApp = False,
      ai_process = md_packageName m, ai_apiTargetVersion = md_targetSdkVersion m\<rparr>"

definition build_skill :: "IntentFilterData \<Rightarrow> Skill" where
  "build_skill f = \<lparr>sk_actions = map MapAction (if_actions f),
     sk_entities = map MapCategory (if_categories f), sk_uris = if_dataSpecs f\<rparr>"

definition build_ability :: "ManifestData \<Rightarrow> string \<Rightarrow> ActivityData \<Rightarrow> AbilityInfo" where
  "build_ability m installDir a =
     \<lparr>ab_name = MapClassToAbilityName (ac_name a), ab_bundleName = md_packageName m,
      ab_moduleName = ''entry'', ab_launchMode = MapLaunchMode (ac_launchMode a),
      ab_orientation = MapOrientation (ac_screenOrientation a), ab_visible = ac_exported a,
      ab_codePath = installDir @ ''/base.apk'', ab_srcLanguage = ''java'',
      ab_skills = map build_skill (ac_intentFilters a)\<rparr>"

definition build_module :: "ManifestData \<Rightarrow> string \<Rightarrow> HapModuleInfo" where
  "build_module m installDir =
     \<lparr>hm_name = ''entry'', hm_bundleName = md_packageName m, hm_hapPath = installDir @ ''/base.apk'',
      hm_nativeLibraryPath = installDir @ ''/lib/arm64-v8a'',
      hm_abilityInfos = map (build_ability m installDir) (md_activities m)\<rparr>"

definition build_extensions :: "ManifestData \<Rightarrow> ExtensionAbilityInfo list" where
  "build_extensions m =
     map (\<lambda>s. \<lparr>ex_name = sv_name s, ex_bundleName = md_packageName m, ex_type = SERVICE,
       ex_visible = sv_exported s, ex_uri = []\<rparr>) (md_services m)
     @ map (\<lambda>r. \<lparr>ex_name = sv_name r, ex_bundleName = md_packageName m, ex_type = STATICSUBSCRIBER,
       ex_visible = sv_exported r, ex_uri = []\<rparr>) (md_receivers m)
     @ map (\<lambda>p. \<lparr>ex_name = pv_name p, ex_bundleName = md_packageName m, ex_type = DATASHARE,
       ex_visible = pv_exported p, ex_uri = ''datashare:///'' @ pv_authorities p\<rparr>) (md_providers m)"

definition build_permissions :: "ManifestData \<Rightarrow> string list" where
  "build_permissions m = map MapToOH (md_usesPermissions m)"

definition entry_key :: "string \<Rightarrow> string" where
  "entry_key n = ''entry'' @ ''.'' @ n"

definition Build :: "ManifestData \<Rightarrow> string \<Rightarrow> bundle_call list" where
  "Build m installDir =
     SetBaseApplicationInfo (build_application m installDir)
     # map (\<lambda>ab. InsertAbilitiesInfo (entry_key (ab_name ab)) (ab_visible ab))
         (hm_abilityInfos (build_module m installDir))
     @ map (\<lambda>ex. InsertExtensionInfo (entry_key (ex_name ex))) (build_extensions m)"

section \<open>Keys\<close>

definition ability_keys :: "bundle_call list \<Rightarrow> string list" where
  "ability_keys cs = concat (map (\<lambda>c. case c of InsertAbilitiesInfo k v \<Rightarrow> [k] | _ \<Rightarrow> []) cs)"

lemma after_last_append: "CHR ''.'' \<notin> set s \<Longrightarrow> after_last (CHR ''.'') (p @ CHR ''.'' # s) = s"
  by (auto simp: after_last_def takeWhile_append takeWhile_eq_all_conv [THEN iffD2])

lemma MapClassToAbilityName_qualified:
  "CHR ''.'' \<notin> set s \<Longrightarrow> MapClassToAbilityName (p @ ''.'' @ s) = s @ ''Ability''"
  by (simp add: MapClassToAbilityName_def after_last_append Let_def)

lemma ability_keys_Build:
  "ability_keys (Build m d) = map (\<lambda>a. entry_key (MapClassToAbilityName (ac_name a))) (md_activities m)"
proof -
  have "ability_keys (map (\<lambda>ex. InsertExtensionInfo (f ex)) es) = []" for f and es :: "ExtensionAbilityInfo list"
    by (induction es) (simp_all add: ability_keys_def)
  moreover have "ability_keys (map (\<lambda>ab. InsertAbilitiesInfo (f ab) (g ab)) as) = map f as"
    for f g and as :: "'x list"
    by (induction as) (simp_all add: ability_keys_def)
  moreover have "ability_keys (xs @ ys) = ability_keys xs @ ability_keys ys" for xs ys
    by (simp add: ability_keys_def)
  moreover have "ability_keys (SetBaseApplicationInfo i # cs) = ability_keys cs" for i cs
    by (simp add: ability_keys_def)
  ultimately show ?thesis
    by (simp add: Build_def build_module_def build_ability_def comp_def)
qed

lemma entry_key_inj: "entry_key a = entry_key b \<longleftrightarrow> a = b"
  by (simp add: entry_key_def)

text \<open>
  Fact (ability_key_collision): for fully qualified activity names \<open>Build\<close> registers one ability per
  activity, and two activities get the same key exactly when their simple class names agree, even in
  different packages: the key keeps only what follows the last dot.
\<close>

theorem ability_key_collision:
  assumes "map ac_name (md_activities m) = map (\<lambda>(p, s). p @ ''.'' @ s) qs"
    and "list_all (\<lambda>(p, s). CHR ''.'' \<notin> set s) qs"
  shows "length (ability_keys (Build m d)) = length (md_activities m) \<and>
    (\<forall>i < length qs. \<forall>j < length qs.
       (ability_keys (Build m d) ! i = ability_keys (Build m d) ! j \<longleftrightarrow> snd (qs ! i) = snd (qs ! j)))"
proof -
  have len: "length qs = length (md_activities m)" using arg_cong [OF assms(1), of length] by simp
  have "ability_keys (Build m d) ! i = entry_key (snd (qs ! i) @ ''Ability'')" if "i < length qs" for i
  proof -
    have "ac_name (md_activities m ! i) = (\<lambda>(p, s). p @ ''.'' @ s) (qs ! i)"
      using arg_cong [OF assms(1), of "\<lambda>xs. xs ! i"] that len by simp
    moreover have "CHR ''.'' \<notin> set (snd (qs ! i))"
      using assms(2) that by (cases "qs ! i") (auto simp: list_all_length)
    ultimately show ?thesis
      using that len MapClassToAbilityName_qualified by (auto simp: ability_keys_Build split: prod.splits)
  qed
  then show ?thesis by (simp add: ability_keys_Build entry_key_inj)
qed

theorem ability_key_collision_witness:
  "let m = new_manifest\<lparr>md_activities := [new_activity\<lparr>ac_name := ''com.a.Main''\<rparr>,
             new_activity\<lparr>ac_name := ''com.a.ui.Main''\<rparr>]\<rparr>
   in ability_keys (Build m []) ! 0 = ability_keys (Build m []) ! 1"
  using ability_key_collision [of "new_manifest\<lparr>md_activities := [new_activity\<lparr>ac_name := ''com.a.Main''\<rparr>,
      new_activity\<lparr>ac_name := ''com.a.ui.Main''\<rparr>]\<rparr>" "[(''com.a'', ''Main''), (''com.a.ui'', ''Main'')]" "[]"]
  by (auto simp: Let_def)

section \<open>Actions and categories\<close>

text \<open>
  Fact (MapAction_injective): different actions whose names start with \<open>android.\<close> are mapped to
  different OpenHarmony actions, so no Android intent filter starts to match another Android action;
  and every result carries the OpenHarmony prefix.
\<close>

theorem MapAction_injective:
  "inj_on MapAction {a. prefix ''android.'' a} \<and> (\<forall>a. prefix ''ohos.want.action.'' (MapAction a))"
proof
  show "inj_on MapAction {a. prefix ''android.'' a}"
    by (auto simp: inj_on_def MapAction_def prefix_def split: if_splits)
qed (simp add: MapAction_def)

section \<open>Visibility of parsed components\<close>

text \<open>
  Fact (skills_imply_visible): whatever tags a manifest holds, every ability built from the activities
  recorded so far that has a skill is visible to other applications, and its launch mode and
  orientation are values of the OpenHarmony enumerations.
\<close>

theorem skills_imply_visible:
  assumes "run_tags ts (new_mstate new_manifest) = Some s"
    and "ab \<in> set (hm_abilityInfos (build_module (ms_outData s) installDir))"
  shows "(ab_skills ab \<noteq> [] \<longrightarrow> ab_visible ab) \<and> ab_launchMode ab \<in> {0, 1} \<and> ab_orientation ab \<in> {0, 1, 2}"
proof -
  obtain a where a: "a \<in> set (md_activities (ms_outData s))"
      "ab = build_ability (ms_outData s) installDir a"
    using assms(2) by (auto simp: build_module_def)
  have "manifest_ok (ms_outData s)"
    using path_ok [OF run_tags_path [OF assms(1)] new_mstate_ok] by (simp add: mstate_ok_def)
  with a have "ac_intentFilters a \<noteq> [] \<longrightarrow> ac_exported a"
    by (auto simp: manifest_ok_def activity_ok_def list_all_iff)
  then show ?thesis using a by (simp add: build_ability_def MapLaunchMode_def MapOrientation_def)
qed

definition sample_tags :: "tag list" where
  "sample_tags = [Open ''activity'' axml_init, Open ''intent-filter'' axml_init,
     Close ''intent-filter'', Close ''activity'']"

theorem skills_imply_visible_witness:
  "\<exists>s ab. run_tags sample_tags (new_mstate new_manifest) = Some s
     \<and> ab \<in> set (hm_abilityInfos (build_module (ms_outData s) [])) \<and> ab_skills ab \<noteq> [] \<and> ab_visible ab"
proof -
  have "case run_tags sample_tags (new_mstate new_manifest) of None \<Rightarrow> False
      | Some s \<Rightarrow> (case hm_abilityInfos (build_module (ms_outData s) []) of [ab] \<Rightarrow> ab_skills ab \<noteq> [] | _ \<Rightarrow> False)"
    by code_simp
  then obtain s ab where s: "run_tags sample_tags (new_mstate new_manifest) = Some s"
      "ab \<in> set (hm_abilityInfos (build_module (ms_outData s) []))" "ab_skills ab \<noteq> []"
    by (auto split: option.splits list.splits)
  then show ?thesis using skills_imply_visible [OF s(1,2)] by blast
qed

end
