(* ===== verification/MiniZip.thy ===== *)
theory MiniZip
  imports Prelude "HOL-Library.Sublist"
begin

text \<open>
  The ZIP reader that the spawner's compatibility layer supplies to the runtime:
  \<open>framework/appspawn-x/bionic_compat/src/minizip.cpp\<close>. An archive is read from memory or from a file
  descriptor; the operating system is a record of parameters (contents of descriptors, which reads
  fail, which allocations succeed), and so is zlib's \<open>inflate\<close>. \<open>None\<close> is a read outside a buffer.
  Sizes and offsets of the file are naturals (64-bit \<open>off64_t\<close> and \<open>size_t\<close>, which the 32-bit fields
  of the format cannot overflow); the 32-bit sums of the source are kept as words.

  The theorems: opening an archive never reads outside a buffer and leaves the central directory
  inside the file, although its bound is checked with a wrapping 32-bit sum; looking up and
  extracting a stored entry of an encoded archive returns its bytes; what \<open>ExtractEntryToFile\<close> writes;
  and who closes the descriptor.
\<close>

section \<open>Constants and state\<close>

definition kEOCDSignature :: u32 where "kEOCDSignature = 0x06054b50"
definition kCDEntrySignature :: u32 where "kCDEntrySignature = 0x02014b50"
definition kLocalHeaderSignature :: u32 where "kLocalHeaderSignature = 0x04034b50"
definition kMethodStored :: u16 where "kMethodStored = 0"
definition kMethodDeflate :: u16 where "kMethodDeflate = 8"
definition kMaxEOCDSearch :: nat where "kMaxEOCDSearch = 65536 + 22"

definition kSuccess :: int where "kSuccess = 0"
definition kErrInvalidZip :: int where "kErrInvalidZip = -1"
definition kErrEntryNotFound :: int where "kErrEntryNotFound = -2"
definition kErrIO :: int where "kErrIO = -3"
definition kErrDecompression :: int where "kErrDecompression = -4"
definition kErrBufferTooSmall :: int where "kErrBufferTooSmall = -5"
definition kErrInvalidHandle :: int where "kErrInvalidHandle = -6"
definition kErrAllocation :: int where "kErrAllocation = -7"

lemmas zip_codes = kSuccess_def kErrInvalidZip_def kErrEntryNotFound_def kErrIO_def
  kErrDecompression_def kErrBufferTooSmall_def kErrInvalidHandle_def kErrAllocation_def

record MiniZipArchive =
  ar_fd :: int
  ar_owns_fd :: bool
  ar_mem :: "bytes option"
  ar_cd_data :: bytes
  ar_cd_size :: u32
  ar_cd_offset :: u32
  ar_entry_count :: u16
  ar_debug_name :: "string option"

record ZipEntry =
  ze_method :: u16
  ze_mod_time :: u32
  ze_crc32 :: u32
  ze_compressed_length :: u32
  ze_uncompressed_length :: u32
  ze_offset :: nat

text \<open>The operating system and zlib, as far as the reader uses them.\<close>

record zenv =
  z_file :: "int \<Rightarrow> bytes"
  z_iofail :: "int \<Rightarrow> nat \<Rightarrow> nat \<Rightarrow> bool"
  z_statfail :: "int \<Rightarrow> bool"
  z_alloc :: "nat \<Rightarrow> bool"
  z_open :: "string \<Rightarrow> int"
  z_inflateInit :: bool
  z_inflate :: "bytes \<Rightarrow> nat \<Rightarrow> bool \<times> bytes"

section \<open>Opening an archive\<close>

definition archive_read_at :: "zenv \<Rightarrow> MiniZipArchive \<Rightarrow> nat \<Rightarrow> nat \<Rightarrow> int \<times> bytes" where
  "archive_read_at e ar count offset =
     (case ar_mem ar of
        Some m \<Rightarrow>
          if offset + count > length m then (-1, [])
          else (int count, take count (drop offset m))
      | None \<Rightarrow>
          if z_iofail e (ar_fd ar) offset count then (-1, [])
          else (let bs = take count (drop offset (z_file e (ar_fd ar))) in (int (length bs), bs)))"

text \<open>The backward scan: \<open>i\<close> runs from \<open>n - 1\<close> down to 0; \<open>Some None\<close> is no match.\<close>

fun scan_eocd :: "bytes \<Rightarrow> nat \<Rightarrow> nat option option" where
  "scan_eocd buf 0 = Some None"
| "scan_eocd buf (Suc i) = do {
     sig \<leftarrow> rd32 buf i;
     if sig = kEOCDSignature then Some (Some i) else scan_eocd buf i }"

definition find_eocd :: "zenv \<Rightarrow> MiniZipArchive \<Rightarrow> nat \<Rightarrow> (int + u32 \<times> u32 \<times> u16) option" where
  "find_eocd e ar file_size =
     (let search_len = (if file_size < kMaxEOCDSearch then file_size else kMaxEOCDSearch) in
      if \<not> z_alloc e search_len then Some (Inl kErrAllocation)
      else
        (let search_start = file_size - search_len;
             (n, buf) = archive_read_at e ar search_len search_start in
         if n \<noteq> int search_len then Some (Inl kErrIO)
         else do {
           r \<leftarrow> scan_eocd buf (search_len - 21);
           (case r of
              None \<Rightarrow> Some (Inl kErrInvalidZip)
            | Some eocd \<Rightarrow> do {
                count \<leftarrow> rd16 buf (eocd + 8);
                cd_size \<leftarrow> rd32 buf (eocd + 12);
                cd_offset \<leftarrow> rd32 buf (eocd + 16);
                Some (Inr (cd_offset, cd_size, count)) }) }))"

definition archive_size :: "zenv \<Rightarrow> MiniZipArchive \<Rightarrow> nat option" where
  "archive_size e ar = (case ar_mem ar of
      Some m \<Rightarrow> Some (length m)
    | None \<Rightarrow> if z_statfail e (ar_fd ar) then None else Some (length (z_file e (ar_fd ar))))"

definition init_archive :: "zenv \<Rightarrow> MiniZipArchive \<Rightarrow> (int \<times> MiniZipArchive) option" where
  "init_archive e ar =
     (case archive_size e ar of
        None \<Rightarrow> Some (kErrIO, ar)
      | Some file_size \<Rightarrow>
          if file_size < 22 then Some (kErrInvalidZip, ar)
          else do {
            r \<leftarrow> find_eocd e ar file_size;
            (case r of
               Inl rc \<Rightarrow> Some (rc, ar)
             | Inr (off, size', count) \<Rightarrow>
                 (let ar = ar\<lparr>ar_cd_offset := off, ar_cd_size := size', ar_entry_count := count\<rparr> in
                  if size' = 0 \<or> unat (off + size') > file_size then Some (kErrInvalidZip, ar)
                  else if \<not> z_alloc e (unat size') then Some (kErrAllocation, ar)
                  else
                    (let (n, cd) = archive_read_at e ar (unat size') (unat off) in
                     if n \<noteq> int (unat size') then Some (kErrIO, ar)
                     else Some (kSuccess, ar\<lparr>ar_cd_data := cd\<rparr>)))) })"

text \<open>
  The result of opening: the return code, the value stored through \<open>handle\<close> (\<open>None\<close> is null) and
  the descriptors closed by the call.
\<close>

definition new_archive :: "int \<Rightarrow> bool \<Rightarrow> bytes option \<Rightarrow> string option \<Rightarrow> MiniZipArchive" where
  "new_archive fd owns mem name = \<lparr>ar_fd = fd, ar_owns_fd = owns, ar_mem = mem, ar_cd_data = [],
     ar_cd_size = 0, ar_cd_offset = 0, ar_entry_count = 0, ar_debug_name = name\<rparr>"

definition archive_struct_size :: nat where "archive_struct_size = 56"

definition OpenArchiveFd ::
  "zenv \<Rightarrow> int \<Rightarrow> string option \<Rightarrow> bool \<Rightarrow> bool \<Rightarrow> (int \<times> MiniZipArchive option \<times> int list) option" where
  "OpenArchiveFd e fd debug_name handle assume_ownership =
     (if \<not> handle then Some (kErrInvalidHandle, None, [])
      else if \<not> z_alloc e archive_struct_size then Some (kErrAllocation, None, [])
      else do {
        (rc, ar) \<leftarrow> init_archive e (new_archive fd assume_ownership None debug_name);
        if rc \<noteq> kSuccess
        then Some (rc, None, if ar_owns_fd ar \<and> ar_fd ar \<ge> 0 then [ar_fd ar] else [])
        else Some (kSuccess, Some ar, []) })"

definition OpenArchive ::
  "zenv \<Rightarrow> string \<Rightarrow> bool \<Rightarrow> (int \<times> MiniZipArchive option \<times> int list) option" where
  "OpenArchive e filename handle =
     (if \<not> handle then Some (kErrInvalidHandle, None, [])
      else let fd = z_open e filename in
        if fd < 0 then Some (kErrIO, None, [])
        else OpenArchiveFd e fd (Some filename) handle True)"

definition OpenArchiveFromMemory ::
  "zenv \<Rightarrow> bytes option \<Rightarrow> string option \<Rightarrow> bool \<Rightarrow> (int \<times> MiniZipArchive option \<times> int list) option" where
  "OpenArchiveFromMemory e addr debug_name handle =
     (case addr of
        None \<Rightarrow> Some (kErrInvalidHandle, None, [])
      | Some m \<Rightarrow>
          if \<not> handle then Some (kErrInvalidHandle, None, [])
          else if \<not> z_alloc e archive_struct_size then Some (kErrAllocation, None, [])
          else do {
            (rc, ar) \<leftarrow> init_archive e (new_archive (-1) False (Some m) debug_name);
            if rc \<noteq> kSuccess then Some (rc, None, []) else Some (kSuccess, Some ar, []) })"

text \<open>\<open>CloseArchive\<close> frees the archive; the descriptors it closes.\<close>

definition CloseArchive :: "MiniZipArchive option \<Rightarrow> int list" where
  "CloseArchive handle = (case handle of
      None \<Rightarrow> []
    | Some ar \<Rightarrow> if ar_owns_fd ar \<and> ar_fd ar \<ge> 0 then [ar_fd ar] else [])"

definition GetFileDescriptor :: "MiniZipArchive option \<Rightarrow> int" where
  "GetFileDescriptor handle = (case handle of None \<Rightarrow> -1 | Some ar \<Rightarrow> ar_fd ar)"

definition ErrorCodeString :: "int \<Rightarrow> string" where
  "ErrorCodeString err =
     (if err = kSuccess then ''Success''
      else if err = kErrInvalidZip then ''Invalid ZIP archive''
      else if err = kErrEntryNotFound then ''Entry not found''
      else if err = kErrIO then ''I/O error''
      else if err = kErrDecompression then ''Decompression error''
      else if err = kErrBufferTooSmall then ''Buffer too small''
      else if err = kErrInvalidHandle then ''Invalid handle''
      else if err = kErrAllocation then ''Memory allocation failed''
      else ''Unknown error'')"

section \<open>Looking up an entry\<close>

text \<open>One central directory record at \<open>p\<close>: the entry, its name, the offset of the next record.\<close>

definition read_cd_record :: "bytes \<Rightarrow> nat \<Rightarrow> (u32 \<times> ZipEntry \<times> nat \<times> nat) option" where
  "read_cd_record cd p = do {
     sig \<leftarrow> rd32 cd p;
     method \<leftarrow> rd16 cd (p + 10);
     mod_time \<leftarrow> rd32 cd (p + 12);
     crc \<leftarrow> rd32 cd (p + 16);
     comp_size \<leftarrow> rd32 cd (p + 20);
     uncomp_size \<leftarrow> rd32 cd (p + 24);
     name_len \<leftarrow> rd16 cd (p + 28);
     extra_len \<leftarrow> rd16 cd (p + 30);
     comment_len \<leftarrow> rd16 cd (p + 32);
     local_offset \<leftarrow> rd32 cd (p + 42);
     Some (sig, \<lparr>ze_method = method, ze_mod_time = mod_time, ze_crc32 = crc,
        ze_compressed_length = comp_size, ze_uncompressed_length = uncomp_size,
        ze_offset = unat local_offset\<rparr>, unat name_len,
        p + (46 + unat name_len + unat extra_len + unat comment_len)) }"

fun find_entry_loop :: "bytes \<Rightarrow> nat \<Rightarrow> bytes \<Rightarrow> nat \<Rightarrow> nat \<Rightarrow> (int \<times> ZipEntry option) option" where
  "find_entry_loop cd cend name p 0 = Some (kErrEntryNotFound, None)"
| "find_entry_loop cd cend name p (Suc n) =
     (if p + 46 \<le> cend then do {
        (sig, entry, name_len, p') \<leftarrow> read_cd_record cd p;
        if sig \<noteq> kCDEntrySignature then Some (kErrInvalidZip, None)
        else if p + 46 + name_len > cend then Some (kErrInvalidZip, None)
        else if name_len = length name then do {
          entry_name \<leftarrow> slice cd (p + 46) name_len;
          if entry_name = name then Some (kSuccess, Some entry)
          else find_entry_loop cd cend name p' n }
        else find_entry_loop cd cend name p' n }
      else Some (kErrEntryNotFound, None))"

definition FindEntry :: "MiniZipArchive option \<Rightarrow> bytes \<Rightarrow> (int \<times> ZipEntry option) option" where
  "FindEntry handle name =
     (case handle of
        None \<Rightarrow> Some (kErrInvalidHandle, None)
      | Some ar \<Rightarrow>
          find_entry_loop (ar_cd_data ar) (unat (ar_cd_size ar)) name 0 (unat (ar_entry_count ar)))"

section \<open>Extracting an entry\<close>

definition get_data_offset :: "zenv \<Rightarrow> MiniZipArchive \<Rightarrow> ZipEntry \<Rightarrow> nat option option" where
  "get_data_offset e ar entry =
     (let (n, hdr) = archive_read_at e ar 30 (ze_offset entry) in
      if n \<noteq> 30 then Some None
      else do {
        sig \<leftarrow> rd32 hdr 0;
        if sig \<noteq> kLocalHeaderSignature then Some None
        else do {
          local_name_len \<leftarrow> rd16 hdr 26;
          local_extra_len \<leftarrow> rd16 hdr 28;
          Some (Some (ze_offset entry + 30 + unat local_name_len + unat local_extra_len)) } })"

text \<open>
  The caller's buffer \<open>begin\<close> of \<open>size\<close> bytes is the list \<open>buf\<close>; the result is the return code and
  the buffer afterwards. zlib's output is never longer than \<open>avail_out\<close>, the size cut to 32 bits.
\<close>

definition ExtractToMemory ::
  "zenv \<Rightarrow> MiniZipArchive option \<Rightarrow> ZipEntry \<Rightarrow> bytes \<Rightarrow> (int \<times> bytes) option" where
  "ExtractToMemory e handle entry buf =
     (case handle of
        None \<Rightarrow> Some (kErrInvalidHandle, buf)
      | Some ar \<Rightarrow>
          (let size' = length buf; ulen = unat (ze_uncompressed_length entry);
               clen = unat (ze_compressed_length entry) in
           if size' < ulen then Some (kErrBufferTooSmall, buf)
           else do {
             data_offset \<leftarrow> get_data_offset e ar entry;
             (case data_offset of
                None \<Rightarrow> Some (kErrInvalidZip, buf)
              | Some off \<Rightarrow>
                  if ze_method entry = kMethodStored then
                    (let (n, bs) = archive_read_at e ar ulen off;
                         buf' = bs @ drop (length bs) buf in
                     if n \<noteq> int ulen then Some (kErrIO, buf') else Some (kSuccess, buf'))
                  else if ze_method entry = kMethodDeflate then
                    (if \<not> z_alloc e clen then Some (kErrAllocation, buf)
                     else
                       (let (n, comp_buf) = archive_read_at e ar clen off in
                        if n \<noteq> int clen then Some (kErrIO, buf)
                        else if \<not> z_inflateInit e then Some (kErrDecompression, buf)
                        else
                          (let avail_out = unat (word_of_nat size' :: u32);
                               (stream_end, out) = z_inflate e comp_buf avail_out;
                               buf' = take avail_out out @ drop (length (take avail_out out)) buf in
                           if \<not> stream_end then Some (kErrDecompression, buf')
                           else if length (take avail_out out) \<noteq> ulen then Some (kErrDecompression, buf')
                           else Some (kSuccess, buf'))))
                  else Some (kErrDecompression, buf)) }))"

text \<open>
  The write loop of \<open>ExtractEntryToFile\<close>. Each call of \<open>write\<close> has one outcome from the given list:
  interrupted, failed, or the number of bytes taken. Running out of outcomes is \<open>None\<close>: the loop has
  not returned yet.
\<close>

datatype write_outcome = W_EINTR | W_FAIL | W_OK nat

fun write_loop :: "bytes \<Rightarrow> nat \<Rightarrow> write_outcome list \<Rightarrow> bytes \<Rightarrow> (int \<times> bytes) option" where
  "write_loop buf tot ws out =
     (if length buf \<le> tot then Some (kSuccess, out)
      else case ws of
        [] \<Rightarrow> None
      | W_EINTR # ws \<Rightarrow> write_loop buf tot ws out
      | W_FAIL # ws \<Rightarrow> Some (kErrIO, out)
      | W_OK k # ws \<Rightarrow>
          (let w = min k (length buf - tot) in
           write_loop buf (tot + w) ws (out @ take w (drop tot buf))))"

declare write_loop.simps [simp del]

definition ExtractEntryToFile ::
  "zenv \<Rightarrow> MiniZipArchive option \<Rightarrow> ZipEntry \<Rightarrow> write_outcome list \<Rightarrow> (int \<times> bytes) option" where
  "ExtractEntryToFile e handle entry ws =
     (case handle of
        None \<Rightarrow> Some (kErrInvalidHandle, [])
      | Some ar \<Rightarrow>
          (let ulen = unat (ze_uncompressed_length entry) in
           if \<not> z_alloc e ulen then Some (kErrAllocation, [])
           else do {
             (rc, buf) \<leftarrow> ExtractToMemory e handle entry (replicate ulen 0);
             if rc \<noteq> kSuccess then Some (rc, []) else write_loop buf 0 ws [] }))"

section \<open>Opening is memory safe and leaves the directory inside the file\<close>

definition content :: "zenv \<Rightarrow> MiniZipArchive \<Rightarrow> bytes" where
  "content e ar = (case ar_mem ar of Some m \<Rightarrow> m | None \<Rightarrow> z_file e (ar_fd ar))"

definition archive_ok :: "zenv \<Rightarrow> MiniZipArchive \<Rightarrow> bool" where
  "archive_ok e ar \<longleftrightarrow> slice (content e ar) (unat (ar_cd_offset ar)) (unat (ar_cd_size ar)) = Some (ar_cd_data ar)
     \<and> ar_cd_size ar \<noteq> 0"

lemma read_at_full:
  assumes "archive_read_at e ar count off = (int count, bs)"
  shows "length bs = count" "bs = take count (drop off (content e ar))"
    "0 < count \<Longrightarrow> off + count \<le> length (content e ar)"
  using assms by (auto simp: archive_read_at_def content_def Let_def split: option.splits if_splits)

lemma archive_size_content: "archive_size e ar = Some n \<Longrightarrow> n = length (content e ar)"
  by (auto simp: archive_size_def content_def split: option.splits if_splits)

lemma scan_eocd_spec:
  assumes "n + 3 \<le> length buf"
  shows "\<exists>r. scan_eocd buf n = Some r \<and> (case r of
      None \<Rightarrow> \<forall>i < n. rd32 buf i \<noteq> Some kEOCDSignature
    | Some i \<Rightarrow> i < n \<and> rd32 buf i = Some kEOCDSignature
        \<and> (\<forall>j. i < j \<and> j < n \<longrightarrow> rd32 buf j \<noteq> Some kEOCDSignature))"
  using assms
proof (induction n)
  case (Suc n)
  then obtain sig where s: "rd32 buf n = Some sig" using rd_total(3) [of n buf] by auto
  show ?case
  proof (cases "sig = kEOCDSignature")
    case False
    with Suc s show ?thesis by (auto simp: less_Suc_eq split: option.splits)
  qed (use s in auto)
qed simp

lemma find_eocd_total:
  assumes "22 \<le> n"
  shows "\<exists>r. find_eocd e ar n = Some r"
proof -
  define l where "l = (if n < kMaxEOCDSearch then n else kMaxEOCDSearch)"
  have l22: "22 \<le> l" using assms by (simp add: l_def kMaxEOCDSearch_def)
  obtain k buf where r: "archive_read_at e ar l (n - l) = (k, buf)" by fastforce
  note def = find_eocd_def [of e ar n, folded l_def, unfolded Let_def r prod.case]
  show ?thesis
  proof (cases "k = int l")
    case True
    have buf: "length buf = l" using read_at_full(1) r True by blast
    then obtain x where x: "scan_eocd buf (l - 21) = Some x" and i: "\<And>i. x = Some i \<Longrightarrow> i < l - 21"
      using scan_eocd_spec [of "l - 21" buf] l22 by fastforce
    show ?thesis
    proof (cases x)
      case (Some i)
      with i l22 buf have "i + 22 \<le> length buf" by force
      then have "\<exists>a b c. rd16 buf (i + 8) = Some a \<and> rd32 buf (i + 12) = Some b \<and> rd32 buf (i + 16) = Some c"
        using rd_total(2) [of "i + 8" buf] rd_total(3) [of "i + 12" buf] rd_total(3) [of "i + 16" buf] by simp
      then show ?thesis using Some x True by (auto simp: def)
    qed (use x True in \<open>auto simp: def\<close>)
  qed (auto simp: def)
qed

lemma init_archive_spec:
  "\<exists>rc ar'. init_archive e ar = Some (rc, ar') \<and> ar_fd ar' = ar_fd ar \<and> ar_owns_fd ar' = ar_owns_fd ar
     \<and> ar_mem ar' = ar_mem ar \<and> (rc = kSuccess \<longrightarrow> archive_ok e ar')"
proof (cases "archive_size e ar")
  case (Some n)
  show ?thesis
  proof (cases "n < 22")
    case False
    then obtain r where r: "find_eocd e ar n = Some r" using find_eocd_total by fastforce
    show ?thesis
    proof (cases r)
      case (Inr x)
      obtain off sz cnt where x: "x = (off, sz, cnt)" by (cases x)
      let ?ar = "ar\<lparr>ar_cd_offset := off, ar_cd_size := sz, ar_entry_count := cnt\<rparr>"
      obtain k cd where rd: "archive_read_at e ?ar (unat sz) (unat off) = (k, cd)"
        by (cases "archive_read_at e ?ar (unat sz) (unat off)")
      have "archive_ok e (?ar\<lparr>ar_cd_data := cd\<rparr>)" if "k = int (unat sz)" "sz \<noteq> 0"
      proof -
        from that have "0 < unat sz" by (simp add: unat_gt_0)
        moreover have "content e (?ar\<lparr>ar_cd_data := cd\<rparr>) = content e ?ar" by (simp add: content_def split: option.split)
        ultimately show ?thesis using read_at_full [OF rd [unfolded that(1)]] that(2)
          by (simp add: archive_ok_def slice_eq_Some_iff)
      qed
      then show ?thesis using Some False r Inr x rd by (auto simp: init_archive_def Let_def zip_codes)
    qed (use Some False r in \<open>auto simp: init_archive_def find_eocd_def zip_codes Let_def bind_eq_Some_conv split: if_splits prod.splits option.splits\<close>)
  qed (use Some in \<open>auto simp: init_archive_def zip_codes\<close>)
qed (auto simp: init_archive_def zip_codes)

text \<open>
  Fact (open_archive_ok): opening any byte string as an archive returns without reading outside a
  buffer. It yields a handle exactly on success, and then the central directory lies inside the
  file and was loaded whole: the bound check adds offset and size in 32 bits and can wrap, but the
  read that follows refuses a directory that does not fit.
\<close>

theorem open_archive_ok:
  "\<exists>rc h. OpenArchiveFromMemory e (Some m) nm True = Some (rc, h, [])
     \<and> (case h of None \<Rightarrow> rc \<noteq> kSuccess
        | Some ar \<Rightarrow> rc = kSuccess \<and> unat (ar_cd_offset ar) + unat (ar_cd_size ar) \<le> length m
            \<and> slice m (unat (ar_cd_offset ar)) (unat (ar_cd_size ar)) = Some (ar_cd_data ar))"
proof -
  obtain rc ar where i: "init_archive e (new_archive (-1) False (Some m) nm) = Some (rc, ar)"
    "rc = kSuccess \<longrightarrow> archive_ok e ar" "ar_mem ar = Some m"
    using init_archive_spec [of e "new_archive (-1) False (Some m) nm"] by (auto simp: new_archive_def)
  then show ?thesis
    by (auto simp: OpenArchiveFromMemory_def archive_ok_def content_def slice_eq_Some_iff zip_codes)
qed

text \<open>
  Fact (archive_fd_closed_once): a descriptor passed with ownership is closed exactly once, by the
  failing open or by \<open>CloseArchive\<close>, and one passed without ownership never; except
  when the archive structure cannot be allocated, where an owned descriptor is leaked.
\<close>

theorem archive_fd_closed_once:
  assumes "0 \<le> fd"
  shows "\<exists>rc h closed. OpenArchiveFd e fd nm True own = Some (rc, h, closed)
    \<and> closed @ CloseArchive h = (if own \<and> z_alloc e archive_struct_size then [fd] else [])"
proof -
  obtain rc ar where i: "init_archive e (new_archive fd own None nm) = Some (rc, ar)" "ar_fd ar = fd" "ar_owns_fd ar = own"
    using init_archive_spec [of e "new_archive fd own None nm"] by (auto simp: new_archive_def)
  then show ?thesis using assms by (auto simp: OpenArchiveFd_def CloseArchive_def)
qed

section \<open>Lookup and extraction never leave their buffers\<close>

lemma read_cd_record_total:
  "p + 46 \<le> length cd \<Longrightarrow> \<exists>r. read_cd_record cd p = Some r"
  using rd_total(3) [of p cd] rd_total(2) [of "p + 10" cd] rd_total(3) [of "p + 12" cd]
    rd_total(3) [of "p + 16" cd] rd_total(3) [of "p + 20" cd] rd_total(3) [of "p + 24" cd]
    rd_total(2) [of "p + 28" cd] rd_total(2) [of "p + 30" cd] rd_total(2) [of "p + 32" cd]
    rd_total(3) [of "p + 42" cd]
  by (auto simp: read_cd_record_def)

lemma find_entry_total: "cend = length cd \<Longrightarrow> find_entry_loop cd cend name p n \<noteq> None"
proof (induction n arbitrary: p)
  case (Suc n)
  show ?case
  proof (cases "p + 46 \<le> cend")
    case True
    with Suc.prems obtain sig entry nl p' where "read_cd_record cd p = Some (sig, entry, nl, p')"
      using read_cd_record_total [of p cd] by (auto simp: prod_eq_iff)
    with True Suc show ?thesis by (auto simp: slice_def)
  qed simp
qed simp

lemma get_data_offset_total: "get_data_offset e ar entry \<noteq> None"
proof -
  obtain n hdr where r: "archive_read_at e ar 30 (ze_offset entry) = (n, hdr)" by fastforce
  show ?thesis
  proof (cases "n = 30")
    case True
    then have "length hdr = 30" using read_at_full(1) [of e ar 30 "ze_offset entry" hdr] r by simp
    then show ?thesis
      using r True rd_total(3) [of 0 hdr] rd_total(2) [of 26 hdr] rd_total(2) [of 28 hdr]
      by (auto simp: get_data_offset_def)
  qed (use r in \<open>simp add: get_data_offset_def\<close>)
qed

lemma read_at_le: "archive_read_at e ar count off = (n, bs) \<Longrightarrow> length bs \<le> count"
  by (auto simp: archive_read_at_def Let_def split: option.splits if_splits)

text \<open>
  Fact (zip_access_safe): on a loaded archive, looking up any name stays inside the central
  directory, and extracting with any entry record stays inside the caller's buffer.
\<close>

theorem zip_access_safe:
  assumes "archive_ok e ar"
  shows "FindEntry (Some ar) name \<noteq> None
    \<and> (\<exists>rc buf'. ExtractToMemory e (Some ar) entry buf = Some (rc, buf') \<and> length buf' = length buf)"
proof
  have "unat (ar_cd_size ar) = length (ar_cd_data ar)"
    using assms slice_length by (fastforce simp: archive_ok_def)
  then show "FindEntry (Some ar) name \<noteq> None" by (simp add: FindEntry_def find_entry_total del: not_None_eq)
  obtain off where "get_data_offset e ar entry = Some off" using get_data_offset_total by fastforce
  moreover obtain n bs where r: "archive_read_at e ar (unat (ze_uncompressed_length entry)) (the off) = (n, bs)"
    by fastforce
  moreover note read_at_le [OF r]
  moreover obtain n' bs' where "archive_read_at e ar (unat (ze_compressed_length entry)) (the off) = (n', bs')"
    by fastforce
  moreover obtain se out where "z_inflate e bs' (unat (word_of_nat (length buf) :: u32)) = (se, out)" by fastforce
  moreover have "unat (word_of_nat (length buf) :: u32) \<le> length buf" by (simp add: unsigned_of_nat)
  ultimately show "\<exists>rc buf'. ExtractToMemory e (Some ar) entry buf = Some (rc, buf') \<and> length buf' = length buf"
    by (auto simp: ExtractToMemory_def Let_def split: option.splits)
qed


section \<open>Writing an entry to a descriptor\<close>

fun written :: "write_outcome list \<Rightarrow> nat" where
  "written [] = 0"
| "written (W_OK k # ws) = k + written ws"
| "written (w # ws) = written ws"

lemma write_loop_steps [simp]:
  "length buf \<le> tot \<Longrightarrow> write_loop buf tot ws out = Some (kSuccess, out)"
  "tot < length buf \<Longrightarrow> write_loop buf tot [] out = None"
  "tot < length buf \<Longrightarrow> write_loop buf tot (W_EINTR # ws) out = write_loop buf tot ws out"
  "tot < length buf \<Longrightarrow> write_loop buf tot (W_FAIL # ws) out = Some (kErrIO, out)"
  "tot < length buf \<Longrightarrow> write_loop buf tot (W_OK k # ws) out =
     write_loop buf (tot + min k (length buf - tot)) ws (out @ take (min k (length buf - tot)) (drop tot buf))"
  by (subst write_loop.simps; simp add: Let_def)+

lemma write_loop_prefix:
  "write_loop buf tot ws (take tot buf) = Some (rc, out) \<Longrightarrow> tot \<le> length buf \<Longrightarrow>
     (rc = kSuccess \<and> out = buf) \<or> (rc = kErrIO \<and> prefix out buf \<and> W_FAIL \<in> set ws)"
proof (induction ws arbitrary: tot)
  case Nil
  then show ?case by (cases "tot < length buf") auto
next
  case (Cons w ws)
  show ?case
  proof (cases "tot < length buf")
    case True
    have "take tot buf @ take k (drop tot buf) = take (tot + k) buf" for k
      by (simp add: take_add)
    with True Cons show ?thesis by (cases w) (auto simp: take_is_prefix)
  qed (use Cons.prems in auto)
qed

lemma write_loop_returns:
  "W_FAIL \<notin> set ws \<Longrightarrow> length buf \<le> tot + written ws \<Longrightarrow> write_loop buf tot ws out \<noteq> None"
proof (induction ws arbitrary: tot out)
  case (Cons w ws)
  show ?case
  proof (cases "tot < length buf")
    case True
    with Cons show ?thesis by (cases w) (auto simp del: not_None_eq)
  qed simp
qed simp

text \<open>
  Fact (ExtractEntryToFile_writes): if an entry can be extracted, what
  \<open>ExtractEntryToFile\<close> writes is the entry's content when it reports success and a
  prefix of it when it reports an I/O error, which only a failed write causes; and with writes
  that never fail and take enough bytes in total, interrupted any number of times, it does return
  success.
\<close>

theorem ExtractEntryToFile_writes:
  assumes "ExtractToMemory e (Some ar) entry (replicate (unat (ze_uncompressed_length entry)) 0) = Some (kSuccess, dat)"
    and "z_alloc e (unat (ze_uncompressed_length entry))"
  shows "(\<forall>rc out. ExtractEntryToFile e (Some ar) entry ws = Some (rc, out) \<longrightarrow>
      (rc = kSuccess \<and> out = dat) \<or> (rc = kErrIO \<and> prefix out dat \<and> W_FAIL \<in> set ws))
    \<and> (W_FAIL \<notin> set ws \<and> length dat \<le> written ws \<longrightarrow>
        ExtractEntryToFile e (Some ar) entry ws = Some (kSuccess, dat))"
proof -
  have "ExtractEntryToFile e (Some ar) entry ws = write_loop dat 0 ws []"
    using assms by (simp add: ExtractEntryToFile_def Let_def)
  moreover have "(rc = kSuccess \<and> out = dat) \<or> (rc = kErrIO \<and> prefix out dat \<and> W_FAIL \<in> set ws)"
    if "write_loop dat 0 ws [] = Some (rc, out)" for rc out
    using write_loop_prefix [of dat 0 ws rc out] that by simp
  ultimately show ?thesis using write_loop_returns [of ws dat 0 "[]"] by auto
qed

section \<open>Reference encoder\<close>

record zip_item =
  zi_name :: bytes
  zi_data :: bytes
  zi_local_extra :: bytes
  zi_extra :: bytes
  zi_comment :: bytes
  zi_time :: u32
  zi_crc :: u32

definition enc_local :: "zip_item \<Rightarrow> bytes" where
  "enc_local x = put32 kLocalHeaderSignature @ put16 20 @ put16 0 @ put16 kMethodStored @ put32 (zi_time x)
     @ put32 (zi_crc x) @ put32 (word_of_nat (length (zi_data x))) @ put32 (word_of_nat (length (zi_data x)))
     @ put16 (word_of_nat (length (zi_name x))) @ put16 (word_of_nat (length (zi_local_extra x)))
     @ zi_name x @ zi_local_extra x @ zi_data x"

definition enc_cd :: "nat \<Rightarrow> zip_item \<Rightarrow> bytes" where
  "enc_cd off x = put32 kCDEntrySignature @ put16 20 @ put16 20 @ put16 0 @ put16 kMethodStored @ put32 (zi_time x)
     @ put32 (zi_crc x) @ put32 (word_of_nat (length (zi_data x))) @ put32 (word_of_nat (length (zi_data x)))
     @ put16 (word_of_nat (length (zi_name x))) @ put16 (word_of_nat (length (zi_extra x)))
     @ put16 (word_of_nat (length (zi_comment x))) @ put16 0 @ put16 0 @ put32 0
     @ put32 (word_of_nat off) @ zi_name x @ zi_extra x @ zi_comment x"

fun enc_cds :: "nat \<Rightarrow> zip_item list \<Rightarrow> bytes" where
  "enc_cds off [] = []"
| "enc_cds off (x # xs) = enc_cd off x @ enc_cds (off + length (enc_local x)) xs"

definition enc_locals :: "zip_item list \<Rightarrow> bytes" where
  "enc_locals xs = concat (map enc_local xs)"

definition enc_eocd :: "nat \<Rightarrow> nat \<Rightarrow> nat \<Rightarrow> bytes \<Rightarrow> bytes" where
  "enc_eocd n cdlen cdoff cmt = put32 kEOCDSignature @ put16 0 @ put16 0 @ put16 (word_of_nat n)
     @ put16 (word_of_nat n) @ put32 (word_of_nat cdlen) @ put32 (word_of_nat cdoff)
     @ put16 (word_of_nat (length cmt)) @ cmt"

definition enc_zip :: "zip_item list \<Rightarrow> bytes \<Rightarrow> bytes" where
  "enc_zip xs cmt = enc_locals xs @ enc_cds 0 xs
     @ enc_eocd (length xs) (length (enc_cds 0 xs)) (length (enc_locals xs)) cmt"

definition item_ok :: "zip_item \<Rightarrow> bool" where
  "item_ok x \<longleftrightarrow> length (zi_name x) < 2 ^ 16 \<and> length (zi_local_extra x) < 2 ^ 16
     \<and> length (zi_extra x) < 2 ^ 16 \<and> length (zi_comment x) < 2 ^ 16"

text \<open>The archive comment must not itself contain what looks like an end record.\<close>

definition zip_ok :: "zip_item list \<Rightarrow> bytes \<Rightarrow> bool" where
  "zip_ok xs cmt \<longleftrightarrow> xs \<noteq> [] \<and> length xs < 2 ^ 16 \<and> list_all item_ok xs \<and> length cmt < 2 ^ 16
     \<and> length (enc_zip xs cmt) < 2 ^ 32
     \<and> (\<forall>i \<in> {length (enc_locals xs @ enc_cds 0 xs) <.. length (enc_zip xs cmt) - 22}.
          rd32 (enc_zip xs cmt) i \<noteq> Some kEOCDSignature)"

lemma length_enc_local [simp]:
  "length (enc_local x) = 30 + length (zi_name x) + length (zi_local_extra x) + length (zi_data x)"
  by (simp add: enc_local_def)

lemma length_enc_cd [simp]:
  "length (enc_cd off x) = 46 + length (zi_name x) + length (zi_extra x) + length (zi_comment x)"
  by (simp add: enc_cd_def)

lemma length_enc_eocd [simp]: "length (enc_eocd n a b cmt) = 22 + length cmt"
  by (simp add: enc_eocd_def)

lemma rd_eocd:
  "rd32 (pre @ enc_eocd n a b cmt) (length pre) = Some kEOCDSignature"
  "rd16 (pre @ enc_eocd n a b cmt) (length pre + 8) = Some (word_of_nat n)"
  "rd32 (pre @ enc_eocd n a b cmt) (length pre + 12) = Some (word_of_nat a)"
  "rd32 (pre @ enc_eocd n a b cmt) (length pre + 16) = Some (word_of_nat b)"
  by (simp_all add: rd_shift enc_eocd_def rd_simps)

lemma rd_suffix:
  "rd32 (drop k b) i = (if k \<le> length b then rd32 b (k + i) else rd32 [] i)"
  "rd16 (drop k b) i = (if k \<le> length b then rd16 b (k + i) else rd16 [] i)"
  by (auto simp: rd32_def rd16_def add.assoc)

lemma read_mem:
  assumes "ar_mem ar = Some m" "off + n \<le> length m"
  shows "archive_read_at e ar n off = (int n, take n (drop off m))"
  using assms by (simp add: archive_read_at_def)

lemma scan_eocd_last:
  assumes "n + 3 \<le> length buf" "i < n" "rd32 buf i = Some kEOCDSignature"
    "\<And>j. i < j \<Longrightarrow> j < n \<Longrightarrow> rd32 buf j \<noteq> Some kEOCDSignature"
  shows "scan_eocd buf n = Some (Some i)"
proof -
  obtain r where r: "scan_eocd buf n = Some r" and sp: "case r of
      None \<Rightarrow> \<forall>i < n. rd32 buf i \<noteq> Some kEOCDSignature
    | Some i \<Rightarrow> i < n \<and> rd32 buf i = Some kEOCDSignature
        \<and> (\<forall>j. i < j \<and> j < n \<longrightarrow> rd32 buf j \<noteq> Some kEOCDSignature)"
    using scan_eocd_spec [OF assms(1)] by blast
  with assms(2,3) obtain k where k: "r = Some k" "k < n" "rd32 buf k = Some kEOCDSignature"
    "\<forall>j. k < j \<and> j < n \<longrightarrow> rd32 buf j \<noteq> Some kEOCDSignature"
    by (auto split: option.splits)
  with assms(2-4) have "k = i" by (metis linorder_neqE_nat)
  with r k show ?thesis by simp
qed

text \<open>The end record that is found is the last one in the file, for any archive in memory.\<close>

lemma find_eocd_at:
  assumes "ar_mem ar = Some m" "length m = n" "pos + 22 \<le> n" "n \<le> pos + kMaxEOCDSearch"
    "\<And>k. z_alloc e k" "rd32 m pos = Some kEOCDSignature"
    "\<And>j. pos < j \<Longrightarrow> j + 22 \<le> n \<Longrightarrow> rd32 m j \<noteq> Some kEOCDSignature"
    "rd16 m (pos + 8) = Some count" "rd32 m (pos + 12) = Some sz" "rd32 m (pos + 16) = Some off"
  shows "find_eocd e ar n = Some (Inr (off, sz, count))"
proof -
  define l where "l = (if n < kMaxEOCDSearch then n else kMaxEOCDSearch)"
  have l: "22 \<le> l" "l \<le> n" "n - l \<le> pos" "l = n - (n - l)"
    using assms(3,4) by (auto simp: l_def kMaxEOCDSearch_def)
  define s where "s = n - l"
  define i where "i = pos - s"
  have pos: "pos = s + i" "s \<le> length m" using l assms(2) by (simp_all add: s_def i_def)
  have rd: "archive_read_at e ar l s = (int l, drop s m)"
    using read_mem [OF assms(1), of s l] l assms(2) s_def by simp
  have sc: "scan_eocd (drop s m) (l - 21) = Some (Some i)"
  proof (rule scan_eocd_last)
    show "l - 21 + 3 \<le> length (drop s m)" "i < l - 21"
      using l assms(2,3) by (auto simp: s_def i_def)
    show "rd32 (drop s m) i = Some kEOCDSignature" using assms(6) pos by (simp add: rd_suffix)
    fix j assume "i < j" "j < l - 21"
    then show "rd32 (drop s m) j \<noteq> Some kEOCDSignature"
      using assms(7) [of "s + j"] pos l s_def by (simp add: rd_suffix)
  qed
  have "rd16 (drop s m) (i + 8) = Some count" "rd32 (drop s m) (i + 12) = Some sz" "rd32 (drop s m) (i + 16) = Some off"
    using assms(8-10) pos by (simp_all add: rd_suffix add.assoc)
  with rd sc show ?thesis
    unfolding find_eocd_def Let_def l_def [symmetric] s_def [symmetric] by (simp add: assms(5))
qed

definition entry_of :: "nat \<Rightarrow> zip_item \<Rightarrow> ZipEntry" where
  "entry_of off x = \<lparr>ze_method = kMethodStored, ze_mod_time = zi_time x, ze_crc32 = zi_crc x,
     ze_compressed_length = word_of_nat (length (zi_data x)),
     ze_uncompressed_length = word_of_nat (length (zi_data x)), ze_offset = off\<rparr>"

lemma read_cd_enc:
  assumes "item_ok x" "off < 2 ^ 32"
  shows "read_cd_record (pre @ enc_cd off x @ post) (length pre) = Some (kCDEntrySignature,
    entry_of off x, length (zi_name x), length pre + length (enc_cd off x))"
proof -
  have f: "rd32 (enc_cd off x @ post) 0 = Some kCDEntrySignature"
    "rd16 (enc_cd off x @ post) 10 = Some kMethodStored"
    "rd32 (enc_cd off x @ post) 12 = Some (zi_time x)"
    "rd32 (enc_cd off x @ post) 16 = Some (zi_crc x)"
    "rd32 (enc_cd off x @ post) 20 = Some (word_of_nat (length (zi_data x)))"
    "rd32 (enc_cd off x @ post) 24 = Some (word_of_nat (length (zi_data x)))"
    "rd16 (enc_cd off x @ post) 28 = Some (word_of_nat (length (zi_name x)))"
    "rd16 (enc_cd off x @ post) 30 = Some (word_of_nat (length (zi_extra x)))"
    "rd16 (enc_cd off x @ post) 32 = Some (word_of_nat (length (zi_comment x)))"
    "rd32 (enc_cd off x @ post) 42 = Some (word_of_nat off)"
    by (simp_all add: enc_cd_def rd_simps)
  have "rd32 (pre @ enc_cd off x @ post) (length pre) = Some kCDEntrySignature"
    using rd_shift(3) [of pre _ 0] f(1) by simp
  with f show ?thesis
    using assms unfolding read_cd_record_def item_ok_def
    by (simp only: rd_shift bind.simps) (simp add: entry_of_def unat_of_nat16 unat_of_nat32)
qed

lemma find_entry_step:
  assumes "read_cd_record cd p = Some (kCDEntrySignature, en, nl, p')" "p + 46 + nl \<le> cend"
    "slice cd (p + 46) nl = Some nm"
  shows "find_entry_loop cd cend name p (Suc n) =
    (if nm = name then Some (kSuccess, Some en) else find_entry_loop cd cend name p' n)"
  using assms slice_length [OF assms(3)] by auto

lemma find_entry_enc:
  assumes "list_all item_ok xs" "i < length xs" "\<forall>j < i. zi_name (xs ! j) \<noteq> zi_name (xs ! i)"
    "off + length (enc_locals xs) < 2 ^ 32" "cd = pre @ enc_cds off xs"
  shows "find_entry_loop cd (length cd) (zi_name (xs ! i)) (length pre) (length xs)
    = Some (kSuccess, Some (entry_of (off + length (enc_locals (take i xs))) (xs ! i)))"
  using assms
proof (induction xs arbitrary: pre off i)
  case (Cons x xs)
  let ?rest = "enc_cds (off + length (enc_local x)) xs"
  have cd: "cd = pre @ enc_cd off x @ ?rest" using Cons.prems(5) by simp
  have rec: "read_cd_record cd (length pre) = Some (kCDEntrySignature, entry_of off x,
      length (zi_name x), length pre + length (enc_cd off x))"
    unfolding cd using Cons.prems by (intro read_cd_enc) simp_all
  have sl: "slice cd (length pre + 46) (length (zi_name x)) = Some (zi_name x)"
    unfolding cd slice_shift by (simp add: enc_cd_def rd_simps)
  have le: "length pre + 46 + length (zi_name x) \<le> length cd" by (simp add: cd)
  note step = find_entry_step [OF rec le sl]
  show ?case
  proof (cases i)
    case 0
    then show ?thesis unfolding list.size add_Suc_right add_0_right using step by (simp add: enc_locals_def)
  next
    case (Suc k)
    let ?n = "zi_name (xs ! k)"
    have "zi_name x \<noteq> ?n" using Cons.prems(3) Suc by (metis nth_Cons_0 nth_Cons_Suc zero_less_Suc)
    moreover have "\<forall>j < k. zi_name (xs ! j) \<noteq> ?n" using Cons.prems(3) Suc by (metis Suc_less_eq nth_Cons_Suc)
    then have "find_entry_loop cd (length cd) ?n (length (pre @ enc_cd off x)) (length xs)
        = Some (kSuccess, Some (entry_of (off + length (enc_local x) + length (enc_locals (take k xs))) (xs ! k)))"
      using Cons.prems Suc cd by (intro Cons.IH) (simp_all add: enc_locals_def)
    ultimately show ?thesis
      using step [of ?n "length xs"] Suc by (simp add: enc_locals_def add.assoc del: find_entry_loop.simps)
  qed
qed simp

lemma read_mem_at:
  "ar_mem ar = Some (p @ d @ q) \<Longrightarrow> archive_read_at e ar (length d) (length p) = (int (length d), d)"
  by (simp add: archive_read_at_def)

lemma extract_stored:
  assumes "ar_mem ar = Some m" "m = pre @ enc_local x @ post" "item_ok x" "length (zi_data x) < 2 ^ 32"
    "length (zi_data x) \<le> length buf"
  shows "ExtractToMemory e (Some ar) (entry_of (length pre) x) buf
    = Some (kSuccess, zi_data x @ drop (length (zi_data x)) buf)"
proof -
  let ?hdr = "take 30 (enc_local x)"
  have h: "archive_read_at e ar 30 (length pre) = (30, ?hdr)"
    using read_mem [OF assms(1), of "length pre" 30] assms(2) by simp
  have hdr: "?hdr = put32 kLocalHeaderSignature @ put16 20 @ put16 0 @ put16 kMethodStored @ put32 (zi_time x)
     @ put32 (zi_crc x) @ put32 (word_of_nat (length (zi_data x))) @ put32 (word_of_nat (length (zi_data x)))
     @ put16 (word_of_nat (length (zi_name x))) @ put16 (word_of_nat (length (zi_local_extra x)))"
    by (simp add: enc_local_def)
  have "rd32 ?hdr 0 = Some kLocalHeaderSignature" "rd16 ?hdr 26 = Some (word_of_nat (length (zi_name x)))"
    "rd16 ?hdr 28 = Some (word_of_nat (length (zi_local_extra x)))"
    unfolding hdr using rd16_put [of _ "[]"] by (simp_all add: rd_simps)
  then have off: "get_data_offset e ar (entry_of (length pre) x)
      = Some (Some (length (pre @ take (30 + length (zi_name x) + length (zi_local_extra x)) (enc_local x))))"
    using h assms(3) by (simp add: get_data_offset_def entry_of_def item_ok_def unat_of_nat16)
  let ?p = "pre @ take (30 + length (zi_name x) + length (zi_local_extra x)) (enc_local x)"
  have m: "m = ?p @ zi_data x @ post"
    using assms(2) by (simp add: enc_local_def)
  have rd: "archive_read_at e ar (length (zi_data x)) (length ?p) = (int (length (zi_data x)), zi_data x)"
    using assms(1) unfolding m by (rule read_mem_at)
  define en where "en = entry_of (length pre) x"
  have en: "ze_method en = kMethodStored" "unat (ze_uncompressed_length en) = length (zi_data x)"
    using assms(4) by (simp_all add: en_def entry_of_def unat_of_nat32)
  show ?thesis
    using rd assms(5) off unfolding en_def [symmetric] by (simp add: ExtractToMemory_def en)
qed


lemma open_enc_zip:
  assumes "zip_ok xs cmt" "\<And>k. z_alloc e k"
  shows "\<exists>ar. OpenArchiveFromMemory e (Some (enc_zip xs cmt)) nm True = Some (kSuccess, Some ar, [])
    \<and> ar_mem ar = Some (enc_zip xs cmt) \<and> ar_cd_data ar = enc_cds 0 xs
    \<and> unat (ar_cd_size ar) = length (enc_cds 0 xs) \<and> unat (ar_entry_count ar) = length xs"
proof -
  define m where "m = enc_zip xs cmt"
  define ar0 where "ar0 = new_archive (-1) False (Some m) nm"
  let ?ls = "enc_locals xs" and ?cs = "enc_cds 0 xs"
  define off sz where "off = (word_of_nat (length ?ls) :: u32)" and "sz = (word_of_nat (length ?cs) :: u32)"
  define ar where "ar = ar0\<lparr>ar_cd_offset := off, ar_cd_size := sz, ar_entry_count := word_of_nat (length xs),
    ar_cd_data := ?cs\<rparr>"
  have m: "m = (?ls @ ?cs) @ enc_eocd (length xs) (length ?cs) (length ?ls) cmt"
    by (simp add: m_def enc_zip_def)
  have len: "length m = length ?ls + length ?cs + 22 + length cmt" by (simp add: m)
  note ok = assms(1) [unfolded zip_ok_def, folded m_def]
  have un: "unat off = length ?ls" "unat sz = length ?cs" "unat (off + sz) = length ?ls + length ?cs"
    using ok len by (simp_all add: off_def sz_def unat_of_nat32 flip: of_nat_add)
  have "find_eocd e ar0 (length m) = Some (Inr (off, sz, word_of_nat (length xs)))"
    unfolding off_def sz_def
    using rd_eocd [of "?ls @ ?cs" "length xs" "length ?cs" "length ?ls" cmt, folded m] ok len assms(2)
    by (intro find_eocd_at [where m = m and pos = "length (?ls @ ?cs)"])
       (simp_all add: ar0_def new_archive_def kMaxEOCDSearch_def)
  moreover have "archive_read_at e (ar0\<lparr>ar_cd_offset := off, ar_cd_size := sz,
      ar_entry_count := word_of_nat (length xs)\<rparr>) (length ?cs) (length ?ls) = (int (length ?cs), ?cs)"
    by (rule read_mem_at [where q = "enc_eocd (length xs) (length ?cs) (length ?ls) cmt"])
       (simp add: ar0_def new_archive_def m)
  moreover have "sz \<noteq> 0"
  proof -
    have "0 < length ?cs" using ok by (cases xs) auto
    with un(2) show ?thesis by auto
  qed
  ultimately have "init_archive e ar0 = Some (kSuccess, ar)"
    using un len assms(2) by (simp add: init_archive_def archive_size_def ar0_def new_archive_def ar_def)
  then have "OpenArchiveFromMemory e (Some m) nm True = Some (kSuccess, Some ar, [])"
    using assms(2) by (simp add: OpenArchiveFromMemory_def ar0_def)
  then show ?thesis
    using un ok by (auto simp: ar_def ar0_def new_archive_def m_def unat_of_nat16)
qed

text \<open>
  C2 (zip_roundtrip): reading inverts writing. Of an archive of stored entries, with any extra
  fields, comments and an archive comment that does not imitate an end record, opening it from
  memory succeeds, looking up the name of an entry finds the first entry of that name, and
  extracting it into a buffer that is large enough stores exactly its bytes and leaves the rest of
  the buffer alone.
\<close>

theorem zip_roundtrip:
  assumes "zip_ok xs cmt" "\<And>k. z_alloc e k" "i < length xs" "\<forall>j < i. zi_name (xs ! j) \<noteq> zi_name (xs ! i)"
    and "length (zi_data (xs ! i)) \<le> length buf"
  shows "\<exists>ar en. OpenArchiveFromMemory e (Some (enc_zip xs cmt)) nm True = Some (kSuccess, Some ar, [])
    \<and> FindEntry (Some ar) (zi_name (xs ! i)) = Some (kSuccess, Some en)
    \<and> unat (ze_uncompressed_length en) = length (zi_data (xs ! i))
    \<and> ExtractToMemory e (Some ar) en buf = Some (kSuccess, zi_data (xs ! i) @ drop (length (zi_data (xs ! i))) buf)"
proof -
  let ?x = "xs ! i" and ?en = "entry_of (length (enc_locals (take i xs))) (xs ! i)"
  obtain ar where op: "OpenArchiveFromMemory e (Some (enc_zip xs cmt)) nm True = Some (kSuccess, Some ar, [])"
    and ar: "ar_mem ar = Some (enc_zip xs cmt)" "ar_cd_data ar = enc_cds 0 xs"
      "unat (ar_cd_size ar) = length (enc_cds 0 xs)" "unat (ar_entry_count ar) = length xs"
    using open_enc_zip [OF assms(1,2)] by blast
  have ok: "list_all item_ok xs" "length (enc_zip xs cmt) < 2 ^ 32" using assms(1) by (simp_all add: zip_ok_def)
  then have ls: "length (enc_locals xs) < 2 ^ 32" by (simp add: enc_zip_def)
  have split: "enc_locals xs = enc_locals (take i xs) @ enc_local ?x @ enc_locals (drop (Suc i) xs)"
    using assms(3) unfolding enc_locals_def by (subst id_take_nth_drop [of i xs]) simp_all
  have z: "enc_zip xs cmt = enc_locals (take i xs) @ enc_local ?x @ (enc_locals (drop (Suc i) xs) @ enc_cds 0 xs
      @ enc_eocd (length xs) (length (enc_cds 0 xs)) (length (enc_locals xs)) cmt)"
    unfolding enc_zip_def by (subst split) simp
  have d: "length (zi_data ?x) < 2 ^ 32" using ls by (simp add: split)
  have "FindEntry (Some ar) (zi_name ?x) = Some (kSuccess, Some ?en)"
    using find_entry_enc [OF ok(1) assms(3,4), of 0 "enc_cds 0 xs" "[]"] ls ar by (simp add: FindEntry_def)
  moreover have "ExtractToMemory e (Some ar) ?en buf = Some (kSuccess, zi_data ?x @ drop (length (zi_data ?x)) buf)"
    using ar(1) z _ d assms(5) by (rule extract_stored) (use ok(1) assms(3) in \<open>simp add: list_all_length\<close>)
  ultimately show ?thesis using op d by (auto simp: entry_of_def unat_of_nat32)
qed

definition sample_env :: zenv where
  "sample_env = \<lparr>z_file = (\<lambda>fd. []), z_iofail = (\<lambda>fd off n. False), z_statfail = (\<lambda>fd. False),
     z_alloc = (\<lambda>n. True), z_open = (\<lambda>p. 3), z_inflateInit = True, z_inflate = (\<lambda>b n. (True, []))\<rparr>"

definition sample_item :: zip_item where
  "sample_item = \<lparr>zi_name = [97], zi_data = [1, 2, 3], zi_local_extra = [9], zi_extra = [], zi_comment = [],
     zi_time = 0, zi_crc = 0\<rparr>"

definition sample_archive :: MiniZipArchive where
  "sample_archive = (new_archive (-1) False (Some (enc_local sample_item @ [7, 7])) None)
     \<lparr>ar_cd_data := [7, 7], ar_cd_size := 2, ar_cd_offset := 35\<rparr>"

lemma sample_zip_ok: "zip_ok [sample_item] []"
  by (simp add: zip_ok_def enc_zip_def enc_locals_def item_ok_def sample_item_def)

theorem zip_roundtrip_witness:
  "\<exists>ar en. OpenArchiveFromMemory sample_env (Some (enc_zip [sample_item] [])) None True = Some (kSuccess, Some ar, [])
    \<and> FindEntry (Some ar) [97] = Some (kSuccess, Some en)
    \<and> ExtractToMemory sample_env (Some ar) en [0, 0, 0, 0] = Some (kSuccess, [1, 2, 3, 0])"
  using zip_roundtrip [OF sample_zip_ok, of sample_env 0 "[0, 0, 0, 0]" None]
  by (auto simp: sample_env_def sample_item_def)

theorem archive_fd_closed_once_witness:
  "\<exists>rc h closed. OpenArchiveFd sample_env 3 None True True = Some (rc, h, closed) \<and> closed @ CloseArchive h = [3]"
  using archive_fd_closed_once [of 3 sample_env None True] by (simp add: sample_env_def)

theorem zip_access_safe_witness:
  "archive_ok sample_env sample_archive \<and> FindEntry (Some sample_archive) [97] \<noteq> None"
proof -
  have "archive_ok sample_env sample_archive"
    by (simp add: archive_ok_def content_def sample_archive_def new_archive_def sample_item_def slice_def)
  then show ?thesis using zip_access_safe [of sample_env sample_archive "[97]"] by blast
qed

theorem ExtractEntryToFile_writes_witness:
  "ExtractEntryToFile sample_env (Some sample_archive) (entry_of 0 sample_item) [W_OK 1, W_EINTR, W_OK 5]
     = Some (kSuccess, [1, 2, 3])"
proof -
  have "ExtractToMemory sample_env (Some sample_archive) (entry_of (length ([] :: bytes)) sample_item) (replicate 3 0)
      = Some (kSuccess, zi_data sample_item @ drop (length (zi_data sample_item)) (replicate 3 0))"
    by (rule extract_stored) (simp_all add: sample_archive_def new_archive_def item_ok_def, simp_all add: sample_item_def)
  then have "ExtractToMemory sample_env (Some sample_archive) (entry_of 0 sample_item) (replicate 3 0)
      = Some (kSuccess, [1, 2, 3])"
    by (simp add: sample_item_def)
  moreover have "unat (ze_uncompressed_length (entry_of 0 sample_item)) = 3"
    by (simp add: entry_of_def sample_item_def)
  moreover have "z_alloc sample_env 3" by (simp add: sample_env_def)
  ultimately have w: "ExtractToMemory sample_env (Some sample_archive) (entry_of 0 sample_item)
      (replicate (unat (ze_uncompressed_length (entry_of 0 sample_item))) 0) = Some (kSuccess, [1, 2, 3])"
    "z_alloc sample_env (unat (ze_uncompressed_length (entry_of 0 sample_item)))"
    by (simp_all only:)
  show ?thesis
    by (rule ExtractEntryToFile_writes [OF w, THEN conjunct2, rule_format]) simp
qed

end
