(* ===== verification/SpawnProtocol.thy ===== *)
theory SpawnProtocol
  imports Prelude "HOL-Library.Sublist"
begin

text \<open>
  The request protocol of the process spawner: \<open>framework/appspawn-x/src/spawn_msg.h\<close> (message layout)
  and \<open>spawn_server.cpp\<close> (reading a connection, parsing the binary TLV format and the legacy text
  format, dispatching to the spawn handler, the response). A connection is the sequence of outcomes
  of its \<open>recv\<close> calls; running out of outcomes means the server still waits. \<open>None\<close> is a read outside
  the message buffer. The structures are packed to 4 bytes, so the header has 276 bytes and the
  response 300.
\<close>

section \<open>Constants and messages\<close>

definition MSG_APP_SPAWN :: int where "MSG_APP_SPAWN = 0"
definition OH_SPAWN_MSG_MAGIC :: u32 where "OH_SPAWN_MSG_MAGIC = 0xEF201234"
definition OH_APP_LEN_PROC_NAME :: nat where "OH_APP_LEN_PROC_NAME = 256"
definition OH_APP_MAX_GIDS :: nat where "OH_APP_MAX_GIDS = 64"
definition OH_APP_USER_NAME :: nat where "OH_APP_USER_NAME = 64"
definition OH_TLV_BUNDLE_INFO :: u16 where "OH_TLV_BUNDLE_INFO = 0"
definition OH_TLV_MSG_FLAGS :: u16 where "OH_TLV_MSG_FLAGS = 1"
definition OH_TLV_DAC_INFO :: u16 where "OH_TLV_DAC_INFO = 2"
definition OH_TLV_DOMAIN_INFO :: u16 where "OH_TLV_DOMAIN_INFO = 3"
definition OH_TLV_ACCESS_TOKEN_INFO :: u16 where "OH_TLV_ACCESS_TOKEN_INFO = 5"
definition kMaxMessageSize :: nat where "kMaxMessageSize = 256 * 1024"

lemmas oh_consts = MSG_APP_SPAWN_def OH_SPAWN_MSG_MAGIC_def OH_APP_LEN_PROC_NAME_def
  OH_APP_MAX_GIDS_def OH_APP_USER_NAME_def OH_TLV_BUNDLE_INFO_def OH_TLV_MSG_FLAGS_def
  OH_TLV_DAC_INFO_def OH_TLV_DOMAIN_INFO_def OH_TLV_ACCESS_TOKEN_INFO_def

text \<open>\<open>sizeof\<close> of the packed structures.\<close>

definition sizeof_header :: nat where "sizeof_header = 4 * 5 + OH_APP_LEN_PROC_NAME"
definition sizeof_tlv :: nat where "sizeof_tlv = 4"
definition sizeof_dac :: nat where
  "sizeof_dac = 12 + 4 * OH_APP_MAX_GIDS + OH_APP_USER_NAME"
definition sizeof_response :: nat where "sizeof_response = sizeof_header + 16 + 8"

record SpawnMsg =
  sm_code :: int
  sm_procName :: string
  sm_bundleName :: string
  sm_uid :: int
  sm_gid :: int
  sm_gids :: "int list"
  sm_accessTokenIdEx :: u64
  sm_hapFlags :: u32
  sm_apl :: string
  sm_flags :: u64
  sm_apkPath :: string
  sm_dexPaths :: string
  sm_nativeLibPaths :: string
  sm_targetClass :: string
  sm_targetSdkVersion :: int
  sm_selinuxContext :: string
  sm_isOhBinary :: bool
  sm_ohMsgId :: u32

definition new_SpawnMsg :: SpawnMsg where
  "new_SpawnMsg = \<lparr>sm_code = 0, sm_procName = [], sm_bundleName = [], sm_uid = -1, sm_gid = -1,
     sm_gids = [], sm_accessTokenIdEx = 0, sm_hapFlags = 0, sm_apl = [], sm_flags = 0,
     sm_apkPath = [], sm_dexPaths = [], sm_nativeLibPaths = [], sm_targetClass = [],
     sm_targetSdkVersion = 0, sm_selinuxContext = [], sm_isOhBinary = False, sm_ohMsgId = 0\<rparr>"

definition hasFlag :: "SpawnMsg \<Rightarrow> nat \<Rightarrow> bool" where
  "hasFlag m b = (drop_bit b (sm_flags m) AND 1 \<noteq> 0)"

section \<open>The binary format\<close>

text \<open>One branch of the \<open>switch (tType)\<close> per type; \<open>payload\<close> is an offset into \<open>data\<close>.\<close>

definition tlv_bundle :: "bytes \<Rightarrow> nat \<Rightarrow> nat \<Rightarrow> SpawnMsg \<Rightarrow> SpawnMsg option" where
  "tlv_bundle data payload payloadLen msg =
     (if payloadLen \<ge> 4 + 1 then do {
        s \<leftarrow> slice data (payload + 4) (payloadLen - 4);
        Some (msg\<lparr>sm_bundleName := chars (strn (payloadLen - 4) s)\<rparr>) }
      else Some msg)"

definition tlv_flags :: "bytes \<Rightarrow> nat \<Rightarrow> nat \<Rightarrow> SpawnMsg \<Rightarrow> SpawnMsg option" where
  "tlv_flags data payload payloadLen msg =
     (if payloadLen \<ge> 4 then do {
        count \<leftarrow> rd32 data payload;
        if count > 0 \<and> payloadLen \<ge> 4 + unat count * 4 then do {
          f \<leftarrow> rd32 data (payload + 4);
          Some (msg\<lparr>sm_flags := ucast f\<rparr>) }
        else Some msg }
      else Some msg)"

definition tlv_dac :: "bytes \<Rightarrow> nat \<Rightarrow> nat \<Rightarrow> SpawnMsg \<Rightarrow> SpawnMsg option" where
  "tlv_dac data payload payloadLen msg =
     (if payloadLen \<ge> sizeof_dac then do {
        uid \<leftarrow> rd32 data payload;
        gid \<leftarrow> rd32 data (payload + 4);
        gidCount \<leftarrow> rd32 data (payload + 8);
        let n = (if unat gidCount > OH_APP_MAX_GIDS then OH_APP_MAX_GIDS else unat gidCount);
        gidTable \<leftarrow> read_array rd32 4 data (payload + 12) n;
        Some (msg\<lparr>sm_uid := sint uid, sm_gid := sint gid,
                  sm_gids := sm_gids msg @ map sint gidTable\<rparr>) }
      else Some msg)"

definition tlv_domain :: "bytes \<Rightarrow> nat \<Rightarrow> nat \<Rightarrow> SpawnMsg \<Rightarrow> SpawnMsg option" where
  "tlv_domain data payload payloadLen msg =
     (if payloadLen \<ge> 4 + 1 then do {
        hapFlags \<leftarrow> rd32 data payload;
        s \<leftarrow> slice data (payload + 4) (payloadLen - 4);
        Some (msg\<lparr>sm_hapFlags := hapFlags, sm_apl := chars (strn (payloadLen - 4) s)\<rparr>) }
      else Some msg)"

definition tlv_token :: "bytes \<Rightarrow> nat \<Rightarrow> nat \<Rightarrow> SpawnMsg \<Rightarrow> SpawnMsg option" where
  "tlv_token data payload payloadLen msg =
     (if payloadLen \<ge> 8 then do {
        t \<leftarrow> rd64 data payload;
        Some (msg\<lparr>sm_accessTokenIdEx := t\<rparr>) }
      else Some msg)"

definition handle_tlv :: "u16 \<Rightarrow> bytes \<Rightarrow> nat \<Rightarrow> nat \<Rightarrow> SpawnMsg \<Rightarrow> SpawnMsg option" where
  "handle_tlv tType data payload payloadLen msg =
     (if tType = OH_TLV_BUNDLE_INFO then tlv_bundle data payload payloadLen msg
      else if tType = OH_TLV_MSG_FLAGS then tlv_flags data payload payloadLen msg
      else if tType = OH_TLV_DAC_INFO then tlv_dac data payload payloadLen msg
      else if tType = OH_TLV_DOMAIN_INFO then tlv_domain data payload payloadLen msg
      else if tType = OH_TLV_ACCESS_TOKEN_INFO then tlv_token data payload payloadLen msg
      else Some msg)"

text \<open>
  The TLV loop: \<open>left\<close> is \<open>tlvCount - seen\<close>. The result tells whether the loop ended normally
  (\<open>False\<close> is the early return on a malformed TLV).
\<close>

fun tlv_loop :: "bytes \<Rightarrow> nat \<Rightarrow> nat \<Rightarrow> SpawnMsg \<Rightarrow> (bool \<times> SpawnMsg) option" where
  "tlv_loop data off 0 msg = Some (True, msg)"
| "tlv_loop data off (Suc left) msg =
     (if off + sizeof_tlv \<le> length data then do {
        tLen \<leftarrow> rd16 data off;
        tType \<leftarrow> rd16 data (off + 2);
        if unat tLen < sizeof_tlv \<or> off + unat tLen > length data then Some (False, msg)
        else do {
          msg' \<leftarrow> handle_tlv tType data (off + sizeof_tlv) (unat tLen - sizeof_tlv) msg;
          tlv_loop data (off + unat tLen) left msg' } }
      else Some (True, msg))"

definition parseOhBinaryMessage :: "bytes \<Rightarrow> SpawnMsg \<Rightarrow> (bool \<times> SpawnMsg) option" where
  "parseOhBinaryMessage data msg =
     (if length data < sizeof_header then Some (False, msg)
      else do {
        magic \<leftarrow> rd32 data 0;
        if magic \<noteq> OH_SPAWN_MSG_MAGIC then Some (False, msg)
        else do {
          msgType \<leftarrow> rd32 data 4;
          msgId \<leftarrow> rd32 data 12;
          tlvCount \<leftarrow> rd32 data 16;
          name \<leftarrow> slice data 20 OH_APP_LEN_PROC_NAME;
          let msg = msg\<lparr>sm_isOhBinary := True, sm_ohMsgId := msgId, sm_code := sint msgType,
                sm_procName := chars (strn OH_APP_LEN_PROC_NAME name)\<rparr>;
          (ok, msg) \<leftarrow> tlv_loop data sizeof_header (unat tlvCount) msg;
          if \<not> ok then Some (False, msg)
          else if sm_procName msg = [] then Some (False, msg)
          else Some (True, msg) } })"

section \<open>The legacy text format\<close>

text \<open>\<open>std::string::find\<close> of a substring and \<open>strtol\<close>, \<open>strtoull\<close> in base 10.\<close>

fun find_sub :: "string \<Rightarrow> string \<Rightarrow> nat option" where
  "find_sub pat [] = (if pat = [] then Some 0 else None)"
| "find_sub pat (c # cs) =
     (if prefix pat (c # cs) then Some 0 else map_option Suc (find_sub pat cs))"

definition is_space :: "char \<Rightarrow> bool" where
  "is_space c \<longleftrightarrow> of_char c = (32 :: nat) \<or> (9 \<le> (of_char c :: nat) \<and> (of_char c :: nat) \<le> 13)"

definition is_digit :: "char \<Rightarrow> bool" where
  "is_digit c \<longleftrightarrow> 48 \<le> (of_char c :: nat) \<and> (of_char c :: nat) \<le> 57"

fun digits_value :: "nat \<Rightarrow> string \<Rightarrow> nat" where
  "digits_value acc [] = acc"
| "digits_value acc (c # cs) =
     (if is_digit c then digits_value (acc * 10 + (of_char c - 48)) cs else acc)"

definition strto_int :: "string \<Rightarrow> bool \<times> nat" where
  "strto_int s =
     (let t = dropWhile is_space s in
      case t of
        c # cs \<Rightarrow>
          if c = CHR ''-'' then (True, digits_value 0 cs)
          else if c = CHR ''+'' then (False, digits_value 0 cs)
          else (False, digits_value 0 t)
      | [] \<Rightarrow> (False, 0))"

definition strtol :: "string \<Rightarrow> int" where
  "strtol s = (let (neg, v) = strto_int s; i = (if neg then - int v else int v) in
     if i < - (2 ^ 63) then - (2 ^ 63) else if i > 2 ^ 63 - 1 then 2 ^ 63 - 1 else i)"

definition strtoull :: "string \<Rightarrow> u64" where
  "strtoull s = (let (neg, v) = strto_int s in
     if v > 2 ^ 64 - 1 then - 1 else if neg then - (word_of_nat v) else word_of_nat v)"

definition to_int32 :: "int \<Rightarrow> int" where
  "to_int32 i = sint (word_of_int i :: u32)"

definition getValue :: "string \<Rightarrow> string \<Rightarrow> string" where
  "getValue text key =
     (let pre = key @ ''='' in
      case find_sub pre text of
        None \<Rightarrow> []
      | Some pos \<Rightarrow>
          (let v = takeWhile (\<lambda>c. c \<noteq> CHR 0x0A) (drop (pos + length pre) text) in
           if v \<noteq> [] \<and> last v = CHR 0x0D then butlast v else v))"

definition getInt :: "string \<Rightarrow> string \<Rightarrow> int \<Rightarrow> int" where
  "getInt text key d =
     (let val = getValue text key in if val = [] then d else to_int32 (strtol val))"

definition getUint64 :: "string \<Rightarrow> string \<Rightarrow> u64 \<Rightarrow> u64" where
  "getUint64 text key d =
     (let val = getValue text key in if val = [] then d else strtoull val)"

text \<open>The comma-separated list of supplementary group ids; empty items are skipped.\<close>

function parse_gids :: "string \<Rightarrow> int list" where
  "parse_gids s =
     (if s = [] then []
      else
        (let gidVal = takeWhile (\<lambda>c. c \<noteq> CHR '','') s;
             rest = drop (Suc (length gidVal)) s in
         (if gidVal \<noteq> [] then [to_int32 (strtol gidVal)] else []) @ parse_gids rest))"
  by pat_completeness auto
termination
  by (relation "measure length") auto

declare parse_gids.simps [simp del]

definition parse_text :: "string \<Rightarrow> SpawnMsg \<Rightarrow> bool \<times> SpawnMsg" where
  "parse_text text msg =
     (let msg = msg\<lparr>sm_code := getInt text ''code'' MSG_APP_SPAWN,
            sm_procName := getValue text ''procName'', sm_bundleName := getValue text ''bundleName'',
            sm_uid := getInt text ''uid'' (-1), sm_gid := getInt text ''gid'' (-1),
            sm_accessTokenIdEx := getUint64 text ''accessTokenIdEx'' 0,
            sm_hapFlags := word_of_int (getInt text ''hapFlags'' 0), sm_apl := getValue text ''apl'',
            sm_flags := getUint64 text ''flags'' 0, sm_apkPath := getValue text ''apkPath'',
            sm_dexPaths := getValue text ''dexPaths'',
            sm_nativeLibPaths := getValue text ''nativeLibPaths'',
            sm_targetClass := getValue text ''targetClass'',
            sm_targetSdkVersion := getInt text ''targetSdkVersion'' 0,
            sm_selinuxContext := getValue text ''selinuxContext'',
            sm_gids := sm_gids msg @ parse_gids (getValue text ''gids'')\<rparr> in
      if sm_procName msg = [] then (False, msg)
      else if sm_uid msg < 0 then (False, msg)
      else (True, msg))"

definition parseMessage :: "bytes \<Rightarrow> SpawnMsg \<Rightarrow> (bool \<times> SpawnMsg) option" where
  "parseMessage data msg =
     (if length data \<ge> 4 then do {
        magic \<leftarrow> rd32 data 0;
        if magic = OH_SPAWN_MSG_MAGIC then parseOhBinaryMessage data msg
        else Some (parse_text (chars data) msg) }
      else Some (parse_text (chars data) msg))"

section \<open>Connections\<close>

text \<open>One outcome per \<open>recv\<close> call: data that has arrived, an interrupted call, an error, end of file.\<close>

datatype recv_ev = RData bytes | REintr | RErr | REof

text \<open>
  \<open>recvAll\<close>: the flag, the bytes stored so far and the outcomes not consumed. \<open>None\<close> is a call that
  still waits.
\<close>

fun recvAll :: "recv_ev list \<Rightarrow> nat \<Rightarrow> bytes \<Rightarrow> (bool \<times> bytes \<times> recv_ev list) option" where
  "recvAll evs 0 buf = Some (True, buf, evs)"
| "recvAll [] (Suc n) buf = None"
| "recvAll (REintr # evs) (Suc n) buf = recvAll evs (Suc n) buf"
| "recvAll (RErr # evs) (Suc n) buf = Some (False, buf, evs)"
| "recvAll (REof # evs) (Suc n) buf = Some (False, buf, evs)"
| "recvAll (RData bs # evs) (Suc n) buf =
     (if bs = [] then Some (False, buf, evs)
      else if length bs \<le> Suc n then recvAll evs (Suc n - length bs) (buf @ bs)
      else Some (True, buf @ take (Suc n) bs, RData (drop (Suc n) bs) # evs))"

text \<open>
  The probe: one \<open>recv\<close> with \<open>MSG_WAITALL\<close>, which collects data until it has all four bytes and
  returns short on a signal, an error or end of file.
\<close>

fun recv_waitall :: "recv_ev list \<Rightarrow> nat \<Rightarrow> bytes \<Rightarrow> (bytes \<times> recv_ev list) option" where
  "recv_waitall evs 0 buf = Some (buf, evs)"
| "recv_waitall [] (Suc n) buf = None"
| "recv_waitall (RData bs # evs) (Suc n) buf =
     (if bs = [] then Some (buf, evs)
      else if length bs \<le> Suc n then recv_waitall evs (Suc n - length bs) (buf @ bs)
      else Some (buf @ take (Suc n) bs, RData (drop (Suc n) bs) # evs))"
| "recv_waitall (ev # evs) (Suc n) buf = Some (buf, evs)"

datatype response = BinaryResponse bytes | TextResponse int int

text \<open>\<open>sendOhBinaryResponse\<close>: the bytes of the response structure. \<open>strncpy\<close> copies at most 255 bytes
  up to the first zero and pads; the last byte of the field stays zero from the initialisation.\<close>

definition int32_bytes :: "int \<Rightarrow> bytes" where
  "int32_bytes i = put32 (word_of_int i)"

definition name_field :: "string \<Rightarrow> bytes" where
  "name_field procName =
     (let s = strn (OH_APP_LEN_PROC_NAME - 1) (bytes_of procName)
      in s @ replicate (OH_APP_LEN_PROC_NAME - length s) 0)"

definition oh_response :: "u32 \<Rightarrow> string \<Rightarrow> int \<Rightarrow> int \<Rightarrow> bytes" where
  "oh_response reqMsgId procName pid result =
     put32 OH_SPAWN_MSG_MAGIC @ put32 (word_of_int MSG_APP_SPAWN)
     @ put32 (word_of_nat sizeof_response) @ put32 reqMsgId @ put32 0 @ name_field procName
     @ int32_bytes result @ int32_bytes pid @ put64 0 @ put64 0"

definition sendOhBinaryResponse :: "u32 \<Rightarrow> string \<Rightarrow> int \<Rightarrow> int \<Rightarrow> response" where
  "sendOhBinaryResponse reqMsgId procName pid result =
     BinaryResponse (oh_response reqMsgId procName pid result)"

definition sendResult :: "int \<Rightarrow> int \<Rightarrow> response" where
  "sendResult pid result = TextResponse pid result"

text \<open>
  What a connection does: it still waits, or it is finished with the spawn requests dispatched and
  the responses sent.
\<close>

datatype conn = Waiting | Finished "SpawnMsg list" "response list"

type_synonym handler = "(SpawnMsg \<Rightarrow> int) option"

definition dispatch :: "handler \<Rightarrow> SpawnMsg \<Rightarrow> conn" where
  "dispatch h msg =
     (let (pid, rc, calls) = (case h of
            Some f \<Rightarrow> (let pid = f msg in (pid, if pid > 0 then 0 else -1, [msg]))
          | None \<Rightarrow> (-1, -1, [])) in
      Finished calls
        [if sm_isOhBinary msg then sendOhBinaryResponse (sm_ohMsgId msg) (sm_procName msg) pid rc
         else sendResult pid rc])"

definition parse_and_dispatch :: "handler \<Rightarrow> bool \<Rightarrow> bytes \<Rightarrow> conn option" where
  "parse_and_dispatch h isBinary buffer = do {
     (ok, msg) \<leftarrow> parseMessage buffer new_SpawnMsg;
     if \<not> ok then
       (if isBinary then do {
          msgId \<leftarrow> rd32 buffer 12;
          Some (Finished [] [sendOhBinaryResponse msgId [] (-1) (-1)]) }
        else Some (Finished [] [sendResult (-1) (-1)]))
     else Some (dispatch h msg) }"

definition handle_binary :: "handler \<Rightarrow> bytes \<Rightarrow> recv_ev list \<Rightarrow> conn option" where
  "handle_binary h probe evs =
     (case recvAll evs (sizeof_header - 4) probe of
        None \<Rightarrow> Some Waiting
      | Some (False, buf, evs) \<Rightarrow> Some (Finished [] [sendOhBinaryResponse 0 [] (-1) (-1)])
      | Some (True, buffer, evs) \<Rightarrow> do {
          msgLen \<leftarrow> rd32 buffer 8;
          msgId \<leftarrow> rd32 buffer 12;
          if unat msgLen < sizeof_header \<or> unat msgLen > kMaxMessageSize
          then Some (Finished [] [sendOhBinaryResponse msgId [] (-1) (-1)])
          else
            (let tlvBytes = unat msgLen - sizeof_header in
             if tlvBytes > 0 then
               (case recvAll evs tlvBytes buffer of
                  None \<Rightarrow> Some Waiting
                | Some (False, _, _) \<Rightarrow> Some (Finished [] [sendOhBinaryResponse msgId [] (-1) (-1)])
                | Some (True, buffer, _) \<Rightarrow> parse_and_dispatch h True buffer)
             else parse_and_dispatch h True buffer) })"

definition handle_legacy :: "handler \<Rightarrow> u32 \<Rightarrow> recv_ev list \<Rightarrow> conn option" where
  "handle_legacy h probe evs =
     (let payloadLen = unat probe in
      if payloadLen = 0 \<or> payloadLen > kMaxMessageSize
      then Some (Finished [] [sendResult (-1) (-1)])
      else
        (case recvAll evs payloadLen [] of
           None \<Rightarrow> Some Waiting
         | Some (False, _, _) \<Rightarrow> Some (Finished [] [sendResult (-1) (-1)])
         | Some (True, buffer, _) \<Rightarrow> parse_and_dispatch h False buffer))"

definition handleConnection :: "handler \<Rightarrow> recv_ev list \<Rightarrow> conn option" where
  "handleConnection h evs =
     (case recv_waitall evs 4 [] of
        None \<Rightarrow> Some Waiting
      | Some (buf, evs) \<Rightarrow>
          if length buf \<noteq> 4 then Some (Finished [] [sendResult (-1) (-1)])
          else do {
            probe \<leftarrow> rd32 buf 0;
            if probe = OH_SPAWN_MSG_MAGIC then handle_binary h buf evs
            else handle_legacy h probe evs })"

section \<open>The listening socket\<close>

text \<open>The outcomes of the system calls of \<open>createListenSocket\<close>.\<close>

record listen_env =
  le_getenv :: "string \<Rightarrow> string option"
  le_socket :: int
  le_bind :: bool
  le_listen :: bool

record SpawnServer =
  ss_socketName :: string
  ss_socketPath :: string
  ss_listenFd :: int

definition new_SpawnServer :: "string \<Rightarrow> SpawnServer" where
  "new_SpawnServer name = \<lparr>ss_socketName = name, ss_socketPath = ''/dev/unix/socket/'' @ name,
     ss_listenFd = -1\<rparr>"

definition sun_path_size :: nat where "sun_path_size = 108"

text \<open>Return code, server, descriptors closed.\<close>

definition createListenSocket :: "listen_env \<Rightarrow> SpawnServer \<Rightarrow> int \<times> SpawnServer \<times> int list" where
  "createListenSocket e s =
     (let envFd = (case le_getenv e (''OHOS_SOCKET_'' @ ss_socketName s) of
          None \<Rightarrow> None
        | Some v \<Rightarrow> if v = [] then None
            else (let fd = to_int32 (strtol v) in if fd \<ge> 0 then Some fd else None)) in
      case envFd of
        Some fd \<Rightarrow> (0, s\<lparr>ss_listenFd := fd\<rparr>, [])
      | None \<Rightarrow>
          (let fd = le_socket e in
           if fd < 0 then (-1, s\<lparr>ss_listenFd := fd\<rparr>, [])
           else if length (ss_socketPath s) \<ge> sun_path_size then (-1, s\<lparr>ss_listenFd := -1\<rparr>, [fd])
           else if \<not> le_bind e then (-1, s\<lparr>ss_listenFd := -1\<rparr>, [fd])
           else if \<not> le_listen e then (-1, s\<lparr>ss_listenFd := -1\<rparr>, [fd])
           else (0, s\<lparr>ss_listenFd := fd\<rparr>, [])))"

definition closeSocket :: "SpawnServer \<Rightarrow> SpawnServer \<times> int list" where
  "closeSocket s = (if ss_listenFd s \<ge> 0 then (s\<lparr>ss_listenFd := -1\<rparr>, [ss_listenFd s]) else (s, []))"

text \<open>
  The event loop. One outcome per \<open>poll\<close>: interrupted, failed, none ready, or ready with a pending
  connection (\<open>accept\<close> fails or yields a descriptor and its data) and an error flag of the socket.
  A connection that still waits blocks the loop. The result lists what was done on each accepted
  descriptor, each closed afterwards, and whether the loop ended.
\<close>

datatype poll_ev =
    P_EINTR | P_FAIL | P_ZERO
  | P_READY "(int \<times> recv_ev list) option option" bool

datatype served = Served int conn | ClosedFd int

fun run_loop :: "handler \<Rightarrow> poll_ev list \<Rightarrow> served list \<Rightarrow> (served list \<times> bool) option" where
  "run_loop h [] tr = Some (tr, False)"
| "run_loop h (P_EINTR # es) tr = run_loop h es tr"
| "run_loop h (P_FAIL # es) tr = Some (tr, True)"
| "run_loop h (P_ZERO # es) tr = run_loop h es tr"
| "run_loop h (P_READY None err # es) tr =
     (if err then Some (tr, True) else run_loop h es tr)"
| "run_loop h (P_READY (Some None) err # es) tr = run_loop h es tr"
| "run_loop h (P_READY (Some (Some (fd, evs))) err # es) tr = do {
     c \<leftarrow> handleConnection h evs;
     if c = Waiting then Some (tr @ [Served fd c], False)
     else if err then Some (tr @ [Served fd c, ClosedFd fd], True)
     else run_loop h es (tr @ [Served fd c, ClosedFd fd]) }"

definition run :: "handler \<Rightarrow> SpawnServer \<Rightarrow> poll_ev list \<Rightarrow> (served list \<times> bool) option" where
  "run h s es = (if ss_listenFd s < 0 then Some ([], True) else run_loop h es [])"

section \<open>Parsing never reads outside the message\<close>

lemmas sizeofs = sizeof_header_def sizeof_tlv_def sizeof_dac_def sizeof_response_def
  OH_APP_LEN_PROC_NAME_def OH_APP_MAX_GIDS_def OH_APP_USER_NAME_def

lemma slice_total: "i + n \<le> length b \<Longrightarrow> \<exists>s. slice b i n = Some s"
  by (simp add: slice_def)

lemma tlv_dac_total:
  assumes "p + n \<le> length data"
  shows "\<exists>msg'. tlv_dac data p n msg = Some msg'"
proof (cases "sizeof_dac \<le> n")
  case True
  then have d: "p + 332 \<le> length data" using assms by (simp add: sizeofs)
  then obtain uid gid cnt where u: "rd32 data p = Some uid" "rd32 data (p + 4) = Some gid" "rd32 data (p + 8) = Some cnt"
    using rd_total(3) [of p data] rd_total(3) [of "p + 4" data] rd_total(3) [of "p + 8" data] by auto
  define k where "k = (if unat cnt > OH_APP_MAX_GIDS then OH_APP_MAX_GIDS else unat cnt)"
  have "k \<le> 64" by (simp add: k_def OH_APP_MAX_GIDS_def)
  then obtain tab where "read_array rd32 4 data (p + 12) k = Some tab"
    using f32.array_fits [of "p + 12" k data] d by auto
  then show ?thesis using u True by (auto simp: tlv_dac_def k_def)
qed (simp add: tlv_dac_def)

lemma handle_tlv_total:
  assumes "p + n \<le> length data"
  shows "\<exists>msg'. handle_tlv t data p n msg = Some msg'"
proof -
  have "\<exists>msg'. tlv_bundle data p n msg = Some msg'"
    using slice_total [of "p + 4" "n - 4" data] assms by (auto simp: tlv_bundle_def)
  moreover have "\<exists>msg'. tlv_flags data p n msg = Some msg'"
  proof (cases "4 \<le> n")
    case True
    then obtain c where c: "rd32 data p = Some c" using rd_total(3) [of p data] assms by auto
    show ?thesis
    proof (cases "c > 0 \<and> n \<ge> 4 + unat c * 4")
      case cnt: True
      then have "1 \<le> unat c" by (simp add: word_less_nat_alt)
      with cnt have "8 \<le> n" by linarith
      then show ?thesis using c rd_total(3) [of "p + 4" data] assms by (auto simp: tlv_flags_def)
    qed (use c in \<open>auto simp: tlv_flags_def\<close>)
  qed (simp add: tlv_flags_def)
  moreover have "\<exists>msg'. tlv_domain data p n msg = Some msg'"
    using slice_total [of "p + 4" "n - 4" data] rd_total(3) [of p data] assms by (auto simp: tlv_domain_def)
  moreover have "\<exists>msg'. tlv_token data p n msg = Some msg'"
    using rd_total(4) [of p data] assms by (auto simp: tlv_token_def)
  ultimately show ?thesis using tlv_dac_total [OF assms] by (simp add: handle_tlv_def)
qed

lemma tlv_loop_total: "\<exists>r. tlv_loop data off left msg = Some r"
proof (induction left arbitrary: off msg)
  case (Suc left)
  show ?case
  proof (cases "off + sizeof_tlv \<le> length data")
    case True
    then obtain l t where r: "rd16 data off = Some l" "rd16 data (off + 2) = Some t"
      using rd_total(2) [of off data] rd_total(2) [of "off + 2" data] by (auto simp: sizeof_tlv_def)
    show ?thesis
    proof (cases "unat l < sizeof_tlv \<or> off + unat l > length data")
      case False
      then obtain msg' where "handle_tlv t data (off + sizeof_tlv) (unat l - sizeof_tlv) msg = Some msg'"
        using handle_tlv_total [of "off + sizeof_tlv" "unat l - sizeof_tlv" data] by fastforce
      then show ?thesis using Suc r True False by simp
    qed (use r True in \<open>simp del: split_paired_Ex\<close>)
  qed (simp del: split_paired_Ex)
qed (simp del: split_paired_Ex)

lemma parseOhBinary_total: "\<exists>r. parseOhBinaryMessage data msg = Some r"
proof (cases "length data < sizeof_header")
  case False
  then have d: "276 \<le> length data" by (simp add: sizeofs)
  then obtain m t i c where r: "rd32 data 0 = Some m" "rd32 data 4 = Some t" "rd32 data 12 = Some i" "rd32 data 16 = Some c"
    using rd_total(3) [of 0 data] rd_total(3) [of 4 data] rd_total(3) [of 12 data] rd_total(3) [of 16 data] by auto
  obtain nm where "slice data 20 OH_APP_LEN_PROC_NAME = Some nm"
    using slice_total [of 20 OH_APP_LEN_PROC_NAME data] d by (auto simp: sizeofs)
  moreover obtain ok msg' where "tlv_loop data sizeof_header (unat c) (msg\<lparr>sm_isOhBinary := True, sm_ohMsgId := i,
      sm_code := sint t, sm_procName := chars (strn OH_APP_LEN_PROC_NAME nm)\<rparr>) = Some (ok, msg')"
    using tlv_loop_total by (metis surj_pair)
  ultimately show ?thesis using r False by (auto simp: parseOhBinaryMessage_def Let_def)
qed (simp add: parseOhBinaryMessage_def del: split_paired_Ex)

lemma parseMessage_result:
  "\<exists>ok msg'. parseMessage data msg = Some (ok, msg') \<and> (ok \<longrightarrow> sm_procName msg' \<noteq> [])"
proof -
  have "ok \<longrightarrow> sm_procName msg' \<noteq> []" if "parseMessage data msg = Some (ok, msg')" for ok msg'
    using that by (auto simp: parseMessage_def parseOhBinaryMessage_def parse_text_def Let_def bind_eq_Some_conv
        split: if_splits)
  moreover have "\<exists>ok msg'. parseMessage data msg = Some (ok, msg')"
    using parseOhBinary_total [of data msg] rd_total(3) [of 0 data] by (auto simp: parseMessage_def)
  ultimately show ?thesis by blast
qed

section \<open>One request, one response\<close>

definition reports_success :: "response \<Rightarrow> bool" where
  "reports_success r = (case r of TextResponse pid rc \<Rightarrow> rc = 0 | BinaryResponse bs \<Rightarrow> rd32 bs 276 = Some 0)"

lemma length_name_field [simp]: "length (name_field s) = 256"
proof -
  have "length (strn (OH_APP_LEN_PROC_NAME - 1) (bytes_of s)) \<le> 255"
    using length_strn [of 255] by (simp add: OH_APP_LEN_PROC_NAME_def)
  then show ?thesis by (simp add: name_field_def Let_def OH_APP_LEN_PROC_NAME_def)
qed

lemma oh_response_fields:
  "length (oh_response i nm pid rc) = sizeof_response"
  "rd32 (oh_response i nm pid rc) 8 = Some 300"
  "rd32 (oh_response i nm pid rc) 12 = Some i"
  "rd32 (oh_response i nm pid rc) 276 = Some (word_of_int rc)"
  "rd32 (oh_response i nm pid rc) 280 = Some (word_of_int pid)"
  by (simp_all add: oh_response_def int32_bytes_def rd_simps sizeofs)

lemma reports_success_simps [simp]:
  "reports_success (sendOhBinaryResponse i nm pid (- 1)) = False"
  "reports_success (sendOhBinaryResponse i nm pid 0) = True"
  "reports_success (sendResult pid rc) \<longleftrightarrow> rc = 0"
  by (simp_all add: reports_success_def sendOhBinaryResponse_def sendResult_def oh_response_fields)

definition conn_ok :: "handler \<Rightarrow> conn \<Rightarrow> bool" where
  "conn_ok h c \<longleftrightarrow> (case c of Waiting \<Rightarrow> True
     | Finished calls rs \<Rightarrow> (\<exists>r. rs = [r] \<and> (reports_success r \<longleftrightarrow> (\<exists>f m. h = Some f \<and> calls = [m] \<and> f m > 0)))
         \<and> length calls \<le> 1 \<and> list_all (\<lambda>m. sm_procName m \<noteq> []) calls)"

lemma dispatch_ok: "sm_procName m \<noteq> [] \<Longrightarrow> conn_ok h (dispatch h m)"
  by (auto simp: dispatch_def conn_ok_def Let_def split: option.splits)

lemma parse_and_dispatch_ok:
  assumes "b \<longrightarrow> 276 \<le> length buf"
  shows "\<exists>c. parse_and_dispatch h b buf = Some c \<and> conn_ok h c"
proof -
  obtain ok m where p: "parseMessage buf new_SpawnMsg = Some (ok, m)" "ok \<longrightarrow> sm_procName m \<noteq> []"
    using parseMessage_result [of buf new_SpawnMsg] by blast
  moreover obtain i where "b \<longrightarrow> rd32 buf 12 = Some i"
    using rd_total(3) [of 12 buf] assms by (cases b) fastforce+
  ultimately show ?thesis
    using dispatch_ok [of m h] by (cases ok) (auto simp: parse_and_dispatch_def conn_ok_def)
qed

lemma recvAll_length:
  "recvAll evs n buf = Some (True, buf', evs') \<Longrightarrow> length buf' = length buf + n"
  by (induction evs n buf rule: recvAll.induct) (auto split: if_splits)

lemma handleConnection_ok:
  "\<exists>c. handleConnection h evs = Some c \<and> conn_ok h c"
proof -
  have bad: "conn_ok h (Finished [] [sendResult (-1) (-1)])" "conn_ok h Waiting"
    "conn_ok h (Finished [] [sendOhBinaryResponse i [] (-1) (-1)])" for i
    by (simp_all add: conn_ok_def)
  have leg: "\<exists>c. handle_legacy h probe evs = Some c \<and> conn_ok h c" for probe evs
    using bad parse_and_dispatch_ok [of False] by (auto simp: handle_legacy_def Let_def split: option.splits bool.splits)
  have bin: "\<exists>c. handle_binary h probe evs = Some c \<and> conn_ok h c" if p: "length probe = 4" for probe evs
  proof (cases "recvAll evs (sizeof_header - 4) probe")
    case (Some r)
    obtain ok buf evs' where r: "r = (ok, buf, evs')" by (cases r)
    show ?thesis
    proof (cases ok)
      case True
      have len: "length buf = 276" using recvAll_length [of evs _ probe buf evs'] Some r True p by (simp add: sizeofs)
      obtain ml mi where m: "rd32 buf 8 = Some ml" "rd32 buf 12 = Some mi"
        using rd_total(3) [of 8 buf] rd_total(3) [of 12 buf] len by auto
      have pd: "\<exists>c. parse_and_dispatch h True b = Some c \<and> conn_ok h c" if "276 \<le> length b" for b
        using that parse_and_dispatch_ok [of True b] by simp
      have "\<exists>c. (case recvAll evs' k buf of None \<Rightarrow> Some Waiting
                | Some (False, _, _) \<Rightarrow> Some (Finished [] [sendOhBinaryResponse mi [] (-1) (-1)])
                | Some (True, buffer, _) \<Rightarrow> parse_and_dispatch h True buffer) = Some c \<and> conn_ok h c" for k
        using bad pd recvAll_length [of evs' k buf] len by (auto split: option.splits bool.splits)
      then show ?thesis
        using Some r True m bad pd [of buf] len by (simp add: handle_binary_def Let_def)
    qed (use Some r bad in \<open>simp add: handle_binary_def\<close>)
  qed (use bad in \<open>simp add: handle_binary_def\<close>)
  show ?thesis
  proof (cases "recv_waitall evs 4 []")
    case (Some r)
    obtain buf evs' where r: "r = (buf, evs')" by (cases r)
    show ?thesis
    proof (cases "length buf = 4")
      case True
      then obtain pr where "rd32 buf 0 = Some pr" using rd_total(3) [of 0 buf] by auto
      then show ?thesis using Some r True bin leg by (simp add: handleConnection_def)
    qed (use Some r bad in \<open>simp add: handleConnection_def\<close>)
  qed (use bad in \<open>simp add: handleConnection_def\<close>)
qed



definition msg_ok :: "SpawnMsg \<Rightarrow> bool" where
  "msg_ok m \<longleftrightarrow> int32 (sm_code m) \<and> int32 (sm_uid m) \<and> int32 (sm_gid m) \<and> list_all int32 (sm_gids m)
     \<and> int32 (sm_targetSdkVersion m)"

lemma to_int32_range [simp]: "int32 (to_int32 i)"
  by (simp add: to_int32_def)

lemma handle_tlv_ok: "handle_tlv t data p n m = Some m' \<Longrightarrow> msg_ok m \<Longrightarrow> msg_ok m'"
  by (auto simp: handle_tlv_def tlv_bundle_def tlv_flags_def tlv_dac_def tlv_domain_def tlv_token_def Let_def
      msg_ok_def bind_eq_Some_conv list_all_iff split: if_splits)

lemma tlv_loop_ok: "tlv_loop data off left m = Some (ok, m') \<Longrightarrow> msg_ok m \<Longrightarrow> msg_ok m'"
  by (induction data off left m rule: tlv_loop.induct)
     (auto simp: bind_eq_Some_conv split: if_splits dest: handle_tlv_ok)

lemma getInt_range: "int32 d \<Longrightarrow> int32 (getInt text key d)"
  by (simp add: getInt_def Let_def)

lemma parse_gids_range: "list_all int32 (parse_gids s)"
  by (induction s rule: parse_gids.induct) (subst parse_gids.simps, auto simp: Let_def)

lemma parse_text_ok: "parse_text t m = (ok, m') \<Longrightarrow> msg_ok m \<Longrightarrow> msg_ok m'"
  using parse_gids_range [of "getValue t ''gids''"]
  by (auto simp: parse_text_def Let_def msg_ok_def MSG_APP_SPAWN_def getInt_range split: if_splits)

lemma parseMessage_ok:
  assumes "parseMessage data m = Some (ok, m')" "msg_ok m"
  shows "msg_ok m'"
proof -
  have "msg_ok m'" if "parseOhBinaryMessage data m = Some (ok, m')"
    using that assms(2)
    by (auto simp: parseOhBinaryMessage_def Let_def bind_eq_Some_conv split: if_splits)
       (auto dest!: tlv_loop_ok simp: msg_ok_def)
  then show ?thesis
    using assms by (auto simp: parseMessage_def bind_eq_Some_conv dest: parse_text_ok split: if_splits)
qed

text \<open>
  C21 (parseMessage_safe): for any bytes the message parser returns without reading outside them,
  every integer field of the result is in the range of \<open>int32_t\<close>, and a message
  without a process name is rejected.
\<close>

theorem parseMessage_safe:
  "\<exists>ok m. parseMessage data new_SpawnMsg = Some (ok, m) \<and> msg_ok m \<and> (sm_procName m = [] \<longrightarrow> \<not> ok)"
proof -
  obtain ok m where p: "parseMessage data new_SpawnMsg = Some (ok, m)" "ok \<longrightarrow> sm_procName m \<noteq> []"
    using parseMessage_result [of data new_SpawnMsg] by blast
  moreover have "msg_ok new_SpawnMsg" by (simp add: msg_ok_def new_SpawnMsg_def)
  ultimately show ?thesis using parseMessage_ok by blast
qed

theorem parseMessage_safe_witness:
  "\<exists>ok m. parseMessage [0x34, 0x12, 0x20, 0xEF] new_SpawnMsg = Some (ok, m) \<and> msg_ok m \<and> sm_procName m = [] \<and> \<not> ok"
proof -
  have p: "parseMessage [0x34, 0x12, 0x20, 0xEF] new_SpawnMsg = Some (False, new_SpawnMsg)" by code_simp
  then show ?thesis using parseMessage_safe [of "[0x34, 0x12, 0x20, 0xEF]"] by (auto simp: new_SpawnMsg_def)
qed

section \<open>How the data is cut into packets does not matter\<close>

definition chunks :: "bytes list \<Rightarrow> recv_ev list" where
  "chunks bss = map RData bss"

definition packets :: "bytes list \<Rightarrow> bool" where
  "packets bss \<longleftrightarrow> list_all (\<lambda>b. b \<noteq> []) bss"

lemma recvAll_short: "packets bss \<Longrightarrow> length (concat bss) < n \<Longrightarrow> recvAll (chunks bss) n buf = None"
proof (induction bss arbitrary: n buf)
  case Nil
  then show ?case by (cases n) (simp_all add: chunks_def)
next
  case (Cons b bss)
  then show ?case by (cases n) (auto simp: chunks_def packets_def)
qed

lemma recvAll_enough:
  "packets bss \<Longrightarrow> n \<le> length (concat bss) \<Longrightarrow> \<exists>bss'. packets bss' \<and> concat bss' = drop n (concat bss)
     \<and> recvAll (chunks bss) n buf = Some (True, buf @ take n (concat bss), chunks bss')"
proof (induction bss arbitrary: n buf)
  case (Cons b bss)
  show ?case
  proof (cases "n = 0 \<or> length b < n")
    case True
    then show ?thesis
    proof
      assume "n = 0"
      then show ?thesis using Cons.prems by (intro exI [of _ "b # bss"]) (simp add: chunks_def)
    next
      assume n: "length b < n"
      then have "n - length b \<le> length (concat bss)" "packets bss" using Cons.prems by (auto simp: packets_def)
      then obtain bss' where "packets bss'" "concat bss' = drop (n - length b) (concat bss)"
        "recvAll (chunks bss) (n - length b) (buf @ b) = Some (True, (buf @ b) @ take (n - length b) (concat bss), chunks bss')"
        using Cons.IH [of "n - length b" "buf @ b"] by blast
      moreover have "recvAll (chunks (b # bss)) n buf = recvAll (chunks bss) (n - length b) (buf @ b)"
        using n Cons.prems(1) by (cases n) (simp_all add: chunks_def packets_def)
      ultimately show ?thesis using n by (intro exI [of _ bss']) simp
    qed
  next
    case False
    show ?thesis
    proof (cases "length b = n")
      case True
      with False Cons.prems show ?thesis
        by (intro exI [of _ bss], cases n) (auto simp: chunks_def packets_def)
    next
      case lt: False
      with False Cons.prems show ?thesis
        by (intro exI [of _ "drop n b # bss"], cases n) (auto simp: chunks_def packets_def)
    qed
  qed
qed (auto simp: chunks_def packets_def)

lemma recv_waitall_chunks:
  "packets bss \<Longrightarrow> recv_waitall (chunks bss) n buf =
     map_option (\<lambda>(ok, b, evs). (b, evs)) (recvAll (chunks bss) n buf)"
proof (induction bss arbitrary: n buf)
  case Nil
  then show ?case by (cases n) (simp_all add: chunks_def)
next
  case (Cons b bss)
  then show ?case by (cases n) (auto simp: chunks_def packets_def)
qed

text \<open>
  C38 (connection_chunking): how the peer's data is cut into packets does not matter: two sequences
  of non-empty packets with the same bytes lead to the same requests and responses.
\<close>

theorem connection_chunking:
  assumes "list_all (\<lambda>b. b \<noteq> []) bss" "list_all (\<lambda>b. b \<noteq> []) bss'" "concat bss = concat bss'"
  shows "handleConnection h (map RData bss) = handleConnection h (map RData bss')"
proof -
  have p: "packets bss" "packets bss'" using assms by (simp_all add: packets_def)
  have recv: "recvAll (chunks cs) n buf = recvAll (chunks ds) n buf \<or>
      (\<exists>cs' ds'. packets cs' \<and> packets ds' \<and> concat cs' = concat ds'
        \<and> recvAll (chunks cs) n buf = Some (True, buf @ take n (concat cs), chunks cs')
        \<and> recvAll (chunks ds) n buf = Some (True, buf @ take n (concat cs), chunks ds'))"
    if "packets cs" "packets ds" "concat cs = concat ds" for cs ds n buf
  proof (cases "n \<le> length (concat cs)")
    case True
    then show ?thesis
      using recvAll_enough [OF that(1) True, of buf] recvAll_enough [OF that(2), of n buf] that(3) by fastforce
  qed (use that recvAll_short in auto)
  have leg: "handle_legacy h probe (chunks cs) = handle_legacy h probe (chunks ds)"
    if "packets cs" "packets ds" "concat cs = concat ds" for cs ds probe
    using recv [OF that, of "unat probe" "[]"] by (auto simp: handle_legacy_def Let_def)
  have body: "(case recvAll (chunks cs) k b of None \<Rightarrow> Some Waiting
                | Some (False, _, _) \<Rightarrow> Some (Finished [] [r])
                | Some (True, buffer, _) \<Rightarrow> parse_and_dispatch h True buffer)
      = (case recvAll (chunks ds) k b of None \<Rightarrow> Some Waiting
                | Some (False, _, _) \<Rightarrow> Some (Finished [] [r])
                | Some (True, buffer, _) \<Rightarrow> parse_and_dispatch h True buffer)"
    if "packets cs" "packets ds" "concat cs = concat ds" for cs ds k b r
    using recv [OF that, of k b] by auto
  have bin: "handle_binary h probe (chunks cs) = handle_binary h probe (chunks ds)"
    if q: "packets cs" "packets ds" "concat cs = concat ds" for cs ds probe
    using recv [OF q, of "sizeof_header - 4" probe]
  proof
    assume "\<exists>cs' ds'. packets cs' \<and> packets ds' \<and> concat cs' = concat ds'
        \<and> recvAll (chunks cs) (sizeof_header - 4) probe = Some (True, probe @ take (sizeof_header - 4) (concat cs), chunks cs')
        \<and> recvAll (chunks ds) (sizeof_header - 4) probe = Some (True, probe @ take (sizeof_header - 4) (concat cs), chunks ds')"
    then obtain cs' ds' where "packets cs'" "packets ds'" "concat cs' = concat ds'" and
      r: "recvAll (chunks cs) (sizeof_header - 4) probe = Some (True, probe @ take (sizeof_header - 4) (concat cs), chunks cs')"
         "recvAll (chunks ds) (sizeof_header - 4) probe = Some (True, probe @ take (sizeof_header - 4) (concat cs), chunks ds')"
      by blast
    note b = body [OF this(1-3)]
    show ?thesis unfolding handle_binary_def r option.case prod.case bool.case Let_def b ..
  qed (simp add: handle_binary_def)
  have "handleConnection h (chunks bss) = handleConnection h (chunks bss')"
    using recv [OF p assms(3), of 4 "[]"]
  proof
    assume "\<exists>cs' ds'. packets cs' \<and> packets ds' \<and> concat cs' = concat ds'
        \<and> recvAll (chunks bss) 4 [] = Some (True, [] @ take 4 (concat bss), chunks cs')
        \<and> recvAll (chunks bss') 4 [] = Some (True, [] @ take 4 (concat bss), chunks ds')"
    then obtain cs' ds' where "packets cs'" "packets ds'" "concat cs' = concat ds'" and
      r: "recvAll (chunks bss) 4 [] = Some (True, take 4 (concat bss), chunks cs')"
         "recvAll (chunks bss') 4 [] = Some (True, take 4 (concat bss), chunks ds')"
      by auto
    note b = bin [OF this(1-3)] leg [OF this(1-3)]
    show ?thesis
      unfolding handleConnection_def recv_waitall_chunks [OF p(1)] recv_waitall_chunks [OF p(2)] r
        option.map prod.case option.case b ..
  qed (simp add: handleConnection_def recv_waitall_chunks p)
  then show ?thesis by (simp add: chunks_def)
qed

theorem connection_chunking_witness:
  "handleConnection None [RData [0, 0], RData [0, 0]] = handleConnection None [RData [0, 0, 0, 0]]"
  using connection_chunking [of "[[0, 0], [0, 0]]" "[[0, 0, 0, 0]]" None] by simp

section \<open>Reference encoder of the binary format\<close>

datatype tlv_item =
    TBundle u32 string nat
  | TFlags "u32 list"
  | TDac u32 u32 "u32 list" bytes
  | TDomain u32 string nat
  | TToken u64
  | TOther u16 bytes

fun tlv_type :: "tlv_item \<Rightarrow> u16" where
  "tlv_type (TBundle i s pad) = OH_TLV_BUNDLE_INFO"
| "tlv_type (TFlags fs) = OH_TLV_MSG_FLAGS"
| "tlv_type (TDac u g gs tail) = OH_TLV_DAC_INFO"
| "tlv_type (TDomain h s pad) = OH_TLV_DOMAIN_INFO"
| "tlv_type (TToken t) = OH_TLV_ACCESS_TOKEN_INFO"
| "tlv_type (TOther t bs) = t"

text \<open>Strings are terminated and padded with zeros; the tail of a DAC record is the unused part of
  the group table and the user name.\<close>

fun tlv_payload :: "tlv_item \<Rightarrow> bytes" where
  "tlv_payload (TBundle i s pad) = put32 i @ bytes_of s @ 0 # replicate pad 0"
| "tlv_payload (TFlags fs) = put32 (word_of_nat (length fs)) @ concat (map put32 fs)"
| "tlv_payload (TDac u g gs tail) = put32 u @ put32 g @ put32 (word_of_nat (length gs)) @ concat (map put32 gs) @ tail"
| "tlv_payload (TDomain h s pad) = put32 h @ bytes_of s @ 0 # replicate pad 0"
| "tlv_payload (TToken t) = put64 t"
| "tlv_payload (TOther t bs) = bs"

fun tlv_item_ok :: "tlv_item \<Rightarrow> bool" where
  "tlv_item_ok (TBundle i s pad) \<longleftrightarrow> 0 \<notin> set (bytes_of s)"
| "tlv_item_ok (TFlags fs) \<longleftrightarrow> fs \<noteq> []"
| "tlv_item_ok (TDac u g gs tail) \<longleftrightarrow> length gs \<le> OH_APP_MAX_GIDS
     \<and> length tail = 4 * (OH_APP_MAX_GIDS - length gs) + OH_APP_USER_NAME"
| "tlv_item_ok (TDomain h s pad) \<longleftrightarrow> 0 \<notin> set (bytes_of s)"
| "tlv_item_ok (TToken t) \<longleftrightarrow> True"
| "tlv_item_ok (TOther t bs) \<longleftrightarrow> t \<notin> {OH_TLV_BUNDLE_INFO, OH_TLV_MSG_FLAGS, OH_TLV_DAC_INFO,
     OH_TLV_DOMAIN_INFO, OH_TLV_ACCESS_TOKEN_INFO}"

fun tlv_effect :: "tlv_item \<Rightarrow> SpawnMsg \<Rightarrow> SpawnMsg" where
  "tlv_effect (TBundle i s pad) m = m\<lparr>sm_bundleName := s\<rparr>"
| "tlv_effect (TFlags fs) m = m\<lparr>sm_flags := ucast (hd fs)\<rparr>"
| "tlv_effect (TDac u g gs tail) m = m\<lparr>sm_uid := sint u, sm_gid := sint g, sm_gids := sm_gids m @ map sint gs\<rparr>"
| "tlv_effect (TDomain h s pad) m = m\<lparr>sm_hapFlags := h, sm_apl := s\<rparr>"
| "tlv_effect (TToken t) m = m\<lparr>sm_accessTokenIdEx := t\<rparr>"
| "tlv_effect (TOther t bs) m = m"

definition enc_tlv :: "tlv_item \<Rightarrow> bytes" where
  "enc_tlv x = put16 (word_of_nat (4 + length (tlv_payload x))) @ put16 (tlv_type x) @ tlv_payload x"

definition enc_request :: "u32 \<Rightarrow> u32 \<Rightarrow> string \<Rightarrow> tlv_item list \<Rightarrow> bytes" where
  "enc_request msgType msgId nm xs =
     (let body = concat (map enc_tlv xs) in
      put32 OH_SPAWN_MSG_MAGIC @ put32 msgType @ put32 (word_of_nat (sizeof_header + length body))
      @ put32 msgId @ put32 (word_of_nat (length xs))
      @ bytes_of nm @ replicate (OH_APP_LEN_PROC_NAME - length nm) 0 @ body)"

lemma tlv_types_distinct:
  "OH_TLV_BUNDLE_INFO \<noteq> OH_TLV_MSG_FLAGS" "OH_TLV_BUNDLE_INFO \<noteq> OH_TLV_DAC_INFO"
  "OH_TLV_BUNDLE_INFO \<noteq> OH_TLV_DOMAIN_INFO" "OH_TLV_BUNDLE_INFO \<noteq> OH_TLV_ACCESS_TOKEN_INFO"
  "OH_TLV_MSG_FLAGS \<noteq> OH_TLV_DAC_INFO" "OH_TLV_MSG_FLAGS \<noteq> OH_TLV_DOMAIN_INFO"
  "OH_TLV_MSG_FLAGS \<noteq> OH_TLV_ACCESS_TOKEN_INFO" "OH_TLV_DAC_INFO \<noteq> OH_TLV_DOMAIN_INFO"
  "OH_TLV_DAC_INFO \<noteq> OH_TLV_ACCESS_TOKEN_INFO" "OH_TLV_DOMAIN_INFO \<noteq> OH_TLV_ACCESS_TOKEN_INFO"
  by (simp_all add: oh_consts)

lemma length_puts32 [simp]: "length (concat (map put32 xs)) = 4 * length xs"
  by (induction xs) simp_all

lemma strn_field:
  assumes "0 \<notin> set (bytes_of s)"
  shows "strn (Suc (length s + pad)) (bytes_of s @ 0 # replicate pad 0) = bytes_of s"
  using assms by (intro strn_closed) simp_all

lemma handle_tlv_enc:
  assumes "tlv_item_ok x" "data = pre @ tlv_payload x @ post" "length (tlv_payload x) < 2 ^ 16"
  shows "handle_tlv (tlv_type x) data (length pre) (length (tlv_payload x)) m = Some (tlv_effect x m)"
proof (cases x)
  case (TBundle i s pad)
  have "slice data (length pre + 4) (Suc (length s + pad)) = Some (bytes_of s @ 0 # replicate pad 0)"
    unfolding assms(2) slice_shift using TBundle by (simp add: slice_def)
  then show ?thesis
    using TBundle assms(1) strn_field [of s pad] by (simp add: handle_tlv_def tlv_bundle_def)
next
  case (TFlags fs)
  then obtain f fs' where fs: "fs = f # fs'" using assms(1) by (cases fs) auto
  have l: "length fs < 2 ^ 32" "unat (word_of_nat (length fs) :: u32) = length fs"
    using assms(3) TFlags by (simp_all add: unat_of_nat32)
  have r: "rd32 data (length pre) = Some (word_of_nat (length fs))" "rd32 data (length pre + 4) = Some f"
    using rd_shift(3) [of pre _ 0] unfolding assms(2) rd_shift using TFlags fs by (simp_all add: rd_simps del: of_nat_Suc)
  have "(0 :: u32) < word_of_nat (length fs)" using l fs by (simp add: word_less_nat_alt)
  then show ?thesis
    using r l TFlags fs tlv_types_distinct unfolding handle_tlv_def tlv_type.simps
    by (simp add: tlv_flags_def del: of_nat_Suc)
next
  case (TDac u g gs tail)
  have n: "length gs \<le> 64" "length tail = 4 * (64 - length gs) + 64" using assms(1) TDac by (simp_all add: oh_consts)
  then have l: "unat (word_of_nat (length gs) :: u32) = length gs" by (simp add: unat_of_nat32)
  have r: "rd32 data (length pre) = Some u" "rd32 data (length pre + 4) = Some g"
    "rd32 data (length pre + 8) = Some (word_of_nat (length gs))"
    using rd_shift(3) [of pre _ 0] unfolding assms(2) rd_shift using TDac by (simp_all add: rd_simps)
  have "data = (pre @ put32 u @ put32 g @ put32 (word_of_nat (length gs))) @ concat (map put32 gs) @ (tail @ post)"
    using assms(2) TDac by simp
  then have a: "read_array rd32 4 data (length pre + 12) (length gs) = Some gs"
    using f32.array_at [of "pre @ put32 u @ put32 g @ put32 (word_of_nat (length gs))" gs "tail @ post"] by simp
  show ?thesis
    using r l a n TDac tlv_types_distinct unfolding handle_tlv_def tlv_type.simps
    by (simp add: tlv_dac_def sizeofs)
next
  case (TDomain h s pad)
  have "slice data (length pre + 4) (Suc (length s + pad)) = Some (bytes_of s @ 0 # replicate pad 0)"
    unfolding assms(2) slice_shift using TDomain by (simp add: slice_def)
  moreover have "rd32 data (length pre) = Some h"
    using rd_shift(3) [of pre _ 0] unfolding assms(2) using TDomain by (simp add: rd_simps)
  ultimately show ?thesis
    using TDomain assms(1) strn_field [of s pad] tlv_types_distinct unfolding handle_tlv_def tlv_type.simps
    by (simp add: tlv_domain_def)
next
  case (TToken t)
  have "rd64 data (length pre) = Some t"
    using rd64_shift [of pre _ 0] unfolding assms(2) using TToken by (simp add: rd_simps)
  then show ?thesis
    using TToken tlv_types_distinct unfolding handle_tlv_def tlv_type.simps by (simp add: tlv_token_def)
next
  case (TOther t bs)
  then show ?thesis using assms(1) by (simp add: handle_tlv_def)
qed

lemma tlv_loop_enc:
  assumes "list_all tlv_item_ok xs" "list_all (\<lambda>x. 4 + length (tlv_payload x) < 2 ^ 16) xs"
    "data = pre @ concat (map enc_tlv xs)"
  shows "tlv_loop data (length pre) (length xs) m = Some (True, fold tlv_effect xs m)"
  using assms
proof (induction xs arbitrary: pre m)
  case (Cons x xs)
  let ?l = "4 + length (tlv_payload x)"
  have l: "unat (word_of_nat ?l :: u16) = ?l" using Cons.prems(2) by (intro unat_of_nat16) simp
  have data: "data = (pre @ put16 (word_of_nat ?l) @ put16 (tlv_type x)) @ tlv_payload x @ concat (map enc_tlv xs)"
    using Cons.prems(3) by (simp add: enc_tlv_def [of x])
  have r: "rd16 data (length pre) = Some (word_of_nat ?l)" "rd16 data (length pre + 2) = Some (tlv_type x)"
    using rd_shift(2) [of pre _ 0] Cons.prems(3) unfolding enc_tlv_def
    by (simp_all only: rd_shift list.map concat.simps append_assoc add_0_right)
       (simp_all add: rd_simps del: of_nat_add of_nat_numeral)
  have h: "handle_tlv (tlv_type x) data (length pre + 4) (length (tlv_payload x)) m = Some (tlv_effect x m)"
    using handle_tlv_enc [OF _ data, of m] Cons.prems by simp
  have nxt: "tlv_loop data (length (pre @ enc_tlv x)) (length xs) (tlv_effect x m)
      = Some (True, fold tlv_effect xs (tlv_effect x m))"
    using Cons.prems by (intro Cons.IH) simp_all
  have len: "length pre + 4 \<le> length data" "length pre + ?l \<le> length data"
    "length (pre @ enc_tlv x) = length pre + ?l"
    using arg_cong [OF data, of length] by (simp_all add: enc_tlv_def)
  show ?case
    using r h nxt len unfolding list.size add_Suc_right add_0_right tlv_loop.simps sizeof_tlv_def
    by (simp add: l del: of_nat_add of_nat_numeral)
qed simp

text \<open>
  C9 (tlv_request_roundtrip): parsing a binary request inverts encoding it: the result is the
  header fields and the process name, updated by every TLV in order (bundle name, first flag word,
  user, group and supplementary groups, domain, access token); TLVs of other types are skipped.
  Repeated DAC records accumulate their groups.
\<close>

theorem tlv_request_roundtrip:
  assumes "list_all tlv_item_ok xs" "list_all (\<lambda>x. 4 + length (tlv_payload x) < 2 ^ 16) xs"
    and "length xs < 2 ^ 32" "0 \<notin> set (bytes_of nm)" "nm \<noteq> []" "length nm \<le> OH_APP_LEN_PROC_NAME"
  shows "parseMessage (enc_request msgType msgId nm xs) new_SpawnMsg =
    Some (True, fold tlv_effect xs (new_SpawnMsg\<lparr>sm_isOhBinary := True, sm_ohMsgId := msgId,
       sm_code := sint msgType, sm_procName := nm\<rparr>))"
proof -
  define body where "body = concat (map enc_tlv xs)"
  define name where "name = bytes_of nm @ replicate (OH_APP_LEN_PROC_NAME - length nm) 0"
  define hdr where "hdr = put32 OH_SPAWN_MSG_MAGIC @ put32 msgType @ put32 (word_of_nat (sizeof_header + length body))
      @ put32 msgId @ put32 (word_of_nat (length xs))"
  define data where "data = enc_request msgType msgId nm xs"
  have data: "data = hdr @ name @ body"
    by (simp add: data_def enc_request_def hdr_def name_def body_def Let_def)
  have nl: "length name = 256" "length hdr = 20"
    using assms(6) by (simp_all add: name_def hdr_def OH_APP_LEN_PROC_NAME_def)
  have r: "rd32 data 0 = Some OH_SPAWN_MSG_MAGIC" "rd32 data 4 = Some msgType" "rd32 data 12 = Some msgId"
    "rd32 data 16 = Some (word_of_nat (length xs))"
    unfolding data hdr_def by (simp_all add: rd_simps del: of_nat_add)
  have s: "slice data 20 OH_APP_LEN_PROC_NAME = Some name"
    unfolding data using slice_shift [of hdr "name @ body" 0] nl
    by (simp add: OH_APP_LEN_PROC_NAME_def rd_simps)
  have n: "strn OH_APP_LEN_PROC_NAME name = bytes_of nm"
    unfolding name_def using assms(4,6) by (intro strn_padded) simp_all
  let ?m = "new_SpawnMsg\<lparr>sm_isOhBinary := True, sm_ohMsgId := msgId, sm_code := sint msgType, sm_procName := nm\<rparr>"
  have "tlv_loop data (length (hdr @ name)) (length xs) ?m = Some (True, fold tlv_effect xs ?m)"
    using assms(1,2) by (rule tlv_loop_enc) (simp add: data body_def)
  then have loop: "tlv_loop data sizeof_header (unat (word_of_nat (length xs) :: u32)) ?m = Some (True, fold tlv_effect xs ?m)"
    using nl assms(3) by (simp add: sizeofs unat_of_nat32)
  have "sm_procName (fold tlv_effect xs m) = sm_procName m" for m
  proof (induction xs arbitrary: m)
    case (Cons x xs)
    then show ?case by (cases x) simp_all
  qed simp
  then have "sm_procName (fold tlv_effect xs ?m) \<noteq> []" using assms(5) by simp
  moreover have "sizeof_header \<le> length data" using nl by (simp add: data sizeofs)
  ultimately have "parseOhBinaryMessage data new_SpawnMsg = Some (True, fold tlv_effect xs ?m)"
    using r s n loop by (simp add: parseOhBinaryMessage_def Let_def del: of_nat_add)
  moreover have "4 \<le> length data" using nl by (simp add: data)
  ultimately show ?thesis using r(1) by (simp add: parseMessage_def data_def)
qed

definition sample_items :: "tlv_item list" where
  "sample_items = [TBundle 0 ''com.a'' 2, TDac 10042 10042 [1003] (replicate 316 0), TToken 7, TOther 9 [1]]"

theorem tlv_request_roundtrip_witness:
  "parseMessage (enc_request 0 5 ''com.a'' sample_items) new_SpawnMsg =
     Some (True, new_SpawnMsg\<lparr>sm_isOhBinary := True, sm_ohMsgId := 5, sm_code := 0, sm_procName := ''com.a'',
       sm_bundleName := ''com.a'', sm_uid := 10042, sm_gid := 10042, sm_gids := [1003], sm_accessTokenIdEx := 7\<rparr>)"
  using tlv_request_roundtrip [of sample_items "''com.a''" 0 5]
  by (simp add: sample_items_def oh_consts bytes_of_def new_SpawnMsg_def)

section \<open>The response\<close>

text \<open>
  Fact (oh_response_layout): the binary response has 300 bytes, echoes the request's message id,
  carries result and pid, and its name field is the process name cut at 255 bytes and always
  terminated.
\<close>

theorem oh_response_layout:
  "length (oh_response i nm pid rc) = 300 \<and> rd32 (oh_response i nm pid rc) 12 = Some i
   \<and> rd32 (oh_response i nm pid rc) 276 = Some (word_of_int rc)
   \<and> rd32 (oh_response i nm pid rc) 280 = Some (word_of_int pid)
   \<and> (\<exists>field. slice (oh_response i nm pid rc) 20 256 = Some field \<and> last field = 0
        \<and> strn 256 field = strn 255 (bytes_of nm))"
proof -
  define s where "s = strn 255 (bytes_of nm)"
  have s: "0 \<notin> set s" "length s \<le> 255" using strn_no_nul length_strn by (simp_all add: s_def)
  have f: "name_field nm = s @ replicate (256 - length s) 0"
    by (simp add: name_field_def s_def OH_APP_LEN_PROC_NAME_def Let_def)
  have "slice (oh_response i nm pid rc) 20 256 = Some (name_field nm)"
    unfolding oh_response_def by (simp add: rd_simps)
  moreover have "last (name_field nm) = 0" using s(2) by (simp add: f)
  moreover have "strn 256 (name_field nm) = s" using s by (simp add: f strn_padded)
  ultimately show ?thesis
    using oh_response_fields [of i nm pid rc] by (auto simp: s_def sizeofs)
qed

section \<open>The text format is not anchored at line starts\<close>

text \<open>
  Fact (text_uid_injection): a key is looked up anywhere in the text, not only at the start of a
  line, so that a value can supply another field: a bundle name containing \<open>uid=0\<close>
  overrides the user id of the \<open>uid\<close> line after it.
\<close>

theorem text_uid_injection:
  "parseMessage (bytes_of (''procName=a'' @ CHR 0x0A # ''bundleName=x uid=0'' @ CHR 0x0A # ''uid=10042'')) new_SpawnMsg
     = Some (True, new_SpawnMsg\<lparr>sm_procName := ''a'', sm_bundleName := ''x uid=0'', sm_uid := 0\<rparr>)"
  by code_simp


section \<open>The server loop\<close>

text \<open>
  Fact (createListenSocket_states): creating the listening socket succeeds exactly when a descriptor
  is kept; on failure the descriptor that was created is closed, and \<open>closeSocket\<close>
  afterwards closes the kept one and nothing else.
\<close>

theorem createListenSocket_states:
  assumes "createListenSocket e s = (rc, s', closed)"
  shows "(rc = 0 \<longleftrightarrow> ss_listenFd s' \<ge> 0)
    \<and> closed = (if rc \<noteq> 0 \<and> le_socket e \<ge> 0 then [le_socket e] else [])
    \<and> snd (closeSocket s') = (if rc = 0 then [ss_listenFd s'] else [])"
  using assms by (auto simp: createListenSocket_def closeSocket_def Let_def split: option.splits if_splits)

theorem createListenSocket_states_witness:
  "createListenSocket \<lparr>le_getenv = (\<lambda>k. None), le_socket = 5, le_bind = False, le_listen = True\<rparr>
     (new_SpawnServer ''AppSpawnX'') = (-1, new_SpawnServer ''AppSpawnX'', [5])
   \<and> snd (closeSocket (new_SpawnServer ''AppSpawnX'')) = []"
proof -
  have "createListenSocket \<lparr>le_getenv = (\<lambda>k. None), le_socket = 5, le_bind = False, le_listen = True\<rparr>
     (new_SpawnServer ''AppSpawnX'') = (-1, new_SpawnServer ''AppSpawnX'', [5])"
    by (simp add: createListenSocket_def new_SpawnServer_def Let_def sun_path_size_def)
  then show ?thesis using createListenSocket_states by fastforce
qed

lemma run_loop_serves:
  "\<exists>xs fin ended. run_loop h es tr = Some (tr @ concat (map (\<lambda>(fd, c). [Served fd c, ClosedFd fd]) xs) @ fin, ended)
     \<and> list_all (\<lambda>(fd, c). c \<noteq> Waiting \<and> conn_ok h c) xs \<and> (fin = [] \<or> (\<exists>fd. fin = [Served fd Waiting]))"
proof (induction h es tr rule: run_loop.induct)
  case (7 h fd evs err es tr)
  obtain c where c: "handleConnection h evs = Some c" "conn_ok h c" using handleConnection_ok by blast
  consider "c = Waiting" | "c \<noteq> Waiting" "err" | "c \<noteq> Waiting" "\<not> err" by blast
  then show ?case
  proof cases
    case 1
    then show ?thesis using c by - (rule exI [of _ "[]"], rule exI [of _ "[Served fd Waiting]"], rule exI [of _ False], simp)
  next
    case 2
    then show ?thesis using c by - (rule exI [of _ "[(fd, c)]"], rule exI [of _ "[]"], rule exI [of _ True], simp)
  next
    case 3
    then obtain xs fin ended where
      "run_loop h es (tr @ [Served fd c, ClosedFd fd])
         = Some ((tr @ [Served fd c, ClosedFd fd]) @ concat (map (\<lambda>(fd, c). [Served fd c, ClosedFd fd]) xs) @ fin, ended)"
      "list_all (\<lambda>(fd, c). c \<noteq> Waiting \<and> conn_ok h c) xs" "fin = [] \<or> (\<exists>fd. fin = [Served fd Waiting])"
      using 7 c by blast
    then show ?thesis using 3 c by (intro exI [of _ "(fd, c) # xs"] exI [of _ fin]) simp
  qed
qed (auto intro: exI [of _ "[]"])

text \<open>
  Fact (run_serves_connections): the server loop never reads outside a buffer; every accepted
  connection is answered as above and its descriptor is closed once before the next one is
  accepted, except a last one on which the server still waits.
\<close>

theorem run_serves_connections:
  "\<exists>xs fin ended. run h s es = Some (concat (map (\<lambda>(fd, c). [Served fd c, ClosedFd fd]) xs) @ fin, ended)
     \<and> list_all (\<lambda>(fd, c). c \<noteq> Waiting \<and> conn_ok h c) xs \<and> (fin = [] \<or> (\<exists>fd. fin = [Served fd Waiting]))"
  using run_loop_serves [of h es "[]"] by (cases "ss_listenFd s < 0") (auto simp: run_def intro: exI [of _ "[]"])

end
