(* ===== verification/SpawnChild.thy ===== *)
theory SpawnChild
  imports SpawnProtocol
begin

text \<open>
  The forked child: \<open>appspawn-x/src/child_main.cpp\<close>. From the request to the first Java call it sets the access token, the
  groups and ids, the security context, and starts the runtime; a step that fails may end the process. The state is what the
  kernel knows of the process with a trace of the steps; the answers of the kernel and of the runtime are a parameter.
  Redirection of the error output and signal handlers are left out.
\<close>

section \<open>The process\<close>

record HapDomainInfo =
  hd_apl :: string
  hd_packageName :: string
  hd_hapFlags :: u32
  hd_uid :: u32

datatype java_entry = InitChild string string int | DirectMain string

datatype child_event = SetToken | SetGroups | GrantNet | SetGid | SetUid | NoNewPrivs | SetContext
  | PostForkChild | PostForkCommon | OnChildInit | StartReg | InitAdapter | SetName | EnterJava java_entry

record process =
  pr_uid :: int
  pr_gid :: int
  pr_groups :: "u32 list"
  pr_token :: "u64 option" \<comment> \<open>\<open>None\<close>: the token inherited from the spawner\<close>
  pr_domain :: "HapDomainInfo option" \<comment> \<open>\<open>None\<close>: the context of the spawner\<close>
  pr_noNewPrivs :: bool
  pr_netGranted :: "int list"
  pr_name :: string
  pr_env :: "(string \<times> string) list"
  pr_trace :: "child_event list"

text \<open>A process as the spawner forks it.\<close>

definition forked :: process where
  "forked = \<lparr> pr_uid = 0, pr_gid = 0, pr_groups = [], pr_token = None, pr_domain = None, pr_noNewPrivs = False,
     pr_netGranted = [], pr_name = ''appspawn-x'', pr_env = [], pr_trace = [] \<rparr>"

record kernel =
  kn_SetSelfTokenID :: "u64 \<Rightarrow> int"
  kn_setgroups :: bool
  kn_fork :: bool
  kn_keepUid :: bool \<comment> \<open>\<open>WL_NO_DROP_UID\<close> is set\<close>
  kn_setresgid :: "int \<Rightarrow> bool"
  kn_setresuid :: "int \<Rightarrow> bool"
  kn_noNewPrivs :: bool
  kn_setcontext :: "HapDomainInfo \<Rightarrow> int"
  kn_env :: bool
  kn_startReg :: bool
  kn_thread :: bool
  kn_attach :: bool
  kn_initClass :: bool
  kn_initChild :: bool
  kn_findClass :: "string \<Rightarrow> bool"
  kn_findMain :: "string \<Rightarrow> bool"

definition did :: "child_event \<Rightarrow> process \<Rightarrow> process" where
  "did ev p = p\<lparr> pr_trace := pr_trace p @ [ev] \<rparr>"

section \<open>The steps\<close>

definition applyAccessToken :: "kernel \<Rightarrow> SpawnMsg \<Rightarrow> process \<Rightarrow> int \<times> process" where
  "applyAccessToken k msg p = (if sm_accessTokenIdEx msg = 0 then (0, p)
     else let rc = kn_SetSelfTokenID k (sm_accessTokenIdEx msg) in
       if rc \<noteq> 0 then (0, p) else (0, did SetToken (p\<lparr> pr_token := Some (sm_accessTokenIdEx msg) \<rparr>)))"

definition add_gid :: "u32 \<Rightarrow> u32 list \<Rightarrow> u32 list" where
  "add_gid g gs = (if g \<in> set gs then gs else gs @ [g])"

definition child_groups :: "SpawnMsg \<Rightarrow> u32 list" where
  "child_groups msg = add_gid 3004 (add_gid 3003 (map word_of_int (sm_gids msg)))"

definition grant_net :: "kernel \<Rightarrow> SpawnMsg \<Rightarrow> process \<Rightarrow> process" where
  "grant_net k msg p = (if sm_uid msg \<ge> 0 \<and> kn_fork k then did GrantNet (p\<lparr> pr_netGranted := pr_netGranted p @ [sm_uid msg] \<rparr>) else p)"

definition set_gid :: "kernel \<Rightarrow> SpawnMsg \<Rightarrow> process \<Rightarrow> process option" where
  "set_gid k msg p = (if sm_gid msg \<ge> 0 then if kn_setresgid k (sm_gid msg) then Some (did SetGid (p\<lparr> pr_gid := sm_gid msg \<rparr>)) else None
     else Some p)"

definition set_uid :: "kernel \<Rightarrow> SpawnMsg \<Rightarrow> process \<Rightarrow> process option" where
  "set_uid k msg p = (if sm_uid msg \<ge> 0 then if kn_setresuid k (sm_uid msg) then Some (did SetUid (p\<lparr> pr_uid := sm_uid msg \<rparr>)) else None
     else Some p)"

definition applyDac :: "kernel \<Rightarrow> SpawnMsg \<Rightarrow> process \<Rightarrow> int \<times> process" where
  "applyDac k msg p = (if \<not> kn_setgroups k then (-1, p)
     else let p = did SetGroups (p\<lparr> pr_groups := child_groups msg \<rparr>);
              p = grant_net k msg p in
       if kn_keepUid k then (0, p)
       else case set_gid k msg p of None \<Rightarrow> (-1, p)
         | Some p \<Rightarrow> case set_uid k msg p of None \<Rightarrow> (-1, p)
           | Some p \<Rightarrow> if sm_uid msg > 0 \<and> pr_uid p = 0 then (-1, p)
               else if sm_uid msg > 0 \<and> kn_noNewPrivs k then (0, did NoNewPrivs (p\<lparr> pr_noNewPrivs := True \<rparr>))
               else (0, p))"

definition NO_SANDBOX :: nat where "NO_SANDBOX = 7"

definition applySandbox :: "SpawnMsg \<Rightarrow> process \<Rightarrow> int \<times> process" where
  "applySandbox msg p = (if hasFlag msg NO_SANDBOX then (0, p) else (0, p))"

definition domain_info :: "SpawnMsg \<Rightarrow> HapDomainInfo" where
  "domain_info msg = \<lparr> hd_apl = (if sm_apl msg = [] then ''normal'' else sm_apl msg), hd_packageName = sm_bundleName msg,
     hd_hapFlags = sm_hapFlags msg, hd_uid = word_of_int (sm_uid msg) \<rparr>"

definition applySELinux :: "kernel \<Rightarrow> SpawnMsg \<Rightarrow> process \<Rightarrow> int \<times> process" where
  "applySELinux k msg p = (let info = domain_info msg; rc = kn_setcontext k info in
     if rc \<noteq> 0 then (rc, p) else (0, did SetContext (p\<lparr> pr_domain := Some info \<rparr>)))"

section \<open>The launch\<close>

definition target_class :: "SpawnMsg \<Rightarrow> string" where
  "target_class msg = (if sm_targetClass msg = [] then ''android.app.ActivityThread'' else sm_targetClass msg)"

definition noice :: string where "noice = ''com.github.ashutoshgngwr.noice''"

definition direct_launch_env :: "SpawnMsg \<Rightarrow> (string \<times> string) list" where
  "direct_launch_env msg = (if sm_bundleName msg = noice then
     [(''ASX_APK_PATH'', if sm_apkPath msg \<noteq> [] then sm_apkPath msg else ''/data/local/tmp/asx/noice.apk''),
      (''ASX_LAUNCH_PKG'', sm_bundleName msg),
      (''ASX_LAUNCH_ACTIVITY'', ''com.github.ashutoshgngwr.noice.activity.MainActivity''),
      (''ASX_DIRECT_LAUNCH'', ''1'')] else [])"

definition launchActivityThread :: "kernel \<Rightarrow> SpawnMsg \<Rightarrow> process \<Rightarrow> process" where
  "launchActivityThread k msg p = (if \<not> kn_initClass k then
       let cls = map (\<lambda>c. if c = CHR ''.'' then CHR ''/'' else c) (target_class msg) in
       if \<not> kn_findClass k cls then p else if \<not> kn_findMain k cls then p
       else did (EnterJava (DirectMain cls)) p
     else if \<not> kn_initChild k then p
     else did (EnterJava (InitChild (sm_procName msg) (target_class msg) (sm_targetSdkVersion msg)))
       (p\<lparr> pr_env := pr_env p @ direct_launch_env msg \<rparr>))"

definition launch_thread :: "kernel \<Rightarrow> SpawnMsg \<Rightarrow> process \<Rightarrow> process" where
  "launch_thread k msg p = (if kn_thread k then if \<not> kn_attach k then p else launchActivityThread k msg p
     else launchActivityThread k msg p)"

text \<open>The kernel keeps fifteen characters of a thread name.\<close>

definition set_name :: "SpawnMsg \<Rightarrow> process \<Rightarrow> process" where
  "set_name msg p = (if sm_procName msg = [] then p else did SetName (p\<lparr> pr_name := take 15 (sm_procName msg) \<rparr>))"

text \<open>\<open>ChildMain::run\<close>: the exit status (1 when Java returns) and the process then.\<close>

definition start_runtime :: "kernel \<Rightarrow> SpawnMsg \<Rightarrow> process \<Rightarrow> int \<times> process" where
  "start_runtime k msg p = (let p = did OnChildInit (did PostForkCommon (did PostForkChild p)) in
     if \<not> kn_env k then (14, p)
     else let p = (if kn_startReg k then did StartReg p else p);
              p = set_name msg (did InitAdapter p) in
       (1, launch_thread k msg p))"

definition child_run :: "kernel \<Rightarrow> SpawnMsg \<Rightarrow> process \<Rightarrow> int \<times> process" where
  "child_run k msg p = (case applyAccessToken k msg p of (ret, p) \<Rightarrow> if ret \<noteq> 0 then (13, p)
     else case applyDac k msg p of (ret, p) \<Rightarrow> if ret \<noteq> 0 then (10, p)
     else case applySandbox msg p of (ret, p) \<Rightarrow> if ret \<noteq> 0 then (11, p)
     else case applySELinux k msg p of (ret, p) \<Rightarrow> if ret \<noteq> 0 then (12, p)
     else start_runtime k msg p)"

section \<open>Order of the steps\<close>

primrec rank :: "child_event \<Rightarrow> nat" where
  "rank SetToken = 0" | "rank SetGroups = 1" | "rank GrantNet = 2" | "rank SetGid = 3" | "rank SetUid = 4" | "rank NoNewPrivs = 5"
| "rank SetContext = 6" | "rank PostForkChild = 7" | "rank PostForkCommon = 8" | "rank OnChildInit = 9" | "rank StartReg = 10"
| "rank InitAdapter = 11" | "rank SetName = 12" | "rank (EnterJava e) = 13"

definition before :: "nat \<Rightarrow> process \<Rightarrow> bool" where
  "before n p \<longleftrightarrow> sorted_wrt (<) (map rank (pr_trace p)) \<and> (\<forall>e\<in>set (pr_trace p). rank e < n)"

lemma before_did: "before n p \<Longrightarrow> n \<le> rank ev \<Longrightarrow> m = Suc (rank ev) \<Longrightarrow> before m (did ev p)"
  by (force simp: before_def did_def sorted_wrt_append)

lemma before_mono: "before n p \<Longrightarrow> n \<le> m \<Longrightarrow> before m p"
  by (force simp: before_def)

lemma before_upd [simp]:
  "before n (p\<lparr> pr_uid := a \<rparr>) = before n p" "before n (p\<lparr> pr_gid := b \<rparr>) = before n p" "before n (p\<lparr> pr_groups := c \<rparr>) = before n p"
  "before n (p\<lparr> pr_token := d \<rparr>) = before n p" "before n (p\<lparr> pr_domain := e \<rparr>) = before n p" "before n (p\<lparr> pr_noNewPrivs := f \<rparr>) = before n p"
  "before n (p\<lparr> pr_netGranted := g \<rparr>) = before n p" "before n (p\<lparr> pr_name := h \<rparr>) = before n p" "before n (p\<lparr> pr_env := i \<rparr>) = before n p"
  by (simp_all add: before_def)

lemma did_fields [simp]:
  "pr_uid (did ev p) = pr_uid p" "pr_gid (did ev p) = pr_gid p" "pr_groups (did ev p) = pr_groups p" "pr_token (did ev p) = pr_token p"
  "pr_domain (did ev p) = pr_domain p" "pr_trace (did ev p) = pr_trace p @ [ev]" "pr_noNewPrivs (did ev p) = pr_noNewPrivs p"
  "pr_netGranted (did ev p) = pr_netGranted p"
  by (simp_all add: did_def)

lemma token_before: "before 0 p \<Longrightarrow> before 1 (snd (applyAccessToken k msg p))"
  using before_did[of 0 _ SetToken 1] before_mono[of 0 p 1] by (simp add: applyAccessToken_def Let_def)

lemma grant_before: "before 2 p \<Longrightarrow> before 3 (grant_net k msg p)"
  using before_did[of 2 _ GrantNet 3] before_mono[of 2 p 3] by (simp add: grant_net_def)

lemma gid_before: "before 3 p \<Longrightarrow> set_gid k msg p = Some q \<Longrightarrow> before 4 q"
  using before_did[of 3 _ SetGid 4] before_mono[of 3 p 4] by (auto simp: set_gid_def split: if_splits)

lemma uid_before: "before 4 p \<Longrightarrow> set_uid k msg p = Some q \<Longrightarrow> before 5 q"
  using before_did[of 4 _ SetUid 5] before_mono[of 4 p 5] by (auto simp: set_uid_def split: if_splits)

lemma dac_before:
  assumes "before 1 p"
  shows "before 6 (snd (applyDac k msg p))"
proof (cases "kn_setgroups k")
  case True
  let ?p = "grant_net k msg (did SetGroups (p\<lparr> pr_groups := child_groups msg \<rparr>))"
  have g: "before 3 ?p" using assms before_did[of 1 _ SetGroups 2] by (intro grant_before) simp
  show ?thesis
  proof (cases "kn_keepUid k \<or> set_gid k msg ?p = None")
    case False
    then obtain q where q: "set_gid k msg ?p = Some q" by blast
    note q4 = gid_before[OF g q]
    show ?thesis
    proof (cases "set_uid k msg q")
      case None
      then show ?thesis using True False q before_mono[OF q4, of 6] by (simp add: applyDac_def Let_def)
    next
      case (Some r)
      then have "before 5 r" using uid_before q4 by blast
      then show ?thesis using True False q Some before_mono[of 5 r 6] before_did[of 5 "r\<lparr> pr_noNewPrivs := True \<rparr>" NoNewPrivs 6]
        by (simp add: applyDac_def Let_def)
    qed
  qed (use True before_mono[OF g, of 6] in \<open>auto simp: applyDac_def Let_def\<close>)
qed (use before_mono[OF assms, of 6] in \<open>simp add: applyDac_def\<close>)

lemma selinux_before: "before 6 p \<Longrightarrow> before 7 (snd (applySELinux k msg p))"
  using before_did[of 6 _ SetContext 7] before_mono[of 6 p 7] by (simp add: applySELinux_def Let_def)

lemma launch_before: "before 13 p \<Longrightarrow> before 14 (launch_thread k msg p)"
  using before_did[of 13 _ _ 14] before_mono[of 13 p 14] by (simp add: launch_thread_def launchActivityThread_def Let_def)

lemma runtime_before:
  assumes "before 7 p"
  shows "before 14 (snd (start_runtime k msg p))"
proof -
  let ?p = "did OnChildInit (did PostForkCommon (did PostForkChild p))"
  let ?q = "if kn_startReg k then did StartReg ?p else ?p"
  have "before 8 (did PostForkChild p)" using before_did[OF assms, of PostForkChild 8] by simp
  from before_did[OF this, of PostForkCommon 9] have "before 9 (did PostForkCommon (did PostForkChild p))" by simp
  from before_did[OF this, of OnChildInit 10] have p: "before 10 ?p" by simp
  have "before 11 ?q" using before_did[OF p, of StartReg 11] before_mono[OF p, of 11] by simp
  from before_did[OF this, of InitAdapter 12] have i: "before 12 (did InitAdapter ?q)" by simp
  have "before 13 (set_name msg (did InitAdapter ?q))"
    using before_did[of 12 "(did InitAdapter ?q)\<lparr> pr_name := take 15 (sm_procName msg) \<rparr>" SetName 13] before_mono[OF i, of 13] i
    unfolding set_name_def by (simp del: if_split)
  then show ?thesis using before_mono[OF p, of 14] launch_before by (simp add: start_runtime_def Let_def)
qed

section \<open>What the child runs with\<close>

text \<open>The conditions under which the credentials are set.\<close>

definition dac_ok :: "kernel \<Rightarrow> SpawnMsg \<Rightarrow> process \<Rightarrow> bool" where
  "dac_ok k msg p \<longleftrightarrow> kn_setgroups k \<and> (kn_keepUid k \<or>
     (sm_gid msg \<ge> 0 \<longrightarrow> kn_setresgid k (sm_gid msg)) \<and> (sm_uid msg \<ge> 0 \<longrightarrow> kn_setresuid k (sm_uid msg)))"

lemma grant_fields [simp]: "pr_uid (grant_net k msg p) = pr_uid p" "pr_gid (grant_net k msg p) = pr_gid p" "pr_groups (grant_net k msg p) = pr_groups p"
  "pr_token (grant_net k msg p) = pr_token p" "pr_domain (grant_net k msg p) = pr_domain p"
  by (simp_all add: grant_net_def)

lemma applyDac_result:
  "fst (applyDac k msg p) = 0 \<longleftrightarrow> dac_ok k msg p"
  by (auto simp: applyDac_def dac_ok_def set_gid_def set_uid_def Let_def)

definition child_uid :: "kernel \<Rightarrow> SpawnMsg \<Rightarrow> process \<Rightarrow> int" where
  "child_uid k msg p = (if kn_keepUid k \<or> sm_uid msg < 0 then pr_uid p else sm_uid msg)"

definition child_gid :: "kernel \<Rightarrow> SpawnMsg \<Rightarrow> process \<Rightarrow> int" where
  "child_gid k msg p = (if kn_keepUid k \<or> sm_gid msg < 0 then pr_gid p else sm_gid msg)"

lemma applyDac_fields:
  assumes "applyDac k msg p = (0, q)"
  shows "pr_uid q = child_uid k msg p" "pr_gid q = child_gid k msg p" "pr_groups q = child_groups msg" "pr_token q = pr_token p" "pr_domain q = pr_domain p"
  using assms by (auto simp: applyDac_def set_gid_def set_uid_def child_uid_def child_gid_def Let_def split: if_splits)

lemma start_runtime_fields:
  "pr_uid (snd (start_runtime k msg p)) = pr_uid p" "pr_gid (snd (start_runtime k msg p)) = pr_gid p"
  "pr_groups (snd (start_runtime k msg p)) = pr_groups p" "pr_token (snd (start_runtime k msg p)) = pr_token p"
  "pr_domain (snd (start_runtime k msg p)) = pr_domain p"
  by (simp_all add: start_runtime_def launch_thread_def launchActivityThread_def set_name_def Let_def)

definition child_token :: "kernel \<Rightarrow> SpawnMsg \<Rightarrow> process \<Rightarrow> u64 option" where
  "child_token k msg p = (if sm_accessTokenIdEx msg = 0 \<or> kn_SetSelfTokenID k (sm_accessTokenIdEx msg) \<noteq> 0 then pr_token p
     else Some (sm_accessTokenIdEx msg))"

lemma token_result: "\<exists>q. applyAccessToken k msg p = (0, q) \<and> pr_token q = child_token k msg p \<and> pr_uid q = pr_uid p \<and> pr_gid q = pr_gid p"
  by (simp add: applyAccessToken_def child_token_def Let_def)

text \<open>The run, by the two steps that can fail.\<close>

lemma child_run_cases:
  assumes "applyAccessToken k msg p = (0, p1)" "applyDac k msg p1 = (r, p2)" "applySELinux k msg p2 = (r', p3)"
  shows "child_run k msg p = (if r \<noteq> 0 then (10, p2) else if r' \<noteq> 0 then (12, p3) else start_runtime k msg p3)"
  using assms by (simp add: child_run_def applySandbox_def)

text \<open>
  C0 (child_order): whatever the kernel and the runtime answer, the child takes its steps at most
  once each and in a fixed order: token, groups, network, group id, user id, no new privileges,
  security context, and only then threads, natives and Java.
\<close>

theorem child_order:
  assumes "child_run k msg forked = (code, p')"
  shows "sorted_wrt (<) (map rank (pr_trace p'))"
proof -
  obtain p1 where t: "applyAccessToken k msg forked = (0, p1)" using token_result by blast
  obtain r p2 where d: "applyDac k msg p1 = (r, p2)" by (cases "applyDac k msg p1")
  obtain r' p3 where e: "applySELinux k msg p2 = (r', p3)" by (cases "applySELinux k msg p2")
  have "before 0 forked" by (simp add: before_def forked_def)
  then have "before 1 p1" using token_before[of forked k msg] t by simp
  then have 2: "before 6 p2" using dac_before[of p1 k msg] d by simp
  then have 3: "before 7 p3" using selinux_before[of p2 k msg] e by simp
  have "before 14 p'" using assms child_run_cases[OF t d e] before_mono[OF 2, of 14] before_mono[OF 3, of 14] runtime_before[OF 3, of k msg]
    by (auto split: if_splits)
  then show ?thesis by (simp add: before_def)
qed

lemma no_java_before: "before n p \<Longrightarrow> n \<le> 13 \<Longrightarrow> EnterJava e \<notin> set (pr_trace p)"
  by (force simp: before_def)

lemma child_groups_set: "set (child_groups msg) = word_of_int ` set (sm_gids msg) \<union> {3003, 3004}"
  by (auto simp: child_groups_def add_gid_def)


text \<open>
  C11 (child_exit_code): the exit status tells which step failed: 10 the credentials, 12 the
  security context, 14 the runtime, and 1 when Java returned or could not be entered; no other
  status occurs.
\<close>

theorem child_exit_code:
  assumes "child_run k msg forked = (code, p')"
  shows "(code = 10 \<longleftrightarrow> \<not> dac_ok k msg forked) \<and> (code = 12 \<longleftrightarrow> dac_ok k msg forked \<and> kn_setcontext k (domain_info msg) \<noteq> 0) \<and>
    (code = 14 \<longleftrightarrow> dac_ok k msg forked \<and> kn_setcontext k (domain_info msg) = 0 \<and> \<not> kn_env k) \<and> code \<in> {1, 10, 12, 14}"
proof -
  obtain p1 where t: "applyAccessToken k msg forked = (0, p1)" using token_result by blast
  obtain r p2 where d: "applyDac k msg p1 = (r, p2)" by (cases "applyDac k msg p1")
  obtain r' p3 where e: "applySELinux k msg p2 = (r', p3)" by (cases "applySELinux k msg p2")
  have "r = 0 \<longleftrightarrow> dac_ok k msg forked" using applyDac_result[of k msg p1] d by (simp add: dac_ok_def)
  moreover have "r' = 0 \<longleftrightarrow> kn_setcontext k (domain_info msg) = 0" using e by (auto simp: applySELinux_def Let_def split: if_splits)
  moreover have "fst (start_runtime k msg p3) = (if kn_env k then 1 else 14)" by (simp add: start_runtime_def Let_def)
  ultimately show ?thesis using assms child_run_cases[OF t d e] by (auto split: if_splits)
qed

section \<open>Requests that keep the privileges of the spawner\<close>

text \<open>A request in text form is refused without a user id; one in binary form is not.\<close>

lemma text_request_uid: "parse_text t m = (True, m') \<Longrightarrow> 0 \<le> sm_uid m'"
  by (auto simp: parse_text_def Let_def split: if_splits)

definition willing :: kernel where
  "willing = \<lparr> kn_SetSelfTokenID = (\<lambda>t. 0), kn_setgroups = True, kn_fork = True, kn_keepUid = False, kn_setresgid = (\<lambda>g. True),
     kn_setresuid = (\<lambda>u. True), kn_noNewPrivs = True, kn_setcontext = (\<lambda>i. 0), kn_env = True, kn_startReg = True, kn_thread = True,
     kn_attach = True, kn_initClass = True, kn_initChild = True, kn_findClass = (\<lambda>c. True), kn_findMain = (\<lambda>c. True) \<rparr>"

lemma binary_request_keeps_root:
  "\<exists>msg code p. parseMessage (enc_request 0 5 ''com.a'' [TBundle 0 ''com.a'' 2]) new_SpawnMsg = Some (True, msg) \<and>
     child_run willing msg forked = (code, p) \<and> pr_uid p = 0 \<and> EnterJava (InitChild ''com.a'' ''android.app.ActivityThread'' 0) \<in> set (pr_trace p)"
proof -
  have "(case parseMessage (enc_request 0 5 ''com.a'' [TBundle 0 ''com.a'' 2]) new_SpawnMsg of Some (True, msg) \<Rightarrow>
      (case child_run willing msg forked of (code, p) \<Rightarrow> pr_uid p = 0 \<and> EnterJava (InitChild ''com.a'' ''android.app.ActivityThread'' 0) \<in> set (pr_trace p))
    | _ \<Rightarrow> False)"
    by code_simp
  then show ?thesis by (auto split: option.splits prod.splits bool.splits)
qed

text \<open>A text request without a group keeps the root group.\<close>

lemma text_request_keeps_root_group:
  "(case parse_text (''procName=a'' @ [CHR 0x0A] @ ''uid=10042'') new_SpawnMsg of (ok, msg) \<Rightarrow>
     (case child_run willing msg forked of (code, p) \<Rightarrow> (ok, pr_uid p, pr_gid p))) = (True, 10042, 0)"
  by code_simp

text \<open>A token that cannot be set is ignored: the app runs with the token of the spawner.\<close>

lemma token_failure_ignored:
  "(case child_run (willing\<lparr> kn_SetSelfTokenID := (\<lambda>t. -1) \<rparr>) (new_SpawnMsg\<lparr> sm_uid := 10042, sm_accessTokenIdEx := 7 \<rparr>) forked of
     (code, p) \<Rightarrow> (pr_token p, pr_uid p, EnterJava (InitChild [] ''android.app.ActivityThread'' 0) \<in> set (pr_trace p))) = (None, 10042, True)"
  by code_simp

section \<open>Examples\<close>

definition a_message :: SpawnMsg where
  "a_message = new_SpawnMsg\<lparr> sm_procName := ''com.a'', sm_bundleName := ''com.a'', sm_uid := 10042, sm_gid := 10042, sm_gids := [3003],
     sm_accessTokenIdEx := 7 \<rparr>"

lemma a_run: "\<exists>p. child_run willing a_message forked = (1, p) \<and> pr_trace p = [SetToken, SetGroups, GrantNet, SetGid, SetUid, NoNewPrivs,
    SetContext, PostForkChild, PostForkCommon, OnChildInit, StartReg, InitAdapter, SetName, EnterJava (InitChild ''com.a'' ''android.app.ActivityThread'' 0)]"
proof -
  have "(case child_run willing a_message forked of (c, p) \<Rightarrow> (c, pr_trace p)) = (1, [SetToken, SetGroups, GrantNet, SetGid, SetUid, NoNewPrivs,
    SetContext, PostForkChild, PostForkCommon, OnChildInit, StartReg, InitAdapter, SetName, EnterJava (InitChild ''com.a'' ''android.app.ActivityThread'' 0)])"
    by code_simp
  then show ?thesis by (cases "child_run willing a_message forked") auto
qed

theorem child_order_witness: "\<exists>p. child_run willing a_message forked = (1, p) \<and> sorted_wrt (<) (map rank (pr_trace p))"
  using a_run child_order[of willing a_message 1] by blast


theorem child_exit_code_witness:
  "\<exists>p. child_run (willing\<lparr> kn_setcontext := (\<lambda>i. -7) \<rparr>) a_message forked = (12, p)"
proof -
  let ?k = "willing\<lparr> kn_setcontext := (\<lambda>i. -7) \<rparr>"
  obtain c p where p: "child_run ?k a_message forked = (c, p)" by (cases "child_run ?k a_message forked")
  have "dac_ok ?k a_message forked" by (simp add: dac_ok_def willing_def)
  then have "c = 12" using child_exit_code[OF p] by simp
  then show ?thesis using p by blast
qed

end
