(* ===== verification/CursorWindow.thy ===== *)
theory CursorWindow
  imports Prelude
begin

text \<open>
  The cursor window that carries query results: \<open>framework/sqlite/wl_CursorWindow.cpp\<close>. A window is one
  memory block: variable-length data grows up from its start (\<open>mAllocOffset\<close>), 16-byte field slots grow
  down from its end (\<open>mSlotsOffset\<close>); a window that runs full is migrated once into a block of its
  inflated size. The block is a byte list, the pointers \<open>mSlotsStart\<close> and \<open>mSlotsEnd\<close> are integer
  offsets into it, the \<open>uint32_t\<close> fields are words and \<open>size_t\<close> is a natural number. \<open>None\<close> is a write or
  read outside the block or through a null pointer.

  The class declaration (\<open>androidfw/CursorWindow.h\<close>) is not in the repository. What the code uses of
  it is the parameter \<open>cw_header\<close>: \<open>sizeOfSlots\<close> and the offsets of the two fields of a slot; the
  hypothesis \<open>header_ok\<close> states their documented meaning. Shared memory and \<open>malloc\<close> are parameters too.
  \<open>createFromParcel\<close> and \<open>writeToParcel\<close> are not modelled here.
\<close>

section \<open>State\<close>

definition kInlineSize :: nat where "kInlineSize = 16384"
definition kSlotShift :: nat where "kSlotShift = 4"
definition kSlotSizeBytes :: nat where "kSlotSizeBytes = 2 ^ kSlotShift"

datatype status = OK | UNKNOWN_ERROR | INVALID_OPERATION | NO_MEMORY | BAD_VALUE

datatype field_type = FIELD_TYPE_NULL | FIELD_TYPE_INTEGER | FIELD_TYPE_FLOAT | FIELD_TYPE_STRING
  | FIELD_TYPE_BLOB

record CursorWindow =
  mName :: string
  mAshmemFd :: int
  mData :: bytes
  mSize :: u32
  mInflatedSize :: nat
  mReadOnly :: bool
  mSlotsStart :: int
  mSlotsEnd :: int
  mSlotsOffset :: u32
  mAllocOffset :: u32
  mNumRows :: u32
  mNumColumns :: u32

record cw_header =
  sizeOfSlots :: "CursorWindow \<Rightarrow> u32"
  typeOffset :: nat
  dataOffset :: nat
  typeCode :: "field_type \<Rightarrow> u32"

text \<open>Outcomes of the system calls, and the contents of fresh memory.\<close>

record cw_env =
  e_ashmem_create :: "nat \<Rightarrow> int"
  e_set_prot_rw :: bool
  e_mmap :: bool
  e_set_prot_ro :: bool
  e_malloc :: "nat \<Rightarrow> bool"
  e_junk :: "nat \<Rightarrow> byte"

definition fresh :: "cw_env \<Rightarrow> nat \<Rightarrow> bytes" where
  "fresh e n = map (e_junk e) [0..<n]"

lemma length_fresh [simp]: "length (fresh e n) = n"
  by (simp add: fresh_def)

section \<open>Operations\<close>

definition updateSlotsData :: "CursorWindow \<Rightarrow> CursorWindow" where
  "updateSlotsData w = w\<lparr>mSlotsStart := int (unat (mSize w)) - int kSlotSizeBytes,
     mSlotsEnd := int (unat (mSlotsOffset w))\<rparr>"

definition clear :: "CursorWindow \<Rightarrow> status \<times> CursorWindow" where
  "clear w = (if mReadOnly w then (INVALID_OPERATION, w)
     else (OK, w\<lparr>mAllocOffset := 0, mSlotsOffset := mSize w, mNumRows := 0, mNumColumns := 0\<rparr>))"

definition create :: "cw_env \<Rightarrow> string \<Rightarrow> nat \<Rightarrow> status \<times> CursorWindow option" where
  "create e name inflatedSize =
     (let sz = min kInlineSize inflatedSize in
      if \<not> e_malloc e sz then (UNKNOWN_ERROR, None)
      else
        (let w = \<lparr>mName = name, mAshmemFd = -1, mData = fresh e sz, mSize = word_of_nat sz,
               mInflatedSize = inflatedSize, mReadOnly = False, mSlotsStart = 0, mSlotsEnd = 0,
               mSlotsOffset = 0, mAllocOffset = 0, mNumRows = 0, mNumColumns = 0\<rparr>
         in (OK, Some (updateSlotsData (snd (clear w))))))"

text \<open>The copy of the data and of the slots into a fresh block of the inflated size.\<close>

definition migrate :: "cw_header \<Rightarrow> cw_env \<Rightarrow> int \<Rightarrow> CursorWindow \<Rightarrow> CursorWindow option" where
  "migrate H e fd w = do {
     let slotsSize = sizeOfSlots H w;
     let newSlotsOffset = (word_of_int (int (mInflatedSize w) - int (unat slotsSize)) :: u32);
     low \<leftarrow> slice (mData w) 0 (unat (mAllocOffset w));
     d \<leftarrow> poke (fresh e (mInflatedSize w)) 0 low;
     slots \<leftarrow> slice (mData w) (unat (mSlotsOffset w)) (unat slotsSize);
     d \<leftarrow> poke d (unat newSlotsOffset) slots;
     Some (updateSlotsData (w\<lparr>mAshmemFd := fd, mData := d, mSize := word_of_nat (mInflatedSize w),
       mSlotsOffset := newSlotsOffset\<rparr>)) }"

definition maybeInflate :: "cw_header \<Rightarrow> cw_env \<Rightarrow> CursorWindow \<Rightarrow> (status \<times> CursorWindow) option" where
  "maybeInflate H e w =
     (if mReadOnly w \<or> unat (mSize w) = mInflatedSize w then Some (INVALID_OPERATION, w)
      else
        (let fd = e_ashmem_create e (mInflatedSize w) in
         if fd \<ge> 0 \<and> e_set_prot_rw e \<and> e_mmap e \<and> e_set_prot_ro e
         then map_option (\<lambda>w'. (OK, w')) (migrate H e fd w)
         else if \<not> e_malloc e (mInflatedSize w) then Some (NO_MEMORY, w)
         else map_option (\<lambda>w'. (OK, w')) (migrate H e (-1) w)))"

definition offsetToPtr :: "CursorWindow \<Rightarrow> u32 \<Rightarrow> u32 \<Rightarrow> nat option" where
  "offsetToPtr w offset bufferSize =
     (if offset > mSize w then None
      else if offset + bufferSize > mSize w then None
      else Some (unat offset))"

definition setNumColumns :: "u32 \<Rightarrow> CursorWindow \<Rightarrow> status \<times> CursorWindow" where
  "setNumColumns numColumns w =
     (if mReadOnly w then (INVALID_OPERATION, w)
      else if (mNumColumns w > 0 \<or> mNumRows w > 0) \<and> mNumColumns w \<noteq> numColumns
      then (INVALID_OPERATION, w)
      else (OK, w\<lparr>mNumColumns := numColumns\<rparr>))"

text \<open>\<open>int32_t newOffset = mSlotsOffset - size\<close>, computed in 64 bits and cut to 32.\<close>

definition row_offset :: "CursorWindow \<Rightarrow> nat \<Rightarrow> u32" where
  "row_offset w size' = word_of_int (int (unat (mSlotsOffset w)) - int size')"

definition allocRow :: "cw_header \<Rightarrow> cw_env \<Rightarrow> CursorWindow \<Rightarrow> (status \<times> CursorWindow) option" where
  "allocRow H e w =
     (if mReadOnly w then Some (INVALID_OPERATION, w)
      else do {
        let size' = unat (mNumColumns w) * kSlotSizeBytes;
        w \<leftarrow> (if sint (row_offset w size') < sint (mAllocOffset w)
             then map_option snd (maybeInflate H e w) else Some w);
        let newOffset = row_offset w size';
        if sint newOffset < sint (mAllocOffset w) then Some (NO_MEMORY, w)
        else do {
          p \<leftarrow> offsetToPtr w newOffset 0;
          d \<leftarrow> poke (mData w) p (replicate size' 0);
          let w = updateSlotsData (w\<lparr>mData := d, mSlotsOffset := newOffset\<rparr>);
          Some (OK, w\<lparr>mNumRows := mNumRows w + 1\<rparr>) } })"

definition freeLastRow :: "CursorWindow \<Rightarrow> status \<times> CursorWindow" where
  "freeLastRow w =
     (if mReadOnly w then (INVALID_OPERATION, w)
      else
        (let newOffset = unat (mSlotsOffset w) + unat (mNumColumns w) * kSlotSizeBytes in
         if newOffset > unat (mSize w) then (NO_MEMORY, w)
         else
           (let w = updateSlotsData (w\<lparr>mSlotsOffset := word_of_nat newOffset\<rparr>) in
            (OK, w\<lparr>mNumRows := mNumRows w - 1\<rparr>))))"

definition alloc :: "cw_header \<Rightarrow> cw_env \<Rightarrow> nat \<Rightarrow> CursorWindow \<Rightarrow> (status \<times> u32 \<times> CursorWindow) option" where
  "alloc H e size' w =
     (if mReadOnly w then Some (INVALID_OPERATION, 0, w)
      else do {
        let alignedSize = (size' + 3) div 4 * 4;
        w \<leftarrow> (if unat (mAllocOffset w) + alignedSize > unat (mSlotsOffset w)
             then map_option snd (maybeInflate H e w) else Some w);
        let newOffset = unat (mAllocOffset w) + alignedSize;
        if newOffset > unat (mSlotsOffset w) then Some (NO_MEMORY, 0, w)
        else Some (OK, mAllocOffset w, w\<lparr>mAllocOffset := word_of_nat newOffset\<rparr>) })"

definition getFieldSlot :: "CursorWindow \<Rightarrow> u32 \<Rightarrow> u32 \<Rightarrow> nat option" where
  "getFieldSlot w row column =
     (let result = mSlotsStart w - int (unat (push_bit kSlotShift (row * mNumColumns w + column))) in
      if result < mSlotsEnd w \<or> result > mSlotsStart w \<or> column \<ge> mNumColumns w then None
      else Some (nat result))"

text \<open>Assignments to the members of a slot at offset \<open>p\<close>.\<close>

definition set_slot :: "cw_header \<Rightarrow> CursorWindow \<Rightarrow> nat \<Rightarrow> field_type \<Rightarrow> bytes \<Rightarrow> CursorWindow option" where
  "set_slot H w p t val = do {
     d \<leftarrow> poke (mData w) (p + typeOffset H) (put32 (typeCode H t));
     d \<leftarrow> poke d (p + dataOffset H) val;
     Some (w\<lparr>mData := d\<rparr>) }"

definition put_scalar ::
  "cw_header \<Rightarrow> u32 \<Rightarrow> u32 \<Rightarrow> field_type \<Rightarrow> bytes \<Rightarrow> CursorWindow \<Rightarrow> (status \<times> CursorWindow) option" where
  "put_scalar H row column t val w =
     (if mReadOnly w then Some (INVALID_OPERATION, w)
      else case getFieldSlot w row column of
        None \<Rightarrow> Some (BAD_VALUE, w)
      | Some p \<Rightarrow> map_option (\<lambda>w'. (OK, w')) (set_slot H w p t val))"

definition putLong :: "cw_header \<Rightarrow> u32 \<Rightarrow> u32 \<Rightarrow> u64 \<Rightarrow> CursorWindow \<Rightarrow> (status \<times> CursorWindow) option" where
  "putLong H row column value = put_scalar H row column FIELD_TYPE_INTEGER (put64 value)"

definition putDouble :: "cw_header \<Rightarrow> u32 \<Rightarrow> u32 \<Rightarrow> u64 \<Rightarrow> CursorWindow \<Rightarrow> (status \<times> CursorWindow) option" where
  "putDouble H row column bits = put_scalar H row column FIELD_TYPE_FLOAT (put64 bits)"

definition putNull :: "cw_header \<Rightarrow> u32 \<Rightarrow> u32 \<Rightarrow> CursorWindow \<Rightarrow> (status \<times> CursorWindow) option" where
  "putNull H row column = put_scalar H row column FIELD_TYPE_NULL (put32 0 @ put32 0)"

definition putBlobOrString ::
  "cw_header \<Rightarrow> cw_env \<Rightarrow> u32 \<Rightarrow> u32 \<Rightarrow> bytes \<Rightarrow> field_type \<Rightarrow> CursorWindow \<Rightarrow> (status \<times> CursorWindow) option" where
  "putBlobOrString H e row column value t w =
     (if mReadOnly w then Some (INVALID_OPERATION, w)
      else case getFieldSlot w row column of
        None \<Rightarrow> Some (BAD_VALUE, w)
      | Some _ \<Rightarrow> do {
          (st, offset, w) \<leftarrow> alloc H e (length value) w;
          if st \<noteq> OK then Some (NO_MEMORY, w)
          else do {
            p \<leftarrow> offsetToPtr w offset 0;
            d \<leftarrow> poke (mData w) p value;
            let w = w\<lparr>mData := d\<rparr>;
            slot \<leftarrow> getFieldSlot w row column;
            w \<leftarrow> set_slot H w slot t (put32 offset @ put32 (word_of_nat (length value)));
            Some (OK, w) } })"

definition putBlob :: "cw_header \<Rightarrow> cw_env \<Rightarrow> u32 \<Rightarrow> u32 \<Rightarrow> bytes \<Rightarrow> CursorWindow \<Rightarrow> (status \<times> CursorWindow) option" where
  "putBlob H e row column value = putBlobOrString H e row column value FIELD_TYPE_BLOB"

definition putString :: "cw_header \<Rightarrow> cw_env \<Rightarrow> u32 \<Rightarrow> u32 \<Rightarrow> bytes \<Rightarrow> CursorWindow \<Rightarrow> (status \<times> CursorWindow) option" where
  "putString H e row column value = putBlobOrString H e row column value FIELD_TYPE_STRING"

section \<open>The window invariant\<close>

definition header_ok :: "cw_header \<Rightarrow> bool" where
  "header_ok H \<longleftrightarrow> (\<forall>w. sizeOfSlots H w = mSize w - mSlotsOffset w)
     \<and> typeOffset H + 4 \<le> kSlotSizeBytes \<and> dataOffset H + 8 \<le> kSlotSizeBytes
     \<and> (typeOffset H + 4 \<le> dataOffset H \<or> dataOffset H + 8 \<le> typeOffset H)"

definition cw_ok :: "CursorWindow \<Rightarrow> bool" where
  "cw_ok w \<longleftrightarrow> length (mData w) = unat (mSize w) \<and> unat (mAllocOffset w) \<le> unat (mSlotsOffset w)
     \<and> unat (mSlotsOffset w) + unat (mNumRows w) * unat (mNumColumns w) * kSlotSizeBytes = unat (mSize w)
     \<and> unat (mSize w) \<le> mInflatedSize w \<and> mInflatedSize w < 2 ^ 31 \<and> unat (mNumColumns w) < 2 ^ 16
     \<and> mSlotsStart w = int (unat (mSize w)) - int kSlotSizeBytes
     \<and> 0 \<le> mSlotsEnd w \<and> (mNumRows w \<noteq> 0 \<longrightarrow> mSlotsEnd w = int (unat (mSlotsOffset w)))"

lemma cw_okD:
  assumes "cw_ok w"
  shows "length (mData w) = unat (mSize w)" "unat (mAllocOffset w) \<le> unat (mSlotsOffset w)"
    "unat (mSlotsOffset w) + unat (mNumRows w) * unat (mNumColumns w) * kSlotSizeBytes = unat (mSize w)"
    "unat (mSize w) \<le> mInflatedSize w" "mInflatedSize w < 2 ^ 31" "unat (mNumColumns w) < 2 ^ 16"
    "mSlotsStart w = int (unat (mSize w)) - int kSlotSizeBytes" "0 \<le> mSlotsEnd w"
    "mNumRows w \<noteq> 0 \<Longrightarrow> mSlotsEnd w = int (unat (mSlotsOffset w))"
  using assms unfolding cw_ok_def by blast+

definition heap :: "CursorWindow \<Rightarrow> bytes" where
  "heap w = take (unat (mAllocOffset w)) (mData w)"

definition slots :: "CursorWindow \<Rightarrow> bytes" where
  "slots w = drop (unat (mSlotsOffset w)) (mData w)"

lemma kSlotSize [simp]: "kSlotSizeBytes = 16"
  by (simp add: kSlotSizeBytes_def kSlotShift_def)

lemma word_of_small: "n < 2 ^ 31 \<Longrightarrow> unat (word_of_nat n :: u32) = n"
  by (rule unat_of_nat32) simp

lemma unat_diff: "b \<le> a \<Longrightarrow> unat (a - b) = unat a - unat (b :: u32)"
  by (simp add: unat_sub_if_size word_le_nat_alt)

lemma migrate_ok:
  assumes "header_ok H" "cw_ok w"
  shows "\<exists>w'. migrate H e fd w = Some w' \<and> cw_ok w' \<and> heap w' = heap w \<and> slots w' = slots w
    \<and> mNumRows w' = mNumRows w \<and> mNumColumns w' = mNumColumns w \<and> mAllocOffset w' = mAllocOffset w
    \<and> mReadOnly w' = mReadOnly w \<and> unat (mSize w') = mInflatedSize w' \<and> mInflatedSize w' = mInflatedSize w"
proof -
  note ok = assms(2) [unfolded cw_ok_def]
  define s where "s = unat (mSize w) - unat (mSlotsOffset w)"
  define n where "n = mInflatedSize w - s"
  have le: "unat (mSlotsOffset w) \<le> unat (mSize w)" using ok by linarith
  have ss: "unat (sizeOfSlots H w) = s"
    using assms(1) le by (simp add: header_ok_def s_def unat_diff word_le_nat_alt)
  have nn: "n + s = mInflatedSize w" "unat (mSlotsOffset w) \<le> n" "n < 2 ^ 31" "unat (mSlotsOffset w) + s = unat (mSize w)"
    using ok le by (auto simp: n_def s_def)
  have off: "word_of_int (int (mInflatedSize w) - int s) = (word_of_nat n :: u32)"
  proof -
    have "int (mInflatedSize w) - int s = int n" using nn(1) by linarith
    then show ?thesis by (simp only: of_int_of_nat_eq)
  qed
  have low: "slice (mData w) 0 (unat (mAllocOffset w)) = Some (heap w)"
    using ok le by (simp add: slice_def heap_def)
  have hl: "length (heap w) = unat (mAllocOffset w)" using ok le by (simp add: heap_def)
  obtain d1 where d1: "poke (fresh e (mInflatedSize w)) 0 (heap w) = Some d1"
    using poke_fits [of 0 "heap w" "fresh e (mInflatedSize w)"] hl ok le by auto
  have sl: "slice (mData w) (unat (mSlotsOffset w)) s = Some (slots w)"
    using ok nn(4) by (simp add: slice_def slots_def)
  have sll: "length (slots w) = s" using slice_length [OF sl] .
  have l1: "length d1 = mInflatedSize w" using poke_length [OF d1] by simp
  obtain d2 where d2: "poke d1 n (slots w) = Some d2"
    using poke_fits [of n "slots w" d1] nn(1) l1 sll by auto
  have l2: "length d2 = mInflatedSize w" using poke_length [OF d2] l1 by simp
  let ?w = "updateSlotsData (w\<lparr>mAshmemFd := fd, mData := d2, mSize := word_of_nat (mInflatedSize w),
       mSlotsOffset := word_of_nat n\<rparr>)"
  have un: "unat (word_of_nat n :: u32) = n" "unat (word_of_nat (mInflatedSize w) :: u32) = mInflatedSize w"
    using nn ok by (simp_all add: word_of_small)
  have "migrate H e fd w = Some ?w"
    unfolding migrate_def Let_def ss off low un(1) bind.simps d1 sl d2 ..
  moreover have "cw_ok ?w"
    using ok un nn l2 by (simp add: cw_ok_def updateSlotsData_def)
  moreover have "slice d2 0 (unat (mAllocOffset w)) = Some (heap w)"
    using slice_poke_other [OF d2, of 0 "unat (mAllocOffset w)"] slice_poke_same [OF d1] hl nn ok by simp
  then have "heap ?w = heap w" by (auto simp: heap_def updateSlotsData_def slice_def split: if_splits)
  moreover have "slice d2 n s = Some (slots w)" using slice_poke_same [OF d2] sll by simp
  then have "slots ?w = slots w" using l2 nn un by (auto simp: slots_def updateSlotsData_def slice_def split: if_splits)
  ultimately show ?thesis using un by (intro exI [of _ ?w]) (simp add: updateSlotsData_def)
qed

text \<open>What an operation that may inflate the window keeps.\<close>

definition same_table :: "CursorWindow \<Rightarrow> CursorWindow \<Rightarrow> bool" where
  "same_table w w' \<longleftrightarrow> heap w' = heap w \<and> slots w' = slots w \<and> mNumRows w' = mNumRows w
     \<and> mNumColumns w' = mNumColumns w \<and> mAllocOffset w' = mAllocOffset w \<and> mReadOnly w' = mReadOnly w
     \<and> mInflatedSize w' = mInflatedSize w"

lemma maybeInflate_ok:
  assumes "header_ok H" "cw_ok w"
  shows "\<exists>st w'. maybeInflate H e w = Some (st, w') \<and> cw_ok w' \<and> same_table w w'"
proof (cases "mReadOnly w \<or> unat (mSize w) = mInflatedSize w")
  case True
  then show ?thesis using assms(2) by (auto simp: maybeInflate_def same_table_def)
next
  case False
  then show ?thesis
    using migrate_ok [OF assms, of e "e_ashmem_create e (mInflatedSize w)"] migrate_ok [OF assms, of e "- 1"] assms(2)
    by (auto simp: maybeInflate_def same_table_def Let_def)
qed

lemma slot_number:
  assumes "cw_ok w" "row < mNumRows w" "column < mNumColumns w"
  shows "unat (push_bit kSlotShift (row * mNumColumns w + column)) = 16 * (unat row * unat (mNumColumns w) + unat column)"
    and "16 * (unat row * unat (mNumColumns w) + unat column) + 16 + unat (mSlotsOffset w) \<le> unat (mSize w)"
proof -
  note ok = assms(1) [unfolded cw_ok_def]
  let ?k = "unat row * unat (mNumColumns w) + unat column"
  have "?k + 1 \<le> (unat row + 1) * unat (mNumColumns w)" using assms(3) by (simp add: word_less_nat_alt algebra_simps)
  also have "\<dots> \<le> unat (mNumRows w) * unat (mNumColumns w)"
    using assms(2) by (intro mult_right_mono) (simp_all add: word_less_nat_alt)
  finally have k: "16 * ?k + 16 \<le> unat (mNumRows w) * unat (mNumColumns w) * 16" by simp
  then show "16 * ?k + 16 + unat (mSlotsOffset w) \<le> unat (mSize w)" using ok by simp
  then have small: "16 * ?k < 2 ^ 32" using ok by simp
  have "row * mNumColumns w + column = word_of_nat ?k" by simp
  then have "push_bit kSlotShift (row * mNumColumns w + column) = (word_of_nat (16 * ?k) :: u32)"
    by (simp add: kSlotShift_def push_bit_eq_mult)
  then show "unat (push_bit kSlotShift (row * mNumColumns w + column)) = 16 * ?k"
    using small by (simp only: unat_of_nat32)
qed

definition slot_pos :: "CursorWindow \<Rightarrow> u32 \<Rightarrow> u32 \<Rightarrow> nat" where
  "slot_pos w row column = unat (mSize w) - 16 - 16 * (unat row * unat (mNumColumns w) + unat column)"

lemma getFieldSlot_in:
  assumes "cw_ok w" "row < mNumRows w" "column < mNumColumns w"
  shows "getFieldSlot w row column = Some (slot_pos w row column)"
    and "unat (mSlotsOffset w) \<le> slot_pos w row column" "slot_pos w row column + 16 \<le> unat (mSize w)"
proof -
  note ok = assms(1) [unfolded cw_ok_def]
  note n = slot_number [OF assms]
  have nz: "mNumRows w \<noteq> 0" using assms(2) by auto
  define s t k where "s = unat (mSize w)" and "t = unat (mSlotsOffset w)"
    and "k = 16 * (unat row * unat (mNumColumns w) + unat column)"
  have p: "mSlotsStart w = int s - 16" "mSlotsEnd w = int t" "k + 16 + t \<le> s"
    using cw_okD(7) [OF assms(1)] cw_okD(9) [OF assms(1) nz] n(2)
    unfolding s_def t_def k_def kSlotSize of_nat_numeral by blast+
  then have "\<not> int s - 16 - int k < int t" "\<not> int s - 16 - int k > int s - 16" "nat (int s - 16 - int k) = s - 16 - k"
    by linarith+
  then show "getFieldSlot w row column = Some (slot_pos w row column)"
    unfolding getFieldSlot_def Let_def n(1) k_def [symmetric] p slot_pos_def s_def [symmetric]
    using assms(3) by simp
  show "unat (mSlotsOffset w) \<le> slot_pos w row column" "slot_pos w row column + 16 \<le> unat (mSize w)"
    using n by (auto simp: slot_pos_def)
qed

lemma cw_ok_data:
  "cw_ok w \<Longrightarrow> length d = length (mData w) \<Longrightarrow> cw_ok (w\<lparr>mData := d\<rparr>)"
  by (simp add: cw_ok_def)

lemma set_slot_ok:
  assumes "header_ok H" "p + 16 \<le> length (mData w)" "length val = 8"
  shows "\<exists>d. set_slot H w p t val = Some (w\<lparr>mData := d\<rparr>) \<and> length d = length (mData w)
    \<and> (\<forall>j n. j + n \<le> p \<or> p + 16 \<le> j \<longrightarrow> slice d j n = slice (mData w) j n)
    \<and> slice d (p + typeOffset H) 4 = Some (put32 (typeCode H t)) \<and> slice d (p + dataOffset H) 8 = Some val"
proof -
  have h: "typeOffset H + 4 \<le> 16" "dataOffset H + 8 \<le> 16"
    "typeOffset H + 4 \<le> dataOffset H \<or> dataOffset H + 8 \<le> typeOffset H"
    using assms(1) by (simp_all add: header_ok_def)
  obtain d1 where d1: "poke (mData w) (p + typeOffset H) (put32 (typeCode H t)) = Some d1"
    using poke_fits [of "p + typeOffset H" "put32 (typeCode H t)" "mData w"] h assms(2) by auto
  note l1 = poke_length [OF d1]
  obtain d2 where d2: "poke d1 (p + dataOffset H) val = Some d2"
    using poke_fits [of "p + dataOffset H" val d1] h assms(2,3) l1 by auto
  have fr: "slice d2 j n = slice (mData w) j n" if "j + n \<le> p \<or> p + 16 \<le> j" for j n
    using slice_poke_other [OF d2, of j n] slice_poke_other [OF d1, of j n] that h assms(3) by auto
  have ty: "slice d2 (p + typeOffset H) 4 = Some (put32 (typeCode H t))"
    using slice_poke_other [OF d2, of "p + typeOffset H" 4] slice_poke_same [OF d1] h assms(3) by auto
  have da: "slice d2 (p + dataOffset H) 8 = Some val" using slice_poke_same [OF d2] assms(3) by simp
  show ?thesis
    using poke_length [OF d2] l1 fr ty da by (intro exI [of _ d2]) (simp add: set_slot_def d1 d2)
qed

lemma aligned: "n \<le> (n + 3) div 4 * 4" for n :: nat
  by linarith

lemma alloc_ok:
  assumes "header_ok H" "cw_ok w"
  shows "\<exists>st off w'. alloc H e n w = Some (st, off, w') \<and> cw_ok w' \<and> slots w' = slots w
    \<and> mNumRows w' = mNumRows w \<and> mNumColumns w' = mNumColumns w \<and> mReadOnly w' = mReadOnly w
    \<and> take (unat (mAllocOffset w)) (mData w') = heap w
    \<and> (st \<noteq> OK \<longrightarrow> mAllocOffset w' = mAllocOffset w)
    \<and> (st = OK \<longrightarrow> off = mAllocOffset w \<and> unat off + n \<le> unat (mAllocOffset w'))"
proof (cases "mReadOnly w")
  case True
  then show ?thesis using assms(2) by (auto simp: alloc_def heap_def)
next
  case False
  define a where "a = (n + 3) div 4 * 4"
  have "\<exists>w1. (if unat (mAllocOffset w) + a > unat (mSlotsOffset w) then map_option snd (maybeInflate H e w) else Some w)
      = Some w1 \<and> cw_ok w1 \<and> same_table w w1"
    using maybeInflate_ok [OF assms, of e] assms(2) by (auto simp: same_table_def)
  then obtain w1 where w1: "(if unat (mAllocOffset w) + a > unat (mSlotsOffset w) then map_option snd (maybeInflate H e w)
      else Some w) = Some w1" "cw_ok w1" "same_table w w1" by blast
  note same = w1(3) [unfolded same_table_def]
  have heap1: "take (unat (mAllocOffset w)) (mData w1) = heap w" using same unfolding heap_def by metis
  show ?thesis
  proof (cases "unat (mAllocOffset w) + a > unat (mSlotsOffset w1)")
    case True
    then show ?thesis using w1 same heap1 False
      unfolding alloc_def a_def [symmetric] Let_def by (auto simp: heap_def)
  next
    case fit: False
    let ?new = "unat (mAllocOffset w) + a"
    have "?new < 2 ^ 31" using fit cw_okD(3,4,5) [OF w1(2)] by linarith
    then have un: "unat (word_of_nat ?new :: u32) = ?new" by (rule word_of_small)
    have "cw_ok (w1\<lparr>mAllocOffset := word_of_nat ?new\<rparr>)"
      using w1(2) fit un unfolding cw_ok_def by simp
    moreover have "slots (w1\<lparr>mAllocOffset := word_of_nat ?new\<rparr>) = slots w" using same by (simp add: slots_def)
    moreover have "n \<le> a" unfolding a_def by (rule aligned)
    moreover have "alloc H e n w = Some (OK, mAllocOffset w, w1\<lparr>mAllocOffset := word_of_nat ?new\<rparr>)"
      unfolding alloc_def a_def [symmetric] Let_def w1(1) using False fit same by (simp del: of_nat_add)
    ultimately show ?thesis using same heap1 un by (simp del: of_nat_add)
  qed
qed

lemma row_offset_fits:
  assumes "cw_ok w" "n < 2 ^ 21" "unat (mAllocOffset w) + n \<le> unat (mSlotsOffset w)"
  shows "row_offset w n = word_of_nat (unat (mSlotsOffset w) - n)"
    "unat (row_offset w n) = unat (mSlotsOffset w) - n" "\<not> sint (row_offset w n) < sint (mAllocOffset w)"
proof -
  have s: "unat (mSlotsOffset w) < 2 ^ 31" using cw_okD(3,4,5) [OF assms(1)] by linarith
  have "int (unat (mSlotsOffset w)) - int n = int (unat (mSlotsOffset w) - n)" using assms(3) by linarith
  then show r: "row_offset w n = word_of_nat (unat (mSlotsOffset w) - n)"
    unfolding row_offset_def by (simp only: of_int_of_nat_eq)
  then show u: "unat (row_offset w n) = unat (mSlotsOffset w) - n" using s by (simp add: word_of_small)
  have "unat (row_offset w n) < 2 ^ 31" "unat (mAllocOffset w) < 2 ^ 31" "unat (mAllocOffset w) \<le> unat (row_offset w n)"
    using s u assms(3) cw_okD(2) [OF assms(1)] by linarith+
  then show "\<not> sint (row_offset w n) < sint (mAllocOffset w)"
    using sint_unat [of "row_offset w n"] sint_unat [of "mAllocOffset w"] by linarith
qed

lemma row_offset_full:
  assumes "cw_ok w" "n < 2 ^ 21" "unat (mSlotsOffset w) < unat (mAllocOffset w) + n"
  shows "sint (row_offset w n) < sint (mAllocOffset w)"
proof -
  have s: "unat (mSlotsOffset w) < 2 ^ 31" "unat (mAllocOffset w) < 2 ^ 31"
    using cw_okD(2,3,4,5) [OF assms(1)] by linarith+
  have b: "int (unat (mSlotsOffset w)) < 2 ^ 31" "int n < 2 ^ 31"
    using sint_unat [OF s(1)] sint_lt [of "mSlotsOffset w"] assms(2) by simp_all
  have "- (2 ^ 31) \<le> int (unat (mSlotsOffset w)) - int n" using b(2) by linarith
  moreover have "int (unat (mSlotsOffset w)) - int n < 2 ^ 31" using b(1) by linarith
  ultimately have "sint (row_offset w n) = int (unat (mSlotsOffset w)) - int n"
    unfolding row_offset_def by (rule sint_small)
  then show ?thesis using assms(3) sint_unat [OF s(2)] by linarith
qed

lemma cw_ok_row:
  assumes "cw_ok w" "unat o' = unat (mSlotsOffset w) - n" "n = unat (mNumColumns w) * 16" "length d = length (mData w)"
    "unat (mAllocOffset w) + n \<le> unat (mSlotsOffset w)"
  shows "cw_ok (updateSlotsData (w\<lparr>mData := d, mSlotsOffset := o'\<rparr>)\<lparr>mNumRows := mNumRows w + 1\<rparr>)"
proof -
  have eq: "unat o' + unat (mNumRows w + 1) * unat (mNumColumns w) * 16 = unat (mSize w)"
  proof (cases "mNumColumns w = 0")
    case True
    then show ?thesis using assms(2,3) cw_okD(3) [OF assms(1)] by simp
  next
    case False
    then have c: "1 \<le> unat (mNumColumns w)" by (simp add: Suc_le_eq unat_gt_0)
    have "unat (mNumRows w) * 1 * 16 \<le> unat (mNumRows w) * unat (mNumColumns w) * 16"
      using c by (intro mult_mono) auto
    then have "unat (mNumRows w) * 16 < 2 ^ 31" using cw_okD(3,4,5) [OF assms(1)] unfolding kSlotSize by linarith
    then have "unat (mNumRows w) + 1 < 2 ^ 32" by simp
    then have "unat (mNumRows w + 1) = unat (mNumRows w) + 1"
      using unat_of_nat32 [of "unat (mNumRows w) + 1"] by (simp add: add.commute)
    then show ?thesis using assms(2,3,5) cw_okD(3) [OF assms(1)] by (simp add: algebra_simps)
  qed
  moreover have "unat (mAllocOffset w) \<le> unat o'" using assms(2,5) by linarith
  ultimately show ?thesis
    using assms(4) cw_okD [OF assms(1)] unfolding cw_ok_def by (simp add: updateSlotsData_def)
qed

text \<open>A row is added exactly when the slots fit above the data, if need be after inflating.\<close>

lemma allocRow_ok:
  assumes "header_ok H" "cw_ok w"
  shows "\<exists>st w'. allocRow H e w = Some (st, w') \<and> cw_ok w' \<and> heap w' = heap w
    \<and> mNumColumns w' = mNumColumns w \<and> mReadOnly w' = mReadOnly w
    \<and> (st \<noteq> OK \<longrightarrow> slots w' = slots w \<and> mNumRows w' = mNumRows w)
    \<and> (st = OK \<longrightarrow> slots w' = replicate (unat (mNumColumns w) * 16) 0 @ slots w \<and> mNumRows w' = mNumRows w + 1)"
proof (cases "mReadOnly w")
  case True
  then show ?thesis using assms(2) by (auto simp: allocRow_def)
next
  case False
  define n where "n = unat (mNumColumns w) * kSlotSizeBytes"
  have n: "n < 2 ^ 21" using cw_okD(6) [OF assms(2)] by (simp add: n_def)
  have "\<exists>w1. (if sint (row_offset w n) < sint (mAllocOffset w) then map_option snd (maybeInflate H e w) else Some w)
      = Some w1 \<and> cw_ok w1 \<and> same_table w w1"
    using maybeInflate_ok [OF assms, of e] assms(2) by (auto simp: same_table_def)
  then obtain w1 where w1: "(if sint (row_offset w n) < sint (mAllocOffset w) then map_option snd (maybeInflate H e w)
      else Some w) = Some w1" "cw_ok w1" "same_table w w1" by blast
  note same = w1(3) [unfolded same_table_def]
  note def = allocRow_def [of H e w, folded n_def, unfolded Let_def w1(1) bind.simps]
  show ?thesis
  proof (cases "unat (mSlotsOffset w1) < unat (mAllocOffset w1) + n")
    case True
    then show ?thesis using row_offset_full [OF w1(2) n True] w1 same False by (simp add: def)
  next
    case fit: False
    then have le: "unat (mAllocOffset w1) + n \<le> unat (mSlotsOffset w1)" by simp
    note ro = row_offset_fits [OF w1(2) n le]
    let ?o = "unat (mSlotsOffset w1) - n"
    have so: "unat (mSlotsOffset w1) \<le> unat (mSize w1)" using cw_okD(3) [OF w1(2)] by linarith
    have low: "unat (mAllocOffset w1) \<le> ?o" "unat (mAllocOffset w1) \<le> unat (mSize w1)" using le so by linarith+
    have len: "?o + n = unat (mSlotsOffset w1)" "?o + n \<le> length (mData w1)"
      using le so cw_okD(1) [OF w1(2)] by linarith+
    obtain d where d: "poke (mData w1) ?o (replicate n 0) = Some d"
      using poke_fits [of ?o "replicate n 0" "mData w1"] len(2) by auto
    have p: "offsetToPtr w1 (row_offset w1 n) 0 = Some ?o"
      using ro(2) so le by (simp add: offsetToPtr_def word_le_nat_alt not_less)
    let ?w1 = "updateSlotsData (w1\<lparr>mData := d, mSlotsOffset := row_offset w1 n\<rparr>)"
    let ?w2 = "?w1\<lparr>mNumRows := mNumRows ?w1 + 1\<rparr>"
    have ld: "length d = length (mData w1)" using poke_length [OF d] .
    have "cw_ok ?w2" using cw_ok_row [OF w1(2) ro(2) _ ld le] same by (simp add: n_def updateSlotsData_def)
    moreover have "heap ?w2 = heap w1"
      using slice_poke_other [OF d, of 0 "unat (mAllocOffset w1)"] low ld cw_okD(1) [OF w1(2)] so
      by (simp add: heap_def updateSlotsData_def slice_def)
    moreover have "slots ?w2 = replicate n 0 @ slots w1"
      using d len ro(2) by (auto simp: slots_def updateSlotsData_def poke_def split: if_splits)
    moreover have "allocRow H e w = Some (OK, ?w2)"
      using False ro(3) by (simp add: def p d)
    ultimately show ?thesis using same by (simp add: updateSlotsData_def n_def)
  qed
qed

lemma clear_ok: "cw_ok w \<Longrightarrow> cw_ok (snd (clear w))"
  by (auto simp: clear_def cw_ok_def)

lemma setNumColumns_ok: "cw_ok w \<Longrightarrow> unat n < 2 ^ 16 \<Longrightarrow> cw_ok (snd (setNumColumns n w))"
  by (auto simp: setNumColumns_def cw_ok_def word_gt_0)

lemma freeLastRow_ok:
  assumes "cw_ok w"
  shows "cw_ok (snd (freeLastRow w))"
proof (cases "mReadOnly w \<or> unat (mSlotsOffset w) + unat (mNumColumns w) * 16 > unat (mSize w)")
  case True
  then show ?thesis using assms by (auto simp: freeLastRow_def Let_def)
next
  case False
  define s c r o' where "s = unat (mSize w)" and "c = unat (mNumColumns w)" and "r = unat (mNumRows w)"
    and "o' = unat (mSlotsOffset w)"
  note d = s_def c_def r_def o'_def
  have le: "o' + c * 16 \<le> s" "o' + r * c * 16 = s" "s < 2 ^ 31"
    using False cw_okD(3-5) [OF assms] unfolding d kSlotSize by linarith+
  then have un: "unat (word_of_nat (o' + c * 16) :: u32) = o' + c * 16" by (intro word_of_small) linarith
  have eq: "o' + c * 16 + unat (mNumRows w - 1) * c * 16 = s"
  proof (cases "c = 0")
    case False
    then have "r \<noteq> 0" using le by (cases r) auto
    then have "mNumRows w \<noteq> 0" by (auto simp: r_def)
    then have "unat (mNumRows w - 1) = r - 1" unfolding r_def by (rule unat_minus_one)
    then show ?thesis using le(2) \<open>r \<noteq> 0\<close> by (cases r) (auto simp: algebra_simps)
  qed (use le in simp)
  moreover have "unat (mAllocOffset w) \<le> o' + c * 16" using cw_okD(2) [OF assms] unfolding d by linarith
  ultimately have "cw_ok (updateSlotsData (w\<lparr>mSlotsOffset := word_of_nat (o' + c * 16)\<rparr>)
      \<lparr>mNumRows := mNumRows w - 1\<rparr>)"
    using un cw_okD [OF assms] unfolding cw_ok_def by (simp add: updateSlotsData_def d del: of_nat_add of_nat_mult)
  then show ?thesis using False by (simp add: freeLastRow_def Let_def updateSlotsData_def d)
qed

lemma put_scalar_ok:
  assumes "header_ok H" "cw_ok w" "row < mNumRows w" "length val = 8"
  shows "\<exists>st w'. put_scalar H row column t val w = Some (st, w') \<and> cw_ok w'"
proof (cases "mReadOnly w \<or> getFieldSlot w row column = None")
  case True
  then show ?thesis using assms(2) by (auto simp: put_scalar_def)
next
  case False
  then have c: "column < mNumColumns w" by (auto simp: getFieldSlot_def Let_def not_le split: if_splits)
  note slot = getFieldSlot_in [OF assms(2,3) c]
  have "slot_pos w row column + 16 \<le> length (mData w)" using slot(3) cw_okD(1) [OF assms(2)] by simp
  from set_slot_ok [OF assms(1) this assms(4), of t]
  show ?thesis using False cw_ok_data [OF assms(2)] by (auto simp: put_scalar_def slot(1))
qed

text \<open>The bytes of a field slot, named by row and column.\<close>

definition slot_bytes :: "CursorWindow \<Rightarrow> u32 \<Rightarrow> u32 \<Rightarrow> bytes option" where
  "slot_bytes w row column = slice (mData w) (slot_pos w row column) 16"

lemma slot_bytes_slots:
  assumes "cw_ok w" "row < mNumRows w" "column < mNumColumns w"
  shows "slot_bytes w row column
    = slice (slots w) (unat (mNumRows w) * unat (mNumColumns w) * 16 - 16 - 16 * (unat row * unat (mNumColumns w) + unat column)) 16"
proof -
  define s c r o' k where "s = unat (mSize w)" and "c = unat (mNumColumns w)" and "r = unat (mNumRows w)"
    and "o' = unat (mSlotsOffset w)" and "k = unat row * c + unat column"
  have p: "slot_pos w row column = s - 16 - 16 * k" by (simp add: slot_pos_def s_def k_def c_def)
  have le: "o' + r * c * 16 = s" "length (mData w) = s" "16 * k + 16 + o' \<le> s"
    using cw_okD(1,3) [OF assms(1)] slot_number(2) [OF assms] unfolding s_def c_def r_def o'_def k_def kSlotSize by auto
  have "s - 16 - 16 * k = o' + (r * c * 16 - 16 - 16 * k)" "r * c * 16 - 16 - 16 * k + 16 \<le> s - o'"
    using le by linarith+
  then show ?thesis
    unfolding slot_bytes_def p unfolding slots_def s_def [symmetric] c_def [symmetric] r_def [symmetric] o'_def [symmetric] k_def [symmetric]
    using le by (simp add: slice_def add.commute)
qed

lemma slot_bytes_same:
  assumes "cw_ok w" "cw_ok w'" "slots w' = slots w" "mNumRows w' = mNumRows w" "mNumColumns w' = mNumColumns w"
    "row < mNumRows w" "column < mNumColumns w"
  shows "slot_bytes w' row column = slot_bytes w row column"
  using assms slot_bytes_slots [OF assms(1,6,7)] slot_bytes_slots [OF assms(2)] by simp

lemma slot_index_inj:
  fixes c :: nat
  assumes "a < c" "b < c" "x * c + a = y * c + b"
  shows "x = y \<and> a = b"
proof -
  have "(x * c + a) div c = x" "(y * c + b) div c = y" "(x * c + a) mod c = a" "(y * c + b) mod c = b"
    using assms(1,2) by auto
  then show ?thesis using assms(3) by metis
qed

lemma slot_pos_disjoint:
  assumes "cw_ok w" "row < mNumRows w" "column < mNumColumns w" "r < mNumRows w" "c < mNumColumns w"
    "(r, c) \<noteq> (row, column)"
  shows "slot_pos w r c + 16 \<le> slot_pos w row column \<or> slot_pos w row column + 16 \<le> slot_pos w r c"
proof -
  define n where "n = unat (mNumColumns w)"
  define k k' where "k = unat row * n + unat column" and "k' = unat r * n + unat c"
  have "unat column < n" "unat c < n" using assms(3,5) by (simp_all add: n_def word_less_nat_alt)
  then have "k \<noteq> k'" using assms(6) slot_index_inj [of "unat column" n "unat c" "unat row" "unat r"]
    by (auto simp: k_def k'_def word_unat_eq_iff)
  moreover have "slot_pos w row column = unat (mSize w) - 16 - 16 * k" "slot_pos w r c = unat (mSize w) - 16 - 16 * k'"
    by (simp_all add: slot_pos_def k_def k'_def n_def)
  moreover have "16 * k + 16 \<le> unat (mSize w)" "16 * k' + 16 \<le> unat (mSize w)"
    using slot_number(2) [OF assms(1-3)] slot_number(2) [OF assms(1,4,5)] unfolding k_def k'_def n_def by linarith+
  ultimately show ?thesis by linarith
qed

text \<open>What a reader of a string or blob field sees: the slot's offset and size, then the bytes.\<close>

definition blob_at :: "cw_header \<Rightarrow> CursorWindow \<Rightarrow> u32 \<Rightarrow> u32 \<Rightarrow> bytes option" where
  "blob_at H w row column = do {
     p \<leftarrow> getFieldSlot w row column;
     offset \<leftarrow> rd32 (mData w) (p + dataOffset H);
     size' \<leftarrow> rd32 (mData w) (p + dataOffset H + 4);
     slice (mData w) (unat offset) (unat size') }"

lemma slice_split: "slice b i (m + n) = Some (xs @ ys) \<Longrightarrow> length xs = m \<Longrightarrow> slice b i m = Some xs \<and> slice b (i + m) n = Some ys"
  by (auto simp: slice_def take_add append_eq_append_conv add.commute split: if_splits)

definition other_slots_kept :: "CursorWindow \<Rightarrow> CursorWindow \<Rightarrow> u32 \<Rightarrow> u32 \<Rightarrow> bool" where
  "other_slots_kept w w' row column \<longleftrightarrow>
     (\<forall>r c. r < mNumRows w \<longrightarrow> c < mNumColumns w \<longrightarrow> (r, c) \<noteq> (row, column) \<longrightarrow> slot_bytes w' r c = slot_bytes w r c)"

lemma other_slots_keptI:
  assumes "cw_ok w" "row < mNumRows w" "column < mNumColumns w"
    and d: "\<And>j n. unat (mSlotsOffset w) \<le> j \<Longrightarrow> j + n \<le> slot_pos w row column \<or> slot_pos w row column + 16 \<le> j
      \<Longrightarrow> slice d j n = slice (mData w) j n"
  shows "other_slots_kept w (w\<lparr>mData := d\<rparr>) row column"
  unfolding other_slots_kept_def
proof (intro allI impI)
  fix r c assume rc: "r < mNumRows w" "c < mNumColumns w" "(r, c) \<noteq> (row, column)"
  have "slice d (slot_pos w r c) 16 = slice (mData w) (slot_pos w r c) 16"
    using d getFieldSlot_in(2) [OF assms(1) rc(1,2)] slot_pos_disjoint [OF assms(1-3) rc] by blast
  then show "slot_bytes (w\<lparr>mData := d\<rparr>) r c = slot_bytes w r c" by (simp add: slot_bytes_def slot_pos_def)
qed

lemma slot_of_data [simp]: "getFieldSlot (w\<lparr>mData := d\<rparr>) = getFieldSlot w" "slot_pos (w\<lparr>mData := d\<rparr>) = slot_pos w"
  by (auto simp: getFieldSlot_def slot_pos_def fun_eq_iff)

text \<open>The value is copied into the data area and its slot filled; everything else stays.\<close>

lemma store_blob:
  assumes "header_ok H" "cw_ok w" "row < mNumRows w" "column < mNumColumns w"
    "unat off + length val \<le> unat (mSlotsOffset w)"
  shows "\<exists>d d'. poke (mData w) (unat off) val = Some d
    \<and> set_slot H (w\<lparr>mData := d\<rparr>) (slot_pos w row column) t (put32 off @ put32 (word_of_nat (length val))) = Some (w\<lparr>mData := d'\<rparr>)
    \<and> cw_ok (w\<lparr>mData := d'\<rparr>) \<and> other_slots_kept w (w\<lparr>mData := d'\<rparr>) row column \<and> take (unat off) d' = take (unat off) (mData w)
    \<and> blob_at H (w\<lparr>mData := d'\<rparr>) row column = Some val
    \<and> slice d' (slot_pos w row column + typeOffset H) 4 = Some (put32 (typeCode H t))
    \<and> slice d' (slot_pos w row column + dataOffset H) 8 = Some (put32 off @ put32 (word_of_nat (length val)))
    \<and> slice d' (unat off) (length val) = Some val"
proof -
  let ?p = "slot_pos w row column" and ?v = "put32 off @ put32 (word_of_nat (length val))"
  note slot = getFieldSlot_in [OF assms(2-4)]
  have top: "unat (mSlotsOffset w) \<le> length (mData w)" "length (mData w) = unat (mSize w)"
    using cw_okD(1,3) [OF assms(2)] by linarith+
  obtain d where d: "poke (mData w) (unat off) val = Some d"
    using poke_fits [of "unat off" val "mData w"] assms(5) top by auto
  note ld = poke_length [OF d]
  have "?p + 16 \<le> length (mData (w\<lparr>mData := d\<rparr>))" using slot(3) ld top by simp
  from set_slot_ok [OF assms(1) this, of ?v t]
  obtain d' where d': "set_slot H (w\<lparr>mData := d\<rparr>) ?p t ?v = Some (w\<lparr>mData := d'\<rparr>)" "length d' = length d"
    "\<forall>j n. j + n \<le> ?p \<or> ?p + 16 \<le> j \<longrightarrow> slice d' j n = slice d j n"
    "slice d' (?p + typeOffset H) 4 = Some (put32 (typeCode H t))" "slice d' (?p + dataOffset H) 8 = Some ?v"
    by auto
  have ok: "cw_ok (w\<lparr>mData := d'\<rparr>)" using cw_ok_data [OF assms(2)] d'(2) ld by simp
  have others: "other_slots_kept w (w\<lparr>mData := d'\<rparr>) row column"
    using d'(3) slice_poke_other [OF d] assms(5) by (intro other_slots_keptI [OF assms(2-4)]) auto
  have "slice d' 0 (unat off) = slice (mData w) 0 (unat off)"
    using d'(3) slot(2) assms(5) slice_poke_other [OF d, of 0 "unat off"] by auto
  then have low: "take (unat off) d' = take (unat off) (mData w)"
    using assms(5) top d'(2) ld by (auto simp: slice_def)
  have body: "slice d' (unat off) (length val) = Some val"
    using d'(3) slot(2) assms(5) slice_poke_same [OF d] by auto
  have small: "unat (word_of_nat (length val) :: u32) = length val"
    using assms(5) top cw_okD(4,5) [OF assms(2)] by (intro word_of_small) linarith
  have "rd32 d' (?p + dataOffset H) = Some off" "rd32 d' (?p + dataOffset H + 4) = Some (word_of_nat (length val))"
    using slice_split [of d' "?p + dataOffset H" 4 4 "put32 off"] d'(5) by (auto intro!: f32.rd_slice)
  then have "blob_at H (w\<lparr>mData := d'\<rparr>) row column = Some val"
    using slot(1) body small by (simp add: blob_at_def)
  then show ?thesis using d d'(1,4,5) ok others low body by blast
qed

lemma putBlobOrString_ok:
  assumes "header_ok H" "cw_ok w" "row < mNumRows w"
  shows "\<exists>st w'. putBlobOrString H e row column val t w = Some (st, w') \<and> cw_ok w'
    \<and> (column < mNumColumns w \<longrightarrow> other_slots_kept w w' row column
        \<and> take (unat (mAllocOffset w)) (mData w') = heap w
        \<and> mNumRows w' = mNumRows w \<and> mNumColumns w' = mNumColumns w \<and> mReadOnly w' = mReadOnly w
        \<and> mAllocOffset w \<le> mAllocOffset w'
        \<and> (st = OK \<longrightarrow> blob_at H w' row column = Some val
            \<and> slice (mData w') (slot_pos w' row column + typeOffset H) 4 = Some (put32 (typeCode H t))
            \<and> (\<exists>off. slice (mData w') (slot_pos w' row column + dataOffset H) 8 = Some (put32 off @ put32 (word_of_nat (length val)))
                 \<and> unat off + length val \<le> unat (mAllocOffset w') \<and> slice (mData w') (unat off) (length val) = Some val)))"
proof (cases "mReadOnly w \<or> getFieldSlot w row column = None")
  case True
  then show ?thesis using assms(2)
    by (auto simp: putBlobOrString_def other_slots_kept_def heap_def getFieldSlot_in(1) [OF assms(2,3)])
next
  case False
  then have c: "column < mNumColumns w" by (auto simp: getFieldSlot_def Let_def not_le split: if_splits)
  obtain st off w1 where a: "alloc H e (length val) w = Some (st, off, w1)" "cw_ok w1" "slots w1 = slots w"
    "mNumRows w1 = mNumRows w" "mNumColumns w1 = mNumColumns w" "take (unat (mAllocOffset w)) (mData w1) = heap w"
    "st = OK \<Longrightarrow> off = mAllocOffset w \<and> unat off + length val \<le> unat (mAllocOffset w1)"
    "mReadOnly w1 = mReadOnly w" "st \<noteq> OK \<Longrightarrow> mAllocOffset w1 = mAllocOffset w"
    using alloc_ok [OF assms(1,2), of e "length val"] by metis
  have kept: "slot_bytes w1 r c = slot_bytes w r c" if "r < mNumRows w" "c < mNumColumns w" for r c
    using slot_bytes_same [OF assms(2) a(2-5) that] .
  note run = putBlobOrString_def [of H e row column val t w, unfolded getFieldSlot_in(1) [OF assms(2,3) c] a(1)]
  show ?thesis
  proof (cases "st = OK")
    case False
    then show ?thesis using a kept \<open>\<not> (mReadOnly w \<or> _)\<close> by (auto simp: run other_slots_kept_def)
  next
    case st: True
    note off = a(7) [OF st]
    have room: "unat off + length val \<le> unat (mSlotsOffset w1)" "unat (mSlotsOffset w1) \<le> unat (mSize w1)"
      using off cw_okD(2,3) [OF a(2)] by linarith+
    then have p: "offsetToPtr w1 off 0 = Some (unat off)"
      by (simp add: offsetToPtr_def not_less word_le_nat_alt)
    have rc: "row < mNumRows w1" "column < mNumColumns w1" using assms(3) c a(4,5) by auto
    from store_blob [OF assms(1) a(2) rc room(1), of t] obtain d d' where
      d: "poke (mData w1) (unat off) val = Some d"
      "set_slot H (w1\<lparr>mData := d\<rparr>) (slot_pos w1 row column) t (put32 off @ put32 (word_of_nat (length val))) = Some (w1\<lparr>mData := d'\<rparr>)"
      "cw_ok (w1\<lparr>mData := d'\<rparr>)" "other_slots_kept w1 (w1\<lparr>mData := d'\<rparr>) row column" "take (unat off) d' = take (unat off) (mData w1)"
      "blob_at H (w1\<lparr>mData := d'\<rparr>) row column = Some val"
      "slice d' (slot_pos w1 row column + typeOffset H) 4 = Some (put32 (typeCode H t))"
      "slice d' (slot_pos w1 row column + dataOffset H) 8 = Some (put32 off @ put32 (word_of_nat (length val)))"
      "slice d' (unat off) (length val) = Some val" by blast
    have "putBlobOrString H e row column val t w = Some (OK, w1\<lparr>mData := d'\<rparr>)"
      using False st getFieldSlot_in(1) [OF a(2) rc] d(2) by (simp add: run p d(1))
    moreover have "other_slots_kept w (w1\<lparr>mData := d'\<rparr>) row column"
      using d(4) kept a(4,5) by (simp add: other_slots_kept_def)
    moreover have "mAllocOffset w \<le> mAllocOffset w1" using off by (auto simp: word_le_nat_alt)
    ultimately show ?thesis using d(3,5-9) off a(4-6,8) by auto
  qed
qed

section \<open>A client of the window\<close>

text \<open>
  The calls of the SQLite result copier: it fills only rows it has allocated, and SQLite has at most
  32767 columns. Each call comes with the outcomes of the system calls it may make.
\<close>

datatype cw_op = CwSetNumColumns u32 | CwClear | CwAllocRow | CwFreeLastRow
  | CwPutLong u32 u32 u64 | CwPutDouble u32 u32 u64 | CwPutNull u32 u32
  | CwPutBlob u32 u32 bytes | CwPutString u32 u32 bytes

fun cw_call :: "cw_header \<Rightarrow> cw_env \<Rightarrow> cw_op \<Rightarrow> CursorWindow \<Rightarrow> (status \<times> CursorWindow) option" where
  "cw_call H e (CwSetNumColumns n) w = Some (setNumColumns n w)"
| "cw_call H e CwClear w = Some (clear w)"
| "cw_call H e CwAllocRow w = allocRow H e w"
| "cw_call H e CwFreeLastRow w = Some (freeLastRow w)"
| "cw_call H e (CwPutLong r c v) w = putLong H r c v w"
| "cw_call H e (CwPutDouble r c v) w = putDouble H r c v w"
| "cw_call H e (CwPutNull r c) w = putNull H r c w"
| "cw_call H e (CwPutBlob r c v) w = putBlob H e r c v w"
| "cw_call H e (CwPutString r c v) w = putString H e r c v w"

fun cw_allowed :: "cw_op \<Rightarrow> CursorWindow \<Rightarrow> bool" where
  "cw_allowed (CwSetNumColumns n) w \<longleftrightarrow> unat n < 2 ^ 16"
| "cw_allowed CwClear w \<longleftrightarrow> True"
| "cw_allowed CwAllocRow w \<longleftrightarrow> True"
| "cw_allowed CwFreeLastRow w \<longleftrightarrow> True"
| "cw_allowed (CwPutLong r c v) w \<longleftrightarrow> r < mNumRows w"
| "cw_allowed (CwPutDouble r c v) w \<longleftrightarrow> r < mNumRows w"
| "cw_allowed (CwPutNull r c) w \<longleftrightarrow> r < mNumRows w"
| "cw_allowed (CwPutBlob r c v) w \<longleftrightarrow> r < mNumRows w"
| "cw_allowed (CwPutString r c v) w \<longleftrightarrow> r < mNumRows w"

definition cw_step :: "cw_header \<Rightarrow> CursorWindow option \<Rightarrow> cw_env \<times> cw_op \<Rightarrow> CursorWindow option" where
  "cw_step H s x = do { w \<leftarrow> s; if cw_allowed (snd x) w then map_option snd (cw_call H (fst x) (snd x) w) else Some w }"

definition cw_inv :: "cw_header \<Rightarrow> CursorWindow option \<Rightarrow> bool" where
  "cw_inv H s \<longleftrightarrow> header_ok H \<longrightarrow> (\<exists>w. s = Some w \<and> cw_ok w)"

lemma put64_width: "length (put64 v) = 8" "length (put32 0 @ put32 0) = 8"
  by (simp_all add: f64.enc_width f32.enc_width)

lemma cw_call_ok:
  assumes "header_ok H" "cw_ok w" "cw_allowed x w"
  shows "\<exists>st w'. cw_call H e x w = Some (st, w') \<and> cw_ok w'"
proof (cases x)
  case (CwSetNumColumns n)
  then show ?thesis using setNumColumns_ok [OF assms(2), of n] assms(3) by (cases "setNumColumns n w") simp
next
  case CwClear
  then show ?thesis using clear_ok [OF assms(2)] by (cases "clear w") simp
next
  case CwAllocRow
  then show ?thesis using allocRow_ok [OF assms(1,2), of e] by auto
next
  case CwFreeLastRow
  then show ?thesis using freeLastRow_ok [OF assms(2)] by (cases "freeLastRow w") simp
qed (use assms put_scalar_ok [OF assms(1,2)] putBlobOrString_ok [OF assms(1,2)] put64_width in
     \<open>fastforce simp: putLong_def putDouble_def putNull_def putBlob_def putString_def\<close>)+

interpretation cursor: op_machine "cw_step H" "cw_inv H" for H
proof
  fix s x assume "cw_inv H s"
  then show "cw_inv H (cw_step H s x)"
    using cw_call_ok [of H _ "snd x" "fst x"] by (fastforce simp: cw_inv_def cw_step_def)
qed

lemma create_ok: "create e name n = (OK, Some w) \<Longrightarrow> n < 2 ^ 31 \<Longrightarrow> cw_ok w"
  by (auto simp: create_def clear_def cw_ok_def updateSlotsData_def Let_def kInlineSize_def word_of_small split: if_splits)

text \<open>The layout of a packed slot: the type, then the eight bytes of the value.\<close>

definition packed_header :: cw_header where
  "packed_header = \<lparr>sizeOfSlots = (\<lambda>w. mSize w - mSlotsOffset w), typeOffset = 0, dataOffset = 4,
     typeCode = (\<lambda>t. case t of FIELD_TYPE_NULL \<Rightarrow> 0 | FIELD_TYPE_INTEGER \<Rightarrow> 1 | FIELD_TYPE_FLOAT \<Rightarrow> 2
       | FIELD_TYPE_STRING \<Rightarrow> 3 | FIELD_TYPE_BLOB \<Rightarrow> 4)\<rparr>"

definition kind_env :: cw_env where
  "kind_env = \<lparr>e_ashmem_create = (\<lambda>_. 7), e_set_prot_rw = True, e_mmap = True, e_set_prot_ro = True,
     e_malloc = (\<lambda>_. True), e_junk = (\<lambda>_. 0)\<rparr>"

lemma packed_header_ok: "header_ok packed_header"
  by (simp add: header_ok_def packed_header_def)

text \<open>
  C7 (cursor_client_safe): a client that creates a window and then makes any sequence of calls,
  filling only rows it allocated, never makes the code write outside the block or through a null
  pointer, whatever the system calls return: at every point the window is well formed, the data
  below the slots, the slots exactly filling the top of the block.
\<close>

theorem cursor_client_safe:
  assumes "header_ok H" "inflatedSize < 2 ^ 31" "create e name inflatedSize = (OK, Some w0)"
  shows "\<exists>w. foldl (cw_step H) (Some w0) calls = Some w \<and> cw_ok w"
  using cursor.run_inv [of H "Some w0" calls] create_ok [OF assms(3,2)] assms(1) by (simp add: cw_inv_def)

theorem cursor_client_safe_witness:
  "\<exists>w. foldl (cw_step packed_header) (snd (create kind_env ''w'' 64))
     [(kind_env, CwSetNumColumns 2), (kind_env, CwAllocRow), (kind_env, CwPutBlob 0 1 [1, 2, 3])] = Some w \<and> cw_ok w"
proof -
  obtain w0 where c: "create kind_env ''w'' 64 = (OK, Some w0)" by (simp add: create_def Let_def kind_env_def)
  show ?thesis unfolding c snd_conv by (rule cursor_client_safe [OF packed_header_ok _ c]) simp
qed

text \<open>
  Fact (putBlob_stores): storing a blob into an allocated cell returns; the window stays well
  formed, every other slot and all data stored before are unchanged, even when the window was
  moved into a larger block, and on success a reader of the cell finds exactly the bytes.
\<close>

theorem putBlob_stores:
  assumes "header_ok H" "cw_ok w" "row < mNumRows w" "column < mNumColumns w"
  shows "\<exists>st w'. putBlob H e row column val w = Some (st, w') \<and> cw_ok w' \<and> other_slots_kept w w' row column
    \<and> take (unat (mAllocOffset w)) (mData w') = heap w \<and> (st = OK \<longrightarrow> blob_at H w' row column = Some val)"
  using putBlobOrString_ok [OF assms(1-3), of e column val FIELD_TYPE_BLOB] assms(4) unfolding putBlob_def by blast

definition one_row :: CursorWindow where
  "one_row = \<lparr>mName = ''w'', mAshmemFd = -1, mData = replicate 64 0, mSize = 64, mInflatedSize = 64, mReadOnly = False,
     mSlotsStart = 48, mSlotsEnd = 32, mSlotsOffset = 32, mAllocOffset = 0, mNumRows = 1, mNumColumns = 2\<rparr>"

theorem putBlob_stores_witness:
  "\<exists>st w'. putBlob packed_header kind_env 0 1 [1, 2, 3] one_row = Some (st, w') \<and> cw_ok w' \<and> other_slots_kept one_row w' 0 1
    \<and> take (unat (mAllocOffset one_row)) (mData w') = heap one_row \<and> (st = OK \<longrightarrow> blob_at packed_header w' 0 1 = Some [1, 2, 3])"
proof (rule putBlob_stores [OF packed_header_ok])
  show "cw_ok one_row" by (simp add: cw_ok_def one_row_def)
qed (simp_all add: one_row_def)

text \<open>Slot numbers are 32-bit words shifted left by four: rows that differ by \<open>2 ^ 28\<close> share their slots.\<close>

text \<open>
  Fact (getFieldSlot_row_alias): \<open>getFieldSlot\<close> does not check the row against the
  number of rows, and its 32-bit slot number wraps: a row index that is too large by \<open>2 ^
  28\<close> names the slot of the lower row in every window.
\<close>

theorem getFieldSlot_row_alias: "getFieldSlot w (row + 2 ^ 28) column = getFieldSlot w row column"
proof -
  have z: "(4294967296 :: u32) = 0" by transfer (simp add: take_bit_eq_mod)
  have wrap: "n * 4294967296 = 0" for n :: u32 unfolding z by simp
  have "push_bit 4 ((row + 2 ^ 28) * n + column) = (push_bit 4 (row * n + column) :: u32)" for n
    by (simp add: push_bit_eq_mult algebra_simps wrap)
  then show ?thesis by (simp only: getFieldSlot_def kSlotShift_def)
qed

text \<open>
  \<open>clear\<close> leaves \<open>mSlotsEnd\<close> behind: in a one-row window of 16 bytes that was cleared, cell \<open>(0, 0)\<close> is
  accepted without a row, and a blob stored there is overwritten by its own slot.
\<close>

definition cleared_window :: "CursorWindow option" where
  "cleared_window = foldl (cw_step packed_header) (snd (create kind_env ''w'' 16))
     [(kind_env, CwSetNumColumns 1), (kind_env, CwAllocRow), (kind_env, CwClear), (kind_env, CwSetNumColumns 1)]"

lemma cleared_window_value:
  "cleared_window = Some \<lparr>mName = ''w'', mAshmemFd = -1, mData = replicate 16 0, mSize = 16, mInflatedSize = 16,
     mReadOnly = False, mSlotsStart = 0, mSlotsEnd = 0, mSlotsOffset = 16, mAllocOffset = 0, mNumRows = 0, mNumColumns = 1\<rparr>"
  by (simp add: cleared_window_def cw_step_def create_def clear_def setNumColumns_def allocRow_def row_offset_def
      offsetToPtr_def updateSlotsData_def kind_env_def kInlineSize_def Let_def poke_def fresh_def upt_rec)

text \<open>
  Fact (clear_stale_slots): after \<open>clear\<close> a window without rows still accepts a cell of
  its former last row, since \<open>clear\<close> does not refresh \<open>mSlotsEnd\<close>; a
  blob that fills the window is reported as stored and then read back with its slot written over
  its first twelve bytes.
\<close>

theorem clear_stale_slots:
  "map_option mNumRows cleared_window = Some 0
   \<and> do { w \<leftarrow> cleared_window; (st, w') \<leftarrow> putBlob packed_header kind_env 0 0 (replicate 16 255) w;
        b \<leftarrow> blob_at packed_header w' 0 0; Some (st, b) }
     = Some (OK, put32 4 @ put32 0 @ put32 16 @ replicate 4 255)"
  proof -
  let ?b = "put32 4 @ put32 0 @ put32 16 @ replicate 4 255"
  have "rd32 ?b 4 = Some 0" "rd32 ?b 8 = Some 16"
    using f32.rd_at [of "put32 4" 0 "put32 16 @ replicate 4 255"] f32.rd_at [of "put32 4 @ put32 0" 16 "replicate 4 255"]
    by simp_all
  then show ?thesis unfolding cleared_window_value
    by (simp add: putBlob_def putBlobOrString_def alloc_def getFieldSlot_def offsetToPtr_def set_slot_def packed_header_def
       blob_at_def poke_def slice_def Let_def kSlotShift_def)
qed

end
