(* ===== verification/SqliteCursor.thy ===== *)
theory SqliteCursor
  imports CursorWindow
begin

text \<open>
  From a query to a cursor window: \<open>copyRow\<close> and \<open>nativeExecuteForCursorWindow\<close> of
  \<open>framework/sqlite/android_database_SQLiteConnection.cpp\<close>, on top of the window of theory \<open>CursorWindow\<close>.
  SQLite is a parameter: the answers of \<open>sqlite3_step\<close> come as a list, a row answer with the values of its
  columns, each answer with the outcomes of the system calls that copying the row may make (once, and
  again after the window was cleared). The statement runs out of answers only if the list does not end
  the query; then the function has not returned yet and its result is \<open>None\<close>, as it is for a signed overflow
  and for a write outside the window.
\<close>

section \<open>State\<close>

datatype sql_value = SqlNull | SqlInteger u64 | SqlFloat u64 | SqlText bytes | SqlBlob bytes | SqlOther

datatype sql_step = STEP_ROW "sql_value list" | STEP_DONE | STEP_LOCKED | STEP_BUSY | STEP_ERROR

datatype CopyRowResult = CPR_OK | CPR_FULL | CPR_ERROR

datatype sql_exception = ClearFailed status | SetColumnsFailed status | UnknownColumnType | RetryCountExceeded
  | DatabaseError | RowTooBig

type_synonym envs = "nat \<Rightarrow> cw_env"

type_synonym answer = "sql_step \<times> envs \<times> envs"

section \<open>Copying a row\<close>

fun put_value :: "cw_header \<Rightarrow> cw_env \<Rightarrow> u32 \<Rightarrow> u32 \<Rightarrow> sql_value \<Rightarrow> CursorWindow \<Rightarrow> (status \<times> CursorWindow) option" where
  "put_value H e row i (SqlText t) w = putString H e row i (t @ [0]) w"
| "put_value H e row i (SqlInteger v) w = putLong H row i v w"
| "put_value H e row i (SqlFloat v) w = putDouble H row i v w"
| "put_value H e row i (SqlBlob b) w = putBlob H e row i b w"
| "put_value H e row i SqlNull w = putNull H row i w"
| "put_value H e row i SqlOther w = None"

text \<open>The loop over the columns, from column \<open>i\<close> on; \<open>e i\<close> is the environment of the call for column \<open>i\<close>.\<close>

fun copy_columns ::
  "cw_header \<Rightarrow> envs \<Rightarrow> u32 \<Rightarrow> nat \<Rightarrow> sql_value list \<Rightarrow> CursorWindow \<Rightarrow> (CopyRowResult \<times> CursorWindow) option" where
  "copy_columns H e row i [] w = Some (CPR_OK, w)"
| "copy_columns H e row i (v # vs) w = (if v = SqlOther then Some (CPR_ERROR, w)
     else do {
       (st, w) \<leftarrow> put_value H (e (i + 1)) row (word_of_nat i) v w;
       if st \<noteq> OK then Some (CPR_FULL, w) else copy_columns H e row (i + 1) vs w })"

definition copyRow :: "cw_header \<Rightarrow> envs \<Rightarrow> sql_value list \<Rightarrow> int \<Rightarrow> CursorWindow \<Rightarrow> (CopyRowResult \<times> CursorWindow) option" where
  "copyRow H e row addedRows w = do {
     (st, w) \<leftarrow> allocRow H (e 0) w;
     if st \<noteq> OK then Some (CPR_FULL, w)
     else do {
       (res, w) \<leftarrow> copy_columns H e (word_of_int addedRows) 0 row w;
       Some (res, if res \<noteq> CPR_OK then snd (freeLastRow w) else w) } }"

section \<open>Filling a window\<close>

record fill =
  retryCount :: int
  totalRows :: int
  addedRows :: int
  startPos :: int
  windowFull :: bool
  gotException :: bool
  thrown :: "sql_exception list"
  fillWindow :: CursorWindow

text \<open>Signed 32-bit arithmetic: a result outside the range is undefined.\<close>

definition int_result :: "int \<Rightarrow> int option" where
  "int_result x = (if - (2 ^ 31) \<le> x \<and> x < 2 ^ 31 then Some x else None)"

definition fill_throw :: "sql_exception \<Rightarrow> fill \<Rightarrow> fill" where
  "fill_throw x f = f\<lparr> thrown := thrown f @ [x], gotException := True \<rparr>"

definition finish_copy :: "CopyRowResult \<Rightarrow> fill \<Rightarrow> fill option" where
  "finish_copy cpr f = (case cpr of
       CPR_OK \<Rightarrow> do { a \<leftarrow> int_result (addedRows f + 1); Some (f\<lparr> addedRows := a \<rparr>) }
     | CPR_FULL \<Rightarrow> Some (f\<lparr> windowFull := True \<rparr>)
     | CPR_ERROR \<Rightarrow> Some (fill_throw UnknownColumnType f))"

definition restart_window :: "int \<Rightarrow> CursorWindow \<Rightarrow> CursorWindow" where
  "restart_window numColumns w = snd (setNumColumns (word_of_int numColumns) (snd (clear w)))"

definition fill_row :: "cw_header \<Rightarrow> int \<Rightarrow> int \<Rightarrow> sql_value list \<Rightarrow> envs \<Rightarrow> envs \<Rightarrow> fill \<Rightarrow> fill option" where
  "fill_row H numColumns requiredPos row e e' f = do {
     t \<leftarrow> int_result (totalRows f + 1);
     let f = f\<lparr> retryCount := 0, totalRows := t \<rparr>;
     if startPos f \<ge> t \<or> windowFull f then Some f
     else do {
       (cpr, w) \<leftarrow> copyRow H e row (addedRows f) (fillWindow f);
       let f = f\<lparr> fillWindow := w \<rparr>;
       if cpr = CPR_FULL \<and> addedRows f \<noteq> 0
       then do {
         pos \<leftarrow> int_result (startPos f + addedRows f);
         if pos \<le> requiredPos
         then do {
           (cpr, w) \<leftarrow> copyRow H e' row 0 (restart_window numColumns w);
           finish_copy cpr (f\<lparr> startPos := pos, addedRows := 0, fillWindow := w \<rparr>) }
         else finish_copy cpr f }
       else finish_copy cpr f } }"

text \<open>One round of the loop; the first component tells whether it breaks.\<close>

fun fill_step :: "cw_header \<Rightarrow> int \<Rightarrow> int \<Rightarrow> answer \<Rightarrow> fill \<Rightarrow> (bool \<times> fill) option" where
  "fill_step H numColumns requiredPos (STEP_ROW row, e, e') f
     = map_option (Pair False) (fill_row H numColumns requiredPos row e e' f)"
| "fill_step H numColumns requiredPos (STEP_DONE, e, e') f = Some (True, f)"
| "fill_step H numColumns requiredPos (STEP_LOCKED, e, e') f
     = Some (False, if retryCount f > 50 then fill_throw RetryCountExceeded f else f\<lparr> retryCount := retryCount f + 1 \<rparr>)"
| "fill_step H numColumns requiredPos (STEP_BUSY, e, e') f
     = Some (False, if retryCount f > 50 then fill_throw RetryCountExceeded f else f\<lparr> retryCount := retryCount f + 1 \<rparr>)"
| "fill_step H numColumns requiredPos (STEP_ERROR, e, e') f = Some (False, fill_throw DatabaseError f)"

fun fill_loop :: "cw_header \<Rightarrow> int \<Rightarrow> int \<Rightarrow> bool \<Rightarrow> answer list \<Rightarrow> fill \<Rightarrow> fill option" where
  "fill_loop H numColumns requiredPos countAllRows answers f =
     (if gotException f \<or> windowFull f \<and> \<not> countAllRows then Some f
      else case answers of [] \<Rightarrow> None
        | a # answers \<Rightarrow> do {
            (stop, f) \<leftarrow> fill_step H numColumns requiredPos a f;
            if stop then Some f else fill_loop H numColumns requiredPos countAllRows answers f })"

declare fill_loop.simps [simp del]

text \<open>\<open>jlong(startPos) << 32 | jlong(totalRows)\<close>\<close>

definition pack_result :: "int \<Rightarrow> int \<Rightarrow> u64" where
  "pack_result start rows = push_bit 32 (word_of_int start) OR word_of_int rows"

definition fill_result :: "fill \<Rightarrow> sql_exception list \<times> u64 \<times> CursorWindow" where
  "fill_result f = (if totalRows f > 0 \<and> addedRows f = 0 then (thrown f @ [RowTooBig], 0, fillWindow f)
     else (thrown f, pack_result (startPos f) (totalRows f), fillWindow f))"

definition nativeExecuteForCursorWindow ::
  "cw_header \<Rightarrow> int \<Rightarrow> answer list \<Rightarrow> int \<Rightarrow> int \<Rightarrow> bool \<Rightarrow> CursorWindow \<Rightarrow> (sql_exception list \<times> u64 \<times> CursorWindow) option" where
  "nativeExecuteForCursorWindow H numColumns answers start requiredPos countAllRows w =
     (let (st, w) = clear w in
      if st \<noteq> OK then Some ([ClearFailed st], 0, w)
      else let (st, w) = setNumColumns (word_of_int numColumns) w in
      if st \<noteq> OK then Some ([SetColumnsFailed st], 0, w)
      else map_option fill_result (fill_loop H numColumns requiredPos countAllRows answers
        \<lparr> retryCount = 0, totalRows = 0, addedRows = 0, startPos = start, windowFull = False, gotException = False,
          thrown = [], fillWindow = w \<rparr>))"

section \<open>The contents of a window\<close>

text \<open>
  A reader of a cell finds the type of the value in its slot and there the value itself, or the offset and
  size of its bytes in the data area.
\<close>

definition slot_holds :: "cw_header \<Rightarrow> CursorWindow \<Rightarrow> u32 \<Rightarrow> u32 \<Rightarrow> field_type \<Rightarrow> bytes \<Rightarrow> bool" where
  "slot_holds H w r c t val \<longleftrightarrow> slice (mData w) (slot_pos w r c + typeOffset H) 4 = Some (put32 (typeCode H t))
     \<and> slice (mData w) (slot_pos w r c + dataOffset H) 8 = Some val"

definition buffer_holds :: "cw_header \<Rightarrow> CursorWindow \<Rightarrow> u32 \<Rightarrow> u32 \<Rightarrow> field_type \<Rightarrow> bytes \<Rightarrow> bool" where
  "buffer_holds H w r c t bs \<longleftrightarrow> (\<exists>off. slot_holds H w r c t (put32 off @ put32 (word_of_nat (length bs)))
     \<and> unat off + length bs \<le> unat (mAllocOffset w) \<and> slice (mData w) (unat off) (length bs) = Some bs)"

fun cell_is :: "cw_header \<Rightarrow> CursorWindow \<Rightarrow> u32 \<Rightarrow> u32 \<Rightarrow> sql_value \<Rightarrow> bool" where
  "cell_is H w r c SqlNull \<longleftrightarrow> slot_holds H w r c FIELD_TYPE_NULL (put32 0 @ put32 0)"
| "cell_is H w r c (SqlInteger v) \<longleftrightarrow> slot_holds H w r c FIELD_TYPE_INTEGER (put64 v)"
| "cell_is H w r c (SqlFloat v) \<longleftrightarrow> slot_holds H w r c FIELD_TYPE_FLOAT (put64 v)"
| "cell_is H w r c (SqlText t) \<longleftrightarrow> buffer_holds H w r c FIELD_TYPE_STRING (t @ [0])"
| "cell_is H w r c (SqlBlob b) \<longleftrightarrow> buffer_holds H w r c FIELD_TYPE_BLOB b"
| "cell_is H w r c SqlOther \<longleftrightarrow> False"

lemma slice_inner:
  assumes "slice b i m = Some s" "k + n \<le> m"
  shows "slice b (i + k) n = slice s k n"
proof -
  have "i + m \<le> length b" "s = take m (drop i b)" using assms(1) by (auto simp: slice_def split: if_splits)
  then show ?thesis using assms(2) by (auto simp: slice_def drop_take add.commute min_def)
qed

lemma slot_holds_kept:
  assumes "header_ok H" "slot_bytes w r c = Some s" "slot_bytes w' r c = Some s" "slot_holds H w r c t val"
  shows "slot_holds H w' r c t val"
proof -
  have "typeOffset H + 4 \<le> 16" "dataOffset H + 8 \<le> 16" using assms(1) by (simp_all add: header_ok_def)
  then show ?thesis using assms(4) slice_inner [OF assms(2) [unfolded slot_bytes_def]] slice_inner [OF assms(3) [unfolded slot_bytes_def]]
    by (simp add: slot_holds_def)
qed

text \<open>Cells of allocated rows survive whatever keeps their slots and the data stored so far.\<close>

definition data_kept :: "CursorWindow \<Rightarrow> CursorWindow \<Rightarrow> bool" where
  "data_kept w w' \<longleftrightarrow> mAllocOffset w \<le> mAllocOffset w' \<and> take (unat (mAllocOffset w)) (mData w') = heap w
     \<and> unat (mAllocOffset w) \<le> length (mData w')"

lemma cell_kept:
  assumes "header_ok H" "cw_ok w" "r < mNumRows w" "c < mNumColumns w" "slot_bytes w' r c = slot_bytes w r c"
    "data_kept w w'" "cell_is H w r c v"
  shows "cell_is H w' r c v"
proof -
  have "slot_pos w r c + 16 \<le> length (mData w)"
    using getFieldSlot_in(3) [OF assms(2-4)] cw_okD(1) [OF assms(2)] by simp
  then obtain s where s: "slot_bytes w r c = Some s" by (auto simp: slot_bytes_def slice_def)
  note slot = slot_holds_kept [OF assms(1) s assms(5) [unfolded s]]
  have d: "mAllocOffset w \<le> mAllocOffset w'" "take (unat (mAllocOffset w)) (mData w') = take (unat (mAllocOffset w)) (mData w)"
    "unat (mAllocOffset w) \<le> length (mData w')"
    using assms(6) by (simp_all add: data_kept_def heap_def)
  have "slice (mData w') o' n = slice (mData w) o' n" if "o' + n \<le> unat (mAllocOffset w)" for o' n
  proof -
    have "take (n + o') (take (unat (mAllocOffset w)) x) = take (n + o') x" for x :: bytes using that by (simp add: add.commute)
    then have "take (n + o') (mData w') = take (n + o') (mData w)" using d(2) by metis
    then have "take n (drop o' (mData w')) = take n (drop o' (mData w))" by (simp add: take_drop)
    moreover have "unat (mAllocOffset w) \<le> length (mData w)"
      using cw_okD(1,2,3) [OF assms(2)] by linarith
    ultimately show ?thesis using that d(3) by (simp add: slice_def)
  qed
  then have "buffer_holds H w r c t bs \<Longrightarrow> buffer_holds H w' r c t bs" for t bs
    unfolding buffer_holds_def using slot d(1) by (metis (no_types, lifting) order_trans word_le_nat_alt)
  then show ?thesis using assms(7) slot by (cases v) auto
qed

lemma data_kept_refl: "cw_ok w \<Longrightarrow> data_kept w w"
  using cw_okD(1,2,3) [of w] by (simp add: data_kept_def heap_def)

lemma data_kept_trans: "data_kept u v \<Longrightarrow> data_kept v w \<Longrightarrow> data_kept u w"
proof -
  assume a: "data_kept u v" "data_kept v w"
  have le: "unat (mAllocOffset u) \<le> unat (mAllocOffset v)" "unat (mAllocOffset v) \<le> length (mData w)"
    using a by (simp_all add: data_kept_def word_le_nat_alt)
  have "take (unat (mAllocOffset u)) (mData w) = take (unat (mAllocOffset u)) (take (unat (mAllocOffset v)) (mData w))"
    using le(1) by simp
  also have "\<dots> = take (unat (mAllocOffset u)) (take (unat (mAllocOffset v)) (mData v))" using a(2) by (simp add: data_kept_def heap_def)
  also have "\<dots> = heap u" using le(1) a(1) by (simp add: data_kept_def)
  finally show ?thesis using a le by (auto simp: data_kept_def)
qed

text \<open>
  The cells that a step leaves alone; \<open>keeps w w' P\<close>: the window stays usable and every cell of the rows that
  satisfy \<open>P\<close> keeps its value.
\<close>

definition usable :: "CursorWindow \<Rightarrow> bool" where
  "usable w \<longleftrightarrow> cw_ok w \<and> \<not> mReadOnly w"

definition keeps :: "cw_header \<Rightarrow> CursorWindow \<Rightarrow> CursorWindow \<Rightarrow> (u32 \<Rightarrow> u32 \<Rightarrow> bool) \<Rightarrow> bool" where
  "keeps H w w' P \<longleftrightarrow> usable w' \<and> mNumColumns w' = mNumColumns w
     \<and> (\<forall>r c v. r < mNumRows w \<longrightarrow> c < mNumColumns w \<longrightarrow> P r c \<longrightarrow> cell_is H w r c v \<longrightarrow> cell_is H w' r c v)"

lemma keepsI:
  assumes "header_ok H" "cw_ok w" "usable w'" "mNumColumns w' = mNumColumns w" "data_kept w w'"
    "\<And>r c. r < mNumRows w \<Longrightarrow> c < mNumColumns w \<Longrightarrow> P r c \<Longrightarrow> slot_bytes w' r c = slot_bytes w r c"
  shows "keeps H w w' P"
  using assms cell_kept [OF assms(1,2)] unfolding keeps_def by blast

lemma alloc_row_keeps:
  assumes "header_ok H" "usable w"
  shows "\<exists>st w'. allocRow H e w = Some (st, w') \<and> keeps H w w' (\<lambda>_ _. True)
    \<and> mNumRows w' = (if st = OK then mNumRows w + 1 else mNumRows w)"
proof -
  have ok: "cw_ok w" "\<not> mReadOnly w" using assms(2) by (simp_all add: usable_def)
  obtain st w' where a: "allocRow H e w = Some (st, w')" "cw_ok w'" "heap w' = heap w" "mNumColumns w' = mNumColumns w"
    "\<not> mReadOnly w'" "st \<noteq> OK \<Longrightarrow> slots w' = slots w \<and> mNumRows w' = mNumRows w"
    "st = OK \<Longrightarrow> slots w' = replicate (unat (mNumColumns w) * 16) 0 @ slots w \<and> mNumRows w' = mNumRows w + 1"
    using allocRow_ok [OF assms(1) ok(1), of e] ok(2) by metis
  have len: "length (heap u) = unat (mAllocOffset u)" "length (slots u) = unat (mNumRows u) * unat (mNumColumns u) * 16" if "cw_ok u" for u
    using cw_okD(1-3) [OF that] by (simp_all add: heap_def slots_def)
  have al: "mAllocOffset w' = mAllocOffset w" using len(1) [OF ok(1)] len(1) [OF a(2)] a(3) by (simp add: word_unat_eq_iff)
  then have d: "data_kept w w'" using a(3) cw_okD(1-3) [OF a(2)] by (auto simp: data_kept_def heap_def)
  have "slot_bytes w' r c = slot_bytes w r c" if rc: "r < mNumRows w" "c < mNumColumns w" for r c
  proof (cases "st = OK")
    case False
    then show ?thesis using slot_bytes_same [OF ok(1) a(2) _ _ a(4) rc] a(6) by simp
  next
    case True
    define n R where "n = unat (mNumColumns w)" and "R = unat (mNumRows w)"
    have n: "0 < n" using rc(2) by (simp add: n_def word_less_nat_alt)
    have "unat (mNumRows w') * n * 16 = n * 16 + R * n * 16"
      using len(2) [OF ok(1)] len(2) [OF a(2)] a(7) [OF True] a(4) unfolding n_def R_def by simp
    then have "unat (mNumRows w') * n = (R + 1) * n" by simp
    then have R': "unat (mNumRows w') = R + 1" using n mult_right_cancel [of n "unat (mNumRows w')" "R + 1"] by blast
    then have r': "r < mNumRows w'" "c < mNumColumns w'" using rc a(4) by (simp_all add: R_def word_less_nat_alt)
    let ?k = "unat r * n + unat c"
    have k: "16 * ?k + 16 \<le> R * n * 16"
      using slot_number(2) [OF ok(1) rc] cw_okD(3) [OF ok(1)] unfolding n_def R_def kSlotSize by linarith
    have "slot_bytes w' r c = slice (replicate (n * 16) 0 @ slots w) ((R + 1) * n * 16 - 16 - 16 * ?k) 16"
      using slot_bytes_slots [OF a(2) r'] a(4,7) True R' by (simp add: n_def)
    also have "(R + 1) * n * 16 - 16 - 16 * ?k = length (replicate (n * 16) (0 :: byte)) + (R * n * 16 - 16 - 16 * ?k)"
      using k by (simp add: algebra_simps)
    also have "slice (replicate (n * 16) 0 @ slots w) \<dots> 16 = slice (slots w) (R * n * 16 - 16 - 16 * ?k) 16" by (rule slice_shift)
    also have "\<dots> = slot_bytes w r c" using slot_bytes_slots [OF ok(1) rc] by (simp add: n_def R_def)
    finally show ?thesis .
  qed
  then have "keeps H w w' (\<lambda>_ _. True)" using a(2,5) by (intro keepsI [OF assms(1) ok(1) _ a(4) d]) (simp_all add: usable_def)
  then show ?thesis using a(1,6,7) by auto
qed

lemma usableD: "usable w \<Longrightarrow> cw_ok w" "usable w \<Longrightarrow> \<not> mReadOnly w"
  by (simp_all add: usable_def)

definition stores :: "cw_header \<Rightarrow> CursorWindow \<Rightarrow> u32 \<Rightarrow> u32 \<Rightarrow> sql_value \<Rightarrow> (status \<times> CursorWindow) option \<Rightarrow> bool" where
  "stores H w row column v r \<longleftrightarrow> (\<exists>st w'. r = Some (st, w') \<and> keeps H w w' (\<lambda>r c. (r, c) \<noteq> (row, column))
     \<and> mNumRows w' = mNumRows w \<and> (st = OK \<longrightarrow> cell_is H w' row column v))"

lemma put_scalar_stores:
  assumes "header_ok H" "usable w" "row < mNumRows w" "column < mNumColumns w" "length val = 8"
    "\<And>w'. slot_holds H w' row column t val \<Longrightarrow> cell_is H w' row column v"
  shows "stores H w row column v (put_scalar H row column t val w)"
proof -
  note ok = usableD [OF assms(2)]
  note slot = getFieldSlot_in [OF ok(1) assms(3,4)]
  have fits: "slot_pos w row column + 16 \<le> length (mData w)" using slot(3) cw_okD(1) [OF ok(1)] by simp
  obtain d where d: "set_slot H w (slot_pos w row column) t val = Some (w\<lparr>mData := d\<rparr>)" "length d = length (mData w)"
    "\<And>j n. j + n \<le> slot_pos w row column \<or> slot_pos w row column + 16 \<le> j \<Longrightarrow> slice d j n = slice (mData w) j n"
    "slice d (slot_pos w row column + typeOffset H) 4 = Some (put32 (typeCode H t))"
    "slice d (slot_pos w row column + dataOffset H) 8 = Some val"
    using set_slot_ok [OF assms(1) fits assms(5), of t] by blast
  have u: "usable (w\<lparr>mData := d\<rparr>)" using cw_ok_data [OF ok(1) d(2)] ok(2) by (simp add: usable_def)
  have le: "unat (mAllocOffset w) \<le> slot_pos w row column" using slot(2) cw_okD(2) [OF ok(1)] by linarith
  have "slice d 0 (unat (mAllocOffset w)) = slice (mData w) 0 (unat (mAllocOffset w))" by (rule d(3)) (use le in simp)
  then have dk: "data_kept w (w\<lparr>mData := d\<rparr>)" using d(2) fits le by (auto simp: data_kept_def heap_def slice_def)
  have "other_slots_kept w (w\<lparr>mData := d\<rparr>) row column" by (rule other_slots_keptI [OF ok(1) assms(3,4)]) (rule d(3))
  then have "keeps H w (w\<lparr>mData := d\<rparr>) (\<lambda>r c. (r, c) \<noteq> (row, column))"
    by (intro keepsI [OF assms(1) ok(1) u _ dk]) (simp_all add: other_slots_kept_def)
  moreover have "cell_is H (w\<lparr>mData := d\<rparr>) row column v" by (rule assms(6)) (use d(4,5) in \<open>simp add: slot_holds_def\<close>)
  ultimately show ?thesis using ok(2) slot(1) d(1) by (simp add: stores_def put_scalar_def)
qed

lemma put_buffer_stores:
  assumes "header_ok H" "usable w" "row < mNumRows w" "column < mNumColumns w"
    "\<And>w'. buffer_holds H w' row column t val \<Longrightarrow> cell_is H w' row column v"
  shows "stores H w row column v (putBlobOrString H e row column val t w)"
proof -
  note ok = usableD [OF assms(2)]
  obtain st w' where p: "putBlobOrString H e row column val t w = Some (st, w')" "cw_ok w'" "other_slots_kept w w' row column"
    "take (unat (mAllocOffset w)) (mData w') = heap w" "mNumRows w' = mNumRows w" "mNumColumns w' = mNumColumns w"
    "mReadOnly w' = mReadOnly w" "mAllocOffset w \<le> mAllocOffset w'"
    "st = OK \<Longrightarrow> slice (mData w') (slot_pos w' row column + typeOffset H) 4 = Some (put32 (typeCode H t))
       \<and> (\<exists>off. slice (mData w') (slot_pos w' row column + dataOffset H) 8 = Some (put32 off @ put32 (word_of_nat (length val)))
         \<and> unat off + length val \<le> unat (mAllocOffset w') \<and> slice (mData w') (unat off) (length val) = Some val)"
    using putBlobOrString_ok [OF assms(1) ok(1) assms(3), of e column val t] assms(4) by blast
  have u: "usable w'" using p(2,7) ok(2) by (simp add: usable_def)
  have "unat (mAllocOffset w) \<le> length (mData w')"
    using p(8) cw_okD(1-3) [OF p(2)] unfolding word_le_nat_alt by linarith
  then have dk: "data_kept w w'" using p(4,8) by (simp add: data_kept_def)
  have "keeps H w w' (\<lambda>r c. (r, c) \<noteq> (row, column))"
    by (rule keepsI [OF assms(1) ok(1) u p(6) dk]) (use p(3) in \<open>simp add: other_slots_kept_def\<close>)
  moreover have "cell_is H w' row column v" if "st = OK"
    by (rule assms(5)) (use p(9) [OF that] in \<open>auto simp: buffer_holds_def slot_holds_def\<close>)
  ultimately show ?thesis using p(1,5) by (simp add: stores_def)
qed

lemma put_value_stores:
  assumes "header_ok H" "usable w" "row < mNumRows w" "column < mNumColumns w" "v \<noteq> SqlOther"
  shows "stores H w row column v (put_value H e row column v w)"
  using assms(5) put_scalar_stores [OF assms(1-4)] put_buffer_stores [OF assms(1-4)]
  by (cases v) (auto simp: putLong_def putDouble_def putNull_def putBlob_def putString_def)

lemma keeps_trans:
  assumes "keeps H u v P" "keeps H v w Q" "mNumRows u \<le> mNumRows v" "\<And>r c. P r c \<Longrightarrow> r < mNumRows u \<Longrightarrow> Q r c"
  shows "keeps H u w P"
  using assms unfolding keeps_def by (metis order_less_le_trans)

lemma keeps_mono: "keeps H u w P \<Longrightarrow> (\<And>r c. Q r c \<Longrightarrow> r < mNumRows u \<Longrightarrow> P r c) \<Longrightarrow> keeps H u w Q"
  unfolding keeps_def by blast

lemma free_row_keeps:
  assumes "header_ok H" "usable w" "0 < mNumRows w"
  shows "keeps H w (snd (freeLastRow w)) (\<lambda>r c. r < mNumRows w - 1) \<and> mNumRows (snd (freeLastRow w)) = mNumRows w - 1"
proof -
  note ok = usableD [OF assms(2)]
  let ?w = "snd (freeLastRow w)"
  have r: "1 \<le> unat (mNumRows w)" using assms(3) by (simp add: word_less_nat_alt)
  have "unat (mNumColumns w) * 16 \<le> unat (mNumRows w) * unat (mNumColumns w) * 16" using r by (cases "unat (mNumRows w)") auto
  then have fit: "unat (mSlotsOffset w) + unat (mNumColumns w) * 16 \<le> unat (mSize w)"
    using cw_okD(3) [OF ok(1)] unfolding kSlotSize by linarith
  then have eq: "?w = updateSlotsData (w\<lparr>mSlotsOffset := word_of_nat (unat (mSlotsOffset w) + unat (mNumColumns w) * 16)\<rparr>)\<lparr>mNumRows := mNumRows w - 1\<rparr>"
    using ok(2) by (simp add: freeLastRow_def Let_def updateSlotsData_def)
  have f: "mData ?w = mData w" "mSize ?w = mSize w" "mAllocOffset ?w = mAllocOffset w" "mNumColumns ?w = mNumColumns w"
    "mReadOnly ?w = mReadOnly w" "mNumRows ?w = mNumRows w - 1"
    by (simp_all add: eq updateSlotsData_def)
  have u: "usable ?w" using freeLastRow_ok [OF ok(1)] ok(2) f(5) by (simp add: usable_def)
  have dk: "data_kept w ?w" using data_kept_refl [OF ok(1)] f(1,3) by (simp add: data_kept_def)
  have "keeps H w ?w (\<lambda>r c. r < mNumRows w - 1)"
    by (rule keepsI [OF assms(1) ok(1) u f(4) dk]) (simp add: slot_bytes_def slot_pos_def f)
  then show ?thesis using f(6) by simp
qed

lemma restart_usable:
  assumes "usable w" "0 \<le> n" "n < 2 ^ 16"
  shows "usable (restart_window n w) \<and> mNumRows (restart_window n w) = 0 \<and> mNumColumns (restart_window n w) = word_of_int n"
proof -
  note ok = usableD [OF assms(1)]
  have n: "unat (word_of_int n :: u32) < 2 ^ 16"
    using assms(2,3) by (simp add: unat_eq_nat_uint unsigned_of_int take_bit_int_eq_self)
  have c: "clear w = (OK, w\<lparr>mAllocOffset := 0, mSlotsOffset := mSize w, mNumRows := 0, mNumColumns := 0\<rparr>)"
    using ok(2) by (simp add: clear_def)
  have "cw_ok (restart_window n w)" using clear_ok [OF ok(1)] n unfolding restart_window_def by (intro setNumColumns_ok)
  then show ?thesis using ok(2) by (simp add: usable_def restart_window_def setNumColumns_def c)
qed

section \<open>Copying a row into a window\<close>

lemma unat_lt32: "unat (x :: u32) < 2 ^ 32"
  by (rule order_less_le_trans [OF unsigned_less]) simp

lemma unat_below: "k \<le> unat (x :: u32) \<Longrightarrow> unat (word_of_nat k :: u32) = k"
  using unat_lt32 [of x] by (intro unat_of_nat32) simp

lemma unat_columns: "0 \<le> n \<Longrightarrow> n < 2 ^ 16 \<Longrightarrow> unat (word_of_int n :: u32) = nat n"
  using unat_of_nat32 [of "nat n"] by simp

lemma columns_copied:
  assumes "header_ok H" "usable w" "row < mNumRows w" "length pre = i" "i + length vs \<le> unat (mNumColumns w)"
    "\<And>j. j < i \<Longrightarrow> cell_is H w row (word_of_nat j) (pre ! j)"
  shows "\<exists>res w'. copy_columns H e row i vs w = Some (res, w') \<and> keeps H w w' (\<lambda>r c. r \<noteq> row) \<and> mNumRows w' = mNumRows w
    \<and> (res = CPR_ERROR \<longrightarrow> SqlOther \<in> set vs)
    \<and> (res = CPR_OK \<longrightarrow> (\<forall>j < i + length vs. cell_is H w' row (word_of_nat j) ((pre @ vs) ! j)))"
  using assms
proof (induction vs arbitrary: i pre w)
  case Nil
  then show ?case using Nil.prems(4,6) by (auto simp: keeps_def)
next
  case (Cons v vs)
  note small = unat_below [where x = "mNumColumns w"]
  have col: "word_of_nat i < mNumColumns w" using Cons.prems(5) small [of i] by (simp add: word_less_nat_alt)
  have other: "word_of_nat j \<noteq> (word_of_nat i :: u32)" "word_of_nat j < mNumColumns w" if "j < i" for j
    using that small [of i] small [of j] Cons.prems(5) by (auto simp: word_less_nat_alt word_unat_eq_iff)
  show ?case
  proof (cases "v = SqlOther")
    case True
    then show ?thesis using Cons.prems(2) by (auto simp: keeps_def)
  next
    case False
    obtain st w1 where p: "put_value H (e (i + 1)) row (word_of_nat i) v w = Some (st, w1)"
      "keeps H w w1 (\<lambda>r c. (r, c) \<noteq> (row, word_of_nat i))" "mNumRows w1 = mNumRows w"
      "st = OK \<Longrightarrow> cell_is H w1 row (word_of_nat i) v"
      using put_value_stores [OF Cons.prems(1-3) col False] unfolding stores_def by blast
    have k1: "keeps H w w1 (\<lambda>r c. r \<noteq> row)" by (rule keeps_mono [OF p(2)]) simp
    show ?thesis
    proof (cases "st = OK")
      case False
      then show ?thesis using p(1,3) k1 \<open>v \<noteq> SqlOther\<close> by simp
    next
      case True
      have u: "usable w1" "mNumColumns w1 = mNumColumns w" using p(2) by (simp_all add: keeps_def)
      have cells: "cell_is H w1 row (word_of_nat j) ((pre @ [v]) ! j)" if "j < i + 1" for j
      proof (cases "j = i")
        case True
        then show ?thesis using p(4) \<open>st = OK\<close> Cons.prems(4) by (simp add: nth_append)
      next
        case False
        then have j: "j < i" using that by simp
        show ?thesis using p(2) Cons.prems(3,4) Cons.prems(6) [OF j] other [OF j] j by (simp add: keeps_def nth_append)
      qed
      have "row < mNumRows w1" "length (pre @ [v]) = i + 1" "i + 1 + length vs \<le> unat (mNumColumns w1)"
        using Cons.prems(3-5) p(3) u(2) by simp_all
      from Cons.IH [OF Cons.prems(1) u(1) this cells] obtain res w' where
        r: "copy_columns H e row (i + 1) vs w1 = Some (res, w')" "keeps H w1 w' (\<lambda>r c. r \<noteq> row)" "mNumRows w' = mNumRows w1"
        "res = CPR_ERROR \<longrightarrow> SqlOther \<in> set vs"
        "res = CPR_OK \<longrightarrow> (\<forall>j < i + 1 + length vs. cell_is H w' row (word_of_nat j) (((pre @ [v]) @ vs) ! j))" by blast
      have "keeps H w w' (\<lambda>r c. r \<noteq> row)" by (rule keeps_trans [OF k1 r(2)]) (use p(3) in simp_all)
      then show ?thesis using p(1,3) r(1,3-5) True \<open>v \<noteq> SqlOther\<close> by simp
    qed
  qed
qed

text \<open>A window shows rows when it has exactly their cells.\<close>

definition shows_rows :: "cw_header \<Rightarrow> CursorWindow \<Rightarrow> int \<Rightarrow> sql_value list list \<Rightarrow> bool" where
  "shows_rows H w n rows \<longleftrightarrow> usable w \<and> mNumColumns w = word_of_int n \<and> unat (mNumRows w) = length rows
     \<and> (\<forall>i < length rows. \<forall>j < nat n. cell_is H w (word_of_nat i) (word_of_nat j) (rows ! i ! j))"

lemma shows_kept:
  assumes "shows_rows H w n rows" "keeps H w w' (\<lambda>r c. True)" "mNumRows w' = mNumRows w" "n < 2 ^ 16"
  shows "shows_rows H w' n rows"
proof -
  have "(word_of_nat j :: u32) < word_of_int n" if "j < nat n" for j
    using that assms(4) unat_columns [of n] unat_of_nat32 [of j] unfolding word_less_nat_alt by simp
  moreover have "(word_of_nat i :: u32) < mNumRows w" if "i < length rows" for i
    using that assms(1) unat_below [of i "mNumRows w"] unfolding word_less_nat_alt by (simp add: shows_rows_def)
  ultimately show ?thesis using assms(1-3) by (simp add: shows_rows_def keeps_def)
qed

lemma column_index: "j < nat n \<Longrightarrow> n < 2 ^ 16 \<Longrightarrow> (word_of_nat j :: u32) < word_of_int n"
  using unat_columns [of n] unat_of_nat32 [of j] unfolding word_less_nat_alt by simp

lemma row_index: "i < unat r \<Longrightarrow> (word_of_nat i :: u32) < r"
  using unat_below [of i r] unfolding word_less_nat_alt by simp

lemma unat_unique: "unat (x :: u32) = k \<Longrightarrow> word_of_nat k = x"
  by auto

lemma unat_plus_one: "unat (x :: u32) = k \<Longrightarrow> k + 1 < 2 ^ 32 \<Longrightarrow> unat (x + 1) = k + 1"
  using unat_of_nat32 [of "k + 1"] unat_unique [of x k] by (simp add: add.commute)

lemma copyRow_effect:
  assumes "header_ok H" "usable w" "0 \<le> a" "unat (mNumRows w) = nat a" "a + 1 < 2 ^ 31" "length row = unat (mNumColumns w)"
  shows "\<exists>res w'. copyRow H e row a w = Some (res, w') \<and> keeps H w w' (\<lambda>_ _. True)
    \<and> mNumRows w' = (if res = CPR_OK then mNumRows w + 1 else mNumRows w)
    \<and> (res = CPR_OK \<longrightarrow> (\<forall>j < length row. cell_is H w' (mNumRows w) (word_of_nat j) (row ! j)))
    \<and> (res = CPR_ERROR \<longrightarrow> SqlOther \<in> set row)"
proof -
  have a: "word_of_int a = mNumRows w" using assms(3,4) unat_unique [of "mNumRows w" "nat a"] by simp
  have un: "unat (mNumRows w + 1) = nat a + 1" using assms(3-5) by (intro unat_plus_one) auto
  obtain st w1 where al: "allocRow H (e 0) w = Some (st, w1)" "keeps H w w1 (\<lambda>_ _. True)"
    "mNumRows w1 = (if st = OK then mNumRows w + 1 else mNumRows w)"
    using alloc_row_keeps [OF assms(1,2), of "e 0"] by blast
  show ?thesis
  proof (cases "st = OK")
    case False
    then show ?thesis using al by (simp add: copyRow_def)
  next
    case True
    have u1: "usable w1" "mNumColumns w1 = mNumColumns w" using al(2) by (simp_all add: keeps_def)
    have r1: "mNumRows w < mNumRows w1" using True al(3) un assms(4) by (simp add: word_less_nat_alt)
    obtain res w2 where c: "copy_columns H e (mNumRows w) 0 row w1 = Some (res, w2)" "keeps H w1 w2 (\<lambda>r c. r \<noteq> mNumRows w)"
      "mNumRows w2 = mNumRows w1" "res = CPR_ERROR \<longrightarrow> SqlOther \<in> set row"
      "res = CPR_OK \<longrightarrow> (\<forall>j < length row. cell_is H w2 (mNumRows w) (word_of_nat j) (row ! j))"
      using columns_copied [OF assms(1) u1(1) r1, of "[]" 0 row e] assms(6) u1(2) by auto
    have k2: "keeps H w w2 (\<lambda>_ _. True)" by (rule keeps_trans [OF al(2) c(2)]) (use r1 in auto)
    show ?thesis
    proof (cases "res = CPR_OK")
      case ok: True
      then show ?thesis using al(1,3) c k2 True by (simp add: copyRow_def a)
    next
      case False
      have u2: "usable w2" using k2 by (simp add: keeps_def)
      have n2: "mNumRows w2 = mNumRows w + 1" using c(3) al(3) True by simp
      then have pos: "0 < mNumRows w2" using un by (simp add: word_less_nat_alt)
      have free: "keeps H w2 (snd (freeLastRow w2)) (\<lambda>r c. r < mNumRows w)" "mNumRows (snd (freeLastRow w2)) = mNumRows w"
        using free_row_keeps [OF assms(1) u2 pos] n2 by simp_all
      have "keeps H w (snd (freeLastRow w2)) (\<lambda>_ _. True)" by (rule keeps_trans [OF k2 free(1)]) (use r1 c(3) in auto)
      then show ?thesis using al(1) c True False free(2) by (simp add: copyRow_def a)
    qed
  qed
qed

lemma copyRow_shows:
  assumes "header_ok H" "shows_rows H w n rows" "0 \<le> n" "n < 2 ^ 16" "length row = nat n" "int (length rows) + 1 < 2 ^ 31"
  shows "\<exists>res w'. copyRow H e row (int (length rows)) w = Some (res, w')
    \<and> shows_rows H w' n (if res = CPR_OK then rows @ [row] else rows) \<and> (res = CPR_ERROR \<longrightarrow> SqlOther \<in> set row)"
proof -
  have w: "usable w" "mNumColumns w = word_of_int n" "unat (mNumRows w) = length rows"
    "\<And>i j. i < length rows \<Longrightarrow> j < nat n \<Longrightarrow> cell_is H w (word_of_nat i) (word_of_nat j) (rows ! i ! j)"
    using assms(2) by (simp_all add: shows_rows_def)
  have "length row = unat (mNumColumns w)" using w(2) assms(3-5) by (simp add: unat_columns)
  then obtain res w' where c: "copyRow H e row (int (length rows)) w = Some (res, w')" "keeps H w w' (\<lambda>_ _. True)"
    "mNumRows w' = (if res = CPR_OK then mNumRows w + 1 else mNumRows w)"
    "res = CPR_OK \<longrightarrow> (\<forall>j < length row. cell_is H w' (mNumRows w) (word_of_nat j) (row ! j))"
    "res = CPR_ERROR \<longrightarrow> SqlOther \<in> set row"
    using copyRow_effect [OF assms(1) w(1) _ _ assms(6), of row e] w(3) by auto
  show ?thesis
  proof (cases "res = CPR_OK")
    case False
    then show ?thesis using c shows_kept [OF assms(2) c(2) _ assms(4)] by simp
  next
    case True
    have "word_of_nat (length rows) = mNumRows w" using unat_unique [of "mNumRows w" "length rows"] w(3) by simp
    moreover have "unat (mNumRows w') = length rows + 1"
      using c(3) True unat_plus_one [OF w(3)] assms(6) by simp
    moreover have "cell_is H w' (word_of_nat i) (word_of_nat j) (rows ! i ! j)" if "i < length rows" "j < nat n" for i j
      using c(2) w(4) [OF that] row_index [of i "mNumRows w"] column_index [OF that(2) assms(4)] that w(2,3) by (simp add: keeps_def)
    ultimately have "shows_rows H w' n (rows @ [row])"
      using c(2,4) True w(2) assms(5) by (auto simp: shows_rows_def keeps_def nth_append less_Suc_eq)
    then show ?thesis using c(1) True by simp
  qed
qed

lemma shows_restart:
  "usable w \<Longrightarrow> 0 \<le> n \<Longrightarrow> n < 2 ^ 16 \<Longrightarrow> shows_rows H (restart_window n w) n []"
  using restart_usable [of w n] by (simp add: shows_rows_def)

section \<open>The loop over the rows of the query\<close>

text \<open>
  \<open>rs\<close> are the rows the statement has delivered so far. The window shows a run of them that starts at
  \<open>startPos\<close>; while nothing has stopped the copying it reaches to the last one, and when the window is full
  either it is empty or it goes past the required position.
\<close>

definition fill_at :: "cw_header \<Rightarrow> int \<Rightarrow> nat \<Rightarrow> int \<Rightarrow> sql_value list list \<Rightarrow> fill \<Rightarrow> nat \<Rightarrow> nat \<Rightarrow> bool" where
  "fill_at H n S req rs f s a \<longleftrightarrow> startPos f = int s \<and> addedRows f = int a \<and> totalRows f = int (length rs)
     \<and> S \<le> s \<and> (s = S \<or> int s \<le> req \<and> s \<le> length rs) \<and> shows_rows H (fillWindow f) n (take a (drop s rs)) \<and> (a = 0 \<or> s + a \<le> length rs)
     \<and> (\<not> windowFull f \<and> \<not> gotException f \<longrightarrow> a = length rs - s) \<and> (windowFull f \<longrightarrow> rs \<noteq> [] \<and> (a = 0 \<or> req < int (s + a)))
     \<and> (gotException f \<longleftrightarrow> thrown f \<noteq> [])"

definition fill_inv :: "cw_header \<Rightarrow> int \<Rightarrow> nat \<Rightarrow> int \<Rightarrow> sql_value list list \<Rightarrow> fill \<Rightarrow> bool" where
  "fill_inv H n S req rs f \<longleftrightarrow> (\<exists>s a. fill_at H n S req rs f s a)"

lemma take_run:
  "s + a \<le> length rs \<or> a = 0 \<Longrightarrow> take a (drop s (rs @ [r])) = take a (drop s rs)"
  "s \<le> length rs \<Longrightarrow> a = length rs - s \<Longrightarrow> take (a + 1) (drop s (rs @ [r])) = take a (drop s rs) @ [r]"
  by (auto simp: drop_append)

lemma finish_copy_inv:
  assumes "fill_at H n S req rs f s a" "\<not> gotException f" "\<not> windowFull f" "s \<le> length rs" "length rs + 1 < 2 ^ 31"
    "shows_rows H w n (if cpr = CPR_OK then take a (drop s rs) @ [row] else take a (drop s rs))"
    "cpr = CPR_FULL \<longrightarrow> a = 0 \<or> req < int (s + a)"
  shows "\<exists>f'. finish_copy cpr (f\<lparr> retryCount := 0, totalRows := int (length rs) + 1, fillWindow := w \<rparr>) = Some f'
    \<and> fill_inv H n S req (rs @ [row]) f'"
proof -
  let ?f = "f\<lparr> retryCount := 0, totalRows := int (length rs) + 1, fillWindow := w \<rparr>"
  have i: "startPos f = int s" "addedRows f = int a" "S \<le> s" "s = S \<or> int s \<le> req \<and> s \<le> length rs" "a = length rs - s" "thrown f = []"
    using assms(1-3) by (auto simp: fill_at_def)
  note run = take_run(1) [of s a rs row] take_run(2) [OF assms(4) i(5)]
  have le: "s + a \<le> length rs" using i(5) assms(4) by simp
  show ?thesis
  proof (cases cpr)
    case CPR_OK
    have "a + 1 < 2 ^ 31" using i(5) assms(5) by simp
    then have "int_result (int a + 1) = Some (int a + 1)" by (simp add: int_result_def)
    moreover have "fill_at H n S req (rs @ [row]) (?f\<lparr> addedRows := int a + 1 \<rparr>) s (a + 1)"
      using i assms(2-4,6) CPR_OK run(2) by (simp add: fill_at_def)
    ultimately show ?thesis using CPR_OK i(2) by (auto simp: finish_copy_def fill_inv_def)
  next
    case CPR_FULL
    have "fill_at H n S req (rs @ [row]) (?f\<lparr> windowFull := True \<rparr>) s a"
      using i assms(2,6,7) CPR_FULL run(1) le by (simp add: fill_at_def)
    then show ?thesis using CPR_FULL by (auto simp: finish_copy_def fill_inv_def)
  next
    case CPR_ERROR
    have "fill_at H n S req (rs @ [row]) (fill_throw UnknownColumnType ?f) s a"
      using i assms(3,6) CPR_ERROR run(1) le by (simp add: fill_at_def fill_throw_def)
    then show ?thesis using CPR_ERROR by (auto simp: finish_copy_def fill_inv_def)
  qed
qed

lemma fill_row_inv:
  assumes "header_ok H" "0 \<le> n" "n < 2 ^ 16" "fill_inv H n S req rs f" "\<not> gotException f" "length row = nat n" "length rs + 1 < 2 ^ 31"
  shows "\<exists>f'. fill_row H n req row e e' f = Some f' \<and> fill_inv H n S req (rs @ [row]) f'"
proof -
  obtain s a where at: "fill_at H n S req rs f s a" using assms(4) by (auto simp: fill_inv_def)
  then have i: "startPos f = int s" "addedRows f = int a" "totalRows f = int (length rs)" "S \<le> s" "s = S \<or> int s \<le> req \<and> s \<le> length rs"
    "shows_rows H (fillWindow f) n (take a (drop s rs))" "a = 0 \<or> s + a \<le> length rs" "\<not> windowFull f \<Longrightarrow> a = length rs - s"
    "windowFull f \<Longrightarrow> rs \<noteq> [] \<and> (a = 0 \<or> req < int (s + a))" "thrown f = []"
    using assms(5) by (auto simp: fill_at_def)
  have t: "int_result (totalRows f + 1) = Some (int (length rs) + 1)" using i(3) assms(7) by (simp add: int_result_def)
  let ?f = "f\<lparr> retryCount := 0, totalRows := int (length rs) + 1 \<rparr>"
  show ?thesis
  proof (cases "int s \<ge> int (length rs) + 1 \<or> windowFull f")
    case True
    have "fill_at H n S req (rs @ [row]) ?f s a"
      using i True take_run(1) [of s a rs row] assms(5) by (auto simp: fill_at_def)
    then show ?thesis using True t i(1) by (auto simp: fill_row_def fill_inv_def Let_def)
  next
    case False
    then have s: "s \<le> length rs" "\<not> windowFull f" by simp_all
    then have sa: "s + a = length rs" using i(8) by simp
    have len: "length (take a (drop s rs)) = a" using sa by simp
    have small: "int a + 1 < 2 ^ 31" using sa assms(7) by simp
    obtain cpr w where c: "copyRow H e row (int a) (fillWindow f) = Some (cpr, w)"
      "shows_rows H w n (if cpr = CPR_OK then take a (drop s rs) @ [row] else take a (drop s rs))"
      using copyRow_shows [OF assms(1) i(6) assms(2,3,6), unfolded len, OF small, of e] by blast
    show ?thesis
    proof (cases "cpr = CPR_FULL \<and> a \<noteq> 0 \<and> int (s + a) \<le> req")
      case False
      have "int_result (int s + int a) = Some (int (s + a))" using sa assms(7) by (simp add: int_result_def)
      then have "fill_row H n req row e e' f = finish_copy cpr (?f\<lparr> fillWindow := w \<rparr>)"
        using t s c(1) i(1-3) False by (auto simp: fill_row_def Let_def)
      moreover have "cpr = CPR_FULL \<longrightarrow> a = 0 \<or> req < int (s + a)" using False by auto
      ultimately show ?thesis using finish_copy_inv [OF at assms(5) s(2,1) assms(7) c(2)] by simp
    next
      case True
      have u: "usable w" using c(2) by (auto simp: shows_rows_def split: if_splits)
      obtain cpr' w' where c': "copyRow H e' row 0 (restart_window n w) = Some (cpr', w')"
        "shows_rows H w' n (if cpr' = CPR_OK then [row] else [])"
        using copyRow_shows [OF assms(1) shows_restart [OF u assms(2,3)] assms(2,3,6), of e', unfolded append_Nil] by auto
      let ?g = "f\<lparr> startPos := int (s + a), addedRows := 0 \<rparr>"
      have g: "fill_at H n S req rs (?g\<lparr> fillWindow := restart_window n w \<rparr>) (s + a) 0"
        using i True s sa shows_restart [OF u assms(2,3)] assms(5) by (simp add: fill_at_def)
      have "int_result (int s + int a) = Some (int (s + a))" using sa assms(7) by (simp add: int_result_def)
      then have "fill_row H n req row e e' f = finish_copy cpr' (?f\<lparr> startPos := int (s + a), addedRows := 0, fillWindow := w' \<rparr>)"
        using t s c(1) c'(1) i(1-3) True by (simp add: fill_row_def Let_def)
      moreover have "?f\<lparr> startPos := int (s + a), addedRows := 0, fillWindow := w' \<rparr>
          = (?g\<lparr> fillWindow := restart_window n w \<rparr>)\<lparr> retryCount := 0, totalRows := int (length rs) + 1, fillWindow := w' \<rparr>"
        by (rule fill.equality) simp_all
      moreover have "\<exists>f'. finish_copy cpr' ((?g\<lparr> fillWindow := restart_window n w \<rparr>)\<lparr> retryCount := 0, totalRows := int (length rs) + 1, fillWindow := w' \<rparr>) = Some f'
          \<and> fill_inv H n S req (rs @ [row]) f'"
        by (rule finish_copy_inv [OF g]) (use assms(5,7) s sa c'(2) in auto)
      ultimately show ?thesis by metis
    qed
  qed
qed

fun query_rows :: "answer list \<Rightarrow> sql_value list list" where
  "query_rows [] = []"
| "query_rows ((STEP_ROW r, _) # as) = r # query_rows as"
| "query_rows ((STEP_DONE, _) # as) = []"
| "query_rows (_ # as) = query_rows as"

definition ends :: "answer list \<Rightarrow> bool" where
  "ends answers \<longleftrightarrow> STEP_DONE \<in> fst ` set answers"

lemma fill_inv_other:
  "fill_inv H n S req rs (f\<lparr> retryCount := k \<rparr>) = fill_inv H n S req rs f"
  "fill_inv H n S req rs f \<Longrightarrow> fill_inv H n S req rs (fill_throw x f)"
  by (auto simp: fill_inv_def fill_at_def fill_throw_def)

definition fill_ends :: "cw_header \<Rightarrow> int \<Rightarrow> nat \<Rightarrow> int \<Rightarrow> bool \<Rightarrow> sql_value list list \<Rightarrow> fill \<Rightarrow> bool" where
  "fill_ends H n S req countAll rs f \<longleftrightarrow> (\<exists>k. fill_inv H n S req (take k rs) f
     \<and> (\<not> gotException f \<and> (countAll \<or> \<not> windowFull f) \<longrightarrow> length rs \<le> k))"

lemma fill_loop_ends:
  assumes "header_ok H" "0 \<le> n" "n < 2 ^ 16" "fill_inv H n S req rs f" "ends answers"
    "length rs + length answers < 2 ^ 31" "\<forall>r \<in> set (query_rows answers). length r = nat n"
  shows "\<exists>f'. fill_loop H n req countAll answers f = Some f' \<and> fill_ends H n S req countAll (rs @ query_rows answers) f'"
  using assms(4-7)
proof (induction answers arbitrary: rs f)
  case Nil
  then show ?case by (simp add: ends_def)
next
  case (Cons a answers)
  have stop: "fill_ends H n S req countAll (rs @ query_rows (a # answers)) f" if "gotException f \<or> windowFull f \<and> \<not> countAll"
    unfolding fill_ends_def using that Cons.prems(1) by (intro exI [of _ "length rs"]) auto
  show ?case
  proof (cases "gotException f \<or> windowFull f \<and> \<not> countAll")
    case True
    then show ?thesis using stop unfolding fill_loop.simps [of H n req countAll "a # answers" f] by auto
  next
    case False
    note unf = fill_loop.simps [of H n req countAll "a # answers" f]
    let ?busy = "if retryCount f > 50 then fill_throw RetryCountExceeded f else f\<lparr> retryCount := retryCount f + 1 \<rparr>"
    obtain st e e' where a: "a = (st, e, e')" by (cases a)
    have retry: ?thesis if "fill_step H n req a f = Some (False, g)" "fill_inv H n S req rs g" "st \<noteq> STEP_DONE"
      "query_rows (a # answers) = query_rows answers" for g
    proof -
      have "ends answers" using Cons.prems(2) that(3) a by (auto simp: ends_def)
      from Cons.IH [OF that(2) this] Cons.prems(3,4) show ?thesis using False that(1) unfolding unf that(4) by auto
    qed
    show ?thesis
    proof (cases st)
      case (STEP_ROW row)
      have "length row = nat n" "length rs + 1 < 2 ^ 31" using Cons.prems(3,4) a STEP_ROW by auto
      then obtain g where g: "fill_row H n req row e e' f = Some g" "fill_inv H n S req (rs @ [row]) g"
        using fill_row_inv [OF assms(1-3) Cons.prems(1)] False by blast
      have "ends answers" "length (rs @ [row]) + length answers < 2 ^ 31" "\<forall>r \<in> set (query_rows answers). length r = nat n"
        using Cons.prems(2-4) a STEP_ROW by (auto simp: ends_def)
      from Cons.IH [OF g(2) this] show ?thesis using False g(1) unfolding unf unfolding a STEP_ROW by (auto simp: bind_map_option)
    next
      case STEP_DONE
      have "fill_ends H n S req countAll rs f" using Cons.prems(1) unfolding fill_ends_def by (intro exI [of _ "length rs"]) simp
      then show ?thesis using False unfolding unf unfolding a STEP_DONE by auto
    next
      case STEP_LOCKED
      show ?thesis using retry [of ?busy] a STEP_LOCKED fill_inv_other Cons.prems(1) by simp
    next
      case STEP_BUSY
      show ?thesis using retry [of ?busy] a STEP_BUSY fill_inv_other Cons.prems(1) by simp
    next
      case STEP_ERROR
      show ?thesis using retry [of "fill_throw DatabaseError f"] a STEP_ERROR fill_inv_other(2) Cons.prems(1) by simp
    qed
  qed
qed

lemma pack_result_parts:
  assumes "s < 2 ^ 31" "t < 2 ^ 31"
  shows "drop_bit 32 (pack_result (int s) (int t)) = word_of_nat s" "take_bit 32 (pack_result (int s) (int t)) = word_of_nat t"
proof -
  have b: "bit x i \<longleftrightarrow> i < 31 \<and> bit x i" if "x < 2 ^ 31" for x i :: nat
    using that bit_take_bit_iff [of 31 x i] by (simp add: take_bit_nat_eq_self)
  have bs: "bit (word_of_nat s :: u64) i \<longleftrightarrow> i < 31 \<and> bit s i" "bit (word_of_nat t :: u64) i \<longleftrightarrow> i < 31 \<and> bit t i" for i
    using b [OF assms(1), of i] b [OF assms(2), of i] by (auto simp: bit_simps)
  show "drop_bit 32 (pack_result (int s) (int t)) = word_of_nat s"
    by (rule bit_word_eqI) (auto simp: pack_result_def bit_drop_bit_eq bit_or_iff bit_push_bit_iff bs)
  show "take_bit 32 (pack_result (int s) (int t)) = word_of_nat t"
    by (rule bit_word_eqI) (auto simp: pack_result_def bit_take_bit_iff bit_or_iff bit_push_bit_iff bs)
qed

lemma fill_start:
  assumes "usable w" "0 \<le> n" "n < 2 ^ 16"
  shows "nativeExecuteForCursorWindow H n answers (int S) req countAll w
    = map_option fill_result (fill_loop H n req countAll answers \<lparr> retryCount = 0, totalRows = 0, addedRows = 0, startPos = int S,
        windowFull = False, gotException = False, thrown = [], fillWindow = restart_window n w \<rparr>)"
    and "fill_inv H n S req [] \<lparr> retryCount = 0, totalRows = 0, addedRows = 0, startPos = int S,
        windowFull = False, gotException = False, thrown = [], fillWindow = restart_window n w \<rparr>"
proof -
  have "fst (clear w) = OK" "fst (setNumColumns (word_of_int n) (snd (clear w))) = OK"
    using usableD [OF assms(1)] by (simp_all add: clear_def setNumColumns_def)
  then show "nativeExecuteForCursorWindow H n answers (int S) req countAll w
    = map_option fill_result (fill_loop H n req countAll answers \<lparr> retryCount = 0, totalRows = 0, addedRows = 0, startPos = int S,
        windowFull = False, gotException = False, thrown = [], fillWindow = restart_window n w \<rparr>)"
    by (simp add: nativeExecuteForCursorWindow_def restart_window_def Let_def case_prod_beta)
  show "fill_inv H n S req [] \<lparr> retryCount = 0, totalRows = 0, addedRows = 0, startPos = int S,
        windowFull = False, gotException = False, thrown = [], fillWindow = restart_window n w \<rparr>"
    unfolding fill_inv_def fill_at_def using shows_restart [OF assms] by (intro exI [of _ S] exI [of _ 0]) simp
qed

lemma fill_result_shows:
  assumes "fill_ends H n S req countAll rs f" "fill_result f = ([], r, w')" "S < 2 ^ 31" "length rs < 2 ^ 31"
  shows "\<exists>s a. unat (drop_bit 32 r) = s \<and> S \<le> s \<and> (a = 0 \<or> s + a \<le> length rs) \<and> shows_rows H w' n (take a (drop s rs))
    \<and> unat (take_bit 32 r) \<le> length rs \<and> (countAll \<longrightarrow> unat (take_bit 32 r) = length rs)
    \<and> (int S \<le> req \<and> req < int (length rs) \<longrightarrow> int s \<le> req \<and> req < int (s + a))"
proof -
  obtain k s a where at: "fill_at H n S req (take k rs) f s a"
    and k: "\<not> gotException f \<and> (countAll \<or> \<not> windowFull f) \<longrightarrow> length rs \<le> k"
    using assms(1) unfolding fill_ends_def fill_inv_def by blast
  have th: "thrown f = []" "\<not> (totalRows f > 0 \<and> addedRows f = 0)" "r = pack_result (startPos f) (totalRows f)" "w' = fillWindow f"
    using assms(2) by (auto simp: fill_result_def split: if_splits)
  then have i: "startPos f = int s" "addedRows f = int a" "totalRows f = int (length (take k rs))" "S \<le> s" "s = S \<or> int s \<le> req \<and> s \<le> length (take k rs)"
    "shows_rows H w' n (take a (drop s (take k rs)))" "a = 0 \<or> s + a \<le> length (take k rs)" "\<not> gotException f"
    "\<not> windowFull f \<longrightarrow> a = length (take k rs) - s" "windowFull f \<longrightarrow> take k rs \<noteq> [] \<and> (a = 0 \<or> req < int (s + a))"
    using at by (auto simp: fill_at_def)
  have z: "a = 0 \<Longrightarrow> take k rs = []" using th(2) i(2,3) by auto
  have small: "s < 2 ^ 31" "length (take k rs) < 2 ^ 31" using i(5) assms(3,4) by auto
  have rp: "r = pack_result (int s) (int (length (take k rs)))" using th(3) i(1,3) by simp
  have parts: "unat (drop_bit 32 r) = s" "unat (take_bit 32 r) = length (take k rs)"
    using pack_result_parts [OF small] small unat_of_nat64 [of s] unat_of_nat64 [of "length (take k rs)"] unfolding rp by simp_all
  have run: "take a (drop s (take k rs)) = take a (drop s rs)" "a = 0 \<or> s + a \<le> length rs"
    using i(7) by (auto simp: drop_take min_def split: if_splits)
  have req: "int s \<le> req \<and> req < int (s + a)" if "int S \<le> req" "req < int (length rs)"
  proof (cases "windowFull f")
    case True
    then have "req < int (s + a)" using i(10) z by blast
    then show ?thesis using i(5) that(1) by auto
  next
    case False
    then have "take k rs = rs" using k i(8) by simp
    then have "a = length rs - s" "s = S \<or> int s \<le> req" using i(5,9) False by auto
    then show ?thesis using that by auto
  qed
  have all: "countAll \<longrightarrow> length (take k rs) = length rs" using k i(8) by simp
  show ?thesis
    using parts i(4,6) run req all by (intro exI [of _ s] exI [of _ a]) auto
qed

text \<open>
  C17 (query_fills_window): whatever rows, lock conflicts and errors the statement produces, the
  call returns once the statement is done; without an exception the window holds consecutive rows
  of the result from the reported start position on, each cell with the value of the database, the
  required row among them if the result has it, and the reported count is the number of rows when
  all rows are counted.
\<close>

theorem query_fills_window:
  assumes "header_ok H" "usable w" "0 \<le> n" "n < 2 ^ 16" "ends answers" "length answers < 2 ^ 31" "S < 2 ^ 31"
    "\<forall>row \<in> set (query_rows answers). length row = nat n"
  shows "\<exists>ex r w'. nativeExecuteForCursorWindow H n answers (int S) req countAll w = Some (ex, r, w')
    \<and> (ex = [] \<longrightarrow> (\<exists>s a. unat (drop_bit 32 r) = s \<and> S \<le> s \<and> (a = 0 \<or> s + a \<le> length (query_rows answers))
         \<and> shows_rows H w' n (take a (drop s (query_rows answers)))
         \<and> unat (take_bit 32 r) \<le> length (query_rows answers)
         \<and> (countAll \<longrightarrow> unat (take_bit 32 r) = length (query_rows answers))
         \<and> (int S \<le> req \<and> req < int (length (query_rows answers)) \<longrightarrow> int s \<le> req \<and> req < int (s + a))))"
proof -
  note start = fill_start(1) [OF assms(2-4), of H answers S req countAll] fill_start(2) [OF assms(2-4), of H S req]
  obtain f where f: "nativeExecuteForCursorWindow H n answers (int S) req countAll w = Some (fill_result f)"
    "fill_ends H n S req countAll (query_rows answers) f"
    using fill_loop_ends [OF assms(1,3,4) start(2) assms(5) _ assms(8), of countAll] assms(6) unfolding start(1) by auto
  have "length (query_rows answers) \<le> length answers" by (induction answers rule: query_rows.induct) auto
  then have "length (query_rows answers) < 2 ^ 31" using assms(6) by linarith
  then show ?thesis using f(1) fill_result_shows [OF f(2) _ assms(7)] by (cases "fill_result f") auto
qed

section \<open>Rows that fit\<close>

text \<open>With working memory a window takes everything up to its inflated size.\<close>

definition used :: "CursorWindow \<Rightarrow> nat" where
  "used w = unat (mAllocOffset w) + unat (mNumRows w) * unat (mNumColumns w) * 16"

fun value_bytes :: "sql_value \<Rightarrow> nat" where
  "value_bytes (SqlText t) = (length t + 1 + 3) div 4 * 4"
| "value_bytes (SqlBlob b) = (length b + 3) div 4 * 4"
| "value_bytes _ = 0"

definition row_bytes :: "sql_value list \<Rightarrow> nat" where
  "row_bytes row = 16 * length row + sum_list (map value_bytes row)"

lemma inflated_same:
  "migrate H e fd w = Some w' \<Longrightarrow> mInflatedSize w' = mInflatedSize w"
  "maybeInflate H e w = Some (st, w') \<Longrightarrow> mInflatedSize w' = mInflatedSize w"
  "allocRow H e w = Some (st, w') \<Longrightarrow> mInflatedSize w' = mInflatedSize w"
  "alloc H e n w = Some (st, off, w') \<Longrightarrow> mInflatedSize w' = mInflatedSize w"
  "mInflatedSize (snd (freeLastRow w)) = mInflatedSize w"
proof -
  show m: "mInflatedSize w' = mInflatedSize w" if "migrate H e fd w = Some w'" for fd w w'
    using that by (auto simp: migrate_def Let_def updateSlotsData_def split: bind_splits)
  show i: "mInflatedSize w' = mInflatedSize w" if "maybeInflate H e w = Some (st, w')" for st w'
    using that m by (auto simp: maybeInflate_def Let_def split: if_splits)
  show "mInflatedSize w' = mInflatedSize w" if "allocRow H e w = Some (st, w')"
    using that i by (auto simp: allocRow_def Let_def updateSlotsData_def split: if_splits bind_splits)
  show "mInflatedSize w' = mInflatedSize w" if "alloc H e n w = Some (st, off, w')"
    using that i by (auto simp: alloc_def Let_def split: if_splits bind_splits)
  show "mInflatedSize (snd (freeLastRow w)) = mInflatedSize w"
    by (simp add: freeLastRow_def Let_def updateSlotsData_def)
qed

lemma inflate_full:
  assumes "header_ok H" "usable w" "e_malloc e (mInflatedSize w)"
  shows "\<exists>st w'. maybeInflate H e w = Some (st, w') \<and> usable w' \<and> same_table w w' \<and> unat (mSize w') = mInflatedSize w'"
proof -
  note ok = usableD [OF assms(2)]
  obtain st w' where w': "maybeInflate H e w = Some (st, w')" "cw_ok w'" "same_table w w'"
    using maybeInflate_ok [OF assms(1) ok(1), of e] by blast
  have "unat (mSize w') = mInflatedSize w'"
  proof (cases "unat (mSize w) = mInflatedSize w")
    case True
    then show ?thesis using w'(1) by (simp add: maybeInflate_def)
  next
    case False
    then obtain fd where "migrate H e fd w = Some w'"
      using w'(1) ok(2) assms(3) by (auto simp: maybeInflate_def Let_def split: if_splits)
    then show ?thesis using migrate_ok [OF assms(1) ok(1), of e fd] by auto
  qed
  then show ?thesis using w' ok(2) by (auto simp: usable_def same_table_def)
qed

lemma used_same: "same_table w w' \<Longrightarrow> used w' = used w"
  by (simp add: same_table_def used_def)

lemma room: "cw_ok w \<Longrightarrow> used w + n \<le> unat (mSize w) \<Longrightarrow> unat (mAllocOffset w) + n \<le> unat (mSlotsOffset w)"
  using cw_okD(3) [of w] by (simp add: used_def)

lemma alloc_fits:
  assumes "header_ok H" "usable w" "e_malloc e (mInflatedSize w)" "used w + (n + 3) div 4 * 4 \<le> mInflatedSize w"
  shows "\<exists>off w'. alloc H e n w = Some (OK, off, w') \<and> used w' = used w + (n + 3) div 4 * 4"
proof -
  note ok = usableD [OF assms(2)]
  define a where "a = (n + 3) div 4 * 4"
  obtain w1 where w1: "(if unat (mAllocOffset w) + a > unat (mSlotsOffset w) then map_option snd (maybeInflate H e w) else Some w) = Some w1"
    "usable w1" "same_table w w1" "unat (mAllocOffset w1) + a \<le> unat (mSlotsOffset w1)"
  proof (cases "unat (mAllocOffset w) + a > unat (mSlotsOffset w)")
    case True
    obtain st v where v: "maybeInflate H e w = Some (st, v)" "usable v" "same_table w v" "unat (mSize v) = mInflatedSize v"
      using inflate_full [OF assms(1-3)] by blast
    have "used v + a \<le> unat (mSize v)" using assms(4) v(3,4) used_same [OF v(3)] by (simp add: a_def same_table_def)
    then show ?thesis using that [of v] v True room [of v a] usableD(1) by simp
  next
    case False
    then show ?thesis using that [of w] assms(2) by (simp add: same_table_def)
  qed
  let ?w = "w1\<lparr>mAllocOffset := word_of_nat (unat (mAllocOffset w1) + a)\<rparr>"
  have "unat (mAllocOffset w1) + a < 2 ^ 31" using w1(4) cw_okD(3,4,5) [OF usableD(1) [OF w1(2)]] by linarith
  then have un: "unat (mAllocOffset ?w) = unat (mAllocOffset w1) + a" by (simp add: word_of_small del: of_nat_add)
  have "alloc H e n w = Some (OK, mAllocOffset w1, ?w)"
    unfolding alloc_def a_def [symmetric] Let_def w1(1) using ok(2) w1(3,4) by (simp add: same_table_def del: of_nat_add)
  moreover have "used ?w = used w + a" using un used_same [OF w1(3)] by (simp add: used_def)
  ultimately show ?thesis unfolding a_def by blast
qed

lemma alloc_row_fits:
  assumes "header_ok H" "usable w" "e_malloc e (mInflatedSize w)" "used w + unat (mNumColumns w) * 16 \<le> mInflatedSize w"
    "unat (mNumRows w) + 1 < 2 ^ 32"
  shows "\<exists>w'. allocRow H e w = Some (OK, w') \<and> used w' = used w + unat (mNumColumns w) * 16"
proof -
  note ok = usableD [OF assms(2)]
  define n where "n = unat (mNumColumns w) * kSlotSizeBytes"
  have n: "n < 2 ^ 21" using cw_okD(6) [OF ok(1)] by (simp add: n_def)
  obtain st w' where a: "allocRow H e w = Some (st, w')" "cw_ok w'" "heap w' = heap w" "mNumColumns w' = mNumColumns w"
    "st = OK \<Longrightarrow> mNumRows w' = mNumRows w + 1"
    using allocRow_ok [OF assms(1) ok(1), of e] by metis
  have "st = OK"
  proof (rule ccontr)
    assume bad: "st \<noteq> OK"
    obtain v where v: "(if sint (row_offset w n) < sint (mAllocOffset w) then map_option snd (maybeInflate H e w) else Some w) = Some v"
      "usable v" "same_table w v" "unat (mAllocOffset v) + n \<le> unat (mSlotsOffset v)"
    proof (cases "sint (row_offset w n) < sint (mAllocOffset w)")
      case True
      obtain st v where v: "maybeInflate H e w = Some (st, v)" "usable v" "same_table w v" "unat (mSize v) = mInflatedSize v"
        using inflate_full [OF assms(1-3)] by blast
      have "used v + n \<le> unat (mSize v)" using assms(4) v(3,4) used_same [OF v(3)] by (simp add: n_def same_table_def)
      then show ?thesis using that [of v] v True room [of v n] usableD(1) by simp
    next
      case False
      then have "\<not> unat (mSlotsOffset w) < unat (mAllocOffset w) + n" using row_offset_full [OF ok(1) n] by blast
      then show ?thesis using that [of w] assms(2) False by (simp add: same_table_def)
    qed
    note ro = row_offset_fits [OF usableD(1) [OF v(2)] n v(4)]
    have "allocRow H e w \<noteq> Some (st, w')"
      using bad ok(2) ro(3) unfolding allocRow_def n_def [symmetric] Let_def v(1) by (auto split: bind_splits)
    then show False using a(1) by simp
  qed
  moreover have "length (heap w') = unat (mAllocOffset w')" "length (heap w) = unat (mAllocOffset w)"
    using cw_okD(1-3) [OF a(2)] cw_okD(1-3) [OF ok(1)] by (simp_all add: heap_def)
  ultimately have "used w' = used w + unat (mNumColumns w) * 16"
    using a(3-5) unat_plus_one [of "mNumRows w", OF refl assms(5)] by (simp add: used_def algebra_simps)
  then show ?thesis using a(1) \<open>st = OK\<close> by blast
qed

lemma set_slot_used:
  "set_slot H w p t val = Some w' \<Longrightarrow> used w' = used w \<and> mInflatedSize w' = mInflatedSize w"
  by (auto simp: set_slot_def used_def split: bind_splits)

lemma put_scalar_used:
  assumes "header_ok H" "usable w" "row < mNumRows w" "column < mNumColumns w" "length val = 8"
  shows "\<exists>w'. put_scalar H row column t val w = Some (OK, w') \<and> used w' = used w \<and> mInflatedSize w' = mInflatedSize w"
proof -
  note ok = usableD [OF assms(2)]
  note slot = getFieldSlot_in [OF ok(1) assms(3,4)]
  have "slot_pos w row column + 16 \<le> length (mData w)" using slot(3) cw_okD(1) [OF ok(1)] by simp
  from set_slot_ok [OF assms(1) this assms(5), of t] obtain w' where "set_slot H w (slot_pos w row column) t val = Some w'" by blast
  then show ?thesis using ok(2) slot(1) set_slot_used by (simp add: put_scalar_def)
qed

lemma put_buffer_used:
  assumes "header_ok H" "usable w" "row < mNumRows w" "column < mNumColumns w" "e_malloc e (mInflatedSize w)"
    "used w + (length val + 3) div 4 * 4 \<le> mInflatedSize w"
  shows "\<exists>w'. putBlobOrString H e row column val t w = Some (OK, w') \<and> used w' = used w + (length val + 3) div 4 * 4
    \<and> mInflatedSize w' = mInflatedSize w"
proof -
  note ok = usableD [OF assms(2)]
  obtain off w1 where a: "alloc H e (length val) w = Some (OK, off, w1)" "used w1 = used w + (length val + 3) div 4 * 4"
    using alloc_fits [OF assms(1,2,5,6)] by blast
  obtain st w' where p: "putBlobOrString H e row column val t w = Some (st, w')"
    using putBlobOrString_ok [OF assms(1) ok(1) assms(3), of e column val t] by blast
  then have "st = OK \<and> used w' = used w1 \<and> mInflatedSize w' = mInflatedSize w1"
    using ok(2) a(1) getFieldSlot_in(1) [OF ok(1) assms(3,4)] set_slot_used [of H _ _ t _ w']
    by (auto simp: putBlobOrString_def Let_def used_def split: bind_splits)
  then show ?thesis using p a inflated_same(4) [OF a(1)] by simp
qed

lemma put_value_used:
  assumes "header_ok H" "usable w" "row < mNumRows w" "column < mNumColumns w" "v \<noteq> SqlOther" "e_malloc e (mInflatedSize w)"
    "used w + value_bytes v \<le> mInflatedSize w"
  shows "\<exists>w'. put_value H e row column v w = Some (OK, w') \<and> used w' = used w + value_bytes v \<and> mInflatedSize w' = mInflatedSize w"
proof (cases v)
  case (SqlText t)
  then show ?thesis using put_buffer_used [OF assms(1-4,6), of "t @ [0]"] assms(7) by (simp add: putString_def)
next
  case (SqlBlob b)
  then show ?thesis using put_buffer_used [OF assms(1-4,6), of b] assms(7) by (simp add: putBlob_def)
qed (use assms(5) put_scalar_used [OF assms(1-4)] in \<open>auto simp: putLong_def putDouble_def putNull_def\<close>)

lemma put_inflated:
  "put_scalar H row column t val w = Some (st, w') \<Longrightarrow> mInflatedSize w' = mInflatedSize w"
  "putBlobOrString H e row column b t w = Some (st, w') \<Longrightarrow> mInflatedSize w' = mInflatedSize w"
proof -
  show "mInflatedSize w' = mInflatedSize w" if "put_scalar H row column t val w = Some (st, w')"
    using that set_slot_used by (fastforce simp: put_scalar_def split: if_splits option.splits)
  show "mInflatedSize w' = mInflatedSize w" if put: "putBlobOrString H e row column b t w = Some (st, w')"
  proof (cases "mReadOnly w \<or> getFieldSlot w row column = None")
    case True
    then show ?thesis using that by (auto simp: putBlobOrString_def split: if_splits)
  next
    case False
    then obtain s' off w1 where a: "alloc H e (length b) w = Some (s', off, w1)"
      using put by (cases "alloc H e (length b) w") (auto simp: putBlobOrString_def)
    have "w' = w1 \<or> (\<exists>d p x. set_slot H (w1\<lparr>mData := d\<rparr>) p t x = Some w')"
      using that False a by (auto simp: putBlobOrString_def Let_def split: bind_splits if_splits)
    then show ?thesis using inflated_same(4) [OF a] set_slot_used [of H _ _ t _ w'] by auto
  qed
qed

lemma put_value_inflated: "put_value H e row column v w = Some (st, w') \<Longrightarrow> mInflatedSize w' = mInflatedSize w"
  by (cases v) (auto simp: putLong_def putDouble_def putNull_def putBlob_def putString_def dest: put_inflated)

lemma copy_columns_inflated: "copy_columns H e row i vs w = Some (res, w') \<Longrightarrow> mInflatedSize w' = mInflatedSize w"
proof (induction vs arbitrary: i w)
  case (Cons v vs)
  show ?case
  proof (cases "v = SqlOther")
    case False
    then obtain st w1 where p: "put_value H (e (i + 1)) row (word_of_nat i) v w = Some (st, w1)"
      using Cons.prems by (auto split: bind_splits)
    then show ?thesis using Cons False put_value_inflated [OF p] by (auto split: if_splits)
  qed (use Cons.prems in simp)
qed simp

lemma copyRow_inflated:
  assumes "copyRow H e row a w = Some (res, w')"
  shows "mInflatedSize w' = mInflatedSize w"
proof -
  obtain st w1 where a: "allocRow H (e 0) w = Some (st, w1)" using assms by (auto simp: copyRow_def split: bind_splits)
  then show ?thesis
    using assms inflated_same(3) [OF a] copy_columns_inflated inflated_same(5)
    by (fastforce simp: copyRow_def split: if_splits bind_splits)
qed

lemma copy_columns_fits:
  assumes "header_ok H" "usable w" "row < mNumRows w" "i + length vs \<le> unat (mNumColumns w)" "SqlOther \<notin> set vs"
    "\<And>k. e_malloc (e k) (mInflatedSize w)" "used w + sum_list (map value_bytes vs) \<le> mInflatedSize w"
  shows "\<exists>w'. copy_columns H e row i vs w = Some (CPR_OK, w')"
  using assms
proof (induction vs arbitrary: i w)
  case (Cons v vs)
  have col: "word_of_nat i < mNumColumns w"
    using Cons.prems(4) unat_below [of i "mNumColumns w"] by (simp add: word_less_nat_alt)
  have v: "v \<noteq> SqlOther" using Cons.prems(5) by auto
  have "used w + value_bytes v \<le> mInflatedSize w" using Cons.prems(7) by simp
  then obtain w1 where w1: "put_value H (e (i + 1)) row (word_of_nat i) v w = Some (OK, w1)"
    "used w1 = used w + value_bytes v" "mInflatedSize w1 = mInflatedSize w"
    using put_value_used [OF Cons.prems(1-3) col v Cons.prems(6)] by blast
  have k: "usable w1" "mNumColumns w1 = mNumColumns w" "mNumRows w1 = mNumRows w"
    using put_value_stores [OF Cons.prems(1-3) col v, of "e (i + 1)"] w1(1) by (auto simp: stores_def keeps_def)
  have "\<exists>w'. copy_columns H e row (i + 1) vs w1 = Some (CPR_OK, w')"
    by (rule Cons.IH [OF Cons.prems(1) k(1)]) (use Cons.prems(3-7) k w1 in auto)
  then show ?case using w1(1) v by simp
qed simp

lemma copyRow_fits:
  assumes "header_ok H" "usable w" "mNumRows w = 0" "mAllocOffset w = 0" "length row = unat (mNumColumns w)" "SqlOther \<notin> set row"
    "\<And>k. e_malloc (e k) (mInflatedSize w)" "row_bytes row \<le> mInflatedSize w"
  shows "\<exists>w'. copyRow H e row 0 w = Some (CPR_OK, w')"
proof -
  have u: "used w = 0" using assms(3,4) by (simp add: used_def)
  obtain w1 where w1: "allocRow H (e 0) w = Some (OK, w1)" "used w1 = length row * 16"
    using alloc_row_fits [OF assms(1,2,7)] assms(3,5,8) u by (auto simp: row_bytes_def)
  have k: "usable w1" "mNumColumns w1 = mNumColumns w" "mNumRows w1 = 1"
    using alloc_row_keeps [OF assms(1,2), of "e 0"] w1(1) assms(3) by (auto simp: keeps_def)
  have "\<exists>w'. copy_columns H e 0 0 row w1 = Some (CPR_OK, w')"
    by (rule copy_columns_fits [OF assms(1) k(1)]) (use k assms(5-8) w1 inflated_same(3) [OF w1(1)] in \<open>auto simp: row_bytes_def\<close>)
  then show ?thesis using w1(1) by (auto simp: copyRow_def)
qed

section \<open>Queries that succeed\<close>

text \<open>
  A query without errors, on a window that every single row fits into: the copying raises no exception
  and the window is full only with rows in it.
\<close>

definition fill_fine :: "nat \<Rightarrow> fill \<Rightarrow> bool" where
  "fill_fine I f \<longleftrightarrow> \<not> gotException f \<and> mInflatedSize (fillWindow f) = I
     \<and> (addedRows f = 0 \<longrightarrow> \<not> windowFull f \<and> mAllocOffset (fillWindow f) = 0)"

lemma restart_fresh:
  "usable w \<Longrightarrow> mAllocOffset (restart_window n w) = 0 \<and> mInflatedSize (restart_window n w) = mInflatedSize w"
  by (simp add: usable_def restart_window_def setNumColumns_def clear_def)

definition good_row :: "nat \<Rightarrow> int \<Rightarrow> sql_value list \<Rightarrow> bool" where
  "good_row I n row \<longleftrightarrow> length row = nat n \<and> SqlOther \<notin> set row \<and> row_bytes row \<le> I"

lemma copyRow_good:
  assumes "header_ok H" "0 \<le> n" "n < 2 ^ 16" "shows_rows H w n rows" "good_row (mInflatedSize w) n row" "int (length rows) + 1 < 2 ^ 31"
    "\<And>k. e_malloc (e k) (mInflatedSize w)" "rows = [] \<Longrightarrow> mAllocOffset w = 0"
  shows "\<exists>res w'. copyRow H e row (int (length rows)) w = Some (res, w') \<and> res \<noteq> CPR_ERROR \<and> (rows = [] \<longrightarrow> res = CPR_OK)
    \<and> usable w' \<and> mInflatedSize w' = mInflatedSize w"
proof -
  obtain res w' where c: "copyRow H e row (int (length rows)) w = Some (res, w')" "usable w'" "res = CPR_ERROR \<longrightarrow> SqlOther \<in> set row"
    using copyRow_shows [OF assms(1,4,2,3) _ assms(6), of row e] assms(5) by (auto simp: good_row_def shows_rows_def)
  have "res = CPR_OK" if "rows = []"
  proof -
    have "mNumRows w = 0" "length row = unat (mNumColumns w)" "usable w"
      using that assms(2-5) unat_unique [of "mNumRows w" 0] by (simp_all add: shows_rows_def good_row_def unat_columns)
    then show ?thesis using copyRow_fits [OF assms(1), of w row e] assms(5,7,8) that c(1) by (auto simp: good_row_def)
  qed
  then show ?thesis using c assms(5) copyRow_inflated [OF c(1)] by (auto simp: good_row_def)
qed

lemma fill_row_fine:
  assumes "header_ok H" "0 \<le> n" "n < 2 ^ 16" "fill_inv H n S req rs f" "fill_fine I f" "good_row I n row" "length rs + 1 < 2 ^ 31"
    "\<And>k. e_malloc (e k) I" "\<And>k. e_malloc (e' k) I" "fill_row H n req row e e' f = Some f'"
  shows "fill_fine I f'"
proof -
  have fine: "\<not> gotException f" "mInflatedSize (fillWindow f) = I"
    "addedRows f = 0 \<Longrightarrow> \<not> windowFull f \<and> mAllocOffset (fillWindow f) = 0"
    using assms(5) by (simp_all add: fill_fine_def)
  obtain s a where at: "fill_at H n S req rs f s a" using assms(4) by (auto simp: fill_inv_def)
  then have i: "startPos f = int s" "addedRows f = int a" "totalRows f = int (length rs)"
    "shows_rows H (fillWindow f) n (take a (drop s rs))" "a = 0 \<or> s + a \<le> length rs"
    using fine(1) by (auto simp: fill_at_def)
  have t: "int_result (totalRows f + 1) = Some (int (length rs) + 1)" using i(3) assms(7) by (simp add: int_result_def)
  let ?f = "f\<lparr> retryCount := 0, totalRows := int (length rs) + 1 \<rparr>"
  show ?thesis
  proof (cases "int s \<ge> int (length rs) + 1 \<or> windowFull f")
    case True
    then have "f' = ?f" using assms(10) t i(1) by (auto simp: fill_row_def Let_def)
    then show ?thesis using assms(5) by (simp add: fill_fine_def)
  next
    case False
    have len: "length (take a (drop s rs)) = a" using i(5) by auto
    have small: "int a + 1 < 2 ^ 31" using i(5) assms(7) by auto
    obtain cpr w where c: "copyRow H e row (int a) (fillWindow f) = Some (cpr, w)" "cpr \<noteq> CPR_ERROR" "a = 0 \<longrightarrow> cpr = CPR_OK"
      "usable w" "mInflatedSize w = I"
      using copyRow_good [OF assms(1-3) i(4) _ _ _, unfolded len fine(2), OF assms(6) small assms(8)] fine(3) i(2) len by fastforce
    let ?done = "\<lambda>g. mInflatedSize (fillWindow g) = I \<and> \<not> gotException g \<and> \<not> windowFull g \<and> 0 \<le> addedRows g"
    have ok: "fill_fine I g'" if "finish_copy CPR_OK g = Some g'" "?done g" for g g'
      using that by (auto simp: finish_copy_def fill_fine_def int_result_def split: bind_splits if_splits)
    have full: "fill_fine I g'" if "finish_copy CPR_FULL g = Some g'" "?done g" "addedRows g \<noteq> 0" for g g'
      using that by (auto simp: finish_copy_def fill_fine_def)
    show ?thesis
    proof (cases "cpr = CPR_FULL \<and> a \<noteq> 0 \<and> int (s + a) \<le> req")
      case True
      obtain w' where c': "copyRow H e' row 0 (restart_window n w) = Some (CPR_OK, w')" "mInflatedSize w' = I"
        using copyRow_good [OF assms(1-3) shows_restart [OF c(4) assms(2,3)], of row e'] restart_fresh [OF c(4), of n] assms(6,9) c(5)
        by auto
      then have "finish_copy CPR_OK (?f\<lparr> startPos := int (s + a), addedRows := 0, fillWindow := w' \<rparr>) = Some f'"
        using assms(7,10) t False c(1) i(1-3,5) True by (auto simp: fill_row_def Let_def int_result_def)
      then show ?thesis by (rule ok) (use c'(2) fine(1) False in auto)
    next
      case no: False
      have f': "finish_copy cpr (?f\<lparr> fillWindow := w \<rparr>) = Some f'"
        using assms(7,10) t False c(1) i(1-3,5) no by (auto simp: fill_row_def Let_def int_result_def split: if_splits)
      show ?thesis
      proof (cases cpr)
        case CPR_OK
        show ?thesis by (rule ok [OF f' [unfolded CPR_OK]]) (use c(5) fine(1) False i(2) in auto)
      next
        case CPR_FULL
        show ?thesis by (rule full [OF f' [unfolded CPR_FULL]]) (use c(3,5) fine(1) False i(2) CPR_FULL in auto)
      qed (use c(2) in simp)
    qed
  qed
qed

definition plain :: "nat \<Rightarrow> int \<Rightarrow> answer \<Rightarrow> bool" where
  "plain I n a \<longleftrightarrow> (case a of (st, e, e') \<Rightarrow> (st = STEP_DONE \<or> (\<exists>row. st = STEP_ROW row \<and> good_row I n row))
     \<and> (\<forall>k. e_malloc (e k) I \<and> e_malloc (e' k) I))"

lemma fill_loop_fine:
  assumes "header_ok H" "0 \<le> n" "n < 2 ^ 16" "fill_inv H n S req rs f" "fill_fine I f" "length rs + length answers < 2 ^ 31"
    "list_all (plain I n) answers" "fill_loop H n req countAll answers f = Some f'"
  shows "fill_fine I f'"
  using assms(4-8)
proof (induction answers arbitrary: rs f)
  case Nil
  then show ?case by (auto simp: fill_loop.simps [of _ _ _ _ "[]"] split: if_splits)
next
  case (Cons x answers)
  note unf = fill_loop.simps [of H n req countAll "x # answers" f]
  show ?case
  proof (cases "gotException f \<or> windowFull f \<and> \<not> countAll")
    case True
    then show ?thesis using Cons.prems(2,5) unfolding unf by auto
  next
    case False
    obtain st e e' where x: "x = (st, e, e')" by (cases x)
    have p: "st = STEP_DONE \<or> (\<exists>row. st = STEP_ROW row \<and> good_row I n row)" "\<And>k. e_malloc (e k) I" "\<And>k. e_malloc (e' k) I"
      using Cons.prems(4) x by (auto simp: plain_def)
    show ?thesis
    proof (cases st)
      case (STEP_ROW row)
      have row: "good_row I n row" "length row = nat n" "length rs + 1 < 2 ^ 31" "\<not> gotException f"
        using p(1) STEP_ROW Cons.prems(3) False by (auto simp: good_row_def)
      obtain g where g: "fill_row H n req row e e' f = Some g" "fill_inv H n S req (rs @ [row]) g"
        using fill_row_inv [OF assms(1-3) Cons.prems(1) row(4,2,3), of e e'] by blast
      have "fill_fine I g" by (rule fill_row_fine [OF assms(1-3) Cons.prems(1,2) row(1,3) p(2,3) g(1)])
      moreover have "fill_loop H n req countAll answers g = Some f'"
        using Cons.prems(5) False g(1) unfolding unf unfolding x STEP_ROW by (auto split: if_splits)
      ultimately show ?thesis using Cons.IH [OF g(2)] Cons.prems(3,4) by simp
    next
      case STEP_DONE
      then show ?thesis using Cons.prems(2,5) False unfolding unf unfolding x STEP_DONE by (auto split: if_splits)
    qed (use p(1) in auto)
  qed
qed

lemma query_rows_length: "length (query_rows answers) \<le> length answers"
  by (induction answers rule: query_rows.induct) auto

lemma plain_rows: "list_all (plain I n) answers \<Longrightarrow> \<forall>row \<in> set (query_rows answers). length row = nat n"
  by (induction answers rule: query_rows.induct) (auto simp: plain_def good_row_def)

text \<open>The state in which the loop leaves a query without errors.\<close>

lemma plain_query:
  assumes "header_ok H" "usable w" "0 \<le> n" "n < 2 ^ 16" "ends answers" "length answers < 2 ^ 31"
    "list_all (plain (mInflatedSize w) n) answers"
  shows "\<exists>f. nativeExecuteForCursorWindow H n answers (int S) req countAll w = Some (fill_result f)
    \<and> fill_ends H n S req countAll (query_rows answers) f \<and> fill_fine (mInflatedSize w) f"
proof -
  note start = fill_start(1) [OF assms(2-4), of H answers S req countAll] fill_start(2) [OF assms(2-4), of H S req]
  let ?f = "\<lparr> retryCount = 0, totalRows = 0, addedRows = 0, startPos = int S, windowFull = False, gotException = False,
    thrown = [], fillWindow = restart_window n w \<rparr>"
  have fine: "fill_fine (mInflatedSize w) ?f" using restart_fresh [OF assms(2), of n] by (simp add: fill_fine_def)
  obtain f where f: "fill_loop H n req countAll answers ?f = Some f" "fill_ends H n S req countAll (query_rows answers) f"
    using fill_loop_ends [OF assms(1,3,4) start(2) assms(5) _ plain_rows [OF assms(7)], of countAll] assms(6) by auto
  then show ?thesis
    using fill_loop_fine [OF assms(1,3,4) start(2) fine _ assms(7) f(1)] assms(6) start(1) by auto
qed

lemma fine_all_rows:
  assumes "fill_ends H n S req countAll rs f" "fill_fine I f" "addedRows f = 0"
  shows "\<exists>s. fill_at H n S req rs f s 0" "thrown f = []"
proof -
  obtain k s a where at: "fill_at H n S req (take k rs) f s a"
    and k: "\<not> gotException f \<and> (countAll \<or> \<not> windowFull f) \<longrightarrow> length rs \<le> k"
    using assms(1) unfolding fill_ends_def fill_inv_def by blast
  have "length rs \<le> k" using k assms(2,3) by (auto simp: fill_fine_def)
  then have "take k rs = rs" by simp
  moreover have "a = 0" using at assms(3) by (auto simp: fill_at_def)
  ultimately show "\<exists>s. fill_at H n S req rs f s 0" using at by auto
  show "thrown f = []" using at assms(2) by (auto simp: fill_at_def fill_fine_def)
qed

lemma query_covers:
  assumes "header_ok H" "usable w" "0 \<le> n" "n < 2 ^ 16" "ends answers" "length answers < 2 ^ 31"
    "list_all (plain (mInflatedSize w) n) answers" "int S \<le> req" "req < int (length (query_rows answers))"
  shows "\<exists>r w' s a. nativeExecuteForCursorWindow H n answers (int S) req countAll w = Some ([], r, w')
    \<and> unat (drop_bit 32 r) = s \<and> S \<le> s \<and> int s \<le> req \<and> req < int (s + a) \<and> s + a \<le> length (query_rows answers)
    \<and> shows_rows H w' n (take a (drop s (query_rows answers)))
    \<and> (countAll \<longrightarrow> unat (take_bit 32 r) = length (query_rows answers))"
proof -
  obtain f where f: "nativeExecuteForCursorWindow H n answers (int S) req countAll w = Some (fill_result f)"
    "fill_ends H n S req countAll (query_rows answers) f" "fill_fine (mInflatedSize w) f"
    using plain_query [OF assms(1-7)] by blast
  have small: "length (query_rows answers) < 2 ^ 31" "S < 2 ^ 31" using query_rows_length [of answers] assms(6,8,9) by auto
  have "addedRows f \<noteq> 0"
  proof
    assume z: "addedRows f = 0"
    obtain s where "fill_at H n S req (query_rows answers) f s 0" using fine_all_rows(1) [OF f(2,3) z] by blast
    then have "length (query_rows answers) \<le> s" "s = S \<or> int s \<le> req" using f(3) z by (auto simp: fill_at_def fill_fine_def)
    then show False using assms(8,9) by linarith
  qed
  moreover have "thrown f = []" using f(2,3) by (auto simp: fill_ends_def fill_inv_def fill_at_def fill_fine_def)
  ultimately obtain r w' where r: "fill_result f = ([], r, w')" by (simp add: fill_result_def)
  obtain s a where "unat (drop_bit 32 r) = s" "S \<le> s" "a = 0 \<or> s + a \<le> length (query_rows answers)"
    "shows_rows H w' n (take a (drop s (query_rows answers)))" "countAll \<longrightarrow> unat (take_bit 32 r) = length (query_rows answers)"
    "int s \<le> req \<and> req < int (s + a)"
    using fill_result_shows [OF f(2) r small(2,1)] assms(8,9) by blast
  then show ?thesis using f(1) r by (intro exI [of _ r] exI [of _ w'] exI [of _ s] exI [of _ a]) auto
qed

text \<open>A start position at or after the end of a non-empty result is reported as a row that is too big.\<close>

text \<open>
  Fact (start_past_end_too_big): when the start position lies at or after the end of a non-empty
  result, the call throws the exception for a row that does not fit into the window, although
  every row fits.
\<close>

theorem start_past_end_too_big:
  assumes "header_ok H" "usable w" "0 \<le> n" "n < 2 ^ 16" "ends answers" "length answers < 2 ^ 31"
    "list_all (plain (mInflatedSize w) n) answers" "query_rows answers \<noteq> []" "length (query_rows answers) \<le> S"
  shows "\<exists>w'. nativeExecuteForCursorWindow H n answers (int S) req countAll w = Some ([RowTooBig], 0, w')"
proof -
  obtain f where f: "nativeExecuteForCursorWindow H n answers (int S) req countAll w = Some (fill_result f)"
    "fill_ends H n S req countAll (query_rows answers) f" "fill_fine (mInflatedSize w) f"
    using plain_query [OF assms(1-7)] by blast
  have z: "addedRows f = 0" using f(2) assms(9) by (auto simp: fill_ends_def fill_inv_def fill_at_def)
  have "totalRows f > 0" using fine_all_rows(1) [OF f(2,3) z] assms(8) by (auto simp: fill_at_def)
  then show ?thesis using f(1) fine_all_rows(2) [OF f(2,3) z] z by (simp add: fill_result_def)
qed

text \<open>Three one-column rows of twenty bytes and a window of 48: it is refilled from the third row on.\<close>

definition demo_answers :: "answer list" where
  "demo_answers = [(STEP_ROW [SqlText [65]], \<lambda>_. kind_env, \<lambda>_. kind_env), (STEP_ROW [SqlText [66]], \<lambda>_. kind_env, \<lambda>_. kind_env),
     (STEP_ROW [SqlText [67]], \<lambda>_. kind_env, \<lambda>_. kind_env), (STEP_DONE, \<lambda>_. kind_env, \<lambda>_. kind_env)]"

definition demo_empty :: CursorWindow where
  "demo_empty = the (snd (create kind_env ''w'' 48))"

lemma demo_query:
  "usable demo_empty" "mInflatedSize demo_empty = 48" "ends demo_answers" "list_all (plain 48 1) demo_answers"
  "query_rows demo_answers = [[SqlText [65]], [SqlText [66]], [SqlText [67]]]"
proof -
  have "create kind_env ''w'' 48 = (OK, Some demo_empty)" "mInflatedSize demo_empty = 48" "\<not> mReadOnly demo_empty"
    by (simp_all add: demo_empty_def create_def kind_env_def Let_def clear_def updateSlotsData_def)
  then show "usable demo_empty" "mInflatedSize demo_empty = 48" using create_ok [of kind_env "''w''" 48 demo_empty] by (simp_all add: usable_def)
  show "ends demo_answers" "query_rows demo_answers = [[SqlText [65]], [SqlText [66]], [SqlText [67]]]"
    by (simp_all add: demo_answers_def ends_def)
  show "list_all (plain 48 1) demo_answers" by (simp add: demo_answers_def plain_def good_row_def row_bytes_def kind_env_def)
qed

theorem query_fills_window_witness:
  "\<exists>ex r w'. nativeExecuteForCursorWindow packed_header 1 demo_answers 0 2 True demo_empty = Some (ex, r, w')
    \<and> (ex = [] \<longrightarrow> unat (take_bit 32 r) = 3)"
  using query_fills_window [OF packed_header_ok demo_query(1), of 1 demo_answers 0 2 True] demo_query(3-5)
  by (force simp: demo_answers_def)

end
