(* ===== verification/CursorNatives.thy ===== *)
theory CursorNatives
  imports SqliteCursor
begin

text \<open>
  The Java view of a cursor window: \<open>framework/sqlite/android_database_CursorWindow.cpp\<close>. The accessors of a
  slot are inline functions of \<open>androidfw/CursorWindow.h\<close>, which is not in the repository; they are the
  parameter \<open>cw_reader\<close>, with their documented meaning as the hypothesis \<open>reader_ok\<close>. The conversions of
  floating-point numbers and of UTF-8 (the string classes of the platform) are the parameter
  \<open>value_env\<close>. The accessors of buffers return the bytes, unless the pointer is null, and the size. The outer
  \<open>None\<close> is a read through a null pointer or past the bytes of the value.
\<close>

section \<open>Parameters and results\<close>

record cw_reader =
  getFieldSlotType :: "CursorWindow \<Rightarrow> nat \<Rightarrow> u32"
  getFieldSlotValueLong :: "CursorWindow \<Rightarrow> nat \<Rightarrow> u64"
  getFieldSlotValueDouble :: "CursorWindow \<Rightarrow> nat \<Rightarrow> u64"
  getFieldSlotValueBlob :: "CursorWindow \<Rightarrow> nat \<Rightarrow> bytes option \<times> nat"
  getFieldSlotValueString :: "CursorWindow \<Rightarrow> nat \<Rightarrow> bytes option \<times> nat"

record value_env =
  v_utf16 :: "bytes \<Rightarrow> u16 list option"
  v_string16 :: "bytes \<Rightarrow> u16 list"
  v_print_double :: "u64 \<Rightarrow> bytes"
  v_double_long :: "u64 \<Rightarrow> u64"
  v_long_double :: "u64 \<Rightarrow> u64"
  v_strtod :: "bytes \<Rightarrow> u64"
  v_new_bytes :: "nat \<Rightarrow> bool"
  v_new_chars :: "nat \<Rightarrow> bool"

datatype native_exception = RowColException u32 u32 | UnknownTypeException u32 | SqliteException string

datatype 'a native = Ret 'a | Throw native_exception

section \<open>Numbers as text\<close>

text \<open>\<open>snprintf\<close> with \<open>PRId64\<close>.\<close>

fun print_nat :: "nat \<Rightarrow> bytes" where
  "print_nat n = (if n < 10 then [] else print_nat (n div 10)) @ [word_of_nat (48 + n mod 10)]"

declare print_nat.simps [simp del]

definition print_long :: "u64 \<Rightarrow> bytes" where
  "print_long v = (if sint v < 0 then [45] else []) @ print_nat (nat \<bar>sint v\<bar>)"

text \<open>\<open>strtoll\<close> with base 0: white space, sign, prefix \<open>0x\<close> or \<open>0\<close>, digits; the value is clamped to 64 bits.\<close>

definition c_space :: "byte \<Rightarrow> bool" where
  "c_space b \<longleftrightarrow> b = 32 \<or> (9 \<le> b \<and> b \<le> 13)"

definition digit_value :: "byte \<Rightarrow> nat" where
  "digit_value b = (if 48 \<le> b \<and> b \<le> 57 then unat b - 48
     else if 97 \<le> b \<and> b \<le> 122 then unat b - 87 else if 65 \<le> b \<and> b \<le> 90 then unat b - 55 else 36)"

definition base_value :: "nat \<Rightarrow> bytes \<Rightarrow> nat" where
  "base_value base ds = foldl (\<lambda>n d. n * base + digit_value d) 0 ds"

definition number_base :: "bytes \<Rightarrow> nat \<times> bytes" where
  "number_base s = (case s of
       b # x # d # t \<Rightarrow> if b = 48 \<and> (x = 120 \<or> x = 88) \<and> digit_value d < 16 then (16, d # t) else (if b = 48 then 8 else 10, s)
     | b # _ \<Rightarrow> (if b = 48 then 8 else 10, s)
     | [] \<Rightarrow> (10, s))"

definition clamp64 :: "int \<Rightarrow> u64" where
  "clamp64 x = word_of_int (max (- (2 ^ 63)) (min (2 ^ 63 - 1) x))"

definition strtoll :: "bytes \<Rightarrow> u64" where
  "strtoll s = (let s = dropWhile c_space s;
       (neg, s) = (case s of b # t \<Rightarrow> if b = 45 then (True, t) else if b = 43 then (False, t) else (False, s) | [] \<Rightarrow> (False, s));
       (base, s) = number_base s;
       v = int (base_value base (takeWhile (\<lambda>d. digit_value d < base) s))
     in clamp64 (if neg then - v else v))"

text \<open>The characters up to the terminating zero; without one the functions of the C library read on.\<close>

definition c_chars :: "bytes \<Rightarrow> bytes option" where
  "c_chars s = (if 0 \<in> set s then Some (takeWhile (\<lambda>b. b \<noteq> 0) s) else None)"

definition ascii16 :: "bytes \<Rightarrow> u16 list" where
  "ascii16 s = map ucast s"

section \<open>Accessors\<close>

definition nativeGetNumRows :: "CursorWindow \<Rightarrow> u32" where
  "nativeGetNumRows w = mNumRows w"

definition nativeClear :: "CursorWindow \<Rightarrow> CursorWindow" where
  "nativeClear w = snd (clear w)"

definition nativeSetNumColumns :: "u32 \<Rightarrow> CursorWindow \<Rightarrow> bool \<times> CursorWindow" where
  "nativeSetNumColumns n w = (let (st, w) = setNumColumns n w in (st = OK, w))"

definition nativeAllocRow :: "cw_header \<Rightarrow> cw_env \<Rightarrow> CursorWindow \<Rightarrow> (bool \<times> CursorWindow) option" where
  "nativeAllocRow H e w = do { (st, w) \<leftarrow> allocRow H e w; Some (st = OK, w) }"

definition nativeFreeLastRow :: "CursorWindow \<Rightarrow> CursorWindow" where
  "nativeFreeLastRow w = snd (freeLastRow w)"

definition nativeGetType :: "cw_header \<Rightarrow> cw_reader \<Rightarrow> CursorWindow \<Rightarrow> u32 \<Rightarrow> u32 \<Rightarrow> u32" where
  "nativeGetType H R w row column = (case getFieldSlot w row column of
       None \<Rightarrow> typeCode H FIELD_TYPE_NULL
     | Some p \<Rightarrow> getFieldSlotType R w p)"

definition nativeGetBlob ::
  "cw_header \<Rightarrow> cw_reader \<Rightarrow> value_env \<Rightarrow> CursorWindow \<Rightarrow> u32 \<Rightarrow> u32 \<Rightarrow> bytes option native" where
  "nativeGetBlob H R V w row column = (case getFieldSlot w row column of
       None \<Rightarrow> Throw (RowColException row column)
     | Some p \<Rightarrow>
         (let t = getFieldSlotType R w p in
          if t = typeCode H FIELD_TYPE_BLOB \<or> t = typeCode H FIELD_TYPE_STRING
          then (case getFieldSlotValueBlob R w p of
              (None, size') \<Rightarrow> Throw (SqliteException ''Native could not read blob slot'')
            | (Some b, size') \<Rightarrow> if \<not> v_new_bytes V size' then Throw (SqliteException ''Native could not create new byte[]'')
                else Ret (Some b))
          else if t = typeCode H FIELD_TYPE_INTEGER then Throw (SqliteException ''INTEGER data in nativeGetBlob '')
          else if t = typeCode H FIELD_TYPE_FLOAT then Throw (SqliteException ''FLOAT data in nativeGetBlob '')
          else if t = typeCode H FIELD_TYPE_NULL then Ret None
          else Throw (UnknownTypeException t)))"

definition nativeGetString ::
  "cw_header \<Rightarrow> cw_reader \<Rightarrow> value_env \<Rightarrow> CursorWindow \<Rightarrow> u32 \<Rightarrow> u32 \<Rightarrow> u16 list option native" where
  "nativeGetString H R V w row column = (case getFieldSlot w row column of
       None \<Rightarrow> Throw (RowColException row column)
     | Some p \<Rightarrow>
         (let t = getFieldSlotType R w p in
          if t = typeCode H FIELD_TYPE_STRING
          then (case getFieldSlotValueString R w p of
              (None, size') \<Rightarrow> Throw (SqliteException ''Native could not read string slot'')
            | (Some s, size') \<Rightarrow> if size' \<le> 1 then Ret (Some []) else Ret (Some (v_string16 V (take (size' - 1) s))))
          else if t = typeCode H FIELD_TYPE_INTEGER then Ret (Some (ascii16 (print_long (getFieldSlotValueLong R w p))))
          else if t = typeCode H FIELD_TYPE_FLOAT
          then Ret (Some (ascii16 (take 31 (v_print_double V (getFieldSlotValueDouble R w p)))))
          else if t = typeCode H FIELD_TYPE_NULL then Ret None
          else if t = typeCode H FIELD_TYPE_BLOB then Throw (SqliteException ''Unable to convert BLOB to string'')
          else Throw (UnknownTypeException t)))"

definition nativeGetLong ::
  "cw_header \<Rightarrow> cw_reader \<Rightarrow> value_env \<Rightarrow> CursorWindow \<Rightarrow> u32 \<Rightarrow> u32 \<Rightarrow> u64 native option" where
  "nativeGetLong H R V w row column = (case getFieldSlot w row column of
       None \<Rightarrow> Some (Throw (RowColException row column))
     | Some p \<Rightarrow>
         (let t = getFieldSlotType R w p in
          if t = typeCode H FIELD_TYPE_INTEGER then Some (Ret (getFieldSlotValueLong R w p))
          else if t = typeCode H FIELD_TYPE_STRING
          then (case getFieldSlotValueString R w p of (str, size') \<Rightarrow>
            if size' > 1 then do { s \<leftarrow> str; cs \<leftarrow> c_chars s; Some (Ret (strtoll cs)) } else Some (Ret 0))
          else if t = typeCode H FIELD_TYPE_FLOAT then Some (Ret (v_double_long V (getFieldSlotValueDouble R w p)))
          else if t = typeCode H FIELD_TYPE_NULL then Some (Ret 0)
          else if t = typeCode H FIELD_TYPE_BLOB then Some (Throw (SqliteException ''Unable to convert BLOB to long''))
          else Some (Throw (UnknownTypeException t))))"

definition nativeGetDouble ::
  "cw_header \<Rightarrow> cw_reader \<Rightarrow> value_env \<Rightarrow> CursorWindow \<Rightarrow> u32 \<Rightarrow> u32 \<Rightarrow> u64 native option" where
  "nativeGetDouble H R V w row column = (case getFieldSlot w row column of
       None \<Rightarrow> Some (Throw (RowColException row column))
     | Some p \<Rightarrow>
         (let t = getFieldSlotType R w p in
          if t = typeCode H FIELD_TYPE_FLOAT then Some (Ret (getFieldSlotValueDouble R w p))
          else if t = typeCode H FIELD_TYPE_STRING
          then (case getFieldSlotValueString R w p of (str, size') \<Rightarrow>
            if size' > 1 then do { s \<leftarrow> str; cs \<leftarrow> c_chars s; Some (Ret (v_strtod V cs)) } else Some (Ret 0))
          else if t = typeCode H FIELD_TYPE_INTEGER then Some (Ret (v_long_double V (getFieldSlotValueLong R w p)))
          else if t = typeCode H FIELD_TYPE_NULL then Some (Ret 0)
          else if t = typeCode H FIELD_TYPE_BLOB then Some (Throw (SqliteException ''Unable to convert BLOB to double''))
          else Some (Throw (UnknownTypeException t))))"

section \<open>Copying text into a Java buffer\<close>

record CharArrayBuffer =
  buf_data :: "u16 list option"
  sizeCopied :: nat

text \<open>The array to copy into, or nothing when it cannot be allocated; a new array replaces the old one.\<close>

definition allocCharArrayBuffer :: "value_env \<Rightarrow> nat \<Rightarrow> CharArrayBuffer \<Rightarrow> u16 list option \<times> CharArrayBuffer" where
  "allocCharArrayBuffer V size' b =
     (let dataObj = (case buf_data b of Some d \<Rightarrow> if size' \<noteq> 0 \<and> length d < size' then None else Some d | None \<Rightarrow> None)
      in case dataObj of Some d \<Rightarrow> (Some d, b)
       | None \<Rightarrow> (let capacity = max size' 64 in
           if v_new_chars V capacity then (Some (replicate capacity 0), b\<lparr> buf_data := Some (replicate capacity 0) \<rparr>) else (None, b)))"

definition fillCharArrayBufferUTF :: "value_env \<Rightarrow> bytes \<Rightarrow> CharArrayBuffer \<Rightarrow> CharArrayBuffer" where
  "fillCharArrayBufferUTF V str b =
     (let chars = (case v_utf16 V str of Some u \<Rightarrow> u | None \<Rightarrow> []);
          (dataObj, b) = allocCharArrayBuffer V (length chars) b
      in case dataObj of None \<Rightarrow> b
       | Some d \<Rightarrow> b\<lparr> buf_data := Some (chars @ drop (length chars) d), sizeCopied := length chars \<rparr>)"

definition clearCharArrayBuffer :: "value_env \<Rightarrow> CharArrayBuffer \<Rightarrow> CharArrayBuffer" where
  "clearCharArrayBuffer V b = (let (dataObj, b) = allocCharArrayBuffer V 0 b
     in case dataObj of None \<Rightarrow> b | Some d \<Rightarrow> b\<lparr> sizeCopied := 0 \<rparr>)"

definition nativeCopyStringToBuffer ::
  "cw_header \<Rightarrow> cw_reader \<Rightarrow> value_env \<Rightarrow> CursorWindow \<Rightarrow> u32 \<Rightarrow> u32 \<Rightarrow> CharArrayBuffer \<Rightarrow> CharArrayBuffer native option" where
  "nativeCopyStringToBuffer H R V w row column buf = (case getFieldSlot w row column of
       None \<Rightarrow> Some (Throw (RowColException row column))
     | Some p \<Rightarrow>
         (let t = getFieldSlotType R w p in
          if t = typeCode H FIELD_TYPE_STRING
          then (case getFieldSlotValueString R w p of (str, size') \<Rightarrow>
            if size' > 1 then do { s \<leftarrow> str; Some (Ret (fillCharArrayBufferUTF V (take (size' - 1) s) buf)) }
            else Some (Ret (clearCharArrayBuffer V buf)))
          else if t = typeCode H FIELD_TYPE_INTEGER
          then Some (Ret (fillCharArrayBufferUTF V (print_long (getFieldSlotValueLong R w p)) buf))
          else if t = typeCode H FIELD_TYPE_FLOAT
          then Some (Ret (fillCharArrayBufferUTF V (take 31 (v_print_double V (getFieldSlotValueDouble R w p))) buf))
          else if t = typeCode H FIELD_TYPE_NULL then Some (Ret (clearCharArrayBuffer V buf))
          else if t = typeCode H FIELD_TYPE_BLOB then Some (Throw (SqliteException ''Unable to convert BLOB to string''))
          else Some (Throw (UnknownTypeException t))))"

section \<open>Storing values\<close>

definition nativePutBlob :: "cw_header \<Rightarrow> cw_env \<Rightarrow> bytes \<Rightarrow> u32 \<Rightarrow> u32 \<Rightarrow> CursorWindow \<Rightarrow> (bool \<times> CursorWindow) option" where
  "nativePutBlob H e val row column w = do { (st, w) \<leftarrow> putBlob H e row column val w; Some (st = OK, w) }"

text \<open>\<open>val\<close> are the UTF-8 characters of the Java string, if they can be had.\<close>

definition nativePutString :: "cw_header \<Rightarrow> cw_env \<Rightarrow> bytes option \<Rightarrow> u32 \<Rightarrow> u32 \<Rightarrow> CursorWindow \<Rightarrow> (bool \<times> CursorWindow) option" where
  "nativePutString H e val row column w = (case val of None \<Rightarrow> Some (False, w)
     | Some s \<Rightarrow> do { (st, w) \<leftarrow> putString H e row column (s @ [0]) w; Some (st = OK, w) })"

definition nativePutLong :: "cw_header \<Rightarrow> u64 \<Rightarrow> u32 \<Rightarrow> u32 \<Rightarrow> CursorWindow \<Rightarrow> (bool \<times> CursorWindow) option" where
  "nativePutLong H v row column w = do { (st, w) \<leftarrow> putLong H row column v w; Some (st = OK, w) }"

definition nativePutDouble :: "cw_header \<Rightarrow> u64 \<Rightarrow> u32 \<Rightarrow> u32 \<Rightarrow> CursorWindow \<Rightarrow> (bool \<times> CursorWindow) option" where
  "nativePutDouble H v row column w = do { (st, w) \<leftarrow> putDouble H row column v w; Some (st = OK, w) }"

definition nativePutNull :: "cw_header \<Rightarrow> u32 \<Rightarrow> u32 \<Rightarrow> CursorWindow \<Rightarrow> (bool \<times> CursorWindow) option" where
  "nativePutNull H row column w = do { (st, w) \<leftarrow> putNull H row column w; Some (st = OK, w) }"

section \<open>Creation\<close>

text \<open>The result is the new window, or the exception with its status; a window that could not be created has none.\<close>

definition nativeCreate :: "cw_env \<Rightarrow> string \<Rightarrow> int \<Rightarrow> status + CursorWindow" where
  "nativeCreate e name cursorWindowSize =
     (if cursorWindowSize < 0 then Inl INVALID_OPERATION
      else case create e name (nat cursorWindowSize) of
        (st, Some w) \<Rightarrow> if st \<noteq> OK then Inl st else Inr w
      | (st, None) \<Rightarrow> Inl st)"

section \<open>Reading what was stored\<close>

definition reader_ok :: "cw_header \<Rightarrow> cw_reader \<Rightarrow> bool" where
  "reader_ok H R \<longleftrightarrow> inj (typeCode H)
     \<and> (\<forall>w p t. rd32 (mData w) (p + typeOffset H) = Some t \<longrightarrow> getFieldSlotType R w p = t)
     \<and> (\<forall>w p v. rd64 (mData w) (p + dataOffset H) = Some v \<longrightarrow> getFieldSlotValueLong R w p = v \<and> getFieldSlotValueDouble R w p = v)
     \<and> (\<forall>w p off n b. rd32 (mData w) (p + dataOffset H) = Some off \<and> rd32 (mData w) (p + dataOffset H + 4) = Some n
          \<and> length (mData w) = unat (mSize w) \<and> slice (mData w) (unat off) (unat n) = Some b
          \<longrightarrow> getFieldSlotValueBlob R w p = (Some b, unat n) \<and> getFieldSlotValueString R w p = (Some b, unat n))"

text \<open>What the Java accessors return for a value of the database.\<close>

fun reads_as :: "cw_header \<Rightarrow> cw_reader \<Rightarrow> value_env \<Rightarrow> CursorWindow \<Rightarrow> u32 \<Rightarrow> u32 \<Rightarrow> sql_value \<Rightarrow> bool" where
  "reads_as H R V w r c SqlNull \<longleftrightarrow> nativeGetType H R w r c = typeCode H FIELD_TYPE_NULL \<and> nativeGetBlob H R V w r c = Ret None
     \<and> nativeGetString H R V w r c = Ret None \<and> nativeGetLong H R V w r c = Some (Ret 0)"
| "reads_as H R V w r c (SqlInteger v) \<longleftrightarrow> nativeGetType H R w r c = typeCode H FIELD_TYPE_INTEGER
     \<and> nativeGetLong H R V w r c = Some (Ret v) \<and> nativeGetString H R V w r c = Ret (Some (ascii16 (print_long v)))"
| "reads_as H R V w r c (SqlFloat v) \<longleftrightarrow> nativeGetType H R w r c = typeCode H FIELD_TYPE_FLOAT
     \<and> nativeGetDouble H R V w r c = Some (Ret v)"
| "reads_as H R V w r c (SqlText t) \<longleftrightarrow> nativeGetType H R w r c = typeCode H FIELD_TYPE_STRING
     \<and> nativeGetString H R V w r c = Ret (Some (if t = [] then [] else v_string16 V t))
     \<and> nativeGetLong H R V w r c = Some (Ret (if t = [] then 0 else strtoll (takeWhile (\<lambda>b. b \<noteq> 0) t)))"
| "reads_as H R V w r c (SqlBlob b) \<longleftrightarrow> nativeGetType H R w r c = typeCode H FIELD_TYPE_BLOB
     \<and> nativeGetBlob H R V w r c
       = (if v_new_bytes V (length b) then Ret (Some b) else Throw (SqliteException ''Native could not create new byte[]''))
     \<and> nativeGetString H R V w r c = Throw (SqliteException ''Unable to convert BLOB to string'')"
| "reads_as H R V w r c SqlOther \<longleftrightarrow> False"

lemma slot_reads:
  assumes "reader_ok H R" "slot_holds H w r c t val"
  shows "getFieldSlotType R w (slot_pos w r c) = typeCode H t"
    "val = put64 v \<Longrightarrow> getFieldSlotValueLong R w (slot_pos w r c) = v \<and> getFieldSlotValueDouble R w (slot_pos w r c) = v"
proof -
  have s: "slice (mData w) (slot_pos w r c + typeOffset H) 4 = Some (put32 (typeCode H t))"
    "slice (mData w) (slot_pos w r c + dataOffset H) 8 = Some val"
    using assms(2) by (simp_all add: slot_holds_def)
  show "getFieldSlotType R w (slot_pos w r c) = typeCode H t" using f32.rd_slice [OF s(1)] assms(1) by (simp add: reader_ok_def)
  show "getFieldSlotValueLong R w (slot_pos w r c) = v \<and> getFieldSlotValueDouble R w (slot_pos w r c) = v" if "val = put64 v"
    using f64.rd_slice [of "mData w" "slot_pos w r c + dataOffset H" v] s(2) that assms(1) by (simp add: reader_ok_def)
qed

lemma buffer_reads:
  assumes "reader_ok H R" "cw_ok w" "buffer_holds H w r c t bs"
  shows "getFieldSlotType R w (slot_pos w r c) = typeCode H t"
    "getFieldSlotValueBlob R w (slot_pos w r c) = (Some bs, length bs)" "getFieldSlotValueString R w (slot_pos w r c) = (Some bs, length bs)"
proof -
  obtain off where b: "slot_holds H w r c t (put32 off @ put32 (word_of_nat (length bs)))"
    "unat off + length bs \<le> unat (mAllocOffset w)" "slice (mData w) (unat off) (length bs) = Some bs"
    using assms(3) by (auto simp: buffer_holds_def)
  show "getFieldSlotType R w (slot_pos w r c) = typeCode H t" by (rule slot_reads(1) [OF assms(1) b(1)])
  have n: "unat (word_of_nat (length bs) :: u32) = length bs"
    using b(2) unat_lt32 [of "mAllocOffset w"] by (intro unat_of_nat32) linarith
  have "slice (mData w) (slot_pos w r c + dataOffset H) (4 + 4) = Some (put32 off @ put32 (word_of_nat (length bs)))"
    using b(1) by (simp add: slot_holds_def)
  then have "slice (mData w) (slot_pos w r c + dataOffset H) 4 = Some (put32 off)"
    "slice (mData w) (slot_pos w r c + dataOffset H + 4) 4 = Some (put32 (word_of_nat (length bs)))"
    using slice_split [of "mData w" "slot_pos w r c + dataOffset H" 4 4 "put32 off"] by simp_all
  then have rd: "rd32 (mData w) (slot_pos w r c + dataOffset H) = Some off"
    "rd32 (mData w) (slot_pos w r c + dataOffset H + 4) = Some (word_of_nat (length bs))"
    by (simp_all add: f32.rd_slice)
  show "getFieldSlotValueBlob R w (slot_pos w r c) = (Some bs, length bs)" "getFieldSlotValueString R w (slot_pos w r c) = (Some bs, length bs)"
    using assms(1) rd b(3) n cw_okD(1) [OF assms(2)] unfolding reader_ok_def by metis+
qed

lemma cell_reads:
  assumes "reader_ok H R" "cw_ok w" "r < mNumRows w" "c < mNumColumns w" "cell_is H w r c v"
  shows "reads_as H R V w r c v"
proof -
  have code: "typeCode H s = typeCode H t \<longleftrightarrow> s = t" for s t using assms(1) by (auto simp: reader_ok_def inj_eq)
  note slot = getFieldSlot_in(1) [OF assms(2-4)]
  note defs = nativeGetType_def nativeGetBlob_def nativeGetString_def nativeGetLong_def nativeGetDouble_def Let_def slot code
  show ?thesis
  proof (cases v)
    case (SqlText t)
    then have "buffer_holds H w r c FIELD_TYPE_STRING (t @ [0])" using assms(5) by simp
    note b = buffer_reads [OF assms(1,2) this]
    have "takeWhile (\<lambda>b. b \<noteq> 0) (t @ [0]) = takeWhile (\<lambda>b. b \<noteq> 0) t" for t :: bytes by (induction t) auto
    then show ?thesis using SqlText b by (simp add: defs c_chars_def)
  next
    case (SqlBlob x)
    then have "buffer_holds H w r c FIELD_TYPE_BLOB x" using assms(5) by simp
    from buffer_reads [OF assms(1,2) this] show ?thesis using SqlBlob by (simp add: defs)
  qed (use assms(5) slot_reads [OF assms(1)] in \<open>auto simp: defs\<close>)
qed

section \<open>Numbers as text and back\<close>

definition dec_digit :: "byte \<Rightarrow> bool" where
  "dec_digit d \<longleftrightarrow> 48 \<le> d \<and> d \<le> 57"

lemma digit_of: "k < 10 \<Longrightarrow> dec_digit (word_of_nat (48 + k)) \<and> digit_value (word_of_nat (48 + k)) = k"
proof -
  assume k: "k < 10"
  then have "unat (word_of_nat (48 + k) :: byte) = 48 + k" by (intro unat_of_nat8) simp
  then show ?thesis using k by (simp add: dec_digit_def digit_value_def word_le_nat_alt del: of_nat_add)
qed

lemma digit_facts:
  assumes "dec_digit d"
  shows "digit_value d < 10" "\<not> c_space d" "d \<noteq> 45" "d \<noteq> 43" "d \<noteq> 0"
proof -
  have "48 \<le> unat d" "unat d \<le> 57" using assms by (simp_all add: dec_digit_def word_le_nat_alt)
  then show "digit_value d < 10" "\<not> c_space d" "d \<noteq> 45" "d \<noteq> 43" "d \<noteq> 0"
    by (auto simp: digit_value_def c_space_def word_le_nat_alt)
qed

lemma print_nat_digits: "list_all dec_digit (print_nat n) \<and> print_nat n \<noteq> [] \<and> base_value 10 (print_nat n) = n
    \<and> (0 < n \<longrightarrow> hd (print_nat n) \<noteq> 48)"
proof (induction n rule: print_nat.induct)
  case (1 n)
  let ?d = "word_of_nat (48 + n mod 10) :: byte"
  have d: "dec_digit ?d" "digit_value ?d = n mod 10" using digit_of [of "n mod 10"] by simp_all
  show ?case
  proof (cases "n < 10")
    case True
    have "unat (word_of_nat (48 + n) :: byte) = 48 + n" using True by (intro unat_of_nat8) simp
    then have "0 < n \<longrightarrow> (word_of_nat (48 + n) :: byte) \<noteq> 48" by (auto simp: word_unat_eq_iff simp del: of_nat_add)
    then show ?thesis using True d by (simp add: print_nat.simps [of n] base_value_def del: of_nat_add)
  next
    case False
    then show ?thesis using 1 d by (simp add: print_nat.simps [of n] base_value_def del: of_nat_add)
  qed
qed

lemma strtoll_print: "strtoll (print_long v) = v"
proof -
  define n where "n = nat \<bar>sint v\<bar>"
  note p = print_nat_digits [of n]
  obtain d ds where ds: "print_nat n = d # ds" using p by (cases "print_nat n") auto
  have digit: "dec_digit d" "list_all dec_digit ds" using p ds by simp_all
  note df = digit_facts [OF digit(1)]
  have nb: "(case number_base (print_nat n) of (b, s) \<Rightarrow> int (base_value b (takeWhile (\<lambda>d. digit_value d < b) s))) = int n"
  proof (cases "n = 0")
    case True
    then show ?thesis by (simp add: print_nat.simps [of 0] number_base_def base_value_def digit_value_def)
  next
    case False
    then have "d \<noteq> 48" using p ds by simp
    then have b: "number_base (print_nat n) = (10, print_nat n)" unfolding ds by (auto simp: number_base_def split: list.splits)
    have "list_all (\<lambda>d. digit_value d < 10) (print_nat n)" using p digit_facts(1) by (auto simp: list_all_iff)
    then have "takeWhile (\<lambda>d. digit_value d < 10) (print_nat n) = print_nat n" unfolding takeWhile_eq_all_conv list_all_iff .
    then show ?thesis using p b by (simp only: case_prod_conv)
  qed
  have range: "- (2 ^ 63) \<le> sint v" "sint v < 2 ^ 63" using sint_ge [of v] sint_lt [of v] by simp_all
  have "max (- (2 ^ 63)) (min (2 ^ 63 - 1) (sint v)) = sint v" using range by linarith
  then have clamp: "clamp64 (sint v) = v" unfolding clamp64_def by simp
  have pl: "print_long v = (if sint v < 0 then [45] else []) @ print_nat n" by (simp only: print_long_def n_def)
  show ?thesis
  proof (cases "sint v < 0")
    case True
    have "strtoll (print_long v) = clamp64 (- int n)"
      using nb True unfolding pl by (simp add: strtoll_def c_space_def case_prod_beta Let_def)
    then show ?thesis using True clamp by (simp add: n_def)
  next
    case False
    have "strtoll (print_long v) = clamp64 (int n)"
      using nb False df unfolding pl ds by (simp add: strtoll_def case_prod_beta Let_def)
    then show ?thesis using False clamp by (simp add: n_def)
  qed
qed

lemma print_no_nul: "0 \<notin> set (print_long v)"
  using print_nat_digits [of "nat \<bar>sint v\<bar>"] digit_facts(5) by (auto simp: print_long_def list_all_iff)

section \<open>From the database to Java\<close>

text \<open>
  C6 (query_read_back): a query without errors, on a window that each single row fits into, fills
  the window with consecutive rows that contain the required one, moving the start if need be; the
  Java accessors then return for every cell of the window the type and value the database had at
  the reported position.
\<close>

theorem query_read_back:
  assumes "header_ok H" "reader_ok H R" "usable w" "0 \<le> n" "n < 2 ^ 16" "ends answers" "length answers < 2 ^ 31"
    "list_all (plain (mInflatedSize w) n) answers" "S \<le> req" "req < length (query_rows answers)"
  shows "\<exists>r w' s. nativeExecuteForCursorWindow H n answers (int S) (int req) countAll w = Some ([], r, w')
    \<and> unat (drop_bit 32 r) = s \<and> S \<le> s \<and> s \<le> req \<and> req - s < unat (nativeGetNumRows w')
    \<and> (\<forall>i < unat (nativeGetNumRows w'). \<forall>j < nat n.
         reads_as H R V w' (word_of_nat i) (word_of_nat j) (query_rows answers ! (s + i) ! j))
    \<and> (countAll \<longrightarrow> unat (take_bit 32 r) = length (query_rows answers))"
proof -
  obtain r w' s a where q: "nativeExecuteForCursorWindow H n answers (int S) (int req) countAll w = Some ([], r, w')"
    "unat (drop_bit 32 r) = s" "S \<le> s" "int s \<le> int req" "int req < int (s + a)" "s + a \<le> length (query_rows answers)"
    "shows_rows H w' n (take a (drop s (query_rows answers)))"
    "countAll \<longrightarrow> unat (take_bit 32 r) = length (query_rows answers)"
    using query_covers [OF assms(1,3-8), of S "int req" countAll] assms(9,10) by auto
  have rows: "unat (mNumRows w') = a" "mNumColumns w' = word_of_int n" "cw_ok w'"
    using q(6,7) by (simp_all add: shows_rows_def usable_def)
  have "reads_as H R V w' (word_of_nat i) (word_of_nat j) (query_rows answers ! (s + i) ! j)" if "i < a" "j < nat n" for i j
  proof (rule cell_reads [OF assms(2) rows(3)])
    show "(word_of_nat i :: u32) < mNumRows w'" using that(1) rows(1) by (intro row_index) simp
    show "(word_of_nat j :: u32) < mNumColumns w'" using column_index [OF that(2) assms(5)] rows(2) by simp
    show "cell_is H w' (word_of_nat i) (word_of_nat j) (query_rows answers ! (s + i) ! j)"
      using q(6,7) that by (simp add: shows_rows_def)
  qed
  then show ?thesis using q rows by (intro exI [of _ r] exI [of _ w'] exI [of _ s]) (auto simp: nativeGetNumRows_def)
qed

text \<open>The accessors of the packed layout.\<close>

definition packed_reader :: cw_reader where
  "packed_reader = \<lparr> getFieldSlotType = (\<lambda>w p. the (rd32 (mData w) p)),
     getFieldSlotValueLong = (\<lambda>w p. the (rd64 (mData w) (p + 4))), getFieldSlotValueDouble = (\<lambda>w p. the (rd64 (mData w) (p + 4))),
     getFieldSlotValueBlob = (\<lambda>w p. (slice (mData w) (unat (the (rd32 (mData w) (p + 4)))) (unat (the (rd32 (mData w) (p + 8)))),
       unat (the (rd32 (mData w) (p + 8))))),
     getFieldSlotValueString = (\<lambda>w p. (slice (mData w) (unat (the (rd32 (mData w) (p + 4)))) (unat (the (rd32 (mData w) (p + 8)))),
       unat (the (rd32 (mData w) (p + 8))))) \<rparr>"

lemma packed_reader_ok: "reader_ok packed_header packed_reader"
proof -
  have "inj (typeCode packed_header)" by (rule injI) (auto simp: packed_header_def split: field_type.splits)
  then show ?thesis by (auto simp: reader_ok_def packed_reader_def packed_header_def add.commute)
qed

definition demo_values :: value_env where
  "demo_values = \<lparr> v_utf16 = (\<lambda>s. Some (ascii16 s)), v_string16 = ascii16, v_print_double = (\<lambda>_. [48]), v_double_long = (\<lambda>x. x),
     v_long_double = (\<lambda>x. x), v_strtod = (\<lambda>_. 0), v_new_bytes = (\<lambda>_. True), v_new_chars = (\<lambda>_. True) \<rparr>"

theorem query_read_back_witness:
  "\<exists>r w' s. nativeExecuteForCursorWindow packed_header 1 demo_answers 0 2 True demo_empty = Some ([], r, w')
    \<and> s \<le> 2 \<and> nativeGetString packed_header packed_reader demo_values w' (word_of_nat (2 - s)) 0 = Ret (Some [67])
    \<and> unat (take_bit 32 r) = 3"
proof -
  have l: "length demo_answers < 2 ^ 31" "length (query_rows demo_answers) = 3" by (simp_all add: demo_answers_def demo_query(5))
  have p: "list_all (plain (mInflatedSize demo_empty) 1) demo_answers" using demo_query(2,4) by simp
  obtain r w' s where q: "nativeExecuteForCursorWindow packed_header 1 demo_answers 0 2 True demo_empty = Some ([], r, w')"
    "s \<le> 2" "2 - s < unat (nativeGetNumRows w')" "unat (take_bit 32 r) = 3"
    "\<forall>i < unat (nativeGetNumRows w'). \<forall>j < nat 1.
         reads_as packed_header packed_reader demo_values w' (word_of_nat i) (word_of_nat j) (query_rows demo_answers ! (s + i) ! j)"
    using query_read_back [OF packed_header_ok packed_reader_ok demo_query(1) _ _ demo_query(3) l(1) p, of 0 2 True demo_values] l(2)
    by (auto simp: l)
  have "reads_as packed_header packed_reader demo_values w' (word_of_nat (2 - s)) 0 (SqlText [67])"
    using q(2,3) q(5) [rule_format, of "2 - s" 0] demo_query(5) by simp
  then show ?thesis using q(1,2,4) by (intro exI [of _ r] exI [of _ w'] exI [of _ s]) (simp add: demo_values_def ascii16_def)
qed

text \<open>
  Fact (long_text_roundtrip): the text that is shown for an integer cell reads as the same integer
  when it is stored as text.
\<close>

theorem long_text_roundtrip:
  assumes "header_ok H" "reader_ok H R" "usable w" "row < mNumRows w" "column < mNumColumns w"
    "nativePutLong H v row column w = Some (True, w1)" "nativePutString H e (Some (print_long v)) row column w1 = Some (True, w2)"
  shows "nativeGetString H R V w1 row column = Ret (Some (ascii16 (print_long v)))
    \<and> nativeGetLong H R V w1 row column = Some (Ret v) \<and> nativeGetLong H R V w2 row column = Some (Ret v)"
proof -
  have "stores H w row column (SqlInteger v) (Some (OK, w1))"
    using put_value_stores [OF assms(1,3-5), of "SqlInteger v"] assms(6) by (auto simp: nativePutLong_def split: bind_splits)
  then have w1: "usable w1" "mNumRows w1 = mNumRows w" "mNumColumns w1 = mNumColumns w" "cell_is H w1 row column (SqlInteger v)"
    by (simp_all add: stores_def keeps_def)
  have rc: "row < mNumRows w1" "column < mNumColumns w1" using assms(4,5) w1 by simp_all
  have "stores H w1 row column (SqlText (print_long v)) (Some (OK, w2))"
    using put_value_stores [OF assms(1) w1(1) rc, of "SqlText (print_long v)" e] assms(7) by (auto simp: nativePutString_def split: bind_splits)
  then have w2: "usable w2" "row < mNumRows w2" "column < mNumColumns w2" "cell_is H w2 row column (SqlText (print_long v))"
    using rc by (simp_all add: stores_def keeps_def)
  have "print_long v \<noteq> []" using print_nat_digits [of "nat \<bar>sint v\<bar>"] by (simp add: print_long_def)
  moreover have "takeWhile (\<lambda>b. b \<noteq> 0) (print_long v) = print_long v" unfolding takeWhile_eq_all_conv using print_no_nul by metis
  ultimately show ?thesis
    using cell_reads [OF assms(2) usableD(1) [OF w1(1)] rc w1(4), of V] cell_reads [OF assms(2) usableD(1) [OF w2(1)] w2(2-4), of V]
    by (simp add: strtoll_print del: takeWhile_eq_all_conv)
qed

section \<open>Text buffers\<close>

lemma buffer_filled:
  assumes "\<And>n. v_new_chars V n" "v_utf16 V str = Some u"
  shows "\<exists>d. buf_data (fillCharArrayBufferUTF V str b) = Some d \<and> take (sizeCopied (fillCharArrayBufferUTF V str b)) d = u
    \<and> sizeCopied (fillCharArrayBufferUTF V str b) = length u"
  using assms by (auto simp: fillCharArrayBufferUTF_def allocCharArrayBuffer_def Let_def split: option.splits)

end
