(* ===== verification/SqliteConnection.thy ===== *)
theory SqliteConnection
  imports CursorNatives
begin

text \<open>
  The rest of the SQLite natives: error codes and exceptions (\<open>framework/sqlite/android_database_SQLiteCommon.cpp\<close>),
  and of \<open>android_database_SQLiteConnection.cpp\<close> the execution of statements without a window, custom
  aggregate functions, and connections with the database handles and statements they own. SQLite and shared memory are
  parameters: the codes that \<open>sqlite3_step\<close> returns come as a list, the outcomes of other calls as arguments.
  \<open>sqlite3_close\<close> refuses to close a database that has unfinalized statements, as documented.
\<close>

section \<open>Error codes and exceptions\<close>

definition sErrorCodesMap :: "(int \<times> string) list" where
  "sErrorCodesMap = [
    (4, ''SQLITE_ABORT''), (23, ''SQLITE_AUTH''), (5, ''SQLITE_BUSY''), (14, ''SQLITE_CANTOPEN''),
    (19, ''SQLITE_CONSTRAINT''), (11, ''SQLITE_CORRUPT''), (101, ''SQLITE_DONE''), (16, ''SQLITE_EMPTY''),
    (1, ''SQLITE_ERROR''), (24, ''SQLITE_FORMAT''), (13, ''SQLITE_FULL''), (2, ''SQLITE_INTERNAL''),
    (9, ''SQLITE_INTERRUPT''), (10, ''SQLITE_IOERR''), (6, ''SQLITE_LOCKED''), (20, ''SQLITE_MISMATCH''),
    (21, ''SQLITE_MISUSE''), (22, ''SQLITE_NOLFS''), (7, ''SQLITE_NOMEM''), (26, ''SQLITE_NOTADB''),
    (12, ''SQLITE_NOTFOUND''), (27, ''SQLITE_NOTICE''), (0, ''SQLITE_OK''), (3, ''SQLITE_PERM''),
    (15, ''SQLITE_PROTOCOL''), (25, ''SQLITE_RANGE''), (8, ''SQLITE_READONLY''), (100, ''SQLITE_ROW''),
    (17, ''SQLITE_SCHEMA''), (18, ''SQLITE_TOOBIG''), (28, ''SQLITE_WARNING''),
    (516, ''SQLITE_ABORT_ROLLBACK''), (261, ''SQLITE_BUSY_RECOVERY''), (517, ''SQLITE_BUSY_SNAPSHOT''),
    (1038, ''SQLITE_CANTOPEN_CONVPATH''), (782, ''SQLITE_CANTOPEN_FULLPATH''),
    (526, ''SQLITE_CANTOPEN_ISDIR''), (270, ''SQLITE_CANTOPEN_NOTEMPDIR''), (275, ''SQLITE_CONSTRAINT_CHECK''),
    (531, ''SQLITE_CONSTRAINT_COMMITHOOK''), (787, ''SQLITE_CONSTRAINT_FOREIGNKEY''),
    (1043, ''SQLITE_CONSTRAINT_FUNCTION''), (1299, ''SQLITE_CONSTRAINT_NOTNULL''),
    (1555, ''SQLITE_CONSTRAINT_PRIMARYKEY''), (2579, ''SQLITE_CONSTRAINT_ROWID''),
    (1811, ''SQLITE_CONSTRAINT_TRIGGER''), (2067, ''SQLITE_CONSTRAINT_UNIQUE''),
    (2323, ''SQLITE_CONSTRAINT_VTAB''), (267, ''SQLITE_CORRUPT_VTAB''), (3338, ''SQLITE_IOERR_ACCESS''),
    (2826, ''SQLITE_IOERR_BLOCKED''), (3594, ''SQLITE_IOERR_CHECKRESERVEDLOCK''),
    (4106, ''SQLITE_IOERR_CLOSE''), (6666, ''SQLITE_IOERR_CONVPATH''), (2570, ''SQLITE_IOERR_DELETE''),
    (5898, ''SQLITE_IOERR_DELETE_NOENT''), (4362, ''SQLITE_IOERR_DIR_CLOSE''),
    (1290, ''SQLITE_IOERR_DIR_FSYNC''), (1802, ''SQLITE_IOERR_FSTAT''), (1034, ''SQLITE_IOERR_FSYNC''),
    (6410, ''SQLITE_IOERR_GETTEMPPATH''), (3850, ''SQLITE_IOERR_LOCK''), (6154, ''SQLITE_IOERR_MMAP''),
    (3082, ''SQLITE_IOERR_NOMEM''), (2314, ''SQLITE_IOERR_RDLOCK''), (266, ''SQLITE_IOERR_READ''),
    (5642, ''SQLITE_IOERR_SEEK''), (5130, ''SQLITE_IOERR_SHMLOCK''), (5386, ''SQLITE_IOERR_SHMMAP''),
    (4618, ''SQLITE_IOERR_SHMOPEN''), (4874, ''SQLITE_IOERR_SHMSIZE''), (522, ''SQLITE_IOERR_SHORT_READ''),
    (1546, ''SQLITE_IOERR_TRUNCATE''), (2058, ''SQLITE_IOERR_UNLOCK''), (778, ''SQLITE_IOERR_WRITE''),
    (262, ''SQLITE_LOCKED_SHAREDCACHE''), (539, ''SQLITE_NOTICE_RECOVER_ROLLBACK''),
    (283, ''SQLITE_NOTICE_RECOVER_WAL''), (256, ''SQLITE_OK_LOAD_PERMANENTLY''),
    (520, ''SQLITE_READONLY_CANTLOCK''), (1032, ''SQLITE_READONLY_DBMOVED''),
    (264, ''SQLITE_READONLY_RECOVERY''), (776, ''SQLITE_READONLY_ROLLBACK''),
    (284, ''SQLITE_WARNING_AUTOINDEX'')]"

fun decimal_string :: "nat \<Rightarrow> string" where
  "decimal_string n = (if n < 10 then '''' else decimal_string (n div 10)) @ [char_of (48 + n mod 10)]"

declare decimal_string.simps [simp del]

definition int_string :: "int \<Rightarrow> string" where
  "int_string x = (if x < 0 then ''-'' else '''') @ decimal_string (nat \<bar>x\<bar>)"

definition sqlite3_error_code_to_msg :: "int \<Rightarrow> string" where
  "sqlite3_error_code_to_msg errcode = (case map_of sErrorCodesMap errcode of
       Some name \<Rightarrow> int_string errcode @ '' '' @ name
     | None \<Rightarrow> int_string errcode)"

text \<open>A thrown Java exception: its class and message.\<close>

type_synonym jthrow = "string \<times> string option"

definition exception_class :: "int \<Rightarrow> string" where
  "exception_class errcode = (let c = errcode AND 0xff in
     if c = 9 then ''android/os/OperationCanceledException''
     else ''android/database/sqlite/'' @ (
       if c = 10 then ''SQLiteDiskIOException'' else if c = 11 \<or> c = 26 then ''SQLiteDatabaseCorruptException''
       else if c = 19 then ''SQLiteConstraintException'' else if c = 4 then ''SQLiteAbortException''
       else if c = 101 then ''SQLiteDoneException'' else if c = 13 then ''SQLiteFullException''
       else if c = 21 then ''SQLiteMisuseException'' else if c = 3 then ''SQLiteAccessPermException''
       else if c = 5 then ''SQLiteDatabaseLockedException'' else if c = 6 then ''SQLiteTableLockedException''
       else if c = 8 then ''SQLiteReadOnlyDatabaseException'' else if c = 14 then ''SQLiteCantOpenDatabaseException''
       else if c = 18 then ''SQLiteBlobTooBigException'' else if c = 25 then ''SQLiteBindOrColumnIndexOutOfRangeException''
       else if c = 7 then ''SQLiteOutOfMemoryException'' else if c = 20 then ''SQLiteDatatypeMismatchException''
       else ''SQLiteException''))"

definition throw_code :: "int \<Rightarrow> string option \<Rightarrow> string option \<Rightarrow> jthrow" where
  "throw_code errcode sqlite3Message message =
     (let sqlite3Message = (if errcode AND 0xff = 101 then None else sqlite3Message)
      in (exception_class errcode, case sqlite3Message of
          Some m \<Rightarrow> Some (m @ '' (code '' @ sqlite3_error_code_to_msg errcode @ '')'' @ (case message of Some t \<Rightarrow> '': '' @ t | None \<Rightarrow> ''''))
        | None \<Rightarrow> message))"

text \<open>A database handle as far as the messages use it: its extended error code and its message.\<close>

record db_error =
  extended_errcode :: int
  errmsg :: string

definition throw_sqlite3_exception :: "db_error option \<Rightarrow> string option \<Rightarrow> jthrow" where
  "throw_sqlite3_exception handle message = (case handle of
       Some h \<Rightarrow> throw_code (extended_errcode h) (Some (errmsg h)) message
     | None \<Rightarrow> throw_code 0 (Some ''unknown error'') message)"

definition throw_sqlite3_exception_errcode :: "int \<Rightarrow> string option \<Rightarrow> jthrow" where
  "throw_sqlite3_exception_errcode errcode message = throw_code errcode (Some ''unknown error'') message"

section \<open>Executing a statement\<close>

definition SQLITE_ROW :: int where "SQLITE_ROW = 100"
definition SQLITE_DONE :: int where "SQLITE_DONE = 101"

text \<open>\<open>sqlite3_step\<close> until it answers something else than a row.\<close>

fun step_rows :: "int list \<Rightarrow> int option" where
  "step_rows [] = None"
| "step_rows (rc # rcs) = (if rc = SQLITE_ROW then step_rows rcs else Some rc)"

definition executeNonQuery :: "db_error \<Rightarrow> bool \<Rightarrow> int list \<Rightarrow> (int \<times> jthrow list) option" where
  "executeNonQuery h isPragmaStmt rcs = do {
     rc \<leftarrow> (if isPragmaStmt then step_rows rcs else case rcs of [] \<Rightarrow> None | rc # _ \<Rightarrow> Some rc);
     Some (rc, if rc = SQLITE_ROW
       then [throw_sqlite3_exception None (Some ''Queries can be performed using SQLiteDatabase query or rawQuery methods only.'')]
       else if rc \<noteq> SQLITE_DONE then [throw_sqlite3_exception (Some h) None] else []) }"

definition nativeExecute :: "db_error \<Rightarrow> bool \<Rightarrow> int list \<Rightarrow> jthrow list option" where
  "nativeExecute h isPragmaStmt rcs = do { (rc, ex) \<leftarrow> executeNonQuery h isPragmaStmt rcs; Some ex }"

definition nativeExecuteForChangedRowCount :: "db_error \<Rightarrow> int \<Rightarrow> int list \<Rightarrow> (int \<times> jthrow list) option" where
  "nativeExecuteForChangedRowCount h changes rcs = do {
     (err, ex) \<leftarrow> executeNonQuery h False rcs;
     Some (if err = SQLITE_DONE then changes else - 1, ex) }"

definition nativeExecuteForLastInsertedRowId :: "db_error \<Rightarrow> int \<Rightarrow> int \<Rightarrow> int list \<Rightarrow> (int \<times> jthrow list) option" where
  "nativeExecuteForLastInsertedRowId h changes rowid rcs = do {
     (err, ex) \<leftarrow> executeNonQuery h False rcs;
     Some (if err = SQLITE_DONE \<and> changes > 0 then rowid else - 1, ex) }"

definition executeOneRowQuery :: "db_error \<Rightarrow> int \<Rightarrow> jthrow list" where
  "executeOneRowQuery h err = (if err \<noteq> SQLITE_ROW then [throw_sqlite3_exception (Some h) None] else [])"

text \<open>\<open>cols\<close> is \<open>sqlite3_column_count\<close>, \<open>v\<close> the value of the first column in the form the native asks for.\<close>

definition nativeExecuteForLong :: "db_error \<Rightarrow> int \<Rightarrow> nat \<Rightarrow> u64 \<Rightarrow> u64 \<times> jthrow list" where
  "nativeExecuteForLong h err cols v = (if err = SQLITE_ROW \<and> cols \<ge> 1 then v else - 1, executeOneRowQuery h err)"

definition nativeExecuteForString :: "db_error \<Rightarrow> int \<Rightarrow> nat \<Rightarrow> u16 list option \<Rightarrow> u16 list option \<times> jthrow list" where
  "nativeExecuteForString h err cols v = (if err = SQLITE_ROW \<and> cols \<ge> 1 then v else None, executeOneRowQuery h err)"

text \<open>Shared memory: the answers of the calls, and the regions that stay open with their contents.\<close>

record ashmem_env =
  a_create :: "int option"
  a_mmap :: bool
  a_protect :: bool

definition createAshmemRegionWithData ::
  "ashmem_env \<Rightarrow> bytes \<Rightarrow> (int \<Rightarrow> bytes option) \<Rightarrow> int \<times> bool \<times> (int \<Rightarrow> bytes option)" where
  "createAshmemRegionWithData e data regions = (case a_create e of
       None \<Rightarrow> (- 1, True, regions)
     | Some fd \<Rightarrow>
         (let regions = regions(fd \<mapsto> replicate (length data) 0);
              error = (length data > 0 \<and> \<not> a_mmap e);
              regions = (if length data > 0 \<and> a_mmap e then regions(fd \<mapsto> data) else regions)
          in if \<not> error \<and> a_protect e then (fd, False, regions) else (- 1, True, regions(fd := None))))"

definition nativeExecuteForBlobFileDescriptor ::
  "db_error \<Rightarrow> ashmem_env \<Rightarrow> int \<Rightarrow> nat \<Rightarrow> bytes option \<Rightarrow> (int \<Rightarrow> bytes option) \<Rightarrow> int \<times> jthrow list \<times> bool \<times> (int \<Rightarrow> bytes option)" where
  "nativeExecuteForBlobFileDescriptor h e err cols blob regions =
     (let ex = executeOneRowQuery h err in
      if err = SQLITE_ROW \<and> cols \<ge> 1
      then (case blob of Some b \<Rightarrow> (let (fd, io, regions) = createAshmemRegionWithData e b regions in (fd, ex, io, regions))
        | None \<Rightarrow> (- 1, ex, False, regions))
      else (- 1, ex, False, regions))"

section \<open>Custom aggregate functions\<close>

text \<open>
  One aggregation: \<open>Some agg\<close> is the aggregate context, \<open>None\<close> when SQLite could not allocate it. The Java operator
  takes both strings (each may be null) and returns a string, null, or throws.
\<close>

datatype java_result = JavaNull | JavaString bytes | JavaThrows

record aggregate =
  agg :: "bytes option"
  agg_errors :: nat
  agg_copies :: int \<comment> \<open>live results of \<open>strdup\<close>\<close>

definition aggregate_step :: "(bytes \<Rightarrow> bytes option \<Rightarrow> java_result) \<Rightarrow> bytes option \<Rightarrow> aggregate \<Rightarrow> aggregate" where
  "aggregate_step op arg a = (case agg a of
       None \<Rightarrow> (case arg of None \<Rightarrow> a | Some s \<Rightarrow> a\<lparr> agg := Some s, agg_copies := agg_copies a + 1 \<rparr>)
     | Some old \<Rightarrow> (case op old arg of
           JavaThrows \<Rightarrow> a\<lparr> agg_errors := agg_errors a + 1 \<rparr>
         | JavaNull \<Rightarrow> a\<lparr> agg := None, agg_copies := agg_copies a - 1 \<rparr>
         | JavaString s \<Rightarrow> a\<lparr> agg := Some s \<rparr>))"

definition aggregate_final :: "aggregate \<Rightarrow> bytes option \<times> aggregate" where
  "aggregate_final a = (case agg a of None \<Rightarrow> (None, a) | Some s \<Rightarrow> (Some s, a\<lparr> agg_copies := agg_copies a - 1 \<rparr>))"

section \<open>Connections\<close>

type_synonym connection_ptr = u64

record SQLiteConnection =
  c_db :: nat
  c_openFlags :: u32
  c_path :: string
  c_label :: string
  c_tableQuery :: "nat option"
  c_canceled :: bool

text \<open>
  The open database handles, the statements that are not finalized with their database (and whether they are
  a connection's own table query), the connection objects, and the databases with a progress handler.
  \<open>abandoned\<close> records the handles that failed calls of \<open>sqlite3_open_v2\<close> left open.
\<close>

record sqlite_world =
  open_dbs :: "nat list"
  open_stmts :: "(nat \<times> nat \<times> bool) list"
  conns :: "connection_ptr \<Rightarrow> SQLiteConnection option"
  progress :: "nat \<Rightarrow> bool"
  abandoned :: "nat list"

definition sqlite_init :: sqlite_world where
  "sqlite_init = \<lparr> open_dbs = [], open_stmts = [], conns = Map.empty, progress = (\<lambda>_. False), abandoned = [] \<rparr>"

definition sqlite3_close :: "nat \<Rightarrow> sqlite_world \<Rightarrow> bool \<times> sqlite_world" where
  "sqlite3_close db w = (if list_ex (\<lambda>(s, d, own). d = db) (open_stmts w) then (False, w)
     else (True, w\<lparr> open_dbs := remove1 db (open_dbs w) \<rparr>))"

definition sqlite3_finalize :: "nat \<Rightarrow> sqlite_world \<Rightarrow> sqlite_world option" where
  "sqlite3_finalize s w = (if s \<in> fst ` set (open_stmts w)
     then Some (w\<lparr> open_stmts := filter (\<lambda>(t, d, own). t \<noteq> s) (open_stmts w) \<rparr>) else None)"

text \<open>The outcomes of the calls of \<open>nativeOpen\<close>, and the address of the new object.\<close>

record open_env =
  o_err :: int
  o_db :: "nat option"
  o_lookaside :: int
  o_readonly :: bool
  o_busy :: int
  o_functions :: int
  o_mem :: connection_ptr

definition sqlite_open_flags :: "u32 \<Rightarrow> u32" where
  "sqlite_open_flags openFlags = (if openFlags AND 0x10000000 \<noteq> 0 then 2 OR 4 else if openFlags AND 1 \<noteq> 0 then 1 else 2)"

definition nativeOpen ::
  "string \<Rightarrow> u32 \<Rightarrow> string \<Rightarrow> int \<Rightarrow> int \<Rightarrow> open_env \<Rightarrow> sqlite_world \<Rightarrow> ((connection_ptr \<times> string list) \<times> sqlite_world) option" where
  "nativeOpen path openFlags label lookasideSz lookasideCnt e w =
     (let sqliteFlags = sqlite_open_flags openFlags;
          w = w\<lparr> open_dbs := (case o_db e of Some db \<Rightarrow> db # open_dbs w | None \<Rightarrow> open_dbs w) \<rparr> in
      if o_err e \<noteq> 0
      then Some ((0, [''Could not open database'']),
        w\<lparr> abandoned := (case o_db e of Some db \<Rightarrow> db # abandoned w | None \<Rightarrow> abandoned w) \<rparr>)
      else do {
        db \<leftarrow> o_db e;
        if lookasideSz \<ge> 0 \<and> lookasideCnt \<ge> 0 \<and> o_lookaside e \<noteq> 0
        then Some ((0, [''Cannot set lookaside'']), snd (sqlite3_close db w))
        else if sqliteFlags AND 2 \<noteq> 0 \<and> o_readonly e
        then Some ((0, [''Could not open the database in read/write mode.'']), snd (sqlite3_close db w))
        else if o_busy e \<noteq> 0 then Some ((0, [''Could not set busy timeout'']), snd (sqlite3_close db w))
        else if o_functions e \<noteq> 0 then Some ((0, [''Could not register Android SQL functions.'']), snd (sqlite3_close db w))
        else Some ((o_mem e, []), w\<lparr> conns := (conns w)(o_mem e \<mapsto> \<lparr> c_db = db, c_openFlags = openFlags, c_path = path,
          c_label = label, c_tableQuery = None, c_canceled = False \<rparr>) \<rparr>) })"

text \<open>The first result tells whether an exception was thrown.\<close>

definition nativeClose :: "connection_ptr \<Rightarrow> sqlite_world \<Rightarrow> (bool \<times> sqlite_world) option" where
  "nativeClose p w = (if p = 0 then Some (False, w)
     else do {
       c \<leftarrow> conns w p;
       w \<leftarrow> (case c_tableQuery c of Some q \<Rightarrow> sqlite3_finalize q w | None \<Rightarrow> Some w);
       (case sqlite3_close (c_db c) w of
          (False, w) \<Rightarrow> Some (True, w)
        | (True, w) \<Rightarrow> Some (False, w\<lparr> conns := (conns w)(p := None) \<rparr>)) })"

definition nativePrepareStatement :: "connection_ptr \<Rightarrow> nat option \<Rightarrow> sqlite_world \<Rightarrow> (nat option \<times> sqlite_world) option" where
  "nativePrepareStatement p prepared w = do {
     c \<leftarrow> conns w p;
     Some (case prepared of None \<Rightarrow> (None, w)
       | Some s \<Rightarrow> (Some s, w\<lparr> open_stmts := (s, c_db c, False) # open_stmts w \<rparr>)) }"

definition nativeFinalizeStatement :: "connection_ptr \<Rightarrow> nat \<Rightarrow> sqlite_world \<Rightarrow> sqlite_world option" where
  "nativeFinalizeStatement p s w = do { c \<leftarrow> conns w p; sqlite3_finalize s w }"

text \<open>\<open>prepared\<close> is the answer of \<open>sqlite3_prepare_v2\<close>, \<open>result\<close> that of \<open>sqlite3_step\<close>.\<close>

definition nativeUpdatesTempOnly :: "connection_ptr \<Rightarrow> nat option \<Rightarrow> int \<Rightarrow> sqlite_world \<Rightarrow> (bool \<times> sqlite_world) option" where
  "nativeUpdatesTempOnly p prepared result w = do {
     c \<leftarrow> conns w p;
     (case (c_tableQuery c, prepared) of
        (None, None) \<Rightarrow> Some (False, w)
      | (None, Some q) \<Rightarrow> Some (result = SQLITE_DONE, w\<lparr> open_stmts := (q, c_db c, True) # open_stmts w,
          conns := (conns w)(p \<mapsto> c\<lparr> c_tableQuery := Some q \<rparr>) \<rparr>)
      | (Some q, _) \<Rightarrow> if q \<in> fst ` set (open_stmts w) then Some (result = SQLITE_DONE, w) else None) }"

definition nativeCancel :: "connection_ptr \<Rightarrow> sqlite_world \<Rightarrow> sqlite_world option" where
  "nativeCancel p w = do { c \<leftarrow> conns w p; Some (w\<lparr> conns := (conns w)(p \<mapsto> c\<lparr> c_canceled := True \<rparr>) \<rparr>) }"

definition nativeResetCancel :: "connection_ptr \<Rightarrow> bool \<Rightarrow> sqlite_world \<Rightarrow> sqlite_world option" where
  "nativeResetCancel p cancelable w = do {
     c \<leftarrow> conns w p;
     Some (w\<lparr> conns := (conns w)(p \<mapsto> c\<lparr> c_canceled := False \<rparr>), progress := (progress w)(c_db c := cancelable) \<rparr>) }"

definition sqliteProgressHandlerCallback :: "connection_ptr \<Rightarrow> sqlite_world \<Rightarrow> bool option" where
  "sqliteProgressHandlerCallback p w = do { c \<leftarrow> conns w p; Some (c_canceled c) }"

section \<open>Histories\<close>

datatype db_call = Open string u32 string int int open_env | Close connection_ptr | Prepare connection_ptr "nat option"
  | Finalize connection_ptr nat | TempOnly connection_ptr "nat option" int | Cancel connection_ptr | ResetCancel connection_ptr bool

fun db_do :: "db_call \<Rightarrow> sqlite_world \<Rightarrow> sqlite_world option" where
  "db_do (Open path fl label sz cnt e) w = map_option snd (nativeOpen path fl label sz cnt e w)"
| "db_do (Close p) w = map_option snd (nativeClose p w)"
| "db_do (Prepare p s) w = map_option snd (nativePrepareStatement p s w)"
| "db_do (Finalize p s) w = nativeFinalizeStatement p s w"
| "db_do (TempOnly p q rc) w = map_option snd (nativeUpdatesTempOnly p q rc w)"
| "db_do (Cancel p) w = nativeCancel p w"
| "db_do (ResetCancel p b) w = nativeResetCancel p b w"

definition fresh_stmt :: "nat option \<Rightarrow> sqlite_world \<Rightarrow> bool" where
  "fresh_stmt s w \<longleftrightarrow> (case s of None \<Rightarrow> True | Some s \<Rightarrow> s \<notin> fst ` set (open_stmts w))"

text \<open>
  New handles and addresses are unused ones; Java uses live connections, finalizes statements it prepared and
  has not finalized, and closes a connection after its statements.
\<close>

fun db_possible :: "sqlite_world \<Rightarrow> db_call \<Rightarrow> bool" where
  "db_possible w (Open path fl label sz cnt e) \<longleftrightarrow> (case o_db e of None \<Rightarrow> o_err e \<noteq> 0 | Some db \<Rightarrow> db \<notin> set (open_dbs w))
     \<and> o_mem e \<noteq> 0 \<and> conns w (o_mem e) = None"
| "db_possible w (Close p) \<longleftrightarrow> p = 0 \<or> (case conns w p of None \<Rightarrow> False
     | Some c \<Rightarrow> \<not> list_ex (\<lambda>(s, d, own). d = c_db c \<and> \<not> own) (open_stmts w))"
| "db_possible w (Prepare p s) \<longleftrightarrow> conns w p \<noteq> None \<and> fresh_stmt s w"
| "db_possible w (Finalize p s) \<longleftrightarrow> conns w p \<noteq> None \<and> list_ex (\<lambda>(t, d, own). t = s \<and> \<not> own) (open_stmts w)"
| "db_possible w (TempOnly p q rc) \<longleftrightarrow> conns w p \<noteq> None \<and> fresh_stmt q w"
| "db_possible w (Cancel p) \<longleftrightarrow> conns w p \<noteq> None"
| "db_possible w (ResetCancel p b) \<longleftrightarrow> conns w p \<noteq> None"

fun db_run :: "db_call list \<Rightarrow> sqlite_world \<Rightarrow> sqlite_world option" where
  "db_run [] w = Some w"
| "db_run (x # xs) w = do { w \<leftarrow> db_do x w; db_run xs w }"

fun db_history :: "db_call list \<Rightarrow> sqlite_world \<Rightarrow> bool" where
  "db_history [] w \<longleftrightarrow> True"
| "db_history (x # xs) w \<longleftrightarrow> db_possible w x \<and> (case db_do x w of None \<Rightarrow> True | Some w' \<Rightarrow> db_history xs w')"

section \<open>Handles and their owners\<close>

definition owns :: "(connection_ptr \<Rightarrow> SQLiteConnection option) \<Rightarrow> connection_ptr \<Rightarrow> nat \<Rightarrow> bool" where
  "owns C p db \<longleftrightarrow> (\<exists>c. C p = Some c \<and> c_db c = db)"

definition queries :: "(connection_ptr \<Rightarrow> SQLiteConnection option) \<Rightarrow> connection_ptr \<Rightarrow> nat \<Rightarrow> nat \<Rightarrow> bool" where
  "queries C p q db \<longleftrightarrow> (\<exists>c. C p = Some c \<and> c_db c = db \<and> c_tableQuery c = Some q)"

definition db_ok :: "nat list \<Rightarrow> (nat \<times> nat \<times> bool) list \<Rightarrow> (connection_ptr \<Rightarrow> SQLiteConnection option) \<Rightarrow> nat list \<Rightarrow> bool" where
  "db_ok D T C A \<longleftrightarrow> distinct D \<and> distinct (map fst T) \<and> C 0 = None
     \<and> (\<forall>db. db \<in> set D \<longleftrightarrow> (\<exists>p. owns C p db) \<or> db \<in> set A) \<and> (\<forall>p db. owns C p db \<longrightarrow> db \<notin> set A)
     \<and> (\<forall>p q db. owns C p db \<longrightarrow> owns C q db \<longrightarrow> p = q)
     \<and> (\<forall>q db. (q, db, True) \<in> set T \<longleftrightarrow> (\<exists>p. queries C p q db))
     \<and> (\<forall>q db own. (q, db, own) \<in> set T \<longrightarrow> db \<in> set D)"

abbreviation handles_ok :: "sqlite_world \<Rightarrow> bool" where
  "handles_ok w \<equiv> db_ok (open_dbs w) (open_stmts w) (conns w) (abandoned w)"

lemma db_okD:
  assumes "db_ok D T C A"
  shows "distinct D" "distinct (map fst T)" "C 0 = None" "db \<in> set D \<longleftrightarrow> (\<exists>p. owns C p db) \<or> db \<in> set A"
    "owns C p db \<Longrightarrow> db \<notin> set A" "owns C p db \<Longrightarrow> owns C q db \<Longrightarrow> p = q" "(s, db, True) \<in> set T \<longleftrightarrow> (\<exists>p. queries C p s db)"
    "(s, db, own) \<in> set T \<Longrightarrow> db \<in> set D"
  using assms unfolding db_ok_def by blast+

lemma db_okI:
  assumes "distinct D" "distinct (map fst T)" "C 0 = None" "\<And>db. db \<in> set D \<longleftrightarrow> (\<exists>p. owns C p db) \<or> db \<in> set A"
    "\<And>p db. owns C p db \<Longrightarrow> db \<notin> set A" "\<And>p q db. owns C p db \<Longrightarrow> owns C q db \<Longrightarrow> p = q"
    "\<And>s db. (s, db, True) \<in> set T \<longleftrightarrow> (\<exists>p. queries C p s db)" "\<And>s db own. (s, db, own) \<in> set T \<Longrightarrow> db \<in> set D"
  shows "db_ok D T C A"
  using assms unfolding db_ok_def by blast

lemma same_key: "distinct (map fst T) \<Longrightarrow> (s, a) \<in> set T \<Longrightarrow> (s, b) \<in> set T \<Longrightarrow> a = b"
  by (metis Some_eq_map_of_iff option.inject)

lemma owns_upd:
  "C p = None \<Longrightarrow> owns (C(p \<mapsto> c)) q db \<longleftrightarrow> q = p \<and> c_db c = db \<or> owns C q db"
  "owns (C(p := None)) q db \<longleftrightarrow> q \<noteq> p \<and> owns C q db"
  "C p = Some d \<Longrightarrow> c_db c = c_db d \<Longrightarrow> owns (C(p \<mapsto> c)) q db \<longleftrightarrow> owns C q db"
  by (auto simp: owns_def)

lemma queries_upd:
  "C p = None \<Longrightarrow> c_tableQuery c = None \<Longrightarrow> queries (C(p \<mapsto> c)) q s db \<longleftrightarrow> queries C q s db"
  "queries (C(p := None)) q s db \<longleftrightarrow> q \<noteq> p \<and> queries C q s db"
  "C p = Some d \<Longrightarrow> c_db c = c_db d \<Longrightarrow> c_tableQuery c = c_tableQuery d \<Longrightarrow> queries (C(p \<mapsto> c)) q s db \<longleftrightarrow> queries C q s db"
  "C p = Some d \<Longrightarrow> c_db c = c_db d \<Longrightarrow> c_tableQuery d = None \<Longrightarrow> c_tableQuery c = Some t
    \<Longrightarrow> queries (C(p \<mapsto> c)) q s db \<longleftrightarrow> queries C q s db \<or> q = p \<and> s = t \<and> db = c_db d"
  by (auto simp: queries_def)

lemma open_keeps:
  assumes "handles_ok w" "db_possible w (Open path fl label sz cnt e)" "nativeOpen path fl label sz cnt e w = Some (r, w')"
  shows "handles_ok w'"
proof -
  note ok = db_okD [OF assms(1)]
  have mem: "o_mem e \<noteq> 0" "conns w (o_mem e) = None" using assms(2) by auto
  show ?thesis
  proof (cases "o_db e")
    case None
    then show ?thesis using assms(1-3) by (auto simp: nativeOpen_def Let_def)
  next
    case (Some db)
    have new: "db \<notin> set (open_dbs w)" "\<not> owns (conns w) p db" "db \<notin> set (abandoned w)" for p
      using assms(2) Some ok(4) [of db] by auto
    let ?w = "w\<lparr> open_dbs := db # open_dbs w \<rparr>"
    have cl: "snd (sqlite3_close db ?w) = w"
      using ok(8) new(1) by (auto simp: sqlite3_close_def list_ex_iff)
    consider "w' = w" | "w' = ?w\<lparr> abandoned := db # abandoned w \<rparr>"
      | c where "w' = ?w\<lparr> conns := (conns w)(o_mem e \<mapsto> c) \<rparr>" "c_db c = db" "c_tableQuery c = None"
      using assms(3) Some cl by (auto simp: nativeOpen_def Let_def split: if_splits)
    then show ?thesis
    proof cases
      case 1
      then show ?thesis using assms(1) by simp
    next
      case 2
      have "db_ok (db # open_dbs w) (open_stmts w) (conns w) (db # abandoned w)"
      proof (rule db_okI)
        show "x \<in> set (db # open_dbs w) \<longleftrightarrow> (\<exists>p. owns (conns w) p x) \<or> x \<in> set (db # abandoned w)" for x using ok(4) [of x] by auto
        show "x \<notin> set (db # abandoned w)" if "owns (conns w) p x" for p x using that new(2) [of p] ok(5) [OF that] by auto
        show "p = q" if "owns (conns w) p x" "owns (conns w) q x" for p q x using ok(6) [OF that] .
        show "x \<in> set (db # open_dbs w)" if "(s, x, own) \<in> set (open_stmts w)" for s x own using ok(8) [OF that] by simp
      qed (use ok(1-3,7) new in simp_all)
      then show ?thesis using 2 by simp
    next
      case 3
      note u = owns_upd(1) [of "conns w" "o_mem e", OF mem(2), of c] queries_upd(1) [of "conns w" "o_mem e", OF mem(2) 3(3)]
      have "db_ok (db # open_dbs w) (open_stmts w) ((conns w)(o_mem e \<mapsto> c)) (abandoned w)"
      proof (rule db_okI, unfold u 3(2))
        show "x \<in> set (db # open_dbs w) \<longleftrightarrow> (\<exists>p. p = o_mem e \<and> db = x \<or> owns (conns w) p x) \<or> x \<in> set (abandoned w)" for x
          using ok(4) [of x] by auto
        show "x \<notin> set (abandoned w)" if "p = o_mem e \<and> db = x \<or> owns (conns w) p x" for p x using that new(3) ok(5) [of p x] by auto
        show "p = q" if "p = o_mem e \<and> db = x \<or> owns (conns w) p x" "q = o_mem e \<and> db = x \<or> owns (conns w) q x" for p q x
          using that new(2) ok(6) [of p x q] by auto
        show "x \<in> set (db # open_dbs w)" if "(s, x, own) \<in> set (open_stmts w)" for s x own using ok(8) [OF that] by simp
      qed (use ok(1-3,7) new mem(1) in simp_all)
      then show ?thesis using 3 by simp
    qed
  qed
qed

lemma finalize_keeps:
  assumes "handles_ok w" "db_possible w (Finalize p s)"
  shows "\<exists>w'. nativeFinalizeStatement p s w = Some w' \<and> handles_ok w'"
proof -
  note ok = db_okD [OF assms(1)]
  obtain d where d: "(s, d, False) \<in> set (open_stmts w)" using assms(2) by (auto simp: list_ex_iff)
  let ?T = "filter (\<lambda>(t, d, own). t \<noteq> s) (open_stmts w)"
  have "(t, x, True) \<in> set ?T \<longleftrightarrow> (t, x, True) \<in> set (open_stmts w)" for t x
    using same_key [OF ok(2) d] by auto
  moreover have "distinct (map fst ?T)" using ok(2) by (simp add: distinct_map_filter)
  moreover have "x \<in> set (open_dbs w)" if "(t, x, own) \<in> set ?T" for t x own using that ok(8) [of t x own] by auto
  ultimately have "db_ok (open_dbs w) ?T (conns w) (abandoned w)"
    by (intro db_okI) (use ok in \<open>blast | simp\<close>)+
  moreover have "s \<in> fst ` set (open_stmts w)" using d by force
  ultimately show ?thesis using assms(2) by (auto simp: nativeFinalizeStatement_def sqlite3_finalize_def)
qed

lemma close_keeps:
  assumes "handles_ok w" "db_possible w (Close p)"
  shows "\<exists>r. nativeClose p w = Some r \<and> \<not> fst r \<and> handles_ok (snd r) \<and> conns (snd r) = (conns w)(p := None) \<and> abandoned (snd r) = abandoned w"
proof (cases "p = 0")
  case True
  then show ?thesis using assms(1) db_okD(3) [OF assms(1)] by (simp add: nativeClose_def fun_upd_idem)
next
  case False
  note ok = db_okD [OF assms(1)]
  obtain c where c: "conns w p = Some c" "\<And>s. (s, c_db c, False) \<notin> set (open_stmts w)"
    using assms(2) False by (auto simp: list_ex_iff split: option.splits)
  have o: "owns (conns w) p (c_db c)" using c(1) by (simp add: owns_def)
  have own: "c_tableQuery c = Some s" if "(s, c_db c, b) \<in> set (open_stmts w)" for s b
  proof -
    have "(s, c_db c, True) \<in> set (open_stmts w)" using that c(2) by (cases b) auto
    then obtain q where q: "queries (conns w) q s (c_db c)" using ok(7) by blast
    then have "owns (conns w) q (c_db c)" by (auto simp: queries_def owns_def)
    then have "q = p" using ok(6) o by blast
    then show ?thesis using q c(1) by (simp add: queries_def)
  qed
  define T where "T = filter (\<lambda>(t, d, own). Some t \<noteq> c_tableQuery c) (open_stmts w)"
  have live: "(s, c_db c, True) \<in> set (open_stmts w)" if "c_tableQuery c = Some s" for s
    using ok(7) [of s "c_db c"] c(1) that by (auto simp: queries_def)
  have fin: "(case c_tableQuery c of Some q \<Rightarrow> sqlite3_finalize q w | None \<Rightarrow> Some w) = Some (w\<lparr> open_stmts := T \<rparr>)"
    using live by (force simp: sqlite3_finalize_def T_def split: option.splits)
  have none: "d \<noteq> c_db c" if "(t, d, b) \<in> set T" for t d b using that own by (auto simp: T_def)
  then have cl: "sqlite3_close (c_db c) (w\<lparr> open_stmts := T \<rparr>)
      = (True, w\<lparr> open_stmts := T, open_dbs := remove1 (c_db c) (open_dbs w) \<rparr>)"
    by (auto simp: sqlite3_close_def list_ex_iff)
  have keep: "(t, d, True) \<in> set T \<longleftrightarrow> (\<exists>q. q \<noteq> p \<and> queries (conns w) q t d)" for t d
  proof
    assume t: "(t, d, True) \<in> set T"
    then obtain q where "queries (conns w) q t d" using ok(7) [of t d] by (auto simp: T_def)
    moreover have "q \<noteq> p" using calculation none [OF t] c(1) by (auto simp: queries_def)
    ultimately show "\<exists>q. q \<noteq> p \<and> queries (conns w) q t d" by blast
  next
    assume "\<exists>q. q \<noteq> p \<and> queries (conns w) q t d"
    then obtain q where q: "q \<noteq> p" "queries (conns w) q t d" by blast
    then have t: "(t, d, True) \<in> set (open_stmts w)" using ok(7) by blast
    have "owns (conns w) q d" using q(2) by (auto simp: queries_def owns_def)
    then have "d \<noteq> c_db c" using ok(6) o q(1) by blast
    then have "c_tableQuery c \<noteq> Some t" using live [of t] same_key [OF ok(2) t] by auto
    then show "(t, d, True) \<in> set T" using t by (auto simp: T_def)
  qed
  have dbs: "x \<in> set (remove1 (c_db c) (open_dbs w)) \<longleftrightarrow> (\<exists>q. q \<noteq> p \<and> owns (conns w) q x) \<or> x \<in> set (abandoned w)" for x
  proof (cases "x = c_db c")
    case True
    then show ?thesis using ok(1) ok(5) [OF o] ok(6) [OF o] by auto
  next
    case False
    then have "owns (conns w) q x \<Longrightarrow> q \<noteq> p" for q using c(1) by (auto simp: owns_def)
    then show ?thesis using False ok(4) [of x] by auto
  qed
  have "db_ok (remove1 (c_db c) (open_dbs w)) T ((conns w)(p := None)) (abandoned w)"
  proof (rule db_okI, unfold owns_upd(2) queries_upd(2))
    show "distinct (map fst T)" using ok(2) by (simp add: T_def distinct_map_filter)
    show "x \<in> set (remove1 (c_db c) (open_dbs w))" if "(t, x, b) \<in> set T" for t x b
      using none [OF that] ok(8) [of t x b] that by (auto simp: T_def)
    show "a = b" if "a \<noteq> p \<and> owns (conns w) a x" "b \<noteq> p \<and> owns (conns w) b x" for a b x using ok(6) that by blast
    show "x \<notin> set (abandoned w)" if "a \<noteq> p \<and> owns (conns w) a x" for a x using ok(5) that by blast
  qed (use ok(1,3) keep dbs in simp_all)
  then show ?thesis using False c(1) by (simp add: nativeClose_def fin cl)
qed

lemma prepare_keeps:
  assumes "handles_ok w" "db_possible w (Prepare p s)"
  shows "\<exists>r. nativePrepareStatement p s w = Some r \<and> handles_ok (snd r)"
proof -
  note ok = db_okD [OF assms(1)]
  obtain c where c: "conns w p = Some c" using assms(2) by auto
  have d: "c_db c \<in> set (open_dbs w)" using ok(4) [of "c_db c"] c by (auto simp: owns_def)
  have "db_ok (open_dbs w) ((t, c_db c, False) # open_stmts w) (conns w) (abandoned w)" if "s = Some t" for t
  proof (rule db_okI)
    show "distinct (map fst ((t, c_db c, False) # open_stmts w))" using assms(2) that ok(2) by (simp add: fresh_stmt_def)
    show "x \<in> set (open_dbs w)" if "(q, x, own) \<in> set ((t, c_db c, False) # open_stmts w)" for q x own
      using that d ok(8) [of q x own] by auto
    show "a = b" if "owns (conns w) a x" "owns (conns w) b x" for a b x using ok(6) [OF that] .
    show "x \<notin> set (abandoned w)" if "owns (conns w) a x" for a x using ok(5) [OF that] .
  qed (use ok(1,3,4,7) in simp_all)
  then show ?thesis using c assms(1) by (auto simp: nativePrepareStatement_def split: option.splits)
qed

lemma temp_only_keeps:
  assumes "handles_ok w" "db_possible w (TempOnly p s rc)"
  shows "\<exists>r. nativeUpdatesTempOnly p s rc w = Some r \<and> handles_ok (snd r)"
proof -
  note ok = db_okD [OF assms(1)]
  obtain c where c: "conns w p = Some c" using assms(2) by auto
  have o: "owns (conns w) p (c_db c)" using c by (simp add: owns_def)
  have d: "c_db c \<in> set (open_dbs w)" using ok(4) [of "c_db c"] o by blast
  have live: "q \<in> fst ` set (open_stmts w)" if "c_tableQuery c = Some q" for q
  proof -
    have "(q, c_db c, True) \<in> set (open_stmts w)" using ok(7) [of q "c_db c"] c that by (auto simp: queries_def)
    then show ?thesis by force
  qed
  have "db_ok (open_dbs w) ((t, c_db c, True) # open_stmts w) ((conns w)(p \<mapsto> c\<lparr> c_tableQuery := Some t \<rparr>)) (abandoned w)"
    if t: "s = Some t" "c_tableQuery c = None" for t
  proof -
    let ?c = "c\<lparr> c_tableQuery := Some t \<rparr>"
    note u = owns_upd(3) [of "conns w" p c ?c, OF c] queries_upd(4) [of "conns w" p c ?c, OF c]
    show ?thesis
    proof (rule db_okI)
      show "distinct (map fst ((t, c_db c, True) # open_stmts w))" using assms(2) t ok(2) by (simp add: fresh_stmt_def)
      show "((conns w)(p \<mapsto> ?c)) 0 = None" using ok(3) c by auto
      show "x \<in> set (open_dbs w)" if "(q, x, own) \<in> set ((t, c_db c, True) # open_stmts w)" for q x own
        using that d ok(8) [of q x own] by auto
      show "a = b" if "owns ((conns w)(p \<mapsto> ?c)) a x" "owns ((conns w)(p \<mapsto> ?c)) b x" for a b x using ok(6) that by (simp add: u)
      show "x \<notin> set (abandoned w)" if "owns ((conns w)(p \<mapsto> ?c)) a x" for a x using ok(5) that by (simp add: u)
      show "x \<in> set (open_dbs w) \<longleftrightarrow> (\<exists>a. owns ((conns w)(p \<mapsto> ?c)) a x) \<or> x \<in> set (abandoned w)" for x using ok(4) [of x] by (simp add: u)
      show "(q, x, True) \<in> set ((t, c_db c, True) # open_stmts w) \<longleftrightarrow> (\<exists>a. queries ((conns w)(p \<mapsto> ?c)) a q x)" for q x
        using ok(7) [of q x] t(2) by (auto simp: u)
    qed (use ok(1) in simp)
  qed
  then show ?thesis using c assms(1) live by (auto simp: nativeUpdatesTempOnly_def split: option.splits)
qed

lemma cancel_keeps:
  assumes "handles_ok w" "conns w p = Some c"
  shows "db_ok (open_dbs w) (open_stmts w) ((conns w)(p \<mapsto> c\<lparr> c_canceled := b \<rparr>)) (abandoned w)"
proof -
  let ?c = "c\<lparr> c_canceled := b \<rparr>"
  have u: "owns ((conns w)(p \<mapsto> ?c)) = owns (conns w)" "queries ((conns w)(p \<mapsto> ?c)) = queries (conns w)"
    using owns_upd(3) [of "conns w" p c ?c, OF assms(2)] queries_upd(3) [of "conns w" p c ?c, OF assms(2)] by (auto simp: fun_eq_iff)
  have "((conns w)(p \<mapsto> ?c)) 0 = None" using db_okD(3) [OF assms(1)] assms(2) by auto
  then show ?thesis using assms(1) unfolding db_ok_def u by blast
qed

lemma db_do_keeps:
  assumes "handles_ok w" "db_possible w x"
  shows "\<exists>w'. db_do x w = Some w' \<and> handles_ok w'"
proof (cases x)
  case (Open path fl label sz cnt e)
  have "\<exists>r. nativeOpen path fl label sz cnt e w = Some r"
    using assms(2) Open by (auto simp: nativeOpen_def Let_def split: option.splits)
  then show ?thesis using open_keeps [OF assms(1), of path fl label sz cnt e] assms(2) Open by auto
next
  case (Close p)
  then show ?thesis using close_keeps [OF assms(1), of p] assms(2) by auto
next
  case (Prepare p s)
  then show ?thesis using prepare_keeps [OF assms(1), of p s] assms(2) by auto
next
  case (Finalize p s)
  then show ?thesis using finalize_keeps [OF assms(1), of p s] assms(2) by simp
next
  case (TempOnly p q rc)
  then show ?thesis using temp_only_keeps [OF assms(1), of p q rc] assms(2) by auto
next
  case (Cancel p)
  then show ?thesis using cancel_keeps [OF assms(1)] assms(2) by (auto simp: nativeCancel_def)
next
  case (ResetCancel p b)
  then show ?thesis using cancel_keeps [OF assms(1)] assms(2) by (auto simp: nativeResetCancel_def)
qed

lemma db_run_keeps:
  assumes "handles_ok w" "db_history xs w"
  shows "\<exists>w'. db_run xs w = Some w' \<and> handles_ok w'"
  using assms
proof (induction xs arbitrary: w)
  case (Cons x xs)
  then obtain v where "db_do x w = Some v" "handles_ok v" using db_do_keeps [of w x] by auto
  then show ?case using Cons by auto
qed simp


definition good_open :: open_env where
  "good_open = \<lparr> o_err = 0, o_db = Some 7, o_lookaside = 0, o_readonly = False, o_busy = 0, o_functions = 0, o_mem = 0x1000 \<rparr>"


text \<open>
  A connection that still has a statement keeps its finalized table query after a refused close: the next
  close finalizes it again.
\<close>

text \<open>
  Fact (close_retry_double_finalize): when a close is refused because a statement is still alive,
  the connection keeps its finalized table query, and closing it again after the statement is gone
  uses the freed query.
\<close>

theorem close_retry_double_finalize:
  assumes "handles_ok w" "conns w p = Some c" "c_tableQuery c = Some q" "(s, c_db c, False) \<in> set (open_stmts w)"
  shows "\<exists>w1 w2. nativeClose p w = Some (True, w1) \<and> nativeFinalizeStatement p s w1 = Some w2 \<and> nativeClose p w2 = None"
proof -
  note ok = db_okD [OF assms(1)]
  have p: "p \<noteq> 0" using ok(3) assms(2) by auto
  have live: "(q, c_db c, True) \<in> set (open_stmts w)" using ok(7) [of q "c_db c"] assms(2,3) by (auto simp: queries_def)
  have "q \<noteq> s" using same_key [OF ok(2) live] assms(4) by auto
  let ?w1 = "w\<lparr> open_stmts := filter (\<lambda>(t, d, own). t \<noteq> q) (open_stmts w) \<rparr>"
  have "sqlite3_finalize q w = Some ?w1" using live by (force simp: sqlite3_finalize_def)
  moreover have "sqlite3_close (c_db c) ?w1 = (False, ?w1)" using assms(4) \<open>q \<noteq> s\<close> by (auto simp: sqlite3_close_def list_ex_iff)
  ultimately have c1: "nativeClose p w = Some (True, ?w1)" using p assms(2,3) by (simp add: nativeClose_def)
  let ?w2 = "?w1\<lparr> open_stmts := filter (\<lambda>(t, d, own). t \<noteq> s) (open_stmts ?w1) \<rparr>"
  have "s \<in> fst ` set (open_stmts ?w1)" using assms(4) \<open>q \<noteq> s\<close> by force
  then have "nativeFinalizeStatement p s ?w1 = Some ?w2" using assms(2) by (simp add: nativeFinalizeStatement_def sqlite3_finalize_def)
  moreover have "sqlite3_finalize q ?w2 = None" by (auto simp: sqlite3_finalize_def)
  then have "nativeClose p ?w2 = None" using p assms(2,3) by (simp add: nativeClose_def)
  ultimately show ?thesis using c1 by blast
qed

section \<open>Error codes, shared memory, aggregates\<close>

text \<open>Every extended code of the table is named after its primary code.\<close>

definition starts_with :: "string \<Rightarrow> string \<Rightarrow> bool" where
  "starts_with s t \<longleftrightarrow> take (length t) s = t"

text \<open>
  Fact (error_names_consistent): the table of error names has one name per code, and every extended
  code is named after the primary code its low byte selects.
\<close>

theorem error_names_consistent:
  "list_all (\<lambda>(code, name). case map_of sErrorCodesMap (code AND 0xff) of
     Some primary \<Rightarrow> starts_with name primary | None \<Rightarrow> False) sErrorCodesMap \<and> distinct (map fst sErrorCodesMap)"
  by code_simp

lemma ashmem_result:
  "createAshmemRegionWithData e data regions = (fd, io, regions')
   \<Longrightarrow> (\<not> io \<longrightarrow> a_create e = Some fd \<and> regions' = regions(fd \<mapsto> data))
     \<and> (io \<longrightarrow> fd = - 1 \<and> (\<forall>n. regions' n \<noteq> None \<longrightarrow> regions' n = regions n))"
  by (cases "data = []") (auto simp: createAshmemRegionWithData_def Let_def split: option.splits if_splits)

fun reduced :: "(bytes \<Rightarrow> bytes option \<Rightarrow> java_result) \<Rightarrow> bytes option list \<Rightarrow> bytes option \<Rightarrow> bytes option" where
  "reduced op [] acc = acc"
| "reduced op (x # xs) acc = reduced op xs (case acc of None \<Rightarrow> x
     | Some old \<Rightarrow> (case op old x of JavaThrows \<Rightarrow> Some old | JavaNull \<Rightarrow> None | JavaString s \<Rightarrow> Some s))"

lemma aggregate_reduces:
  assumes "agg_copies a = (if agg a = None then 0 else 1)"
  shows "fst (aggregate_final (foldl (\<lambda>a x. aggregate_step op x a) a xs)) = reduced op xs (agg a)
    \<and> agg_copies (snd (aggregate_final (foldl (\<lambda>a x. aggregate_step op x a) a xs))) = 0"
  using assms
proof (induction xs arbitrary: a)
  case Nil
  then show ?case by (auto simp: aggregate_final_def split: option.splits)
next
  case (Cons x xs)
  let ?a = "aggregate_step op x a"
  have "agg_copies ?a = (if agg ?a = None then 0 else 1)"
    "agg ?a = (case agg a of None \<Rightarrow> x | Some old \<Rightarrow> (case op old x of JavaThrows \<Rightarrow> Some old | JavaNull \<Rightarrow> None | JavaString s \<Rightarrow> Some s))"
    using Cons.prems by (auto simp: aggregate_step_def split: option.splits java_result.splits)
  then show ?case using Cons.IH [of ?a] by simp
qed

section \<open>Collations\<close>

text \<open>
  \<open>framework/sqlite/wl_sqlite3_android.cpp\<close>: the comparator behind the collations of Android. \<open>strcoll\<close> depends on
  the locale and is a parameter; \<open>coll_ok\<close> says that it orders strings up to ties.
\<close>

fun bytes_less :: "bytes \<Rightarrow> bytes \<Rightarrow> bool" where
  "bytes_less xs [] \<longleftrightarrow> False"
| "bytes_less [] (y # ys) \<longleftrightarrow> True"
| "bytes_less (x # xs) (y # ys) \<longleftrightarrow> x < y \<or> x = y \<and> bytes_less xs ys"

definition wl_localized_cmp :: "(bytes \<Rightarrow> bytes \<Rightarrow> int) \<Rightarrow> bytes \<Rightarrow> bytes \<Rightarrow> int" where
  "wl_localized_cmp strcoll a b =
     (let r = strcoll (takeWhile (\<lambda>c. c \<noteq> 0) a) (takeWhile (\<lambda>c. c \<noteq> 0) b) in
      if r \<noteq> 0 then (if r < 0 then - 1 else 1) else if a = b then 0 else if bytes_less a b then - 1 else 1)"

text \<open>The collations that are registered, with the answers of SQLite for the two calls.\<close>

definition register_localized_collators :: "bool \<Rightarrow> int \<Rightarrow> int \<Rightarrow> int \<times> string list" where
  "register_localized_collators handle rc rc' = (if \<not> handle then (0, [])
     else if rc \<noteq> 0 then (rc, []) else (0, ''LOCALIZED'' # (if rc' = 0 then [''PHONEBOOK''] else [])))"

definition coll_ok :: "(bytes \<Rightarrow> bytes \<Rightarrow> int) \<Rightarrow> bool" where
  "coll_ok f \<longleftrightarrow> (\<forall>s t. f s t < 0 \<longleftrightarrow> 0 < f t s) \<and> (\<forall>s t u. f s t \<le> 0 \<longrightarrow> f t u \<le> 0 \<longrightarrow> f s u \<le> 0)"

lemma bytes_less_order:
  "\<not> bytes_less a a" "bytes_less a b \<Longrightarrow> \<not> bytes_less b a" "a \<noteq> b \<Longrightarrow> bytes_less a b \<or> bytes_less b a"
proof -
  show "\<not> bytes_less a a" by (induction a) auto
  show "bytes_less a b \<Longrightarrow> \<not> bytes_less b a" by (induction a b rule: bytes_less.induct) auto
  show "a \<noteq> b \<Longrightarrow> bytes_less a b \<or> bytes_less b a" by (induction a b rule: bytes_less.induct) (auto simp: neq_Nil_conv)
qed

lemma bytes_less_trans: "bytes_less a b \<Longrightarrow> bytes_less b c \<Longrightarrow> bytes_less a c"
proof (induction a b arbitrary: c rule: bytes_less.induct)
  case (2 y ys)
  then show ?case by (cases c) auto
next
  case (3 x xs y ys)
  then show ?case by (cases c) auto
qed simp

text \<open>
  Fact (localized_order): when the locale orders strings up to ties, the comparator of the
  collations is a strict total order of byte strings: equal exactly on equal strings,
  antisymmetric and transitive, as SQLite requires of a collation.
\<close>

theorem localized_order:
  assumes "coll_ok strcoll"
  shows "(wl_localized_cmp strcoll a b = 0 \<longleftrightarrow> a = b) \<and> wl_localized_cmp strcoll b a = - wl_localized_cmp strcoll a b
    \<and> (wl_localized_cmp strcoll a b < 0 \<and> wl_localized_cmp strcoll b c < 0 \<longrightarrow> wl_localized_cmp strcoll a c < 0)"
proof -
  define f where "f x y = strcoll (takeWhile (\<lambda>c. c \<noteq> 0) x) (takeWhile (\<lambda>c. c \<noteq> 0) y)" for x y
  have sym: "f x y < 0 \<longleftrightarrow> 0 < f y x" and tr: "f x y \<le> 0 \<Longrightarrow> f y z \<le> 0 \<Longrightarrow> f x z \<le> 0" for x y z
    using assms unfolding coll_ok_def f_def by blast+
  have self: "f x x = 0" for x using sym [of x x] by linarith
  have cmp: "wl_localized_cmp strcoll x y = (if f x y \<noteq> 0 then (if f x y < 0 then - 1 else 1) else if x = y then 0 else if bytes_less x y then - 1 else 1)" for x y
    by (simp add: wl_localized_cmp_def f_def Let_def)
  have neg: "wl_localized_cmp strcoll x y < 0 \<longleftrightarrow> f x y < 0 \<or> f x y = 0 \<and> bytes_less x y" for x y
    using bytes_less_order(1) [of x] by (auto simp: cmp)
  have zero: "wl_localized_cmp strcoll a b = 0 \<longleftrightarrow> a = b" using self by (auto simp: cmp)
  moreover have "wl_localized_cmp strcoll b a = - wl_localized_cmp strcoll a b"
    using sym [of a b] sym [of b a] bytes_less_order(2,3) [of a b] bytes_less_order(2) [of b a] by (auto simp: cmp)
  moreover have "wl_localized_cmp strcoll a c < 0" if "wl_localized_cmp strcoll a b < 0" "wl_localized_cmp strcoll b c < 0"
  proof -
    have le: "f a b \<le> 0" "f b c \<le> 0" "f a c \<le> 0" using that tr [of a b c] by (auto simp: neg)
    show ?thesis
    proof (cases "f a c = 0")
      case True
      then have "f c a \<le> 0" using sym [of a c] by linarith
      then have "f b a \<le> 0" "f c b \<le> 0" using tr [OF le(2), of a] tr [of c a b] le(1) by blast+
      then have "f a b = 0" "f b c = 0" using sym [of a b] sym [of b c] le by auto
      then show ?thesis using that True bytes_less_trans by (auto simp: neg)
    qed (use le in \<open>auto simp: neg\<close>)
  qed
  ultimately show ?thesis by blast
qed

end
