(* ===== verification/SignatureVerifier.thy ===== *)
theory SignatureVerifier
  imports UnzLib
begin

text \<open>
  The APK signature check: \<open>package-manager/jni/apk_signature_verifier.cpp\<close>. The file system, OpenSSL
  and \<open>minizip\<close> are parameters. A run of the code that reads outside a buffer is \<open>OutOfBounds\<close>; the
  walk over the signing block may not end, and not returning is the outer \<open>None\<close>.
\<close>

section \<open>Definitions\<close>

definition APK_SIG_BLOCK_MAGIC_LO :: u64 where "APK_SIG_BLOCK_MAGIC_LO = 0x20676953204b5041"
definition APK_SIG_BLOCK_MAGIC_HI :: u64 where "APK_SIG_BLOCK_MAGIC_HI = 0x3234206b636f6c42"
definition APK_SIGNATURE_SCHEME_V2_BLOCK_ID :: u32 where "APK_SIGNATURE_SCHEME_V2_BLOCK_ID = 0x7109871a"
definition ZIP_EOCD_SIGNATURE :: u32 where "ZIP_EOCD_SIGNATURE = 0x06054b50"
definition ZIP_EOCD_MIN_SIZE :: nat where "ZIP_EOCD_MIN_SIZE = 22"
definition ZIP_EOCD_MAX_COMMENT :: nat where "ZIP_EOCD_MAX_COMMENT = 65535"

datatype SignatureScheme = NONE | V1_JAR | V2_APK | V3_APK

record VerifyResult =
  verified :: bool
  scheme :: SignatureScheme
  certFingerprint :: string
  errorMsg :: string

definition new_VerifyResult :: VerifyResult where
  "new_VerifyResult = \<lparr>verified = False, scheme = NONE, certFingerprint = [], errorMsg = []\<rparr>"

text \<open>
  The outside: the contents of the files that can be opened, SHA-256, and the three OpenSSL calls on a
  PKCS#7 structure \<open>'p\<close> (\<open>pkcs7_certs\<close> is \<open>None\<close> for a structure without signed data or certificate stack).
\<close>

record ('p, 'c) sig_env =
  file_contents :: "string \<Rightarrow> bytes option"
  SHA256 :: "bytes \<Rightarrow> bytes"
  d2i_PKCS7 :: "bytes \<Rightarrow> 'p option"
  PKCS7_verify :: "'p \<Rightarrow> bytes \<Rightarrow> int"
  pkcs7_certs :: "'p \<Rightarrow> 'c list option"
  X509_digest :: "'c \<Rightarrow> bytes"

datatype 'a outcome = Returns 'a | OutOfBounds

definition ReadFile :: "('p, 'c) sig_env \<Rightarrow> string \<Rightarrow> bytes option" where
  "ReadFile S path = file_contents S path"

text \<open>The loop of \<open>FindEOCD\<close> from index \<open>i\<close> down to \<open>searchEnd\<close>: \<open>OutOfBounds\<close> for a read past the end.\<close>

fun eocd_loop :: "bytes \<Rightarrow> nat \<Rightarrow> nat \<Rightarrow> nat option outcome" where
  "eocd_loop apkData searchEnd i =
     (if i < searchEnd then Returns None
      else case rd32 apkData i of
        None \<Rightarrow> OutOfBounds
      | Some sig \<Rightarrow>
          if sig = ZIP_EOCD_SIGNATURE then Returns (Some i)
          else if i = 0 then Returns None
          else eocd_loop apkData searchEnd (i - 1))"

declare eocd_loop.simps [simp del]

definition FindEOCD :: "bytes \<Rightarrow> nat option outcome" where
  "FindEOCD apkData =
     (if length apkData < ZIP_EOCD_MIN_SIZE then Returns None
      else
        (let searchStart = length apkData - ZIP_EOCD_MIN_SIZE;
             searchEnd = (if length apkData > ZIP_EOCD_MIN_SIZE + ZIP_EOCD_MAX_COMMENT
               then length apkData - ZIP_EOCD_MIN_SIZE - ZIP_EOCD_MAX_COMMENT else 0)
         in eocd_loop apkData searchEnd searchStart))"

text \<open>Numbers printed with \<open>std::hex\<close>.\<close>

definition hex_digit :: "bool \<Rightarrow> nat \<Rightarrow> char" where
  "hex_digit upper n = (if upper then ''0123456789ABCDEF'' else ''0123456789abcdef'') ! n"

fun print_hex :: "bool \<Rightarrow> nat \<Rightarrow> string" where
  "print_hex upper n =
     (if n < 16 then [hex_digit upper n] else print_hex upper (n div 16) @ [hex_digit upper (n mod 16)])"

declare print_hex.simps [simp del]

definition hex_byte :: "bool \<Rightarrow> byte \<Rightarrow> string" where
  "hex_byte upper b = (if b < 16 then ''0'' else []) @ print_hex upper (unat b)"

fun fingerprint_loop :: "nat \<Rightarrow> bytes \<Rightarrow> string" where
  "fingerprint_loop i [] = []"
| "fingerprint_loop i (b # md) = (if i > 0 then '':'' else []) @ hex_byte True b @ fingerprint_loop (i + 1) md"

definition GetCertFingerprint :: "('p, 'c) sig_env \<Rightarrow> 'c \<Rightarrow> string" where
  "GetCertFingerprint S cert = fingerprint_loop 0 (X509_digest S cert)"

definition ComputeSHA256 :: "('p, 'c) sig_env \<Rightarrow> bytes \<Rightarrow> bytes" where
  "ComputeSHA256 S data = SHA256 S data"

definition ToHexString :: "bytes \<Rightarrow> string" where
  "ToHexString data = concat (map (hex_byte False) data)"

text \<open>
  \<open>FindSigningBlock\<close>: the inner \<open>None\<close> is \<open>false\<close>, else block offset and size. The offset is a 64-bit
  difference and may wrap.
\<close>

definition FindSigningBlock :: "('p, 'c) sig_env \<Rightarrow> string \<Rightarrow> (u64 \<times> u64) option outcome" where
  "FindSigningBlock S apkPath =
     (case ReadFile S apkPath of
        None \<Rightarrow> Returns None
      | Some apkData \<Rightarrow>
          (case FindEOCD apkData of
             OutOfBounds \<Rightarrow> OutOfBounds
           | Returns None \<Rightarrow> Returns None
           | Returns (Some eocdOffset) \<Rightarrow>
               (case rd32 apkData (eocdOffset + 16) of
                  None \<Rightarrow> OutOfBounds
                | Some cdOffset \<Rightarrow>
                    if cdOffset < 24 then Returns None
                    else
                      (case (rd64 apkData (unat (cdOffset - 16)), rd64 apkData (unat (cdOffset - 8))) of
                         (Some magic_lo, Some magic_hi) \<Rightarrow>
                           if magic_lo \<noteq> APK_SIG_BLOCK_MAGIC_LO \<or> magic_hi \<noteq> APK_SIG_BLOCK_MAGIC_HI
                           then Returns None
                           else
                             (case rd64 apkData (unat (cdOffset - 24)) of
                                None \<Rightarrow> OutOfBounds
                              | Some blockSize \<Rightarrow> Returns (Some (ucast cdOffset - blockSize - 8, blockSize)))
                       | _ \<Rightarrow> OutOfBounds))))"

text \<open>The loop over the id-value pairs, up to the first pair with the V2 id; all offsets are 64-bit words.\<close>

partial_function (option) pair_loop :: "bytes \<Rightarrow> u64 \<Rightarrow> u64 \<Rightarrow> (u64 \<times> u64) option outcome option" where
  "pair_loop apkData end' offset =
     (if \<not> offset + 12 \<le> end' then Some (Returns None)
      else case rd64 apkData (unat offset) of
        None \<Rightarrow> Some OutOfBounds
      | Some pairSize \<Rightarrow>
          (case rd32 apkData (unat (offset + 8)) of
             None \<Rightarrow> Some OutOfBounds
           | Some pairId \<Rightarrow>
               if pairId = APK_SIGNATURE_SCHEME_V2_BLOCK_ID then Some (Returns (Some (offset, pairSize)))
               else pair_loop apkData end' (offset + (8 + pairSize))))"

definition v2_signer :: "('p, 'c) sig_env \<Rightarrow> bytes \<Rightarrow> u64 \<Rightarrow> u64 \<Rightarrow> VerifyResult \<Rightarrow> VerifyResult outcome" where
  "v2_signer S apkData offset pairSize result =
     (let signerSize = pairSize - 4 in
      if signerSize > 8 then
        (case slice apkData (unat (offset + 12)) (min (unat signerSize) 256) of
           None \<Rightarrow> OutOfBounds
         | Some signerData \<Rightarrow>
             Returns (result\<lparr>verified := True, certFingerprint := ToHexString (ComputeSHA256 S signerData)\<rparr>))
      else Returns result)"

definition VerifyV2 :: "('p, 'c) sig_env \<Rightarrow> string \<Rightarrow> VerifyResult outcome option" where
  "VerifyV2 S apkPath =
     (let result = new_VerifyResult\<lparr>scheme := V2_APK\<rparr> in
      case FindSigningBlock S apkPath of
        OutOfBounds \<Rightarrow> Some OutOfBounds
      | Returns None \<Rightarrow> Some (Returns (result\<lparr>errorMsg := ''APK Signing Block not found (V2 not present)''\<rparr>))
      | Returns (Some (blockOffset, blockSize)) \<Rightarrow>
          (case ReadFile S apkPath of
             None \<Rightarrow> Some (Returns (result\<lparr>errorMsg := ''Failed to read APK file''\<rparr>))
           | Some apkData \<Rightarrow>
               Option.bind (pair_loop apkData (blockOffset + blockSize) (blockOffset + 8)) (\<lambda>found.
                 case found of
                   OutOfBounds \<Rightarrow> Some OutOfBounds
                 | Returns None \<Rightarrow>
                     Some (Returns (result\<lparr>errorMsg := ''V2 signer block not found in APK Signing Block''\<rparr>))
                 | Returns (Some (offset, pairSize)) \<Rightarrow> Some (v2_signer S apkData offset pairSize result))))"

definition VerifyV1 :: "('p, 'c) sig_env \<Rightarrow> ('z, 'f) unz \<Rightarrow> string \<Rightarrow> VerifyResult" where
  "VerifyV1 S u apkPath =
     (let result = new_VerifyResult\<lparr>scheme := V1_JAR\<rparr>;
          (rsa, certData) = read_zip_entry u apkPath ''META-INF/CERT.RSA'' [];
          (found, certData) = (if rsa then (True, certData) else read_zip_entry u apkPath ''META-INF/CERT.DSA'' certData) in
      if \<not> found then result\<lparr>errorMsg := ''No V1 signature certificate found (META-INF/CERT.RSA)''\<rparr>
      else
        (case read_zip_entry u apkPath ''META-INF/CERT.SF'' [] of
           (False, _) \<Rightarrow> result\<lparr>errorMsg := ''CERT.SF not found''\<rparr>
         | (True, sfData) \<Rightarrow>
             (case read_zip_entry u apkPath ''META-INF/MANIFEST.MF'' [] of
                (False, _) \<Rightarrow> result\<lparr>errorMsg := ''MANIFEST.MF not found''\<rparr>
              | (True, mfData) \<Rightarrow>
                  (case d2i_PKCS7 S certData of
                     None \<Rightarrow> result\<lparr>errorMsg := ''Failed to parse PKCS#7 signature''\<rparr>
                   | Some pkcs7 \<Rightarrow>
                       (let verifyResult = PKCS7_verify S pkcs7 sfData;
                            result = (case pkcs7_certs S pkcs7 of
                              Some (cert # _) \<Rightarrow> result\<lparr>certFingerprint := GetCertFingerprint S cert\<rparr>
                            | _ \<Rightarrow> result);
                            mfHashHex = ToHexString (ComputeSHA256 S mfData)
                        in result\<lparr>verified := True\<rparr>)))))"

definition Verify :: "('p, 'c) sig_env \<Rightarrow> ('z, 'f) unz \<Rightarrow> string \<Rightarrow> VerifyResult outcome option" where
  "Verify S u apkPath =
     Option.bind (VerifyV2 S apkPath) (\<lambda>r.
       case r of
         OutOfBounds \<Rightarrow> Some OutOfBounds
       | Returns result \<Rightarrow> if verified result then Some (Returns result) else Some (Returns (VerifyV1 S u apkPath)))"

definition HasSameCertificate :: "('p, 'c) sig_env \<Rightarrow> ('z, 'f) unz \<Rightarrow> string \<Rightarrow> string \<Rightarrow> bool outcome option" where
  "HasSameCertificate S u apkPath1 apkPath2 =
     Option.bind (Verify S u apkPath1) (\<lambda>r1. Option.bind (Verify S u apkPath2) (\<lambda>r2.
       case (r1, r2) of
         (Returns r1, Returns r2) \<Rightarrow>
           Some (Returns (if \<not> verified r1 \<or> \<not> verified r2 then False
             else certFingerprint r1 = certFingerprint r2))
       | _ \<Rightarrow> Some OutOfBounds))"

section \<open>The search for the end record\<close>

lemma eocd_loop_spec:
  assumes "i + 4 \<le> length d"
  shows "eocd_loop d lo i = Returns (if \<exists>j. lo \<le> j \<and> j \<le> i \<and> rd32 d j = Some ZIP_EOCD_SIGNATURE
    then Some (GREATEST j. lo \<le> j \<and> j \<le> i \<and> rd32 d j = Some ZIP_EOCD_SIGNATURE) else None)"
  using assms
proof (induction d lo i rule: eocd_loop.induct)
  case (1 d lo i)
  let ?P = "\<lambda>k j. lo \<le> j \<and> j \<le> k \<and> rd32 d j = Some ZIP_EOCD_SIGNATURE"
  obtain sig where sig: "rd32 d i = Some sig" using rd_total(3) [OF "1.prems"] by blast
  consider "i < lo" | "lo \<le> i" "sig = ZIP_EOCD_SIGNATURE" | "lo \<le> i" "sig \<noteq> ZIP_EOCD_SIGNATURE" "i = 0"
    | "lo \<le> i" "sig \<noteq> ZIP_EOCD_SIGNATURE" "i \<noteq> 0" by linarith
  then show ?case
  proof cases
    case 1
    then show ?thesis by (subst eocd_loop.simps) auto
  next
    case 2
    moreover from 2 have "(GREATEST j. ?P i j) = i" by (intro Greatest_equality) (auto simp: sig)
    ultimately show ?thesis by (subst eocd_loop.simps) (auto simp: sig)
  next
    case 3
    then show ?thesis using sig by (subst eocd_loop.simps) auto
  next
    case 4
    then have same: "?P i j \<longleftrightarrow> ?P (i - 1) j" for j using sig by (cases "j = i") auto
    have round: "eocd_loop d lo i = eocd_loop d lo (i - 1)"
      using 4 by (subst eocd_loop.simps) (simp add: sig)
    have "eocd_loop d lo (i - 1) = Returns (if \<exists>j. ?P (i - 1) j then Some (GREATEST j. ?P (i - 1) j) else None)"
      using 4 "1.prems" by (intro "1.IH" [OF _ sig]) auto
    then show ?thesis unfolding round same .
  qed
qed

section \<open>Signed archives\<close>

definition enc_pair :: "u32 \<times> bytes \<Rightarrow> bytes" where
  "enc_pair p = put64 (word_of_nat (length (snd p) + 4)) @ put32 (fst p) @ snd p"

definition block_body :: "(u32 \<times> bytes) list \<Rightarrow> bytes" where
  "block_body ps = concat (map enc_pair ps)"

definition signing_block :: "bytes \<Rightarrow> bytes" where
  "signing_block body = put64 (word_of_nat (length body + 24)) @ body @ put64 (word_of_nat (length body + 24))
     @ put64 APK_SIG_BLOCK_MAGIC_LO @ put64 APK_SIG_BLOCK_MAGIC_HI"

text \<open>An archive: entries, signing block, central directory and an end record without a comment.\<close>

definition signed_apk :: "bytes \<Rightarrow> bytes \<Rightarrow> bytes \<Rightarrow> bytes \<Rightarrow> bytes \<Rightarrow> bytes" where
  "signed_apk entries body directory counts comment_len = entries @ signing_block body @ directory
     @ put32 ZIP_EOCD_SIGNATURE @ counts @ put32 (word_of_nat (length entries + length body + 32)) @ comment_len"

lemma length_enc_pair [width_simps]: "length (enc_pair p) = 12 + length (snd p)"
  by (simp add: enc_pair_def)

lemma length_signing_block [width_simps]: "length (signing_block body) = length body + 32"
  by (simp add: signing_block_def)

lemma unat_minus32: "k \<le> n \<Longrightarrow> n < 2 ^ 32 \<Longrightarrow> unat (word_of_nat n - word_of_nat k :: u32) = n - k"
  by (subst of_nat_diff [symmetric]) (auto intro!: unat_of_nat32 simp del: of_nat_diff)

lemma FindEOCD_end:
  assumes "length counts = 12" "length comment_len = 2"
  shows "FindEOCD (xs @ put32 ZIP_EOCD_SIGNATURE @ counts @ put32 v @ comment_len) = Returns (Some (length xs))"
proof -
  let ?d = "xs @ put32 ZIP_EOCD_SIGNATURE @ counts @ put32 v @ comment_len"
  have l: "length ?d = length xs + 22" using assms by simp
  have "eocd_loop ?d lo (length xs) = Returns (Some (length xs))" if "lo \<le> length xs" for lo
    using that f32.rd_at by (subst eocd_loop.simps) simp
  then show ?thesis unfolding FindEOCD_def l by (simp add: ZIP_EOCD_MIN_SIZE_def ZIP_EOCD_MAX_COMMENT_def)
qed

lemma FindSigningBlock_found:
  assumes "file_contents S path = Some (signed_apk entries body directory counts comment_len)"
    "length counts = 12" "length comment_len = 2" "length entries + length body + 32 < 2 ^ 32"
  shows "FindSigningBlock S path = Returns (Some (word_of_nat (length entries), word_of_nat (length body + 24)))"
proof -
  let ?n = "length entries + length body + 32"
  let ?d = "signed_apk entries body directory counts comment_len"
  let ?pre = "entries @ signing_block body @ directory"
  have eocd: "FindEOCD ?d = Returns (Some (length ?pre))"
    using FindEOCD_end [OF assms(2,3), of ?pre "word_of_nat ?n"] by (simp add: signed_apk_def)
  have cd: "rd32 ?d (length ?pre + 16) = Some (word_of_nat ?n)"
    using f32.rd_at [of "?pre @ put32 ZIP_EOCD_SIGNATURE @ counts" "word_of_nat ?n" comment_len] assms(2)
    by (simp add: signed_apk_def add.assoc)
  note un = unat_of_nat32 [OF assms(4)]
  have big: "\<not> (word_of_nat ?n :: u32) < 24" using un by (simp add: word_less_nat_alt)
  have pos: "unat (word_of_nat ?n - 16 :: u32) = length entries + length body + 16"
    "unat (word_of_nat ?n - 8 :: u32) = length entries + length body + 24"
    "unat (word_of_nat ?n - 24 :: u32) = length entries + length body + 8"
    using unat_minus32 [of 16 ?n] unat_minus32 [of 8 ?n] unat_minus32 [of 24 ?n] assms(4) by simp_all
  define sz where "sz = put64 (word_of_nat (length body + 24) :: u64)"
  have lsz: "length sz = 8" by (simp add: sz_def)
  have d: "?d = entries @ sz @ body @ sz @ put64 APK_SIG_BLOCK_MAGIC_LO @ put64 APK_SIG_BLOCK_MAGIC_HI @ directory
      @ put32 ZIP_EOCD_SIGNATURE @ counts @ put32 (word_of_nat ?n) @ comment_len"
    by (simp add: signed_apk_def signing_block_def sz_def)
  have reads: "rd64 ?d (length entries + length body + 8) = Some (word_of_nat (length body + 24))"
    "rd64 ?d (length entries + length body + 16) = Some APK_SIG_BLOCK_MAGIC_LO"
    "rd64 ?d (length entries + length body + 24) = Some APK_SIG_BLOCK_MAGIC_HI"
    unfolding d using f64.rd_at [of "entries @ sz @ body"] f64.rd_at [of "entries @ sz @ body @ sz"]
      f64.rd_at [of "entries @ sz @ body @ sz @ put64 APK_SIG_BLOCK_MAGIC_LO"] lsz
    by (simp_all add: ac_simps sz_def)
  have "ucast (word_of_nat ?n :: u32) = (word_of_nat ?n :: u64)"
    using un by (metis word_unat_eq_iff unat_of_nat64 unsigned_ucast_eq of_nat_unat)
  then have off: "ucast (word_of_nat ?n :: u32) - word_of_nat (length body + 24) - 8 = (word_of_nat (length entries) :: u64)"
    by simp
  show ?thesis
    unfolding FindSigningBlock_def ReadFile_def assms(1) option.case eocd outcome.case cd pos reads prod.case
    using big off by simp
qed

lemma le_word64: "a < 2 ^ 64 \<Longrightarrow> b < 2 ^ 64 \<Longrightarrow> (word_of_nat a :: u64) \<le> word_of_nat b \<longleftrightarrow> a \<le> b"
  by (simp add: word_le_nat_alt unat_of_nat64)

definition v2_value :: "(u32 \<times> bytes) list \<Rightarrow> bytes option" where
  "v2_value ps = map_option snd (find (\<lambda>p. fst p = APK_SIGNATURE_SCHEME_V2_BLOCK_ID) ps)"

lemma v2_value_simps [simp]:
  "v2_value [] = None"
  "v2_value (p # ps) = (if fst p = APK_SIGNATURE_SCHEME_V2_BLOCK_ID then Some (snd p) else v2_value ps)"
  by (simp_all add: v2_value_def)

text \<open>One round of the loop at a pair, and the last round at the trailing size and magic.\<close>

lemma pair_loop_step:
  assumes "e < 2 ^ 64" "length xs + 12 \<le> e"
    "rd64 d (length xs) = Some sz" "rd32 d (length xs + 8) = Some i"
  shows "pair_loop d (word_of_nat e) (word_of_nat (length xs))
    = (if i = APK_SIGNATURE_SCHEME_V2_BLOCK_ID then Some (Returns (Some (word_of_nat (length xs), sz)))
       else pair_loop d (word_of_nat e) (word_of_nat (length xs) + (8 + sz)))"
proof -
  have a: "(word_of_nat (length xs) :: u64) + 12 = word_of_nat (length xs + 12)"
    "(word_of_nat (length xs) :: u64) + 8 = word_of_nat (length xs + 8)" by simp_all
  have c: "(word_of_nat (length xs) :: u64) + 12 \<le> word_of_nat e"
    unfolding a using assms(1,2) by (subst le_word64) auto
  have u: "unat (word_of_nat (length xs) :: u64) = length xs" "unat ((word_of_nat (length xs) :: u64) + 8) = length xs + 8"
    unfolding a using assms(1,2) by (intro unat_of_nat64; simp)+
  show ?thesis using assms(3,4) by (subst pair_loop.simps) (simp add: c u)
qed

lemma pair_loop_stop:
  assumes "e < 2 ^ 64" "n + 12 < 2 ^ 64" "e < n + 12"
  shows "pair_loop d (word_of_nat e) (word_of_nat n) = Some (Returns None)"
proof -
  have "(word_of_nat n :: u64) + 12 = word_of_nat (n + 12)" by simp
  then have "\<not> (word_of_nat n :: u64) + 12 \<le> word_of_nat e"
    using assms le_word64 [of "n + 12" e] by (simp only: not_le)
  then show ?thesis by (subst pair_loop.simps) simp
qed

lemma put64_low: "rd32 (put64 w @ ys) 0 = Some (ucast w)"
  by (simp add: put64_def rd32_put)

lemma magic_not_id: "(ucast APK_SIG_BLOCK_MAGIC_LO :: u32) \<noteq> APK_SIGNATURE_SCHEME_V2_BLOCK_ID"
  by (simp add: APK_SIG_BLOCK_MAGIC_LO_def APK_SIGNATURE_SCHEME_V2_BLOCK_ID_def)

lemma pair_loop_body:
  assumes "d = xs @ block_body ps @ put64 sz @ put64 APK_SIG_BLOCK_MAGIC_LO @ ys"
    "unat sz = n" "24 \<le> n" "length xs + length (block_body ps) + n + 64 < 2 ^ 64"
  defines "r \<equiv> pair_loop d (word_of_nat (length xs + length (block_body ps) + 16)) (word_of_nat (length xs))"
  shows "case v2_value ps of
      None \<Rightarrow> r = Some (Returns None)
    | Some v \<Rightarrow> \<exists>o'. r = Some (Returns (Some (word_of_nat o', word_of_nat (length v + 4))))
        \<and> slice d (o' + 12) (length v) = Some v \<and> o' + 12 + length v < 2 ^ 64"
  using assms(1,4) unfolding r_def
proof (induction ps arbitrary: xs)
  case Nil
  let ?e = "length xs + 16"
  have e: "?e < 2 ^ 64" using Nil.prems(2) by simp
  have sz: "word_of_nat n = sz" using assms(2) by auto
  have reads: "rd64 d (length xs) = Some sz" "rd32 d (length xs + 8) = Some (ucast APK_SIG_BLOCK_MAGIC_LO)"
    using f64.rd_at [of xs sz] rd_shift(3) [of "xs @ put64 sz" _ 0] put64_low
    by (simp_all add: Nil.prems(1) block_body_def)
  have "pair_loop d (word_of_nat ?e) (word_of_nat (length xs))
      = pair_loop d (word_of_nat ?e) (word_of_nat (length xs + (8 + n)))"
    using pair_loop_step [OF e _ reads] magic_not_id sz by simp
  also have "\<dots> = Some (Returns None)"
    using Nil.prems(2) assms(3) by (intro pair_loop_stop) (auto simp: block_body_def)
  finally show ?case by (simp add: block_body_def)
next
  case (Cons p ps)
  obtain i v where p: "p = (i, v)" by (cases p)
  let ?e = "length xs + length (block_body (p # ps)) + 16"
  define psz where "psz = (word_of_nat (length v + 4) :: u64)"
  define rest where "rest = block_body ps @ put64 sz @ put64 APK_SIG_BLOCK_MAGIC_LO @ ys"
  have d: "d = xs @ put64 psz @ put32 i @ v @ rest"
    using Cons.prems(1) by (simp add: block_body_def enc_pair_def p psz_def rest_def)
  have le: "length (block_body (p # ps)) = 12 + length v + length (block_body ps)"
    by (simp add: block_body_def length_enc_pair p)
  have e: "?e < 2 ^ 64" "length xs + 12 \<le> ?e" using Cons.prems(2) le by simp_all
  have reads: "rd64 d (length xs) = Some psz" "rd32 d (length xs + 8) = Some i"
    using f64.rd_at [of xs psz] f32.rd_at [of "xs @ put64 psz" i] by (simp_all add: d)
  note step = pair_loop_step [OF e reads]
  show ?case
  proof (cases "i = APK_SIGNATURE_SCHEME_V2_BLOCK_ID")
    case True
    have "slice d (length xs + 12) (length v) = Some v"
      using slice_shift [of "xs @ put64 psz @ put32 i" "v @ rest" 0 "length v"] by (simp add: d slice_prefix)
    then show ?thesis using True step le Cons.prems(2) by (auto simp: p psz_def)
  next
    case False
    let ?xs = "xs @ enc_pair p"
    have next_pos: "(word_of_nat (length xs) :: u64) + (8 + psz) = word_of_nat (length ?xs)"
      by (simp add: length_enc_pair p psz_def algebra_simps)
    have e': "?e = length ?xs + length (block_body ps) + 16" by (simp add: block_body_def)
    have "d = ?xs @ block_body ps @ put64 sz @ put64 APK_SIG_BLOCK_MAGIC_LO @ ys"
      using Cons.prems(1) by (simp add: block_body_def)
    moreover have "length ?xs + length (block_body ps) + n + 64 < 2 ^ 64"
      using Cons.prems(2) by (simp add: block_body_def)
    moreover have "pair_loop d (word_of_nat ?e) (word_of_nat (length xs))
        = pair_loop d (word_of_nat (length ?xs + length (block_body ps) + 16)) (word_of_nat (length ?xs))"
      using step next_pos False unfolding e' by (simp only: if_False)
    ultimately show ?thesis using Cons.IH [of ?xs] False by (simp only: v2_value_simps p fst_conv if_False)
  qed
qed

text \<open>The result that the scheme-2 check computes from the pairs of the signing block.\<close>

definition v2_spec :: "('p, 'c) sig_env \<Rightarrow> (u32 \<times> bytes) list \<Rightarrow> VerifyResult" where
  "v2_spec S ps = (case v2_value ps of
      None \<Rightarrow> \<lparr>verified = False, scheme = V2_APK, certFingerprint = [], errorMsg = ''V2 signer block not found in APK Signing Block''\<rparr>
    | Some v \<Rightarrow> if 8 < length v
        then \<lparr>verified = True, scheme = V2_APK, certFingerprint = ToHexString (SHA256 S (take 256 v)), errorMsg = []\<rparr>
        else \<lparr>verified = False, scheme = V2_APK, certFingerprint = [], errorMsg = []\<rparr>)"

lemma v2_signer_value:
  assumes "slice d (o' + 12) (length v) = Some v" "o' + 12 + length v < 2 ^ 64"
  shows "v2_signer S d (word_of_nat o') (word_of_nat (length v + 4)) r = Returns (if 8 < length v
    then r\<lparr>verified := True, certFingerprint := ToHexString (SHA256 S (take 256 v))\<rparr> else r)"
proof -
  have a: "(word_of_nat (length v + 4) :: u64) - 4 = word_of_nat (length v)" "(word_of_nat o' :: u64) + 12 = word_of_nat (o' + 12)"
    by simp_all
  have u: "unat (word_of_nat (length v) :: u64) = length v" "unat (word_of_nat (o' + 12) :: u64) = o' + 12"
    using assms(2) by (intro unat_of_nat64; simp)+
  have "(8 :: u64) < word_of_nat (length v) \<longleftrightarrow> 8 < length v" using u(1) by (simp add: word_less_nat_alt)
  moreover have "slice d (o' + 12) (min (length v) 256) = Some (take 256 v)"
  proof -
    have v: "v = take (length v) (drop (o' + 12) d)" and l: "o' + 12 + length v \<le> length d"
      using assms(1) by (simp_all add: slice_eq_Some_iff)
    show ?thesis using arg_cong [OF v, of "take 256"] l by (simp add: slice_eq_Some_iff min.commute)
  qed
  ultimately show ?thesis unfolding v2_signer_def a Let_def u by (simp add: ComputeSHA256_def)
qed

lemma VerifyV2_signed:
  assumes "file_contents S path = Some (signed_apk entries (block_body ps) directory counts comment_len)"
    "length counts = 12" "length comment_len = 2" "length entries + length (block_body ps) + 32 < 2 ^ 32"
  shows "VerifyV2 S path = Some (Returns (v2_spec S ps))"
proof -
  let ?n = "length (block_body ps) + 24"
  let ?sz = "word_of_nat ?n :: u64"
  define d where "d = signed_apk entries (block_body ps) directory counts comment_len"
  define ys where "ys = put64 APK_SIG_BLOCK_MAGIC_HI @ directory @ put32 ZIP_EOCD_SIGNATURE @ counts
      @ put32 (word_of_nat (length entries + length (block_body ps) + 32)) @ comment_len"
  have d: "d = (entries @ put64 ?sz) @ block_body ps @ put64 ?sz @ put64 APK_SIG_BLOCK_MAGIC_LO @ ys"
    by (simp add: d_def signed_apk_def signing_block_def ys_def)
  have un: "unat ?sz = ?n" using assms(4) by (intro unat_of_nat64) simp
  have off: "(word_of_nat (length entries) :: u64) + ?sz = word_of_nat (length (entries @ put64 ?sz) + length (block_body ps) + 16)"
    "(word_of_nat (length entries) :: u64) + 8 = word_of_nat (length (entries @ put64 ?sz))" by simp_all
  note loop = pair_loop_body [OF d un, folded off]
  have "length (entries @ put64 ?sz) + length (block_body ps) + ?n + 64 < 2 ^ 64" using assms(4) by simp
  note loop = loop [OF _ this]
  show ?thesis
  proof (cases "v2_value ps")
    case None
    then show ?thesis using loop
      by (simp add: VerifyV2_def FindSigningBlock_found [OF assms] ReadFile_def assms(1) d_def [symmetric] v2_spec_def new_VerifyResult_def)
  next
    case (Some v)
    then obtain o' where r: "pair_loop d (word_of_nat (length entries) + ?sz) (word_of_nat (length entries) + 8)
        = Some (Returns (Some (word_of_nat o', word_of_nat (length v + 4))))"
      "slice d (o' + 12) (length v) = Some v" "o' + 12 + length v < 2 ^ 64"
      using loop by auto
    then show ?thesis using Some v2_signer_value [OF r(2,3), of S "new_VerifyResult\<lparr>scheme := V2_APK\<rparr>"]
      by (simp add: VerifyV2_def FindSigningBlock_found [OF assms] ReadFile_def assms(1) d_def [symmetric] v2_spec_def new_VerifyResult_def)
  qed
qed

text \<open>A pair whose size makes the 64-bit step wrap to zero holds the loop where it is.\<close>

lemma pair_loop_stuck:
  assumes "offset + 12 \<le> e" "rd64 d (unat offset) = Some (- 8)" "rd32 d (unat (offset + 8)) = Some i"
    "i \<noteq> APK_SIGNATURE_SCHEME_V2_BLOCK_ID"
  shows "pair_loop d e offset = None"
proof -
  have "(d, e, offset) \<noteq> (d, e, offset)" if r: "pair_loop d e offset = Some r" for r
    by (rule pair_loop.raw_induct [where P = "\<lambda>d' e' o' _. (d', e', o') \<noteq> (d, e, offset)", OF _ r])
      (use assms in \<open>auto split: if_splits option.splits; blast\<close>)
  then show ?thesis by (cases "pair_loop d e offset") auto
qed

lemma VerifyV2_stuck:
  assumes "file_contents S path = Some (signed_apk entries (put64 (- 8) @ put32 i @ rest) directory counts comment_len)"
    "length counts = 12" "length comment_len = 2" "length entries + length rest + 44 < 2 ^ 32"
    "i \<noteq> APK_SIGNATURE_SCHEME_V2_BLOCK_ID"
  shows "VerifyV2 S path = None"
proof -
  let ?body = "put64 (- 8) @ put32 i @ rest"
  define d where "d = signed_apk entries ?body directory counts comment_len"
  have len: "length entries + length ?body + 32 < 2 ^ 32" using assms(4) by simp
  note block = FindSigningBlock_found [OF assms(1-3) len]
  let ?o = "word_of_nat (length entries) + 8 :: u64" and ?e = "word_of_nat (length entries) + word_of_nat (length ?body + 24) :: u64"
  have o8: "?o = word_of_nat (length entries + 8)" "?o + 8 = word_of_nat (length entries + 16)" by simp_all
  have un: "unat ?o = length entries + 8" "unat (?o + 8) = length entries + 16"
    unfolding o8(2) unfolding o8(1) using assms(4) by (intro unat_of_nat64; simp)+
  have at: "rd64 d (length entries + 8) = Some (- 8)" "rd32 d (length entries + 16) = Some i"
    using f64.rd_at [of "entries @ put64 (word_of_nat (length ?body + 24))" "- 8"]
      f32.rd_at [of "entries @ put64 (word_of_nat (length ?body + 24)) @ put64 (- 8)" i]
    by (simp_all add: d_def signed_apk_def signing_block_def)
  have "?o + 12 = word_of_nat (length entries + 20)" "?e = word_of_nat (length entries + length ?body + 24)" by simp_all
  moreover have "(word_of_nat (length entries + 20) :: u64) \<le> word_of_nat (length entries + length ?body + 24)"
    using assms(4) by (subst le_word64) auto
  ultimately have "?o + 12 \<le> ?e" by (simp only:)
  from pair_loop_stuck [OF this, of d i, unfolded un, OF at assms(5)] have "pair_loop d ?e ?o = None" .
  then show ?thesis unfolding VerifyV2_def block Let_def ReadFile_def assms(1) d_def [symmetric] by simp
qed

section \<open>Fingerprints\<close>

lemma print_hex_byte: "n < 256 \<Longrightarrow> print_hex up n = (if n < 16 then [hex_digit up n] else [hex_digit up (n div 16), hex_digit up (n mod 16)])"
  by (subst print_hex.simps, subst print_hex.simps) auto

lemma hex_byte_digits: "hex_byte up b = [hex_digit up (unat b div 16), hex_digit up (unat b mod 16)]"
proof -
  have "unat b < 256" by (rule order_less_le_trans [OF unsigned_less]) simp
  then show ?thesis by (simp add: hex_byte_def print_hex_byte word_less_nat_alt hex_digit_def)
qed

lemma hex_digit_inj: "i < 16 \<Longrightarrow> j < 16 \<Longrightarrow> hex_digit up i = hex_digit up j \<Longrightarrow> i = j"
  using nth_eq_iff_index_eq [of "''0123456789ABCDEF''" i j] nth_eq_iff_index_eq [of "''0123456789abcdef''" i j]
  by (cases up) (simp_all add: hex_digit_def)

lemma hex_byte_inj: "hex_byte up a = hex_byte up b \<longleftrightarrow> a = b"
proof
  assume h: "hex_byte up a = hex_byte up b"
  have b: "unat x < 256" for x :: byte by (rule order_less_le_trans [OF unsigned_less]) simp
  have "unat a div 16 = unat b div 16" "unat a mod 16 = unat b mod 16"
    using h b [of a] b [of b] by (auto simp: hex_byte_digits intro!: hex_digit_inj)
  then have "unat a = unat b" by (metis div_mult_mod_eq)
  then show "a = b" by (simp add: word_unat_eq_iff)
qed simp

lemma ToHexString_inj: "ToHexString xs = ToHexString ys \<longleftrightarrow> xs = ys"
proof (induction xs arbitrary: ys)
  case Nil
  then show ?case by (cases ys) (auto simp: ToHexString_def hex_byte_digits)
next
  case (Cons x xs)
  show ?case
  proof (cases ys)
    case Nil
    then show ?thesis by (simp add: ToHexString_def hex_byte_digits)
  next
    case ys: (Cons y ys')
    have "ToHexString (x # xs) = ToHexString (y # ys') \<longleftrightarrow> hex_byte False x = hex_byte False y \<and> ToHexString xs = ToHexString ys'"
      by (simp add: ToHexString_def hex_byte_digits)
    then show ?thesis using Cons.IH by (simp add: ys hex_byte_inj)
  qed
qed

lemma fingerprint_loop_inj: "i > 0 \<Longrightarrow> fingerprint_loop i xs = fingerprint_loop i ys \<longleftrightarrow> xs = ys"
proof (induction xs arbitrary: ys i)
  case Nil
  then show ?case by (cases ys) (auto simp: hex_byte_digits)
next
  case (Cons x xs)
  show ?case
  proof (cases ys)
    case ys: (Cons y ys')
    have "fingerprint_loop i (x # xs) = fingerprint_loop i (y # ys')
        \<longleftrightarrow> hex_byte True x = hex_byte True y \<and> fingerprint_loop (i + 1) xs = fingerprint_loop (i + 1) ys'"
      using Cons.prems by (simp add: hex_byte_digits)
    then show ?thesis using Cons.IH [of "i + 1"] by (simp add: ys hex_byte_inj)
  qed (simp add: hex_byte_digits)
qed

section \<open>Verdicts\<close>

lemma Verify_signed:
  assumes "file_contents S path = Some (signed_apk entries (block_body ps) directory counts comment_len)"
    "length counts = 12" "length comment_len = 2" "length entries + length (block_body ps) + 32 < 2 ^ 32"
  shows "Verify S u path = Some (Returns (if verified (v2_spec S ps) then v2_spec S ps else VerifyV1 S u path))"
  by (simp add: Verify_def VerifyV2_signed [OF assms])


definition test_env :: "bytes \<Rightarrow> (unit, unit) sig_env" where
  "test_env f = \<lparr>file_contents = (\<lambda>_. Some f), SHA256 = take 32, d2i_PKCS7 = (\<lambda>b. if b = [] then None else Some ()),
     PKCS7_verify = (\<lambda>_ _. 0), pkcs7_certs = (\<lambda>_. None), X509_digest = (\<lambda>_. [])\<rparr>"

definition test_unz :: "(unit, unit) unz" where
  "test_unz = \<lparr>unzOpen = (\<lambda>_. Some ()), unzLocateFile = (\<lambda>_ _. Some ()), unzFiles = (\<lambda>_. []), unzCurrentName = (\<lambda>_. None),
     unzCurrentSize = (\<lambda>_. Some 1), unzOpenCurrentFile = (\<lambda>_. True), unzReadCurrentFile = (\<lambda>_ _. (1, [48])),
     unzReadChunks = (\<lambda>_ _. ([], 0))\<rparr>"

definition sample_pairs :: "(u32 \<times> bytes) list" where
  "sample_pairs = [(7, [1, 2]), (APK_SIGNATURE_SCHEME_V2_BLOCK_ID, [5, 5, 5, 5, 5, 5, 5, 5, 5])]"


text \<open>
  C35 (v2_walk_diverges): a signing block whose first pair has the size \<open>2 ^ 64 - 8\<close>
  and another id makes the pair loop advance by zero: \<open>Verify\<close> never returns.
\<close>

theorem v2_walk_diverges:
  assumes "file_contents S path = Some (signed_apk entries (put64 (- 8) @ put32 i @ rest) directory counts comment_len)"
    "length counts = 12" "length comment_len = 2" "length entries + length rest + 44 < 2 ^ 32"
    "i \<noteq> APK_SIGNATURE_SCHEME_V2_BLOCK_ID"
  shows "Verify S u path = None"
  by (simp add: Verify_def VerifyV2_stuck [OF assms])

theorem v2_walk_diverges_witness:
  "Verify (test_env (signed_apk [] (put64 (- 8) @ put32 0 @ []) [] (replicate 12 0) [0, 0])) test_unz ''a.apk'' = None"
  by (rule v2_walk_diverges [of _ _ "[]" 0 "[]" "[]" "replicate 12 0" "[0, 0]"])
    (simp_all add: test_env_def APK_SIGNATURE_SCHEME_V2_BLOCK_ID_def)

text \<open>
  Fact (same_certificate_v2): for two archives accepted by scheme 2,
  \<open>HasSameCertificate\<close> is equality of the hashes of the first 256 bytes of their
  signer blocks: the hexadecimal fingerprints lose nothing.
\<close>

theorem same_certificate_v2:
  assumes "file_contents S p = Some (signed_apk entries (block_body ps) directory counts comment_len)"
    "length counts = 12" "length comment_len = 2" "length entries + length (block_body ps) + 32 < 2 ^ 32"
    "file_contents S q = Some (signed_apk entries' (block_body qs) directory' counts' comment_len')"
    "length counts' = 12" "length comment_len' = 2" "length entries' + length (block_body qs) + 32 < 2 ^ 32"
    "v2_value ps = Some v" "8 < length v" "v2_value qs = Some v'" "8 < length v'"
  shows "HasSameCertificate S u p q = Some (Returns (SHA256 S (take 256 v) = SHA256 S (take 256 v')))"
  using assms(9-12) Verify_signed [OF assms(1-4), of u] Verify_signed [OF assms(5-8), of u]
  by (simp add: HasSameCertificate_def v2_spec_def ToHexString_inj)

theorem same_certificate_v2_witness:
  "HasSameCertificate (test_env (signed_apk [1, 2, 3] (block_body sample_pairs) [4] (replicate 12 0) [0, 0])) test_unz
     ''a.apk'' ''b.apk'' = Some (Returns True)"
proof -
  let ?S = "test_env (signed_apk [1, 2, 3] (block_body sample_pairs) [4] (replicate 12 0) [0, 0])"
  have v: "v2_value sample_pairs = Some [5, 5, 5, 5, 5, 5, 5, 5, 5]"
    by (simp add: sample_pairs_def APK_SIGNATURE_SCHEME_V2_BLOCK_ID_def)
  have "HasSameCertificate ?S test_unz ''a.apk'' ''b.apk''
      = Some (Returns (SHA256 ?S (take 256 [5, 5, 5, 5, 5, 5, 5, 5, 5]) = SHA256 ?S (take 256 [5, 5, 5, 5, 5, 5, 5, 5, 5])))"
    by (rule same_certificate_v2 [of _ _ "[1, 2, 3]" sample_pairs "[4]" "replicate 12 0" "[0, 0]" _
          "[1, 2, 3]" sample_pairs "[4]" "replicate 12 0" "[0, 0]"])
      (simp_all only: v, simp_all add: test_env_def block_body_def sample_pairs_def length_enc_pair)
  then show ?thesis by simp
qed

text \<open>An archive accepted by the JAR check whose signature structure holds no certificate.\<close>

definition bare_v1 :: "('p, 'c) sig_env \<Rightarrow> ('z, 'f) unz \<Rightarrow> string \<Rightarrow> bool" where
  "bare_v1 S u path \<longleftrightarrow> FindSigningBlock S path = Returns None
     \<and> fst (read_zip_entry u path ''META-INF/CERT.RSA'' []) \<and> fst (read_zip_entry u path ''META-INF/CERT.SF'' [])
     \<and> fst (read_zip_entry u path ''META-INF/MANIFEST.MF'' [])
     \<and> (case d2i_PKCS7 S (snd (read_zip_entry u path ''META-INF/CERT.RSA'' [])) of
          None \<Rightarrow> False | Some k \<Rightarrow> pkcs7_certs S k = None)"

lemma Verify_bare:
  assumes "bare_v1 S u path"
  shows "Verify S u path = Some (Returns \<lparr>verified = True, scheme = V1_JAR, certFingerprint = [], errorMsg = []\<rparr>)"
proof -
  obtain c sf mf k where "read_zip_entry u path ''META-INF/CERT.RSA'' [] = (True, c)"
    "read_zip_entry u path ''META-INF/CERT.SF'' [] = (True, sf)" "read_zip_entry u path ''META-INF/MANIFEST.MF'' [] = (True, mf)"
    "d2i_PKCS7 S c = Some k" "pkcs7_certs S k = None" "FindSigningBlock S path = Returns None"
    using assms unfolding bare_v1_def by (auto simp: prod_eq_iff split: option.splits)
  then show ?thesis by (simp add: Verify_def VerifyV2_def VerifyV1_def new_VerifyResult_def)
qed

text \<open>
  Fact (bare_archives_match): two archives that the JAR check accepts and whose signature structures
  carry no certificate count as signed with the same certificate.
\<close>

theorem bare_archives_match:
  assumes "bare_v1 S u p" "bare_v1 S u q"
  shows "HasSameCertificate S u p q = Some (Returns True)"
  by (simp add: HasSameCertificate_def Verify_bare [OF assms(1)] Verify_bare [OF assms(2)])

theorem bare_archives_match_witness:
  "HasSameCertificate (test_env []) test_unz ''a.apk'' ''b.apk'' = Some (Returns True)"
  by (rule bare_archives_match)
    (simp_all add: bare_v1_def FindSigningBlock_def ReadFile_def test_env_def FindEOCD_def ZIP_EOCD_MIN_SIZE_def test_unz_def
      read_zip_entry_def filled_def)

text \<open>
  Fact (directory_overread): an end record whose directory offset lies beyond the file makes
  \<open>Verify\<close> read outside the buffer.
\<close>

theorem directory_overread:
  assumes "file_contents S path = Some (xs @ put32 ZIP_EOCD_SIGNATURE @ counts @ put32 cdOffset @ comment_len)"
    "length counts = 12" "length comment_len = 2" "length xs + 22 < unat cdOffset" "24 \<le> unat cdOffset"
  shows "Verify S u path = Some OutOfBounds"
proof -
  let ?d = "xs @ put32 ZIP_EOCD_SIGNATURE @ counts @ put32 cdOffset @ comment_len"
  have cd: "rd32 ?d (length xs + 16) = Some cdOffset"
    using f32.rd_at [of "xs @ put32 ZIP_EOCD_SIGNATURE @ counts" cdOffset comment_len] assms(2) by simp
  have "(8 :: u32) \<le> cdOffset" using assms(5) by (simp add: word_le_nat_alt)
  then have "unat (cdOffset - 8) = unat cdOffset - 8" by (simp add: unat_sub_if_size word_le_nat_alt)
  then have "rd64 ?d (unat (cdOffset - 8)) = None"
    using assms(2-4) by (cases "rd64 ?d (unat (cdOffset - 8))") (auto dest!: rd_bound(4))
  moreover have "\<not> cdOffset < 24" using assms(5) by (simp add: word_less_nat_alt)
  ultimately have "FindSigningBlock S path = OutOfBounds"
    unfolding FindSigningBlock_def ReadFile_def assms(1) option.case FindEOCD_end [OF assms(2,3)] outcome.case cd
    by (simp split: option.split)
  then show ?thesis by (simp add: Verify_def VerifyV2_def)
qed

theorem directory_overread_witness:
  "Verify (test_env ([] @ put32 ZIP_EOCD_SIGNATURE @ replicate 12 0 @ put32 0xFFFFFFFF @ [0, 0])) test_unz ''a.apk'' = Some OutOfBounds"
  by (rule directory_overread [of _ _ "[]" "replicate 12 0" "0xFFFFFFFF" "[0, 0]"]) (simp_all add: test_env_def)

end
