(* ===== verification/ApkInstaller.thy ===== *)
theory ApkInstaller
  imports UnzLib
begin

text \<open>
  Deployment of an APK: \<open>package-manager/jni/apk_installer.cpp\<close>. The file system is a record of files,
  directories, modes and owners that the operations update; which system calls succeed is given by
  \<open>inst_env\<close>. \<open>minizip\<close> reading is the parameter of \<open>UnzLib\<close> (its \<open>unzOpen\<close> sees the file system at the
  moment of the call, entry names fit the name buffers), writing is the parameter \<open>zipw\<close>.
\<close>

section \<open>State and environment\<close>

record fs =
  fs_files :: "string \<rightharpoonup> bytes"
  fs_dirs :: "string set"
  fs_mode :: "string \<rightharpoonup> nat"
  fs_owner :: "string \<rightharpoonup> int \<times> int"

text \<open>
  \<open>write_ok p k\<close>: the \<open>k\<close>-th \<open>write\<close> to the stream on \<open>p\<close> succeeds; \<open>unflushed p\<close>: bytes that the stream
  cannot flush when it is closed, which its destructor does not report. \<open>dex2oat args uid\<close> is the exit
  status, \<open>None\<close> for a child that did not exit normally; \<open>fork_ok\<close> is \<open>False\<close> for a negative \<open>fork\<close>.
\<close>

record inst_env =
  ForceCreateDirectory :: "string \<Rightarrow> bool"
  ForceRemoveDirectory :: "string \<Rightarrow> bool"
  open_ok :: "string \<Rightarrow> bool"
  write_ok :: "string \<Rightarrow> nat \<Rightarrow> bool"
  unflushed :: "string \<Rightarrow> nat"
  chmod_ok :: "string \<Rightarrow> bool"
  chown_ok :: "string \<Rightarrow> bool"
  fork_ok :: bool
  dex2oat :: "string list \<Rightarrow> int \<Rightarrow> int option"

text \<open>The archive writer: which calls succeed, and the file it leaves for a list of entries.\<close>

record zipw =
  zipOpen_ok :: "string \<Rightarrow> bool"
  zipOpenNewFile_ok :: "string \<Rightarrow> bool"
  zipWrite_ok :: "string \<Rightarrow> nat \<Rightarrow> bool"
  zip_encode :: "(string \<times> bytes) list \<Rightarrow> bytes"

definition COPY_BUFFER_SIZE :: nat where "COPY_BUFFER_SIZE = 65536"
definition kZipBufSize :: nat where "kZipBufSize = 65536"
definition ANDROID_INSTALL_DIR :: string where "ANDROID_INSTALL_DIR = ''/data/app/android''"
definition ANDROID_DATA_DIR :: string where "ANDROID_DATA_DIR = ''/data/app/el2/0/android''"
definition ANDROID_EXT_DIR :: string where "ANDROID_EXT_DIR = ''/data/app/el2/0/android_ext''"
definition DEX2OAT_PATH :: string where "DEX2OAT_PATH = ''/system/android/bin/dex2oat''"
definition BOOT_IMAGE_PATH :: string where "BOOT_IMAGE_PATH = ''/system/android/framework/boot.art''"
definition ANDROID_ROOT :: string where "ANDROID_ROOT = ''/system/android''"

record InstallResult =
  success :: bool
  inst_errorMsg :: string
  installedApkPath :: string
  nativeLibPath :: string
  oatDir :: string

definition new_InstallResult :: InstallResult where
  "new_InstallResult = \<lparr>success = False, inst_errorMsg = [], installedApkPath = [], nativeLibPath = [], oatDir = []\<rparr>"

section \<open>System calls\<close>

definition octal :: "nat \<Rightarrow> nat \<Rightarrow> nat \<Rightarrow> nat" where
  "octal a b c = 64 * a + 8 * b + c"

definition chmod :: "inst_env \<Rightarrow> string \<Rightarrow> nat \<Rightarrow> fs \<Rightarrow> bool \<times> fs" where
  "chmod e path mode s = (if chmod_ok e path then (True, s\<lparr>fs_mode := (fs_mode s)(path \<mapsto> mode)\<rparr>) else (False, s))"

definition chown :: "inst_env \<Rightarrow> string \<Rightarrow> int \<Rightarrow> int \<Rightarrow> fs \<Rightarrow> bool \<times> fs" where
  "chown e path uid gid s =
     (if chown_ok e path then (True, s\<lparr>fs_owner := (fs_owner s)(path \<mapsto> (uid, gid))\<rparr>) else (False, s))"

definition unlink :: "string \<Rightarrow> fs \<Rightarrow> fs" where
  "unlink path s = s\<lparr>fs_files := (fs_files s)(path := None)\<rparr>"

text \<open>Writes to an open stream up to the first that fails, and closing it.\<close>

fun write_chunks :: "inst_env \<Rightarrow> string \<Rightarrow> nat \<Rightarrow> bytes list \<Rightarrow> bool \<times> bytes" where
  "write_chunks e path k [] = (True, [])"
| "write_chunks e path k (c # cs) =
     (if write_ok e path k then (let (ok, bs) = write_chunks e path (k + 1) cs in (ok, c @ bs)) else (False, []))"

definition close_stream :: "inst_env \<Rightarrow> string \<Rightarrow> bytes \<Rightarrow> fs \<Rightarrow> fs" where
  "close_stream e path bs s = s\<lparr>fs_files := (fs_files s)(path \<mapsto> take (length bs - unflushed e path) bs)\<rparr>"

text \<open>The blocks that repeated reads of \<open>n\<close> bytes deliver.\<close>

fun blocks :: "nat \<Rightarrow> bytes \<Rightarrow> bytes list" where
  "blocks n bs = (if bs = [] \<or> n = 0 then [] else take n bs # blocks n (drop n bs))"

declare blocks.simps [simp del]

section \<open>Directories and permissions\<close>

definition MkdirRecursive :: "inst_env \<Rightarrow> string \<Rightarrow> fs \<Rightarrow> bool \<times> fs" where
  "MkdirRecursive e path s =
     (if ForceCreateDirectory e path then (True, s\<lparr>fs_dirs := insert path (fs_dirs s)\<rparr>) else (False, s))"

definition CreateInstallDirs :: "inst_env \<Rightarrow> string \<Rightarrow> fs \<Rightarrow> bool \<times> fs" where
  "CreateInstallDirs e packageName s =
     (let installDir = ANDROID_INSTALL_DIR @ ''/'' @ packageName;
          libDir = installDir @ ''/lib'';
          oatDir = installDir @ ''/oat'';
          (ok, s) = MkdirRecursive e installDir s in
      if \<not> ok then (False, s)
      else
        (let (ok, s) = MkdirRecursive e libDir s in
         if \<not> ok then (False, s) else MkdirRecursive e oatDir s))"

definition data_dirs :: "(string \<times> nat) list" where
  "data_dirs = [([], (octal 7 7 1)), (''/cache'', (octal 7 7 1)), (''/code_cache'', (octal 7 7 1)), (''/databases'', (octal 7 7 1)), (''/files'', (octal 7 7 1)),
     (''/shared_prefs'', (octal 7 7 1)), (''/lib'', (octal 7 5 5))]"

fun data_dirs_loop :: "inst_env \<Rightarrow> string \<Rightarrow> int \<Rightarrow> int \<Rightarrow> (string \<times> nat) list \<Rightarrow> fs \<Rightarrow> bool \<times> fs" where
  "data_dirs_loop e baseDir uid gid [] s = (True, s)"
| "data_dirs_loop e baseDir uid gid ((sub, mode) # dirs) s =
     (let path = baseDir @ sub;
          (ok, s) = MkdirRecursive e path s in
      if \<not> ok then (False, s)
      else data_dirs_loop e baseDir uid gid dirs (snd (chown e path uid gid (snd (chmod e path mode s)))))"

definition CreateDataDirs :: "inst_env \<Rightarrow> string \<Rightarrow> int \<Rightarrow> int \<Rightarrow> fs \<Rightarrow> bool \<times> fs" where
  "CreateDataDirs e packageName uid gid s =
     (let (ok, s) = data_dirs_loop e (ANDROID_DATA_DIR @ ''/'' @ packageName) uid gid data_dirs s in
      if \<not> ok then (False, s)
      else
        (let extDir = ANDROID_EXT_DIR @ ''/'' @ packageName
         in (True, snd (chown e extDir uid 1015 (snd (MkdirRecursive e extDir s))))))"

definition SetPermissions :: "inst_env \<Rightarrow> string \<Rightarrow> int \<Rightarrow> int \<Rightarrow> nat \<Rightarrow> fs \<Rightarrow> bool \<times> fs" where
  "SetPermissions e path uid gid mode s =
     (let (ok, s) = chmod e path mode s in
      if \<not> ok then (False, s)
      else (let (ok, s) = chown e path uid gid s in if \<not> ok then (False, s) else (True, s)))"

text \<open>\<open>ForceRemoveDirectory\<close> removes a directory with everything below it.\<close>

definition below :: "string \<Rightarrow> string \<Rightarrow> bool" where
  "below dir path \<longleftrightarrow> path = dir \<or> take (length dir + 1) path = dir @ ''/''"

definition remove_tree :: "inst_env \<Rightarrow> string \<Rightarrow> fs \<Rightarrow> bool \<times> fs" where
  "remove_tree e dir s =
     (if ForceRemoveDirectory e dir
      then (True, s\<lparr>fs_files := (\<lambda>p. if below dir p then None else fs_files s p), fs_dirs := {p \<in> fs_dirs s. \<not> below dir p}\<rparr>)
      else (False, s))"

definition RemoveApk :: "inst_env \<Rightarrow> string \<Rightarrow> fs \<Rightarrow> bool \<times> fs" where
  "RemoveApk e packageName s =
     (let installDir = ANDROID_INSTALL_DIR @ ''/'' @ packageName;
          dataDir = ANDROID_DATA_DIR @ ''/'' @ packageName;
          extDir = ANDROID_EXT_DIR @ ''/'' @ packageName;
          (ok1, s) = remove_tree e installDir s;
          (ok2, s) = remove_tree e dataDir s;
          (ok3, s) = remove_tree e extDir s
      in (ok1 \<and> ok2 \<and> ok3, s))"

section \<open>Copying and native libraries\<close>

definition CopyApk :: "inst_env \<Rightarrow> string \<Rightarrow> string \<Rightarrow> fs \<Rightarrow> bool \<times> fs" where
  "CopyApk e src dst s =
     (case fs_files s src of
        None \<Rightarrow> (False, s)
      | Some content \<Rightarrow>
          if \<not> open_ok e dst then (False, s)
          else
            (let content = (if dst = src then [] else content);
                 (ok, written) = write_chunks e dst 0 (blocks COPY_BUFFER_SIZE content);
                 s = close_stream e dst written s in
             if \<not> ok then (False, s) else (True, snd (chmod e dst (octal 6 4 4) s))))"

definition GetSupportedAbis :: "string list" where
  "GetSupportedAbis = [''arm64-v8a'', ''armeabi-v7a'', ''armeabi'']"

definition lib_prefix :: "string \<Rightarrow> string" where
  "lib_prefix abi = ''lib/'' @ abi @ ''/''"

definition has_prefix :: "string \<Rightarrow> string \<Rightarrow> bool" where
  "has_prefix prefix name \<longleftrightarrow> take (length prefix) name = prefix"

fun abi_entry_loop :: "('z, 'f) unz \<Rightarrow> string \<Rightarrow> 'f list \<Rightarrow> bool" where
  "abi_entry_loop u prefix [] = False"
| "abi_entry_loop u prefix (f # files) =
     (case unzCurrentName u f of
        Some filename \<Rightarrow> if has_prefix prefix filename then True else abi_entry_loop u prefix files
      | None \<Rightarrow> abi_entry_loop u prefix files)"

fun abi_loop :: "('z, 'f) unz \<Rightarrow> 'z \<Rightarrow> string list \<Rightarrow> string" where
  "abi_loop u zf [] = []"
| "abi_loop u zf (abi # abis) =
     (if unzFiles u zf = [] then []
      else if abi_entry_loop u (lib_prefix abi) (unzFiles u zf) then abi
      else abi_loop u zf abis)"

definition SelectPrimaryAbi :: "('z, 'f) unz \<Rightarrow> string \<Rightarrow> string" where
  "SelectPrimaryAbi u apkPath = (case unzOpen u apkPath of None \<Rightarrow> [] | Some zf \<Rightarrow> abi_loop u zf GetSupportedAbis)"

definition extract_entry :: "inst_env \<Rightarrow> ('z, 'f) unz \<Rightarrow> string \<Rightarrow> string \<Rightarrow> 'f \<Rightarrow> fs \<Rightarrow> fs" where
  "extract_entry e u libDir prefix f s =
     (case unzCurrentName u f of
        None \<Rightarrow> s
      | Some entryName \<Rightarrow>
          if \<not> has_prefix prefix entryName then s
          else if length entryName \<le> length prefix then s
          else
            (let soName = drop (length prefix) entryName in
             if CHR ''/'' \<in> set soName then s
             else if \<not> unzOpenCurrentFile u f then s
             else
               (let outPath = libDir @ ''/'' @ soName in
                if \<not> open_ok e outPath then s
                else
                  (let (_, written) = write_chunks e outPath 0 (fst (unzReadChunks u f COPY_BUFFER_SIZE))
                   in snd (chmod e outPath (octal 7 5 5) (close_stream e outPath written s))))))"

fun extract_loop :: "inst_env \<Rightarrow> ('z, 'f) unz \<Rightarrow> string \<Rightarrow> string \<Rightarrow> 'f list \<Rightarrow> fs \<Rightarrow> fs" where
  "extract_loop e u libDir prefix [] s = s"
| "extract_loop e u libDir prefix (f # files) s = extract_loop e u libDir prefix files (extract_entry e u libDir prefix f s)"

definition ExtractNativeLibs ::
  "inst_env \<Rightarrow> ('z, 'f) unz \<Rightarrow> string \<Rightarrow> string \<Rightarrow> string \<Rightarrow> fs \<Rightarrow> bool \<times> fs" where
  "ExtractNativeLibs e u apkPath libDir primaryAbi s =
     (let s = snd (MkdirRecursive e libDir s) in
      case unzOpen u apkPath of
        None \<Rightarrow> (False, s)
      | Some zf \<Rightarrow> (True, extract_loop e u libDir (lib_prefix primaryAbi) (unzFiles u zf) s))"

section \<open>Optimisation and deployment\<close>

definition dex_args :: "string \<Rightarrow> string \<Rightarrow> string \<Rightarrow> string \<Rightarrow> string list" where
  "dex_args apkPath oatDir' isa compilerFilter =
     [DEX2OAT_PATH, ''--dex-file='' @ apkPath, ''--oat-file='' @ oatDir' @ ''/base.odex'', ''--instruction-set='' @ isa,
      ''--compiler-filter='' @ compilerFilter, ''--boot-image='' @ BOOT_IMAGE_PATH, ''--android-root='' @ ANDROID_ROOT]"

definition RunDexOpt :: "inst_env \<Rightarrow> string \<Rightarrow> string \<Rightarrow> int \<Rightarrow> string \<Rightarrow> string \<Rightarrow> bool" where
  "RunDexOpt e apkPath oatDir' uid isa compilerFilter =
     (if \<not> fork_ok e then False
      else dex2oat e (dex_args apkPath oatDir' isa compilerFilter) uid = Some 0)"

definition DeployApk ::
  "inst_env \<Rightarrow> ('z, 'f) unz \<Rightarrow> string \<Rightarrow> string \<Rightarrow> int \<Rightarrow> int \<Rightarrow> fs \<Rightarrow> InstallResult \<times> fs" where
  "DeployApk e u srcApkPath packageName uid gid s =
     (let result = new_InstallResult;
          installDir = ANDROID_INSTALL_DIR @ ''/'' @ packageName;
          (ok, s) = CreateInstallDirs e packageName s in
      if \<not> ok then (result\<lparr>inst_errorMsg := ''Failed to create installation directories''\<rparr>, s)
      else
        (let destApk = installDir @ ''/base.apk'';
             (ok, s) = CopyApk e srcApkPath destApk s in
         if \<not> ok then (result\<lparr>inst_errorMsg := ''Failed to copy APK file''\<rparr>, s)
         else
           (let result = result\<lparr>installedApkPath := destApk\<rparr>;
                primaryAbi = SelectPrimaryAbi u destApk;
                libDir = installDir @ ''/lib/'' @ primaryAbi;
                (ok, s) = (if primaryAbi \<noteq> [] then ExtractNativeLibs e u destApk libDir primaryAbi s else (True, s)) in
            if \<not> ok then (result\<lparr>inst_errorMsg := ''Failed to extract native libraries''\<rparr>, s)
            else
              (let result = (if primaryAbi \<noteq> [] then result\<lparr>nativeLibPath := libDir\<rparr> else result);
                   isa = ''arm64'';
                   oatDir' = installDir @ ''/oat/'' @ isa;
                   s = snd (MkdirRecursive e oatDir' s);
                   result = (if RunDexOpt e destApk oatDir' uid isa ''speed'' then result\<lparr>oatDir := oatDir'\<rparr> else result);
                   (ok, s) = CreateDataDirs e packageName uid gid s in
               if \<not> ok then (result\<lparr>inst_errorMsg := ''Failed to create data directories''\<rparr>, s)
               else (result\<lparr>success := True\<rparr>, snd (SetPermissions e installDir uid gid (octal 7 5 5) s))))))"

section \<open>The resources HAP\<close>

definition GetApkIconCandidates :: "string list" where
  "GetApkIconCandidates =
     [''res/mipmap-xxxhdpi-v4/ic_launcher.png'', ''res/mipmap-xxhdpi-v4/ic_launcher.png'',
      ''res/mipmap-xhdpi-v4/ic_launcher.png'', ''res/mipmap-hdpi-v4/ic_launcher.png'',
      ''res/mipmap-mdpi-v4/ic_launcher.png'', ''res/mipmap-xxxhdpi-v4/ic_launcher.webp'',
      ''res/mipmap-xxhdpi-v4/ic_launcher.webp'', ''res/mipmap-xhdpi-v4/ic_launcher.webp'',
      ''res/mipmap-hdpi-v4/ic_launcher.webp'', ''res/mipmap-mdpi-v4/ic_launcher.webp'',
      ''res/drawable-xxxhdpi-v4/ic_launcher.png'', ''res/drawable-xxhdpi-v4/ic_launcher.png'',
      ''res/drawable-xhdpi-v4/ic_launcher.png'', ''res/drawable-hdpi-v4/ic_launcher.png'',
      ''res/drawable-mdpi-v4/ic_launcher.png'']"

text \<open>The loop over the candidates: whether an icon was read, and the buffer afterwards.\<close>

fun icon_loop :: "('z, 'f) unz \<Rightarrow> 'z \<Rightarrow> string list \<Rightarrow> bytes \<Rightarrow> bool \<times> bytes" where
  "icon_loop u zf [] out = (False, out)"
| "icon_loop u zf (candidate # cs) out =
     (case unzLocateFile u zf candidate of
        None \<Rightarrow> icon_loop u zf cs out
      | Some f \<Rightarrow>
          (case unzCurrentSize u f of
             None \<Rightarrow> icon_loop u zf cs out
           | Some size' \<Rightarrow>
               if \<not> unzOpenCurrentFile u f then icon_loop u zf cs out
               else
                 (let (n, bs) = unzReadCurrentFile u f size';
                      out = filled size' bs out in
                  if n \<noteq> sint (word_of_nat size' :: u32) then icon_loop u zf cs out else (True, out))))"

definition ReadApkLauncherIcon :: "('z, 'f) unz \<Rightarrow> string \<Rightarrow> bytes \<Rightarrow> bool \<times> bytes" where
  "ReadApkLauncherIcon u apkPath out =
     (case unzOpen u apkPath of None \<Rightarrow> (False, out) | Some zf \<Rightarrow> icon_loop u zf GetApkIconCandidates out)"

text \<open>The writes of one entry up to the first that fails.\<close>

fun zip_write_loop :: "zipw \<Rightarrow> string \<Rightarrow> nat \<Rightarrow> bytes list \<Rightarrow> bool \<times> bytes" where
  "zip_write_loop z name k [] = (True, [])"
| "zip_write_loop z name k (c # cs) =
     (if zipWrite_ok z name k then (let (ok, bs) = zip_write_loop z name (k + 1) cs in (ok, c @ bs)) else (False, []))"

definition CopyZipEntry ::
  "('z, 'f) unz \<Rightarrow> zipw \<Rightarrow> 'f \<Rightarrow> string \<Rightarrow> bytes option \<Rightarrow> (string \<times> bytes) list \<Rightarrow> bool \<times> (string \<times> bytes) list" where
  "CopyZipEntry u z f name overrideData dst =
     (if \<not> zipOpenNewFile_ok z name then (False, dst)
      else
        (case overrideData of
           Some d \<Rightarrow> if zipWrite_ok z name 0 then (True, dst @ [(name, d)]) else (False, dst @ [(name, [])])
         | None \<Rightarrow>
             if \<not> unzOpenCurrentFile u f then (False, dst @ [(name, [])])
             else
               (let (chunks, n) = unzReadChunks u f kZipBufSize;
                    (ok, bs) = zip_write_loop z name 0 chunks
                in (ok \<and> \<not> n < 0, dst @ [(name, bs)]))))"

definition is_icon :: "string \<Rightarrow> bool" where
  "is_icon entryName \<longleftrightarrow> entryName = ''resources/base/media/icon.png'' \<or> entryName = ''resources/base/media/app_icon.png''"

fun hap_loop ::
  "('z, 'f) unz \<Rightarrow> zipw \<Rightarrow> bytes \<Rightarrow> 'f list \<Rightarrow> (string \<times> bytes) list \<Rightarrow> bool \<times> (string \<times> bytes) list" where
  "hap_loop u z apkIconBytes [] dst = (True, dst)"
| "hap_loop u z apkIconBytes (f # files) dst =
     (case unzCurrentName u f of
        None \<Rightarrow> (False, dst)
      | Some entryName \<Rightarrow>
          (let overrideData = (if apkIconBytes \<noteq> [] \<and> is_icon entryName then Some apkIconBytes else None);
               (ok, dst) = CopyZipEntry u z f entryName overrideData dst in
           if \<not> ok then (False, dst) else hap_loop u z apkIconBytes files dst))"

definition ExtractAndPackResourceHap ::
  "inst_env \<Rightarrow> ('z, 'f) unz \<Rightarrow> zipw \<Rightarrow> bytes \<Rightarrow> string \<Rightarrow> string \<Rightarrow> fs \<Rightarrow> bool \<times> fs" where
  "ExtractAndPackResourceHap e u z template_hap srcApkPath outHapPath s =
     (let (_, apkIconBytes) = ReadApkLauncherIcon u srcApkPath [];
          templateTmp = outHapPath @ ''.template.tmp'' in
      if \<not> open_ok e templateTmp then (False, s)
      else
        (let (_, written) = write_chunks e templateTmp 0 [template_hap];
             s = close_stream e templateTmp written s in
         case unzOpen u templateTmp of
           None \<Rightarrow> (False, unlink templateTmp s)
         | Some src \<Rightarrow>
             if \<not> zipOpen_ok z outHapPath then (False, unlink templateTmp s)
             else
               (let (ok, entries) = hap_loop u z apkIconBytes (unzFiles u src) [];
                    s = s\<lparr>fs_files := (fs_files s)(outHapPath \<mapsto> zip_encode z entries)\<rparr>;
                    s = unlink templateTmp s in
                if \<not> ok then (False, unlink outHapPath s)
                else (True, snd (chmod e outHapPath (octal 6 4 4) s)))))"

section \<open>Streams and directories\<close>

lemma concat_blocks: "0 < n \<Longrightarrow> concat (blocks n bs) = bs"
  by (induction n bs rule: blocks.induct) (subst blocks.simps, auto)

lemma write_chunks_True: "write_chunks e p k cs = (True, bs) \<Longrightarrow> bs = concat cs"
  by (induction cs arbitrary: k bs) (auto split: if_splits prod.splits)

lemma write_chunks_ok: "fst (write_chunks e p k cs) \<longleftrightarrow> (\<forall>i<length cs. write_ok e p (k + i))"
proof (induction cs arbitrary: k)
  case (Cons c cs)
  have "(\<forall>i<length (c # cs). write_ok e p (k + i)) \<longleftrightarrow> write_ok e p k \<and> (\<forall>i<length cs. write_ok e p (k + 1 + i))"
    by (auto simp: less_Suc_eq_0_disj)
  then show ?case using Cons [of "k + 1"] by (auto split: prod.splits)
qed simp

text \<open>System calls that touch no file contents.\<close>

lemma chmod_files [simp]: "fs_files (snd (chmod e p m s)) = fs_files s"
  by (simp add: chmod_def)

lemma chown_files [simp]: "fs_files (snd (chown e p u g s)) = fs_files s"
  by (simp add: chown_def)

lemma Mkdir_files [simp]: "fs_files (snd (MkdirRecursive e p s)) = fs_files s"
  by (simp add: MkdirRecursive_def)

lemma Mkdir_ok [simp]: "fst (MkdirRecursive e p s) = ForceCreateDirectory e p"
  by (simp add: MkdirRecursive_def)

lemma SetPermissions_files [simp]: "fs_files (snd (SetPermissions e p u g m s)) = fs_files s"
  by (simp add: SetPermissions_def chmod_def chown_def Let_def)

lemma CreateInstallDirs_spec:
  "fst (CreateInstallDirs e pkg s) \<longleftrightarrow> (\<forall>d \<in> {[], ''/lib'', ''/oat''}. ForceCreateDirectory e (ANDROID_INSTALL_DIR @ ''/'' @ pkg @ d))"
  "fs_files (snd (CreateInstallDirs e pkg s)) = fs_files s"
  by (auto simp: CreateInstallDirs_def Let_def MkdirRecursive_def split: prod.splits)

lemma data_dirs_loop_spec:
  "(fst (data_dirs_loop e b u g ds s) \<longleftrightarrow> (\<forall>d \<in> set ds. ForceCreateDirectory e (b @ fst d)))
   \<and> fs_files (snd (data_dirs_loop e b u g ds s)) = fs_files s"
proof (induction ds arbitrary: s)
  case (Cons d ds)
  show ?case
  proof (cases "ForceCreateDirectory e (b @ fst d)")
    case True
    then show ?thesis using Cons.IH
      by (cases d) (simp add: Let_def split_beta)
  next
    case False
    then show ?thesis by (cases d) (simp add: Let_def split_beta)
  qed
qed simp

section \<open>Choice of the ABI\<close>

lemma abi_entry_loop_iff:
  "abi_entry_loop u prefix fs \<longleftrightarrow> (\<exists>f \<in> set fs. \<exists>n. unzCurrentName u f = Some n \<and> has_prefix prefix n)"
  by (induction fs) (auto split: option.splits)

lemma abi_loop_find:
  "abi_loop u zf abis = (case find (\<lambda>abi. abi_entry_loop u (lib_prefix abi) (unzFiles u zf)) abis of None \<Rightarrow> [] | Some a \<Rightarrow> a)"
proof -
  have none: "find (\<lambda>_. False) xs = None" for xs :: "string list" by (induction xs) simp_all
  show ?thesis by (induction abis) (auto simp: none)
qed

lemma SelectPrimaryAbi_open: "SelectPrimaryAbi u p \<noteq> [] \<Longrightarrow> \<exists>zf. unzOpen u p = Some zf"
  by (auto simp: SelectPrimaryAbi_def split: option.splits)

section \<open>Native libraries\<close>

text \<open>The library that an archive entry is extracted to, and the entries that are extracted.\<close>

definition lib_of :: "inst_env \<Rightarrow> ('z, 'f) unz \<Rightarrow> string \<Rightarrow> string \<Rightarrow> 'f \<Rightarrow> string option" where
  "lib_of e u libDir prefix f = do {
     n \<leftarrow> unzCurrentName u f;
     let so = drop (length prefix) n;
     if has_prefix prefix n \<and> so \<noteq> [] \<and> CHR ''/'' \<notin> set so \<and> unzOpenCurrentFile u f \<and> open_ok e (libDir @ ''/'' @ so)
     then Some (libDir @ ''/'' @ so) else None }"

definition lib_bytes :: "inst_env \<Rightarrow> ('z, 'f) unz \<Rightarrow> string \<Rightarrow> 'f \<Rightarrow> bytes" where
  "lib_bytes e u p f = (let bs = snd (write_chunks e p 0 (fst (unzReadChunks u f COPY_BUFFER_SIZE)))
     in take (length bs - unflushed e p) bs)"

lemma extract_entry_files:
  "fs_files (extract_entry e u libDir prefix f s)
     = (case lib_of e u libDir prefix f of None \<Rightarrow> fs_files s | Some p \<Rightarrow> (fs_files s)(p \<mapsto> lib_bytes e u p f))"
  by (auto simp: extract_entry_def lib_of_def lib_bytes_def Let_def close_stream_def split_beta not_le split: option.splits)

lemma extract_loop_other:
  "(\<And>f. f \<in> set fs \<Longrightarrow> lib_of e u libDir prefix f \<noteq> Some p) \<Longrightarrow> fs_files (extract_loop e u libDir prefix fs s) p = fs_files s p"
  by (induction fs arbitrary: s) (auto simp: extract_entry_files split: option.splits)

lemma extract_loop_append:
  "extract_loop e u libDir prefix (xs @ ys) s = extract_loop e u libDir prefix ys (extract_loop e u libDir prefix xs s)"
  by (induction xs arbitrary: s) simp_all

lemma extract_loop_lib:
  assumes "fs = xs @ f # ys" "lib_of e u libDir prefix f = Some p" "\<And>g. g \<in> set ys \<Longrightarrow> lib_of e u libDir prefix g \<noteq> Some p"
  shows "fs_files (extract_loop e u libDir prefix fs s) p = Some (lib_bytes e u p f)"
proof -
  have "fs_files (extract_loop e u libDir prefix ys t) p = fs_files t p" for t
    by (rule extract_loop_other [OF assms(3)])
  then show ?thesis unfolding assms(1) extract_loop_append by (simp add: extract_entry_files assms(2))
qed

lemma lib_of_path: "lib_of e u libDir prefix f = Some p \<Longrightarrow> \<exists>so. p = libDir @ ''/'' @ so \<and> so \<noteq> [] \<and> CHR ''/'' \<notin> set so"
  by (auto simp: lib_of_def Let_def bind_eq_Some_conv split: if_splits)

lemma ExtractNativeLibs_spec:
  "fst (ExtractNativeLibs e u apk libDir abi s) \<longleftrightarrow> unzOpen u apk \<noteq> None"
  "unzOpen u apk = Some zf \<Longrightarrow> fs_files (snd (ExtractNativeLibs e u apk libDir abi s))
     = fs_files (extract_loop e u libDir (lib_prefix abi) (unzFiles u zf) (snd (MkdirRecursive e libDir s)))"
  "fs_files (snd (ExtractNativeLibs e u apk libDir abi s)) p \<noteq> fs_files s p
     \<Longrightarrow> \<exists>so. p = libDir @ ''/'' @ so \<and> so \<noteq> [] \<and> CHR ''/'' \<notin> set so"
  by (auto simp: ExtractNativeLibs_def Let_def split: option.splits)
    (metis Mkdir_files extract_loop_other lib_of_path append_Cons append_Nil)

section \<open>Copy\<close>

definition copy_ok :: "inst_env \<Rightarrow> string \<Rightarrow> bytes \<Rightarrow> bool" where
  "copy_ok e dst content \<longleftrightarrow> open_ok e dst \<and> (\<forall>i < length (blocks COPY_BUFFER_SIZE content). write_ok e dst i)"

lemma CopyApk_spec:
  assumes "src \<noteq> dst"
  shows "fst (CopyApk e src dst s) \<longleftrightarrow> (\<exists>c. fs_files s src = Some c \<and> copy_ok e dst c)"
    and "p \<noteq> dst \<Longrightarrow> fs_files (snd (CopyApk e src dst s)) p = fs_files s p"
    and "fst (CopyApk e src dst s) \<Longrightarrow> fs_files (snd (CopyApk e src dst s)) dst
      = map_option (\<lambda>c. take (length c - unflushed e dst) c) (fs_files s src)"
proof -
  have wc: "fst (write_chunks e dst 0 (blocks COPY_BUFFER_SIZE c)) \<Longrightarrow> snd (write_chunks e dst 0 (blocks COPY_BUFFER_SIZE c)) = c" for c
    using write_chunks_True [of e dst 0 "blocks COPY_BUFFER_SIZE c"] concat_blocks [of COPY_BUFFER_SIZE c]
    by (cases "write_chunks e dst 0 (blocks COPY_BUFFER_SIZE c)") (simp add: COPY_BUFFER_SIZE_def)
  have ok: "fst (write_chunks e dst 0 (blocks COPY_BUFFER_SIZE c)) \<longleftrightarrow> (\<forall>i < length (blocks COPY_BUFFER_SIZE c). write_ok e dst i)" for c
    by (simp add: write_chunks_ok)
  show "fst (CopyApk e src dst s) \<longleftrightarrow> (\<exists>c. fs_files s src = Some c \<and> copy_ok e dst c)"
    using assms by (auto simp: CopyApk_def Let_def split_beta ok copy_ok_def split: option.splits)
  show "p \<noteq> dst \<Longrightarrow> fs_files (snd (CopyApk e src dst s)) p = fs_files s p"
    by (auto simp: CopyApk_def Let_def split_beta close_stream_def split: option.splits)
  show "fst (CopyApk e src dst s) \<Longrightarrow> fs_files (snd (CopyApk e src dst s)) dst
      = map_option (\<lambda>c. take (length c - unflushed e dst) c) (fs_files s src)"
    using assms wc by (auto simp: CopyApk_def Let_def split_beta close_stream_def split: option.splits if_splits)
qed

section \<open>Deployment\<close>

definition install_dir :: "string \<Rightarrow> string" where
  "install_dir pkg = ANDROID_INSTALL_DIR @ ''/'' @ pkg"

definition base_apk :: "string \<Rightarrow> string" where
  "base_apk pkg = install_dir pkg @ ''/base.apk''"

definition lib_dir :: "('z, 'f) unz \<Rightarrow> string \<Rightarrow> string" where
  "lib_dir u pkg = install_dir pkg @ ''/lib/'' @ SelectPrimaryAbi u (base_apk pkg)"

definition deploy_ok :: "inst_env \<Rightarrow> string \<Rightarrow> string \<Rightarrow> fs \<Rightarrow> bool" where
  "deploy_ok e src pkg s \<longleftrightarrow>
     (\<forall>d \<in> {[], ''/lib'', ''/oat''}. ForceCreateDirectory e (install_dir pkg @ d))
     \<and> (\<exists>c. fs_files s src = Some c \<and> copy_ok e (base_apk pkg) c)
     \<and> (\<forall>d \<in> set data_dirs. ForceCreateDirectory e (ANDROID_DATA_DIR @ ''/'' @ pkg @ fst d))"

lemma CreateDataDirs_spec:
  "fst (CreateDataDirs e pkg uid gid s) \<longleftrightarrow> (\<forall>d \<in> set data_dirs. ForceCreateDirectory e (ANDROID_DATA_DIR @ ''/'' @ pkg @ fst d))"
  "fs_files (snd (CreateDataDirs e pkg uid gid s)) = fs_files s"
  using data_dirs_loop_spec [of e "ANDROID_DATA_DIR @ ''/'' @ pkg" uid gid data_dirs s]
  by (simp_all add: CreateDataDirs_def Let_def split_beta)

text \<open>The state after the libraries were extracted.\<close>

definition libs_extracted :: "inst_env \<Rightarrow> ('z, 'f) unz \<Rightarrow> string \<Rightarrow> fs \<Rightarrow> fs" where
  "libs_extracted e u pkg s = (if SelectPrimaryAbi u (base_apk pkg) \<noteq> []
     then snd (ExtractNativeLibs e u (base_apk pkg) (lib_dir u pkg) (SelectPrimaryAbi u (base_apk pkg)) s) else s)"

lemma DeployApk_cases:
  fixes e u src pkg uid gid s
  defines "r \<equiv> fst (DeployApk e u src pkg uid gid s)"
    and "s1 \<equiv> snd (CreateInstallDirs e pkg s)"
    and "abi \<equiv> SelectPrimaryAbi u (base_apk pkg)"
  defines "s2 \<equiv> snd (CopyApk e src (base_apk pkg) s1)"
  shows "\<not> fst (CreateInstallDirs e pkg s) \<Longrightarrow> \<not> success r \<and> inst_errorMsg r \<noteq> []
      \<and> fs_files (snd (DeployApk e u src pkg uid gid s)) = fs_files s"
    and "fst (CreateInstallDirs e pkg s) \<Longrightarrow> \<not> fst (CopyApk e src (base_apk pkg) s1) \<Longrightarrow> \<not> success r \<and> inst_errorMsg r \<noteq> []
      \<and> fs_files (snd (DeployApk e u src pkg uid gid s)) = fs_files s2"
    and "fst (CreateInstallDirs e pkg s) \<Longrightarrow> fst (CopyApk e src (base_apk pkg) s1)
      \<Longrightarrow> (success r \<longleftrightarrow> (\<forall>d \<in> set data_dirs. ForceCreateDirectory e (ANDROID_DATA_DIR @ ''/'' @ pkg @ fst d)))
      \<and> (success r \<or> inst_errorMsg r \<noteq> []) \<and> installedApkPath r = base_apk pkg
      \<and> nativeLibPath r = (if abi = [] then [] else lib_dir u pkg)
      \<and> oatDir r = (if RunDexOpt e (base_apk pkg) (install_dir pkg @ ''/oat/arm64'') uid ''arm64'' ''speed''
          then install_dir pkg @ ''/oat/arm64'' else [])
      \<and> fs_files (snd (DeployApk e u src pkg uid gid s)) = fs_files (libs_extracted e u pkg s2)"
proof -
  have ex: "abi \<noteq> [] \<Longrightarrow> fst (ExtractNativeLibs e u (base_apk pkg) d a t)" for d a t
    using SelectPrimaryAbi_open unfolding abi_def ExtractNativeLibs_spec(1) by fastforce
  have d: "DeployApk e u src pkg uid gid s =
     (if \<not> fst (CreateInstallDirs e pkg s) then (new_InstallResult\<lparr>inst_errorMsg := ''Failed to create installation directories''\<rparr>, s1)
      else if \<not> fst (CopyApk e src (base_apk pkg) s1) then (new_InstallResult\<lparr>inst_errorMsg := ''Failed to copy APK file''\<rparr>, s2)
      else
        (let result = new_InstallResult\<lparr>installedApkPath := base_apk pkg\<rparr>;
             result = (if abi \<noteq> [] then result\<lparr>nativeLibPath := lib_dir u pkg\<rparr> else result);
             oat = install_dir pkg @ ''/oat/arm64'';
             s4 = snd (MkdirRecursive e oat (libs_extracted e u pkg s2));
             result = (if RunDexOpt e (base_apk pkg) oat uid ''arm64'' ''speed'' then result\<lparr>oatDir := oat\<rparr> else result);
             (ok, s5) = CreateDataDirs e pkg uid gid s4 in
         if \<not> ok then (result\<lparr>inst_errorMsg := ''Failed to create data directories''\<rparr>, s5)
         else (result\<lparr>success := True\<rparr>, snd (SetPermissions e (install_dir pkg) uid gid (octal 7 5 5) s5))))"
    using ex [of "lib_dir u pkg" abi s2]
    by (simp add: DeployApk_def Let_def split_beta s1_def s2_def abi_def libs_extracted_def install_dir_def base_apk_def lib_dir_def)
  show "\<not> fst (CreateInstallDirs e pkg s) \<Longrightarrow> \<not> success r \<and> inst_errorMsg r \<noteq> []
      \<and> fs_files (snd (DeployApk e u src pkg uid gid s)) = fs_files s"
    by (simp add: r_def d new_InstallResult_def s1_def CreateInstallDirs_spec)
  show "fst (CreateInstallDirs e pkg s) \<Longrightarrow> \<not> fst (CopyApk e src (base_apk pkg) s1) \<Longrightarrow> \<not> success r \<and> inst_errorMsg r \<noteq> []
      \<and> fs_files (snd (DeployApk e u src pkg uid gid s)) = fs_files s2"
    by (simp add: r_def d new_InstallResult_def)
  assume "fst (CreateInstallDirs e pkg s)" "fst (CopyApk e src (base_apk pkg) s1)"
  then show "(success r \<longleftrightarrow> (\<forall>d \<in> set data_dirs. ForceCreateDirectory e (ANDROID_DATA_DIR @ ''/'' @ pkg @ fst d)))
      \<and> (success r \<or> inst_errorMsg r \<noteq> []) \<and> installedApkPath r = base_apk pkg
      \<and> nativeLibPath r = (if abi = [] then [] else lib_dir u pkg)
      \<and> oatDir r = (if RunDexOpt e (base_apk pkg) (install_dir pkg @ ''/oat/arm64'') uid ''arm64'' ''speed''
          then install_dir pkg @ ''/oat/arm64'' else [])
      \<and> fs_files (snd (DeployApk e u src pkg uid gid s)) = fs_files (libs_extracted e u pkg s2)"
    by (simp add: r_def d Let_def split_beta CreateDataDirs_spec new_InstallResult_def)
qed

lemma libs_extracted_other:
  assumes "fs_files (libs_extracted e u pkg s) p \<noteq> fs_files s p"
  shows "\<exists>so. p = lib_dir u pkg @ ''/'' @ so \<and> so \<noteq> [] \<and> CHR ''/'' \<notin> set so"
  using assms ExtractNativeLibs_spec(3) [of e u "base_apk pkg" "lib_dir u pkg" "SelectPrimaryAbi u (base_apk pkg)" s p]
  by (simp add: libs_extracted_def split: if_splits)

lemma libs_not_base: "base_apk pkg \<noteq> lib_dir u pkg @ ''/'' @ so"
  by (simp add: base_apk_def lib_dir_def)

lemma deploy_success_iff:
  assumes "src \<noteq> base_apk pkg"
  shows "success (fst (DeployApk e u src pkg uid gid s)) \<longleftrightarrow> deploy_ok e src pkg s"
proof -
  have "fst (CreateInstallDirs e pkg s) \<longleftrightarrow> (\<forall>d \<in> {[], ''/lib'', ''/oat''}. ForceCreateDirectory e (install_dir pkg @ d))"
    by (simp add: CreateInstallDirs_spec install_dir_def)
  moreover have "fst (CopyApk e src (base_apk pkg) (snd (CreateInstallDirs e pkg s)))
      \<longleftrightarrow> (\<exists>c. fs_files s src = Some c \<and> copy_ok e (base_apk pkg) c)"
    using CopyApk_spec(1) [OF assms] by (simp add: CreateInstallDirs_spec)
  ultimately show ?thesis using DeployApk_cases [where e = e and pkg = pkg and s = s and src = src and u = u and uid = uid and gid = gid] unfolding deploy_ok_def by blast
qed

lemma below_append [simp]: "below d (d @ CHR ''/'' # x)"
  by (simp add: below_def)

lemma DeployApk_files:
  assumes "fs_files (snd (DeployApk e u src pkg uid gid s)) p \<noteq> fs_files s p" "src \<noteq> base_apk pkg"
  shows "p = base_apk pkg \<or> (\<exists>so. p = lib_dir u pkg @ ''/'' @ so \<and> so \<noteq> [] \<and> CHR ''/'' \<notin> set so)"
proof (rule ccontr)
  assume n: "\<not> ?thesis"
  let ?s1 = "snd (CreateInstallDirs e pkg s)"
  note dc = DeployApk_cases [where e = e and pkg = pkg and s = s and src = src and u = u and uid = uid and gid = gid]
  have "fs_files (snd (CopyApk e src (base_apk pkg) ?s1)) p = fs_files s p"
    using CopyApk_spec(2) [OF assms(2)] n by (simp add: CreateInstallDirs_spec)
  moreover have "fs_files (libs_extracted e u pkg t) p = fs_files t p" for t
    using libs_extracted_other [of e u pkg t p] n by blast
  ultimately show False using dc assms(1) by metis
qed

lemma DeployApk_confined:
  assumes "\<not> below (install_dir pkg) p" "src \<noteq> base_apk pkg"
  shows "fs_files (snd (DeployApk e u src pkg uid gid s)) p = fs_files s p"
proof (rule ccontr)
  assume "\<not> ?thesis"
  from DeployApk_files [OF this assms(2)] show False using assms(1) by (auto simp: base_apk_def lib_dir_def)
qed

lemma DeployApk_base:
  assumes "success (fst (DeployApk e u src pkg uid gid s))" "src \<noteq> base_apk pkg"
  shows "fs_files (snd (DeployApk e u src pkg uid gid s)) (base_apk pkg)
    = map_option (\<lambda>c. take (length c - unflushed e (base_apk pkg)) c) (fs_files s src)"
proof -
  let ?s1 = "snd (CreateInstallDirs e pkg s)"
  note dc = DeployApk_cases [where e = e and pkg = pkg and s = s and src = src and u = u and uid = uid and gid = gid]
  have ok: "fst (CreateInstallDirs e pkg s)" "fst (CopyApk e src (base_apk pkg) ?s1)" using dc(1,2) assms(1) by blast+
  have "fs_files (libs_extracted e u pkg t) (base_apk pkg) = fs_files t (base_apk pkg)" for t
    using libs_extracted_other [of e u pkg t "base_apk pkg"] libs_not_base by blast
  then show ?thesis using dc(3) [OF ok] CopyApk_spec(3) [OF assms(2) ok(2)] by (simp add: CreateInstallDirs_spec)
qed

text \<open>An archive with one 64-bit library, and a system on which every call succeeds.\<close>

definition good_env :: inst_env where
  "good_env = \<lparr>ForceCreateDirectory = (\<lambda>_. True), ForceRemoveDirectory = (\<lambda>_. True), open_ok = (\<lambda>_. True), write_ok = (\<lambda>_ _. True),
     unflushed = (\<lambda>_. 0), chmod_ok = (\<lambda>_. True), chown_ok = (\<lambda>_. True), fork_ok = True, dex2oat = (\<lambda>_ _. Some 0)\<rparr>"

definition one_lib :: "(unit, unit) unz" where
  "one_lib = \<lparr>unzOpen = (\<lambda>_. Some ()), unzLocateFile = (\<lambda>_ _. None), unzFiles = (\<lambda>_. [()]),
     unzCurrentName = (\<lambda>_. Some ''lib/arm64-v8a/libx.so''), unzCurrentSize = (\<lambda>_. Some 2), unzOpenCurrentFile = (\<lambda>_. True),
     unzReadCurrentFile = (\<lambda>_ _. (2, [1, 2])), unzReadChunks = (\<lambda>_ _. ([[1, 2]], 0))\<rparr>"

definition one_file :: fs where
  "one_file = \<lparr>fs_files = [''/tmp/a.apk'' \<mapsto> [80, 75]], fs_dirs = {}, fs_mode = Map.empty, fs_owner = Map.empty\<rparr>"



text \<open>
  C36 (deploy_remove_roundtrip): a successful removal after a deployment, successful or not, leaves
  every file outside the three directories of the package as it was before and none inside them.
\<close>

theorem deploy_remove_roundtrip:
  assumes "src \<noteq> base_apk pkg" "RemoveApk e pkg (snd (DeployApk e' u src pkg uid gid s)) = (True, s')"
  shows "fs_files s' p = (if below (install_dir pkg) p \<or> below (ANDROID_DATA_DIR @ ''/'' @ pkg) p \<or> below (ANDROID_EXT_DIR @ ''/'' @ pkg) p
    then None else fs_files s p)"
  using assms(2) DeployApk_confined [OF _ assms(1), of p e' u uid gid s]
  by (auto simp: RemoveApk_def remove_tree_def Let_def install_dir_def split: if_splits)

theorem deploy_remove_roundtrip_witness:
  "\<exists>s'. RemoveApk good_env ''com.x'' (snd (DeployApk good_env one_lib ''/tmp/a.apk'' ''com.x'' 10001 10001 one_file)) = (True, s')
    \<and> fs_files s' ''/data/app/android/com.x/base.apk'' = None \<and> fs_files s' ''/tmp/a.apk'' = Some [80, 75]"
proof -
  let ?t = "snd (DeployApk good_env one_lib ''/tmp/a.apk'' ''com.x'' 10001 10001 one_file)"
  obtain s' where r: "RemoveApk good_env ''com.x'' ?t = (True, s')"
    by (cases "RemoveApk good_env ''com.x'' ?t") (auto simp: RemoveApk_def remove_tree_def good_env_def Let_def)
  have "''/tmp/a.apk'' \<noteq> base_apk ''com.x''" by (simp add: base_apk_def install_dir_def ANDROID_INSTALL_DIR_def)
  from deploy_remove_roundtrip [OF this r] show ?thesis using r
    by (simp add: below_def install_dir_def ANDROID_INSTALL_DIR_def ANDROID_DATA_DIR_def ANDROID_EXT_DIR_def one_file_def)
qed

text \<open>
  C37 (native_libs_extracted): extraction writes, for an entry directly below the chosen ABI's
  directory that no later entry overwrites, the bytes that the archive and the stream deliver, and
  no file is written elsewhere than directly in the library directory, whatever the entry names
  are.
\<close>

theorem native_libs_extracted:
  assumes "ExtractNativeLibs e u apk libDir abi s = (True, s')" "unzOpen u apk = Some zf" "unzFiles u zf = xs @ f # ys"
    "lib_of e u libDir (lib_prefix abi) f = Some p" "\<And>g. g \<in> set ys \<Longrightarrow> lib_of e u libDir (lib_prefix abi) g \<noteq> Some p"
  shows "fs_files s' p = Some (lib_bytes e u p f) \<and> (\<exists>so. p = libDir @ ''/'' @ so \<and> CHR ''/'' \<notin> set so)
    \<and> (\<forall>q. fs_files s' q \<noteq> fs_files s q \<longrightarrow> (\<exists>so. q = libDir @ ''/'' @ so \<and> so \<noteq> [] \<and> CHR ''/'' \<notin> set so))"
proof -
  have "fs_files s' p = Some (lib_bytes e u p f)"
    using ExtractNativeLibs_spec(2) [OF assms(2), of e libDir abi s] extract_loop_lib [OF assms(3-5)] assms(1) by simp
  moreover have "\<exists>so. q = libDir @ ''/'' @ so \<and> so \<noteq> [] \<and> CHR ''/'' \<notin> set so" if "fs_files s' q \<noteq> fs_files s q" for q
    using ExtractNativeLibs_spec(3) [of e u apk libDir abi s q] that assms(1) by simp
  ultimately show ?thesis using lib_of_path [OF assms(4)] by blast
qed

theorem native_libs_extracted_witness:
  "\<exists>s'. ExtractNativeLibs good_env one_lib ''a'' ''/d'' ''arm64-v8a'' one_file = (True, s') \<and> fs_files s' ''/d/libx.so'' = Some [1, 2]"
proof -
  obtain s' where x: "ExtractNativeLibs good_env one_lib ''a'' ''/d'' ''arm64-v8a'' one_file = (True, s')"
    by (simp add: ExtractNativeLibs_def one_lib_def)
  have l: "lib_of good_env one_lib ''/d'' (lib_prefix ''arm64-v8a'') () = Some ''/d/libx.so''"
    by (simp add: lib_of_def one_lib_def has_prefix_def lib_prefix_def good_env_def Let_def)
  have b: "lib_bytes good_env one_lib ''/d/libx.so'' () = [1, 2]" by (simp add: lib_bytes_def good_env_def one_lib_def)
  show ?thesis
    using native_libs_extracted [OF x _ _ l, where zf = "()" and xs = "[]" and ys = "[]"] x b by (simp add: one_lib_def)
qed

section \<open>The resources HAP\<close>

lemma zip_write_loop_True: "zip_write_loop z n k cs = (True, bs) \<Longrightarrow> bs = concat cs"
  by (induction cs arbitrary: k bs) (auto split: if_splits prod.splits)

definition hap_content :: "('z, 'f) unz \<Rightarrow> bytes \<Rightarrow> string \<Rightarrow> 'f \<Rightarrow> bytes" where
  "hap_content u icon name f = (if icon \<noteq> [] \<and> is_icon name then icon else concat (fst (unzReadChunks u f kZipBufSize)))"

definition hap_entry :: "('z, 'f) unz \<Rightarrow> bytes \<Rightarrow> 'f \<Rightarrow> string \<times> bytes" where
  "hap_entry u icon f = (the (unzCurrentName u f), hap_content u icon (the (unzCurrentName u f)) f)"

lemma CopyZipEntry_True:
  "CopyZipEntry u z f name d dst = (True, dst') \<Longrightarrow>
     dst' = dst @ [(name, case d of Some x \<Rightarrow> x | None \<Rightarrow> concat (fst (unzReadChunks u f kZipBufSize)))]"
  by (auto simp: CopyZipEntry_def Let_def split: if_splits option.splits prod.splits dest: zip_write_loop_True)

lemma hap_loop_True:
  "hap_loop u z icon fs dst = (True, dst') \<Longrightarrow> dst' = dst @ map (hap_entry u icon) fs \<and> (\<forall>f \<in> set fs. unzCurrentName u f \<noteq> None)"
proof (induction fs arbitrary: dst)
  case (Cons f fs)
  obtain n where n: "unzCurrentName u f = Some n" using Cons.prems by (auto split: option.splits)
  let ?d = "if icon \<noteq> [] \<and> is_icon n then Some icon else None"
  obtain t where t: "CopyZipEntry u z f n ?d dst = (True, t)" "hap_loop u z icon fs t = (True, dst')"
    using Cons.prems n by (auto simp: Let_def split: prod.splits if_splits)
  have "t = dst @ [hap_entry u icon f]"
    using CopyZipEntry_True [OF t(1)] by (simp add: hap_entry_def hap_content_def n)
  then show ?case using Cons.IH [OF t(2)] n by simp
qed simp

definition template_tmp :: "string \<Rightarrow> string" where
  "template_tmp out = out @ ''.template.tmp''"

text \<open>
  Fact (resource_hap_contents): on success the synthesised archive has the template's entries in
  order, with both icon entries replaced by the bytes left in the icon buffer; on failure no
  partial archive stays behind; the temporary template is always removed and no other file is
  touched. The witness shows that the buffer may be a torn icon: an icon that could not be read
  whole still replaces the placeholder.
\<close>

theorem resource_hap_contents:
  assumes "ExtractAndPackResourceHap e u z tmpl apk out s = (ok, s')"
  shows "(ok \<longrightarrow> (\<exists>src. unzOpen u (template_tmp out) = Some src
        \<and> fs_files s' out = Some (zip_encode z (map (hap_entry u (snd (ReadApkLauncherIcon u apk []))) (unzFiles u src)))))
    \<and> (\<not> ok \<longrightarrow> fs_files s' out \<in> {None, fs_files s out})
    \<and> (open_ok e (template_tmp out) \<longrightarrow> fs_files s' (template_tmp out) = None)
    \<and> (\<forall>p. p \<noteq> out \<longrightarrow> p \<noteq> template_tmp out \<longrightarrow> fs_files s' p = fs_files s p)"
proof -
  have ne: "out \<noteq> out @ ''.template.tmp''" by simp
  have True: "hap_loop u z i fs [] = (True, es) \<Longrightarrow> es = map (hap_entry u i) fs" for i fs es
    using hap_loop_True [of u z i fs "[]" es] by simp
  show ?thesis
    using assms ne unfolding ExtractAndPackResourceHap_def template_tmp_def
    by (auto simp: Let_def close_stream_def unlink_def chmod_def split: prod.splits if_splits option.splits dest!: True)
qed

text \<open>An archive whose only icon cannot be read to its end, and a template with one icon.\<close>

definition torn_icon :: "(bool, bool) unz" where
  "torn_icon = \<lparr>unzOpen = (\<lambda>p. Some (p = ''a.apk'')), unzLocateFile = (\<lambda>z n. if z \<and> n = ''res/mipmap-hdpi-v4/ic_launcher.png'' then Some True else None),
     unzFiles = (\<lambda>z. [False]), unzCurrentName = (\<lambda>_. Some ''resources/base/media/icon.png''), unzCurrentSize = (\<lambda>_. Some 3),
     unzOpenCurrentFile = (\<lambda>_. True), unzReadCurrentFile = (\<lambda>_ _. (- 3, [137])), unzReadChunks = (\<lambda>_ _. ([[1, 2]], 0))\<rparr>"

definition good_zipw :: zipw where
  "good_zipw = \<lparr>zipOpen_ok = (\<lambda>_. True), zipOpenNewFile_ok = (\<lambda>_. True), zipWrite_ok = (\<lambda>_ _. True), zip_encode = (\<lambda>es. concat (map snd es))\<rparr>"

theorem resource_hap_contents_witness:
  "\<exists>s'. ExtractAndPackResourceHap good_env torn_icon good_zipw [0] ''a.apk'' ''o.hap'' one_file = (True, s')
     \<and> fst (ReadApkLauncherIcon torn_icon ''a.apk'' []) = False \<and> fs_files s' ''o.hap'' = Some [137, 0, 0]"
proof -
  have icon: "ReadApkLauncherIcon torn_icon ''a.apk'' [] = (False, [137, 0, 0])"
    by (simp add: ReadApkLauncherIcon_def torn_icon_def GetApkIconCandidates_def filled_def numeral_eq_Suc)
  have files: "unzOpen torn_icon p = Some (p = ''a.apk'')" "unzFiles torn_icon z = [False]" for p z by (simp_all add: torn_icon_def)
  have entry: "hap_entry torn_icon [137, 0, 0] False = (''resources/base/media/icon.png'', [137, 0, 0])"
    by (simp add: hap_entry_def hap_content_def torn_icon_def is_icon_def)
  have enc: "zip_encode good_zipw es = concat (map snd es)" for es by (simp add: good_zipw_def)
  obtain ok s' where x: "ExtractAndPackResourceHap good_env torn_icon good_zipw [0] ''a.apk'' ''o.hap'' one_file = (ok, s')"
    by (cases "ExtractAndPackResourceHap good_env torn_icon good_zipw [0] ''a.apk'' ''o.hap'' one_file")
  have ok using x by (auto simp: ExtractAndPackResourceHap_def Let_def good_env_def good_zipw_def files icon CopyZipEntry_def
      torn_icon_def is_icon_def split: prod.splits if_splits)
  then show ?thesis using resource_hap_contents [OF x] x
    by (auto simp: icon files entry enc)
qed

end
