(* ===== verification/InstallEntry.thy ===== *)
theory InstallEntry
  imports ApkManifest ApkInstaller
begin

text \<open>
  The C entry points that the bundle manager calls, \<open>package-manager/jni/oh_adapter_install_apk_c_entry.cpp\<close>:
  they compose the manifest parser with the installer. A null \<open>char*\<close> is \<open>None\<close>; the outer \<open>None\<close> of a
  result is a read outside the manifest. JSON values are a datatype; their serialisation
  (\<open>nlohmann::json::dump\<close>) is a parameter.
\<close>

section \<open>Definitions\<close>

definition hash_step :: "u32 \<Rightarrow> char \<Rightarrow> u32" where
  "hash_step h c = push_bit 5 h + h + word_of_nat (of_char c)"

definition hashUid :: "string \<Rightarrow> int" where
  "hashUid s = (let h = foldl hash_step 5381 s in 10000 + sint (h mod 10000))"

definition oh_adapter_install_apk ::
  "inst_env \<Rightarrow> ('z, 'f) unz \<Rightarrow> string option \<Rightarrow> int \<Rightarrow> fs \<Rightarrow> (int \<times> fs) option" where
  "oh_adapter_install_apk e u apkPath userId s =
     (case apkPath of
        None \<Rightarrow> Some (- 1, s)
      | Some path \<Rightarrow>
          if path = [] then Some (- 1, s)
          else do {
            (ok, manifest) \<leftarrow> Parse u path new_manifest;
            if \<not> ok then Some (- 2, s)
            else if md_packageName manifest = [] then Some (- 3, s)
            else
              (let uid = hashUid (md_packageName manifest);
                   gid = uid;
                   (result, s) = DeployApk e u path (md_packageName manifest) uid gid s
               in if \<not> success result then Some (- 4, s) else Some (0, s)) })"

datatype json = JStr string | JInt int | JBool bool | JArr "json list" | JObj "(string \<times> json) list"

text \<open>The launch mode that is stored: single task and single instance become 0, all others 1.\<close>

definition oh_launchMode :: "int \<Rightarrow> int" where
  "oh_launchMode m = (if m = 2 \<or> m = 3 then 0 else 1)"

definition filter_actions :: "IntentFilterData list \<Rightarrow> string list" where
  "filter_actions filters = concat (map if_actions filters)"

definition filter_categories :: "IntentFilterData list \<Rightarrow> string list" where
  "filter_categories filters = concat (map if_categories filters)"

definition ability_json :: "ManifestData \<Rightarrow> ActivityData \<Rightarrow> json" where
  "ability_json manifest ability =
     JObj [(''name'', JStr (ac_name ability)),
       (''label'', JStr (if ac_label ability = [] then md_appLabel manifest else ac_label ability)),
       (''launchMode'', JInt (oh_launchMode (ac_launchMode ability))),
       (''screenOrientation'', JInt (ac_screenOrientation ability)),
       (''exported'', JBool (ac_exported ability)),
       (''actions'', JArr (map JStr (filter_actions (ac_intentFilters ability)))),
       (''categories'', JArr (map JStr (filter_categories (ac_intentFilters ability)))),
       (''isMainAbility'', JBool (''android.intent.action.MAIN'' \<in> set (filter_actions (ac_intentFilters ability))))]"

definition manifest_json :: "string \<Rightarrow> string \<Rightarrow> int \<Rightarrow> int \<Rightarrow> ManifestData \<Rightarrow> json" where
  "manifest_json path primaryAbi uid gid manifest =
     (let bundleRoot = ''/data/app/el1/bundle/public/'' @ md_packageName manifest;
          deployedDir = bundleRoot @ ''/android'';
          deployedApk = deployedDir @ ''/base.apk'' in
      JObj [(''bundleName'', JStr (md_packageName manifest)),
        (''versionCode'', JInt (md_versionCode manifest)),
        (''versionName'', JStr (md_versionName manifest)),
        (''appLabel'', JStr (if md_appLabel manifest = [] then md_packageName manifest else md_appLabel manifest)),
        (''appClassName'', JStr (md_appClassName manifest)),
        (''srcApkPath'', JStr path),
        (''deployedApkPath'', JStr deployedApk),
        (''deployedDir'', JStr deployedDir),
        (''bundleRoot'', JStr bundleRoot),
        (''entryHapPath'', JStr (bundleRoot @ ''/entry.hap'')),
        (''primaryAbi'', JStr primaryAbi),
        (''uid'', JInt uid),
        (''gid'', JInt gid),
        (''minSdkVersion'', JInt (md_minSdkVersion manifest)),
        (''targetSdkVersion'', JInt (md_targetSdkVersion manifest)),
        (''debuggable'', JBool (md_debuggable manifest)),
        (''abilities'', JArr (map (ability_json manifest) (md_activities manifest)))])"

text \<open>
  The second component is what is stored at the start of \<open>outJsonBuf\<close>, \<open>outJsonBuf\<close> itself \<open>None\<close> when null;
  \<open>static_cast<int>\<close> of the length is a signed 32-bit value.
\<close>

definition oh_adapter_install_apk_with_manifest ::
  "(json \<Rightarrow> string) \<Rightarrow> ('z, 'f) unz \<Rightarrow> string option \<Rightarrow> int \<Rightarrow> bool \<Rightarrow> int \<Rightarrow> (int \<times> bytes option) option" where
  "oh_adapter_install_apk_with_manifest dump u apkPath userId bufNonNull outJsonBufSize =
     (case apkPath of
        None \<Rightarrow> Some (- 1, None)
      | Some path \<Rightarrow>
          if path = [] then Some (- 1, None)
          else do {
            (ok, manifest) \<leftarrow> Parse u path new_manifest;
            if \<not> ok then Some (- 2, None)
            else if md_packageName manifest = [] then Some (- 3, None)
            else
              (let uid = hashUid (md_packageName manifest);
                   gid = uid;
                   primaryAbi = SelectPrimaryAbi u path in
               if \<not> bufNonNull \<or> outJsonBufSize \<le> 0 then Some (0, None)
               else
                 (let jsonStr = dump (manifest_json path primaryAbi uid gid manifest) in
                  if sint (word_of_nat (length jsonStr) :: u32) + 1 > outJsonBufSize then Some (- 5, None)
                  else Some (0, Some (bytes_of jsonStr @ [0])))) })"

definition oh_adapter_build_resources_hap ::
  "inst_env \<Rightarrow> ('z, 'f) unz \<Rightarrow> zipw \<Rightarrow> bytes \<Rightarrow> string option \<Rightarrow> string option \<Rightarrow> fs \<Rightarrow> int \<times> fs" where
  "oh_adapter_build_resources_hap e u z template_hap apkPath outHapPath s =
     (if apkPath = None \<or> apkPath = Some [] then (- 1, s)
      else if outHapPath = None \<or> outHapPath = Some [] then (- 2, s)
      else
        (let (ok, s) = ExtractAndPackResourceHap e u z template_hap (the apkPath) (the outHapPath) s
         in if \<not> ok then (- 3, s) else (0, s)))"

section \<open>User ids\<close>

lemma hashUid_range: "10000 \<le> hashUid s \<and> hashUid s < 20000"
proof -
  define h where "h = foldl hash_step 5381 s mod (10000 :: u32)"
  have u: "unat h < 10000" unfolding h_def by (simp add: unat_mod_distrib)
  have "sint h = int (unat h)" by (rule sint_unat) (use u in simp)
  moreover have "hashUid s = 10000 + sint h" by (simp add: hashUid_def h_def Let_def)
  moreover have "int (unat h) < 10000" "0 \<le> int (unat h)" using u by (simp_all only: of_nat_less_numeral_iff of_nat_0_le_iff)
  ultimately show ?thesis by linarith
qed

lemma hash_swap: "foldl hash_step h ''ab'' = foldl hash_step h ''bA''"
  by (simp add: hash_step_def push_bit_eq_mult algebra_simps)

section \<open>Installation\<close>

lemma Parse_named: "Parse u path m = Some (True, m') \<Longrightarrow> md_packageName m' \<noteq> []"
  by (auto simp: Parse_def ParseAXML_def Let_def bind_eq_Some_conv split: if_splits prod.splits)

text \<open>
  Fact (uid_collision): the derived user id always lies in the range from 10000 to 19999, and it
  separates neither all packages nor even similar names: swapping a letter pair such as
  \<open>ab\<close> for \<open>bA\<close> anywhere in a name keeps the id, so two packages share
  one user id.
\<close>

theorem uid_collision:
  "10000 \<le> hashUid s \<and> hashUid s < 20000 \<and> hashUid (pre @ ''ab'' @ suf) = hashUid (pre @ ''bA'' @ suf)"
proof -
  have "foldl hash_step 5381 (pre @ ''ab'' @ suf) = foldl hash_step 5381 (pre @ ''bA'' @ suf)"
    by (simp only: foldl_append hash_swap)
  then show ?thesis using hashUid_range [of s] by (simp only: hashUid_def)
qed

text \<open>
  C13 (install_entry_outcome): when the manifest is read within its bounds the entry point returns
  0, -1, -2 or -4 (never -3: a parsed manifest always names its package); up to -2 nothing has
  changed on disk, and beyond that the manifest was accepted, only the package's own install
  directory was touched, and 0 is returned exactly when deployment is possible, with
  \<open>base.apk\<close> holding the source.
\<close>

theorem install_entry_outcome:
  assumes "oh_adapter_install_apk e u (Some path) userId s = Some (rc, s')"
  shows "rc \<in> {0, - 1, - 2, - 4} \<and> (rc \<in> {- 1, - 2} \<longrightarrow> s' = s)
    \<and> (rc \<in> {0, - 4} \<longrightarrow> (\<exists>m. Parse u path new_manifest = Some (True, m) \<and> md_packageName m \<noteq> []
        \<and> (path \<noteq> base_apk (md_packageName m) \<longrightarrow>
             (rc = 0 \<longleftrightarrow> deploy_ok e path (md_packageName m) s)
           \<and> (\<forall>p. \<not> below (install_dir (md_packageName m)) p \<longrightarrow> fs_files s' p = fs_files s p)
           \<and> (rc = 0 \<longrightarrow> fs_files s' (base_apk (md_packageName m))
                = map_option (\<lambda>c. take (length c - unflushed e (base_apk (md_packageName m))) c) (fs_files s path)))))"
proof (cases "path = []")
  case True
  then show ?thesis using assms by (simp add: oh_adapter_install_apk_def)
next
  case False
  then obtain ok m where p: "Parse u path new_manifest = Some (ok, m)"
    using assms by (auto simp: oh_adapter_install_apk_def bind_eq_Some_conv)
  show ?thesis
  proof (cases ok)
    case False
    then show ?thesis using assms \<open>path \<noteq> []\<close> by (auto simp: oh_adapter_install_apk_def p)
  next
    case True
    let ?pkg = "md_packageName m"
    let ?uid = "hashUid ?pkg"
    have name: "?pkg \<noteq> []" using Parse_named [of u path new_manifest m] p True by simp
    have run: "s' = snd (DeployApk e u path ?pkg ?uid ?uid s)"
      "rc = (if success (fst (DeployApk e u path ?pkg ?uid ?uid s)) then 0 else - 4)"
      using assms True name \<open>path \<noteq> []\<close> by (auto simp: oh_adapter_install_apk_def p Let_def split: prod.splits if_splits)
    show ?thesis
      using deploy_success_iff [of path ?pkg e u ?uid ?uid s] DeployApk_confined [of ?pkg _ path e u ?uid ?uid s]
        DeployApk_base [of e u path ?pkg ?uid ?uid s] name True by (auto simp: run p)
  qed
qed

text \<open>An archive whose manifest is the sample document.\<close>

definition sample_apk :: "(unit, unit) unz" where
  "sample_apk = one_lib\<lparr>unzLocateFile := (\<lambda>_ _. Some ()), unzCurrentSize := (\<lambda>_. Some (length sample_manifest)),
     unzReadCurrentFile := (\<lambda>_ _. (int (length sample_manifest), sample_manifest))\<rparr>"

lemma sample_apk_parses: "\<exists>m. Parse sample_apk path new_manifest = Some (True, m) \<and> md_packageName m = ''a.b''"
proof -
  have "read_zip_entry sample_apk path ''AndroidManifest.xml'' [] = (True, sample_manifest)"
    by (rule read_zip_entry_intro) (auto simp: sample_apk_def one_lib_def)
  then show ?thesis using sample_manifest_parses by (simp add: Parse_def ExtractZipEntry_def)
qed

theorem install_entry_outcome_witness:
  "\<exists>s'. oh_adapter_install_apk good_env sample_apk (Some ''/tmp/a.apk'') 0 one_file = Some (0, s')
     \<and> fs_files s' ''/data/app/android/a.b/base.apk'' = Some [80, 75]"
proof -
  obtain m where m: "Parse sample_apk ''/tmp/a.apk'' new_manifest = Some (True, m)" "md_packageName m = ''a.b''"
    using sample_apk_parses by blast
  have "\<exists>y. oh_adapter_install_apk good_env sample_apk (Some ''/tmp/a.apk'') 0 one_file = Some y"
    by (simp add: oh_adapter_install_apk_def m Let_def split_beta)
  then obtain rc s' where x: "oh_adapter_install_apk good_env sample_apk (Some ''/tmp/a.apk'') 0 one_file = Some (rc, s')"
    by auto
  have rc: "rc \<in> {0, - 4}" using x by (auto simp: oh_adapter_install_apk_def m Let_def split: prod.splits if_splits)
  have b: "base_apk ''a.b'' = ''/data/app/android/a.b/base.apk''" by (simp add: base_apk_def install_dir_def ANDROID_INSTALL_DIR_def)
  have ok: "deploy_ok good_env ''/tmp/a.apk'' ''a.b'' one_file" by (simp add: deploy_ok_def good_env_def one_file_def copy_ok_def)
  have un: "unflushed good_env p = 0" "fs_files one_file ''/tmp/a.apk'' = Some [80, 75]" for p by (simp_all add: good_env_def one_file_def)
  from install_entry_outcome [OF x] rc have "rc = 0 \<and> fs_files s' ''/data/app/android/a.b/base.apk'' = Some [80, 75]"
    using ok by (auto simp: m b un)
  then show ?thesis using x by blast
qed

text \<open>
  Fact (manifest_json_delivered): whenever the entry point fills the caller's buffer it returns 0,
  and the buffer holds the serialised description of the parsed manifest with its terminator,
  within the size the caller passed.
\<close>

theorem manifest_json_delivered:
  assumes "oh_adapter_install_apk_with_manifest dump u (Some path) userId True n = Some (rc, Some buf)"
    "\<And>j. length (dump j) < 2 ^ 31"
  shows "\<exists>m. rc = 0 \<and> Parse u path new_manifest = Some (True, m) \<and> md_packageName m \<noteq> []
    \<and> buf = bytes_of (dump (manifest_json path (SelectPrimaryAbi u path) (hashUid (md_packageName m)) (hashUid (md_packageName m)) m)) @ [0]
    \<and> int (length buf) \<le> n"
proof -
  obtain ok m where p: "path \<noteq> []" "Parse u path new_manifest = Some (ok, m)"
    using assms(1) by (auto simp: oh_adapter_install_apk_with_manifest_def bind_eq_Some_conv split: if_splits)
  define j where "j = manifest_json path (SelectPrimaryAbi u path) (hashUid (md_packageName m)) (hashUid (md_packageName m)) m"
  have len: "sint (word_of_nat (length (dump j)) :: u32) = int (length (dump j))"
    using assms(2) [of j] by (subst sint_unat) (simp_all add: unat_of_nat32)
  have "ok \<and> md_packageName m \<noteq> [] \<and> rc = 0 \<and> buf = bytes_of (dump j) @ [0] \<and> int (length (dump j)) + 1 \<le> n"
    using assms(1) p len by (auto simp: oh_adapter_install_apk_with_manifest_def Let_def j_def split: if_splits)
  then show ?thesis using p by (auto simp: j_def)
qed

theorem manifest_json_delivered_witness:
  "\<exists>buf m. oh_adapter_install_apk_with_manifest (\<lambda>_. ''{}'') sample_apk (Some ''a'') 0 True 8 = Some (0, Some buf)
     \<and> Parse sample_apk ''a'' new_manifest = Some (True, m) \<and> buf = bytes_of ''{}'' @ [0]"
proof -
  obtain m where m: "Parse sample_apk ''a'' new_manifest = Some (True, m)" "md_packageName m = ''a.b''"
    using sample_apk_parses by blast
  then have "oh_adapter_install_apk_with_manifest (\<lambda>_. ''{}'') sample_apk (Some ''a'') 0 True 8 = Some (0, Some (bytes_of ''{}'' @ [0]))"
    by (simp add: oh_adapter_install_apk_with_manifest_def Let_def sint_unat)
  from manifest_json_delivered [OF this] this show ?thesis by auto
qed

end
