(* ===== verification/GraphicBuffer.thy ===== *)
theory GraphicBuffer
  imports Prelude "HOL-Library.Multiset"
begin

text \<open>
  The adapter from the Android buffer queue to the OpenHarmony surface: \<open>surface/jni/pixel_format_mapper.h\<close>
  and \<open>surface/jni/oh_graphic_buffer_producer.cpp\<close>. The surface and its buffers \<open>'b\<close> are outside the
  repository: each operation gets the answers of the surface (\<open>surface\<close>) as an argument. The state has,
  beside the members of the class, the multiset \<open>dup_fds\<close> of duplicated dmabuf descriptors that are open and
  the flag \<open>bad_close\<close>, set when a descriptor is closed that is not among them. Slot numbers are 32-bit words.
  The mutex only brackets the accesses to the slots and is left out.
\<close>

section \<open>Formats and usage flags\<close>

definition ANDROID_PIXEL_FORMAT_RGBA_8888 :: int where "ANDROID_PIXEL_FORMAT_RGBA_8888 = 1"
definition ANDROID_PIXEL_FORMAT_RGBX_8888 :: int where "ANDROID_PIXEL_FORMAT_RGBX_8888 = 2"
definition ANDROID_PIXEL_FORMAT_RGB_888 :: int where "ANDROID_PIXEL_FORMAT_RGB_888 = 3"
definition ANDROID_PIXEL_FORMAT_RGB_565 :: int where "ANDROID_PIXEL_FORMAT_RGB_565 = 4"
definition ANDROID_PIXEL_FORMAT_BGRA_8888 :: int where "ANDROID_PIXEL_FORMAT_BGRA_8888 = 5"
definition ANDROID_PIXEL_FORMAT_RGBA_1010102 :: int where "ANDROID_PIXEL_FORMAT_RGBA_1010102 = 43"
definition ANDROID_PIXEL_FORMAT_RGBA_FP16 :: int where "ANDROID_PIXEL_FORMAT_RGBA_FP16 = 22"

definition OH_PIXEL_FMT_RGBA_8888 :: int where "OH_PIXEL_FMT_RGBA_8888 = 12"
definition OH_PIXEL_FMT_RGBX_8888 :: int where "OH_PIXEL_FMT_RGBX_8888 = 11"
definition OH_PIXEL_FMT_RGB_888 :: int where "OH_PIXEL_FMT_RGB_888 = 13"
definition OH_PIXEL_FMT_RGB_565 :: int where "OH_PIXEL_FMT_RGB_565 = 3"
definition OH_PIXEL_FMT_BGRA_8888 :: int where "OH_PIXEL_FMT_BGRA_8888 = 20"
definition OH_PIXEL_FMT_RGBA_1010102 :: int where "OH_PIXEL_FMT_RGBA_1010102 = 34"
definition OH_PIXEL_FMT_RGBA_FP16 :: int where "OH_PIXEL_FMT_RGBA_FP16 = 39"

definition androidToOHPixelFormat :: "int \<Rightarrow> int" where
  "androidToOHPixelFormat f =
     (if f = ANDROID_PIXEL_FORMAT_RGBA_8888 then OH_PIXEL_FMT_RGBA_8888
      else if f = ANDROID_PIXEL_FORMAT_RGBX_8888 then OH_PIXEL_FMT_RGBX_8888
      else if f = ANDROID_PIXEL_FORMAT_RGB_888 then OH_PIXEL_FMT_RGB_888
      else if f = ANDROID_PIXEL_FORMAT_RGB_565 then OH_PIXEL_FMT_RGB_565
      else if f = ANDROID_PIXEL_FORMAT_BGRA_8888 then OH_PIXEL_FMT_BGRA_8888
      else if f = ANDROID_PIXEL_FORMAT_RGBA_1010102 then OH_PIXEL_FMT_RGBA_1010102
      else if f = ANDROID_PIXEL_FORMAT_RGBA_FP16 then OH_PIXEL_FMT_RGBA_FP16
      else OH_PIXEL_FMT_RGBA_8888)"

definition ohToAndroidPixelFormat :: "int \<Rightarrow> int" where
  "ohToAndroidPixelFormat f =
     (if f = OH_PIXEL_FMT_RGBA_8888 then ANDROID_PIXEL_FORMAT_RGBA_8888
      else if f = OH_PIXEL_FMT_RGBX_8888 then ANDROID_PIXEL_FORMAT_RGBX_8888
      else if f = OH_PIXEL_FMT_RGB_888 then ANDROID_PIXEL_FORMAT_RGB_888
      else if f = OH_PIXEL_FMT_RGB_565 then ANDROID_PIXEL_FORMAT_RGB_565
      else if f = OH_PIXEL_FMT_BGRA_8888 then ANDROID_PIXEL_FORMAT_BGRA_8888
      else if f = OH_PIXEL_FMT_RGBA_1010102 then ANDROID_PIXEL_FORMAT_RGBA_1010102
      else if f = OH_PIXEL_FMT_RGBA_FP16 then ANDROID_PIXEL_FORMAT_RGBA_FP16
      else ANDROID_PIXEL_FORMAT_RGBA_8888)"

definition ANDROID_USAGE_SW_READ_RARELY :: u64 where "ANDROID_USAGE_SW_READ_RARELY = 0x00000002"
definition ANDROID_USAGE_SW_READ_OFTEN :: u64 where "ANDROID_USAGE_SW_READ_OFTEN = 0x00000003"
definition ANDROID_USAGE_SW_WRITE_RARELY :: u64 where "ANDROID_USAGE_SW_WRITE_RARELY = 0x00000020"
definition ANDROID_USAGE_SW_WRITE_OFTEN :: u64 where "ANDROID_USAGE_SW_WRITE_OFTEN = 0x00000030"
definition ANDROID_USAGE_HW_TEXTURE :: u64 where "ANDROID_USAGE_HW_TEXTURE = 0x00000100"
definition ANDROID_USAGE_HW_RENDER :: u64 where "ANDROID_USAGE_HW_RENDER = 0x00000200"
definition ANDROID_USAGE_HW_COMPOSER :: u64 where "ANDROID_USAGE_HW_COMPOSER = 0x00000800"

definition OH_USAGE_CPU_READ :: u64 where "OH_USAGE_CPU_READ = push_bit 0 1"
definition OH_USAGE_CPU_WRITE :: u64 where "OH_USAGE_CPU_WRITE = push_bit 1 1"
definition OH_USAGE_MEM_DMA :: u64 where "OH_USAGE_MEM_DMA = push_bit 3 1"
definition OH_USAGE_MEM_SHARE :: u64 where "OH_USAGE_MEM_SHARE = push_bit 4 1"
definition OH_USAGE_HW_RENDER :: u64 where "OH_USAGE_HW_RENDER = push_bit 8 1"
definition OH_USAGE_HW_TEXTURE :: u64 where "OH_USAGE_HW_TEXTURE = push_bit 9 1"
definition OH_USAGE_HW_COMPOSER :: u64 where "OH_USAGE_HW_COMPOSER = push_bit 10 1"

text \<open>\<open>if (androidUsage & flag) ohUsage |= bits\<close>\<close>

definition add_usage :: "u64 \<Rightarrow> u64 \<Rightarrow> u64 \<Rightarrow> u64 \<Rightarrow> u64" where
  "add_usage androidUsage flag bits ohUsage = (if androidUsage AND flag \<noteq> 0 then ohUsage OR bits else ohUsage)"

definition androidToOHUsage :: "u64 \<Rightarrow> u64" where
  "androidToOHUsage a =
     (let o' = 0;
          o' = add_usage a ANDROID_USAGE_SW_READ_OFTEN OH_USAGE_CPU_READ o';
          o' = add_usage a ANDROID_USAGE_SW_READ_RARELY OH_USAGE_CPU_READ o';
          o' = add_usage a ANDROID_USAGE_SW_WRITE_OFTEN OH_USAGE_CPU_WRITE o';
          o' = add_usage a ANDROID_USAGE_SW_WRITE_RARELY OH_USAGE_CPU_WRITE o';
          o' = add_usage a ANDROID_USAGE_HW_TEXTURE OH_USAGE_HW_TEXTURE o';
          o' = add_usage a ANDROID_USAGE_HW_RENDER OH_USAGE_HW_RENDER o';
          o' = add_usage a ANDROID_USAGE_HW_COMPOSER OH_USAGE_HW_COMPOSER o';
          o' = (if o' AND (OH_USAGE_HW_RENDER OR OH_USAGE_HW_TEXTURE OR OH_USAGE_HW_COMPOSER) \<noteq> 0
                then o' OR OH_USAGE_MEM_DMA OR OH_USAGE_MEM_SHARE OR OH_USAGE_HW_COMPOSER OR OH_USAGE_HW_RENDER
                else o')
      in if o' = 0
         then OH_USAGE_HW_RENDER OR OH_USAGE_HW_TEXTURE OR OH_USAGE_HW_COMPOSER OR OH_USAGE_MEM_DMA OR OH_USAGE_MEM_SHARE
         else o')"

section \<open>The producer\<close>

record 'b BufferSlot =
  ohBuffer :: "'b option"
  ohSeqNum :: u32
  bs_width :: int
  bs_height :: int
  bs_format :: int
  dmabufFd :: int

record 'b producer =
  ohSurface :: bool
  bslots :: "(u32 \<times> 'b BufferSlot) list"
  nextSlot :: u32
  dup_fds :: "int multiset"
  bad_close :: bool

record BufferRequestConfig =
  rc_width :: int
  rc_height :: int
  strideAlignment :: int
  rc_format :: int
  rc_usage :: u64
  rc_timeout :: int

record BufferFlushConfig =
  damage_x :: int
  damage_y :: int
  damage_w :: int
  damage_h :: int
  fc_timestamp :: int

text \<open>
  The answers of the surface and of \<open>dup\<close>. \<open>GetBufferHandle\<close> is the descriptor of the handle, \<open>None\<close> without a
  handle; \<open>RequestBuffer\<close> also returns the descriptor of the release fence, \<open>None\<close> for an invalid fence.
\<close>

record 'b surface =
  RequestBuffer :: "BufferRequestConfig \<Rightarrow> int \<times> 'b option \<times> int option"
  FlushBuffer :: "'b \<Rightarrow> int option \<Rightarrow> BufferFlushConfig \<Rightarrow> int"
  CancelBuffer :: "'b \<Rightarrow> int"
  SetQueueSize :: "int \<Rightarrow> int"
  GetSeqNum :: "'b \<Rightarrow> u32"
  GetBufferHandle :: "'b \<Rightarrow> int option"
  GetWidth :: "'b \<Rightarrow> int"
  GetHeight :: "'b \<Rightarrow> int"
  GetStride :: "'b \<Rightarrow> int"
  GetVirAddr :: "'b \<Rightarrow> int"
  dup_result :: "int \<Rightarrow> int"

definition SURFACE_ERROR_OK :: int where "SURFACE_ERROR_OK = 0"

definition new_producer :: "bool \<Rightarrow> 'b producer" where
  "new_producer surf = \<lparr>ohSurface = surf, bslots = [], nextSlot = 0, dup_fds = {#}, bad_close = False\<rparr>"

definition erase_slot :: "u32 \<Rightarrow> (u32 \<times> 'b BufferSlot) list \<Rightarrow> (u32 \<times> 'b BufferSlot) list" where
  "erase_slot k xs = filter (\<lambda>p. fst p \<noteq> k) xs"

definition put_slot :: "u32 \<Rightarrow> 'b BufferSlot \<Rightarrow> (u32 \<times> 'b BufferSlot) list \<Rightarrow> (u32 \<times> 'b BufferSlot) list" where
  "put_slot k v xs = (k, v) # erase_slot k xs"

definition close_fd :: "int \<Rightarrow> 'b producer \<Rightarrow> 'b producer" where
  "close_fd fd s = s\<lparr>dup_fds := dup_fds s - {#fd#}, bad_close := bad_close s \<or> fd \<notin># dup_fds s\<rparr>"

definition close_if :: "int \<Rightarrow> 'b producer \<Rightarrow> 'b producer" where
  "close_if fd s = (if fd \<ge> 0 then close_fd fd s else s)"

definition toOHPixelFormat :: "int \<Rightarrow> int" where "toOHPixelFormat = androidToOHPixelFormat"
definition toOHUsage :: "u64 \<Rightarrow> u64" where "toOHUsage = androidToOHUsage"

text \<open>The result is the return value and what is stored in \<open>*outSlot\<close> and \<open>*outFenceFd\<close>, if anything.\<close>

definition dequeueBuffer ::
  "'b surface \<Rightarrow> int \<Rightarrow> int \<Rightarrow> int \<Rightarrow> u64 \<Rightarrow> 'b producer \<Rightarrow> int \<times> (u32 \<times> int) option \<times> 'b producer" where
  "dequeueBuffer S width height format usage s =
     (if \<not> ohSurface s then (- 1, None, s)
      else
        (let requestConfig = \<lparr>rc_width = width, rc_height = height, strideAlignment = 8, rc_format = toOHPixelFormat format,
               rc_usage = toOHUsage usage, rc_timeout = 0\<rparr>;
             (ret, buffer, releaseFence) = RequestBuffer S requestConfig in
         case buffer of
           None \<Rightarrow> (- ret, None, s)
         | Some b \<Rightarrow>
             if ret \<noteq> SURFACE_ERROR_OK then (- ret, None, s)
             else
               (let fd = (case GetBufferHandle S b of Some h \<Rightarrow> if h \<ge> 0 then dup_result S h else - 1 | None \<Rightarrow> - 1);
                    s = (if fd \<ge> 0 then s\<lparr>dup_fds := add_mset fd (dup_fds s)\<rparr> else s);
                    slot = nextSlot s;
                    s = s\<lparr>nextSlot := nextSlot s + 1\<rparr>;
                    s = (case map_of (bslots s) slot of Some old \<Rightarrow> close_if (dmabufFd old) s | None \<Rightarrow> s);
                    bufSlot = \<lparr>ohBuffer = Some b, ohSeqNum = GetSeqNum S b, bs_width = GetWidth S b, bs_height = GetHeight S b,
                      bs_format = format, dmabufFd = fd\<rparr>;
                    s = s\<lparr>bslots := put_slot slot bufSlot (bslots s)\<rparr>;
                    fenceFd = (case releaseFence of Some f \<Rightarrow> if f \<ge> 0 then dup_result S f else - 1 | None \<Rightarrow> - 1)
                in (0, Some (slot, fenceFd), s))))"

definition release_slot :: "u32 \<Rightarrow> 'b producer \<Rightarrow> 'b producer" where
  "release_slot slot s =
     (case map_of (bslots s) slot of
        None \<Rightarrow> s
      | Some b \<Rightarrow> (close_if (dmabufFd b) s)\<lparr>bslots := erase_slot slot (bslots s)\<rparr>)"

definition int32_sub :: "int \<Rightarrow> int \<Rightarrow> int" where
  "int32_sub a b = sint (word_of_int (a - b) :: u32)"

definition queueBuffer ::
  "'b surface \<Rightarrow> u32 \<Rightarrow> int \<Rightarrow> int \<Rightarrow> int \<Rightarrow> int \<Rightarrow> int \<Rightarrow> int \<Rightarrow> 'b producer \<Rightarrow> int \<times> 'b producer" where
  "queueBuffer S slot fenceFd timestamp cropLeft cropTop cropRight cropBottom s =
     (if \<not> ohSurface s then (- 1, s)
      else case map_of (bslots s) slot of
        None \<Rightarrow> (- 1, s)
      | Some entry \<Rightarrow>
          (case ohBuffer entry of
             None \<Rightarrow> (- 1, s)
           | Some b \<Rightarrow>
               (let flushConfig = \<lparr>damage_x = cropLeft, damage_y = cropTop, damage_w = int32_sub cropRight cropLeft,
                      damage_h = int32_sub cropBottom cropTop, fc_timestamp = timestamp\<rparr>;
                    acquireFence = (if fenceFd \<ge> 0 then Some fenceFd else None);
                    ret = FlushBuffer S b acquireFence flushConfig in
                if ret \<noteq> SURFACE_ERROR_OK then (- ret, s) else (0, release_slot slot s))))"

definition cancelBuffer :: "'b surface \<Rightarrow> u32 \<Rightarrow> int \<Rightarrow> 'b producer \<Rightarrow> int \<times> 'b producer" where
  "cancelBuffer S slot fenceFd s =
     (if \<not> ohSurface s then (- 1, s)
      else case map_of (bslots s) slot of
        None \<Rightarrow> (- 1, s)
      | Some entry \<Rightarrow>
          (case ohBuffer entry of
             None \<Rightarrow> (- 1, s)
           | Some b \<Rightarrow>
               (let ret = CancelBuffer S b in
                if ret \<noteq> SURFACE_ERROR_OK then (- ret, s) else (0, release_slot slot s))))"

definition getBufferFd :: "u32 \<Rightarrow> 'b producer \<Rightarrow> int" where
  "getBufferFd slot s = (case map_of (bslots s) slot of None \<Rightarrow> - 1 | Some b \<Rightarrow> dmabufFd b)"

definition getBufferAddr :: "'b surface \<Rightarrow> u32 \<Rightarrow> 'b producer \<Rightarrow> int option" where
  "getBufferAddr S slot s = do { e \<leftarrow> map_of (bslots s) slot; b \<leftarrow> ohBuffer e; Some (GetVirAddr S b) }"

definition getBufferInfo :: "'b surface \<Rightarrow> u32 \<Rightarrow> 'b producer \<Rightarrow> (int \<times> int \<times> int \<times> int) option" where
  "getBufferInfo S slot s = do {
     e \<leftarrow> map_of (bslots s) slot;
     let stride = (case ohBuffer e of Some b \<Rightarrow> GetStride S b | None \<Rightarrow> bs_width e);
     Some (bs_width e, bs_height e, stride, bs_format e) }"

text \<open>\<open>disconnect\<close> and the destructor close every cached descriptor and forget the slots.\<close>

definition disconnect :: "'b producer \<Rightarrow> int \<times> 'b producer" where
  "disconnect s = (0, (fold (\<lambda>p s. close_if (dmabufFd (snd p)) s) (bslots s) s)\<lparr>bslots := []\<rparr>)"

definition destroy :: "'b producer \<Rightarrow> 'b producer" where
  "destroy s = (fold (\<lambda>p s. close_if (dmabufFd (snd p)) s) (bslots s) s)\<lparr>bslots := []\<rparr>"

definition setBufferCount :: "'b surface \<Rightarrow> int \<Rightarrow> 'b producer \<Rightarrow> int" where
  "setBufferCount S count' s =
     (if \<not> ohSurface s then - 1
      else (let ret = SetQueueSize S count' in if ret \<noteq> SURFACE_ERROR_OK then - ret else 0))"

section \<open>Descriptors\<close>

definition slot_fds :: "(u32 \<times> 'b BufferSlot) list \<Rightarrow> int multiset" where
  "slot_fds xs = mset (filter (\<lambda>fd. fd \<ge> 0) (map (dmabufFd \<circ> snd) xs))"

text \<open>
  Every open duplicate belongs to a slot and every slot's descriptor is open, none was closed twice, and
  every slot holds a buffer.
\<close>

definition producer_ok :: "'b producer \<Rightarrow> bool" where
  "producer_ok s \<longleftrightarrow> distinct (map fst (bslots s)) \<and> dup_fds s = slot_fds (bslots s) \<and> \<not> bad_close s
     \<and> (\<forall>p \<in> set (bslots s). ohBuffer (snd p) \<noteq> None)"

lemma slot_fds_simps [simp]:
  "slot_fds [] = {#}"
  "slot_fds (p # xs) = (if dmabufFd (snd p) \<ge> 0 then add_mset (dmabufFd (snd p)) (slot_fds xs) else slot_fds xs)"
  by (simp_all add: slot_fds_def)

lemma erase_absent: "map_of xs k = None \<Longrightarrow> erase_slot k xs = xs"
  by (force simp: erase_slot_def filter_id_conv map_of_eq_None_iff)

lemma erase_keys: "distinct (map fst xs) \<Longrightarrow> distinct (map fst (erase_slot k xs))" "k \<notin> fst ` set (erase_slot k xs)"
  "set (erase_slot k xs) \<subseteq> set xs"
  by (auto simp: erase_slot_def distinct_map_filter)

lemma map_of_erase: "map_of (erase_slot k xs) = (map_of xs)(k := None)"
  unfolding erase_slot_def by (induction xs) auto

lemma slot_fds_erase:
  assumes "distinct (map fst xs)" "map_of xs k = Some b"
  shows "slot_fds xs = (if dmabufFd b \<ge> 0 then add_mset (dmabufFd b) (slot_fds (erase_slot k xs)) else slot_fds (erase_slot k xs))"
  using assms
proof (induction xs)
  case (Cons p xs)
  show ?case
  proof (cases "fst p = k")
    case True
    then have "map_of xs k = None" using Cons.prems(1) by (auto simp: map_of_eq_None_iff)
    then have "erase_slot k (p # xs) = xs" using erase_absent [of xs k] True by (simp add: erase_slot_def)
    then show ?thesis using True Cons.prems(2) by (cases p) simp
  next
    case False
    then have "erase_slot k (p # xs) = p # erase_slot k xs" "map_of xs k = Some b" using Cons.prems(2)
      by (cases p; simp add: erase_slot_def)+
    then show ?thesis using Cons.IH Cons.prems(1) by auto
  qed
qed simp

lemma close_if_fields [simp]:
  "bslots (close_if fd s) = bslots s" "nextSlot (close_if fd s) = nextSlot s" "ohSurface (close_if fd s) = ohSurface s"
  by (simp_all add: close_if_def close_fd_def)

lemma release_slot_ok:
  assumes "producer_ok s"
  shows "producer_ok (release_slot k s)"
proof (cases "map_of (bslots s) k")
  case (Some b)
  have d: "distinct (map fst (bslots s))" and f: "dup_fds s = slot_fds (bslots s)" and c: "\<not> bad_close s"
    and o': "\<forall>p \<in> set (bslots s). ohBuffer (snd p) \<noteq> None" using assms by (simp_all add: producer_ok_def)
  then show ?thesis using slot_fds_erase [OF d Some] erase_keys [where xs = "bslots s" and k = k]
    by (auto simp: release_slot_def Some producer_ok_def close_if_def close_fd_def)
qed (simp add: release_slot_def assms)

lemma fold_close:
  "dup_fds s = slot_fds xs + M \<Longrightarrow> \<not> bad_close s \<Longrightarrow>
     let t = fold (\<lambda>p s. close_if (dmabufFd (snd p)) s) xs s in dup_fds t = M \<and> \<not> bad_close t \<and> nextSlot t = nextSlot s \<and> ohSurface t = ohSurface s"
proof (induction xs arbitrary: s)
  case (Cons p xs)
  let ?t = "close_if (dmabufFd (snd p)) s"
  have "dup_fds ?t = slot_fds xs + M" "\<not> bad_close ?t" using Cons.prems by (auto simp: close_if_def close_fd_def)
  from Cons.IH [OF this] show ?case by (simp add: Let_def)
qed (simp add: Let_def)

lemma destroy_ok: "producer_ok s \<Longrightarrow> producer_ok (destroy s) \<and> dup_fds (destroy s) = {#} \<and> nextSlot (destroy s) = nextSlot s \<and> ohSurface (destroy s) = ohSurface s"
  using fold_close [of s "bslots s" "{#}"] by (simp add: producer_ok_def destroy_def Let_def)

lemma disconnect_destroy: "disconnect s = (0, destroy s)"
  by (simp add: disconnect_def destroy_def)

text \<open>A successful request in a few equations.\<close>

definition dup_handle :: "'b surface \<Rightarrow> 'b \<Rightarrow> int" where
  "dup_handle S b = (case GetBufferHandle S b of Some h \<Rightarrow> if h \<ge> 0 then dup_result S h else - 1 | None \<Rightarrow> - 1)"

definition request :: "'b surface \<Rightarrow> int \<Rightarrow> int \<Rightarrow> int \<Rightarrow> u64 \<Rightarrow> int \<times> 'b option \<times> int option" where
  "request S width height format usage = RequestBuffer S \<lparr>rc_width = width, rc_height = height, strideAlignment = 8,
     rc_format = androidToOHPixelFormat format, rc_usage = androidToOHUsage usage, rc_timeout = 0\<rparr>"

lemma dequeue_fails:
  "\<not> ohSurface s \<or> fst (request S w h f u) \<noteq> 0 \<or> fst (snd (request S w h f u)) = None \<Longrightarrow>
     snd (dequeueBuffer S w h f u s) = (None, s)"
  by (auto simp: dequeueBuffer_def request_def Let_def toOHPixelFormat_def toOHUsage_def SURFACE_ERROR_OK_def split: prod.splits option.splits)

lemma dequeue_succeeds:
  assumes "ohSurface s" "request S w h f u = (0, Some b, rf)"
  shows "\<exists>fence s1. dequeueBuffer S w h f u s = (0, Some (nextSlot s, fence), s1\<lparr>bslots := put_slot (nextSlot s)
       \<lparr>ohBuffer = Some b, ohSeqNum = GetSeqNum S b, bs_width = GetWidth S b, bs_height = GetHeight S b, bs_format = f, dmabufFd = dup_handle S b\<rparr>
       (bslots s)\<rparr>)
     \<and> nextSlot s1 = nextSlot s + 1 \<and> ohSurface s1 = ohSurface s
     \<and> s1 = (let t = (if dup_handle S b \<ge> 0 then s\<lparr>dup_fds := add_mset (dup_handle S b) (dup_fds s)\<rparr> else s)\<lparr>nextSlot := nextSlot s + 1\<rparr>
            in case map_of (bslots s) (nextSlot s) of Some old \<Rightarrow> close_if (dmabufFd old) t | None \<Rightarrow> t)"
  using assms by (auto simp: dequeueBuffer_def request_def dup_handle_def Let_def toOHPixelFormat_def toOHUsage_def SURFACE_ERROR_OK_def split: option.splits)

lemma dequeue_ok:
  assumes "producer_ok s"
  shows "producer_ok (snd (snd (dequeueBuffer S w h f u s)))"
proof (cases "ohSurface s \<and> fst (request S w h f u) = 0 \<and> fst (snd (request S w h f u)) \<noteq> None")
  case False
  then show ?thesis using dequeue_fails [of s S w h f u] assms by auto
next
  case True
  then obtain b rf where r: "request S w h f u = (0, Some b, rf)" by (cases "request S w h f u") auto
  have d: "distinct (map fst (bslots s))" and fds: "dup_fds s = slot_fds (bslots s)" and c: "\<not> bad_close s"
    and o': "\<forall>p \<in> set (bslots s). ohBuffer (snd p) \<noteq> None" using assms by (simp_all add: producer_ok_def)
  let ?k = "nextSlot s"
  let ?v = "\<lparr>ohBuffer = Some b, ohSeqNum = GetSeqNum S b, bs_width = GetWidth S b, bs_height = GetHeight S b, bs_format = f, dmabufFd = dup_handle S b\<rparr>"
  let ?t = "(if dup_handle S b \<ge> 0 then s\<lparr>dup_fds := add_mset (dup_handle S b) (dup_fds s)\<rparr> else s)\<lparr>nextSlot := ?k + 1\<rparr>"
  obtain fence s1 where q: "dequeueBuffer S w h f u s = (0, Some (?k, fence), s1\<lparr>bslots := put_slot ?k ?v (bslots s)\<rparr>)"
    "s1 = (case map_of (bslots s) ?k of Some old \<Rightarrow> close_if (dmabufFd old) ?t | None \<Rightarrow> ?t)"
    using dequeue_succeeds [of s S w h f u b rf] True r unfolding Let_def by blast
  have "dup_fds s1 = slot_fds (put_slot ?k ?v (bslots s)) \<and> \<not> bad_close s1"
  proof (cases "map_of (bslots s) ?k")
    case None
    then show ?thesis using q(2) fds c erase_absent [OF None] by (simp add: put_slot_def)
  next
    case (Some old)
    then show ?thesis using q(2) fds c slot_fds_erase [OF d Some] by (simp add: put_slot_def close_if_def close_fd_def)
  qed
  moreover have "distinct (map fst (put_slot ?k ?v (bslots s)))"
    using erase_keys(1,2) [where xs = "bslots s" and k = ?k] d by (simp add: put_slot_def)
  moreover have "\<forall>p \<in> set (put_slot ?k ?v (bslots s)). ohBuffer (snd p) \<noteq> None"
    using erase_keys(3) [where xs = "bslots s" and k = ?k] o' by (auto simp: put_slot_def)
  ultimately show ?thesis unfolding q(1) producer_ok_def by simp
qed

section \<open>Refinement of a pool of dequeued buffers\<close>

datatype 'b gop = GDequeue "'b surface" int int int u64 | GQueue "'b surface" u32 int int int int int int
  | GCancel "'b surface" u32 int | GDisconnect

fun gstep :: "'b producer \<Rightarrow> 'b gop \<Rightarrow> 'b producer" where
  "gstep s (GDequeue S w h f u) = snd (snd (dequeueBuffer S w h f u s))"
| "gstep s (GQueue S k fence ts l t r b) = snd (queueBuffer S k fence ts l t r b s)"
| "gstep s (GCancel S k fence) = snd (cancelBuffer S k fence s)"
| "gstep s GDisconnect = snd (disconnect s)"

text \<open>What the producer promises: a numbering of the buffers it has handed out and not got back.\<close>

type_synonym 'b pool = "bool \<times> u32 \<times> (u32 \<rightharpoonup> 'b)"

definition abs_pool :: "'b producer \<Rightarrow> 'b pool" where
  "abs_pool s = (ohSurface s, nextSlot s, \<lambda>k. Option.bind (map_of (bslots s) k) ohBuffer)"

definition flush_config :: "int \<Rightarrow> int \<Rightarrow> int \<Rightarrow> int \<Rightarrow> int \<Rightarrow> BufferFlushConfig" where
  "flush_config ts l t r b = \<lparr>damage_x = l, damage_y = t, damage_w = int32_sub r l, damage_h = int32_sub b t, fc_timestamp = ts\<rparr>"

fun pool_step :: "'b pool \<Rightarrow> 'b gop \<Rightarrow> 'b pool" where
  "pool_step (surf, n, m) (GDequeue S w h f u) =
     (case request S w h f u of (ret, Some b, _) \<Rightarrow> if surf \<and> ret = 0 then (surf, n + 1, m(n \<mapsto> b)) else (surf, n, m) | _ \<Rightarrow> (surf, n, m))"
| "pool_step (surf, n, m) (GQueue S k fence ts l t r b) =
     (case m k of
        Some x \<Rightarrow> if surf \<and> FlushBuffer S x (if fence \<ge> 0 then Some fence else None) (flush_config ts l t r b) = 0
          then (surf, n, m(k := None)) else (surf, n, m)
      | None \<Rightarrow> (surf, n, m))"
| "pool_step (surf, n, m) (GCancel S k fence) =
     (case m k of Some x \<Rightarrow> if surf \<and> CancelBuffer S x = 0 then (surf, n, m(k := None)) else (surf, n, m) | None \<Rightarrow> (surf, n, m))"
| "pool_step (surf, n, m) GDisconnect = (surf, n, Map.empty)"

lemma abs_release: "abs_pool (release_slot k s) = (ohSurface s, nextSlot s, (snd (snd (abs_pool s)))(k := None))"
  by (auto simp: abs_pool_def release_slot_def map_of_erase fun_eq_iff split: option.splits)

lemma gstep_ok: "producer_ok s \<Longrightarrow> producer_ok (gstep s x)"
proof (cases x)
  case (GDequeue S w h f u)
  then show "producer_ok s \<Longrightarrow> ?thesis" by (simp add: dequeue_ok)
next
  case (GQueue S k fence ts l t r b)
  then show "producer_ok s \<Longrightarrow> ?thesis" by (simp add: queueBuffer_def Let_def release_slot_ok split: option.split)
next
  case (GCancel S k fence)
  then show "producer_ok s \<Longrightarrow> ?thesis" by (simp add: cancelBuffer_def Let_def release_slot_ok split: option.split)
next
  case GDisconnect
  then show "producer_ok s \<Longrightarrow> ?thesis" by (simp add: disconnect_destroy destroy_ok)
qed

lemma abs_dequeue: "abs_pool (snd (snd (dequeueBuffer S w h f u s))) = pool_step (abs_pool s) (GDequeue S w h f u)"
proof (cases "ohSurface s \<and> fst (request S w h f u) = 0 \<and> fst (snd (request S w h f u)) \<noteq> None")
  case False
  then show ?thesis using dequeue_fails [of s S w h f u]
    by (auto simp: abs_pool_def split: prod.splits option.splits)
next
  case True
  then obtain b rf where r: "request S w h f u = (0, Some b, rf)" by (cases "request S w h f u") auto
  obtain fence s1 v where q: "dequeueBuffer S w h f u s = (0, Some (nextSlot s, fence), s1\<lparr>bslots := put_slot (nextSlot s) v (bslots s)\<rparr>)"
    "nextSlot s1 = nextSlot s + 1" "ohSurface s1 = ohSurface s" "ohBuffer v = Some b"
    using dequeue_succeeds [of s S w h f u b rf] True r by (metis BufferSlot.select_convs(1))
  show ?thesis using True
    by (auto simp: q r abs_pool_def put_slot_def map_of_erase fun_eq_iff)
qed

lemma abs_queue:
  assumes "producer_ok s"
  shows "abs_pool (snd (queueBuffer S k fence ts l t r b s)) = pool_step (abs_pool s) (GQueue S k fence ts l t r b)"
proof (cases "Option.bind (map_of (bslots s) k) ohBuffer")
  case None
  then show ?thesis
    by (auto simp: queueBuffer_def abs_pool_def split: option.splits)
next
  case (Some x)
  then obtain e where e: "map_of (bslots s) k = Some e" "ohBuffer e = Some x" by (auto simp: bind_eq_Some_conv)
  show ?thesis
  proof (cases "ohSurface s \<and> FlushBuffer S x (if fence \<ge> 0 then Some fence else None) (flush_config ts l t r b) = 0")
    case True
    then have "snd (queueBuffer S k fence ts l t r b s) = release_slot k s"
      by (simp add: queueBuffer_def e Let_def flush_config_def [symmetric] SURFACE_ERROR_OK_def)
    then show ?thesis using True e by (simp add: abs_release) (simp add: abs_pool_def)
  next
    case False
    then have "snd (queueBuffer S k fence ts l t r b s) = s"
      by (auto simp: queueBuffer_def e Let_def flush_config_def [symmetric] SURFACE_ERROR_OK_def)
    then show ?thesis using False e by (auto simp: abs_pool_def)
  qed
qed

lemma abs_cancel: "abs_pool (snd (cancelBuffer S k fence s)) = pool_step (abs_pool s) (GCancel S k fence)"
proof (cases "Option.bind (map_of (bslots s) k) ohBuffer")
  case None
  then show ?thesis by (auto simp: cancelBuffer_def abs_pool_def split: option.splits)
next
  case (Some x)
  then obtain e where e: "map_of (bslots s) k = Some e" "ohBuffer e = Some x" by (auto simp: bind_eq_Some_conv)
  show ?thesis
    using abs_release [of k s] by (auto simp: cancelBuffer_def e Let_def SURFACE_ERROR_OK_def abs_pool_def)
qed

interpretation producer: simulated_machine gstep producer_ok abs_pool pool_step
proof
  show "producer_ok (gstep s x)" if "producer_ok s" for s :: "'b producer" and x using gstep_ok [OF that] .
  show "abs_pool (gstep s x) = pool_step (abs_pool s) x" if "producer_ok s" for s :: "'b producer" and x
  proof (cases x)
    case GDisconnect
    then show ?thesis using destroy_ok [OF that] by (simp add: disconnect_destroy) (simp add: abs_pool_def destroy_def)
  qed (simp_all only: gstep.simps abs_dequeue abs_queue [OF that] abs_cancel)
qed

lemma new_producer_ok: "producer_ok (new_producer surf)" "abs_pool (new_producer surf) = (surf, 0, Map.empty)"
  by (simp_all add: new_producer_def producer_ok_def abs_pool_def)

text \<open>
  C3 (producer_refines_pool): for every sequence of dequeue, queue, cancel and disconnect calls,
  whatever the surface answers, the producer implements a numbered pool of handed-out buffers: a
  successful request adds the next number, a flush or cancel that the surface accepts removes it,
  all else changes nothing. The open duplicated descriptors are at every point exactly those of
  the slots, none is closed twice, and destruction leaves none open.
\<close>

theorem producer_refines_pool:
  fixes surf :: bool and ops :: "'b gop list"
  defines "s \<equiv> foldl gstep (new_producer surf) ops"
  shows "abs_pool s = foldl pool_step (surf, 0, Map.empty) ops \<and> producer_ok s
    \<and> dup_fds (destroy s) = {#} \<and> \<not> bad_close (destroy s)"
proof -
  have ok: "producer_ok s" unfolding s_def by (rule producer.run_inv [OF new_producer_ok(1)])
  moreover have "abs_pool s = foldl pool_step (surf, 0, Map.empty) ops"
    unfolding s_def using producer.run_sim [OF new_producer_ok(1)] by (simp add: new_producer_ok(2))
  moreover have "dup_fds (destroy s) = {#} \<and> \<not> bad_close (destroy s)" using destroy_ok [OF ok] producer_ok_def by blast
  ultimately show ?thesis by blast
qed

text \<open>
  Fact (dequeue_null_success): when the surface answers OK but gives no buffer,
  \<open>dequeueBuffer\<close> returns 0, its success value, and stores neither a slot nor a
  fence.
\<close>

theorem dequeue_null_success:
  assumes "ohSurface s" "\<And>c. RequestBuffer S c = (SURFACE_ERROR_OK, None, fence)"
  shows "dequeueBuffer S width height format usage s = (0, None, s)"
  using assms by (simp add: dequeueBuffer_def Let_def SURFACE_ERROR_OK_def)

definition null_surface :: "unit surface" where
  "null_surface = \<lparr>RequestBuffer = (\<lambda>_. (SURFACE_ERROR_OK, None, None)), FlushBuffer = (\<lambda>_ _ _. 0), CancelBuffer = (\<lambda>_. 0), SetQueueSize = (\<lambda>_. 0),
     GetSeqNum = (\<lambda>_. 0), GetBufferHandle = (\<lambda>_. None), GetWidth = (\<lambda>_. 0), GetHeight = (\<lambda>_. 0), GetStride = (\<lambda>_. 0), GetVirAddr = (\<lambda>_. 0),
     dup_result = (\<lambda>_. - 1)\<rparr>"

theorem dequeue_null_success_witness: "dequeueBuffer null_surface 8 8 1 0 (new_producer True) = (0, None, new_producer True)"
  by (rule dequeue_null_success) (simp_all add: null_surface_def new_producer_def)

section \<open>The mappings\<close>

lemmas format_defs = ANDROID_PIXEL_FORMAT_RGBA_8888_def ANDROID_PIXEL_FORMAT_RGBX_8888_def ANDROID_PIXEL_FORMAT_RGB_888_def
  ANDROID_PIXEL_FORMAT_RGB_565_def ANDROID_PIXEL_FORMAT_BGRA_8888_def ANDROID_PIXEL_FORMAT_RGBA_1010102_def
  ANDROID_PIXEL_FORMAT_RGBA_FP16_def OH_PIXEL_FMT_RGBA_8888_def OH_PIXEL_FMT_RGBX_8888_def OH_PIXEL_FMT_RGB_888_def
  OH_PIXEL_FMT_RGB_565_def OH_PIXEL_FMT_BGRA_8888_def OH_PIXEL_FMT_RGBA_1010102_def OH_PIXEL_FMT_RGBA_FP16_def

lemmas usage_defs = OH_USAGE_CPU_READ_def OH_USAGE_CPU_WRITE_def OH_USAGE_MEM_DMA_def OH_USAGE_MEM_SHARE_def OH_USAGE_HW_RENDER_def
  OH_USAGE_HW_TEXTURE_def OH_USAGE_HW_COMPOSER_def

lemma format_roundtrip:
  "ohToAndroidPixelFormat (androidToOHPixelFormat f) = (if f \<in> {1, 2, 3, 4, 5, 43, 22} then f else 1)"
  "androidToOHPixelFormat (ohToAndroidPixelFormat g) = (if g \<in> {12, 11, 13, 3, 20, 34, 39} then g else 12)"
  by (simp_all add: androidToOHPixelFormat_def ohToAndroidPixelFormat_def format_defs)

definition force_list :: u64 where
  "force_list = OH_USAGE_MEM_DMA OR OH_USAGE_MEM_SHARE OR OH_USAGE_HW_COMPOSER OR OH_USAGE_HW_RENDER"

lemma usage_force:
  "androidToOHUsage a \<noteq> 0 \<and> (androidToOHUsage a AND force_list = 0 \<or> androidToOHUsage a AND force_list = force_list)"
  unfolding androidToOHUsage_def add_usage_def Let_def force_list_def
  by (simp add: usage_defs)

text \<open>
  Fact (pixel_mapping): the two format tables are inverse on the seven known formats and fall back
  to RGBA; a usage is never empty, and it contains all of the DMA, share, composer and render
  flags or none of them.
\<close>

theorem pixel_mapping:
  "ohToAndroidPixelFormat (androidToOHPixelFormat f) = (if f \<in> {1, 2, 3, 4, 5, 43, 22} then f else 1)
   \<and> androidToOHPixelFormat (ohToAndroidPixelFormat g) = (if g \<in> {12, 11, 13, 3, 20, 34, 39} then g else 12)
   \<and> androidToOHUsage a \<noteq> 0 \<and> (androidToOHUsage a AND force_list = 0 \<or> androidToOHUsage a AND force_list = force_list)"
  using format_roundtrip usage_force by blast

end
