(* ===== verification/SystemProperties.thy ===== *)
theory SystemProperties
  imports Prelude
begin

text \<open>
  The Android property API over OpenHarmony parameters: \<open>appspawn-x/bionic_compat/src/system_properties.cpp\<close>.
  C strings are byte lists without the terminator. A \<open>const prop_info*\<close> is an index into the cache, which the
  code never shrinks. The parameter store (\<open>SystemReadParam\<close>, \<open>SystemSetParameter\<close>) is a parameter: the return
  value and the string left in the caller's zeroed buffer. \<open>g_mutex\<close> brackets the cache accesses and is left out.
\<close>

section \<open>Definitions\<close>

definition PROP_NAME_MAX :: nat where "PROP_NAME_MAX = 256"
definition PROP_VALUE_MAX :: nat where "PROP_VALUE_MAX = 92"
definition MAX_CACHED_PROPS :: nat where "MAX_CACHED_PROPS = 256"
definition MAX_CALLBACKS :: nat where "MAX_CALLBACKS = 16"

record prop_info =
  pi_name :: bytes
  pi_value :: bytes
  pi_serial :: u32

record 'cb sysprop =
  g_prop_cache :: "prop_info list"
  g_serial :: u32
  g_callbacks :: "'cb list"

definition new_sysprop :: "'cb sysprop" where
  "new_sysprop = \<lparr>g_prop_cache = [], g_serial = 0, g_callbacks = []\<rparr>"

record param_store =
  SystemReadParam :: "bytes \<Rightarrow> int \<times> bytes"
  SystemSetParameter :: "bytes \<Rightarrow> bytes \<Rightarrow> int"

text \<open>\<open>strncpy(dst, src, n - 1); dst[n - 1] = '\0'\<close>\<close>

definition cstr_copy :: "nat \<Rightarrow> bytes \<Rightarrow> bytes" where
  "cstr_copy n src = take (n - 1) src"

fun find_entry :: "bytes \<Rightarrow> nat \<Rightarrow> prop_info list \<Rightarrow> nat option" where
  "find_entry name i [] = None"
| "find_entry name i (p # ps) = (if pi_name p = name then Some i else find_entry name (i + 1) ps)"

definition find_or_create_cache_entry :: "bytes \<Rightarrow> 'cb sysprop \<Rightarrow> nat option \<times> 'cb sysprop" where
  "find_or_create_cache_entry name s =
     (case find_entry name 0 (g_prop_cache s) of
        Some i \<Rightarrow> (Some i, s)
      | None \<Rightarrow>
          if length (g_prop_cache s) < MAX_CACHED_PROPS
          then (Some (length (g_prop_cache s)),
                s\<lparr>g_prop_cache := g_prop_cache s @ [\<lparr>pi_name = cstr_copy PROP_NAME_MAX name, pi_value = [], pi_serial = 0\<rparr>]\<rparr>)
          else (None, s))"

definition system_property_find :: "param_store \<Rightarrow> bytes option \<Rightarrow> 'cb sysprop \<Rightarrow> nat option \<times> 'cb sysprop" where
  "system_property_find P name s =
     (case name of
        None \<Rightarrow> (None, s)
      | Some name \<Rightarrow>
          (let (ret, val) = SystemReadParam P name in
           if ret \<noteq> 0 \<and> val = [] then (None, s)
           else
             (case find_or_create_cache_entry name s of
                (None, s) \<Rightarrow> (None, s)
              | (Some i, s) \<Rightarrow>
                  (let serial = g_serial s + 1;
                       p = (g_prop_cache s ! i)\<lparr>pi_value := cstr_copy PROP_VALUE_MAX val, pi_serial := serial\<rparr>
                   in (Some i, s\<lparr>g_prop_cache := (g_prop_cache s)[i := p], g_serial := serial\<rparr>)))))"

text \<open>The return value and the strings copied out.\<close>

definition system_property_read :: "nat option \<Rightarrow> 'cb sysprop \<Rightarrow> int \<times> (bytes \<times> bytes) option" where
  "system_property_read pi s =
     (case pi of
        None \<Rightarrow> (- 1, None)
      | Some i \<Rightarrow> (let p = g_prop_cache s ! i in (int (length (pi_value p)), Some (pi_name p, pi_value p))))"

definition system_property_read_callback :: "nat option \<Rightarrow> 'cb sysprop \<Rightarrow> (bytes \<times> bytes \<times> u32) option" where
  "system_property_read_callback pi s =
     map_option (\<lambda>i. let p = g_prop_cache s ! i in (pi_name p, pi_value p, pi_serial p)) pi"

text \<open>The string left in the caller's buffer, which is null unless \<open>bufNonNull\<close>.\<close>

definition system_property_get :: "param_store \<Rightarrow> bytes option \<Rightarrow> bool \<Rightarrow> int \<times> bytes option" where
  "system_property_get P name bufNonNull =
     (case name of
        None \<Rightarrow> (0, None)
      | Some n \<Rightarrow> if \<not> bufNonNull then (0, None) else (let val = snd (SystemReadParam P n) in (int (length val), Some val)))"

definition system_property_foreach :: "'cb \<Rightarrow> 'cookie \<Rightarrow> int" where
  "system_property_foreach callback cookie = 0"

definition system_property_set :: "param_store \<Rightarrow> bytes option \<Rightarrow> bytes option \<Rightarrow> int" where
  "system_property_set P name val =
     (case (name, val) of (Some n, Some v) \<Rightarrow> SystemSetParameter P n v | _ \<Rightarrow> - 1)"

definition add_sysprop_change_callback :: "'cb option \<Rightarrow> int \<Rightarrow> 'cb sysprop \<Rightarrow> 'cb sysprop" where
  "add_sysprop_change_callback callback priority s =
     (case callback of
        None \<Rightarrow> s
      | Some c \<Rightarrow> if length (g_callbacks s) < MAX_CALLBACKS then s\<lparr>g_callbacks := g_callbacks s @ [c]\<rparr> else s)"

section \<open>The cache\<close>

lemma find_entry_Some: "find_entry name k ps = Some i \<Longrightarrow> k \<le> i \<and> i - k < length ps \<and> pi_name (ps ! (i - k)) = name"
  by (induction ps arbitrary: k) (fastforce simp: nth_Cons' split: if_splits)+

lemma find_entry_None: "find_entry name k ps = None \<longleftrightarrow> name \<notin> pi_name ` set ps"
  by (induction ps arbitrary: k) auto

definition sysprop_ok :: "'cb sysprop \<Rightarrow> bool" where
  "sysprop_ok s \<longleftrightarrow> length (g_prop_cache s) \<le> MAX_CACHED_PROPS \<and> length (g_callbacks s) \<le> MAX_CALLBACKS
     \<and> (\<forall>p \<in> set (g_prop_cache s). length (pi_name p) < PROP_NAME_MAX \<and> length (pi_value p) < PROP_VALUE_MAX)"

text \<open>The names of a prefix of the cache never change, so an index keeps naming its property.\<close>

definition names :: "'cb sysprop \<Rightarrow> bytes list" where
  "names s = map pi_name (g_prop_cache s)"

lemma find_or_create_spec:
  "find_or_create_cache_entry name s = (r, s') \<Longrightarrow>
     (case r of
        None \<Rightarrow> s' = s \<and> name \<notin> set (names s) \<and> length (names s) \<ge> MAX_CACHED_PROPS
      | Some i \<Rightarrow> (i < length (names s) \<and> names s ! i = name \<and> s' = s)
          \<or> (name \<notin> set (names s) \<and> i = length (names s) \<and> i < MAX_CACHED_PROPS
             \<and> s' = s\<lparr>g_prop_cache := g_prop_cache s @ [\<lparr>pi_name = take (PROP_NAME_MAX - 1) name, pi_value = [], pi_serial = 0\<rparr>]\<rparr>))"
  using find_entry_Some [of name 0 "g_prop_cache s"] find_entry_None [of name 0 "g_prop_cache s"]
  by (cases "find_entry name 0 (g_prop_cache s)")
    (auto simp: find_or_create_cache_entry_def names_def cstr_copy_def split: if_splits)

lemma names_update [simp]: "names (s\<lparr>g_prop_cache := (g_prop_cache s)[i := p], g_serial := k\<rparr>) = (names s)[i := pi_name p]"
  by (simp add: names_def map_update)

lemma find_cases:
  assumes "system_property_find P (Some name) s = (r, s')" "SystemReadParam P name = (ret, val)" "ret = 0 \<or> val \<noteq> []"
  obtains (full) "r = None" "s' = s" "name \<notin> set (names s)" "MAX_CACHED_PROPS \<le> length (names s)"
  | (hit) i where "r = Some i" "i < length (names s)" "names s ! i = name" "names s' = names s"
      "g_prop_cache s' = (g_prop_cache s)[i := \<lparr>pi_name = name, pi_value = take (PROP_VALUE_MAX - 1) val, pi_serial = g_serial s + 1\<rparr>]"
  | (fresh) "r = Some (length (names s))" "name \<notin> set (names s)" "length (names s) < MAX_CACHED_PROPS"
      "names s' = names s @ [take (PROP_NAME_MAX - 1) name]"
      "g_prop_cache s' = g_prop_cache s @ [\<lparr>pi_name = take (PROP_NAME_MAX - 1) name, pi_value = take (PROP_VALUE_MAX - 1) val,
         pi_serial = g_serial s + 1\<rparr>]"
proof -
  obtain q t where q: "find_or_create_cache_entry name s = (q, t)" by fastforce
  note spec = find_or_create_spec [OF q]
  note run = assms(1) [unfolded system_property_find_def option.case assms(2) Let_def prod.case q]
  show thesis
  proof (cases q)
    case None
    then show thesis using full spec run assms(3) by auto
  next
    case (Some i)
    then consider "i < length (names s)" "names s ! i = name" "t = s"
      | "name \<notin> set (names s)" "i = length (names s)" "i < MAX_CACHED_PROPS"
        "t = s\<lparr>g_prop_cache := g_prop_cache s @ [\<lparr>pi_name = take (PROP_NAME_MAX - 1) name, pi_value = [], pi_serial = 0\<rparr>]\<rparr>"
      using spec by auto
    then show thesis
    proof cases
      case 1
      let ?p = "(g_prop_cache s ! i)\<lparr>pi_value := take (PROP_VALUE_MAX - 1) val, pi_serial := g_serial s + 1\<rparr>"
      have nm: "pi_name (g_prop_cache s ! i) = name" using 1 by (simp add: names_def)
      then have p: "?p = \<lparr>pi_name = name, pi_value = take (PROP_VALUE_MAX - 1) val, pi_serial = g_serial s + 1\<rparr>"
        by (cases "g_prop_cache s ! i") simp
      have r: "r = Some i" "s' = s\<lparr>g_prop_cache := (g_prop_cache s)[i := ?p], g_serial := g_serial s + 1\<rparr>"
        using run Some assms(3) 1(3) by (auto simp: cstr_copy_def)
      show thesis
        by (rule hit [OF r(1) 1(1,2)]) (use 1 r(2) [unfolded p] in \<open>simp_all add: list_update_same_conv\<close>)
    next
      case 2
      have "r = Some i" "g_prop_cache s' = (g_prop_cache t)[i := (g_prop_cache t ! i)
          \<lparr>pi_value := take (PROP_VALUE_MAX - 1) val, pi_serial := g_serial t + 1\<rparr>]"
        using run Some assms(3) by (auto simp: cstr_copy_def)
      then show thesis using 2 by (intro fresh) (simp_all add: names_def)
    qed
  qed
qed

lemma sysprop_ok_find: "sysprop_ok s \<Longrightarrow> sysprop_ok (snd (system_property_find P name s))"
proof (cases name)
  case None
  then show "sysprop_ok s \<Longrightarrow> ?thesis" by (simp add: system_property_find_def)
next
  case (Some n)
  assume ok: "sysprop_ok s"
  obtain ret val where v: "SystemReadParam P n = (ret, val)" by fastforce
  obtain r s' where f: "system_property_find P (Some n) s = (r, s')" by fastforce
  have cb: "g_callbacks s' = g_callbacks s"
    using f by (auto simp: system_property_find_def find_or_create_cache_entry_def Let_def split: prod.splits option.splits if_splits)
  have bound: "length (take (PROP_VALUE_MAX - 1) val) < PROP_VALUE_MAX" "length (take (PROP_NAME_MAX - 1) n) < PROP_NAME_MAX"
    by (simp_all add: PROP_VALUE_MAX_def PROP_NAME_MAX_def)
  have "sysprop_ok s'"
  proof (cases "ret = 0 \<or> val \<noteq> []")
    case False
    then show ?thesis using f ok by (simp add: system_property_find_def v)
  next
    case True
    from f v this show ?thesis
    proof (cases rule: find_cases)
      case full
      then show ?thesis using ok by simp
    next
      case (hit i)
      have "length n < PROP_NAME_MAX" using ok hit(2,3) by (auto simp: sysprop_ok_def names_def)
      then show ?thesis using ok hit(5) cb bound set_update_subset_insert [of "g_prop_cache s" i]
        by (fastforce simp: sysprop_ok_def)
    next
      case fresh
      then show ?thesis using ok cb bound by (auto simp: sysprop_ok_def names_def)
    qed
  qed
  then show ?thesis by (simp add: Some f)
qed

datatype 'cb sop = SFind param_store "bytes option" | SCallback "'cb option" int

fun sstep :: "'cb sysprop \<Rightarrow> 'cb sop \<Rightarrow> 'cb sysprop" where
  "sstep s (SFind P name) = snd (system_property_find P name s)"
| "sstep s (SCallback c priority) = add_sysprop_change_callback c priority s"

interpretation props: op_machine sstep sysprop_ok
proof
  fix s :: "'cb sysprop" and x assume "sysprop_ok s"
  then show "sysprop_ok (sstep s x)"
    by (cases x) (auto simp: sysprop_ok_find, auto simp: add_sysprop_change_callback_def sysprop_ok_def split: option.splits)
qed

text \<open>
  C40 (property_find_read): after any sequence of lookups and callback registrations, looking up a
  parameter whose name and value fit the cache entry, and for which the cache has an entry or
  room, yields a handle from which exactly that name and value are read; all handles given out
  before keep naming their properties, and the fixed-size tables are never exceeded.
\<close>

theorem property_find_read:
  fixes calls :: "'cb sop list"
  defines "s \<equiv> foldl sstep new_sysprop calls"
  assumes "SystemReadParam P name = (0, val)" "length name < PROP_NAME_MAX" "length val < PROP_VALUE_MAX"
    "name \<in> set (names s) \<or> length (names s) < MAX_CACHED_PROPS"
  shows "\<exists>i s'. system_property_find P (Some name) s = (Some i, s') \<and> system_property_read (Some i) s' = (int (length val), Some (name, val))
    \<and> take (length (names s)) (names s') = names s \<and> sysprop_ok s'"
proof -
  have ok: "sysprop_ok s" unfolding s_def
    by (rule props.run_inv) (simp add: sysprop_ok_def new_sysprop_def)
  obtain r s' where f: "system_property_find P (Some name) s = (r, s')" by fastforce
  have ok': "sysprop_ok s'" using sysprop_ok_find [OF ok, of P "Some name"] by (simp add: f)
  have cut: "take (PROP_VALUE_MAX - 1) val = val" "take (PROP_NAME_MAX - 1) name = name" using assms(3,4) by auto
  have some: "(0 :: int) = 0 \<or> val \<noteq> []" by simp
  from f assms(2) some show ?thesis
  proof (cases rule: find_cases)
    case full
    then show ?thesis using assms(5) by simp
  next
    case (hit i)
    then show ?thesis using f ok' cut by (simp add: system_property_read_def Let_def names_def)
  next
    case fresh
    then show ?thesis using f ok' cut by (simp add: system_property_read_def Let_def names_def)
  qed
qed

definition const_store :: param_store where
  "const_store = \<lparr>SystemReadParam = (\<lambda>_. (0, [49])), SystemSetParameter = (\<lambda>_ _. 0)\<rparr>"

theorem property_find_read_witness:
  "\<exists>i s'. system_property_find const_store (Some [97]) (foldl sstep (new_sysprop :: unit sysprop) [SFind const_store (Some [98])]) = (Some i, s')
     \<and> system_property_read (Some i) s' = (1, Some ([97], [49]))"
proof -
  let ?s = "foldl sstep (new_sysprop :: unit sysprop) [SFind const_store (Some [98])]"
  have "length (names ?s) < MAX_CACHED_PROPS"
    by (simp add: system_property_find_def const_store_def find_or_create_cache_entry_def new_sysprop_def names_def MAX_CACHED_PROPS_def)
  then have "\<exists>i s'. system_property_find const_store (Some [97]) ?s = (Some i, s') \<and> system_property_read (Some i) s' = (int (length [49 :: byte]), Some ([97], [49]))
    \<and> take (length (names ?s)) (names s') = names ?s \<and> sysprop_ok s'"
    by (intro property_find_read) (simp_all add: const_store_def PROP_NAME_MAX_def PROP_VALUE_MAX_def)
  then show ?thesis by auto
qed

text \<open>A name that does not fit the entry is stored cut off and so never found again.\<close>

lemma long_name_rounds:
  assumes "PROP_NAME_MAX \<le> length name" "SystemReadParam P name = (0, val)" "n \<le> MAX_CACHED_PROPS"
  shows "names (((\<lambda>s. snd (system_property_find P (Some name) s)) ^^ n) (new_sysprop :: 'cb sysprop)) = replicate n (take (PROP_NAME_MAX - 1) name)"
  using assms(3)
proof (induction n)
  case 0
  show ?case by (simp add: new_sysprop_def names_def)
next
  case (Suc n)
  let ?s = "((\<lambda>s. snd (system_property_find P (Some name) s)) ^^ n) (new_sysprop :: 'cb sysprop)"
  obtain r s' where f: "system_property_find P (Some name) ?s = (r, s')" by fastforce
  have ns: "names ?s = replicate n (take (PROP_NAME_MAX - 1) name)" using Suc by simp
  have new: "name \<notin> set (names ?s)"
  proof
    assume "name \<in> set (names ?s)"
    then have "name = take (PROP_NAME_MAX - 1) name" unfolding ns by (simp split: if_splits)
    then have "length name \<le> PROP_NAME_MAX - 1" by (metis length_take min.cobounded2)
    then show False using assms(1) by (simp add: PROP_NAME_MAX_def)
  qed
  have some: "(0 :: int) = 0 \<or> val \<noteq> []" by simp
  from f assms(2) some show ?case
  proof (cases rule: find_cases)
    case full
    then show ?thesis using Suc.prems ns by simp
  next
    case (hit i)
    then show ?thesis using new nth_mem by force
  next
    case fresh
    then show ?thesis using f ns by (simp add: replicate_append_same)
  qed
qed

text \<open>
  Fact (long_names_exhaust_cache): a name of 256 or more bytes is stored cut off and therefore never
  matched again: 256 lookups of one such name fill the cache, after which no other property can be
  looked up, although its parameter exists.
\<close>

theorem long_names_exhaust_cache:
  assumes "PROP_NAME_MAX \<le> length name" "\<And>n. SystemReadParam P n = (0, val)" "other \<noteq> take (PROP_NAME_MAX - 1) name"
  shows "fst (system_property_find P (Some other)
    (((\<lambda>s. snd (system_property_find P (Some name) s)) ^^ MAX_CACHED_PROPS) (new_sysprop :: 'cb sysprop))) = None"
proof -
  let ?s = "((\<lambda>s. snd (system_property_find P (Some name) s)) ^^ MAX_CACHED_PROPS) (new_sysprop :: 'cb sysprop)"
  have ns: "names ?s = replicate MAX_CACHED_PROPS (take (PROP_NAME_MAX - 1) name)"
    by (rule long_name_rounds [OF assms(1,2)]) simp
  obtain r s' where f: "system_property_find P (Some other) ?s = (r, s')" by fastforce
  have some: "(0 :: int) = 0 \<or> val \<noteq> []" by simp
  from f assms(2) some have "r = None"
  proof (cases rule: find_cases)
    case (hit i)
    then show ?thesis using ns assms(3) by simp
  next
    case fresh
    then show ?thesis using ns by simp
  qed
  then show ?thesis by (simp add: f)
qed

theorem long_names_exhaust_cache_witness:
  "fst (system_property_find const_store (Some [97])
    (((\<lambda>s. snd (system_property_find const_store (Some (replicate 256 98)) s)) ^^ MAX_CACHED_PROPS) (new_sysprop :: unit sysprop))) = None"
  by (rule long_names_exhaust_cache) (auto simp: const_store_def PROP_NAME_MAX_def dest: arg_cong [where f = length])

end
