(* ===== verification/JavaParcel.thy ===== *)
theory JavaParcel
  imports Prelude
begin

text \<open>
  The parcel behind \<open>android.os.Parcel\<close>: \<open>android-runtime/src/android_os_Parcel_aosp.cpp\<close>. An
  \<open>OhParcelData\<close> is a byte vector with a cursor; the JNI functions take the address of one. The model
  has a store from addresses to parcels, so that a freed parcel and two names of one parcel can be told
  apart, and the Java virtual machine is a record of the JNI functions the code calls. \<open>None\<close> is undefined
  behaviour: an access outside the vector, a use of freed memory, a signed overflow. An allocation of the
  vector is taken to succeed.
\<close>

section \<open>The byte vector\<close>

definition PARCEL_MAGIC :: u32 where "PARCEL_MAGIC = 0x4F485043"

text \<open>\<open>cap\<close> is the capacity of the vector \<open>buf\<close>: a vector without storage has a null \<open>data()\<close>.\<close>

record OhParcelData =
  magic :: u32
  buf :: bytes
  cap :: nat
  pos :: int
  dataSize :: int
  allowFds :: bool
  sensitive :: bool
  forRpc :: bool

definition new_OhParcelData :: OhParcelData where
  "new_OhParcelData = \<lparr> magic = PARCEL_MAGIC, buf = [], cap = 0, pos = 0, dataSize = 0,
     allowFds = True, sensitive = False, forRpc = False \<rparr>"

text \<open>Signed 32-bit arithmetic, undefined on overflow, and the conversion of a wider value.\<close>

definition i32 :: "int \<Rightarrow> int option" where
  "i32 x = (if int32 x then Some x else None)"

definition to_i32 :: "int \<Rightarrow> int" where
  "to_i32 x = sint (word_of_int x :: u32)"

definition vec_resize :: "nat \<Rightarrow> OhParcelData \<Rightarrow> OhParcelData" where
  "vec_resize n p = p\<lparr> buf := take n (buf p) @ replicate (n - length (buf p)) 0,
     cap := (if cap p < n then max (2 * cap p) n else cap p) \<rparr>"

definition store :: "int \<Rightarrow> bytes \<Rightarrow> OhParcelData \<Rightarrow> OhParcelData option" where
  "store i bs p = (if i < 0 then None
     else do { b \<leftarrow> poke (buf p) (nat i) bs; Some (p\<lparr> buf := b \<rparr>) })"

definition load :: "int \<Rightarrow> nat \<Rightarrow> OhParcelData \<Rightarrow> bytes option" where
  "load i n p = (if i < 0 then None else slice (buf p) (nat i) n)"

section \<open>OhParcelData\<close>

definition pad4 :: "int \<Rightarrow> int option" where
  "pad4 n = do { m \<leftarrow> i32 (n + 3); Some (m AND NOT 3) }"

definition ensureCap :: "int \<Rightarrow> OhParcelData \<Rightarrow> OhParcelData" where
  "ensureCap need p = (if to_i32 (int (length (buf p))) < need then vec_resize (nat need) p else p)"

definition advanceWrite :: "int \<Rightarrow> OhParcelData \<Rightarrow> OhParcelData option" where
  "advanceWrite advanced p = do {
     q \<leftarrow> i32 (pos p + advanced);
     Some (if q > dataSize p then p\<lparr> pos := q, dataSize := q \<rparr> else p\<lparr> pos := q \<rparr>) }"

definition memzero :: "int \<Rightarrow> int \<Rightarrow> OhParcelData \<Rightarrow> OhParcelData option" where
  "memzero i n p = store i (replicate (nat n) 0) p"

text \<open>A value of a trivially copyable type \<open>T\<close> is its object representation.\<close>

definition writePOD :: "bytes \<Rightarrow> OhParcelData \<Rightarrow> (int \<times> OhParcelData) option" where
  "writePOD v p = do {
     let n = int (length v);
     aligned \<leftarrow> pad4 n;
     need \<leftarrow> i32 (pos p + aligned);
     let p = ensureCap need p;
     p \<leftarrow> store (pos p) v p;
     p \<leftarrow> (if aligned > n then memzero (pos p + n) (aligned - n) p else Some p);
     p \<leftarrow> advanceWrite aligned p;
     Some (0, p) }"

definition readPOD :: "nat \<Rightarrow> OhParcelData \<Rightarrow> (bytes \<times> OhParcelData) option" where
  "readPOD n p = do {
     aligned \<leftarrow> pad4 (int n);
     e \<leftarrow> i32 (pos p + int n);
     if e > dataSize p then Some (replicate n 0, p)
     else do {
       v \<leftarrow> load (pos p) n p;
       q \<leftarrow> i32 (pos p + aligned);
       Some (v, p\<lparr> pos := q \<rparr>) } }"

text \<open>
  The source of a copy: a null pointer, bytes of another object, or an offset in the vector itself. A
  pointer into the vector dangles once the vector has been moved, and \<open>memcpy\<close> of overlapping ranges is
  undefined.
\<close>

datatype copy_source = Null | Other bytes | Own int

fun copy_in :: "copy_source \<Rightarrow> nat \<Rightarrow> OhParcelData \<Rightarrow> OhParcelData \<Rightarrow> OhParcelData option" where
  "copy_in Null len old p = Some p"
| "copy_in (Other bs) len old p = do { v \<leftarrow> slice bs 0 len; store (pos p) v p }"
| "copy_in (Own i) len old p =
     (if cap p \<noteq> cap old \<or> (i < pos p + int len \<and> pos p < i + int len) then None
      else do { v \<leftarrow> load i len p; store (pos p) v p })"

definition writeBytes :: "copy_source \<Rightarrow> int \<Rightarrow> OhParcelData \<Rightarrow> (int \<times> OhParcelData) option" where
  "writeBytes src len p0 = (if len < 0 then Some (- 22, p0)
     else do {
       aligned \<leftarrow> pad4 len;
       need \<leftarrow> i32 (pos p0 + aligned);
       let p = ensureCap need p0;
       p \<leftarrow> (if len > 0 then copy_in src (nat len) p0 p else Some p);
       p \<leftarrow> (if aligned > len then memzero (pos p + len) (aligned - len) p else Some p);
       p \<leftarrow> advanceWrite aligned p;
       Some (0, p) })"

text \<open>The returned pointer is an offset in the vector; a vector without storage gives a null pointer.\<close>

definition readBytes :: "int \<Rightarrow> OhParcelData \<Rightarrow> (int option \<times> OhParcelData) option" where
  "readBytes len p = (if len < 0 then Some (None, p)
     else do {
       e \<leftarrow> i32 (pos p + len);
       if e > dataSize p then Some (None, p)
       else do {
         aligned \<leftarrow> pad4 len;
         q \<leftarrow> i32 (pos p + aligned);
         Some (if cap p = 0 then None else Some (pos p), p\<lparr> pos := q \<rparr>) } })"

definition writeInplace :: "int \<Rightarrow> OhParcelData \<Rightarrow> (int option \<times> OhParcelData) option" where
  "writeInplace len p = (if len < 0 then Some (None, p)
     else do {
       aligned \<leftarrow> pad4 len;
       need \<leftarrow> i32 (pos p + aligned);
       let p = ensureCap need p;
       let ptr = (if cap p = 0 then None else Some (pos p));
       p \<leftarrow> (if aligned > len then memzero (pos p + len) (aligned - len) p else Some p);
       p \<leftarrow> advanceWrite aligned p;
       Some (ptr, p) })"

section \<open>The JNI functions\<close>

type_synonym jchars = "16 word list"

text \<open>
  The functions of \<open>JNIEnv\<close> that the code calls: whether an array can be pinned, whether an array of a
  length can be allocated, and the conversions between Java strings and modified UTF-8.
\<close>

record JNIEnv =
  GetPrimitiveArrayCritical :: bool
  NewByteArray :: "int \<Rightarrow> bool"
  GetStringUTFLength :: "jchars \<Rightarrow> int"
  GetStringUTFRegion :: "jchars \<Rightarrow> bytes"
  NewStringUTF :: "bytes \<Rightarrow> jchars option"
  NewString :: "jchars \<Rightarrow> jchars option"

type_synonym parcels = "u64 \<Rightarrow> OhParcelData option"

definition asParcel :: "parcels \<Rightarrow> u64 \<Rightarrow> OhParcelData option option" where
  "asParcel H np = (if np = 0 then Some None
     else do { p \<leftarrow> H np; Some (if magic p \<noteq> PARCEL_MAGIC then None else Some p) })"

text \<open>Every function looks its parcel up and returns a default when there is none.\<close>

definition on_parcel ::
  "'a \<Rightarrow> (OhParcelData \<Rightarrow> ('a \<times> OhParcelData) option) \<Rightarrow> u64 \<Rightarrow> parcels \<Rightarrow> ('a \<times> parcels) option" where
  "on_parcel d f np H = do {
     r \<leftarrow> asParcel H np;
     case r of None \<Rightarrow> Some (d, H)
     | Some p \<Rightarrow> do { (x, p) \<leftarrow> f p; Some (x, H(np \<mapsto> p)) } }"

definition Parcel_create :: "u64 \<Rightarrow> parcels \<Rightarrow> u64 \<times> parcels" where
  "Parcel_create fresh H = (fresh, if fresh = 0 then H else H(fresh \<mapsto> new_OhParcelData))"

definition Parcel_destroy :: "u64 \<Rightarrow> parcels \<Rightarrow> (unit \<times> parcels) option" where
  "Parcel_destroy np H = (if np = 0 then Some ((), H) else do { p \<leftarrow> H np; Some ((), H(np := None)) })"

definition Parcel_freeBuffer :: "u64 \<Rightarrow> parcels \<Rightarrow> (unit \<times> parcels) option" where
  "Parcel_freeBuffer = on_parcel () (\<lambda>p. Some ((), p\<lparr> buf := [], pos := 0, dataSize := 0 \<rparr>))"

definition Parcel_dataSize :: "u64 \<Rightarrow> parcels \<Rightarrow> (int \<times> parcels) option" where
  "Parcel_dataSize = on_parcel 0 (\<lambda>p. Some (dataSize p, p))"

definition Parcel_dataAvail :: "u64 \<Rightarrow> parcels \<Rightarrow> (int \<times> parcels) option" where
  "Parcel_dataAvail = on_parcel 0 (\<lambda>p. do { a \<leftarrow> i32 (dataSize p - pos p); Some (a, p) })"

definition Parcel_dataPosition :: "u64 \<Rightarrow> parcels \<Rightarrow> (int \<times> parcels) option" where
  "Parcel_dataPosition = on_parcel 0 (\<lambda>p. Some (pos p, p))"

definition Parcel_dataCapacity :: "u64 \<Rightarrow> parcels \<Rightarrow> (int \<times> parcels) option" where
  "Parcel_dataCapacity = on_parcel 0 (\<lambda>p. Some (to_i32 (int (length (buf p))), p))"

definition Parcel_setDataSize :: "int \<Rightarrow> u64 \<Rightarrow> parcels \<Rightarrow> (unit \<times> parcels) option" where
  "Parcel_setDataSize sz = on_parcel () (\<lambda>p. if sz < 0 then Some ((), p)
     else let p = (ensureCap sz p)\<lparr> dataSize := sz \<rparr> in Some ((), if pos p > sz then p\<lparr> pos := sz \<rparr> else p))"

definition Parcel_setDataPosition :: "int \<Rightarrow> u64 \<Rightarrow> parcels \<Rightarrow> (unit \<times> parcels) option" where
  "Parcel_setDataPosition q = on_parcel () (\<lambda>p. Some ((), if q < 0 then p else p\<lparr> pos := q \<rparr>))"

definition Parcel_setDataCapacity :: "int \<Rightarrow> u64 \<Rightarrow> parcels \<Rightarrow> (unit \<times> parcels) option" where
  "Parcel_setDataCapacity sz = on_parcel () (\<lambda>p. Some ((),
     if sz < 0 then p else if to_i32 (int (length (buf p))) < sz then vec_resize (nat sz) p else p))"

definition Parcel_markSensitive :: "u64 \<Rightarrow> parcels \<Rightarrow> (unit \<times> parcels) option" where
  "Parcel_markSensitive = on_parcel () (\<lambda>p. Some ((), p\<lparr> sensitive := True \<rparr>))"

definition Parcel_isForRpc :: "u64 \<Rightarrow> parcels \<Rightarrow> (bool \<times> parcels) option" where
  "Parcel_isForRpc = on_parcel False (\<lambda>p. Some (forRpc p, p))"

definition Parcel_pushAllowFds :: "bool \<Rightarrow> u64 \<Rightarrow> parcels \<Rightarrow> (bool \<times> parcels) option" where
  "Parcel_pushAllowFds a = on_parcel True (\<lambda>p. Some (allowFds p, p\<lparr> allowFds := a \<rparr>))"

definition Parcel_restoreAllowFds :: "bool \<Rightarrow> u64 \<Rightarrow> parcels \<Rightarrow> (unit \<times> parcels) option" where
  "Parcel_restoreAllowFds a = on_parcel () (\<lambda>p. Some ((), p\<lparr> allowFds := a \<rparr>))"

subsection \<open>Numbers\<close>

text \<open>\<open>float\<close> and \<open>double\<close> values are their bit patterns.\<close>

definition Parcel_writeInt :: "int \<Rightarrow> u64 \<Rightarrow> parcels \<Rightarrow> (int \<times> parcels) option" where
  "Parcel_writeInt v = on_parcel 0 (writePOD (put32 (word_of_int v)))"

definition Parcel_writeLong :: "int \<Rightarrow> u64 \<Rightarrow> parcels \<Rightarrow> (int \<times> parcels) option" where
  "Parcel_writeLong v = on_parcel 0 (writePOD (put64 (word_of_int v)))"

definition Parcel_writeFloat :: "u32 \<Rightarrow> u64 \<Rightarrow> parcels \<Rightarrow> (int \<times> parcels) option" where
  "Parcel_writeFloat v = on_parcel 0 (writePOD (put32 v))"

definition Parcel_writeDouble :: "u64 \<Rightarrow> u64 \<Rightarrow> parcels \<Rightarrow> (int \<times> parcels) option" where
  "Parcel_writeDouble v = on_parcel 0 (writePOD (put64 v))"

definition read_u32 :: "OhParcelData \<Rightarrow> (u32 \<times> OhParcelData) option" where
  "read_u32 p = do { (v, p) \<leftarrow> readPOD 4 p; w \<leftarrow> rd32 v 0; Some (w, p) }"

definition read_u64 :: "OhParcelData \<Rightarrow> (u64 \<times> OhParcelData) option" where
  "read_u64 p = do { (v, p) \<leftarrow> readPOD 8 p; w \<leftarrow> rd64 v 0; Some (w, p) }"

definition read_int :: "OhParcelData \<Rightarrow> (int \<times> OhParcelData) option" where
  "read_int p = do { (w, p) \<leftarrow> read_u32 p; Some (sint w, p) }"

definition Parcel_readInt :: "u64 \<Rightarrow> parcels \<Rightarrow> (int \<times> parcels) option" where
  "Parcel_readInt = on_parcel 0 read_int"

definition Parcel_readLong :: "u64 \<Rightarrow> parcels \<Rightarrow> (int \<times> parcels) option" where
  "Parcel_readLong = on_parcel 0 (\<lambda>p. do { (w, p) \<leftarrow> read_u64 p; Some (sint w, p) })"

definition Parcel_readFloat :: "u64 \<Rightarrow> parcels \<Rightarrow> (u32 \<times> parcels) option" where
  "Parcel_readFloat = on_parcel 0 read_u32"

definition Parcel_readDouble :: "u64 \<Rightarrow> parcels \<Rightarrow> (u64 \<times> parcels) option" where
  "Parcel_readDouble = on_parcel 0 read_u64"

subsection \<open>Byte arrays and blobs\<close>

text \<open>The copy of \<open>length\<close> elements from \<open>offset\<close> on of a pinned Java array to a pointer.\<close>

definition copy_array :: "bytes \<Rightarrow> int \<Rightarrow> int \<Rightarrow> int \<Rightarrow> OhParcelData \<Rightarrow> OhParcelData option" where
  "copy_array data off len ptr p = (if off < 0 then None
     else do { v \<leftarrow> slice data (nat off) (nat len); store ptr v p })"

definition Parcel_writeByteArray ::
  "JNIEnv \<Rightarrow> bytes option \<Rightarrow> int \<Rightarrow> int \<Rightarrow> u64 \<Rightarrow> parcels \<Rightarrow> (unit \<times> parcels) option" where
  "Parcel_writeByteArray env data off len = on_parcel () (\<lambda>p. do {
     (_, p) \<leftarrow> writePOD (put32 (word_of_int len)) p;
     case data of
       Some ar \<Rightarrow> if len > 0 then do {
           (dest, p) \<leftarrow> writeInplace len p;
           case dest of
             Some ptr \<Rightarrow> if GetPrimitiveArrayCritical env
               then do { p \<leftarrow> copy_array ar off len ptr p; Some ((), p) } else Some ((), p)
           | None \<Rightarrow> Some ((), p) }
         else Some ((), p)
     | None \<Rightarrow> Some ((), p) })"

definition Parcel_writeBlob ::
  "JNIEnv \<Rightarrow> bytes option \<Rightarrow> int \<Rightarrow> int \<Rightarrow> u64 \<Rightarrow> parcels \<Rightarrow> (unit \<times> parcels) option" where
  "Parcel_writeBlob env data off len = on_parcel () (\<lambda>p.
     case data of
       None \<Rightarrow> do { (_, p) \<leftarrow> writePOD (put32 (word_of_int (- 1))) p; Some ((), p) }
     | Some ar \<Rightarrow> do {
         (_, p) \<leftarrow> writePOD (put32 (word_of_int len)) p;
         (_, p) \<leftarrow> writePOD (put32 (word_of_int 0)) p;
         (dest, p) \<leftarrow> writeInplace len p;
         case dest of
           Some ptr \<Rightarrow> do {
             p \<leftarrow> (if GetPrimitiveArrayCritical env then copy_array ar off len ptr p else memzero ptr len p);
             Some ((), p) }
         | None \<Rightarrow> Some ((), p) })"

text \<open>A new array of \<open>len\<close> elements, filled from the parcel when its bytes are there.\<close>

definition take_array :: "JNIEnv \<Rightarrow> int \<Rightarrow> OhParcelData \<Rightarrow> (bytes option \<times> OhParcelData) option" where
  "take_array env len p = (if \<not> NewByteArray env len then Some (None, p)
     else if len > 0 then do {
       (src, p) \<leftarrow> readBytes len p;
       case src of
         Some i \<Rightarrow> if GetPrimitiveArrayCritical env
           then do { v \<leftarrow> load i (nat len) p; Some (Some v, p) }
           else Some (Some (replicate (nat len) 0), p)
       | None \<Rightarrow> Some (Some (replicate (nat len) 0), p) }
     else Some (Some [], p))"

definition Parcel_createByteArray :: "JNIEnv \<Rightarrow> u64 \<Rightarrow> parcels \<Rightarrow> (bytes option \<times> parcels) option" where
  "Parcel_createByteArray env = on_parcel None (\<lambda>p. do {
     (len, p) \<leftarrow> read_int p;
     if len < 0 then Some (None, p)
     else do {
       a \<leftarrow> i32 (dataSize p - pos p);
       a \<leftarrow> i32 (a + 4);
       if len > a then Some (None, p) else take_array env len p } })"

text \<open>\<open>dest\<close> is the content of the Java array of length \<open>destLen\<close>; the result has its new content.\<close>

definition Parcel_readByteArray ::
  "JNIEnv \<Rightarrow> bytes \<Rightarrow> int \<Rightarrow> u64 \<Rightarrow> parcels \<Rightarrow> ((bool \<times> bytes) \<times> parcels) option" where
  "Parcel_readByteArray env dest destLen = on_parcel (False, dest) (\<lambda>p. do {
     (len, p) \<leftarrow> read_int p;
     if len \<noteq> destLen \<or> len < 0 then Some ((False, dest), p)
     else do {
       (src, p) \<leftarrow> readBytes len p;
       case src of None \<Rightarrow> Some ((False, dest), p)
       | Some i \<Rightarrow> if \<not> GetPrimitiveArrayCritical env then Some ((False, dest), p)
           else do { v \<leftarrow> load i (nat len) p; d \<leftarrow> poke dest 0 v; Some ((True, d), p) } } })"

definition Parcel_readBlob :: "JNIEnv \<Rightarrow> u64 \<Rightarrow> parcels \<Rightarrow> (bytes option \<times> parcels) option" where
  "Parcel_readBlob env = on_parcel None (\<lambda>p. do {
     (len, p) \<leftarrow> read_int p;
     if len < 0 then Some (None, p)
     else do { (flag, p) \<leftarrow> read_int p; take_array env len p } })"

subsection \<open>Strings\<close>

definition Parcel_writeString8 :: "JNIEnv \<Rightarrow> jchars option \<Rightarrow> u64 \<Rightarrow> parcels \<Rightarrow> (unit \<times> parcels) option" where
  "Parcel_writeString8 env val = on_parcel () (\<lambda>p.
     case val of
       None \<Rightarrow> do { (_, p) \<leftarrow> writePOD (put32 (word_of_int (- 1))) p; Some ((), p) }
     | Some s \<Rightarrow> do {
         let utf8Len = GetStringUTFLength env s;
         (_, p) \<leftarrow> writePOD (put32 (word_of_int utf8Len)) p;
         n \<leftarrow> i32 (utf8Len + 1);
         (dst, p) \<leftarrow> writeInplace n p;
         case dst of None \<Rightarrow> Some ((), p)
         | Some ptr \<Rightarrow> do {
             p \<leftarrow> store ptr (GetStringUTFRegion env s) p;
             p \<leftarrow> store (ptr + utf8Len) [0] p;
             Some ((), p) } })"

definition utf16_bytes :: "jchars \<Rightarrow> bytes" where
  "utf16_bytes s = concat (map put16 s)"

definition Parcel_writeString16 :: "jchars option \<Rightarrow> u64 \<Rightarrow> parcels \<Rightarrow> (unit \<times> parcels) option" where
  "Parcel_writeString16 val = on_parcel () (\<lambda>p.
     case val of
       None \<Rightarrow> do { (_, p) \<leftarrow> writePOD (put32 (word_of_int (- 1))) p; Some ((), p) }
     | Some s \<Rightarrow> do {
         let len = int (length s);
         (_, p) \<leftarrow> writePOD (put32 (word_of_int len)) p;
         n \<leftarrow> i32 (len + 1);
         (dst, p) \<leftarrow> writeInplace (to_i32 (n * 2)) p;
         case dst of None \<Rightarrow> Some ((), p)
         | Some ptr \<Rightarrow> do {
             p \<leftarrow> store ptr (utf16_bytes s) p;
             p \<leftarrow> store (ptr + 2 * len) (put16 0) p;
             Some ((), p) } })"

text \<open>\<open>NewStringUTF\<close> reads up to the terminator, wherever that is.\<close>

definition c_string :: "int \<Rightarrow> OhParcelData \<Rightarrow> bytes option" where
  "c_string i p = (if i < 0 \<or> 0 \<notin> set (drop (nat i) (buf p)) then None
     else Some (takeWhile (\<lambda>b. b \<noteq> 0) (drop (nat i) (buf p))))"

definition Parcel_readString8 :: "JNIEnv \<Rightarrow> u64 \<Rightarrow> parcels \<Rightarrow> (jchars option \<times> parcels) option" where
  "Parcel_readString8 env = on_parcel None (\<lambda>p. do {
     (len, p) \<leftarrow> read_int p;
     if len < 0 then Some (None, p)
     else do {
       n \<leftarrow> i32 (len + 1);
       (src, p) \<leftarrow> readBytes n p;
       case src of None \<Rightarrow> Some (None, p)
       | Some i \<Rightarrow> do { s \<leftarrow> c_string i p; Some (NewStringUTF env s, p) } } })"

definition Parcel_readString16 :: "JNIEnv \<Rightarrow> u64 \<Rightarrow> parcels \<Rightarrow> (jchars option \<times> parcels) option" where
  "Parcel_readString16 env = on_parcel None (\<lambda>p. do {
     (len, p) \<leftarrow> read_int p;
     if len < 0 then Some (None, p)
     else do {
       n \<leftarrow> i32 (len + 1);
       (src, p) \<leftarrow> readBytes (to_i32 (n * 2)) p;
       case src of None \<Rightarrow> Some (None, p)
       | Some i \<Rightarrow> do {
           v \<leftarrow> load i (2 * nat len) p;
           s \<leftarrow> read_array rd16 2 v 0 (nat len);
           Some (NewString env s, p) } } })"

subsection \<open>Whole parcels\<close>

definition Parcel_marshall :: "JNIEnv \<Rightarrow> u64 \<Rightarrow> parcels \<Rightarrow> (bytes option \<times> parcels) option" where
  "Parcel_marshall env = on_parcel None (\<lambda>p.
     if \<not> NewByteArray env (dataSize p) then Some (None, p)
     else if dataSize p > 0 \<and> GetPrimitiveArrayCritical env
       then do { v \<leftarrow> load 0 (nat (dataSize p)) p; Some (Some v, p) }
     else Some (Some (replicate (nat (dataSize p)) 0), p))"

definition Parcel_unmarshall ::
  "JNIEnv \<Rightarrow> bytes \<Rightarrow> int \<Rightarrow> int \<Rightarrow> u64 \<Rightarrow> parcels \<Rightarrow> (unit \<times> parcels) option" where
  "Parcel_unmarshall env data off len = on_parcel () (\<lambda>p. if len < 0 then Some ((), p)
     else do {
       let p = (ensureCap len p)\<lparr> dataSize := len, pos := 0 \<rparr>;
       p \<leftarrow> (if len > 0 \<and> GetPrimitiveArrayCritical env then copy_array data off len 0 p else Some p);
       Some ((), p) })"

text \<open>The sign of \<open>memcmp\<close> on blocks of equal length; only its sign is specified.\<close>

fun memcmp :: "bytes \<Rightarrow> bytes \<Rightarrow> int" where
  "memcmp (x # xs) (y # ys) = (if x < y then - 1 else if y < x then 1 else memcmp xs ys)"
| "memcmp _ _ = 0"

definition Parcel_compareData :: "u64 \<Rightarrow> u64 \<Rightarrow> parcels \<Rightarrow> int option" where
  "Parcel_compareData thisNp otherNp H = do {
     ra \<leftarrow> asParcel H thisNp;
     rb \<leftarrow> asParcel H otherNp;
     case (ra, rb) of
       (Some a, Some b) \<Rightarrow> do {
         let n = (if dataSize a < dataSize b then dataSize a else dataSize b);
         diff \<leftarrow> (if n > 0 then do { u \<leftarrow> load 0 (nat n) a; v \<leftarrow> load 0 (nat n) b; Some (memcmp u v) }
                 else Some 0);
         if diff \<noteq> 0 then Some diff else i32 (dataSize a - dataSize b) }
     | _ \<Rightarrow> Some (- 1) }"

definition Parcel_compareDataInRange ::
  "u64 \<Rightarrow> int \<Rightarrow> u64 \<Rightarrow> int \<Rightarrow> int \<Rightarrow> parcels \<Rightarrow> bool option" where
  "Parcel_compareDataInRange thisNp thisOffset otherNp otherOffset len H = do {
     ra \<leftarrow> asParcel H thisNp;
     rb \<leftarrow> asParcel H otherNp;
     case (ra, rb) of
       (Some a, Some b) \<Rightarrow> do {
         ea \<leftarrow> i32 (thisOffset + len);
         if ea > dataSize a then Some False
         else do {
           eb \<leftarrow> i32 (otherOffset + len);
           if eb > dataSize b then Some False
           else if len \<le> 0 then Some True
           else do {
             u \<leftarrow> load thisOffset (nat len) a;
             v \<leftarrow> load otherOffset (nat len) b;
             Some (memcmp u v = 0) } } }
     | _ \<Rightarrow> Some False }"

definition Parcel_appendFrom ::
  "u64 \<Rightarrow> u64 \<Rightarrow> int \<Rightarrow> int \<Rightarrow> parcels \<Rightarrow> (unit \<times> parcels) option" where
  "Parcel_appendFrom thisNp otherNp off len H = do {
     ra \<leftarrow> asParcel H thisNp;
     rb \<leftarrow> asParcel H otherNp;
     case (ra, rb) of
       (Some a, Some b) \<Rightarrow>
         if len < 0 then Some ((), H)
         else do {
           e \<leftarrow> i32 (off + len);
           if e > dataSize b then Some ((), H)
           else do {
             src \<leftarrow> (if thisNp = otherNp then Some (Own off)
                    else if len = 0 then Some Null
                    else do { v \<leftarrow> load off (nat len) b; Some (Other v) });
             (_, a) \<leftarrow> writeBytes src len a;
             Some ((), H(thisNp \<mapsto> a)) } }
     | _ \<Rightarrow> Some ((), H) }"

subsection \<open>Stubs of the binder functions\<close>

definition Parcel_writeStrongBinder :: "u64 \<Rightarrow> parcels \<Rightarrow> (unit \<times> parcels) option" where
  "Parcel_writeStrongBinder = on_parcel () (\<lambda>p. do {
     (_, p) \<leftarrow> writePOD (put32 (word_of_int 0)) p; Some ((), p) })"

definition Parcel_readStrongBinder :: "u64 \<Rightarrow> parcels \<Rightarrow> (unit option \<times> parcels) option" where
  "Parcel_readStrongBinder = on_parcel None (\<lambda>p. do { (_, p) \<leftarrow> read_int p; Some (None, p) })"

text \<open>The remaining binder functions ignore the parcel.\<close>

definition Parcel_hasFileDescriptors :: "u64 \<Rightarrow> bool" where
  "Parcel_hasFileDescriptors np = False"

definition Parcel_readCallingWorkSourceUid :: "u64 \<Rightarrow> int" where
  "Parcel_readCallingWorkSourceUid np = - 1"

section \<open>The invariant of a parcel\<close>

definition padn :: "nat \<Rightarrow> nat" where
  "padn n = (n + 3) div 4 * 4"

lemma padn_bounds: "n \<le> padn n" "padn n < n + 4" "4 dvd padn n"
proof -
  show "n \<le> padn n" "padn n < n + 4" unfolding padn_def by linarith+
qed (simp add: padn_def)

lemma padn_multiple: "4 dvd n \<Longrightarrow> padn n = n"
  by (auto simp: padn_def)

lemma and_not_3: "m AND - 4 = m div 4 * 4" for m :: int
proof -
  have "Suc (Suc (n - 2)) = n" if "2 \<le> n" for n using that by simp
  then have "m AND NOT (mask 2) = push_bit 2 (drop_bit 2 m)"
    by (intro bit_eqI) (auto simp: bit_simps)
  then show ?thesis by (simp add: push_bit_eq_mult drop_bit_eq_div mask_eq_exp_minus_1)
qed

lemma i32_eq_Some: "i32 x = Some y \<longleftrightarrow> int32 x \<and> y = x"
  by (auto simp: i32_def)

lemma i32_fits: "- (2 ^ 31) \<le> x \<Longrightarrow> x < 2 ^ 31 \<Longrightarrow> i32 x = Some x"
  by (simp add: i32_def int32_def)

lemma pad4_nat: "int n + 3 < 2 ^ 31 \<Longrightarrow> pad4 (int n) = Some (int (padn n))"
  by (simp add: pad4_def i32_fits and_not_3 padn_def zdiv_int)

lemma pad4_result:
  assumes "pad4 n = Some a" "0 \<le> n"
  shows "a = int (padn (nat n))" "n \<le> a" "a < n + 4"
proof -
  have "int (nat n) + 3 < 2 ^ 31" using assms
    by (auto simp: pad4_def i32_eq_Some int32_def bind_eq_Some_conv)
  then have "pad4 (int (nat n)) = Some (int (padn (nat n)))" by (rule pad4_nat)
  then show "a = int (padn (nat n))" using assms by simp
  then show "n \<le> a" "a < n + 4" using padn_bounds [of "nat n"] assms(2) by linarith+
qed

lemma to_i32_small: "- (2 ^ 31) \<le> x \<Longrightarrow> x < 2 ^ 31 \<Longrightarrow> to_i32 x = x"
  unfolding to_i32_def by (rule sint_small)

definition parcel_ok :: "OhParcelData \<Rightarrow> bool" where
  "parcel_ok p \<longleftrightarrow> magic p = PARCEL_MAGIC \<and> 0 \<le> pos p \<and> pos p < 2 ^ 31 \<and> 0 \<le> dataSize p
     \<and> dataSize p \<le> int (length (buf p)) \<and> int (length (buf p)) < 2 ^ 31 \<and> length (buf p) \<le> cap p"

text \<open>What a reader sees of a parcel.\<close>

definition content :: "OhParcelData \<Rightarrow> bytes" where
  "content p = take (nat (dataSize p)) (buf p)"

lemma parcel_ok_new: "parcel_ok new_OhParcelData"
  by (simp add: parcel_ok_def new_OhParcelData_def)

lemma length_content: "parcel_ok p \<Longrightarrow> int (length (content p)) = dataSize p"
  by (auto simp: parcel_ok_def content_def)

lemma length_vec_resize [simp]: "length (buf (vec_resize n p)) = n"
  by (simp add: vec_resize_def)

lemma vec_resize_frame [simp]:
  "pos (vec_resize n p) = pos p" "dataSize (vec_resize n p) = dataSize p" "magic (vec_resize n p) = magic p"
  by (simp_all add: vec_resize_def)

lemma ensureCap_grows:
  assumes "parcel_ok p" "need < 2 ^ 31"
  shows "int (length (buf (ensureCap need p))) = max (int (length (buf p))) need"
    and "take (length (buf p)) (buf (ensureCap need p)) = buf p"
    and "length (buf (ensureCap need p)) \<le> cap (ensureCap need p)"
    and "pos (ensureCap need p) = pos p" and "dataSize (ensureCap need p) = dataSize p"
    and "magic (ensureCap need p) = magic p"
  using assms by (auto simp: parcel_ok_def ensureCap_def to_i32_small vec_resize_def)

lemma ensureCap_ok: "parcel_ok p \<Longrightarrow> need < 2 ^ 31 \<Longrightarrow> parcel_ok (ensureCap need p)"
  using ensureCap_grows [of p need] by (auto simp: parcel_ok_def)

lemma ensureCap_content:
  assumes "parcel_ok p" "need < 2 ^ 31" shows "content (ensureCap need p) = content p"
proof -
  have "nat (dataSize p) \<le> length (buf p)" using assms(1) by (auto simp: parcel_ok_def)
  then have "take (nat (dataSize p)) (buf (ensureCap need p))
      = take (nat (dataSize p)) (take (length (buf p)) (buf (ensureCap need p)))"
    by (simp add: min_absorb1)
  then show ?thesis by (simp add: content_def ensureCap_grows [OF assms])
qed

section \<open>Bytes written at the cursor\<close>

text \<open>Bytes put over a byte string from position \<open>i\<close> on, making it longer where they reach past its end.\<close>

definition overlay :: "nat \<Rightarrow> bytes \<Rightarrow> bytes \<Rightarrow> bytes" where
  "overlay i v b = take i b @ v @ drop (i + length v) b"

lemma overlay_end: "overlay (length b) v b = b @ v"
  by (simp add: overlay_def)

lemma overlay_overlay:
  assumes "i \<le> length b"
  shows "overlay (i + length v) w (overlay i v b) = overlay i (v @ w) b"
  using assms by (auto simp: overlay_def min_def ac_simps)

lemma poke_overlay: "i + length v \<le> length b \<Longrightarrow> poke b i v = Some (overlay i v b)"
  by (simp add: poke_def overlay_def)

lemma length_overlay: "i \<le> length b \<Longrightarrow> length (overlay i v b) = max (length b) (i + length v)"
  by (simp add: overlay_def)

lemma store_ok:
  "parcel_ok p \<Longrightarrow> 0 \<le> i \<Longrightarrow> i + int (length v) \<le> int (length (buf p)) \<Longrightarrow>
     store i v p = Some (p\<lparr> buf := overlay (nat i) v (buf p) \<rparr>)"
  by (simp add: store_def poke_overlay)

lemma take_overlay:
  "i + length v \<le> n \<Longrightarrow> i \<le> length b \<Longrightarrow> take n (overlay i v b) = overlay i v (take n b)"
  by (cases "n = i") (auto simp: overlay_def take_drop min_def)

text \<open>
  The effect of a write: the bytes \<open>v\<close> replace what is at the cursor, the cursor is behind them, and
  the flags are the same.
\<close>

definition writes :: "bytes \<Rightarrow> OhParcelData \<Rightarrow> OhParcelData \<Rightarrow> bool" where
  "writes v p p' \<longleftrightarrow> parcel_ok p' \<and> pos p' = pos p + int (length v) \<and> pos p' \<le> dataSize p'
     \<and> content p' = overlay (nat (pos p)) v (content p)
     \<and> allowFds p' = allowFds p \<and> sensitive p' = sensitive p \<and> forRpc p' = forRpc p"

lemma writes_trans:
  assumes "writes v p q" "writes w q r" "parcel_ok p" "pos p \<le> dataSize p"
  shows "writes (v @ w) p r"
proof -
  have "nat (pos p) \<le> length (content p)" using assms(3,4) length_content [of p] by linarith
  moreover have "nat (pos q) = nat (pos p) + length v"
    using assms(1,3) by (simp add: writes_def parcel_ok_def nat_add_distrib)
  ultimately show ?thesis using assms(1,2) by (simp add: writes_def overlay_overlay)
qed

definition padded :: "bytes \<Rightarrow> bytes" where
  "padded v = v @ replicate (padn (length v) - length v) 0"

lemma length_padded [simp]: "length (padded v) = padn (length v)"
  using padn_bounds(1) [of "length v"] by (simp add: padded_def)

lemma padded_multiple: "4 dvd length v \<Longrightarrow> padded v = v"
  by (simp add: padded_def padn_multiple)

lemma padded_put [simp]: "padded (put32 a) = put32 a" "padded (put64 b) = put64 b"
  by (simp_all add: padded_multiple)

lemma store_frame:
  "store i v p = Some q \<Longrightarrow> \<exists>b. q = p\<lparr> buf := b \<rparr> \<and> length b = length (buf p)"
  by (auto simp: store_def bind_eq_Some_conv poke_length split: if_splits)

lemma store_fits:
  "0 \<le> i \<Longrightarrow> i + int (length v) \<le> int (length (buf p)) \<Longrightarrow>
     store i v p = Some (p\<lparr> buf := overlay (nat i) v (buf p) \<rparr>)"
  by (simp add: store_def poke_overlay)

lemma store_store:
  assumes "0 \<le> i" "n = int (length v)"
  shows "Option.bind (store i v p) (store (i + n) w) = store i (v @ w) p"
proof (cases "i + n + int (length w) \<le> int (length (buf p))")
  case True
  then have "i + n \<le> int (length (buf p))" "nat i \<le> length (buf p)" "nat (i + n) = nat i + length v"
    using assms by linarith+
  then show ?thesis using assms True
    by (simp add: store_fits length_overlay overlay_overlay)
next
  case False
  then have "store i (v @ w) p = None" using assms by (simp add: store_def poke_def)
  moreover have "store (i + n) w q = None" if "store i v p = Some q" for q
    using store_frame [OF that] assms False by (auto simp: store_def poke_def)
  ultimately show ?thesis by (cases "store i v p") simp_all
qed

lemma store_padded:
  assumes "0 \<le> i" "n = int (length v)" "a = int (padn (length v))"
  shows "Option.bind (store i v p) (\<lambda>q. if a > n then memzero (i + n) (a - n) q else Some q)
      = store i (padded v) p"
proof -
  have e: "nat (a - n) = padn (length v) - length v" using assms by simp
  have "Option.bind (store i v p) (\<lambda>q. if a > n then memzero (i + n) (a - n) q else Some q)
      = Option.bind (store i v p) (store (i + n) (replicate (padn (length v) - length v) 0))"
  proof (cases "a > n")
    case False
    have "store (i + n) [] q = Some q" if "store i v p = Some q" for q
      using store_frame [OF that] that assms
      by (auto simp: store_def poke_def bind_eq_Some_conv split: if_splits)
    then show ?thesis using False assms padn_bounds(1) [of "length v"]
      by (cases "store i v p") simp_all
  qed (simp add: memzero_def e)
  then show ?thesis using store_store [OF assms(1,2)] by (simp add: padded_def)
qed

lemma advanceWrite_fits:
  "int32 (pos p + a) \<Longrightarrow> advanceWrite a p
     = Some (p\<lparr> pos := pos p + a, dataSize := max (dataSize p) (pos p + a) \<rparr>)"
  by (auto simp: advanceWrite_def i32_def max_def)

text \<open>Growing the vector, storing at the cursor and moving the cursor is a write.\<close>

lemma commit_writes:
  assumes ok: "parcel_ok p" "pos p \<le> dataSize p" and fit: "pos p + int (length w) < 2 ^ 31"
  defines "q \<equiv> ensureCap (pos p + int (length w)) p"
  shows "\<exists>r. store (pos p) w q = Some r \<and> pos r = pos p \<and> parcel_ok r \<and> length (buf r) = length (buf q)
       \<and> (\<exists>p'. advanceWrite (int (length w)) r = Some p' \<and> writes w p p')"
proof -
  have p0: "0 \<le> pos p" using ok(1) by (simp add: parcel_ok_def)
  have q: "parcel_ok q" "content q = content p" "pos q = pos p" "dataSize q = dataSize p"
    "pos p + int (length w) \<le> int (length (buf q))"
    using ok fit by (simp_all add: q_def ensureCap_ok ensureCap_content ensureCap_grows)
  have fl: "allowFds q = allowFds p" "sensitive q = sensitive p" "forRpc q = forRpc p"
    by (simp_all add: q_def ensureCap_def vec_resize_def)
  define r where "r = q\<lparr> buf := overlay (nat (pos p)) w (buf q) \<rparr>"
  define d where "d = max (dataSize p) (pos p + int (length w))"
  have st: "store (pos p) w q = Some r" unfolding r_def by (rule store_fits) (use p0 q in simp_all)
  have len: "length (buf r) = length (buf q)" using q(5) p0 by (simp add: r_def length_overlay)
  have okr: "parcel_ok r" using q len by (simp add: parcel_ok_def r_def)
  have adv: "advanceWrite (int (length w)) r = Some (r\<lparr> pos := pos p + int (length w), dataSize := d \<rparr>)"
    using advanceWrite_fits [of r "int (length w)"] fit p0 q(3,4)
    by (simp add: int32_def r_def d_def)
  have i: "nat (pos p) \<le> nat (dataSize p)" "nat (dataSize p) \<le> length (buf q)"
    using ok q(1,4) by (auto simp: parcel_ok_def)
  have "take (nat d) (overlay (nat (pos p)) w (buf q)) = overlay (nat (pos p)) w (take (nat d) (buf q))"
    by (rule take_overlay) (use p0 i in \<open>simp_all add: d_def\<close>)
  also have "\<dots> = overlay (nat (pos p)) w (take (nat (dataSize p)) (buf q))"
  proof (cases "d = dataSize p")
    case False
    then have "nat d = nat (pos p) + length w" "nat (dataSize p) \<le> nat (pos p) + length w"
      using p0 by (simp_all add: d_def max_def nat_add_distrib split: if_splits)
    then show ?thesis using i by (simp add: overlay_def min_def)
  qed simp
  finally have c: "take (nat d) (overlay (nat (pos p)) w (buf q)) = overlay (nat (pos p)) w (content p)"
    using q(2,4) by (simp add: content_def)
  have "d < 2 ^ 31" "0 \<le> d" "d \<le> int (length (buf q))"
    using ok q fit p0 by (simp_all add: d_def parcel_ok_def)
  then have "writes w p (r\<lparr> pos := pos p + int (length w), dataSize := d \<rparr>)"
    using q okr fit p0 c fl len by (simp add: writes_def parcel_ok_def content_def r_def d_def)
  then show ?thesis using st okr len adv q(3) by (auto simp: r_def)
qed

lemma padn_fits: "int (padn n) < 2 ^ 31 \<Longrightarrow> int n + 3 < 2 ^ 31"
  unfolding padn_def by simp

lemma pad4_fits:
  assumes "0 \<le> q" "q + int (padn n) < 2 ^ 31"
  shows "pad4 (int n) = Some (int (padn n))" "i32 (q + int (padn n)) = Some (q + int (padn n))"
proof -
  have "int (padn n) < 2 ^ 31" using assms by linarith
  then show "pad4 (int n) = Some (int (padn n))" by (intro pad4_nat padn_fits)
  have "- (2 ^ 31) \<le> (0::int)" by simp
  then show "i32 (q + int (padn n)) = Some (q + int (padn n))" using assms
    by (intro i32_fits) linarith+
qed

lemma writePOD_writes:
  assumes "parcel_ok p" "pos p \<le> dataSize p" "pos p + int (padn (length v)) < 2 ^ 31"
  shows "\<exists>p'. writePOD v p = Some (0, p') \<and> writes (padded v) p p'"
proof -
  have p0: "0 \<le> pos p" using assms(1) by (simp add: parcel_ok_def)
  define q where "q = ensureCap (pos p + int (padn (length v))) p"
  have pq: "pos q = pos p" using ensureCap_grows(4) assms(1,3) by (simp add: q_def)
  obtain r p' where r: "store (pos p) (padded v) q = Some r" "pos r = pos p"
    "advanceWrite (int (padn (length v))) r = Some p'" "writes (padded v) p p'"
    using commit_writes [of p "padded v"] assms by (auto simp: q_def)
  have "Option.bind (store (pos p) v q) (\<lambda>x. if int (padn (length v)) > int (length v)
      then memzero (pos p + int (length v)) (int (padn (length v)) - int (length v)) x else Some x) = Some r"
    using store_padded [OF p0 refl refl, of v q] r(1) by simp
  then obtain x where x: "store (pos p) v q = Some x" "(if int (padn (length v)) > int (length v)
      then memzero (pos p + int (length v)) (int (padn (length v)) - int (length v)) x else Some x) = Some r"
    by (auto simp: bind_eq_Some_conv)
  then have "pos x = pos p" using store_frame [OF x(1)] pq by auto
  then show ?thesis using pad4_fits [OF p0 assms(3)] pq x r
    by (cases "int (padn (length v)) > int (length v)")
      (simp_all add: writePOD_def q_def [symmetric] Let_def del: of_nat_less_iff)
qed

text \<open>A reserved block that is filled afterwards is a write as well.\<close>

lemma writeInplace_writes:
  assumes ok: "parcel_ok p" "pos p \<le> dataSize p" "pos p + int (padn n) < 2 ^ 31" and s: "0 < n \<or> 0 < cap p"
  shows "\<exists>p1. writeInplace (int n) p = Some (Some (pos p), p1)
     \<and> (\<forall>v. length v = n \<longrightarrow> (\<exists>p'. store (pos p) v p1 = Some p' \<and> writes (padded v) p p'))"
proof -
  have p0: "0 \<le> pos p" using ok(1) by (simp add: parcel_ok_def)
  define a where "a = int (padn n)"
  define q where "q = ensureCap (pos p + a) p"
  define z where "z = (replicate (padn n - n) 0 :: bytes)"
  define p1 where "p1 = q\<lparr> buf := overlay (nat (pos p) + n) z (buf q), pos := pos p + a,
    dataSize := max (dataSize q) (pos p + a) \<rparr>"
  have q: "pos q = pos p" "pos p + a \<le> int (length (buf q))" "parcel_ok q"
    using ensureCap_grows [OF ok(1)] ensureCap_ok [OF ok(1)] ok(3) by (simp_all add: q_def a_def)
  have pn: "n \<le> padn n" by (rule padn_bounds)
  have capq: "cap q \<noteq> 0"
  proof (cases "0 < n")
    case True
    then have "0 < length (buf q)" using q(2) p0 pn unfolding a_def by linarith
    then show ?thesis using q(3) unfolding parcel_ok_def by linarith
  qed (use s in \<open>auto simp: q_def ensureCap_def vec_resize_def max_def\<close>)
  have z: "(if a > int n then memzero (pos p + int n) (a - int n) q else Some q)
      = Some (q\<lparr> buf := overlay (nat (pos p) + n) z (buf q) \<rparr>)"
  proof (cases "a > int n")
    case True
    have "store (pos p + int n) z q = Some (q\<lparr> buf := overlay (nat (pos p + int n)) z (buf q) \<rparr>)"
      by (rule store_fits) (use p0 q(2) pn in \<open>simp_all add: z_def a_def\<close>)
    moreover have "nat (a - int n) = padn n - n" by (simp add: a_def)
    ultimately show ?thesis using True p0 by (simp add: memzero_def z_def nat_add_distrib)
  next
    case False
    then show ?thesis using pn by (simp add: a_def z_def overlay_def)
  qed
  have adv: "advanceWrite a (q\<lparr> buf := b \<rparr>)
      = Some (q\<lparr> buf := b, pos := pos p + a, dataSize := max (dataSize q) (pos p + a) \<rparr>)" for b
    using advanceWrite_fits [of "q\<lparr> buf := b \<rparr>" a] ok(3) p0 q(1) by (simp add: int32_def a_def)
  have "writeInplace (int n) p = Some (Some (pos p), p1)"
    using pad4_fits [OF p0 ok(3)] q(1) capq z adv [of "overlay (nat (pos p) + n) z (buf q)"]
    by (cases "int n < a") (simp_all add: writeInplace_def q_def [symmetric] a_def [symmetric] Let_def p1_def del: of_nat_less_iff)
  moreover have "\<exists>p'. store (pos p) v p1 = Some p' \<and> writes (padded v) p p'" if "length v = n" for v
  proof -
    have len: "nat (pos p) + n + length z \<le> length (buf q)" using q(2) p0 pn by (simp add: a_def z_def)
    have sw: "overlay (nat (pos p)) v (overlay (nat (pos p) + n) z (buf q)) = overlay (nat (pos p)) (padded v) (buf q)"
      using that len by (simp add: overlay_def padded_def z_def ac_simps)
    have "p1\<lparr> buf := b \<rparr> = q\<lparr> buf := b, pos := pos p + a, dataSize := max (dataSize q) (pos p + a) \<rparr>" for b
      by (cases q) (simp add: p1_def)
    then have "store (pos p) v p1 = Some (q\<lparr> buf := overlay (nat (pos p)) (padded v) (buf q),
        pos := pos p + a, dataSize := max (dataSize q) (pos p + a) \<rparr>)"
      using store_fits [of "pos p" v p1] p0 len that by (simp add: p1_def length_overlay sw)
    moreover have "store (pos p) (padded v) q = Some (q\<lparr> buf := overlay (nat (pos p)) (padded v) (buf q) \<rparr>)"
      by (rule store_fits) (use p0 q(2) that in \<open>simp_all add: a_def\<close>)
    ultimately show ?thesis using commit_writes [of p "padded v"] ok that
      adv [of "overlay (nat (pos p)) (padded v) (buf q)"]
      by (auto simp: a_def [symmetric] q_def [symmetric] p1_def)
  qed
  ultimately show ?thesis by blast
qed

section \<open>Values and their wire format\<close>

datatype item = PInt int | PLong int | PFloat u32 | PDouble u64 | PByteArray "bytes option"
  | PBlob "bytes option" | PString8 "jchars option" | PString16 "jchars option" | PBinder

text \<open>The layout that the comment at the head of the file documents.\<close>

definition len32 :: "nat \<Rightarrow> bytes" where
  "len32 n = put32 (word_of_int (int n))"

fun wire :: "JNIEnv \<Rightarrow> item \<Rightarrow> bytes" where
  "wire env (PInt v) = put32 (word_of_int v)"
| "wire env (PLong v) = put64 (word_of_int v)"
| "wire env (PFloat v) = put32 v"
| "wire env (PDouble v) = put64 v"
| "wire env (PByteArray None) = put32 (- 1)"
| "wire env (PByteArray (Some b)) = len32 (length b) @ padded b"
| "wire env (PBlob None) = put32 (- 1)"
| "wire env (PBlob (Some b)) = len32 (length b) @ put32 0 @ padded b"
| "wire env (PString8 None) = put32 (- 1)"
| "wire env (PString8 (Some s)) = len32 (length (GetStringUTFRegion env s)) @ padded (GetStringUTFRegion env s @ [0])"
| "wire env (PString16 None) = put32 (- 1)"
| "wire env (PString16 (Some s)) = len32 (length s) @ padded (utf16_bytes s @ put16 0)"
| "wire env PBinder = put32 0"

text \<open>The call that writes a value, and the call that reads a value of the same kind.\<close>

fun write_item :: "JNIEnv \<Rightarrow> item \<Rightarrow> u64 \<Rightarrow> parcels \<Rightarrow> parcels option" where
  "write_item env (PInt v) np H = map_option snd (Parcel_writeInt v np H)"
| "write_item env (PLong v) np H = map_option snd (Parcel_writeLong v np H)"
| "write_item env (PFloat v) np H = map_option snd (Parcel_writeFloat v np H)"
| "write_item env (PDouble v) np H = map_option snd (Parcel_writeDouble v np H)"
| "write_item env (PByteArray None) np H = map_option snd (Parcel_writeByteArray env None 0 (- 1) np H)"
| "write_item env (PByteArray (Some b)) np H =
     map_option snd (Parcel_writeByteArray env (Some b) 0 (int (length b)) np H)"
| "write_item env (PBlob None) np H = map_option snd (Parcel_writeBlob env None 0 0 np H)"
| "write_item env (PBlob (Some b)) np H =
     map_option snd (Parcel_writeBlob env (Some b) 0 (int (length b)) np H)"
| "write_item env (PString8 s) np H = map_option snd (Parcel_writeString8 env s np H)"
| "write_item env (PString16 s) np H = map_option snd (Parcel_writeString16 s np H)"
| "write_item env PBinder np H = map_option snd (Parcel_writeStrongBinder np H)"

fun read_item :: "JNIEnv \<Rightarrow> item \<Rightarrow> u64 \<Rightarrow> parcels \<Rightarrow> (item \<times> parcels) option" where
  "read_item env (PInt _) np H = map_option (map_prod PInt id) (Parcel_readInt np H)"
| "read_item env (PLong _) np H = map_option (map_prod PLong id) (Parcel_readLong np H)"
| "read_item env (PFloat _) np H = map_option (map_prod PFloat id) (Parcel_readFloat np H)"
| "read_item env (PDouble _) np H = map_option (map_prod PDouble id) (Parcel_readDouble np H)"
| "read_item env (PByteArray _) np H = map_option (map_prod PByteArray id) (Parcel_createByteArray env np H)"
| "read_item env (PBlob _) np H = map_option (map_prod PBlob id) (Parcel_readBlob env np H)"
| "read_item env (PString8 _) np H = map_option (map_prod PString8 id) (Parcel_readString8 env np H)"
| "read_item env (PString16 _) np H = map_option (map_prod PString16 id) (Parcel_readString16 env np H)"
| "read_item env PBinder np H = map_option (map_prod (\<lambda>_. PBinder) id) (Parcel_readStrongBinder np H)"

fun write_items :: "JNIEnv \<Rightarrow> item list \<Rightarrow> u64 \<Rightarrow> parcels \<Rightarrow> parcels option" where
  "write_items env [] np H = Some H"
| "write_items env (x # xs) np H = do { H \<leftarrow> write_item env x np H; write_items env xs np H }"

fun read_items :: "JNIEnv \<Rightarrow> item list \<Rightarrow> u64 \<Rightarrow> parcels \<Rightarrow> (item list \<times> parcels) option" where
  "read_items env [] np H = Some ([], H)"
| "read_items env (x # xs) np H = do {
     (y, H) \<leftarrow> read_item env x np H; (ys, H) \<leftarrow> read_items env xs np H; Some (y # ys, H) }"

text \<open>
  The virtual machine as documented: arrays of non-negative length can be allocated and pinned, a
  string is created from its characters.
\<close>

definition jni_ok :: "JNIEnv \<Rightarrow> bool" where
  "jni_ok env \<longleftrightarrow> GetPrimitiveArrayCritical env \<and> (\<forall>n. 0 \<le> n \<longrightarrow> NewByteArray env n)
     \<and> (\<forall>s. NewString env s = Some s)"

text \<open>Modified UTF-8 has no zero byte, its length is known beforehand, and it can be decoded.\<close>

definition utf_ok :: "JNIEnv \<Rightarrow> jchars \<Rightarrow> bool" where
  "utf_ok env s \<longleftrightarrow> 0 \<notin> set (GetStringUTFRegion env s)
     \<and> GetStringUTFLength env s = int (length (GetStringUTFRegion env s))
     \<and> NewStringUTF env (GetStringUTFRegion env s) = Some s"

fun item_ok :: "JNIEnv \<Rightarrow> item \<Rightarrow> bool" where
  "item_ok env (PInt v) \<longleftrightarrow> int32 v"
| "item_ok env (PLong v) \<longleftrightarrow> - (2 ^ 63) \<le> v \<and> v < 2 ^ 63"
| "item_ok env (PString8 (Some s)) \<longleftrightarrow> utf_ok env s"
| "item_ok env _ \<longleftrightarrow> True"

lemma length_len32 [simp]: "length (len32 n) = 4"
  by (simp add: len32_def)

lemma on_parcel_run:
  assumes "H np = Some p" "np \<noteq> 0" "parcel_ok p"
  shows "on_parcel d f np H = do { (x, q) \<leftarrow> f p; Some (x, H(np \<mapsto> q)) }"
  using assms by (simp add: on_parcel_def asParcel_def parcel_ok_def)

lemma write32:
  assumes "parcel_ok p" "pos p \<le> dataSize p" "pos p + 4 < 2 ^ 31"
  obtains p' where "writePOD (put32 v) p = Some (0, p')" "writes (put32 v) p p'"
  using writePOD_writes [of p "put32 v"] assms by (auto simp: padn_multiple)

lemma write64:
  assumes "parcel_ok p" "pos p \<le> dataSize p" "pos p + 8 < 2 ^ 31"
  obtains p' where "writePOD (put64 v) p = Some (0, p')" "writes (put64 v) p p'"
  using writePOD_writes [of p "put64 v"] assms by (auto simp: padn_multiple)

lemma writes_after:
  assumes "writes v p q" "parcel_ok p"
  shows "parcel_ok q" "pos q \<le> dataSize q" "pos q = pos p + int (length v)"
    "v \<noteq> [] \<Longrightarrow> 0 < cap q"
proof -
  show "parcel_ok q" "pos q \<le> dataSize q" "pos q = pos p + int (length v)"
    using assms(1) by (simp_all add: writes_def)
  then have "0 < length v \<Longrightarrow> 0 < cap q" using assms(2) unfolding parcel_ok_def by linarith
  then show "v \<noteq> [] \<Longrightarrow> 0 < cap q" by simp
qed

text \<open>A length followed by a block that is reserved and then filled.\<close>

lemma writeInplace_fill:
  assumes "parcel_ok p" "pos p \<le> dataSize p" "pos p + int (padn (length v)) < 2 ^ 31" "0 < length v \<or> 0 < cap p"
  obtains p1 p' where "writeInplace (int (length v)) p = Some (Some (pos p), p1)"
    "store (pos p) v p1 = Some p'" "writes (padded v) p p'"
  using writeInplace_writes [OF assms(1-3)] assms(4) by blast

lemma store_two:
  assumes "store i (v @ w) p = Some q" "0 \<le> i" "n = int (length v)"
  obtains r where "store i v p = Some r" "store (i + n) w r = Some q"
  using store_store [of i n v p w] assms by (auto simp: bind_eq_Some_conv)

lemma copy_array_whole: "copy_array b 0 (int (length b)) i p = store i b p"
  by (simp add: copy_array_def slice_all)

text \<open>One lemma for the four ways of writing a number, and one for a block behind a length.\<close>

lemma write_block:
  assumes ok: "parcel_ok p" "pos p \<le> dataSize p" and fit: "pos p + 4 + int (padn (length v)) < 2 ^ 31"
  obtains p1 p2 p3 where "writePOD (put32 w) p = Some (0, p1)" "pos p1 = pos p + 4" "0 \<le> pos p1"
    "writeInplace (int (length v)) p1 = Some (Some (pos p1), p2)"
    "store (pos p1) v p2 = Some p3" "writes (put32 w @ padded v) p p3"
proof -
  have p0: "0 \<le> pos p" using ok(1) by (simp add: parcel_ok_def)
  obtain p1 where p1: "writePOD (put32 w) p = Some (0, p1)" "writes (put32 w) p p1"
    by (rule write32 [of p w]) (use ok fit in simp_all)
  note q = writes_after [OF p1(2) ok(1)]
  have c: "0 < cap p1" using q(4) by (simp add: put32_def)
  have e: "pos p1 = pos p + 4" using q(3) by simp
  obtain p2 p3 where p3: "writeInplace (int (length v)) p1 = Some (Some (pos p1), p2)"
    "store (pos p1) v p2 = Some p3" "writes (padded v) p1 p3"
    by (rule writeInplace_fill [OF q(1,2), of v]) (use e fit c in simp_all)
  show ?thesis
    by (rule that [OF p1(1) e _ p3(1,2) writes_trans [OF p1(2) p3(3) ok]]) (use e p0 in simp)
qed

lemma item_number_writes:
  assumes "parcel_ok p" "pos p \<le> dataSize p" "pos p + int (length v) < 2 ^ 31" "v = put32 a \<or> v = put64 b"
  shows "\<exists>p'. writePOD v p = Some (0, p') \<and> writes v p p'"
  using assms(4)
proof
  assume v: "v = put32 a"
  show ?thesis by (rule write32 [OF assms(1,2), of a]) (use assms(3) v in auto)
next
  assume v: "v = put64 b"
  show ?thesis by (rule write64 [OF assms(1,2), of b]) (use assms(3) v in auto)
qed

lemma length_utf16_bytes [simp]: "length (utf16_bytes s) = 2 * length s"
  unfolding utf16_bytes_def by (induction s) simp_all

lemma write_item_bytes:
  assumes ok: "parcel_ok p" "pos p \<le> dataSize p" and fit: "pos p + 4 + int (padn (length b)) < 2 ^ 31"
    and J: "jni_ok env" and H: "H np = Some p" "np \<noteq> 0"
  shows "\<exists>p'. write_item env (PByteArray (Some b)) np H = Some (H(np \<mapsto> p')) \<and> writes (len32 (length b) @ padded b) p p'"
proof -
  obtain p1 p2 p3 where w: "writePOD (len32 (length b)) p = Some (0, p1)" "pos p1 = pos p + 4" "0 \<le> pos p1"
    "writeInplace (int (length b)) p1 = Some (Some (pos p1), p2)"
    "store (pos p1) b p2 = Some p3" "writes (len32 (length b) @ padded b) p p3"
    unfolding len32_def by (rule write_block [OF ok fit])
  have "\<exists>q. writes (len32 (length b) @ padded b) p q \<and>
     (if 0 < int (length b) then Some p3 else Some p1) = Some q"
  proof (cases "b = []")
    case True
    then obtain q where "writePOD (put32 (word_of_int (int 0))) p = Some (0, q)" "writes (put32 (word_of_int (int 0))) p q"
      using write32 [OF ok] fit by (auto simp: padn_def)
    then show ?thesis using True w(1) by (simp add: len32_def padded_def padn_def)
  qed (use w in auto)
  then show ?thesis using w J
    by (auto simp: Parcel_writeByteArray_def on_parcel_run [of H np p] H ok jni_ok_def len32_def copy_array_whole split: if_splits)
qed

lemma write_item_string8:
  assumes ok: "parcel_ok p" "pos p \<le> dataSize p"
    and fit: "pos p + 4 + int (padn (length (GetStringUTFRegion env s) + 1)) < 2 ^ 31"
    and U: "utf_ok env s" and H: "H np = Some p" "np \<noteq> 0"
  shows "\<exists>p'. write_item env (PString8 (Some s)) np H = Some (H(np \<mapsto> p'))
     \<and> writes (wire env (PString8 (Some s))) p p'"
proof -
  let ?u = "GetStringUTFRegion env s"
  obtain p1 p2 p3 where w: "writePOD (len32 (length ?u)) p = Some (0, p1)" "pos p1 = pos p + 4" "0 \<le> pos p1"
    "writeInplace (int (length (?u @ [0]))) p1 = Some (Some (pos p1), p2)"
    "store (pos p1) (?u @ [0]) p2 = Some p3" "writes (len32 (length ?u) @ padded (?u @ [0])) p p3"
    unfolding len32_def by (rule write_block [OF ok, of "?u @ [0]"]) (use fit in simp_all)
  obtain r where r: "store (pos p1) ?u p2 = Some r" "store (pos p1 + int (length ?u)) [0] r = Some p3"
    by (rule store_two [OF w(5,3) refl])
  have "i32 (int (length ?u) + 1) = Some (int (length ?u) + 1)"
    using fit padn_bounds(1) [of "length ?u + 1"] ok(1) by (intro i32_fits) (simp_all add: parcel_ok_def)
  moreover have "writeInplace (int (length ?u) + 1) p1 = Some (Some (pos p1), p2)"
    using w(4) by (simp add: add.commute)
  ultimately show ?thesis using w(1,6) r U
    by (intro exI [of _ p3]) (simp add: Parcel_writeString8_def on_parcel_run [of H np p] H ok utf_ok_def len32_def)
qed

lemma write_item_string16:
  assumes ok: "parcel_ok p" "pos p \<le> dataSize p"
    and fit: "pos p + 4 + int (padn (2 * length s + 2)) < 2 ^ 31" and H: "H np = Some p" "np \<noteq> 0"
  shows "\<exists>p'. write_item env (PString16 (Some s)) np H = Some (H(np \<mapsto> p'))
     \<and> writes (wire env (PString16 (Some s))) p p'"
proof -
  let ?u = "utf16_bytes s"
  obtain p1 p2 p3 where w: "writePOD (len32 (length s)) p = Some (0, p1)" "pos p1 = pos p + 4" "0 \<le> pos p1"
    "writeInplace (int (length (?u @ put16 0))) p1 = Some (Some (pos p1), p2)"
    "store (pos p1) (?u @ put16 0) p2 = Some p3" "writes (len32 (length s) @ padded (?u @ put16 0)) p p3"
    unfolding len32_def by (rule write_block [OF ok, of "?u @ put16 0"]) (use fit in simp_all)
  obtain r where r: "store (pos p1) ?u p2 = Some r" "store (pos p1 + 2 * int (length s)) (put16 0) r = Some p3"
    by (rule store_two [OF w(5,3), of "2 * int (length s)"]) simp_all
  have l: "2 * int (length s) + 2 < 2 ^ 31"
    using fit padn_bounds(1) [of "2 * length s + 2"] ok(1) unfolding parcel_ok_def by linarith
  then have "i32 (int (length s) + 1) = Some (int (length s) + 1)"
    "to_i32 ((int (length s) + 1) * 2) = int (length (?u @ put16 0))"
    by (simp_all add: i32_fits to_i32_small)
  then show ?thesis using w r
    by (intro exI [of _ p3]) (simp add: Parcel_writeString16_def on_parcel_run [of H np p] H ok len32_def)
qed

lemma write_item_blob:
  assumes ok: "parcel_ok p" "pos p \<le> dataSize p" and fit: "pos p + 8 + int (padn (length b)) < 2 ^ 31"
    and J: "jni_ok env" and H: "H np = Some p" "np \<noteq> 0"
  shows "\<exists>p'. write_item env (PBlob (Some b)) np H = Some (H(np \<mapsto> p'))
     \<and> writes (wire env (PBlob (Some b))) p p'"
proof -
  obtain p0 where p0: "writePOD (len32 (length b)) p = Some (0, p0)" "writes (len32 (length b)) p p0"
    unfolding len32_def by (rule write32 [OF ok]) (use fit in simp_all)
  note q = writes_after [OF p0(2) ok(1)]
  obtain p1 p2 p3 where w: "writePOD (put32 0) p0 = Some (0, p1)" "pos p1 = pos p0 + 4" "0 \<le> pos p1"
    "writeInplace (int (length b)) p1 = Some (Some (pos p1), p2)"
    "store (pos p1) b p2 = Some p3" "writes (put32 0 @ padded b) p0 p3"
    by (rule write_block [OF q(1,2), of b 0]) (use q fit in simp_all)
  have "writes (len32 (length b) @ put32 0 @ padded b) p p3" by (rule writes_trans [OF p0(2) w(6) ok])
  then show ?thesis using p0 w J
    by (intro exI [of _ p3]) (simp add: Parcel_writeBlob_def on_parcel_run [of H np p] H ok jni_ok_def len32_def copy_array_whole)
qed

lemma write_item_writes:
  assumes ok: "parcel_ok p" "pos p \<le> dataSize p" and fit: "pos p + int (length (wire env x)) < 2 ^ 31"
    and J: "jni_ok env" "item_ok env x" and H: "H np = Some p" "np \<noteq> 0"
  shows "\<exists>p'. write_item env x np H = Some (H(np \<mapsto> p')) \<and> writes (wire env x) p p'"
proof -
  note run = on_parcel_run [of H np p, OF H ok(1)]
  have num32: "\<exists>p'. writePOD (put32 a) p = Some (0, p') \<and> writes (put32 a) p p'"
    if "wire env x = put32 a" for a
    by (rule item_number_writes [OF ok, where a = a]) (use fit that in simp_all)
  have num64: "\<exists>p'. writePOD (put64 b) p = Some (0, p') \<and> writes (put64 b) p p'"
    if "wire env x = put64 b" for b
    by (rule item_number_writes [OF ok, where b = b]) (use fit that in simp_all)
  show ?thesis
  proof (cases "(env, x)" rule: wire.cases)
    case (1 env' v)
    then show ?thesis using num32 [of "(word_of_int v)"] by (auto simp: Parcel_writeInt_def run)
  next
    case (2 env' v)
    then show ?thesis using num64 [of "(word_of_int v)"] by (auto simp: Parcel_writeLong_def run)
  next
    case (3 env' v)
    then show ?thesis using num32 [of "v"] by (auto simp: Parcel_writeFloat_def run)
  next
    case (4 env' v)
    then show ?thesis using num64 [of "v"] by (auto simp: Parcel_writeDouble_def run)
  next
    case (5 env')
    then show ?thesis using num32 [of "(- 1)"] by (auto simp: Parcel_writeByteArray_def run)
  next
    case (6 env' b)
    then show ?thesis using write_item_bytes [of p b env H np] fit ok J H by auto
  next
    case (7 env')
    then show ?thesis using num32 [of "(- 1)"] by (auto simp: Parcel_writeBlob_def run)
  next
    case (8 env' b)
    then show ?thesis using write_item_blob [of p b env H np] fit ok J H by auto
  next
    case (9 env')
    then show ?thesis using num32 [of "(- 1)"] by (auto simp: Parcel_writeString8_def run)
  next
    case (10 env' s)
    then show ?thesis using write_item_string8 [of p env s H np] fit J(2) ok H by auto
  next
    case (11 env')
    then show ?thesis using num32 [of "(- 1)"] by (auto simp: Parcel_writeString16_def run)
  next
    case (12 env' s)
    then show ?thesis using write_item_string16 [of p s H np env] fit ok H by auto
  next
    case (13 env')
    then show ?thesis using num32 [of "0"] by (auto simp: Parcel_writeStrongBinder_def run)
  qed
qed

lemma write_items_writes:
  assumes "parcel_ok p" "pos p \<le> dataSize p" "pos p + int (length (concat (map (wire env) xs))) < 2 ^ 31"
    and "jni_ok env" "list_all (item_ok env) xs" "H np = Some p" "np \<noteq> 0"
  shows "\<exists>p'. write_items env xs np H = Some (H(np \<mapsto> p')) \<and> writes (concat (map (wire env) xs)) p p'"
  using assms
proof (induction xs arbitrary: p H)
  case Nil
  then have "H(np \<mapsto> p) = H" by (simp add: fun_upd_idem)
  moreover have "writes [] p p" using Nil by (simp add: writes_def overlay_def)
  ultimately show ?case by (intro exI [of _ p]) simp
next
  case (Cons x xs)
  have "pos p + int (length (wire env x)) < 2 ^ 31" using Cons.prems(3) by simp
  then obtain q where q: "write_item env x np H = Some (H(np \<mapsto> q))" "writes (wire env x) p q"
    using write_item_writes [of p env x H np] Cons.prems by auto
  note a = writes_after [OF q(2) Cons.prems(1)]
  have "\<exists>r. write_items env xs np (H(np \<mapsto> q)) = Some (H(np \<mapsto> q, np \<mapsto> r))
      \<and> writes (concat (map (wire env) xs)) q r"
    by (rule Cons.IH) (use a Cons.prems(3,4,5,7) in simp_all)
  then obtain r where r: "write_items env xs np (H(np \<mapsto> q)) = Some (H(np \<mapsto> r))"
    "writes (concat (map (wire env) xs)) q r" by (metis fun_upd_upd)
  have "writes (concat (map (wire env) (x # xs))) p r"
    using writes_trans [OF q(2) r(2) Cons.prems(1,2)] by simp
  then show ?case using q(1) r(1) by (intro exI [of _ r]) (simp add: fun_upd_def)
qed

section \<open>Bytes read at the cursor\<close>

definition next_is :: "bytes \<Rightarrow> OhParcelData \<Rightarrow> bool" where
  "next_is v p \<longleftrightarrow> slice (content p) (nat (pos p)) (length v) = Some v"

definition moved :: "nat \<Rightarrow> OhParcelData \<Rightarrow> OhParcelData" where
  "moved n p = p\<lparr> pos := pos p + int n \<rparr>"

lemma moved_simps [simp]:
  "pos (moved n p) = pos p + int n" "dataSize (moved n p) = dataSize p" "buf (moved n p) = buf p"
  "cap (moved n p) = cap p" "content (moved n p) = content p" "moved m (moved n p) = moved (n + m) p"
  by (simp_all add: moved_def content_def)

lemma next_within:
  assumes "parcel_ok p" "next_is v p"
  shows "pos p + int (length v) \<le> dataSize p" and "0 \<le> pos p" and "dataSize p < 2 ^ 31"
    and "dataSize p \<le> int (length (buf p))" and "parcel_ok (moved (length v) p)"
proof -
  show "0 \<le> pos p" "dataSize p < 2 ^ 31" and "dataSize p \<le> int (length (buf p))"
    using assms(1) by (auto simp: parcel_ok_def)
  then show le: "pos p + int (length v) \<le> dataSize p"
    using assms length_content [OF assms(1)] unfolding next_is_def slice_eq_Some_iff by linarith
  then show "parcel_ok (moved (length v) p)" using assms(1) by (auto simp: parcel_ok_def moved_def)
qed

lemma next_append:
  assumes "parcel_ok p" "next_is (v @ w) p"
  shows "next_is v p" "next_is w (moved (length v) p)"
proof -
  have "0 \<le> pos p" using assms(1) by (simp add: parcel_ok_def)
  then have e: "nat (pos p + int (length v)) = nat (pos p) + length v" by (simp add: nat_add_distrib)
  have s: "nat (pos p) + (length v + length w) \<le> length (content p)"
    "take (length v + length w) (drop (nat (pos p)) (content p)) = v @ w"
    using assms(2) by (simp_all add: next_is_def slice_eq_Some_iff)
  from s(2) have "take (length v) (take (length v + length w) (drop (nat (pos p)) (content p))) = v"
    "drop (length v) (take (length v + length w) (drop (nat (pos p)) (content p))) = w" by simp_all
  then have "take (length v) (drop (nat (pos p)) (content p)) = v"
    "take (length w) (drop (nat (pos p) + length v) (content p)) = w"
    by (simp_all add: drop_take add.commute)
  then show "next_is v p" "next_is w (moved (length v) p)" using s(1) e
    by (simp_all add: next_is_def slice_eq_Some_iff)
qed

lemma load_next:
  assumes "parcel_ok p" "next_is (v @ w) p" "buf q = buf p"
  shows "load (pos p) (length v) q = Some v"
proof -
  have n: "next_is v p" by (rule next_append [OF assms(1,2)])
  then have "nat (pos p) + length v \<le> nat (dataSize p)" "nat (dataSize p) \<le> length (buf p)" "0 \<le> pos p"
    using next_within [OF assms(1) n] by linarith+
  moreover have "v = take (length v) (drop (nat (pos p)) (take (nat (dataSize p)) (buf p)))"
    using n by (simp add: next_is_def slice_eq_Some_iff content_def)
  ultimately show ?thesis using assms(3)
    by (simp add: load_def slice_def drop_take min_absorb1)
qed

lemma readPOD_next:
  assumes "parcel_ok p" "next_is v p" "4 dvd length v"
  shows "readPOD (length v) p = Some (v, moved (length v) p)"
proof -
  note w = next_within [OF assms(1,2)]
  have fit: "pos p + int (padn (length v)) < 2 ^ 31" using w assms(3) by (simp add: padn_multiple)
  show ?thesis
    using load_next [of p v "[]" p] pad4_fits [OF w(2) fit] assms w
    by (simp add: readPOD_def padn_multiple moved_def)
qed

lemma read_u32_next: "parcel_ok p \<Longrightarrow> next_is (put32 a) p \<Longrightarrow> read_u32 p = Some (a, moved 4 p)"
  using readPOD_next [of p "put32 a"] f32.rd_at [of "[]" a "[]"] by (simp add: read_u32_def)

lemma read_u64_next: "parcel_ok p \<Longrightarrow> next_is (put64 a) p \<Longrightarrow> read_u64 p = Some (a, moved 8 p)"
  using readPOD_next [of p "put64 a"] f64.rd_at [of "[]" a "[]"] by (simp add: read_u64_def)

lemma read_int_next: "parcel_ok p \<Longrightarrow> next_is (put32 a) p \<Longrightarrow> read_int p = Some (sint a, moved 4 p)"
  by (simp add: read_int_def read_u32_next)

lemma readBytes_next:
  assumes "parcel_ok p" "next_is (padded v) p" "0 < cap p"
  shows "readBytes (int (length v)) p = Some (Some (pos p), moved (padn (length v)) p)"
    and "load (pos p) (length v) (moved n p) = Some v"
proof -
  note w = next_within [OF assms(1,2)]
  have fit: "pos p + int (padn (length v)) < 2 ^ 31" and le: "pos p + int (length v) \<le> dataSize p"
    using w padn_bounds(1) [of "length v"] by simp_all
  have "i32 (pos p + int (length v)) = Some (pos p + int (length v))"
    using w le by (intro i32_fits) linarith+
  then show "readBytes (int (length v)) p = Some (Some (pos p), moved (padn (length v)) p)"
    using pad4_fits [OF w(2) fit] assms(3) le by (simp add: readBytes_def moved_def)
  show "load (pos p) (length v) (moved n p) = Some v"
    by (rule load_next [OF assms(1)]) (use assms(2) in \<open>simp_all add: padded_def\<close>)
qed

lemma take_array_next:
  assumes "parcel_ok p" "next_is (padded b) p" "0 < cap p" "jni_ok env"
  shows "take_array env (int (length b)) p = Some (Some b, moved (padn (length b)) p)"
proof (cases "b = []")
  case True
  then show ?thesis using assms(4) by (simp add: take_array_def jni_ok_def padn_def moved_def)
next
  case False
  then show ?thesis using assms readBytes_next [OF assms(1-3)]
    by (simp add: take_array_def jni_ok_def)
qed

lemma len32_sint:
  assumes "int n < 2 ^ 31" shows "sint (word_of_int (int n) :: u32) = int n"
  using assms by (intro sint_small) simp_all

text \<open>A length and what follows it.\<close>

lemma next_len:
  assumes ok: "parcel_ok p" and nx: "next_is (len32 n @ w) p" and n: "int n < 2 ^ 31"
  shows "read_int p = Some (int n, moved 4 p)" "parcel_ok (moved 4 p)" "next_is w (moved 4 p)" "0 < cap p"
    "4 \<le> pos (moved 4 p)"
proof -
  note a = next_append [OF ok nx]
  note wi = next_within [OF ok a(1)]
  show "read_int p = Some (int n, moved 4 p)"
    using read_int_next [OF ok, of "word_of_int (int n)"] a(1) len32_sint [OF n] by (simp add: len32_def)
  show "parcel_ok (moved 4 p)" "next_is w (moved 4 p)" using wi(5) a(2) by simp_all
  have "length (buf p) \<le> cap p" using ok by (simp add: parcel_ok_def)
  then show "0 < cap p" "4 \<le> pos (moved 4 p)" using wi by simp_all
qed

lemma wire_length_bound:
  assumes "parcel_ok p" "next_is (len32 n @ padded v) p"
  shows "int (length v) < 2 ^ 31 - 4"
proof -
  have "pos p + int (4 + padn (length v)) \<le> dataSize p" "0 \<le> pos p" "dataSize p < 2 ^ 31"
    using next_within [OF assms] by simp_all
  then show ?thesis using padn_bounds(1) [of "length v"] by linarith
qed

lemma read_item_bytes:
  assumes ok: "parcel_ok p" and nx: "next_is (len32 (length b) @ padded b) p" and J: "jni_ok env"
    and H: "H np = Some p" "np \<noteq> 0"
  shows "Parcel_createByteArray env np H = Some (Some b, H(np \<mapsto> moved (4 + padn (length b)) p))"
proof -
  have n: "int (length b) < 2 ^ 31" using wire_length_bound [OF ok nx] by linarith
  note l = next_len [OF ok nx n]
  have w: "pos p + 4 + int (padn (length b)) \<le> dataSize p" "0 \<le> pos p" "dataSize p < 2 ^ 31"
    using next_within [OF ok nx] by simp_all
  then have "i32 (dataSize p - (pos p + 4)) = Some (dataSize p - (pos p + 4))"
    "i32 (dataSize p - (pos p + 4) + 4) = Some (dataSize p - (pos p + 4) + 4)"
    "int (length b) \<le> dataSize p - (pos p + 4) + 4"
    using padn_bounds(1) [of "length b"] by (auto intro!: i32_fits)
  then show ?thesis using l take_array_next [OF l(2,3) _ J]
    by (simp add: Parcel_createByteArray_def on_parcel_run [of H np p] H ok)
qed

lemma read_item_blob:
  assumes ok: "parcel_ok p" and nx: "next_is (len32 (length b) @ put32 0 @ padded b) p" and J: "jni_ok env"
    and H: "H np = Some p" "np \<noteq> 0"
  shows "Parcel_readBlob env np H = Some (Some b, H(np \<mapsto> moved (8 + padn (length b)) p))"
proof -
  have "pos p + 8 + int (padn (length b)) \<le> dataSize p" "0 \<le> pos p" "dataSize p < 2 ^ 31"
    using next_within [OF ok nx] by simp_all
  then have n: "int (length b) < 2 ^ 31" using padn_bounds(1) [of "length b"] by linarith
  note l = next_len [OF ok nx n]
  note a = next_append [OF l(2,3)]
  have m: "parcel_ok (moved 8 p)" "next_is (padded b) (moved 8 p)"
    using next_within [OF l(2) a(1)] a(2) by simp_all
  show ?thesis using l take_array_next [OF m _ J] read_int_next [OF l(2) a(1)]
    by (simp add: Parcel_readBlob_def on_parcel_run [of H np p] H ok)
qed

lemma c_string_terminated:
  assumes "load i (length u + 1) p = Some (u @ [0])" "0 \<notin> set u"
  shows "c_string i p = Some u"
proof -
  have i: "\<not> i < 0" "take (length u + 1) (drop (nat i) (buf p)) = u @ [0]"
    using assms(1) by (auto simp: load_def slice_eq_Some_iff split: if_splits)
  define d where "d = drop (length u + 1) (drop (nat i) (buf p))"
  have "drop (nat i) (buf p) = (u @ [0]) @ d"
    using append_take_drop_id [of "length u + 1" "drop (nat i) (buf p)"] i(2) by (simp only: d_def)
  moreover have "takeWhile (\<lambda>b. b \<noteq> 0) (u @ 0 # d) = u" using assms(2) by (induction u) auto
  ultimately show ?thesis using i(1) by (simp add: c_string_def)
qed

lemma read_item_string8:
  assumes ok: "parcel_ok p" and nx: "next_is (wire env (PString8 (Some s))) p" and U: "utf_ok env s"
    and H: "H np = Some p" "np \<noteq> 0"
  shows "Parcel_readString8 env np H
     = Some (Some s, H(np \<mapsto> moved (length (wire env (PString8 (Some s)))) p))"
proof -
  let ?u = "GetStringUTFRegion env s"
  have x: "next_is (len32 (length ?u) @ padded (?u @ [0])) p" using nx by simp
  have n: "int (length ?u) + 1 < 2 ^ 31" using wire_length_bound [OF ok x] by simp
  have n': "int (length ?u) < 2 ^ 31" using n by linarith
  note l = next_len [OF ok x n']
  have r: "readBytes (int (length ?u) + 1) (moved 4 p)
      = Some (Some (pos p + 4), moved (4 + padn (length ?u + 1)) p)"
    using readBytes_next(1) [OF l(2,3)] l(4) by (simp add: add.commute)
  have "load (pos p + 4) (length ?u + 1) (moved k p) = Some (?u @ [0])" for k
    using load_next [of "moved 4 p" "?u @ [0]" "replicate (padn (length ?u + 1) - (length ?u + 1)) 0" "moved k p"]
      l(2,3) by (simp add: padded_def)
  then have c: "c_string (pos p + 4) (moved k p) = Some ?u" for k
    using U by (intro c_string_terminated) (simp_all add: utf_ok_def)
  have "i32 (int (length ?u) + 1) = Some (int (length ?u) + 1)" using n by (intro i32_fits) simp_all
  then show ?thesis using l r c U
    by (simp add: Parcel_readString8_def on_parcel_run [of H np p] H ok utf_ok_def)
qed

lemma read_item_string16:
  assumes ok: "parcel_ok p" and nx: "next_is (wire env (PString16 (Some s))) p" and J: "jni_ok env"
    and H: "H np = Some p" "np \<noteq> 0"
  shows "Parcel_readString16 env np H
     = Some (Some s, H(np \<mapsto> moved (length (wire env (PString16 (Some s)))) p))"
proof -
  let ?u = "utf16_bytes s"
  have x: "next_is (len32 (length s) @ padded (?u @ put16 0)) p" using nx by simp
  have n: "2 * int (length s) + 2 < 2 ^ 31" using wire_length_bound [OF ok x] by simp
  have n': "int (length s) < 2 ^ 31" using n by linarith
  note l = next_len [OF ok x n']
  have r: "readBytes (2 * int (length s) + 2) (moved 4 p)
      = Some (Some (pos p + 4), moved (4 + padn (2 * length s + 2)) p)"
    using readBytes_next(1) [OF l(2,3)] l(4) by (simp add: add.commute)
  have ld: "load (pos p + 4) (2 * length s) (moved k p) = Some ?u" for k
    using load_next [of "moved 4 p" ?u "put16 0 @ replicate (padn (2 * length s + 2) - (2 * length s + 2)) 0" "moved k p"]
      l(2,3) by (simp add: padded_def)
  have ar: "read_array rd16 2 ?u 0 (length s) = Some s"
    using f16.array_enc [of s "[]"] by (simp add: utf16_bytes_def)
  have "i32 (int (length s) + 1) = Some (int (length s) + 1)"
    "to_i32 ((int (length s) + 1) * 2) = 2 * int (length s) + 2"
    using n by (simp_all add: i32_fits to_i32_small)
  then show ?thesis using l r ld ar J
    by (simp add: Parcel_readString16_def on_parcel_run [of H np p] H ok jni_ok_def)
qed

lemma null_wire [simp]: "sint (- 1 :: u32) = - 1"
  by simp

lemma read_item_next:
  assumes ok: "parcel_ok p" and nx: "next_is (wire env x) p" and J: "jni_ok env" "item_ok env x"
    and H: "H np = Some p" "np \<noteq> 0"
  shows "read_item env x np H = Some (x, H(np \<mapsto> moved (length (wire env x)) p))"
proof -
  note run = on_parcel_run [of H np p, OF H ok]
  have null: "read_int p = Some (- 1, moved 4 p)" if "wire env x = put32 (- 1)"
    using read_int_next [OF ok, of "- 1"] nx that by simp
  show ?thesis
  proof (cases "(env, x)" rule: wire.cases)
    case (1 env' v)
    then show ?thesis using read_int_next [OF ok, of "word_of_int v"] nx J(2)
      by (simp add: Parcel_readInt_def run int32_def sint_small)
  next
    case (2 env' v)
    then have "sint (word_of_int v :: u64) = v" using J(2)
      by (simp add: signed_of_int signed_take_bit_int_eq_self)
    then show ?thesis using 2 read_u64_next [OF ok, of "word_of_int v"] nx
      by (simp add: Parcel_readLong_def run)
  next
    case (3 env' v)
    then show ?thesis using read_u32_next [OF ok, of v] nx by (simp add: Parcel_readFloat_def run)
  next
    case (4 env' v)
    then show ?thesis using read_u64_next [OF ok, of v] nx by (simp add: Parcel_readDouble_def run)
  next
    case (5 env')
    then show ?thesis using null by (simp add: Parcel_createByteArray_def run)
  next
    case (6 env' b)
    then show ?thesis using read_item_bytes [of p b env H np] nx ok J H by simp
  next
    case (7 env')
    then show ?thesis using null by (simp add: Parcel_readBlob_def run)
  next
    case (8 env' b)
    then show ?thesis using read_item_blob [of p b env H np] nx ok J H by simp
  next
    case (9 env')
    then show ?thesis using null by (simp add: Parcel_readString8_def run)
  next
    case (10 env' s)
    then show ?thesis using read_item_string8 [of p env s H np] nx ok J H by simp
  next
    case (11 env')
    then show ?thesis using null by (simp add: Parcel_readString16_def run)
  next
    case (12 env' s)
    then show ?thesis using read_item_string16 [of p env s H np] nx ok J H by simp
  next
    case (13 env')
    then show ?thesis using read_int_next [OF ok, of 0] nx by (simp add: Parcel_readStrongBinder_def run)
  qed
qed

lemma read_items_next:
  assumes "parcel_ok p" "next_is (concat (map (wire env) xs)) p" "jni_ok env" "list_all (item_ok env) xs"
    and "H np = Some p" "np \<noteq> 0"
  shows "read_items env xs np H = Some (xs, H(np \<mapsto> moved (length (concat (map (wire env) xs))) p))"
  using assms
proof (induction xs arbitrary: p H)
  case Nil
  then have "H(np \<mapsto> moved 0 p) = H" by (simp add: moved_def fun_upd_idem)
  then show ?case by simp
next
  case (Cons x xs)
  let ?q = "moved (length (wire env x)) p"
  note a = next_append [OF Cons.prems(1), of "wire env x" "concat (map (wire env) xs)"]
  have n: "next_is (wire env x) p" "next_is (concat (map (wire env) xs)) ?q"
    using a Cons.prems(2) by simp_all
  have r: "read_item env x np H = Some (x, H(np \<mapsto> ?q))"
    using read_item_next [of p env x H np] n(1) Cons.prems by simp
  have "read_items env xs np (H(np \<mapsto> ?q))
      = Some (xs, H(np \<mapsto> ?q, np \<mapsto> moved (length (concat (map (wire env) xs))) ?q))"
    by (rule Cons.IH) (use n(2) next_within [OF Cons.prems(1) n(1)] Cons.prems in simp_all)
  then have "read_items env xs np (H(np \<mapsto> ?q))
      = Some (xs, H(np \<mapsto> moved (length (concat (map (wire env) (x # xs)))) p))" by simp
  then show ?case using r by (simp add: fun_upd_def)
qed

lemma overlay_next:
  assumes "writes v p p'" "parcel_ok p" "pos p \<le> dataSize p"
  shows "next_is v (p'\<lparr> pos := pos p \<rparr>)" "parcel_ok (p'\<lparr> pos := pos p \<rparr>)"
proof -
  have l: "nat (pos p) \<le> length (content p)" using assms(2,3) length_content [of p] by linarith
  have c: "content (p'\<lparr> pos := pos p \<rparr>) = overlay (nat (pos p)) v (content p)"
    using assms(1) by (simp add: writes_def content_def)
  show "next_is v (p'\<lparr> pos := pos p \<rparr>)" unfolding next_is_def c
    using l by (simp add: slice_def overlay_def)
  show "parcel_ok (p'\<lparr> pos := pos p \<rparr>)"
    using assms by (simp add: writes_def parcel_ok_def)
qed

text \<open>
  C4 (parcel_roundtrip): any list of values (numbers, byte arrays, blobs, both kinds of strings,
  null binders) written to a parcel at its end adds exactly their documented wire format to the
  data; after the cursor is set back, the matching read calls return the same values and end where
  the writes ended, with no access outside the vector and no overflow, as long as the data stays
  below 2^31 bytes.
\<close>

theorem parcel_roundtrip:
  assumes "H np = Some p" "np \<noteq> 0" "parcel_ok p" "pos p = dataSize p"
    and "pos p + int (length (concat (map (wire env) xs))) < 2 ^ 31"
    and "jni_ok env" "list_all (item_ok env) xs"
  shows "\<exists>H1 p1 H2. write_items env xs np H = Some H1 \<and> H1 np = Some p1
     \<and> content p1 = content p @ concat (map (wire env) xs)
     \<and> Parcel_setDataPosition (pos p) np H1 = Some ((), H2)
     \<and> read_items env xs np H2 = Some (xs, H1)"
proof -
  let ?w = "concat (map (wire env) xs)"
  have le: "pos p \<le> dataSize p" using assms(4) by simp
  obtain p1 where p1: "write_items env xs np H = Some (H(np \<mapsto> p1))" "writes ?w p p1"
    using write_items_writes [OF assms(3) le assms(5-7), of H np] assms(1,2) by blast
  let ?q = "p1\<lparr> pos := pos p \<rparr>"
  have p0: "0 \<le> pos p" using assms(3) by (simp add: parcel_ok_def)
  have ok1: "parcel_ok p1" and e: "pos p1 = pos p + int (length ?w)"
    using writes_after [OF p1(2) assms(3)] by simp_all
  have "length (content p) = nat (pos p)" using length_content [OF assms(3)] assms(4) by simp
  then have c: "content p1 = content p @ ?w"
    using p1(2) overlay_end [of "content p" ?w] by (simp add: writes_def)
  have s: "Parcel_setDataPosition (pos p) np (H(np \<mapsto> p1)) = Some ((), H(np \<mapsto> ?q))"
    using ok1 assms(2) p0 by (simp add: Parcel_setDataPosition_def on_parcel_run [of "H(np \<mapsto> p1)" np p1])
  have "moved (length ?w) ?q = p1" using e by (cases p1) (simp add: moved_def)
  then have "read_items env xs np (H(np \<mapsto> ?q)) = Some (xs, H(np \<mapsto> p1))"
    using read_items_next [of ?q env xs "H(np \<mapsto> ?q)" np] overlay_next [OF p1(2) assms(3) le] assms(2,6,7)
    by simp
  then show ?thesis using p1(1) s c by (intro exI [of _ "H(np \<mapsto> p1)"] exI [of _ p1] exI [of _ "H(np \<mapsto> ?q)"]) simp
qed

text \<open>A virtual machine that converts characters below 128 only, for the examples.\<close>

definition ascii_vm :: JNIEnv where
  "ascii_vm = \<lparr> GetPrimitiveArrayCritical = True, NewByteArray = (\<lambda>n. 0 \<le> n),
     GetStringUTFLength = (\<lambda>s. int (length s)), GetStringUTFRegion = map ucast,
     NewStringUTF = (\<lambda>b. Some (map ucast b)), NewString = Some \<rparr>"

lemma jni_ok_ascii: "jni_ok ascii_vm"
  by (simp add: jni_ok_def ascii_vm_def)

theorem parcel_roundtrip_witness:
  "\<exists>H1 p1 H2. write_items ascii_vm [PInt (- 5), PString8 (Some [72, 105]), PByteArray (Some [1, 2, 3]), PLong 7] 8
       [8 \<mapsto> new_OhParcelData] = Some H1 \<and> H1 8 = Some p1
     \<and> content p1 = content new_OhParcelData
         @ concat (map (wire ascii_vm) [PInt (- 5), PString8 (Some [72, 105]), PByteArray (Some [1, 2, 3]), PLong 7])
     \<and> Parcel_setDataPosition (pos new_OhParcelData) 8 H1 = Some ((), H2)
     \<and> read_items ascii_vm [PInt (- 5), PString8 (Some [72, 105]), PByteArray (Some [1, 2, 3]), PLong 7] 8 H2
       = Some ([PInt (- 5), PString8 (Some [72, 105]), PByteArray (Some [1, 2, 3]), PLong 7], H1)"
  by (rule parcel_roundtrip [OF _ _ parcel_ok_new _ _ jni_ok_ascii])
    (simp_all add: new_OhParcelData_def ascii_vm_def utf_ok_def int32_def padn_def)

end
