(* ===== verification/JavaParcelCalls.thy ===== *)
theory JavaParcelCalls
  imports JavaParcel
begin

text \<open>
  Safety of the parcel functions of \<open>JavaParcel\<close> when they are called in any order: the invariant of every
  parcel, reads of data that was not written by the matching calls, the functions on whole parcels
  (\<open>marshall\<close>, \<open>unmarshall\<close>, \<open>compareData\<close>, \<open>appendFrom\<close>), and the calls that are undefined.
\<close>

section \<open>Every call keeps the invariant\<close>

named_theorems keeps \<open>operations on one parcel keep its invariant\<close>

lemma store_keeps [keeps]: "parcel_ok p \<Longrightarrow> store i v p = Some q \<Longrightarrow> parcel_ok q"
  using store_frame [of i v p q] by (auto simp: parcel_ok_def)

lemma copy_array_keeps [keeps]: "parcel_ok p \<Longrightarrow> copy_array d off len i p = Some q \<Longrightarrow> parcel_ok q"
  by (auto simp: copy_array_def bind_eq_Some_conv intro: store_keeps split: if_splits)

lemma memzero_keeps [keeps]: "parcel_ok p \<Longrightarrow> memzero i n p = Some q \<Longrightarrow> parcel_ok q"
  by (auto simp: memzero_def intro: store_keeps)

text \<open>A parcel that is ready for a write of \<open>a\<close> bytes at the cursor.\<close>

definition roomy :: "int \<Rightarrow> OhParcelData \<Rightarrow> bool" where
  "roomy a p \<longleftrightarrow> parcel_ok p \<and> 0 \<le> a \<and> pos p + a \<le> int (length (buf p))"

lemma roomy_store: "roomy a p \<Longrightarrow> store i v p = Some q \<Longrightarrow> roomy a q"
  using store_frame [of i v p q] store_keeps [of p i v q] by (auto simp: roomy_def)

lemma roomy_memzero: "roomy a p \<Longrightarrow> memzero i n p = Some q \<Longrightarrow> roomy a q"
  by (auto simp: memzero_def intro: roomy_store)

lemma roomy_advance: "roomy a p \<Longrightarrow> advanceWrite a p = Some q \<Longrightarrow> parcel_ok q"
  by (auto simp: roomy_def parcel_ok_def advanceWrite_def i32_eq_Some int32_def bind_eq_Some_conv split: if_splits)

lemma roomy_ensure:
  assumes "parcel_ok p" "pad4 n = Some a" "0 \<le> n" "i32 (pos p + a) = Some e"
  shows "roomy a (ensureCap e p)"
proof -
  have "e < 2 ^ 31" "e = pos p + a" "0 \<le> a"
    using assms(4) pad4_result [OF assms(2,3)] assms(3) by (auto simp: i32_eq_Some int32_def)
  then show ?thesis using ensureCap_ok [OF assms(1)] ensureCap_grows [OF assms(1), of e]
    by (simp add: roomy_def)
qed

lemma copy_in_roomy: "roomy a p \<Longrightarrow> copy_in src n old p = Some q \<Longrightarrow> roomy a q"
  by (cases src) (auto simp: bind_eq_Some_conv intro: roomy_store split: if_splits)

lemma finish_write:
  assumes "roomy a p" "(if c then memzero i n p else Some p) = Some q" "advanceWrite a q = Some r"
  shows "parcel_ok r"
  using assms roomy_memzero [of a p i n q] roomy_advance [of a q r] by (auto split: if_splits)

lemma writePOD_keeps [keeps]:
  assumes "parcel_ok p" "writePOD v p = Some (x, q)" shows "parcel_ok q"
proof -
  obtain a e p1 p2 where w: "pad4 (int (length v)) = Some a" "i32 (pos p + a) = Some e"
    "store (pos (ensureCap e p)) v (ensureCap e p) = Some p1"
    "(if a > int (length v) then memzero (pos p1 + int (length v)) (a - int (length v)) p1 else Some p1) = Some p2"
    "advanceWrite a p2 = Some q"
    using assms(2) unfolding writePOD_def Let_def bind_eq_Some_conv by blast
  have "roomy a p1" by (rule roomy_store [OF roomy_ensure [OF assms(1) w(1) _ w(2)] w(3)]) simp
  then show ?thesis by (rule finish_write [OF _ w(4,5)])
qed

lemma writeBytes_keeps [keeps]:
  assumes "parcel_ok p" "writeBytes src len p = Some (x, q)" shows "parcel_ok q"
proof (cases "len < 0")
  case False
  then obtain a e p1 p2 where w: "pad4 len = Some a" "i32 (pos p + a) = Some e"
    "(if len > 0 then copy_in src (nat len) p (ensureCap e p) else Some (ensureCap e p)) = Some p1"
    "(if a > len then memzero (pos p1 + len) (a - len) p1 else Some p1) = Some p2"
    "advanceWrite a p2 = Some q"
    using assms(2) unfolding writeBytes_def Let_def bind_eq_Some_conv if_not_P [OF False] by blast
  have "roomy a (ensureCap e p)" by (rule roomy_ensure [OF assms(1) w(1) _ w(2)]) (use False in simp)
  then have "roomy a p1" using w(3) by (auto intro: copy_in_roomy split: if_splits)
  then show ?thesis by (rule finish_write [OF _ w(4,5)])
qed (use assms in \<open>simp add: writeBytes_def\<close>)

lemma writeInplace_keeps [keeps]:
  assumes "parcel_ok p" "writeInplace len p = Some (x, q)" shows "parcel_ok q"
proof (cases "len < 0")
  case False
  then obtain a e p2 where w: "pad4 len = Some a" "i32 (pos p + a) = Some e"
    "(if a > len then memzero (pos (ensureCap e p) + len) (a - len) (ensureCap e p) else Some (ensureCap e p)) = Some p2"
    "advanceWrite a p2 = Some q"
    using assms(2) unfolding writeInplace_def Let_def bind_eq_Some_conv if_not_P [OF False] by blast
  have "roomy a (ensureCap e p)" by (rule roomy_ensure [OF assms(1) w(1) _ w(2)]) (use False in simp)
  then show ?thesis by (rule finish_write [OF _ w(3,4)])
qed (use assms in \<open>simp add: writeInplace_def\<close>)

lemma pos_keeps: "parcel_ok p \<Longrightarrow> 0 \<le> e \<Longrightarrow> int32 e \<Longrightarrow> parcel_ok (p\<lparr> pos := e \<rparr>)"
  by (simp add: parcel_ok_def int32_def)

lemma readBytes_keeps [keeps]:
  assumes "parcel_ok p" "readBytes len p = Some (x, q)" shows "parcel_ok q"
proof -
  have "0 \<le> pos p" using assms(1) by (simp add: parcel_ok_def)
  then show ?thesis using assms
    by (auto simp: readBytes_def bind_eq_Some_conv i32_eq_Some split: if_splits
      dest!: pad4_result(2) intro!: pos_keeps)
qed

lemma readPOD_keeps [keeps]:
  assumes "parcel_ok p" "readPOD n p = Some (x, q)" shows "parcel_ok q"
proof -
  have "0 \<le> pos p" using assms(1) by (simp add: parcel_ok_def)
  then show ?thesis using assms
    by (auto simp: readPOD_def bind_eq_Some_conv i32_eq_Some split: if_splits
      dest!: pad4_result(2) intro!: pos_keeps)
qed

lemma read_word_keeps [keeps]:
  "parcel_ok p \<Longrightarrow> read_u32 p = Some (a, q) \<Longrightarrow> parcel_ok q"
  "parcel_ok p \<Longrightarrow> read_u64 p = Some (b, q) \<Longrightarrow> parcel_ok q"
  "parcel_ok p \<Longrightarrow> read_int p = Some (c, q) \<Longrightarrow> parcel_ok q"
  by (auto simp: read_u32_def read_u64_def read_int_def bind_eq_Some_conv dest: readPOD_keeps)

lemma take_array_keeps [keeps]: "parcel_ok p \<Longrightarrow> take_array env n p = Some (x, q) \<Longrightarrow> parcel_ok q"
  by (auto simp: take_array_def bind_eq_Some_conv split: if_splits option.splits dest: readBytes_keeps)

lemma ensureCap_int_keeps: "parcel_ok p \<Longrightarrow> int32 n \<Longrightarrow> parcel_ok (ensureCap n p)"
  by (rule ensureCap_ok) (simp_all add: int32_def)

text \<open>
  Rules for the functions on one parcel: \<open>keep1\<close> for those that return the parcel, \<open>keep2\<close> for those that
  also return a value.
\<close>

definition keep1 :: "(OhParcelData \<Rightarrow> OhParcelData option) \<Rightarrow> bool" where
  "keep1 f \<longleftrightarrow> (\<forall>p q. parcel_ok p \<longrightarrow> f p = Some q \<longrightarrow> parcel_ok q)"

definition keep2 :: "(OhParcelData \<Rightarrow> ('a \<times> OhParcelData) option) \<Rightarrow> bool" where
  "keep2 f \<longleftrightarrow> (\<forall>p x q. parcel_ok p \<longrightarrow> f p = Some (x, q) \<longrightarrow> parcel_ok q)"

named_theorems keep_rules \<open>composition of functions that keep the invariant\<close>

lemma keep_return [keep_rules]: "keep2 (\<lambda>p. Some (f p, p))"
  by (simp add: keep2_def)

lemma keep_bind1 [keep_rules]: "keep1 f \<Longrightarrow> keep2 g \<Longrightarrow> keep2 (\<lambda>p. Option.bind (f p) g)"
  unfolding keep1_def keep2_def bind_eq_Some_conv by blast

lemma keep_bind2 [keep_rules]:
  assumes "keep2 f" "\<And>x. keep2 (g x)" shows "keep2 (\<lambda>p. Option.bind (f p) (case_prod g))"
  unfolding keep2_def
proof (intro allI impI)
  fix p x q
  assume p: "parcel_ok p" and e: "Option.bind (f p) (case_prod g) = Some (x, q)"
  from e obtain y r where "f p = Some (y, r)" "g y r = Some (x, q)" by (cases "f p") auto
  then show "parcel_ok q" using p assms unfolding keep2_def by blast
qed

lemma keep_pure: "(\<And>y. keep2 (g y)) \<Longrightarrow> keep2 (\<lambda>p. Option.bind (f p) (\<lambda>y. g y p))"
  unfolding keep2_def bind_eq_Some_conv by blast

lemma keep_if [keep_rules]: "keep2 f \<Longrightarrow> keep2 g \<Longrightarrow> keep2 (\<lambda>p. if c p then f p else g p)"
  unfolding keep2_def by metis

lemma keep1_if [keep_rules]: "keep1 f \<Longrightarrow> keep1 g \<Longrightarrow> keep1 (\<lambda>p. if c p then f p else g p)"
  unfolding keep1_def by metis

lemma keep1_Some [keep_rules]: "keep1 Some"
  by (simp add: keep1_def)

lemma keep_case [keep_rules]:
  "keep2 f \<Longrightarrow> (\<And>y. keep2 (g y)) \<Longrightarrow> keep2 (\<lambda>p. case h of None \<Rightarrow> f p | Some y \<Rightarrow> g y p)"
  by (cases h) simp_all

lemma keep_steps [keep_rules]:
  "keep1 (store i v)" "keep1 (memzero i n)" "keep1 (copy_array d off len i)"
  "keep2 (writePOD v)" "keep2 (writeInplace n)" "keep2 (readBytes n)" "keep2 read_u32" "keep2 read_u64"
  "keep2 read_int" "keep2 (take_array env n)"
  by (auto simp: keep1_def keep2_def dest: keeps)

definition heap_ok :: "parcels \<Rightarrow> bool" where
  "heap_ok H \<longleftrightarrow> H 0 = None \<and> (\<forall>np p. H np = Some p \<longrightarrow> parcel_ok p)"

lemma on_parcel_keeps:
  assumes "heap_ok H" "on_parcel d f np H = Some (r, H')" "keep2 f"
  shows "heap_ok H'"
  using assms(1,2)
  by (auto simp: on_parcel_def asParcel_def heap_ok_def bind_eq_Some_conv split: if_splits option.splits)
    (use assms(3) in \<open>unfold keep2_def, blast\<close>)

text \<open>
  The calls that change a parcel. A handle is an address that \<open>create\<close> returned; the arguments are
  Java \<open>int\<close> values.
\<close>

datatype parcel_call =
    Create u64 | Destroy | FreeBuffer | SetDataSize int | SetDataPosition int | SetDataCapacity int
  | MarkSensitive | PushAllowFds bool | RestoreAllowFds bool | Write item | Read item
  | WriteByteArray "bytes option" int int | WriteBlob "bytes option" int int | ReadByteArray bytes int
  | Unmarshall bytes int int | AppendFrom u64 int int

fun parcel_run :: "JNIEnv \<Rightarrow> u64 \<Rightarrow> parcel_call \<Rightarrow> parcels \<Rightarrow> parcels option" where
  "parcel_run env np (Create a) H = (if H a = None then Some (snd (Parcel_create a H)) else None)"
| "parcel_run env np Destroy H = map_option snd (Parcel_destroy np H)"
| "parcel_run env np FreeBuffer H = map_option snd (Parcel_freeBuffer np H)"
| "parcel_run env np (SetDataSize n) H = (if int32 n then map_option snd (Parcel_setDataSize n np H) else None)"
| "parcel_run env np (SetDataPosition n) H = (if int32 n then map_option snd (Parcel_setDataPosition n np H) else None)"
| "parcel_run env np (SetDataCapacity n) H = (if int32 n then map_option snd (Parcel_setDataCapacity n np H) else None)"
| "parcel_run env np MarkSensitive H = map_option snd (Parcel_markSensitive np H)"
| "parcel_run env np (PushAllowFds b) H = map_option snd (Parcel_pushAllowFds b np H)"
| "parcel_run env np (RestoreAllowFds b) H = map_option snd (Parcel_restoreAllowFds b np H)"
| "parcel_run env np (Write x) H = write_item env x np H"
| "parcel_run env np (Read x) H = map_option snd (read_item env x np H)"
| "parcel_run env np (WriteByteArray d off n) H = (if int32 n then map_option snd (Parcel_writeByteArray env d off n np H) else None)"
| "parcel_run env np (WriteBlob d off n) H = (if int32 n then map_option snd (Parcel_writeBlob env d off n np H) else None)"
| "parcel_run env np (ReadByteArray d n) H = map_option snd (Parcel_readByteArray env d n np H)"
| "parcel_run env np (Unmarshall d off n) H = (if int32 n then map_option snd (Parcel_unmarshall env d off n np H) else None)"
| "parcel_run env np (AppendFrom o' off n) H = map_option snd (Parcel_appendFrom np o' off n H)"

lemma write_keeps:
  "heap_ok H \<Longrightarrow> Parcel_writeByteArray env d off n np H = Some (r, H') \<Longrightarrow> heap_ok H'"
  "heap_ok H \<Longrightarrow> Parcel_writeBlob env d off n np H = Some (r, H') \<Longrightarrow> heap_ok H'"
  "heap_ok H \<Longrightarrow> Parcel_writeString8 env s np H = Some (r, H') \<Longrightarrow> heap_ok H'"
  "heap_ok H \<Longrightarrow> Parcel_writeString16 s np H = Some (r, H') \<Longrightarrow> heap_ok H'"
  "heap_ok H \<Longrightarrow> Parcel_writeStrongBinder np H = Some (r, H') \<Longrightarrow> heap_ok H'"
  unfolding Parcel_writeByteArray_def Parcel_writeBlob_def Parcel_writeString8_def Parcel_writeString16_def
    Parcel_writeStrongBinder_def Let_def
  by (erule (1) on_parcel_keeps, (intro keep_rules | rule keep_pure)+)+

lemma read_keeps:
  "heap_ok H \<Longrightarrow> Parcel_createByteArray env np H = Some (b, H') \<Longrightarrow> heap_ok H'"
  "heap_ok H \<Longrightarrow> Parcel_readBlob env np H = Some (b, H') \<Longrightarrow> heap_ok H'"
  "heap_ok H \<Longrightarrow> Parcel_readByteArray env d n np H = Some (x, H') \<Longrightarrow> heap_ok H'"
  "heap_ok H \<Longrightarrow> Parcel_readString8 env np H = Some (s, H') \<Longrightarrow> heap_ok H'"
  "heap_ok H \<Longrightarrow> Parcel_readString16 env np H = Some (s, H') \<Longrightarrow> heap_ok H'"
  "heap_ok H \<Longrightarrow> Parcel_readStrongBinder np H = Some (u, H') \<Longrightarrow> heap_ok H'"
  "heap_ok H \<Longrightarrow> Parcel_readLong np H = Some (i, H') \<Longrightarrow> heap_ok H'"
  unfolding Parcel_createByteArray_def Parcel_readBlob_def Parcel_readByteArray_def Parcel_readString8_def
    Parcel_readString16_def Parcel_readStrongBinder_def Parcel_readLong_def
  by (erule (1) on_parcel_keeps, (intro keep_rules | rule keep_pure)+)+

lemma number_keeps:
  "heap_ok H \<Longrightarrow> on_parcel 0 (writePOD v) np H = Some (i, H') \<Longrightarrow> heap_ok H'"
  "heap_ok H \<Longrightarrow> on_parcel 0 read_int np H = Some (i, H') \<Longrightarrow> heap_ok H'"
  "heap_ok H \<Longrightarrow> on_parcel 0 read_u32 np H = Some (w, H') \<Longrightarrow> heap_ok H'"
  "heap_ok H \<Longrightarrow> on_parcel 0 read_u64 np H = Some (d, H') \<Longrightarrow> heap_ok H'"
  by (erule (1) on_parcel_keeps, rule keep_rules)+

lemma write_item_keeps: "heap_ok H \<Longrightarrow> write_item env x np H = Some H' \<Longrightarrow> heap_ok H'"
  by (induction env x np H rule: write_item.induct)
    (auto simp: Parcel_writeInt_def Parcel_writeLong_def Parcel_writeFloat_def Parcel_writeDouble_def
      dest: write_keeps number_keeps)

lemma read_item_keeps: "heap_ok H \<Longrightarrow> read_item env x np H = Some (y, H') \<Longrightarrow> heap_ok H'"
  by (induction env x np H rule: read_item.induct)
    (auto simp: Parcel_readInt_def Parcel_readFloat_def Parcel_readDouble_def
      dest: read_keeps number_keeps)

lemma flag_keeps:
  "keep2 (\<lambda>p. Some ((), p\<lparr> buf := [], pos := 0, dataSize := 0 \<rparr>))"
  "keep2 (\<lambda>p. Some ((), p\<lparr> sensitive := True \<rparr>))"
  "keep2 (\<lambda>p. Some (allowFds p, p\<lparr> allowFds := b \<rparr>))"
  "keep2 (\<lambda>p. Some ((), p\<lparr> allowFds := b \<rparr>))"
  by (auto simp: keep2_def parcel_ok_def)

lemma flag_calls_keep:
  "heap_ok H \<Longrightarrow> Parcel_freeBuffer np H = Some (r, H') \<Longrightarrow> heap_ok H'"
  "heap_ok H \<Longrightarrow> Parcel_markSensitive np H = Some (r, H') \<Longrightarrow> heap_ok H'"
  "heap_ok H \<Longrightarrow> Parcel_pushAllowFds b np H = Some (v, H') \<Longrightarrow> heap_ok H'"
  "heap_ok H \<Longrightarrow> Parcel_restoreAllowFds b np H = Some (r, H') \<Longrightarrow> heap_ok H'"
  unfolding Parcel_freeBuffer_def Parcel_markSensitive_def Parcel_pushAllowFds_def Parcel_restoreAllowFds_def
  by (erule (1) on_parcel_keeps, rule flag_keeps)+

lemma size_keeps:
  assumes "int32 n"
  shows "heap_ok H \<Longrightarrow> Parcel_setDataSize n np H = Some (r, H') \<Longrightarrow> heap_ok H'"
    and "heap_ok H \<Longrightarrow> Parcel_setDataPosition n np H = Some (r, H') \<Longrightarrow> heap_ok H'"
    and "heap_ok H \<Longrightarrow> Parcel_setDataCapacity n np H = Some (r, H') \<Longrightarrow> heap_ok H'"
    and "heap_ok H \<Longrightarrow> Parcel_unmarshall env d off n np H = Some (r, H') \<Longrightarrow> heap_ok H'"
proof -
  have sized: "parcel_ok ((ensureCap n p)\<lparr> dataSize := n \<rparr>)" "parcel_ok ((ensureCap n p)\<lparr> dataSize := n, pos := 0 \<rparr>)"
    "parcel_ok ((ensureCap n p)\<lparr> dataSize := n, pos := n \<rparr>)"
    if "parcel_ok p" "0 \<le> n" for p
    using ensureCap_ok [of p n] ensureCap_grows(1) [of p n] that assms
    by (simp_all add: parcel_ok_def int32_def)
  have sz: "keep2 (\<lambda>p. if n < 0 then Some ((), p)
     else let p = (ensureCap n p)\<lparr> dataSize := n \<rparr> in Some ((), if pos p > n then p\<lparr> pos := n \<rparr> else p))"
    by (auto simp: keep2_def Let_def sized split: if_splits)
  show "heap_ok H \<Longrightarrow> Parcel_setDataSize n np H = Some (r, H') \<Longrightarrow> heap_ok H'"
    unfolding Parcel_setDataSize_def by (erule (1) on_parcel_keeps) (rule sz)
  have ps: "keep2 (\<lambda>p. Some ((), if n < 0 then p else p\<lparr> pos := n \<rparr>))"
    using assms by (auto simp: keep2_def parcel_ok_def int32_def)
  show "heap_ok H \<Longrightarrow> Parcel_setDataPosition n np H = Some (r, H') \<Longrightarrow> heap_ok H'"
    unfolding Parcel_setDataPosition_def by (erule (1) on_parcel_keeps) (rule ps)
  have "(if n < 0 then p else if to_i32 (int (length (buf p))) < n then vec_resize (nat n) p else p)
      = (if n < 0 then p else ensureCap n p)" for p
    by (simp add: ensureCap_def)
  then have cp: "keep2 (\<lambda>p. Some ((), if n < 0 then p
      else if to_i32 (int (length (buf p))) < n then vec_resize (nat n) p else p))"
    using ensureCap_int_keeps [OF _ assms] by (auto simp: keep2_def split: if_splits)
  show "heap_ok H \<Longrightarrow> Parcel_setDataCapacity n np H = Some (r, H') \<Longrightarrow> heap_ok H'"
    unfolding Parcel_setDataCapacity_def by (erule (1) on_parcel_keeps) (rule cp)
  have um: "keep2 (\<lambda>p. if n < 0 then Some ((), p) else do {
       let p = (ensureCap n p)\<lparr> dataSize := n, pos := 0 \<rparr>;
       p \<leftarrow> (if n > 0 \<and> GetPrimitiveArrayCritical env then copy_array d off n 0 p else Some p);
       Some ((), p) })"
    by (auto simp: keep2_def Let_def sized bind_eq_Some_conv split: if_splits dest: copy_array_keeps [rotated])
  show "heap_ok H \<Longrightarrow> Parcel_unmarshall env d off n np H = Some (r, H') \<Longrightarrow> heap_ok H'"
    unfolding Parcel_unmarshall_def by (erule (1) on_parcel_keeps) (rule um)
qed

lemma append_keeps:
  assumes "heap_ok H" "Parcel_appendFrom np o' off len H = Some (r, H')"
  shows "heap_ok H'"
proof -
  have "\<exists>a src x q. (H' = H \<or> H np = Some a \<and> writeBytes src len a = Some (x, q) \<and> H' = H(np \<mapsto> q) \<and> np \<noteq> 0)"
    using assms(2) unfolding Parcel_appendFrom_def asParcel_def
    by (auto simp: bind_eq_Some_conv split: if_splits option.splits; blast)
  then obtain a src x q where "H' = H \<or> H np = Some a \<and> writeBytes src len a = Some (x, q) \<and> H' = H(np \<mapsto> q) \<and> np \<noteq> 0"
    by blast
  then show ?thesis using assms(1) writeBytes_keeps [of a src len x q] by (auto simp: heap_ok_def split: if_splits)
qed

lemma parcel_run_keeps: "heap_ok H \<Longrightarrow> parcel_run env np c H = Some H' \<Longrightarrow> heap_ok H'"
proof (cases c)
  case (Create a)
  then show "heap_ok H \<Longrightarrow> parcel_run env np c H = Some H' \<Longrightarrow> heap_ok H'"
    by (auto simp: Parcel_create_def heap_ok_def parcel_ok_new split: if_splits)
next
  case Destroy
  then show "heap_ok H \<Longrightarrow> parcel_run env np c H = Some H' \<Longrightarrow> heap_ok H'"
    by (auto simp: Parcel_destroy_def heap_ok_def bind_eq_Some_conv split: if_splits)
next
  case (Write x)
  then show "heap_ok H \<Longrightarrow> parcel_run env np c H = Some H' \<Longrightarrow> heap_ok H'" by (simp add: write_item_keeps)
next
  case (Read x)
  then show "heap_ok H \<Longrightarrow> parcel_run env np c H = Some H' \<Longrightarrow> heap_ok H'" by (auto dest: read_item_keeps)
qed (auto split: if_splits dest: size_keeps append_keeps write_keeps read_keeps flag_calls_keep)

text \<open>A history of calls, with \<open>None\<close> once a call is undefined.\<close>

definition parcel_step :: "parcels option \<Rightarrow> JNIEnv \<times> u64 \<times> parcel_call \<Rightarrow> parcels option" where
  "parcel_step s c = (case c of (env, np, x) \<Rightarrow> Option.bind s (parcel_run env np x))"

definition parcels_inv :: "parcels option \<Rightarrow> bool" where
  "parcels_inv s = (case s of None \<Rightarrow> True | Some H \<Rightarrow> heap_ok H)"

interpretation parcel_calls: op_machine parcel_step parcels_inv
  by unfold_locales
    (auto simp: parcel_step_def parcels_inv_def bind_eq_Some_conv split: option.splits prod.splits
      intro: parcel_run_keeps)

section \<open>Histories of calls\<close>

text \<open>
  C19 (parcels_stay_valid): after any history of parcel calls that is free of undefined behaviour,
  every live parcel is valid: its magic number is intact, the cursor is not negative, and the data
  size does not exceed the vector.
\<close>

theorem parcels_stay_valid:
  assumes "foldl parcel_step (Some Map.empty) cs = Some H" "H np = Some p"
  shows "parcel_ok p"
proof -
  have "parcels_inv (Some Map.empty)" by (simp add: parcels_inv_def heap_ok_def)
  then have "parcels_inv (foldl parcel_step (Some Map.empty) cs)" by (rule parcel_calls.run_inv)
  then show ?thesis using assms by (simp add: parcels_inv_def heap_ok_def)
qed

definition sample_calls :: "(JNIEnv \<times> u64 \<times> parcel_call) list" where
  "sample_calls = [(ascii_vm, 0, Create 1), (ascii_vm, 1, SetDataPosition 6), (ascii_vm, 1, Write (PInt 9)),
     (ascii_vm, 1, SetDataSize 5)]"

definition sample_parcel :: OhParcelData where
  "sample_parcel = \<lparr> magic = PARCEL_MAGIC, buf = [0, 0, 0, 0, 0, 0, 9, 0, 0, 0], cap = 10, pos = 5, dataSize = 5,
     allowFds = True, sensitive = False, forRpc = False \<rparr>"

lemma sample_calls_run: "foldl parcel_step (Some Map.empty) sample_calls = Some [1 \<mapsto> sample_parcel]"
proof -
  have a: "put32 9 = [9, 0, 0, 0]" by (simp add: put32_def)
  have b: "to_i32 0 = 0" "to_i32 10 = 10" by (simp_all add: to_i32_small)
  show ?thesis
    by (simp add: sample_calls_def parcel_step_def Parcel_create_def Parcel_setDataPosition_def Parcel_setDataSize_def
        Parcel_writeInt_def on_parcel_def asParcel_def new_OhParcelData_def writePOD_def pad4_def i32_def int32_def
        and_not_3 ensureCap_def vec_resize_def store_def poke_def advanceWrite_def a b sample_parcel_def
        eval_nat_numeral)
qed

theorem parcels_stay_valid_witness: "parcel_ok sample_parcel"
  by (rule parcels_stay_valid [OF sample_calls_run, of 1]) simp

section \<open>Reads of arbitrary data\<close>

lemma read_int_total:
  assumes "parcel_ok p" "pos p + 4 < 2 ^ 31"
  obtains n where "read_int p = Some (n, p) \<and> dataSize p < pos p + 4 \<or> read_int p = Some (n, moved 4 p) \<and> pos p + 4 \<le> dataSize p"
proof -
  have p0: "0 \<le> pos p" using assms(1) by (simp add: parcel_ok_def)
  have i: "pad4 4 = Some 4" "i32 (pos p + 4) = Some (pos p + 4)"
    using assms(2) p0 pad4_nat [of 4] by (simp_all add: padn_def i32_fits)
  show ?thesis
  proof (cases "dataSize p < pos p + 4")
    case True
    obtain w where "rd32 (replicate 4 0) 0 = Some w" by (simp add: rd32_def)
    then have "read_int p = Some (sint w, p)" using i True
      by (simp add: read_int_def read_u32_def readPOD_def)
    then show ?thesis using True that by blast
  next
    case False
    then have "nat (pos p) + 4 \<le> length (buf p)" using assms(1) p0 by (auto simp: parcel_ok_def)
    then obtain v where v: "load (pos p) 4 p = Some v" "length v = 4"
      using p0 by (simp add: load_def slice_def)
    then obtain w where "rd32 v 0 = Some w" using rd_total(3) [of 0 v] by auto
    then have "read_int p = Some (sint w, moved 4 p)" using i False v
      by (simp add: read_int_def read_u32_def readPOD_def moved_def)
    then show ?thesis using False that by simp
  qed
qed

lemma readBytes_total:
  assumes "parcel_ok p" "pos p + n + 3 < 2 ^ 31"
  obtains "n < 0" "readBytes n p = Some (None, p)" | "0 \<le> n" "readBytes n p = Some (None, p)"
  | x q where "0 \<le> n" "readBytes n p = Some (x, q)" "buf q = buf p" "x \<noteq> None \<longrightarrow> x = Some (pos p)"
      "load (pos p) (nat n) q \<noteq> None"
proof (cases "n < 0")
  case True
  then show ?thesis using that(1) by (simp add: readBytes_def)
next
  case False
  have p0: "0 \<le> pos p" using assms(1) by (simp add: parcel_ok_def)
  have i: "i32 (pos p + n) = Some (pos p + n)" using assms(2) p0 False by (simp add: i32_fits)
  show ?thesis
  proof (cases "dataSize p < pos p + n")
    case True
    then show ?thesis using that(2) False i by (simp add: readBytes_def)
  next
    case le: False
    have a: "pad4 n = Some (int (padn (nat n)))" using pad4_nat [of "nat n"] assms(2) p0 False by simp
    have "int (padn (nat n)) < n + 4" using padn_bounds(2) [of "nat n"] False by linarith
    then have "i32 (pos p + int (padn (nat n))) = Some (pos p + int (padn (nat n)))"
      using assms(2) p0 by (intro i32_fits) simp_all
    moreover have "nat (pos p) + nat n \<le> length (buf p)"
      using le assms(1) p0 False unfolding parcel_ok_def by linarith
    ultimately show ?thesis
      using that(3) [of "if cap p = 0 then None else Some (pos p)" "p\<lparr> pos := pos p + int (padn (nat n)) \<rparr>"]
        False le i a p0 by (simp add: readBytes_def load_def slice_def)
  qed
qed

lemma take_array_total:
  assumes "parcel_ok p" "pos p + n + 3 < 2 ^ 31"
  shows "take_array env n p \<noteq> None"
  by (rule readBytes_total [OF assms]) (auto simp: take_array_def split: option.splits)

lemma on_parcel_total:
  "H np = Some p \<Longrightarrow> np \<noteq> 0 \<Longrightarrow> parcel_ok p \<Longrightarrow> f p \<noteq> None \<Longrightarrow> on_parcel d f np H \<noteq> None"
  by (auto simp: on_parcel_run [of H np p])

lemma load_less: "load i m p \<noteq> None \<Longrightarrow> n \<le> m \<Longrightarrow> \<exists>v. load i n p = Some v \<and> length v = n"
  by (auto simp: load_def slice_def split: if_splits)

lemma readString16_total:
  assumes ok: "parcel_ok q" "pos q + 2 * n + 5 < 2 ^ 31" "0 \<le> n"
  shows "\<exists>r. do {
       m \<leftarrow> i32 (n + 1);
       (src, p) \<leftarrow> readBytes (to_i32 (m * 2)) q;
       case src of None \<Rightarrow> Some (None, p)
       | Some i \<Rightarrow> do { v \<leftarrow> load i (2 * nat n) p; s \<leftarrow> read_array rd16 2 v 0 (nat n); Some (NewString env s, p) } }
     = Some r"
proof -
  have p0: "0 \<le> pos q" using ok(1) by (simp add: parcel_ok_def)
  have i: "i32 (n + 1) = Some (n + 1)" "to_i32 ((n + 1) * 2) = 2 * n + 2"
    using ok p0 by (simp_all add: i32_fits to_i32_small)
  have a: "\<exists>s. read_array rd16 2 v 0 (nat n) = Some s" if "length v = 2 * nat n" for v
    using f16.array_fits [of 0 "nat n" v] that by auto
  show ?thesis
  proof (rule readBytes_total [OF ok(1), of "2 * n + 2"])
    fix x p
    assume r: "readBytes (2 * n + 2) q = Some (x, p)" "x \<noteq> None \<longrightarrow> x = Some (pos q)"
      "load (pos q) (nat (2 * n + 2)) p \<noteq> None"
    have "2 * nat n \<le> nat (2 * n + 2)" using ok(3) by linarith
    then obtain v where "load (pos q) (2 * nat n) p = Some v" "length v = 2 * nat n"
      using load_less [OF r(3)] by blast
    then show ?thesis using r i a [of v] by (cases x) auto
  qed (use ok i in simp_all)
qed

lemma readByteArray_total:
  assumes "parcel_ok q" "pos q + int (length dest) + 3 < 2 ^ 31"
  shows "\<exists>r. do {
       (src, p) \<leftarrow> readBytes (int (length dest)) q;
       case src of None \<Rightarrow> Some ((False, dest), p)
       | Some i \<Rightarrow> if \<not> GetPrimitiveArrayCritical env then Some ((False, dest), p)
           else do { v \<leftarrow> load i (nat (int (length dest))) p; d \<leftarrow> poke dest 0 v; Some ((True, d), p) } } = Some r"
proof (rule readBytes_total [OF assms])
  fix x p
  assume r: "readBytes (int (length dest)) q = Some (x, p)" "x \<noteq> None \<longrightarrow> x = Some (pos q)"
    "load (pos q) (nat (int (length dest))) p \<noteq> None"
  obtain v where "load (pos q) (length dest) p = Some v" "length v = length dest"
    using load_less [OF r(3), of "length dest"] by auto
  then show ?thesis using r by (cases x) (auto simp: poke_def)
qed (use assms in auto)

text \<open>What a caller that does not trust the data needs: the cursor and the length at it are moderate.\<close>

text \<open>
  Fact (parcel_reads_safe): on a parcel with arbitrary data, with the cursor at most 2^30 and any
  length at the cursor below 2^28, reading numbers, binders, byte arrays, blobs and UTF-16 strings
  never reads outside the vector and never overflows.
\<close>

theorem parcel_reads_safe:
  assumes H: "H np = Some p" "np \<noteq> 0" and ok: "parcel_ok p" "pos p \<le> 2 ^ 30"
    and n: "\<forall>n q. read_int p = Some (n, q) \<longrightarrow> n < 2 ^ 28" and d: "destLen = int (length dest)"
  shows "Parcel_readInt np H \<noteq> None \<and> Parcel_readStrongBinder np H \<noteq> None
    \<and> Parcel_createByteArray env np H \<noteq> None \<and> Parcel_readBlob env np H \<noteq> None
    \<and> Parcel_readByteArray env dest destLen np H \<noteq> None \<and> Parcel_readString16 env np H \<noteq> None"
proof -
  note run = on_parcel_run [of H np p, OF H ok(1)]
  have p0: "0 \<le> pos p" "0 \<le> dataSize p" "dataSize p < 2 ^ 31" using ok(1) by (simp_all add: parcel_ok_def)
  obtain m q where q: "read_int p = Some (m, q)" "q = p \<and> dataSize p < pos p + 4 \<or> q = moved 4 p \<and> pos p + 4 \<le> dataSize p"
  proof -
    have "pos p + 4 < 2 ^ 31" using ok(2) by simp
    from read_int_total [OF ok(1) this] show thesis using that by metis
  qed
  have m: "m < 2 ^ 28" using n q(1) by blast
  have okq: "parcel_ok q" by (rule read_word_keeps(3) [OF ok(1) q(1)])
  have pq: "pos q \<le> 2 ^ 30 + 4" "0 \<le> pos q" "dataSize q = dataSize p" "dataSize q < pos q + 4 \<or> 4 \<le> pos q"
    using q(2) ok(2) p0 by auto
  have diff: "i32 (dataSize q - pos q) = Some (dataSize q - pos q)"
    "i32 (dataSize q - pos q + 4) = Some (dataSize q - pos q + 4)"
    using pq p0 by (auto intro!: i32_fits)
  obtain m2 q2 where q2: "read_int q = Some (m2, q2)" "pos q2 \<le> pos q + 4"
  proof -
    have "pos q + 4 < 2 ^ 31" using pq(1) by simp
    from read_int_total [OF okq this] show thesis using that
      by (metis add_increasing2 moved_simps(1) of_nat_numeral order_refl zero_le_numeral)
  qed
  have okq2: "parcel_ok q2" by (rule read_word_keeps(3) [OF okq q2(1)])
  have ta: "take_array env m q \<noteq> None" "take_array env m q2 \<noteq> None"
    using take_array_total [OF okq, of m env] take_array_total [OF okq2, of m env] m pq(1) q2(2) by simp_all
  have s16: "0 \<le> m \<Longrightarrow> \<exists>r. do {
       m' \<leftarrow> i32 (m + 1);
       (src, p) \<leftarrow> readBytes (to_i32 (m' * 2)) q;
       case src of None \<Rightarrow> Some (None, p)
       | Some i \<Rightarrow> do { v \<leftarrow> load i (2 * nat m) p; s \<leftarrow> read_array rd16 2 v 0 (nat m); Some (NewString env s, p) } }
     = Some r"
    by (rule readString16_total [OF okq]) (use m pq(1) in simp_all)
  have ba: "m = destLen \<Longrightarrow> pos q + int (length dest) + 3 < 2 ^ 31" using d m pq(1) by simp
  show ?thesis
  proof (intro conjI)
    show "Parcel_readInt np H \<noteq> None" using q(1) by (simp add: Parcel_readInt_def run)
    show "Parcel_readStrongBinder np H \<noteq> None" using q(1) by (simp add: Parcel_readStrongBinder_def run)
    show "Parcel_createByteArray env np H \<noteq> None" using q(1) diff ta(1) by (auto simp: Parcel_createByteArray_def run)
    show "Parcel_readBlob env np H \<noteq> None" using q(1) q2(1) ta(2) by (auto simp: Parcel_readBlob_def run)
    show "Parcel_readByteArray env dest destLen np H \<noteq> None"
      unfolding Parcel_readByteArray_def
      by (rule on_parcel_total [of H np p, OF H ok(1)]) (use q(1) readByteArray_total [OF okq, of dest env] ba d in auto)
    show "Parcel_readString16 env np H \<noteq> None"
      unfolding Parcel_readString16_def
      by (rule on_parcel_total [of H np p, OF H ok(1)]) (use q(1) s16 in auto)
  qed
qed

lemma sample_parcel_ok: "parcel_ok sample_parcel"
  by (simp add: parcel_ok_def sample_parcel_def)

theorem parcel_reads_safe_witness:
  "Parcel_readInt 1 [1 \<mapsto> sample_parcel] \<noteq> None \<and> Parcel_readStrongBinder 1 [1 \<mapsto> sample_parcel] \<noteq> None
    \<and> Parcel_createByteArray ascii_vm 1 [1 \<mapsto> sample_parcel] \<noteq> None
    \<and> Parcel_readBlob ascii_vm 1 [1 \<mapsto> sample_parcel] \<noteq> None
    \<and> Parcel_readByteArray ascii_vm [0, 0] 2 1 [1 \<mapsto> sample_parcel] \<noteq> None
    \<and> Parcel_readString16 ascii_vm 1 [1 \<mapsto> sample_parcel] \<noteq> None"
proof (rule parcel_reads_safe [OF _ _ sample_parcel_ok])
  have "rd32 (replicate 4 0) 0 = Some 0" by (simp add: rd32_def le32_def)
  then have "read_int sample_parcel = Some (0, sample_parcel)"
    by (simp add: read_int_def read_u32_def readPOD_def pad4_def i32_def int32_def sample_parcel_def and_not_3)
  then show "\<forall>n q. read_int sample_parcel = Some (n, q) \<longrightarrow> n < 2 ^ 28" by simp
qed (simp_all add: sample_parcel_def)

section \<open>Whole parcels\<close>

lemma load_content: "parcel_ok p \<Longrightarrow> load 0 (nat (dataSize p)) p = Some (content p)"
  by (auto simp: load_def slice_def content_def parcel_ok_def)

lemma load_prefix: "parcel_ok p \<Longrightarrow> 0 \<le> n \<Longrightarrow> n \<le> dataSize p \<Longrightarrow> load 0 (nat n) p = Some (take (nat n) (content p))"
  by (auto simp: load_def slice_def content_def parcel_ok_def min_absorb1)

lemma memcmp_refl: "memcmp u u = 0"
  by (induction u) simp_all

lemma memcmp_zero: "length u = length v \<Longrightarrow> memcmp u v = 0 \<longleftrightarrow> u = v"
  by (induction u v rule: list_induct2) (auto split: if_splits)

lemma asParcel_ok: "H np = Some p \<Longrightarrow> np \<noteq> 0 \<Longrightarrow> parcel_ok p \<Longrightarrow> asParcel H np = Some (Some p)"
  by (simp add: asParcel_def parcel_ok_def)

text \<open>
  Fact (compareData_equal): compareData of two valid parcels is defined and is 0 exactly when their
  data are equal.
\<close>

theorem compareData_equal:
  assumes H: "H a = Some p" "H b = Some q" "a \<noteq> 0" "b \<noteq> 0" and ok: "parcel_ok p" "parcel_ok q"
  shows "\<exists>d. Parcel_compareData a b H = Some d \<and> (d = 0 \<longleftrightarrow> content p = content q)"
proof -
  define n where "n = (if dataSize p < dataSize q then dataSize p else dataSize q)"
  define u v where "u = take (nat n) (content p)" and "v = take (nat n) (content q)"
  have sz: "0 \<le> dataSize p" "0 \<le> dataSize q" "dataSize p < 2 ^ 31" "dataSize q < 2 ^ 31"
    using ok by (simp_all add: parcel_ok_def)
  then have nb: "0 \<le> n" "n \<le> dataSize p" "n \<le> dataSize q" by (simp_all add: n_def)
  have l: "load 0 (nat n) p = Some u" "load 0 (nat n) q = Some v"
    using load_prefix ok nb by (simp_all add: u_def v_def)
  have len: "int (length (content p)) = dataSize p" "int (length (content q)) = dataSize q"
    using length_content ok by blast+
  have luv: "length u = length v" using len nb by (simp add: u_def v_def)
  have mz: "memcmp u v = 0 \<longleftrightarrow> u = v" by (rule memcmp_zero [OF luv])
  have diff: "i32 (dataSize p - dataSize q) = Some (dataSize p - dataSize q)" using sz by (intro i32_fits) simp_all
  have run: "Parcel_compareData a b H = (if memcmp u v \<noteq> 0 then Some (memcmp u v) else Some (dataSize p - dataSize q))"
  proof (cases "n > 0")
    case True
    then show ?thesis using asParcel_ok H ok l diff by (simp add: Parcel_compareData_def n_def [symmetric])
  next
    case False
    then have "u = []" "v = []" using nb by (simp_all add: u_def v_def)
    then show ?thesis using False asParcel_ok H ok diff by (simp add: Parcel_compareData_def n_def [symmetric])
  qed
  have eq: "content p = content q" if "u = v" "dataSize p = dataSize q"
  proof -
    have "nat n = length (content p)" "nat n = length (content q)" using that(2) len by (simp_all add: n_def)
    then show ?thesis using that(1) by (simp add: u_def v_def)
  qed
  show ?thesis
  proof (cases "u = v")
    case True
    then show ?thesis using run mz eq len by (auto simp: memcmp_refl)
  next
    case False
    then have "content p \<noteq> content q" by (auto simp: u_def v_def)
    then show ?thesis using run mz False by auto
  qed
qed

text \<open>
  Fact (marshall_roundtrip): marshalling a parcel returns its data, and unmarshalling that array
  into another parcel, whatever that held before, gives it the same data with the cursor at the
  start.
\<close>

theorem marshall_roundtrip:
  assumes H: "H a = Some p" "H b = Some q" "a \<noteq> 0" "b \<noteq> 0" "a \<noteq> b" and ok: "parcel_ok p" "parcel_ok q"
    and J: "jni_ok env"
  shows "\<exists>d H'. Parcel_marshall env a H = Some (Some d, H) \<and> d = content p
    \<and> Parcel_unmarshall env d 0 (int (length d)) b H = Some ((), H')
    \<and> (\<exists>q'. H' = H(b \<mapsto> q') \<and> parcel_ok q' \<and> content q' = content p \<and> pos q' = 0)"
proof -
  have sz: "0 \<le> dataSize p" "dataSize p < 2 ^ 31" using ok by (simp_all add: parcel_ok_def)
  have len: "int (length (content p)) = dataSize p" by (rule length_content [OF ok(1)])
  have Ha: "H(a \<mapsto> p) = H" using H(1) by (simp add: fun_upd_idem)
  have m: "Parcel_marshall env a H = Some (Some (content p), H)"
  proof (cases "dataSize p > 0")
    case True
    then show ?thesis using J H ok load_content [OF ok(1)] Ha
      by (simp add: Parcel_marshall_def on_parcel_run [of H a p] jni_ok_def)
  next
    case False
    then have "content p = []" "dataSize p = 0" using len sz by simp_all
    then show ?thesis using J H ok Ha by (simp add: Parcel_marshall_def on_parcel_run [of H a p] jni_ok_def)
  qed
  define r where "r = (ensureCap (dataSize p) q)\<lparr> dataSize := dataSize p, pos := 0 \<rparr>"
  have g: "int (length (buf (ensureCap (dataSize p) q))) = max (int (length (buf q))) (dataSize p)"
    by (rule ensureCap_grows [OF ok(2) sz(2)])
  have okr: "parcel_ok r" using ensureCap_ok [OF ok(2) sz(2)] g sz by (simp add: r_def parcel_ok_def)
  have fit: "int (length (content p)) \<le> int (length (buf r))" using g len by (simp add: r_def)
  define q' where "q' = r\<lparr> buf := overlay 0 (content p) (buf r) \<rparr>"
  have st: "copy_array (content p) 0 (int (length (content p))) 0 r = Some q'"
    using store_fits [of 0 "content p" r] fit by (simp add: copy_array_whole q'_def)
  have okq': "parcel_ok q'" by (rule copy_array_keeps [OF okr st])
  have "content q' = content p" using len by (simp add: q'_def content_def [of q'] overlay_def r_def)
      (simp add: content_def)
  then have u: "parcel_ok q' \<and> content q' = content p \<and> pos q' = 0" using okq' by (simp add: q'_def r_def)
  have "q' = r" if "dataSize p = 0" using that len by (simp add: q'_def overlay_def)
  then have "Parcel_unmarshall env (content p) 0 (dataSize p) b H = Some ((), H(b \<mapsto> q'))"
    using st J H ok sz len by (cases "dataSize p = 0")
      (simp add: Parcel_unmarshall_def on_parcel_run [of H b q] Let_def r_def,
       simp add: Parcel_unmarshall_def on_parcel_run [of H b q] jni_ok_def Let_def r_def [symmetric])
  then have "Parcel_unmarshall env (content p) 0 (int (length (content p))) b H = Some ((), H(b \<mapsto> q'))"
    by (simp only: len)
  then show ?thesis using m u by (intro exI [of _ "content p"] exI [of _ "H(b \<mapsto> q')"]) auto
qed

text \<open>Both theorems on a parcel with five bytes and an empty one.\<close>

definition two_parcels :: parcels where
  "two_parcels = [1 \<mapsto> sample_parcel, 2 \<mapsto> new_OhParcelData]"

theorem compareData_equal_witness:
  "\<exists>d. Parcel_compareData 1 2 two_parcels = Some d \<and> (d = 0 \<longleftrightarrow> content sample_parcel = content new_OhParcelData)"
  by (rule compareData_equal [OF _ _ _ _ sample_parcel_ok parcel_ok_new]) (simp_all add: two_parcels_def)

theorem marshall_roundtrip_witness:
  "\<exists>d H'. Parcel_marshall ascii_vm 1 two_parcels = Some (Some d, two_parcels) \<and> d = content sample_parcel
    \<and> Parcel_unmarshall ascii_vm d 0 (int (length d)) 2 two_parcels = Some ((), H')
    \<and> (\<exists>q'. H' = two_parcels(2 \<mapsto> q') \<and> parcel_ok q' \<and> content q' = content sample_parcel \<and> pos q' = 0)"
  by (rule marshall_roundtrip [OF _ _ _ _ _ sample_parcel_ok parcel_ok_new jni_ok_ascii])
    (simp_all add: two_parcels_def)

section \<open>Appending\<close>

lemma writeBytes_other: "v \<noteq> [] \<Longrightarrow> writeBytes (Other v) (int (length v)) p = writePOD v p"
  by (simp add: writeBytes_def writePOD_def Let_def slice_all)

lemma load_range:
  assumes "parcel_ok q" "0 \<le> off" "0 \<le> len" "off + len \<le> dataSize q"
  shows "load off (nat len) q = Some (take (nat len) (drop (nat off) (content q)))"
    "length (take (nat len) (drop (nat off) (content q))) = nat len"
proof -
  have "nat off + nat len \<le> nat (dataSize q)" "nat (dataSize q) \<le> length (buf q)"
    using assms by (auto simp: parcel_ok_def)
  then show "load off (nat len) q = Some (take (nat len) (drop (nat off) (content q)))"
    "length (take (nat len) (drop (nat off) (content q))) = nat len"
    using assms(2) by (auto simp: load_def slice_def content_def drop_take min_def) linarith
qed

text \<open>
  Fact (append_copies): appendFrom of a range of another parcel adds the bytes of the range, zero
  padded to a multiple of four.
\<close>

theorem append_copies:
  assumes H: "H a = Some p" "H b = Some q" "a \<noteq> 0" "b \<noteq> 0" "a \<noteq> b" and ok: "parcel_ok p" "parcel_ok q"
    and r: "0 \<le> off" "0 < len" "off + len \<le> dataSize q" and c: "pos p = dataSize p"
    and fit: "pos p + len + 3 < 2 ^ 31"
  shows "\<exists>p'. Parcel_appendFrom a b off len H = Some ((), H(a \<mapsto> p')) \<and> parcel_ok p'
    \<and> content p' = content p @ padded (take (nat len) (drop (nat off) (content q)))"
proof -
  define v where "v = take (nat len) (drop (nat off) (content q))"
  have v: "load off (nat len) q = Some v" "length v = nat len" "v \<noteq> []"
    using load_range [OF ok(2), of off len] r by (auto simp: v_def)
  have "padn (length v) < nat len + 4" using padn_bounds(2) [of "length v"] v(2) by simp
  then have "pos p + int (padn (length v)) < 2 ^ 31" using fit r(2) by linarith
  then obtain p' where p': "writePOD v p = Some (0, p')" "writes (padded v) p p'"
    using writePOD_writes [OF ok(1), of v] c by auto
  have "dataSize q < 2 ^ 31" using ok(2) by (auto simp: parcel_ok_def)
  then have "i32 (off + len) = Some (off + len)" using r by (intro i32_fits) linarith+
  moreover have "writeBytes (Other v) len p = Some (0, p')" using writeBytes_other [OF v(3), of p] p'(1) v(2) r(2) by simp
  ultimately have "Parcel_appendFrom a b off len H = Some ((), H(a \<mapsto> p'))"
    using asParcel_ok H ok r v(1) by (simp add: Parcel_appendFrom_def)
  moreover have "length (content p) = nat (pos p)" using length_content [OF ok(1)] c by simp
  then have "content p' = content p @ padded v"
    using p'(2) overlay_end [of "content p" "padded v"] by (simp add: writes_def)
  ultimately show ?thesis using p'(2) by (auto simp: writes_def v_def)
qed

theorem append_copies_witness:
  "\<exists>p'. Parcel_appendFrom 2 1 1 3 two_parcels = Some ((), two_parcels(2 \<mapsto> p')) \<and> parcel_ok p'
    \<and> content p' = content new_OhParcelData @ padded (take (nat 3) (drop (nat 1) (content sample_parcel)))"
  by (rule append_copies [OF _ _ _ _ _ parcel_ok_new sample_parcel_ok])
    (simp_all add: two_parcels_def new_OhParcelData_def sample_parcel_def)

text \<open>
  A negative offset passes the range check and reads before the vector; a parcel appended to itself is
  read through a pointer that growing the vector has invalidated.
\<close>

text \<open>
  Fact (append_undefined): appendFrom with a negative offset reads before the vector, and a parcel
  appended to itself beyond its capacity is read through a dangling pointer.
\<close>

theorem append_undefined:
  assumes H: "H a = Some p" "H b = Some q" "a \<noteq> 0" "b \<noteq> 0" and ok: "parcel_ok p" "parcel_ok q"
    and l: "0 < len" "off + len \<le> dataSize q" "- (2 ^ 31) \<le> off"
    and u: "a \<noteq> b \<and> off < 0 \<or> a = b \<and> int (cap p) < pos p + len"
  shows "Parcel_appendFrom a b off len H = None"
proof -
  have "dataSize q < 2 ^ 31" using ok(2) by (auto simp: parcel_ok_def)
  then have i: "i32 (off + len) = Some (off + len)" using l by (intro i32_fits) linarith+
  have "writeBytes (Own off) len p = None" if g: "int (cap p) < pos p + len"
  proof (cases "pad4 len")
    case None
    then show ?thesis using l(1) by (simp add: writeBytes_def)
  next
    case (Some x)
    have x: "len \<le> x" by (rule pad4_result(2) [OF Some]) (use l(1) in simp)
    show ?thesis
    proof (cases "i32 (pos p + x)")
      case None
      then show ?thesis using l(1) Some by (simp add: writeBytes_def)
    next
      case e: (Some e)
      then have e': "e = pos p + x" "e < 2 ^ 31" by (auto simp: i32_eq_Some int32_def)
      have "int (length (buf p)) \<le> int (cap p)" "int (length (buf p)) < 2 ^ 31"
        using ok(1) by (simp_all add: parcel_ok_def)
      moreover from this have "to_i32 (int (length (buf p))) = int (length (buf p))" by (intro to_i32_small) linarith+
      moreover have "cap p < nat e" using g x e'(1) by linarith
      ultimately have "cap (ensureCap e p) \<noteq> cap p"
        using g x e' by (auto simp: ensureCap_def vec_resize_def max_def)
      then show ?thesis using l(1) Some e by (simp add: writeBytes_def)
    qed
  qed
  moreover have "load off (nat len) q = None" if "off < 0" using that by (simp add: load_def)
  ultimately show ?thesis using asParcel_ok H ok l u i by (auto simp: Parcel_appendFrom_def)
qed

theorem append_undefined_witness: "Parcel_appendFrom 1 1 0 4 [1 \<mapsto> sample_parcel\<lparr> pos := 8 \<rparr>] = None"
proof -
  have ok: "parcel_ok (sample_parcel\<lparr> pos := 8 \<rparr>)" by (simp add: parcel_ok_def sample_parcel_def)
  show ?thesis by (rule append_undefined [OF _ _ _ _ ok ok]) (simp_all add: sample_parcel_def)
qed

text \<open>The lengths for which the sum of cursor and length overflows.\<close>

text \<open>
  Fact (hostile_length_undefined): a stored string length of 0x3FFFFFFE (UTF-16) or 0x7FFFFFFE
  (UTF-8) makes the bounds check of readBytes overflow, so reading the string is undefined.
\<close>

theorem hostile_length_undefined:
  assumes H: "H np = Some p" "np \<noteq> 0" and ok: "parcel_ok p"
    and n: "next_is (put32 0x3FFFFFFE) p \<and> x = PString16 None \<or> next_is (put32 0x7FFFFFFE) p \<and> x = PString8 None"
  shows "read_item env x np H = None"
proof -
  have p0: "0 \<le> pos p" using ok by (simp add: parcel_ok_def)
  have u: "readBytes m (moved 4 p) = None" if "0 \<le> m" "2 ^ 31 \<le> pos p + 4 + m" for m
    using that by (simp add: readBytes_def i32_def int32_def)
  from n show ?thesis
  proof
    assume a: "next_is (put32 0x3FFFFFFE) p \<and> x = PString16 None"
    then have "read_int p = Some (0x3FFFFFFE, moved 4 p)" using read_int_next [OF ok, of "0x3FFFFFFE"] by simp
    then show ?thesis using a u [of "0x7FFFFFFE"] p0
      by (simp add: Parcel_readString16_def on_parcel_run [of H np p] H ok i32_fits to_i32_small)
  next
    assume a: "next_is (put32 0x7FFFFFFE) p \<and> x = PString8 None"
    then have "read_int p = Some (0x7FFFFFFE, moved 4 p)" using read_int_next [OF ok, of "0x7FFFFFFE"] by simp
    then show ?thesis using a u [of "0x7FFFFFFF"] p0
      by (simp add: Parcel_readString8_def on_parcel_run [of H np p] H ok i32_fits)
  qed
qed

definition hostile_parcel :: OhParcelData where
  "hostile_parcel = sample_parcel\<lparr> buf := [0xFE, 0xFF, 0xFF, 0x3F], pos := 0, dataSize := 4 \<rparr>"

theorem hostile_length_undefined_witness: "read_item ascii_vm (PString16 None) 1 [1 \<mapsto> hostile_parcel] = None"
proof (rule hostile_length_undefined)
  show "parcel_ok hostile_parcel" by (simp add: hostile_parcel_def parcel_ok_def sample_parcel_def)
  show "next_is (put32 0x3FFFFFFE) hostile_parcel \<and> PString16 None = PString16 None
     \<or> next_is (put32 0x7FFFFFFE) hostile_parcel \<and> PString16 None = PString8 None"
    by (simp add: hostile_parcel_def sample_parcel_def next_is_def content_def put32_def slice_def)
qed simp_all

end
