(* ===== verification/InputBridge.thy ===== *)
theory InputBridge
  imports Prelude
begin

text \<open>
  The input bridge: \<open>window/jni/oh_input_bridge.cpp\<close> and \<open>oh_input_bridge.h\<close>. Events of the OpenHarmony
  input service are translated and either handed to the view hierarchy directly or written as Android
  input messages to the socket of the window's input channel. A \<open>float\<close> is its bit pattern; comparisons of
  floats with positive constants are comparisons of the patterns, which order the non-negative floats.
  The direct hand-over (JNI reflection) and the socket are parameters. \<open>None\<close> is undefined behaviour.
\<close>

section \<open>The wire format\<close>

definition INPUT_MSG_TYPE_KEY :: u32 where "INPUT_MSG_TYPE_KEY = 0"
definition INPUT_MSG_TYPE_MOTION :: u32 where "INPUT_MSG_TYPE_MOTION = 1"
definition INPUT_MSG_TYPE_FINISHED :: u32 where "INPUT_MSG_TYPE_FINISHED = 2"
definition AINPUT_SOURCE_TOUCHSCREEN :: u32 where "AINPUT_SOURCE_TOUCHSCREEN = 0x1002"
definition AINPUT_SOURCE_KEYBOARD :: u32 where "AINPUT_SOURCE_KEYBOARD = 0x101"
definition AMOTION_EVENT_TOOL_TYPE_FINGER :: u32 where "AMOTION_EVENT_TOOL_TYPE_FINGER = 1"
definition MAX_POINTERS :: nat where "MAX_POINTERS = 16"
definition MAX_POINTER_COORDS_AXES :: nat where "MAX_POINTER_COORDS_AXES = 30"

record InputMessageHeader =
  h_type :: u32
  h_seq :: u32

record InputMessagePointer =
  p_id :: u32
  p_toolType :: u32
  p_bits :: u64
  p_values :: "u32 list"
  p_isResampled :: byte

record MotionEventBody =
  m_eventId :: u32
  m_pointerCount :: u32
  m_eventTime :: u64
  m_deviceId :: u32
  m_source :: u32
  m_displayId :: u32
  m_hmac :: bytes
  m_action :: u32
  m_actionButton :: u32
  m_flags :: u32
  m_metaState :: u32
  m_buttonState :: u32
  m_classification :: byte
  m_edgeFlags :: u32
  m_downTime :: u64
  m_transform :: "u32 list" \<comment> \<open>\<open>dsdx, dtdx, dtdy, dsdy, tx, ty\<close>\<close>
  m_precision :: "u32 list" \<comment> \<open>\<open>xPrecision, yPrecision, xCursorPosition, yCursorPosition\<close>\<close>
  m_rawTransform :: "u32 list"
  m_pointers :: "InputMessagePointer list"

record KeyEventBody =
  k_eventId :: u32
  k_eventTime :: u64
  k_deviceId :: u32
  k_source :: u32
  k_displayId :: u32
  k_hmac :: bytes
  k_action :: u32
  k_flags :: u32
  k_keyCode :: u32
  k_scanCode :: u32
  k_metaState :: u32
  k_repeatCount :: u32
  k_downTime :: u64

text \<open>The object representation of the structures, padding included.\<close>

definition floats :: "u32 list \<Rightarrow> bytes" where
  "floats xs = concat (map put32 xs)"

definition header_bytes :: "InputMessageHeader \<Rightarrow> bytes" where
  "header_bytes h = put32 (h_type h) @ put32 (h_seq h)"

definition pointer_bytes :: "InputMessagePointer \<Rightarrow> bytes" where
  "pointer_bytes p = put32 (p_id p) @ put32 (p_toolType p) @ put64 (p_bits p) @ floats (p_values p)
     @ [p_isResampled p] @ replicate 7 0"

definition motion_prefix :: "MotionEventBody \<Rightarrow> bytes" where
  "motion_prefix b = put32 (m_eventId b) @ put32 (m_pointerCount b) @ put64 (m_eventTime b)
     @ put32 (m_deviceId b) @ put32 (m_source b) @ put32 (m_displayId b) @ m_hmac b @ put32 (m_action b)
     @ put32 (m_actionButton b) @ put32 (m_flags b) @ put32 (m_metaState b) @ put32 (m_buttonState b)
     @ [m_classification b] @ replicate 3 0 @ put32 (m_edgeFlags b) @ put64 (m_downTime b)
     @ floats (m_transform b) @ floats (m_precision b) @ floats (m_rawTransform b)"

definition motion_bytes :: "MotionEventBody \<Rightarrow> bytes" where
  "motion_bytes b = motion_prefix b @ concat (map pointer_bytes (m_pointers b))"

definition key_bytes :: "KeyEventBody \<Rightarrow> bytes" where
  "key_bytes b = put32 (k_eventId b) @ put32 0 @ put64 (k_eventTime b) @ put32 (k_deviceId b)
     @ put32 (k_source b) @ put32 (k_displayId b) @ k_hmac b @ put32 (k_action b) @ put32 (k_flags b)
     @ put32 (k_keyCode b) @ put32 (k_scanCode b) @ put32 (k_metaState b) @ put32 (k_repeatCount b)
     @ put32 0 @ put64 (k_downTime b)"

definition sizeof_msg_header :: nat where "sizeof_msg_header = 8"
definition sizeof_pointer :: nat where "sizeof_pointer = 144"
definition sizeof_motion :: nat where "sizeof_motion = 160 + sizeof_pointer * MAX_POINTERS"
definition sizeof_key :: nat where "sizeof_key = 96"

definition motionBodyWireSize :: "nat \<Rightarrow> nat" where
  "motionBodyWireSize n = sizeof_motion - sizeof_pointer * MAX_POINTERS + sizeof_pointer * n"

definition no_pointer :: InputMessagePointer where
  "no_pointer = \<lparr> p_id = 0, p_toolType = 0, p_bits = 0, p_values = replicate MAX_POINTER_COORDS_AXES 0,
     p_isResampled = 0 \<rparr>"

section \<open>Key codes\<close>

definition ohKeyCodeToAndroid :: "int \<Rightarrow> int" where
  "ohKeyCodeToAndroid oh =
     (if oh = 2012 then 19 else if oh = 2013 then 20 else if oh = 2014 then 21 else if oh = 2015 then 22
      else if oh = 2016 then 23 else if oh = 2054 then 66 else if oh = 2 then 4 else if oh = 1 then 3
      else if oh = 2049 then 62 else if oh = 2050 then 61 else if oh = 2055 then 67
      else if oh = 2071 then 92 else if oh = 2072 then 93 else - 1)"

section \<open>Sessions\<close>

record SessionInput =
  serverFd :: int
  ohInputFd :: int
  seq :: u32

definition new_SessionInput :: SessionInput where
  "new_SessionInput = \<lparr> serverFd = - 1, ohInputFd = - 1, seq = 0 \<rparr>"

text \<open>
  The bridge with the messages that its sockets have accepted, oldest first, and the two thread-local
  times of the event consumer.
\<close>

record OHInputBridge =
  sessions :: "int \<Rightarrow> SessionInput option"
  monitoring :: bool
  activeSessionId :: int
  mmiSubscribed :: bool
  sent :: "(int \<times> bytes) list"
  s_keyDownNs :: int
  s_cachedDownTimeNs :: int

definition new_OHInputBridge :: OHInputBridge where
  "new_OHInputBridge = \<lparr> sessions = Map.empty, monitoring = False, activeSessionId = - 1, mmiSubscribed = False,
     sent = [], s_keyDownNs = 0, s_cachedDownTimeNs = 0 \<rparr>"

text \<open>\<open>send\<close> on a socket: the number of bytes it took, or the error number.\<close>

type_synonym socket_send = "int \<Rightarrow> bytes \<Rightarrow> int + nat"

definition registerInputChannel :: "int \<Rightarrow> int \<Rightarrow> OHInputBridge \<Rightarrow> OHInputBridge" where
  "registerInputChannel sid fd b =
     (let s = (case sessions b sid of None \<Rightarrow> new_SessionInput | Some s \<Rightarrow> s)
      in b\<lparr> sessions := (sessions b)(sid \<mapsto> s\<lparr> serverFd := fd, seq := 0 \<rparr>) \<rparr>)"

definition unregisterInputChannel :: "int \<Rightarrow> OHInputBridge \<Rightarrow> OHInputBridge" where
  "unregisterInputChannel sid b = b\<lparr> sessions := (sessions b)(sid := None) \<rparr>"

definition registerOHInputFd :: "int \<Rightarrow> int \<Rightarrow> OHInputBridge \<Rightarrow> OHInputBridge" where
  "registerOHInputFd sid fd b = (let b = (case sessions b sid of None \<Rightarrow> b
       | Some s \<Rightarrow> b\<lparr> sessions := (sessions b)(sid \<mapsto> s\<lparr> ohInputFd := fd \<rparr>) \<rparr>)
     in b\<lparr> monitoring := True \<rparr>)"

definition send_message :: "socket_send \<Rightarrow> int \<Rightarrow> bytes \<Rightarrow> OHInputBridge \<Rightarrow> int \<times> OHInputBridge" where
  "send_message S fd msg b = (case S fd msg of
       Inl e \<Rightarrow> (- e, b)
     | Inr n \<Rightarrow> (if n \<noteq> length msg then - 1 else 0, b\<lparr> sent := sent b @ [(fd, take n msg)] \<rparr>))"

definition finger :: "u32 \<Rightarrow> u32 \<Rightarrow> InputMessagePointer" where
  "finger x y = \<lparr> p_id = 0, p_toolType = AMOTION_EVENT_TOOL_TYPE_FINGER, p_bits = 0xF,
     p_values = [x, y, 0x3F800000, 0x3C23D70A] @ replicate (MAX_POINTER_COORDS_AXES - 4) 0, p_isResampled = 0 \<rparr>"

definition motion_body :: "u32 \<Rightarrow> int \<Rightarrow> u32 \<Rightarrow> u32 \<Rightarrow> int \<Rightarrow> int \<Rightarrow> MotionEventBody" where
  "motion_body q action x y downTime eventTime =
     \<lparr> m_eventId = q, m_pointerCount = 1, m_eventTime = word_of_int eventTime, m_deviceId = 1,
       m_source = AINPUT_SOURCE_TOUCHSCREEN, m_displayId = 0, m_hmac = replicate 32 0,
       m_action = word_of_int action, m_actionButton = 0, m_flags = 0, m_metaState = 0, m_buttonState = 0,
       m_classification = 0, m_edgeFlags = 0, m_downTime = word_of_int downTime,
       m_transform = [0x3F800000, 0, 0, 0x3F800000, 0, 0],
       m_precision = [0x3F800000, 0x3F800000, 0, 0],
       m_rawTransform = [0x3F800000, 0, 0, 0x3F800000, 0, 0],
       m_pointers = finger x y # replicate (MAX_POINTERS - 1) no_pointer \<rparr>"

definition writeMotionEvent ::
  "socket_send \<Rightarrow> int \<Rightarrow> u32 \<Rightarrow> int \<Rightarrow> u32 \<Rightarrow> u32 \<Rightarrow> int \<Rightarrow> int \<Rightarrow> OHInputBridge \<Rightarrow> int \<times> OHInputBridge" where
  "writeMotionEvent S fd q action x y downTime eventTime b =
     (let msg = header_bytes \<lparr> h_type = INPUT_MSG_TYPE_MOTION, h_seq = q \<rparr>
            @ motion_bytes (motion_body q action x y downTime eventTime);
          wireSize = sizeof_msg_header + motionBodyWireSize 1
      in send_message S fd (take wireSize msg) b)"

definition key_body :: "u32 \<Rightarrow> int \<Rightarrow> int \<Rightarrow> int \<Rightarrow> int \<Rightarrow> KeyEventBody" where
  "key_body q action keyCode downTime eventTime =
     \<lparr> k_eventId = q, k_eventTime = word_of_int eventTime, k_deviceId = 1, k_source = AINPUT_SOURCE_KEYBOARD,
       k_displayId = 0, k_hmac = replicate 32 0, k_action = word_of_int action, k_flags = 0,
       k_keyCode = word_of_int keyCode, k_scanCode = 0, k_metaState = 0, k_repeatCount = 0,
       k_downTime = word_of_int downTime \<rparr>"

definition writeKeyEvent ::
  "socket_send \<Rightarrow> int \<Rightarrow> u32 \<Rightarrow> int \<Rightarrow> int \<Rightarrow> int \<Rightarrow> int \<Rightarrow> OHInputBridge \<Rightarrow> int \<times> OHInputBridge" where
  "writeKeyEvent S fd q action keyCode downTime eventTime b =
     (let msg = header_bytes \<lparr> h_type = INPUT_MSG_TYPE_KEY, h_seq = q \<rparr>
            @ key_bytes (key_body q action keyCode downTime eventTime);
          wireSize = sizeof_msg_header + sizeof_key
      in send_message S fd (take wireSize msg) b)"

definition injectTouchEvent ::
  "socket_send \<Rightarrow> int \<Rightarrow> int \<Rightarrow> u32 \<Rightarrow> u32 \<Rightarrow> int \<Rightarrow> int \<Rightarrow> OHInputBridge \<Rightarrow> int \<times> OHInputBridge" where
  "injectTouchEvent S sid action x y downTime eventTime b = (case sessions b sid of
       None \<Rightarrow> (- 1, b)
     | Some s \<Rightarrow> if serverFd s < 0 then (- 1, b)
         else let s = s\<lparr> seq := seq s + 1 \<rparr>; b = b\<lparr> sessions := (sessions b)(sid \<mapsto> s) \<rparr>
           in writeMotionEvent S (serverFd s) (seq s) action x y downTime eventTime b)"

definition injectKeyEvent ::
  "socket_send \<Rightarrow> int \<Rightarrow> int \<Rightarrow> int \<Rightarrow> int \<Rightarrow> int \<Rightarrow> OHInputBridge \<Rightarrow> int \<times> OHInputBridge" where
  "injectKeyEvent S sid action keyCode downTime eventTime b = (case sessions b sid of
       None \<Rightarrow> (- 1, b)
     | Some s \<Rightarrow> if serverFd s < 0 then (- 1, b)
         else let s = s\<lparr> seq := seq s + 1 \<rparr>; b = b\<lparr> sessions := (sessions b)(sid \<mapsto> s) \<rparr>
           in writeKeyEvent S (serverFd s) (seq s) action keyCode downTime eventTime b)"

section \<open>The event consumer\<close>

text \<open>
  Calls into the view hierarchy. A coordinate is a float, given by its bits or converted from an integer.
\<close>

datatype coord = Float u32 | FromInt int

datatype view_call =
    DispatchTouch int coord coord int int
  | DispatchSingleTouch int u32 u32 int int
  | DispatchKey int int int int int
  | DispatchDrag int int int int
  | DispatchCharacters bytes

text \<open>The result code of a call; 0 is success.\<close>

type_synonym view_result = "view_call \<Rightarrow> int"

record KeyEvent =
  ke_keyCode :: int
  ke_action :: int
  ke_actionTime :: int

text \<open>
  A pointer item has its window position as floats converted from the double and from the integer
  accessors, and a down time in microseconds. \<open>None\<close> as item is a failing \<open>GetPointerItem\<close>.
\<close>

record PointerItem =
  pi_xPos :: u32
  pi_yPos :: u32
  pi_x :: u32
  pi_y :: u32
  pi_downTime :: int

record PointerEvent =
  pe_action :: int
  pe_actionTime :: int
  pe_item :: "PointerItem option"

definition usToNs :: "int \<Rightarrow> int option" where
  "usToNs t = (if - (2 ^ 63) \<le> t * 1000 \<and> t * 1000 < 2 ^ 63 then Some (t * 1000) else None)"

definition tabX :: "u32 list" where
  "tabX = [0x42900000, 0x43580000, 0x43B40000, 0x43FC0000, 0x44220000]"

definition tabY :: u32 where "tabY = 0x44984000"

definition onKeyEvent ::
  "view_result \<Rightarrow> socket_send \<Rightarrow> KeyEvent \<Rightarrow> OHInputBridge \<Rightarrow> (view_call list \<times> OHInputBridge) option" where
  "onKeyEvent V S e b =
     (let sessionId = activeSessionId b; ohCode = ke_keyCode e; ohAction = ke_action e
      in if ohAction = 2 \<and> 2001 \<le> ohCode \<and> ohCode \<le> 2005 then do {
           nowNs \<leftarrow> usToNs (ke_actionTime e);
           Some ([DispatchTouch 1 (Float (tabX ! nat (ohCode - 2001))) (Float tabY) nowNs nowNs], b) }
         else let androidKey = ohKeyCodeToAndroid ohCode; androidAction = (if ohAction = 3 then 1 else 0)
           in if sessionId < 0 \<or> androidKey < 0 then Some ([], b)
           else do {
             eventTimeNs \<leftarrow> usToNs (ke_actionTime e);
             let (downTimeNs, b) = (if androidAction = 0 then (eventTimeNs, b\<lparr> s_keyDownNs := eventTimeNs \<rparr>)
               else (if s_keyDownNs b > 0 then s_keyDownNs b else eventTimeNs, b));
             let c = DispatchKey androidAction androidKey downTimeNs eventTimeNs 0;
             Some ([c], if V c \<noteq> 0
               then snd (injectKeyEvent S sessionId androidAction androidKey downTimeNs eventTimeNs b)
               else b) })"

definition androidPointerAction :: "int \<Rightarrow> int option" where
  "androidPointerAction a = (if a = 2 then Some 0 else if a = 4 then Some 1 else if a = 3 then Some 2
     else if a = 1 then Some 3 else None)"

definition is_zero :: "u32 \<Rightarrow> bool" where
  "is_zero f \<longleftrightarrow> f = 0 \<or> f = 0x80000000"

text \<open>\<open>y >= 76.0f && y <= 130.0f\<close>, and the column \<open>(int)(x / 144.0f)\<close> clamped to 0..4.\<close>

definition in_band :: "u32 \<Rightarrow> bool" where
  "in_band y \<longleftrightarrow> 0x42980000 \<le> y \<and> y \<le> 0x43020000"

definition tab_column :: "u32 \<Rightarrow> nat option" where
  "tab_column x =
     (if x < 0x43100000 \<or> (0x80000000 \<le> x \<and> x \<le> 0xD2900000) then Some 0
      else if x < 0x43900000 then Some 1 else if x < 0x43D80000 then Some 2 else if x < 0x44100000 then Some 3
      else if x < 0x52900000 then Some 4 else None)"

text \<open>The time of the press that an event belongs to, and the cached time afterwards.\<close>

definition press_time :: "int \<Rightarrow> int \<Rightarrow> PointerItem \<Rightarrow> int \<Rightarrow> (int \<times> int) option" where
  "press_time androidAction eventTimeNs item cached =
     (if androidAction = 0 then Some (eventTimeNs, eventTimeNs)
      else do {
        ohDownNs \<leftarrow> usToNs (pi_downTime item);
        let downTimeNs = (if ohDownNs > 0 then ohDownNs else if cached > 0 then cached else eventTimeNs);
        Some (downTimeNs, if androidAction = 1 \<or> androidAction = 3 then 0 else cached) })"

definition onPointerEvent ::
  "view_result \<Rightarrow> socket_send \<Rightarrow> PointerEvent \<Rightarrow> OHInputBridge \<Rightarrow> (view_call list \<times> OHInputBridge) option" where
  "onPointerEvent V S e b =
     (let sessionId = activeSessionId b
      in if sessionId < 0 then Some ([], b)
         else case pe_item e of None \<Rightarrow> Some ([], b)
         | Some item \<Rightarrow> (case androidPointerAction (pe_action e) of None \<Rightarrow> Some ([], b)
           | Some androidAction \<Rightarrow> do {
               let (x, y) = (if is_zero (pi_xPos item) \<and> is_zero (pi_yPos item) then (pi_x item, pi_y item)
                 else (pi_xPos item, pi_yPos item));
               eventTimeNs \<leftarrow> usToNs (pe_actionTime e);
               (downTimeNs, cached) \<leftarrow> press_time androidAction eventTimeNs item (s_cachedDownTimeNs b);
               let b = b\<lparr> s_cachedDownTimeNs := cached \<rparr>;
               if androidAction = 1 \<and> in_band y then do {
                 idx \<leftarrow> tab_column x;
                 Some ([DispatchTouch 1 (Float (tabX ! idx)) (Float tabY) downTimeNs eventTimeNs], b) }
               else let c = DispatchSingleTouch androidAction x y downTimeNs eventTimeNs
                 in Some ([c], if V c \<noteq> 0
                     then snd (injectTouchEvent S sessionId androidAction x y downTimeNs eventTimeNs b)
                     else b) }))"

text \<open>
  The outcomes of the calls to the system: whether the event runner can be created. A failing
  \<open>SetWindowInputEventConsumer\<close> or \<open>AddMonitor\<close> only changes what is logged.
\<close>

definition subscribeMmi :: "bool \<Rightarrow> int \<Rightarrow> OHInputBridge \<Rightarrow> OHInputBridge" where
  "subscribeMmi runnerOk sid b =
     (let b = b\<lparr> activeSessionId := sid \<rparr>
      in if mmiSubscribed b then b else b\<lparr> mmiSubscribed := runnerOk \<rparr>)"

section \<open>The control channels\<close>

text \<open>
  \<open>sscanf\<close> with \<open>%d\<close> conversions: white space is skipped, an optional sign and at least one digit are
  read. The outer option is \<open>None\<close> when a number does not fit into an \<open>int\<close>.
\<close>

definition space_char :: "byte \<Rightarrow> bool" where
  "space_char c \<longleftrightarrow> c = 32 \<or> (9 \<le> c \<and> c \<le> 13)"

definition digit_char :: "byte \<Rightarrow> bool" where
  "digit_char c \<longleftrightarrow> 48 \<le> c \<and> c \<le> 57"

definition digits_number :: "bytes \<Rightarrow> int" where
  "digits_number ds = foldl (\<lambda>n d. 10 * n + (uint d - 48)) 0 ds"

definition scan_int :: "bytes \<Rightarrow> (int \<times> bytes) option option" where
  "scan_int s =
     (let s = dropWhile space_char s;
          neg = (s \<noteq> [] \<and> hd s = 45);
          s = (if s \<noteq> [] \<and> (hd s = 45 \<or> hd s = 43) then tl s else s);
          ds = takeWhile digit_char s; rest = dropWhile digit_char s
      in if ds = [] then Some None
         else let v = (if neg then - digits_number ds else digits_number ds)
           in if int32 v then Some (Some (v, rest)) else None)"

fun scan_ints :: "nat \<Rightarrow> bytes \<Rightarrow> int list option" where
  "scan_ints 0 s = Some []"
| "scan_ints (Suc n) s = do {
     r \<leftarrow> scan_int s;
     case r of None \<Rightarrow> Some []
     | Some (v, rest) \<Rightarrow> do { vs \<leftarrow> scan_ints n rest; Some (v # vs) } }"

text \<open>What one round of the tap channel does with the content of the control file.\<close>

datatype tap_command = Idle | Diagnose | SetRoot "int option" | Calls "view_call list"

definition buf_string :: "nat \<Rightarrow> bytes \<Rightarrow> bytes" where
  "buf_string n content = takeWhile (\<lambda>c. c \<noteq> 0) (take n content)"

definition tap_numbers :: "int list \<Rightarrow> view_call list" where
  "tap_numbers vs = (case vs of
       [a, b, c, d] \<Rightarrow> [DispatchDrag a b c d]
     | [a] \<Rightarrow> if 1 \<le> a \<and> a \<le> 5 then [DispatchTouch 1 (Float (tabX ! nat (a - 1))) (Float tabY) 0 0] else []
     | [a, b] \<Rightarrow> if a < 0 then [] else [DispatchTouch 1 (FromInt a) (FromInt b) 0 0]
     | _ \<Rightarrow> [])"

definition tapControl :: "bytes \<Rightarrow> tap_command option" where
  "tapControl content =
     (if content = [] then Some Idle
      else let s = buf_string 63 content
        in if s \<noteq> [] \<and> hd s \<in> set (bytes_of ''wWxXpPqQvV'') then Some Diagnose
           else if s \<noteq> [] \<and> hd s \<in> set (bytes_of ''rR'')
             then do { r \<leftarrow> scan_ints 1 (tl s); Some (SetRoot (case r of [v] \<Rightarrow> Some v | _ \<Rightarrow> None)) }
           else if s \<noteq> [] \<and> hd s \<in> set (bytes_of ''bB'')
             then Some (Calls [DispatchKey 0 4 0 0 0, DispatchKey 1 4 0 0 0])
           else do { vs \<leftarrow> scan_ints 4 s; Some (Calls (tap_numbers vs)) })"

definition META_SHIFT :: int where "META_SHIFT = 0x41"

definition charToKey :: "byte \<Rightarrow> (int \<times> bool) option" where
  "charToKey ch =
     (if 97 \<le> ch \<and> ch \<le> 122 then Some (29 + (uint ch - 97), False)
      else if 65 \<le> ch \<and> ch \<le> 90 then Some (29 + (uint ch - 65), True)
      else if 48 \<le> ch \<and> ch \<le> 57 then Some (7 + (uint ch - 48), False)
      else if ch = 32 then Some (62, False) else if ch = 64 then Some (77, False)
      else if ch = 46 then Some (56, False) else if ch = 45 then Some (69, False)
      else if ch = 95 then Some (69, True) else if ch = 43 then Some (81, False) else None)"

definition tapKey :: "int \<Rightarrow> int \<Rightarrow> view_call list" where
  "tapKey code meta = [DispatchKey 0 code 0 0 meta, DispatchKey 1 code 0 0 meta]"

definition typed :: "bytes \<Rightarrow> view_call list" where
  "typed s = concat (map (\<lambda>ch. case charToKey ch of None \<Rightarrow> []
     | Some (code, shift) \<Rightarrow> tapKey code (if shift then META_SHIFT else 0)) s)"

definition strip_newlines :: "bytes \<Rightarrow> bytes" where
  "strip_newlines s = rev (dropWhile (\<lambda>c. c = 10 \<or> c = 13) (rev s))"

definition textControl :: "view_result \<Rightarrow> bytes \<Rightarrow> view_call list option" where
  "textControl V content =
     (let s = strip_newlines (take 511 content); c = takeWhile (\<lambda>c. c \<noteq> 0) s
      in if s = [] then Some []
         else if c = bytes_of ''ENTER'' then Some (tapKey 66 0)
         else if take 3 c = bytes_of ''DEL'' then do {
           r \<leftarrow> scan_ints 1 (drop 3 c);
           let cnt = (case r of [v] \<Rightarrow> max 1 v | _ \<Rightarrow> 1);
           Some (concat (replicate (nat cnt) (tapKey 67 0))) }
         else if c = bytes_of ''CLEAR'' then Some (concat (replicate 80 (tapKey 67 0)))
         else Some (DispatchCharacters c # (if V (DispatchCharacters c) \<noteq> 0 then typed s else [])))"

section \<open>Gestures\<close>

fun run_pointer ::
  "view_result \<Rightarrow> socket_send \<Rightarrow> PointerEvent list \<Rightarrow> OHInputBridge \<Rightarrow> (view_call list \<times> OHInputBridge) option" where
  "run_pointer V S [] b = Some ([], b)"
| "run_pointer V S (e # es) b = do {
     (c, b) \<leftarrow> onPointerEvent V S e b;
     (cs, b) \<leftarrow> run_pointer V S es b;
     Some (c @ cs, b) }"

fun call_press :: "view_call \<Rightarrow> int option" where
  "call_press (DispatchTouch a x y d e) = Some d"
| "call_press (DispatchSingleTouch a x y d e) = Some d"
| "call_press _ = None"

text \<open>The window position that is used for an item.\<close>

definition item_point :: "PointerItem \<Rightarrow> u32 \<times> u32" where
  "item_point i = (if is_zero (pi_xPos i) \<and> is_zero (pi_yPos i) then (pi_x i, pi_y i) else (pi_xPos i, pi_yPos i))"

text \<open>
  An event of a gesture after its press: a move, a release or a cancellation, without a down time of its
  own, in range, and not on the tab strip at a column that does not exist.
\<close>

definition follows :: "int \<Rightarrow> PointerEvent \<Rightarrow> bool" where
  "follows a e \<longleftrightarrow> pe_action e = a \<and> usToNs (pe_actionTime e) \<noteq> None \<and> (case pe_item e of None \<Rightarrow> False
     | Some i \<Rightarrow> pi_downTime i = 0 \<and> (in_band (snd (item_point i)) \<longrightarrow> tab_column (fst (item_point i)) \<noteq> None))"

lemma inject_frame:
  "activeSessionId (snd (injectTouchEvent S sid a x y d e b)) = activeSessionId b"
  "s_cachedDownTimeNs (snd (injectTouchEvent S sid a x y d e b)) = s_cachedDownTimeNs b"
  by (simp_all add: injectTouchEvent_def writeMotionEvent_def send_message_def Let_def split: option.split sum.split)

lemma onPointerEvent_item:
  assumes "0 \<le> activeSessionId b" "pe_item e = Some i" "androidPointerAction (pe_action e) = Some a"
    and "usToNs (pe_actionTime e) = Some t" "press_time a t i (s_cachedDownTimeNs b) = Some (d, c)"
    and "a = 1 \<and> in_band (snd (item_point i)) \<longrightarrow> tab_column (fst (item_point i)) \<noteq> None"
  shows "\<exists>call b'. onPointerEvent V S e b = Some ([call], b') \<and> call_press call = Some d
    \<and> s_cachedDownTimeNs b' = c \<and> activeSessionId b' = activeSessionId b
    \<and> (\<not> (a = 1 \<and> in_band (snd (item_point i))) \<longrightarrow>
        call = DispatchSingleTouch a (fst (item_point i)) (snd (item_point i)) d t)"
proof -
  obtain x y where p: "item_point i = (x, y)" by fastforce
  show ?thesis
  proof (cases "a = 1 \<and> in_band y")
    case True
    then obtain k where "tab_column x = Some k" using assms(6) p by auto
    then show ?thesis using True assms p by (simp add: onPointerEvent_def item_point_def [symmetric])
  next
    case False
    then show ?thesis using assms p
      by (auto simp: onPointerEvent_def item_point_def [symmetric] Let_def inject_frame)
  qed
qed

text \<open>The call that a pointer event of the press at time \<open>t\<close> stands for.\<close>

definition gesture_call :: "int \<Rightarrow> PointerEvent \<Rightarrow> view_call" where
  "gesture_call t e = (case pe_item e of Some i \<Rightarrow>
     DispatchSingleTouch (the (androidPointerAction (pe_action e))) (fst (item_point i)) (snd (item_point i)) t
       (pe_actionTime e * 1000))"

definition on_strip :: "PointerEvent \<Rightarrow> bool" where
  "on_strip e \<longleftrightarrow> (case pe_item e of None \<Rightarrow> False | Some i \<Rightarrow> in_band (snd (item_point i)))"

lemma usToNs_Some: "usToNs t = Some n \<Longrightarrow> n = t * 1000"
  by (auto simp: usToNs_def split: if_splits)

lemma follow_step:
  assumes "0 \<le> activeSessionId b" "0 < s_cachedDownTimeNs b" "follows k e" "androidPointerAction k = Some a" "a \<noteq> 0"
  shows "\<exists>call b'. onPointerEvent V S e b = Some ([call], b') \<and> call_press call = Some (s_cachedDownTimeNs b)
    \<and> s_cachedDownTimeNs b' = (if a = 1 \<or> a = 3 then 0 else s_cachedDownTimeNs b)
    \<and> activeSessionId b' = activeSessionId b
    \<and> (\<not> (a = 1 \<and> on_strip e) \<longrightarrow> call = gesture_call (s_cachedDownTimeNs b) e)"
proof -
  obtain i t where i: "pe_item e = Some i" "usToNs (pe_actionTime e) = Some t" "pi_downTime i = 0" "pe_action e = k"
    "in_band (snd (item_point i)) \<longrightarrow> tab_column (fst (item_point i)) \<noteq> None"
    using assms(3) by (auto simp: follows_def split: option.splits)
  have p: "press_time a t i (s_cachedDownTimeNs b)
      = Some (s_cachedDownTimeNs b, if a = 1 \<or> a = 3 then 0 else s_cachedDownTimeNs b)"
    using assms(2,5) i(3) by (simp add: press_time_def usToNs_def)
  show ?thesis
    using onPointerEvent_item [OF assms(1) i(1) _ i(2) p, of V S] assms(4) i usToNs_Some [OF i(2)]
    by (auto simp: on_strip_def gesture_call_def)
qed

lemma moves_step:
  assumes "0 \<le> activeSessionId b" "0 < s_cachedDownTimeNs b" "list_all (follows 3) ms"
  shows "\<exists>b'. run_pointer V S ms b = Some (map (gesture_call (s_cachedDownTimeNs b)) ms, b')
    \<and> s_cachedDownTimeNs b' = s_cachedDownTimeNs b \<and> activeSessionId b' = activeSessionId b"
  using assms
proof (induction ms arbitrary: b)
  case (Cons e ms)
  have a: "androidPointerAction 3 = Some 2" by (simp add: androidPointerAction_def)
  obtain b1 where s: "onPointerEvent V S e b = Some ([gesture_call (s_cachedDownTimeNs b) e], b1)"
    "s_cachedDownTimeNs b1 = s_cachedDownTimeNs b" "activeSessionId b1 = activeSessionId b"
    using follow_step [OF Cons.prems(1,2) _ a, of e V S] Cons.prems(3) by auto
  show ?case using Cons.IH [of b1] Cons.prems s by auto
qed simp

lemma run_pointer_append:
  "run_pointer V S (es @ fs) b = do { (c, b) \<leftarrow> run_pointer V S es b; (d, b) \<leftarrow> run_pointer V S fs b; Some (c @ d, b) }"
  by (induction es arbitrary: b) (auto split: bind_splits prod.splits)

text \<open>
  Fact (gesture_coherent): a press, any moves and a release or cancellation reach the view hierarchy
  as one call each, in order, all with the time of the press as their down time although the
  events carry none, and with their own positions and times; only a release on the tab strip
  becomes a tap on a tab instead. Afterwards the cached press time is cleared.
\<close>

theorem gesture_coherent:
  assumes "0 \<le> activeSessionId b" "pe_action d = 2" "pe_item d \<noteq> None"
    and "0 < pe_actionTime d" "usToNs (pe_actionTime d) = Some t"
    and "list_all (follows 3) ms" "follows 4 u \<or> follows 1 u"
  shows "\<exists>call b'. run_pointer V S (d # ms @ [u]) b = Some (map (gesture_call t) (d # ms) @ [call], b')
    \<and> call_press call = Some t \<and> (\<not> (pe_action u = 4 \<and> on_strip u) \<longrightarrow> call = gesture_call t u)
    \<and> s_cachedDownTimeNs b' = 0 \<and> activeSessionId b' = activeSessionId b"
proof -
  obtain i where i: "pe_item d = Some i" using assms(3) by blast
  have t: "t = pe_actionTime d * 1000" "0 < t" using usToNs_Some [OF assms(5)] assms(4) by simp_all
  have "androidPointerAction (pe_action d) = Some 0" "press_time 0 t i (s_cachedDownTimeNs b) = Some (t, t)"
    using assms(2) by (simp_all add: androidPointerAction_def press_time_def)
  then obtain b1 where b1: "onPointerEvent V S d b = Some ([gesture_call t d], b1)" "s_cachedDownTimeNs b1 = t"
    "activeSessionId b1 = activeSessionId b"
    using onPointerEvent_item [OF assms(1) i, of 0 t t t V S] assms(2,5) i t(1) by (auto simp: gesture_call_def)
  then obtain b2 where b2: "run_pointer V S ms b1 = Some (map (gesture_call t) ms, b2)" "s_cachedDownTimeNs b2 = t"
    "activeSessionId b2 = activeSessionId b"
    using moves_step [of b1 ms V S] assms(1,6) t(2) by auto
  have "\<exists>call b'. onPointerEvent V S u b2 = Some ([call], b') \<and> call_press call = Some t
    \<and> s_cachedDownTimeNs b' = 0 \<and> activeSessionId b' = activeSessionId b
    \<and> (\<not> (pe_action u = 4 \<and> on_strip u) \<longrightarrow> call = gesture_call t u)"
    using assms(7)
  proof
    assume f: "follows 4 u"
    then have "pe_action u = 4" by (simp add: follows_def)
    then show ?thesis
      using follow_step [OF _ _ f, of b2 1 V S] b2 assms(1) t(2) by (simp add: androidPointerAction_def)
  next
    assume f: "follows 1 u"
    show ?thesis
      using follow_step [OF _ _ f, of b2 3 V S] b2 assms(1) t(2) by (simp add: androidPointerAction_def) blast
  qed
  then show ?thesis using b1(1) b2(1) by (auto simp: run_pointer_append)
qed

definition demo_item :: "u32 \<Rightarrow> u32 \<Rightarrow> PointerItem" where
  "demo_item x y = \<lparr> pi_xPos = x, pi_yPos = y, pi_x = 0, pi_y = 0, pi_downTime = 0 \<rparr>"

definition demo_pointer :: "int \<Rightarrow> int \<Rightarrow> u32 \<Rightarrow> u32 \<Rightarrow> PointerEvent" where
  "demo_pointer a t x y = \<lparr> pe_action = a, pe_actionTime = t, pe_item = Some (demo_item x y) \<rparr>"

theorem gesture_coherent_witness:
  "\<exists>b'. run_pointer (\<lambda>c. 0) (\<lambda>fd m. Inl 11)
       [demo_pointer 2 10 0x43000000 0x43800000, demo_pointer 3 20 0x43000000 0x43700000, demo_pointer 4 30 0x43000000 0x43600000]
       (subscribeMmi True 3 new_OHInputBridge)
     = Some ([DispatchSingleTouch 0 0x43000000 0x43800000 10000 10000, DispatchSingleTouch 2 0x43000000 0x43700000 10000 20000,
         DispatchSingleTouch 1 0x43000000 0x43600000 10000 30000], b')
     \<and> s_cachedDownTimeNs b' = 0"
proof -
  let ?d = "demo_pointer 2 10 0x43000000 0x43800000" and ?m = "demo_pointer 3 20 0x43000000 0x43700000"
    and ?u = "demo_pointer 4 30 0x43000000 0x43600000" and ?b = "subscribeMmi True 3 new_OHInputBridge"
  have c: "gesture_call 10000 ?d = DispatchSingleTouch 0 0x43000000 0x43800000 10000 10000"
    "gesture_call 10000 ?m = DispatchSingleTouch 2 0x43000000 0x43700000 10000 20000"
    "gesture_call 10000 ?u = DispatchSingleTouch 1 0x43000000 0x43600000 10000 30000"
    "\<not> on_strip ?u"
    by (simp_all add: gesture_call_def demo_pointer_def demo_item_def androidPointerAction_def item_point_def is_zero_def
        on_strip_def in_band_def)
  have f: "follows 3 ?m" "follows 4 ?u"
    by (simp_all add: follows_def demo_pointer_def demo_item_def usToNs_def item_point_def is_zero_def in_band_def)
  show ?thesis
    using gesture_coherent [of ?b ?d 10000 "[?m]" ?u "\<lambda>c. 0" "\<lambda>fd m. Inl 11"] f c
    by (auto simp: subscribeMmi_def new_OHInputBridge_def demo_pointer_def [of 2] usToNs_def)
qed

section \<open>Commands of the tap channel\<close>

fun decimal :: "nat \<Rightarrow> bytes" where
  "decimal n = (if n < 10 then [word_of_nat (48 + n)] else decimal (n div 10) @ [word_of_nat (48 + n mod 10)])"

declare decimal.simps [simp del]

text \<open>A command line: the numbers separated by blanks, and a line feed.\<close>

definition number_line :: "nat list \<Rightarrow> bytes" where
  "number_line ns = (case ns of [] \<Rightarrow> [] | n # ns \<Rightarrow> decimal n @ concat (map (\<lambda>n. 32 # decimal n) ns)) @ [10]"

lemma digit_byte:
  assumes "k < 10"
  shows "digit_char (word_of_nat (48 + k))" "uint (word_of_nat (48 + k) :: byte) = 48 + int k"
proof -
  have u: "unat (word_of_nat (48 + k) :: byte) = 48 + k" using assms by (simp only: unat_of_nat) simp
  then show "uint (word_of_nat (48 + k) :: byte) = 48 + int k"
    by (metis of_nat_add of_nat_numeral uint_nat)
  show "digit_char (word_of_nat (48 + k))"
    using u assms by (simp add: digit_char_def word_le_nat_alt)
qed

lemma decimal_digits: "list_all digit_char (decimal n)" "decimal n \<noteq> []"
proof (induction n rule: decimal.induct)
  case (1 n)
  { case 1 show ?case using "1.IH" digit_byte(1) [of n] digit_byte(1) [of "n mod 10"] by (simp add: decimal.simps [of n]) }
  { case 2 show ?case by (simp add: decimal.simps [of n]) }
qed

lemma digits_number_snoc: "digits_number (ds @ [d]) = 10 * digits_number ds + (uint d - 48)"
  by (simp add: digits_number_def)

lemma digits_number_decimal: "digits_number (decimal n) = int n"
proof (induction n rule: decimal.induct)
  case (1 n)
  show ?case
  proof (cases "n < 10")
    case True
    then show ?thesis using digit_byte(2) [of n] by (simp add: decimal.simps [of n] digits_number_def)
  next
    case False
    have "int n = 10 * int (n div 10) + int (n mod 10)" by (metis mult_div_mod_eq of_nat_add of_nat_mult of_nat_numeral)
    then show ?thesis using "1.IH" False digit_byte(2) [of "n mod 10"]
      by (simp add: decimal.simps [of n] digits_number_snoc)
  qed
qed

lemma decimal_length: "n < 10 ^ k \<Longrightarrow> 0 < k \<Longrightarrow> length (decimal n) \<le> k"
proof (induction k arbitrary: n)
  case (Suc k)
  show ?case
  proof (cases "n < 10")
    case True
    then show ?thesis by (simp add: decimal.simps [of n])
  next
    case False
    then have "0 < k" using Suc.prems(1) by (cases k) simp_all
    moreover have "n div 10 < 10 ^ k" using Suc.prems(1) by (simp add: less_mult_imp_div_less mult.commute)
    ultimately show ?thesis using Suc.IH [of "n div 10"] False by (simp add: decimal.simps [of n])
  qed
qed simp

lemma digit_chars: "digit_char c \<Longrightarrow> \<not> space_char c \<and> c \<noteq> 45 \<and> c \<noteq> 43 \<and> c \<noteq> 0 \<and> c < 58"
  by (auto simp: digit_char_def space_char_def word_le_nat_alt word_less_nat_alt)

lemma scan_int_decimal:
  assumes "n < 2 ^ 31" "rest = [] \<or> \<not> digit_char (hd rest)" "list_all space_char w"
  shows "scan_int (w @ decimal n @ rest) = Some (Some (int n, rest))"
proof -
  obtain c cs where d: "decimal n = c # cs" using decimal_digits(2) [of n] by (cases "decimal n") auto
  have g: "digit_char c" "\<forall>x \<in> set (decimal n). digit_char x" using decimal_digits(1) [of n] d by (auto simp: list_all_iff)
  have s: "dropWhile space_char (w @ decimal n @ rest) = decimal n @ rest"
    using assms(3) digit_chars [OF g(1)] d by (simp add: list_all_iff)
  have t: "takeWhile digit_char (decimal n @ rest) = decimal n" "dropWhile digit_char (decimal n @ rest) = rest"
    using g(2) assms(2) by (cases rest; simp)+
  have "int32 (int n)" using assms(1) by (simp add: int32_def)
  then show ?thesis
    using s t digit_chars [OF g(1)] d digits_number_decimal [of n] by (simp add: scan_int_def Let_def)
qed

lemma scan_end: "scan_int [10] = Some None"
  by (simp add: scan_int_def space_char_def digit_char_def)

lemma separators: "\<not> digit_char 32" "\<not> digit_char 10" "space_char 32"
  by (simp_all add: digit_char_def space_char_def)

lemma scan_ints_tail:
  assumes "list_all (\<lambda>n. n < 2 ^ 31) ns" "length ns \<le> k"
  shows "scan_ints k (concat (map (\<lambda>n. 32 # decimal n) ns) @ [10]) = Some (map int ns)"
  using assms
proof (induction ns arbitrary: k)
  case Nil
  then show ?case by (cases k) (simp_all add: scan_end)
next
  case (Cons n ns)
  then obtain j where j: "k = Suc j" by (cases k) auto
  let ?r = "concat (map (\<lambda>n. 32 # decimal n) ns) @ [10]"
  have "?r = [] \<or> \<not> digit_char (hd ?r)" by (cases ns) (simp_all add: separators)
  then have "scan_int ([32] @ decimal n @ ?r) = Some (Some (int n, ?r))"
    using Cons.prems separators by (intro scan_int_decimal) simp_all
  then show ?case using Cons j by simp
qed

lemma scan_ints_line:
  assumes "list_all (\<lambda>n. n < 2 ^ 31) ns" "length ns \<le> k" "0 < length ns"
  shows "scan_ints k (number_line ns) = Some (map int ns)"
proof -
  obtain n ms j where n: "ns = n # ms" "k = Suc j" using assms by (cases ns; cases k) auto
  let ?r = "concat (map (\<lambda>n. 32 # decimal n) ms) @ [10]"
  have "?r = [] \<or> \<not> digit_char (hd ?r)" by (cases ms) (simp_all add: separators)
  then have "scan_int ([] @ decimal n @ ?r) = Some (Some (int n, ?r))"
    using assms n by (intro scan_int_decimal) simp_all
  then show ?thesis using scan_ints_tail [of ms j] assms n by (simp add: number_line_def)
qed

lemma number_line_bytes:
  assumes "ns \<noteq> []"
  shows "number_line ns \<noteq> []" "digit_char (hd (number_line ns))" "\<forall>c \<in> set (number_line ns). c \<noteq> 0"
proof -
  have d: "\<forall>c \<in> set (decimal n). digit_char c" for n using decimal_digits(1) [of n] by (simp add: list_all_iff)
  then have h: "digit_char (hd (decimal n))" for n using decimal_digits(2) hd_in_set by blast
  have z: "\<forall>c \<in> set (decimal n). c \<noteq> 0" for n using d digit_chars by blast
  show "number_line ns \<noteq> []" by (simp add: number_line_def)
  show "digit_char (hd (number_line ns))"
    using assms h decimal_digits(2) by (cases ns) (simp_all add: number_line_def)
  show "\<forall>c \<in> set (number_line ns). c \<noteq> 0"
    using z by (cases ns) (auto simp: number_line_def)
qed

lemma number_line_short:
  assumes "list_all (\<lambda>n. n < 2 ^ 31) ns" "length ns \<le> 4"
  shows "length (number_line ns) \<le> 63"
proof -
  have d: "length (decimal n) \<le> 10" if "n < 2 ^ 31" for n by (rule decimal_length) (use that in simp_all)
  have "length (concat (map (\<lambda>n. 32 # decimal n) ms)) \<le> 11 * length ms" if "list_all (\<lambda>n. n < 2 ^ 31) ms" for ms
    using that by (induction ms) (use d in fastforce)+
  then show ?thesis using assms d by (cases ns) (fastforce simp: number_line_def)+
qed

text \<open>
  Fact (tap_commands): a line of one to four numbers below 2^31 in the control file is read back
  exactly: the tap channel issues the call that the count of numbers selects (tab, tap, drag) with
  these numbers.
\<close>

theorem tap_commands:
  assumes "list_all (\<lambda>n. n < 2 ^ 31) ns" "0 < length ns" "length ns \<le> 4"
  shows "tapControl (number_line ns) = Some (Calls (tap_numbers (map int ns)))"
proof -
  let ?s = "number_line ns"
  have n: "ns \<noteq> []" using assms(2) by simp
  have b: "buf_string 63 ?s = ?s"
    using number_line_short [OF assms(1,3)] number_line_bytes(3) [OF n] by (simp add: buf_string_def takeWhile_eq_all_conv)
  have "hd ?s < 58" using digit_chars number_line_bytes(2) [OF n] by blast
  then have "hd ?s \<notin> set (bytes_of ''wWxXpPqQvV'')" "hd ?s \<notin> set (bytes_of ''rR'')" "hd ?s \<notin> set (bytes_of ''bB'')"
    by (auto simp: bytes_of_def)
  then show ?thesis
    using b number_line_bytes(1) [OF n] scan_ints_line [OF assms(1,3,2)] by (simp add: tapControl_def Let_def)
qed

theorem tap_commands_witness:
  "tapControl (number_line [84, 337]) = Some (Calls [DispatchTouch 1 (FromInt 84) (FromInt 337) 0 0])"
  using tap_commands [of "[84, 337]"] by (simp add: tap_numbers_def)

text \<open>Text that starts with the word \<open>DEL\<close> is not typed.\<close>

lemma del_prefix: "textControl V (bytes_of ''DELIVERY'') = Some (tapKey 67 0)"
  by (simp add: textControl_def bytes_of_def strip_newlines_def scan_int_def space_char_def digit_char_def)

end
