(* ===== verification/InputReceiver.thy ===== *)
theory InputReceiver
  imports InputBridge
begin

text \<open>
  The receiving end of an input channel: \<open>android-runtime/src/android_view_InputEventReceiver.cpp\<close>. A worker
  polls the socket, decodes each message and posts an Android event to the main thread. The model takes
  the results of the system calls and of the virtual machine of every round as a list and returns the
  posted events. The structures have the same layout as those of \<open>InputBridge\<close>.
\<close>

definition MAX_INPUT_MESSAGE_SIZE :: nat where
  "MAX_INPUT_MESSAGE_SIZE = sizeof_msg_header + sizeof_motion"

text \<open>Division of the C++ language rounds towards zero.\<close>

definition cdiv :: "int \<Rightarrow> int \<Rightarrow> int" where
  "cdiv a d = (if a < 0 then - ((- a) div d) else a div d)"

datatype android_event =
    MotionEvent int int int u32 u32 int int
      \<comment> \<open>down time and event time in ms, action, x, y, meta state, source\<close>
  | AndroidKeyEvent int int int int int int int int int int
      \<comment> \<open>down time, event time, action, code, repeat, meta state, device, scan code, flags, source\<close>

text \<open>What the virtual machine does during one dispatch.\<close>

record dispatch_env =
  d_hasVm :: bool
  d_getEnv :: bool
  d_attach :: bool
  d_refsValid :: bool
  d_getThrows :: bool
  d_receiverAlive :: bool
  d_createThrows :: bool
  d_created :: bool

definition can_dispatch :: "dispatch_env \<Rightarrow> bool" where
  "can_dispatch v \<longleftrightarrow> d_hasVm v \<and> (d_getEnv v \<or> d_attach v) \<and> d_refsValid v \<and> \<not> d_getThrows v \<and> d_receiverAlive v
     \<and> \<not> d_createThrows v \<and> d_created v"

text \<open>A field of the structure that starts at the head of a byte string.\<close>

definition i32_at :: "bytes \<Rightarrow> nat \<Rightarrow> int option" where
  "i32_at b i = map_option sint (rd32 b i)"

definition i64_at :: "bytes \<Rightarrow> nat \<Rightarrow> int option" where
  "i64_at b i = map_option sint (rd64 b i)"

definition dispatchMotionFromWorker ::
  "dispatch_env \<Rightarrow> u32 \<Rightarrow> bytes \<Rightarrow> (u32 \<times> android_event) list option" where
  "dispatchMotionFromWorker v hseq body = (if \<not> can_dispatch v then Some []
     else do {
       pointerCount \<leftarrow> rd32 body 4;
       x \<leftarrow> (if pointerCount > 0 then rd32 body 176 else Some 0);
       y \<leftarrow> (if pointerCount > 0 then rd32 body 180 else Some 0);
       down \<leftarrow> i64_at body 88;
       event \<leftarrow> i64_at body 8;
       action \<leftarrow> i32_at body 60;
       meta \<leftarrow> i32_at body 72;
       Some [(hseq, MotionEvent (cdiv down 1000000) (cdiv event 1000000) action x y meta 0x1002)] })"

definition dispatchKeyFromWorker ::
  "dispatch_env \<Rightarrow> u32 \<Rightarrow> bytes \<Rightarrow> (u32 \<times> android_event) list option" where
  "dispatchKeyFromWorker v hseq body = (if \<not> can_dispatch v then Some []
     else do {
       down \<leftarrow> i64_at body 88;
       event \<leftarrow> i64_at body 8;
       src \<leftarrow> i32_at body 20;
       let source = (if src \<noteq> 0 then src else 0x101);
       action \<leftarrow> i32_at body 60;
       keyCode \<leftarrow> i32_at body 68;
       repeat \<leftarrow> i32_at body 80;
       meta \<leftarrow> i32_at body 76;
       device \<leftarrow> i32_at body 16;
       scan \<leftarrow> i32_at body 72;
       fl \<leftarrow> i32_at body 64;
       Some [(hseq, AndroidKeyEvent (cdiv down 1000000) (cdiv event 1000000) action keyCode repeat meta device scan fl source)] })"

text \<open>
  The message in the receive buffer \<open>buf\<close>, of which the first \<open>got\<close> bytes are new. A body is copied into a
  zeroed structure.
\<close>

definition motion_struct :: "bytes \<Rightarrow> nat \<Rightarrow> bytes option" where
  "motion_struct buf got = do {
     let fixedPrefix = sizeof_motion - sizeof_pointer * MAX_POINTERS;
     prefix \<leftarrow> slice buf sizeof_msg_header fixedPrefix;
     let bytesPayload = got - sizeof_msg_header;
     let pointersBytes = (if bytesPayload > fixedPrefix then bytesPayload - fixedPrefix else 0);
     pointerCount \<leftarrow> rd32 prefix 4;
     let copyPointers = min (min (pointersBytes div sizeof_pointer) MAX_POINTERS) (unat pointerCount);
     ps \<leftarrow> slice buf (sizeof_msg_header + fixedPrefix) (copyPointers * sizeof_pointer);
     Some (prefix @ ps @ replicate (sizeof_motion - fixedPrefix - length ps) 0) }"

definition handle_message :: "dispatch_env \<Rightarrow> bytes \<Rightarrow> nat \<Rightarrow> (u32 \<times> android_event) list option" where
  "handle_message v buf got = (if got < sizeof_msg_header then Some []
     else do {
       mtype \<leftarrow> rd32 buf 0;
       mseq \<leftarrow> rd32 buf 4;
       if mtype = INPUT_MSG_TYPE_MOTION then
         (if got < sizeof_msg_header + sizeof_motion - sizeof_pointer * MAX_POINTERS + sizeof_pointer then Some []
          else do { body \<leftarrow> motion_struct buf got; dispatchMotionFromWorker v mseq body })
       else if mtype = INPUT_MSG_TYPE_KEY then
         (if got < sizeof_msg_header + sizeof_key then Some []
          else do { body \<leftarrow> slice buf sizeof_msg_header sizeof_key; dispatchKeyFromWorker v mseq body })
       else Some [] })"

text \<open>
  One round of the worker: whether the stop flag is set, the outcome of \<open>poll\<close> (an error, a timeout, the
  descriptor closed, nothing to read, data), and that of \<open>recv\<close> (an error, or a message, which is cut to
  the buffer).
\<close>

datatype poll_result = PollInterrupted | PollError | PollTimeout | PollClosed | PollNothing | PollData
datatype recv_result = RecvRetry | RecvError | Received bytes

record turn =
  t_stop :: bool
  t_poll :: poll_result
  t_recv :: recv_result
  t_env :: dispatch_env

definition recv_into :: "bytes \<Rightarrow> bytes \<Rightarrow> bytes \<times> nat" where
  "recv_into msg buf = (let m = take (length buf) msg in (m @ drop (length m) buf, length m))"

fun workerLoop :: "turn list \<Rightarrow> bytes \<Rightarrow> (u32 \<times> android_event) list option" where
  "workerLoop [] buf = Some []"
| "workerLoop (t # ts) buf = (if t_stop t then Some []
     else case t_poll t of
       PollInterrupted \<Rightarrow> workerLoop ts buf
     | PollError \<Rightarrow> Some []
     | PollTimeout \<Rightarrow> workerLoop ts buf
     | PollClosed \<Rightarrow> Some []
     | PollNothing \<Rightarrow> workerLoop ts buf
     | PollData \<Rightarrow> (case t_recv t of
           RecvRetry \<Rightarrow> workerLoop ts buf
         | RecvError \<Rightarrow> Some []
         | Received msg \<Rightarrow> (let (buf, got) = recv_into msg buf
             in if got = 0 then Some []
                else do { es \<leftarrow> handle_message (t_env t) buf got; rest \<leftarrow> workerLoop ts buf; Some (es @ rest) })))"

text \<open>The acknowledgement that the application side writes back.\<close>

definition finished_message :: "u32 \<Rightarrow> bool \<Rightarrow> u64 \<Rightarrow> bytes" where
  "finished_message mseq handled time = put32 INPUT_MSG_TYPE_FINISHED @ put32 mseq
     @ [if handled then 1 else 0] @ replicate 7 0 @ put64 time"

section \<open>Layout of the messages\<close>

lemma length_floats [simp, width_simps]: "length (floats xs) = 4 * length xs"
  unfolding floats_def by (induction xs) simp_all

lemma floats_Cons [simp]: "floats (x # xs) = put32 x @ floats xs"
  by (simp add: floats_def)

lemma length_header [simp, width_simps]: "length (header_bytes h) = 8"
  by (simp add: header_bytes_def)

lemma length_finger [simp, width_simps]: "length (pointer_bytes (finger x y)) = 144"
  by (simp add: pointer_bytes_def finger_def MAX_POINTER_COORDS_AXES_def)

lemma length_motion_prefix [simp, width_simps]: "length (motion_prefix (motion_body q a x y d e)) = 160"
  by (simp add: motion_prefix_def motion_body_def)

lemma length_key_bytes [simp, width_simps]: "length (key_bytes (key_body q a k d e)) = 96"
  by (simp add: key_bytes_def key_body_def)

definition motion_message :: "u32 \<Rightarrow> int \<Rightarrow> u32 \<Rightarrow> u32 \<Rightarrow> int \<Rightarrow> int \<Rightarrow> bytes" where
  "motion_message q a x y d e = header_bytes \<lparr> h_type = INPUT_MSG_TYPE_MOTION, h_seq = q \<rparr>
     @ motion_prefix (motion_body q a x y d e) @ pointer_bytes (finger x y)"

definition key_message :: "u32 \<Rightarrow> int \<Rightarrow> int \<Rightarrow> int \<Rightarrow> int \<Rightarrow> bytes" where
  "key_message q a k d e = header_bytes \<lparr> h_type = INPUT_MSG_TYPE_KEY, h_seq = q \<rparr> @ key_bytes (key_body q a k d e)"

lemma length_messages [simp, width_simps]:
  "length (motion_message q a x y d e) = 312" "length (key_message q a k d e) = 104"
  by (simp_all add: motion_message_def key_message_def)

lemma writeMotionEvent_sends:
  "writeMotionEvent S fd q a x y d e b = send_message S fd (motion_message q a x y d e) b"
proof -
  have p: "m_pointers (motion_body q a x y d e) = finger x y # replicate (MAX_POINTERS - 1) no_pointer"
    by (simp add: motion_body_def)
  show ?thesis
    by (simp add: writeMotionEvent_def motion_message_def motion_bytes_def p sizeof_msg_header_def
        motionBodyWireSize_def sizeof_motion_def sizeof_pointer_def)
qed

lemma writeKeyEvent_sends:
  "writeKeyEvent S fd q a k d e b = send_message S fd (key_message q a k d e) b"
  by (simp add: writeKeyEvent_def key_message_def sizeof_msg_header_def sizeof_key_def)

lemma motion_fields:
  fixes q x y :: u32 and ys :: bytes and a d e :: int
  defines "b \<equiv> motion_prefix (motion_body q a x y d e) @ pointer_bytes (finger x y) @ ys"
  shows "rd32 b 4 = Some 1" "rd64 b 8 = Some (word_of_int e)" "rd32 b 60 = Some (word_of_int a)"
    "rd32 b 72 = Some 0" "rd64 b 88 = Some (word_of_int d)" "rd32 b 176 = Some x" "rd32 b 180 = Some y"
  unfolding b_def
  by (simp_all add: motion_prefix_def motion_body_def pointer_bytes_def finger_def rd_simps)

lemma key_fields:
  fixes q :: u32 and a k d e :: int
  defines "b \<equiv> key_bytes (key_body q a k d e)"
  shows "rd64 b 8 = Some (word_of_int e)" "rd32 b 16 = Some 1" "rd32 b 20 = Some AINPUT_SOURCE_KEYBOARD"
    "rd32 b 60 = Some (word_of_int a)" "rd32 b 64 = Some 0" "rd32 b 68 = Some (word_of_int k)" "rd32 b 72 = Some 0"
    "rd32 b 76 = Some 0" "rd32 b 80 = Some 0" "rd64 b 88 = Some (word_of_int d)"
  unfolding b_def
  using rd64_put [of "word_of_int d" "[]"]
  by (simp_all add: key_bytes_def key_body_def rd_simps)

section \<open>Decoding\<close>

definition touch_event :: "int \<Rightarrow> u32 \<Rightarrow> u32 \<Rightarrow> int \<Rightarrow> int \<Rightarrow> android_event" where
  "touch_event a x y d e = MotionEvent (cdiv d 1000000) (cdiv e 1000000) a x y 0 0x1002"

definition key_press :: "int \<Rightarrow> int \<Rightarrow> int \<Rightarrow> int \<Rightarrow> android_event" where
  "key_press a k d e = AndroidKeyEvent (cdiv d 1000000) (cdiv e 1000000) a k 0 0 1 0 0 0x101"

definition int64 :: "int \<Rightarrow> bool" where
  "int64 t \<longleftrightarrow> - (2 ^ 63) \<le> t \<and> t < 2 ^ 63"

lemma sint64: "int64 t \<Longrightarrow> sint (word_of_int t :: u64) = t"
  by (simp add: int64_def signed_of_int signed_take_bit_int_eq_self)

lemma sint32: "int32 t \<Longrightarrow> sint (word_of_int t :: u32) = t"
  by (simp add: int32_def sint_small)

lemma handle_motion:
  assumes "can_dispatch v" "int32 a" "int64 d" "int64 e"
  shows "handle_message v (motion_message q a x y d e @ r) 312 = Some [(q, touch_event a x y d e)]"
proof -
  let ?p = "motion_prefix (motion_body q a x y d e)" and ?f = "pointer_bytes (finger x y)"
  let ?h = "header_bytes \<lparr> h_type = INPUT_MSG_TYPE_MOTION, h_seq = q \<rparr>"
  let ?buf = "motion_message q a x y d e @ r"
  have b: "?buf = ?h @ ?p @ ?f @ r" by (simp add: motion_message_def)
  have s: "slice ?buf 8 160 = Some ?p" "slice ?buf 168 144 = Some ?f"
    unfolding b by (simp_all add: rd_simps)
  have c: "rd32 ?p 4 = Some 1" by (simp add: motion_prefix_def motion_body_def rd_simps)
  define z where "z = (replicate (sizeof_motion - 304) 0 :: bytes)"
  have st: "motion_struct ?buf 312 = Some (?p @ ?f @ z)"
    using s c by (simp add: motion_struct_def Let_def sizeof_msg_header_def sizeof_motion_def sizeof_pointer_def
        MAX_POINTERS_def z_def)
  have t: "rd32 ?buf 0 = Some INPUT_MSG_TYPE_MOTION" "rd32 ?buf 4 = Some q"
    unfolding b by (simp_all add: header_bytes_def rd_simps)
  have "dispatchMotionFromWorker v q (?p @ ?f @ z) = Some [(q, touch_event a x y d e)]"
    using assms motion_fields [of q a x y d e z]
    by (simp add: dispatchMotionFromWorker_def i64_at_def i32_at_def sint64 sint32 touch_event_def)
  then show ?thesis using st t
    by (simp add: handle_message_def sizeof_msg_header_def sizeof_motion_def sizeof_pointer_def MAX_POINTERS_def)
qed

lemma handle_key:
  assumes "can_dispatch v" "int32 a" "int32 k" "int64 d" "int64 e"
  shows "handle_message v (key_message q a k d e @ r) 104 = Some [(q, key_press a k d e)]"
proof -
  let ?p = "key_bytes (key_body q a k d e)"
  let ?h = "header_bytes \<lparr> h_type = INPUT_MSG_TYPE_KEY, h_seq = q \<rparr>"
  let ?buf = "key_message q a k d e @ r"
  have b: "?buf = ?h @ ?p @ r" by (simp add: key_message_def)
  have s: "slice ?buf 8 96 = Some ?p" unfolding b by (simp add: rd_simps)
  have t: "rd32 ?buf 0 = Some INPUT_MSG_TYPE_KEY" "rd32 ?buf 4 = Some q"
    unfolding b by (simp_all add: header_bytes_def rd_simps)
  have "dispatchKeyFromWorker v q ?p = Some [(q, key_press a k d e)]"
    using assms key_fields [of q a k d e]
    by (simp add: dispatchKeyFromWorker_def i64_at_def i32_at_def sint64 sint32 key_press_def
        AINPUT_SOURCE_KEYBOARD_def)
  then show ?thesis using s t
    by (simp add: handle_message_def sizeof_msg_header_def sizeof_key_def INPUT_MSG_TYPE_KEY_def INPUT_MSG_TYPE_MOTION_def)
qed

section \<open>The worker reads only what it received\<close>

lemma rd32_prefix: "i + 4 \<le> length m \<Longrightarrow> rd32 (m @ r) i = rd32 m i"
  by (simp add: rd32_def nth_append)

lemma slice_within: "i + n \<le> length m \<Longrightarrow> slice (m @ r) i n = slice m i n"
  by (simp add: slice_def)

text \<open>The number of pointers that are copied out of a message of \<open>n\<close> bytes.\<close>

definition copied :: "nat \<Rightarrow> u32 \<Rightarrow> nat" where
  "copied n w = min (min ((n - 168) div 144) 16) (unat w)"

lemma copied_fits:
  assumes "168 \<le> n" shows "168 + copied n w * 144 \<le> n"
proof -
  have "copied n w * 144 \<le> (n - 168) div 144 * 144" by (intro mult_right_mono) (simp_all add: copied_def)
  also have "\<dots> \<le> n - 168" by (rule div_times_less_eq_dividend)
  finally show ?thesis using assms by linarith
qed

lemma motion_struct_eq:
  assumes "168 < n"
  shows "motion_struct buf n = do { p \<leftarrow> slice buf 8 160; w \<leftarrow> rd32 p 4; s \<leftarrow> slice buf 168 (copied n w * 144);
     Some (p @ s @ replicate (2304 - length s) 0) }"
proof -
  have "(if n - 8 > 160 then n - 8 - 160 else 0) = n - 168" using assms by simp
  then show ?thesis
    by (simp only: motion_struct_def Let_def sizeof_msg_header_def sizeof_motion_def sizeof_pointer_def MAX_POINTERS_def
        copied_def) simp
qed

lemma motion_struct_local:
  assumes "312 \<le> length m"
  shows "motion_struct (m @ r) (length m) = motion_struct m (length m)"
    and "\<exists>b. motion_struct m (length m) = Some b \<and> 184 \<le> length b"
proof -
  have n: "168 < length m" "168 \<le> length m" using assms by simp_all
  note c = copied_fits [OF n(2)]
  have p: "slice (m @ r) 8 160 = slice m 8 160" by (rule slice_within) (use n in simp)
  have q: "slice (m @ r) 168 (copied (length m) w * 144) = slice m 168 (copied (length m) w * 144)" for w
    by (rule slice_within [OF c])
  show "motion_struct (m @ r) (length m) = motion_struct m (length m)"
    by (simp only: motion_struct_eq [OF n(1)] p q)
  obtain p where p': "slice m 8 160 = Some p" "length p = 160" using n by (simp add: slice_def)
  obtain w where w: "rd32 p 4 = Some w" using p'(2) rd_total(3) [of 4 p] by auto
  obtain s where s: "slice m 168 (copied (length m) w * 144) = Some s" using c [of w] by (simp add: slice_def)
  have "184 \<le> length (p @ s @ replicate (2304 - length s) 0)" using p'(2) by simp
  then show "\<exists>b. motion_struct m (length m) = Some b \<and> 184 \<le> length b"
    using p'(1) w s by (simp add: motion_struct_eq [OF n(1)])
qed

lemma field_total:
  "i + 4 \<le> length b \<Longrightarrow> i32_at b i \<noteq> None" "i + 8 \<le> length b \<Longrightarrow> i64_at b i \<noteq> None"
  "i + 4 \<le> length b \<Longrightarrow> rd32 b i \<noteq> None"
  using rd_total(3,4) [of i b] by (auto simp: i32_at_def i64_at_def)

lemma bind_total: "x \<noteq> None \<Longrightarrow> (\<And>y. f y \<noteq> None) \<Longrightarrow> Option.bind x f \<noteq> None"
  by (cases x) simp_all

lemma dispatch_motion_total:
  assumes "184 \<le> length b" shows "dispatchMotionFromWorker v q b \<noteq> None"
proof (cases "can_dispatch v")
  case True
  have "rd32 b 176 \<noteq> None" "rd32 b 180 \<noteq> None" using assms field_total(3) [of _ b] by simp_all
  then have "(if w > 0 then rd32 b 176 else Some 0) \<noteq> None" "(if w > 0 then rd32 b 180 else Some 0) \<noteq> None"
    for w :: u32 by simp_all
  then show ?thesis using True assms unfolding dispatchMotionFromWorker_def
    by (simp only: not_True_eq_False if_False) (intro bind_total field_total, simp_all)
qed (simp add: dispatchMotionFromWorker_def)

lemma dispatch_key_total:
  assumes "length b = 96" shows "dispatchKeyFromWorker v q b \<noteq> None"
proof (cases "can_dispatch v")
  case True
  then show ?thesis using assms unfolding dispatchKeyFromWorker_def Let_def
    by (simp only: not_True_eq_False if_False) (intro bind_total field_total, simp_all)
qed (simp add: dispatchKeyFromWorker_def)

lemma handle_local:
  "handle_message v (m @ r) (length m) = handle_message v m (length m)"
  "handle_message v m (length m) \<noteq> None"
proof -
  have "handle_message v (m @ r) (length m) = handle_message v m (length m) \<and> handle_message v m (length m) \<noteq> None"
  proof (cases "length m < 8")
    case True
    then show ?thesis by (simp add: handle_message_def sizeof_msg_header_def)
  next
    case False
    then obtain w where w: "rd32 m 0 = Some w" "rd32 (m @ r) 0 = Some w"
      using rd_total(3) [of 0 m] rd32_prefix [of 0 m r] by auto
    from False obtain s where s: "rd32 m 4 = Some s" "rd32 (m @ r) 4 = Some s"
      using rd_total(3) [of 4 m] rd32_prefix [of 4 m r] by auto
    have motion: "motion_struct (m @ r) (length m) = motion_struct m (length m)
        \<and> (\<exists>b. motion_struct m (length m) = Some b \<and> dispatchMotionFromWorker v s b \<noteq> None)" if "\<not> length m < 312"
      using motion_struct_local(1) [of m r] motion_struct_local(2) [of m] dispatch_motion_total that by (simp add: not_less) blast
    have key: "slice (m @ r) 8 96 = slice m 8 96 \<and> (\<exists>b. slice m 8 96 = Some b \<and> dispatchKeyFromWorker v s b \<noteq> None)"
      if "\<not> length m < 104"
      using that dispatch_key_total by (simp add: slice_within slice_def)
    show ?thesis
      using w s motion key
      by (auto simp: handle_message_def sizeof_msg_header_def sizeof_motion_def sizeof_pointer_def MAX_POINTERS_def sizeof_key_def)
  qed
  then show "handle_message v (m @ r) (length m) = handle_message v m (length m)"
    "handle_message v m (length m) \<noteq> None" by simp_all
qed

text \<open>
  Fact (worker_safe): whatever the socket delivers, and whatever an earlier message left in the
  receive buffer, the worker never reads outside the buffer, and the events it posts do not depend
  on the old content.
\<close>

theorem worker_safe:
  assumes "length buf = length buf'"
  shows "workerLoop ts buf \<noteq> None \<and> workerLoop ts buf = workerLoop ts buf'"
  using assms
proof (induction ts arbitrary: buf buf')
  case Nil
  show ?case by simp
next
  case (Cons t ts)
  have len: "length buf = length buf'" by (rule Cons.prems)
  have ih: "workerLoop ts buf \<noteq> None \<and> workerLoop ts buf = workerLoop ts buf'" by (rule Cons.IH [OF len])
  have received: "workerLoop (t # ts) buf \<noteq> None \<and> workerLoop (t # ts) buf = workerLoop (t # ts) buf'"
    if "\<not> t_stop t" "t_poll t = PollData" "t_recv t = Received msg" for msg
  proof -
    define m where "m = take (length buf) msg"
    have m: "take (length buf') msg = m" "length m \<le> length buf" using len by (simp_all add: m_def)
    have "length (m @ drop (length m) buf) = length (m @ drop (length m) buf')" using len by simp
    then have i: "workerLoop ts (m @ drop (length m) buf) \<noteq> None
        \<and> workerLoop ts (m @ drop (length m) buf) = workerLoop ts (m @ drop (length m) buf')" by (rule Cons.IH)
    have r: "recv_into msg buf = (m @ drop (length m) buf, length m)" "recv_into msg buf' = (m @ drop (length m) buf', length m)"
      using m(1) by (simp_all add: recv_into_def m_def Let_def)
    have h: "handle_message (t_env t) (m @ drop (length m) c) (length m) = handle_message (t_env t) m (length m)" for c
      by (rule handle_local)
    obtain es where es: "handle_message (t_env t) m (length m) = Some es" using handle_local(2) by blast
    obtain w where w: "workerLoop ts (m @ drop (length m) buf) = Some w" "workerLoop ts (m @ drop (length m) buf') = Some w"
      using i by (metis option.exhaust)
    show ?thesis using that by (cases "m = []") (simp_all add: r h es w)
  qed
  show ?case
  proof (cases "t_stop t \<or> t_poll t \<noteq> PollData \<or> (\<forall>msg. t_recv t \<noteq> Received msg)")
    case True
    then show ?thesis using ih by (cases "t_recv t"; cases "t_poll t") auto
  next
    case False
    then show ?thesis using received by blast
  qed
qed

section \<open>From the bridge to the application\<close>

datatype injection = Touch int u32 u32 int int | Press int int int int

fun inject :: "socket_send \<Rightarrow> int \<Rightarrow> injection \<Rightarrow> OHInputBridge \<Rightarrow> int \<times> OHInputBridge" where
  "inject S sid (Touch a x y d e) b = injectTouchEvent S sid a x y d e b"
| "inject S sid (Press a k d e) b = injectKeyEvent S sid a k d e b"

fun inject_all :: "socket_send \<Rightarrow> int \<Rightarrow> injection list \<Rightarrow> OHInputBridge \<Rightarrow> int list \<times> OHInputBridge" where
  "inject_all S sid [] b = ([], b)"
| "inject_all S sid (x # xs) b =
     (let (r, b) = inject S sid x b; (rs, b) = inject_all S sid xs b in (r # rs, b))"

fun injection_ok :: "injection \<Rightarrow> bool" where
  "injection_ok (Touch a x y d e) \<longleftrightarrow> int32 a \<and> int64 d \<and> int64 e"
| "injection_ok (Press a k d e) \<longleftrightarrow> int32 a \<and> int32 k \<and> int64 d \<and> int64 e"

fun event_of :: "injection \<Rightarrow> android_event" where
  "event_of (Touch a x y d e) = touch_event a x y d e"
| "event_of (Press a k d e) = key_press a k d e"

fun message_of :: "u32 \<Rightarrow> injection \<Rightarrow> bytes" where
  "message_of q (Touch a x y d e) = motion_message q a x y d e"
| "message_of q (Press a k d e) = key_message q a k d e"

text \<open>The messages and events of a list of injections, numbered from \<open>q + 1\<close> on.\<close>

fun messages :: "u32 \<Rightarrow> injection list \<Rightarrow> bytes list" where
  "messages q [] = []"
| "messages q (x # xs) = message_of (q + 1) x # messages (q + 1) xs"

fun events :: "u32 \<Rightarrow> injection list \<Rightarrow> (u32 \<times> android_event) list" where
  "events q [] = []"
| "events q (x # xs) = (q + 1, event_of x) # events (q + 1) xs"

lemma inject_sends:
  assumes "sessions b sid = Some s" "0 \<le> serverFd s" "\<And>m. S (serverFd s) m = Inr (length m)"
  shows "inject S sid x b = (0, b\<lparr> sessions := (sessions b)(sid \<mapsto> s\<lparr> seq := seq s + 1 \<rparr>),
     sent := sent b @ [(serverFd s, message_of (seq s + 1) x)] \<rparr>)"
  using assms
  by (cases x) (simp_all add: injectTouchEvent_def injectKeyEvent_def writeMotionEvent_sends writeKeyEvent_sends
      send_message_def)

lemma inject_all_sends:
  assumes "sessions b sid = Some s" "0 \<le> serverFd s" "\<And>m. S (serverFd s) m = Inr (length m)"
  shows "\<exists>b'. inject_all S sid xs b = (replicate (length xs) 0, b')
     \<and> sent b' = sent b @ map (Pair (serverFd s)) (messages (seq s) xs)
     \<and> sessions b' sid = Some (s\<lparr> seq := seq s + of_nat (length xs) \<rparr>)"
  using assms
proof (induction xs arbitrary: b s)
  case Nil
  then show ?case by simp
next
  case (Cons x xs)
  let ?s = "s\<lparr> seq := seq s + 1 \<rparr>"
  let ?b = "b\<lparr> sessions := (sessions b)(sid \<mapsto> ?s), sent := sent b @ [(serverFd s, message_of (seq s + 1) x)] \<rparr>"
  have i: "inject S sid x b = (0, ?b)" using inject_sends [of b sid s S x] Cons.prems by simp
  have "\<exists>b'. inject_all S sid xs ?b = (replicate (length xs) 0, b')
     \<and> sent b' = sent ?b @ map (Pair (serverFd ?s)) (messages (seq ?s) xs)
     \<and> sessions b' sid = Some (?s\<lparr> seq := seq ?s + of_nat (length xs) \<rparr>)"
    by (rule Cons.IH) (use Cons.prems in simp_all)
  then show ?case using i by (auto simp: add.assoc)
qed

text \<open>
  A schedule of the worker that loses nothing: no round stops it, and the rounds that deliver data
  deliver these messages in this order.
\<close>

fun deliveries :: "turn list \<Rightarrow> bytes list" where
  "deliveries [] = []"
| "deliveries (t # ts) = (case (t_poll t, t_recv t) of (PollData, Received m) \<Rightarrow> m # deliveries ts | _ \<Rightarrow> deliveries ts)"

definition goes_on :: "turn \<Rightarrow> bool" where
  "goes_on t \<longleftrightarrow> \<not> t_stop t \<and> t_poll t \<noteq> PollError \<and> t_poll t \<noteq> PollClosed
     \<and> (t_poll t = PollData \<longrightarrow> t_recv t \<noteq> RecvError) \<and> can_dispatch (t_env t)"

lemma handle_injection:
  assumes "can_dispatch v" "injection_ok x"
  shows "handle_message v (message_of q x @ r) (length (message_of q x)) = Some [(q, event_of x)]"
  using assms by (cases x) (simp_all add: handle_motion handle_key)

lemma message_bounds: "0 < length (message_of q x)" "length (message_of q x) \<le> 312"
  by (cases x; simp)+

lemma worker_posts:
  assumes "list_all goes_on ts" "deliveries ts = messages q xs" "list_all injection_ok xs" "312 \<le> length buf"
  shows "workerLoop ts buf = Some (events q xs)"
  using assms
proof (induction ts arbitrary: q xs buf)
  case Nil
  then show ?case by (cases xs) simp_all
next
  case (Cons t ts)
  have g: "goes_on t" "list_all goes_on ts" using Cons.prems(1) by simp_all
  show ?case
  proof (cases "\<exists>m. t_poll t = PollData \<and> t_recv t = Received m")
    case True
    then obtain m where m: "t_poll t = PollData" "t_recv t = Received m" by blast
    then obtain x ys where xs: "xs = x # ys" "m = message_of (q + 1) x" "deliveries ts = messages (q + 1) ys"
      using Cons.prems(2) by (cases xs) auto
    have l: "length m \<le> length buf" "m \<noteq> []" using message_bounds [of "q + 1" x] xs(2) Cons.prems(4) by auto
    have "workerLoop ts (m @ drop (length m) buf) = Some (events (q + 1) ys)"
      using Cons.IH [OF g(2) xs(3)] Cons.prems(3,4) xs(1) l by simp
    moreover have "handle_message (t_env t) (m @ drop (length m) buf) (length m) = Some [(q + 1, event_of x)]"
      unfolding xs(2) by (rule handle_injection) (use g(1) Cons.prems(3) xs(1) in \<open>simp_all add: goes_on_def\<close>)
    ultimately show ?thesis using g(1) m l xs(1) by (simp add: goes_on_def recv_into_def Let_def)
  next
    case False
    then have d: "deliveries (t # ts) = deliveries ts" by (cases "t_poll t"; cases "t_recv t") auto
    have "workerLoop ts buf = Some (events q xs)"
      using Cons.IH [OF g(2), of q xs buf] Cons.prems d by simp
    then show ?thesis using g(1) False by (cases "t_poll t"; cases "t_recv t") (auto simp: goes_on_def)
  qed
qed


section \<open>Witnesses of the transport\<close>

definition demo_env :: dispatch_env where
  "demo_env = \<lparr> d_hasVm = True, d_getEnv = False, d_attach = True, d_refsValid = True, d_getThrows = False,
     d_receiverAlive = True, d_createThrows = False, d_created = True \<rparr>"

definition demo_turns :: "turn list" where
  "demo_turns =
     [\<lparr> t_stop = False, t_poll = PollTimeout, t_recv = RecvRetry, t_env = demo_env \<rparr>,
      \<lparr> t_stop = False, t_poll = PollData, t_recv = Received (motion_message 1 0 7 8 5000000 5000000), t_env = demo_env \<rparr>,
      \<lparr> t_stop = False, t_poll = PollData, t_recv = Received (key_message 2 1 4 5000000 6000000), t_env = demo_env \<rparr>]"

definition demo_bridge :: OHInputBridge where
  "demo_bridge = registerInputChannel 3 9 new_OHInputBridge"

theorem worker_safe_witness:
  "length (replicate 2472 1 :: bytes) = length (replicate 2472 2 :: bytes)
   \<and> workerLoop demo_turns (replicate 2472 1) = workerLoop demo_turns (replicate 2472 2)"
  using worker_safe [of "replicate 2472 1" "replicate 2472 2" demo_turns] by simp


end
