(* ===== verification/InputChannels.thy ===== *)
theory InputChannels
  imports InputReceiver
begin

text \<open>
  The descriptors behind input: \<open>android-runtime/src/android_view_InputChannel.cpp\<close> (socket pairs as Java
  input channels), \<open>window/jni/input_event_bridge.cpp\<close> (registration of the server end with the input
  bridge) and creation and disposal of the receivers of \<open>android_view_InputEventReceiver.cpp\<close>. The process
  has a table of open descriptors; an entry tells which end of which socket pair it is. The answers of
  \<open>socketpair\<close>, \<open>dup\<close> and the allocators are parameters. The outer \<open>None\<close> is the use of a freed object.
\<close>

section \<open>State\<close>

type_synonym jptr = u64

datatype side = Server | Client

record OhInputChannel =
  ch_id :: int
  ch_name :: bytes
  ch_fd :: int

record OhInputEventReceiver =
  ier_id :: int
  ier_jvm :: bool
  ier_weakRef :: bool
  ier_clientFd :: int
  ier_worker :: bool

record channel_world =
  open_fds :: "int \<Rightarrow> (nat \<times> side) option"
  next_socket :: nat
  g_channelId :: int
  channels :: "jptr \<Rightarrow> OhInputChannel option"
  g_receiverId :: int
  event_receivers :: "jptr \<Rightarrow> OhInputEventReceiver option"
  input_bridge :: OHInputBridge
  copies :: "int list" \<comment> \<open>descriptors duplicated for the input bridge, latest first\<close>

definition channel_init :: channel_world where
  "channel_init = \<lparr> open_fds = Map.empty, next_socket = 0, g_channelId = 1, channels = Map.empty, g_receiverId = 1,
     event_receivers = Map.empty, input_bridge = new_OHInputBridge, copies = [] \<rparr>"

definition close_descriptor :: "int \<Rightarrow> channel_world \<Rightarrow> channel_world" where
  "close_descriptor fd w = w\<lparr> open_fds := (open_fds w)(fd := None) \<rparr>"

section \<open>Channels\<close>

definition alloc_channel :: "bytes \<Rightarrow> int \<Rightarrow> jptr \<Rightarrow> channel_world \<Rightarrow> channel_world" where
  "alloc_channel name fd mem w = w\<lparr> channels := (channels w)(mem \<mapsto> \<lparr> ch_id = g_channelId w, ch_name = name, ch_fd = fd \<rparr>),
     g_channelId := g_channelId w + 1 \<rparr>"

definition as_channel :: "channel_world \<Rightarrow> jptr \<Rightarrow> OhInputChannel option option" where
  "as_channel w p = (if p = 0 then Some None else do { c \<leftarrow> channels w p; Some (Some c) })"

text \<open>
  \<open>name\<close> is the UTF-8 form of the Java string, if there is one; \<open>pair\<close> is the answer of \<open>socketpair\<close>, and
  \<open>arrayOk\<close> whether the result array can be allocated.
\<close>

definition IC_nativeOpenInputChannelPair ::
  "bytes option \<Rightarrow> (int \<times> int) option \<Rightarrow> bool \<Rightarrow> jptr \<Rightarrow> jptr \<Rightarrow> channel_world \<Rightarrow> (jptr \<times> jptr) option \<times> channel_world" where
  "IC_nativeOpenInputChannelPair name pair arrayOk m0 m1 w =
     (let baseName = (case name of None \<Rightarrow> [] | Some s \<Rightarrow> s);
          baseName = (if baseName = [] then bytes_of ''anonymous'' else baseName)
      in case pair of None \<Rightarrow> (None, w)
      | Some (f0, f1) \<Rightarrow>
          (let w = w\<lparr> open_fds := (open_fds w)(f0 \<mapsto> (next_socket w, Server), f1 \<mapsto> (next_socket w, Client)),
                 next_socket := next_socket w + 1 \<rparr>;
               w = alloc_channel (baseName @ bytes_of '' (server)'') f0 m0 w;
               w = alloc_channel (baseName @ bytes_of '' (client)'') f1 m1 w
           in if \<not> arrayOk
              then (None, (close_descriptor f1 (close_descriptor f0 w))\<lparr> channels := (channels w)(m0 := None, m1 := None) \<rparr>)
              else (Some (m0, m1), w)))"

definition IC_nativeDispose :: "jptr \<Rightarrow> channel_world \<Rightarrow> channel_world option" where
  "IC_nativeDispose p w = do {
     r \<leftarrow> as_channel w p;
     Some (case r of None \<Rightarrow> w
       | Some c \<Rightarrow> (if 0 \<le> ch_fd c then close_descriptor (ch_fd c) w else w)\<lparr> channels := (channels w)(p := None) \<rparr>) }"

definition IC_nativeReadFromParcel :: "jptr \<Rightarrow> channel_world \<Rightarrow> channel_world" where
  "IC_nativeReadFromParcel mem w = alloc_channel (bytes_of ''from-parcel'') (- 1) mem w"

text \<open>\<open>newFd\<close> is the answer of \<open>dup\<close>; the copy is another descriptor of the same end.\<close>

definition IC_nativeDup :: "jptr \<Rightarrow> int option \<Rightarrow> jptr \<Rightarrow> channel_world \<Rightarrow> channel_world option" where
  "IC_nativeDup p newFd mem w = do {
     r \<leftarrow> as_channel w p;
     Some (let name = (case r of Some c \<Rightarrow> ch_name c | None \<Rightarrow> bytes_of ''duplicate'')
       in case (r, newFd) of
         (Some c, Some n) \<Rightarrow> if 0 \<le> ch_fd c
           then alloc_channel name n mem (w\<lparr> open_fds := (open_fds w)(n := open_fds w (ch_fd c)) \<rparr>)
           else alloc_channel name (- 1) mem w
       | _ \<Rightarrow> alloc_channel name (- 1) mem w) }"

definition IC_nativeGetName :: "jptr \<Rightarrow> channel_world \<Rightarrow> bytes option" where
  "IC_nativeGetName p w = do {
     r \<leftarrow> as_channel w p;
     Some (case r of Some c \<Rightarrow> ch_name c | None \<Rightarrow> bytes_of ''<invalid>'') }"

definition oh_input_channel_get_fd :: "jptr \<Rightarrow> channel_world \<Rightarrow> int option" where
  "oh_input_channel_get_fd p w = do { r \<leftarrow> as_channel w p; Some (case r of Some c \<Rightarrow> ch_fd c | None \<Rightarrow> - 1) }"

section \<open>Registration with the input bridge\<close>

text \<open>
  \<open>p\<close> is the native pointer of the Java channel, \<open>None\<close> when there is no channel object or no such field;
  \<open>symbol\<close> tells whether \<open>oh_input_channel_get_fd\<close> was found.
\<close>

definition nativeRegisterInputChannel_impl ::
  "int \<Rightarrow> jptr option \<Rightarrow> bool \<Rightarrow> int option \<Rightarrow> channel_world \<Rightarrow> channel_world option" where
  "nativeRegisterInputChannel_impl sessionId p symbol dupFd w = (case p of None \<Rightarrow> Some w
     | Some p \<Rightarrow> if p = 0 then Some w else if \<not> symbol then Some w
       else do {
         fd \<leftarrow> oh_input_channel_get_fd p w;
         if fd < 0 then Some w
         else case dupFd of None \<Rightarrow> Some w
           | Some n \<Rightarrow> Some (w\<lparr> open_fds := (open_fds w)(n := open_fds w fd), copies := n # copies w,
               input_bridge := registerInputChannel sessionId n (input_bridge w) \<rparr>) })"

definition nativeUnregisterInputChannel_impl :: "int \<Rightarrow> channel_world \<Rightarrow> channel_world" where
  "nativeUnregisterInputChannel_impl sessionId w = w\<lparr> input_bridge := unregisterInputChannel sessionId (input_bridge w) \<rparr>"

section \<open>Receivers\<close>

definition validate :: "channel_world \<Rightarrow> jptr \<Rightarrow> OhInputEventReceiver option option" where
  "validate w p = (if p = 0 then Some None else do { r \<leftarrow> event_receivers w p; Some (Some r) })"

text \<open>\<open>mem\<close> is the new object, null when the allocation fails; \<open>p\<close> as for the registration.\<close>

definition IER_nativeInit :: "bool \<Rightarrow> bool \<Rightarrow> jptr option \<Rightarrow> jptr \<Rightarrow> channel_world \<Rightarrow> channel_world option" where
  "IER_nativeInit weak vmOk p mem w = (if mem = 0 then Some w
     else do {
       fd \<leftarrow> (case p of None \<Rightarrow> Some (- 1) | Some p \<Rightarrow> oh_input_channel_get_fd p w);
       Some (w\<lparr> event_receivers := (event_receivers w)(mem \<mapsto> \<lparr> ier_id = g_receiverId w, ier_jvm = vmOk, ier_weakRef = weak,
           ier_clientFd = fd, ier_worker = (0 \<le> fd) \<rparr>), g_receiverId := g_receiverId w + 1 \<rparr>) })"

definition IER_nativeDispose :: "jptr \<Rightarrow> channel_world \<Rightarrow> channel_world option" where
  "IER_nativeDispose p w = do {
     v \<leftarrow> validate w p;
     Some (case v of None \<Rightarrow> w
       | Some r \<Rightarrow> (if 0 \<le> ier_clientFd r then close_descriptor (ier_clientFd r) w else w)
           \<lparr> event_receivers := (event_receivers w)(p := None) \<rparr>) }"

text \<open>The descriptor and the bytes that an acknowledgement is sent with; the result of \<open>send\<close> is only logged.\<close>

definition IER_nativeFinishInputEvent :: "jptr \<Rightarrow> u32 \<Rightarrow> bool \<Rightarrow> u64 \<Rightarrow> channel_world \<Rightarrow> (int \<times> bytes) option option" where
  "IER_nativeFinishInputEvent p mseq handled time w = do {
     v \<leftarrow> validate w p;
     Some (case v of None \<Rightarrow> None
       | Some r \<Rightarrow> if ier_clientFd r < 0 then None else Some (ier_clientFd r, finished_message mseq handled time)) }"

section \<open>Histories\<close>

datatype channel_call =
    OpenPair "bytes option" "(int \<times> int) option" bool jptr jptr
  | DisposeChannel jptr
  | ReadParcel jptr
  | DupChannel jptr "int option" jptr
  | Register int "jptr option" bool "int option"
  | Unregister int
  | InitReceiver bool bool "jptr option" jptr
  | DisposeReceiver jptr

fun channel_do :: "channel_call \<Rightarrow> channel_world \<Rightarrow> channel_world option" where
  "channel_do (OpenPair name pair arrayOk m0 m1) w = Some (snd (IC_nativeOpenInputChannelPair name pair arrayOk m0 m1 w))"
| "channel_do (DisposeChannel p) w = IC_nativeDispose p w"
| "channel_do (ReadParcel mem) w = Some (IC_nativeReadFromParcel mem w)"
| "channel_do (DupChannel p newFd mem) w = IC_nativeDup p newFd mem w"
| "channel_do (Register sid p symbol dupFd) w = nativeRegisterInputChannel_impl sid p symbol dupFd w"
| "channel_do (Unregister sid) w = Some (nativeUnregisterInputChannel_impl sid w)"
| "channel_do (InitReceiver weak vmOk p mem) w = IER_nativeInit weak vmOk p mem w"
| "channel_do (DisposeReceiver p) w = IER_nativeDispose p w"

text \<open>The system hands out closed descriptors, the allocator free addresses.\<close>

definition fresh_fd :: "channel_world \<Rightarrow> int \<Rightarrow> bool" where
  "fresh_fd w fd \<longleftrightarrow> 0 \<le> fd \<and> open_fds w fd = None"

definition fresh_channel :: "channel_world \<Rightarrow> jptr \<Rightarrow> bool" where
  "fresh_channel w p \<longleftrightarrow> p \<noteq> 0 \<and> channels w p = None"

fun channel_possible :: "channel_world \<Rightarrow> channel_call \<Rightarrow> bool" where
  "channel_possible w (OpenPair name pair arrayOk m0 m1) \<longleftrightarrow> fresh_channel w m0 \<and> fresh_channel w m1 \<and> m0 \<noteq> m1
     \<and> (case pair of None \<Rightarrow> True | Some (f0, f1) \<Rightarrow> fresh_fd w f0 \<and> fresh_fd w f1 \<and> f0 \<noteq> f1)"
| "channel_possible w (ReadParcel mem) \<longleftrightarrow> fresh_channel w mem"
| "channel_possible w (DupChannel p newFd mem) \<longleftrightarrow> fresh_channel w mem \<and> (case newFd of None \<Rightarrow> True | Some n \<Rightarrow> fresh_fd w n)"
| "channel_possible w (Register sid p symbol dupFd) \<longleftrightarrow> (case dupFd of None \<Rightarrow> True | Some n \<Rightarrow> fresh_fd w n)"
| "channel_possible w (InitReceiver weak vmOk p mem) \<longleftrightarrow> mem = 0 \<or> event_receivers w mem = None"
| "channel_possible w _ \<longleftrightarrow> True"

fun channel_run :: "channel_call list \<Rightarrow> channel_world \<Rightarrow> channel_world option" where
  "channel_run [] w = Some w"
| "channel_run (x # xs) w = (if channel_possible w x then do { w \<leftarrow> channel_do x w; channel_run xs w } else None)"

section \<open>Descriptor accounting\<close>

definition holds_fd :: "(jptr \<Rightarrow> OhInputChannel option) \<Rightarrow> jptr \<Rightarrow> int \<Rightarrow> bool" where
  "holds_fd C p fd \<longleftrightarrow> (\<exists>c. C p = Some c \<and> ch_fd c = fd \<and> 0 \<le> fd)"

text \<open>
  Every open descriptor is either held by exactly one channel or a copy made for the bridge, and the
  descriptors that are held or copied are open.
\<close>

definition fds_ok :: "(int \<Rightarrow> (nat \<times> side) option) \<Rightarrow> (jptr \<Rightarrow> OhInputChannel option) \<Rightarrow> int list \<Rightarrow> bool" where
  "fds_ok T C K \<longleftrightarrow> C 0 = None \<and> distinct K
     \<and> (\<forall>p fd. holds_fd C p fd \<longrightarrow> T fd \<noteq> None \<and> fd \<notin> set K)
     \<and> (\<forall>p q fd. holds_fd C p fd \<longrightarrow> holds_fd C q fd \<longrightarrow> p = q)
     \<and> (\<forall>fd \<in> set K. 0 \<le> fd \<and> T fd \<noteq> None)
     \<and> (\<forall>fd. T fd \<noteq> None \<longrightarrow> fd \<in> set K \<or> (\<exists>p. holds_fd C p fd))"

abbreviation world_ok :: "channel_world \<Rightarrow> bool" where
  "world_ok w \<equiv> fds_ok (open_fds w) (channels w) (copies w)"

lemma fds_okD:
  assumes "fds_ok T C K"
  shows "C 0 = None" "distinct K" "holds_fd C p fd \<Longrightarrow> T fd \<noteq> None \<and> fd \<notin> set K"
    "holds_fd C p fd \<Longrightarrow> holds_fd C q fd \<Longrightarrow> p = q" "fd \<in> set K \<Longrightarrow> 0 \<le> fd \<and> T fd \<noteq> None"
    "T fd \<noteq> None \<Longrightarrow> fd \<in> set K \<or> (\<exists>p. holds_fd C p fd)"
  using assms unfolding fds_ok_def by blast+

lemma fds_okI:
  assumes "C 0 = None" "distinct K" "\<And>p fd. holds_fd C p fd \<Longrightarrow> T fd \<noteq> None \<and> fd \<notin> set K"
    "\<And>p q fd. holds_fd C p fd \<Longrightarrow> holds_fd C q fd \<Longrightarrow> p = q" "\<And>fd. fd \<in> set K \<Longrightarrow> 0 \<le> fd \<and> T fd \<noteq> None"
    "\<And>fd. T fd \<noteq> None \<Longrightarrow> fd \<in> set K \<or> (\<exists>p. holds_fd C p fd)"
  shows "fds_ok T C K"
  using assms unfolding fds_ok_def by blast

lemma holds_fd_upd:
  "holds_fd (C(q \<mapsto> c)) p fd \<longleftrightarrow> (if p = q then ch_fd c = fd \<and> 0 \<le> fd else holds_fd C p fd)"
  "holds_fd (C(q := None)) p fd \<longleftrightarrow> p \<noteq> q \<and> holds_fd C p fd"
  by (auto simp: holds_fd_def)

lemma fds_ok_alloc:
  assumes "fds_ok T C K" "p \<noteq> 0" "C p = None" "T fd = None" "0 \<le> fd" "ch_fd c = fd"
  shows "fds_ok (T(fd \<mapsto> e)) (C(p \<mapsto> c)) K"
proof -
  have n: "\<not> holds_fd C q fd" "\<not> holds_fd C p f" for q f using fds_okD(3) [OF assms(1), of q fd] assms(3,4) by (auto simp: holds_fd_def)
  have k: "fd \<notin> set K" using fds_okD(5) [OF assms(1), of fd] assms(4) by auto
  have up: "holds_fd (C(p \<mapsto> c)) q f \<longleftrightarrow> (q = p \<and> f = fd) \<or> holds_fd C q f" for q f
    using n(2) assms(5,6) by (auto simp: holds_fd_upd)
  show ?thesis
  proof (rule fds_okI)
    show "f \<in> set K \<or> (\<exists>q. holds_fd (C(p \<mapsto> c)) q f)" if "(T(fd \<mapsto> e)) f \<noteq> None" for f
      using that up fds_okD(6) [OF assms(1), of f] by (cases "f = fd") auto
    show "q = q'" if "holds_fd (C(p \<mapsto> c)) q f" "holds_fd (C(p \<mapsto> c)) q' f" for q q' f
      using that up n fds_okD(4) [OF assms(1), of q f q'] by auto
  qed (use assms(2) k up fds_okD [OF assms(1)] in auto)
qed

lemma fds_ok_alloc_closed:
  assumes "fds_ok T C K" "p \<noteq> 0" "C p = None" "ch_fd c < 0"
  shows "fds_ok T (C(p \<mapsto> c)) K"
proof -
  have "holds_fd (C(p \<mapsto> c)) q f \<longleftrightarrow> holds_fd C q f" for q f using assms(3,4) by (auto simp: holds_fd_def)
  then show ?thesis using assms(1,2) unfolding fds_ok_def by simp
qed

lemma fds_ok_dispose:
  assumes "fds_ok T C K" "C p = Some c"
  shows "fds_ok (if 0 \<le> ch_fd c then T(ch_fd c := None) else T) (C(p := None)) K"
proof (cases "0 \<le> ch_fd c")
  case True
  then have h: "holds_fd C p (ch_fd c)" using assms(2) by (simp add: holds_fd_def)
  have o: "holds_fd C q f \<Longrightarrow> q \<noteq> p \<Longrightarrow> f \<noteq> ch_fd c" for q f using fds_okD(4) [OF assms(1) h] by blast
  have k: "ch_fd c \<notin> set K" using fds_okD(3) [OF assms(1) h] by blast
  have u: "holds_fd C p f \<Longrightarrow> f = ch_fd c" for f using assms(2) by (simp add: holds_fd_def)
  have "fds_ok (T(ch_fd c := None)) (C(p := None)) K"
  proof (rule fds_okI)
    show "f \<in> set K \<or> (\<exists>q. holds_fd (C(p := None)) q f)" if "(T(ch_fd c := None)) f \<noteq> None" for f
    proof -
      have f: "f \<noteq> ch_fd c" "T f \<noteq> None" using that by (auto split: if_splits)
      have "holds_fd (C(p := None)) q f" if "holds_fd C q f" for q
        using that u [of f] f(1) by (auto simp: holds_fd_upd)
      then show ?thesis using fds_okD(6) [OF assms(1) f(2)] by metis
    qed
    show "(T(ch_fd c := None)) f \<noteq> None \<and> f \<notin> set K" if "holds_fd (C(p := None)) q f" for q f
      using that o [of q f] fds_okD(3) [OF assms(1), of q f] by (simp add: holds_fd_upd)
    show "q = q'" if "holds_fd (C(p := None)) q f" "holds_fd (C(p := None)) q' f" for q q' f
      using that fds_okD(4) [OF assms(1), of q f q'] by (simp add: holds_fd_upd)
    show "0 \<le> f \<and> (T(ch_fd c := None)) f \<noteq> None" if "f \<in> set K" for f
      using that k fds_okD(5) [OF assms(1), of f] by auto
  qed (use fds_okD(1,2) [OF assms(1)] in auto)
  then show ?thesis using True by simp
next
  case False
  then have "holds_fd (C(p := None)) q f \<longleftrightarrow> holds_fd C q f" for q f using assms(2) by (auto simp: holds_fd_def)
  then show ?thesis using False assms(1) unfolding fds_ok_def by simp
qed

lemma fds_ok_copy:
  assumes "fds_ok T C K" "T n = None" "0 \<le> n"
  shows "fds_ok (T(n \<mapsto> e)) C (n # K)"
proof -
  have "\<not> holds_fd C q n" for q using fds_okD(3) [OF assms(1), of q n] assms(2) by auto
  moreover have "n \<notin> set K" using fds_okD(5) [OF assms(1), of n] assms(2) by auto
  ultimately show ?thesis using assms(3) fds_okD [OF assms(1)] unfolding fds_ok_def by (auto split: if_splits)
qed

fun disposes_receiver :: "channel_call \<Rightarrow> bool" where
  "disposes_receiver (DisposeReceiver p) \<longleftrightarrow> True"
| "disposes_receiver _ \<longleftrightarrow> False"

lemma as_channel_cases:
  assumes "world_ok w"
  obtains "as_channel w p = None" "channels w p = None" | "as_channel w p = Some None" "p = 0" "channels w p = None"
  | c where "as_channel w p = Some (Some c)" "channels w p = Some c"
  using that fds_okD(1) [OF assms] by (cases "p = 0"; cases "channels w p") (auto simp: as_channel_def)

lemma open_pair_ok:
  assumes "world_ok w" "channel_possible w (OpenPair name pair arrayOk m0 m1)"
  shows "world_ok (snd (IC_nativeOpenInputChannelPair name pair arrayOk m0 m1 w))"
proof (cases pair)
  case None
  then show ?thesis using assms(1) by (simp add: IC_nativeOpenInputChannelPair_def Let_def)
next
  case (Some fp)
  obtain f0 f1 where f: "fp = (f0, f1)" by (cases fp)
  have fresh: "open_fds w f0 = None" "open_fds w f1 = None" "0 \<le> f0" "0 \<le> f1" "f0 \<noteq> f1"
    "m0 \<noteq> 0" "m1 \<noteq> 0" "channels w m0 = None" "channels w m1 = None" "m0 \<noteq> m1"
    using assms(2) Some f by (auto simp: fresh_fd_def fresh_channel_def)
  show ?thesis
  proof (cases arrayOk)
    case True
    have "fds_ok ((open_fds w)(f0 \<mapsto> x)) ((channels w)(m0 \<mapsto> c)) (copies w)" if "ch_fd c = f0" for x c
      by (rule fds_ok_alloc) (use assms(1) fresh that in simp_all)
    then have "fds_ok ((open_fds w)(f0 \<mapsto> x, f1 \<mapsto> y)) ((channels w)(m0 \<mapsto> c, m1 \<mapsto> d)) (copies w)"
      if "ch_fd c = f0" "ch_fd d = f1" for x y c d
      by (rule fds_ok_alloc) (use fresh that in simp_all)
    then show ?thesis using Some f True by (simp add: IC_nativeOpenInputChannelPair_def alloc_channel_def Let_def)
  next
    case False
    have "(open_fds w)(f0 := None, f1 := None) = open_fds w" "(channels w)(m0 := None, m1 := None) = channels w"
      using fresh by (auto simp: fun_eq_iff)
    then show ?thesis using assms(1) Some f False fresh
      by (simp add: IC_nativeOpenInputChannelPair_def alloc_channel_def close_descriptor_def Let_def fun_upd_twist)
  qed
qed

lemma dispose_channel_ok:
  assumes "world_ok w" "IC_nativeDispose p w = Some w'"
  shows "world_ok w'"
proof (cases rule: as_channel_cases [OF assms(1), of p])
  case (3 c)
  then show ?thesis using assms fds_ok_dispose [OF assms(1) 3(2)]
    by (auto simp: IC_nativeDispose_def close_descriptor_def split: if_splits)
qed (use assms in \<open>auto simp: IC_nativeDispose_def\<close>)

lemma alloc_channel_simps [simp]:
  "open_fds (alloc_channel name fd mem w) = open_fds w" "copies (alloc_channel name fd mem w) = copies w"
  "channels (alloc_channel name fd mem w) = (channels w)(mem \<mapsto> \<lparr> ch_id = g_channelId w, ch_name = name, ch_fd = fd \<rparr>)"
  "input_bridge (alloc_channel name fd mem w) = input_bridge w" "event_receivers (alloc_channel name fd mem w) = event_receivers w"
  by (simp_all add: alloc_channel_def)

lemma alloc_closed_ok:
  assumes "world_ok w" "fresh_channel w mem"
  shows "world_ok (alloc_channel name (- 1) mem w)"
  using fds_ok_alloc_closed [OF assms(1), of mem] assms(2) by (simp add: fresh_channel_def)

lemma dup_channel_ok:
  assumes "world_ok w" "channel_possible w (DupChannel p newFd mem)" "IC_nativeDup p newFd mem w = Some w'"
  shows "world_ok w'"
proof -
  have m: "fresh_channel w mem" using assms(2) by simp
  consider name where "w' = alloc_channel name (- 1) mem w"
    | c n where "channels w p = Some c" "newFd = Some n" "0 \<le> ch_fd c"
        "w' = alloc_channel (ch_name c) n mem (w\<lparr> open_fds := (open_fds w)(n := open_fds w (ch_fd c)) \<rparr>)"
    using assms(3) by (cases rule: as_channel_cases [OF assms(1), of p]) (auto simp: IC_nativeDup_def Let_def split: option.splits if_splits)
  then show ?thesis
  proof cases
    case 1
    then show ?thesis using alloc_closed_ok [OF assms(1) m] by simp
  next
    case 2
    then have "holds_fd (channels w) p (ch_fd c)" by (simp add: holds_fd_def)
    then obtain e where e: "open_fds w (ch_fd c) = Some e" using fds_okD(3) [OF assms(1)] by blast
    show ?thesis using fds_ok_alloc [OF assms(1), of mem n] 2 e m assms(2)
      by (simp add: fresh_channel_def fresh_fd_def)
  qed
qed

lemma get_fd_held:
  assumes "world_ok w" "oh_input_channel_get_fd p w = Some fd" "0 \<le> fd"
  shows "holds_fd (channels w) p fd"
  using assms(2,3)
  by (cases rule: as_channel_cases [OF assms(1), of p]) (auto simp: oh_input_channel_get_fd_def holds_fd_def)

lemma register_effect:
  assumes "world_ok w" "channel_possible w (Register sid p symbol dupFd)" "nativeRegisterInputChannel_impl sid p symbol dupFd w = Some w'"
  shows "w' = w \<or> (\<exists>q fd n e. p = Some q \<and> holds_fd (channels w) q fd \<and> open_fds w fd = Some e \<and> fresh_fd w n \<and> dupFd = Some n
    \<and> w' = w\<lparr> open_fds := (open_fds w)(n \<mapsto> e), copies := n # copies w, input_bridge := registerInputChannel sid n (input_bridge w) \<rparr>)"
proof (cases "w' = w")
  case False
  then obtain q fd n where q: "p = Some q" "oh_input_channel_get_fd q w = Some fd" "0 \<le> fd" "dupFd = Some n"
    "w' = w\<lparr> open_fds := (open_fds w)(n := open_fds w fd), copies := n # copies w,
       input_bridge := registerInputChannel sid n (input_bridge w) \<rparr>"
    using assms(3) by (auto simp: nativeRegisterInputChannel_impl_def split: option.splits if_splits bind_splits)
  have h: "holds_fd (channels w) q fd" by (rule get_fd_held [OF assms(1) q(2,3)])
  then obtain e where e: "open_fds w fd = Some e" using fds_okD(3) [OF assms(1)] by blast
  have f: "fresh_fd w n" using assms(2) q(4) by simp
  have "w' = w\<lparr> open_fds := (open_fds w)(n \<mapsto> e), copies := n # copies w, input_bridge := registerInputChannel sid n (input_bridge w) \<rparr>"
    using q(5) e by simp
  then show ?thesis using q(1,4) h e f by blast
qed simp

lemma channel_do_ok:
  assumes "world_ok w" "channel_possible w x" "channel_do x w = Some w'" "\<not> disposes_receiver x"
  shows "world_ok w'"
proof (cases x)
  case (OpenPair name pair arrayOk m0 m1)
  then show ?thesis using assms open_pair_ok by auto
next
  case (DisposeChannel p)
  then show ?thesis using assms dispose_channel_ok by auto
next
  case (ReadParcel mem)
  then show ?thesis using assms alloc_closed_ok [OF assms(1)] by (auto simp: IC_nativeReadFromParcel_def)
next
  case (DupChannel p newFd mem)
  then show ?thesis using assms dup_channel_ok by auto
next
  case (Register sid p symbol dupFd)
  then show ?thesis using register_effect [of w sid p symbol dupFd w'] assms fds_ok_copy [OF assms(1)]
    by (auto simp: fresh_fd_def)
next
  case (Unregister sid)
  then show ?thesis using assms by (auto simp: nativeUnregisterInputChannel_impl_def)
next
  case (InitReceiver weak vmOk p mem)
  then show ?thesis using assms by (auto simp: IER_nativeInit_def split: if_splits bind_splits)
next
  case (DisposeReceiver p)
  then show ?thesis using assms(4) by simp
qed

lemma channel_run_ok:
  "world_ok w \<Longrightarrow> channel_run xs w = Some w' \<Longrightarrow> \<not> list_ex disposes_receiver xs \<Longrightarrow> world_ok w'"
proof (induction xs arbitrary: w)
  case (Cons x xs)
  then obtain v where v: "channel_possible w x" "channel_do x w = Some v" "channel_run xs v = Some w'"
    by (auto split: if_splits bind_splits)
  have "world_ok v" using channel_do_ok [OF Cons.prems(1) v(1,2)] Cons.prems(3) by simp
  then show ?case using Cons.IH [OF _ v(3)] Cons.prems(3) by simp
qed simp

lemma channel_init_ok: "world_ok channel_init"
  by (simp add: fds_ok_def holds_fd_def channel_init_def)


section \<open>The path of an input event\<close>

text \<open>
  Session \<open>sid\<close> of the bridge writes to the server end of the socket pair \<open>e\<close>, and the receiver \<open>r\<close> reads
  from its client end through the descriptor of the channel \<open>p\<close>.
\<close>

definition connected :: "nat \<Rightarrow> int \<Rightarrow> jptr \<Rightarrow> jptr \<Rightarrow> channel_world \<Rightarrow> bool" where
  "connected e sid p r w \<longleftrightarrow> (\<exists>s R fd. sessions (input_bridge w) sid = Some s \<and> serverFd s \<in> set (copies w)
     \<and> open_fds w (serverFd s) = Some (e, Server) \<and> event_receivers w r = Some R \<and> ier_clientFd R = fd
     \<and> holds_fd (channels w) p fd \<and> open_fds w fd = Some (e, Client))"

fun cuts :: "int \<Rightarrow> jptr \<Rightarrow> channel_call \<Rightarrow> bool" where
  "cuts sid p (DisposeChannel q) \<longleftrightarrow> q = p"
| "cuts sid p (Register s q symbol n) \<longleftrightarrow> s = sid"
| "cuts sid p (Unregister s) \<longleftrightarrow> s = sid"
| "cuts sid p (DisposeReceiver q) \<longleftrightarrow> True"
| "cuts sid p _ \<longleftrightarrow> False"

text \<open>What a call leaves alone: the descriptors that are not free are closed only with their channel.\<close>

lemma kept_channel:
  assumes "world_ok w" "channel_possible w x" "channel_do x w = Some w'" "holds_fd (channels w) p fd" "\<not> cuts sid p x"
  shows "holds_fd (channels w') p fd"
proof -
  have p: "channels w p \<noteq> None" using assms(4) by (auto simp: holds_fd_def)
  show ?thesis
  proof (cases x)
    case (OpenPair name pair arrayOk m0 m1)
    then have "p \<noteq> m0" "p \<noteq> m1" using assms(2) p by (auto simp: fresh_channel_def)
    then show ?thesis using OpenPair assms(3,4)
      by (auto simp: IC_nativeOpenInputChannelPair_def Let_def holds_fd_def close_descriptor_def split: option.splits if_splits)
  next
    case (DisposeChannel q)
    then show ?thesis using assms(3-5)
      by (cases rule: as_channel_cases [OF assms(1), of q]) (auto simp: IC_nativeDispose_def holds_fd_def close_descriptor_def)
  next
    case (ReadParcel mem)
    then show ?thesis using assms(2-4) p by (auto simp: IC_nativeReadFromParcel_def holds_fd_def fresh_channel_def)
  next
    case (DupChannel q newFd mem)
    then have "p \<noteq> mem" using assms(2) p by (auto simp: fresh_channel_def)
    then show ?thesis using DupChannel assms(3,4)
      by (auto simp: IC_nativeDup_def Let_def holds_fd_def split: option.splits if_splits bind_splits)
  next
    case (Register s q symbol n)
    then show ?thesis using register_effect [OF assms(1), of s q symbol n w'] assms(2-4) by auto
  next
    case (Unregister s)
    then show ?thesis using assms(3,4) by (auto simp: nativeUnregisterInputChannel_impl_def)
  next
    case (InitReceiver weak vmOk q mem)
    then show ?thesis using assms(3,4) by (auto simp: IER_nativeInit_def split: if_splits bind_splits)
  next
    case (DisposeReceiver q)
    then show ?thesis using assms(5) by simp
  qed
qed

lemma kept_fd:
  assumes "world_ok w" "channel_possible w x" "channel_do x w = Some w'" "\<not> disposes_receiver x"
    "open_fds w fd = Some e" "\<And>q c. x = DisposeChannel q \<Longrightarrow> channels w q = Some c \<Longrightarrow> ch_fd c \<noteq> fd"
  shows "open_fds w' fd = Some e"
proof (cases x)
  case (OpenPair name pair arrayOk m0 m1)
  then have "f0 \<noteq> fd \<and> f1 \<noteq> fd" if "pair = Some (f0, f1)" for f0 f1 using assms(2,5) that by (auto simp: fresh_fd_def)
  then show ?thesis using OpenPair assms(3,5)
    by (auto simp: IC_nativeOpenInputChannelPair_def Let_def close_descriptor_def split: option.splits if_splits)
next
  case (DisposeChannel q)
  then show ?thesis using assms(3,5) assms(6) [of q]
    by (cases rule: as_channel_cases [OF assms(1), of q]) (auto simp: IC_nativeDispose_def close_descriptor_def)
next
  case (ReadParcel mem)
  then show ?thesis using assms(3,5) by (auto simp: IC_nativeReadFromParcel_def)
next
  case (DupChannel q newFd mem)
  then have "n \<noteq> fd" if "newFd = Some n" for n using assms(2,5) that by (auto simp: fresh_fd_def)
  then show ?thesis using DupChannel assms(3,5)
    by (auto simp: IC_nativeDup_def Let_def split: option.splits if_splits bind_splits)
next
  case (Register s q symbol n)
  then show ?thesis using register_effect [OF assms(1), of s q symbol n w'] assms(2,3,5) by (auto simp: fresh_fd_def)
next
  case (Unregister s)
  then show ?thesis using assms(3,5) by (auto simp: nativeUnregisterInputChannel_impl_def)
next
  case (InitReceiver weak vmOk q mem)
  then show ?thesis using assms(3,5) by (auto simp: IER_nativeInit_def split: if_splits bind_splits)
next
  case (DisposeReceiver q)
  then show ?thesis using assms(4) by simp
qed

lemma kept_ends:
  assumes "world_ok w" "channel_possible w x" "channel_do x w = Some w'" "\<not> cuts sid p x"
  shows "sessions (input_bridge w') sid = sessions (input_bridge w) sid \<and> set (copies w) \<subseteq> set (copies w')
    \<and> (event_receivers w r = Some R \<longrightarrow> r \<noteq> 0 \<longrightarrow> event_receivers w' r = Some R)"
proof -
  have eff: "s \<noteq> sid \<Longrightarrow> sessions (registerInputChannel s n b) sid = sessions b sid"
    "s \<noteq> sid \<Longrightarrow> sessions (unregisterInputChannel s b) sid = sessions b sid" for s n b
    by (simp_all add: registerInputChannel_def unregisterInputChannel_def Let_def)
  show ?thesis
  proof (cases x)
    case (Register s q symbol n)
    then show ?thesis using register_effect [OF assms(1), of s q symbol n w'] assms(2-4) eff(1) [of s] by auto
  qed (use assms(2-4) eff(2) in \<open>auto simp: IC_nativeOpenInputChannelPair_def IC_nativeDispose_def IC_nativeReadFromParcel_def IC_nativeDup_def
      nativeUnregisterInputChannel_impl_def IER_nativeInit_def Let_def close_descriptor_def split: option.splits if_splits bind_splits\<close>)
qed

lemma connected_kept:
  assumes "world_ok w" "connected e sid p r w" "r \<noteq> 0" "channel_possible w x" "channel_do x w = Some w'" "\<not> cuts sid p x"
  shows "connected e sid p r w'"
proof -
  obtain s R fd where c: "sessions (input_bridge w) sid = Some s" "serverFd s \<in> set (copies w)"
    "open_fds w (serverFd s) = Some (e, Server)" "event_receivers w r = Some R" "ier_clientFd R = fd"
    "holds_fd (channels w) p fd" "open_fds w fd = Some (e, Client)"
    using assms(2) unfolding connected_def by blast
  have d: "\<not> disposes_receiver x" using assms(6) by (cases x) auto
  note do = assms(1,4,5)
  have b: "ch_fd a \<noteq> serverFd s" if "x = DisposeChannel q" "channels w q = Some a" for q a
  proof
    assume "ch_fd a = serverFd s"
    then have "holds_fd (channels w) q (serverFd s)" using that(2) fds_okD(5) [OF assms(1) c(2)] by (simp add: holds_fd_def)
    then show False using fds_okD(3) [OF assms(1)] c(2) by blast
  qed
  have a: "ch_fd a \<noteq> fd" if "x = DisposeChannel q" "channels w q = Some a" for q a
  proof
    assume "ch_fd a = fd"
    then have "holds_fd (channels w) q fd" using that(2) c(6) by (auto simp: holds_fd_def)
    then have "q = p" using fds_okD(4) [OF assms(1) _ c(6)] by blast
    then show False using that(1) assms(6) by simp
  qed
  have "open_fds w' (serverFd s) = Some (e, Server)" by (rule kept_fd [OF do d c(3) b])
  moreover have "open_fds w' fd = Some (e, Client)" by (rule kept_fd [OF do d c(7) a])
  ultimately show ?thesis
    using kept_channel [OF do c(6) assms(6)] kept_ends [OF do assms(6), of r R] c(1,2,4,5) assms(3) unfolding connected_def by auto
qed

lemma connected_run:
  assumes "world_ok w" "connected e sid p r w" "r \<noteq> 0" "channel_run ys w = Some w'" "\<not> list_ex (cuts sid p) ys"
  shows "connected e sid p r w'"
  using assms
proof (induction ys arbitrary: w)
  case (Cons y ys)
  then obtain v where v: "channel_possible w y" "channel_do y w = Some v" "channel_run ys v = Some w'"
    by (auto split: if_splits bind_splits)
  have y: "\<not> cuts sid p y" "\<not> list_ex (cuts sid p) ys" using Cons.prems(5) by simp_all
  have "\<not> disposes_receiver y" using y(1) by (cases y) auto
  then have "world_ok v" by (rule channel_do_ok [OF Cons.prems(1) v(1,2)])
  then show ?case
    using Cons.IH [OF _ connected_kept [OF Cons.prems(1-3) v(1,2) y(1)] Cons.prems(3) v(3) y(2)] by simp
qed simp

definition window_calls ::
  "bytes option \<Rightarrow> int \<Rightarrow> int \<Rightarrow> int \<Rightarrow> int \<Rightarrow> int \<Rightarrow> jptr \<Rightarrow> jptr \<Rightarrow> jptr \<Rightarrow> jptr \<Rightarrow> channel_call list" where
  "window_calls name sid f0 f1 n d m0 m1 m2 r = [OpenPair name (Some (f0, f1)) True m0 m1,
     Register sid (Some m0) True (Some n), DupChannel m1 (Some d) m2, InitReceiver True True (Some m2) r]"

lemma window_connected:
  assumes "world_ok w" "channel_run (window_calls name sid f0 f1 n d m0 m1 m2 r) w = Some v" "r \<noteq> 0"
  shows "connected (next_socket w) sid m2 r v"
proof -
  let ?w1 = "snd (IC_nativeOpenInputChannelPair name (Some (f0, f1)) True m0 m1 w)"
  have p: "fresh_channel w m0" "fresh_channel w m1" "m0 \<noteq> m1" "fresh_fd w f0" "fresh_fd w f1" "f0 \<noteq> f1"
    using assms(2) by (auto simp: window_calls_def split: if_splits)
  have w1: "open_fds ?w1 = (open_fds w)(f0 \<mapsto> (next_socket w, Server), f1 \<mapsto> (next_socket w, Client))"
    "\<exists>i b. channels ?w1 m0 = Some \<lparr> ch_id = i, ch_name = b, ch_fd = f0 \<rparr>"
    "\<exists>i b. channels ?w1 m1 = Some \<lparr> ch_id = i, ch_name = b, ch_fd = f1 \<rparr>"
    using p by (auto simp: IC_nativeOpenInputChannelPair_def Let_def)
  then obtain i b j b' where ch: "channels ?w1 m0 = Some \<lparr> ch_id = i, ch_name = b, ch_fd = f0 \<rparr>"
    "channels ?w1 m1 = Some \<lparr> ch_id = j, ch_name = b', ch_fd = f1 \<rparr>" by blast
  let ?w2 = "?w1\<lparr> open_fds := (open_fds ?w1)(n := open_fds ?w1 f0), copies := n # copies ?w1,
    input_bridge := registerInputChannel sid n (input_bridge ?w1) \<rparr>"
  have f: "0 \<le> f0" "0 \<le> f1" "m0 \<noteq> 0" "m1 \<noteq> 0" using p by (simp_all add: fresh_fd_def fresh_channel_def)
  have r2: "nativeRegisterInputChannel_impl sid (Some m0) True (Some n) ?w1 = Some ?w2"
    using f ch(1) by (simp add: nativeRegisterInputChannel_impl_def oh_input_channel_get_fd_def as_channel_def)
  have run2: "channel_run [DupChannel m1 (Some d) m2, InitReceiver True True (Some m2) r] ?w2 = Some v" and n: "fresh_fd ?w1 n"
    using assms(2) r2 by (auto simp: window_calls_def split: if_splits)
  let ?w3 = "alloc_channel b' d m2 (?w2\<lparr> open_fds := (open_fds ?w2)(d := open_fds ?w2 f1) \<rparr>)"
  have n': "n \<noteq> f0" "n \<noteq> f1" "0 \<le> n" using n w1(1) p(6) by (auto simp: fresh_fd_def split: if_splits)
  have r3: "IC_nativeDup m1 (Some d) m2 ?w2 = Some ?w3"
    using f ch(2) by (simp add: IC_nativeDup_def as_channel_def Let_def)
  have d: "fresh_fd ?w2 d" "fresh_channel ?w2 m2" and run3: "channel_run [InitReceiver True True (Some m2) r] ?w3 = Some v"
    using run2 r3 by (auto split: if_splits)
  have d': "d \<noteq> n" "0 \<le> d" "m2 \<noteq> 0" using d w1(1) n' p(6) by (auto simp: fresh_fd_def fresh_channel_def)
  have v: "Some v = IER_nativeInit True True (Some m2) r ?w3" using run3 by (auto split: if_splits bind_splits)
  have e3: "open_fds ?w3 d = Some (next_socket w, Client)" "open_fds ?w3 n = Some (next_socket w, Server)"
    using n' d' w1(1) p(6) by simp_all
  have b3: "sessions (input_bridge ?w3) sid = Some ((case sessions (input_bridge ?w1) sid of None \<Rightarrow> new_SessionInput | Some s \<Rightarrow> s)\<lparr> serverFd := n, seq := 0 \<rparr>)"
    by (simp add: registerInputChannel_def Let_def)
  have v': "v = ?w3\<lparr> event_receivers := (event_receivers ?w3)(r \<mapsto> \<lparr> ier_id = g_receiverId ?w3, ier_jvm = True, ier_weakRef = True,
      ier_clientFd = d, ier_worker = True \<rparr>), g_receiverId := g_receiverId ?w3 + 1 \<rparr>"
    using v assms(3) d' by (simp add: IER_nativeInit_def oh_input_channel_get_fd_def as_channel_def)
  show ?thesis unfolding connected_def v'
    using e3 b3 d' n' by (simp add: holds_fd_def)
qed


text \<open>
  The receiver keeps the descriptor of the channel without a copy of its own. When the channel is disposed
  of first, the descriptor can be given to another channel, and disposing of the receiver closes it there.
\<close>

theorem receiver_double_close:
  assumes "world_ok w" "channels w p = Some c" "ch_fd c = f0" "0 \<le> f0" "r \<noteq> 0"
    "channel_run [InitReceiver weak vmOk (Some p) r, DisposeChannel p, OpenPair name (Some (f0, f1)) True m0 m1,
       DisposeReceiver r] w = Some v"
  shows "holds_fd (channels v) m0 f0 \<and> open_fds v f0 = None"
proof -
  have p: "p \<noteq> 0" using fds_okD(1) [OF assms(1)] assms(2) by auto
  have g: "as_channel u p = Some (Some c)" if "channels u = channels w" for u using that p assms(2) by (simp add: as_channel_def)
  show ?thesis using assms(3-6) p
    by (auto simp: IER_nativeInit_def oh_input_channel_get_fd_def g IC_nativeDispose_def close_descriptor_def validate_def
        IC_nativeOpenInputChannelPair_def IER_nativeDispose_def Let_def alloc_channel_def holds_fd_def split: if_splits)
qed

definition demo_window :: "channel_call list" where
  "demo_window = window_calls (Some (bytes_of ''w'')) 3 10 11 12 13 0x1000 0x2000 0x3000 0x4000"

definition demo_channels :: channel_world where
  "demo_channels = the (channel_run demo_window channel_init)"

lemmas channel_eval = channel_init_def fresh_fd_def fresh_channel_def IC_nativeOpenInputChannelPair_def alloc_channel_def
  nativeRegisterInputChannel_impl_def oh_input_channel_get_fd_def as_channel_def IC_nativeDup_def IER_nativeInit_def
  IC_nativeDispose_def close_descriptor_def Let_def

lemma demo_channels_run:
  "channel_run demo_window channel_init = Some demo_channels" "copies demo_channels = [12]"
  "\<exists>z. channel_run [DisposeChannel 0x1000, DisposeChannel 0x2000] demo_channels = Some z"
  by (simp_all add: demo_channels_def demo_window_def window_calls_def channel_eval)



end
