(* ===== verification/NativeWindow.thy ===== *)
theory NativeWindow
  imports Prelude
begin

text \<open>
  The Android native window over an OpenHarmony window: \<open>window/jni/oh_anativewindow_shim.cpp\<close>. The heap
  has the live windows and buffer wrappers by address, and a trace of the calls into the OpenHarmony
  window library. The library is a record of parameters, and an allocation returns the address it is
  given. \<open>None\<close> is undefined behaviour, in particular a use of a freed window or wrapper. Allocation of a
  wrapper (\<open>new\<close>) is taken to succeed; the lock of the cache and the log probes are left out, as are the
  constant fields and the hook table that \<open>oh_anw_wrap\<close> stores once in the Android face of a window.
\<close>

section \<open>Constants and state\<close>

definition EINVAL :: int where "EINVAL = 22"
definition EIO :: int where "EIO = 5"
definition ENOMEM :: int where "ENOMEM = 12"
definition ENOSYS :: int where "ENOSYS = 38"

definition NATIVE_WINDOW_WIDTH :: int where "NATIVE_WINDOW_WIDTH = 0"
definition NATIVE_WINDOW_HEIGHT :: int where "NATIVE_WINDOW_HEIGHT = 1"
definition NATIVE_WINDOW_FORMAT :: int where "NATIVE_WINDOW_FORMAT = 2"
definition NATIVE_WINDOW_MIN_UNDEQUEUED_BUFFERS :: int where "NATIVE_WINDOW_MIN_UNDEQUEUED_BUFFERS = 3"
definition NATIVE_WINDOW_QUEUES_TO_WINDOW_COMPOSER :: int where "NATIVE_WINDOW_QUEUES_TO_WINDOW_COMPOSER = 4"
definition NATIVE_WINDOW_CONCRETE_TYPE :: int where "NATIVE_WINDOW_CONCRETE_TYPE = 5"
definition NATIVE_WINDOW_DEFAULT_WIDTH :: int where "NATIVE_WINDOW_DEFAULT_WIDTH = 6"
definition NATIVE_WINDOW_DEFAULT_HEIGHT :: int where "NATIVE_WINDOW_DEFAULT_HEIGHT = 7"
definition NATIVE_WINDOW_TRANSFORM_HINT :: int where "NATIVE_WINDOW_TRANSFORM_HINT = 8"
definition NATIVE_WINDOW_BUFFER_AGE :: int where "NATIVE_WINDOW_BUFFER_AGE = 13"
definition NATIVE_WINDOW_LAYER_COUNT :: int where "NATIVE_WINDOW_LAYER_COUNT = 16"
definition NATIVE_WINDOW_IS_VALID :: int where "NATIVE_WINDOW_IS_VALID = 17"
definition NATIVE_WINDOW_DATASPACE :: int where "NATIVE_WINDOW_DATASPACE = 20"
definition NATIVE_WINDOW_MAX_BUFFER_COUNT :: int where "NATIVE_WINDOW_MAX_BUFFER_COUNT = 21"

definition NATIVE_WINDOW_SET_USAGE :: int where "NATIVE_WINDOW_SET_USAGE = 0"
definition NATIVE_WINDOW_SET_BUFFER_COUNT :: int where "NATIVE_WINDOW_SET_BUFFER_COUNT = 4"
definition NATIVE_WINDOW_SET_BUFFERS_GEOMETRY :: int where "NATIVE_WINDOW_SET_BUFFERS_GEOMETRY = 5"
definition NATIVE_WINDOW_SET_BUFFERS_TRANSFORM :: int where "NATIVE_WINDOW_SET_BUFFERS_TRANSFORM = 6"
definition NATIVE_WINDOW_SET_BUFFERS_DIMENSIONS :: int where "NATIVE_WINDOW_SET_BUFFERS_DIMENSIONS = 8"
definition NATIVE_WINDOW_SET_BUFFERS_FORMAT :: int where "NATIVE_WINDOW_SET_BUFFERS_FORMAT = 9"
definition NATIVE_WINDOW_SET_SCALING_MODE :: int where "NATIVE_WINDOW_SET_SCALING_MODE = 10"

text \<open>
  The operations that do nothing: time stamps, the four connection calls, user dimensions, both crops,
  the sticky transform, and the two lock calls.
\<close>

definition perform_ignored :: "int list" where
  "perform_ignored = [7, 13, 14, 1, 2, 15, 16, 17, 3, 11, 12]"

definition OH_OP_SET_BUFFER_GEOMETRY :: int where "OH_OP_SET_BUFFER_GEOMETRY = 0"
definition OH_OP_GET_BUFFER_GEOMETRY :: int where "OH_OP_GET_BUFFER_GEOMETRY = 1"
definition OH_OP_GET_FORMAT :: int where "OH_OP_GET_FORMAT = 2"
definition OH_OP_SET_FORMAT :: int where "OH_OP_SET_FORMAT = 3"
definition OH_OP_SET_USAGE :: int where "OH_OP_SET_USAGE = 5"
definition OH_OP_SET_SWAP_INTERVAL :: int where "OH_OP_SET_SWAP_INTERVAL = 8"
definition OH_OP_SET_TRANSFORM :: int where "OH_OP_SET_TRANSFORM = 14"

definition kAdapterAnwMagic :: u32 where "kAdapterAnwMagic = 0x414E5731"
definition kAdapterAnwBufMagic :: u32 where "kAdapterAnwBufMagic = 0x414E4231"

type_synonym addr = u64

record AdapterAnwBuffer =
  buf_oh :: addr
  buf_magic :: u32

record AdapterAnw =
  anw_oh :: addr
  anw_magic :: u32
  refCount :: u32
  bufCache :: "(addr \<times> addr) list" \<comment> \<open>OpenHarmony buffer and wrapper\<close>

text \<open>A call into the window library, or a descriptor closed.\<close>

datatype ndk_call =
    RequestBuffer addr
  | FlushBuffer addr addr int
  | AbortBuffer addr addr
  | HandleOpt addr int "int list"
  | CloseFd int

record anw_heap =
  anw_windows :: "addr \<Rightarrow> AdapterAnw option"
  anw_buffers :: "addr \<Rightarrow> AdapterAnwBuffer option"
  ndk_trace :: "ndk_call list"

definition empty_heap :: anw_heap where
  "empty_heap = \<lparr> anw_windows = Map.empty, anw_buffers = Map.empty, ndk_trace = [] \<rparr>"

text \<open>
  The results of the library: return value, buffer and fence of a request, the return values of a flush,
  an abort and an option, and the numbers that the two getters leave in the caller's variables, which hold
  height 0, width 0 and format 1 before.
\<close>

record ndk =
  requestResult :: "int \<times> addr \<times> int"
  flushResult :: int
  abortResult :: int
  optResult :: "int \<Rightarrow> int list \<Rightarrow> int"
  geometry :: "int \<times> int"
  pixelFormat :: int

definition traced :: "ndk_call \<Rightarrow> anw_heap \<Rightarrow> anw_heap" where
  "traced c h = h\<lparr> ndk_trace := ndk_trace h @ [c] \<rparr>"

section \<open>Windows and wrappers\<close>

text \<open>The outer \<open>None\<close> is a dangling pointer, the inner one a null pointer or a foreign object.\<close>

definition as_adapter :: "anw_heap \<Rightarrow> addr \<Rightarrow> AdapterAnw option option" where
  "as_adapter h w = (if w = 0 then Some None
     else do { a \<leftarrow> anw_windows h w; Some (if anw_magic a = kAdapterAnwMagic then Some a else None) })"

definition as_adapter_buf :: "anw_heap \<Rightarrow> addr \<Rightarrow> AdapterAnwBuffer option option" where
  "as_adapter_buf h b = (if b = 0 then Some None
     else do { x \<leftarrow> anw_buffers h b; Some (if buf_magic x = kAdapterAnwBufMagic then Some x else None) })"

definition oh_anw_wrap :: "addr \<Rightarrow> addr \<Rightarrow> anw_heap \<Rightarrow> addr \<times> anw_heap" where
  "oh_anw_wrap oh mem h = (if oh = 0 then (0, h) else if mem = 0 then (0, h)
     else (mem, h\<lparr> anw_windows := (anw_windows h)(mem \<mapsto>
       \<lparr> anw_oh = oh, anw_magic = kAdapterAnwMagic, refCount = 1, bufCache = [] \<rparr>) \<rparr>))"

text \<open>Deleting a wrapper that is not live is undefined.\<close>

fun delete_wrappers :: "addr list \<Rightarrow> (addr \<Rightarrow> AdapterAnwBuffer option) \<Rightarrow> (addr \<Rightarrow> AdapterAnwBuffer option) option" where
  "delete_wrappers [] B = Some B"
| "delete_wrappers (b # bs) B = do { _ \<leftarrow> B b; delete_wrappers bs (B(b := None)) }"

definition oh_anw_destroy :: "addr \<Rightarrow> anw_heap \<Rightarrow> anw_heap option" where
  "oh_anw_destroy w h = do {
     r \<leftarrow> as_adapter h w;
     case r of None \<Rightarrow> Some h
     | Some a \<Rightarrow> do {
         B \<leftarrow> delete_wrappers (map snd (bufCache a)) (anw_buffers h);
         Some (h\<lparr> anw_windows := (anw_windows h)(w := None), anw_buffers := B \<rparr>) } }"

definition oh_anw_get_oh :: "addr \<Rightarrow> anw_heap \<Rightarrow> addr option" where
  "oh_anw_get_oh w h = do { r \<leftarrow> as_adapter h w; Some (case r of None \<Rightarrow> 0 | Some a \<Rightarrow> anw_oh a) }"

definition oh_anw_try_acquire :: "addr \<Rightarrow> anw_heap \<Rightarrow> int option" where
  "oh_anw_try_acquire w h = do { r \<leftarrow> as_adapter h w; Some (if r = None then 0 else 1) }"

definition oh_anw_try_release :: "addr \<Rightarrow> anw_heap \<Rightarrow> int option" where
  "oh_anw_try_release w h = do { r \<leftarrow> as_adapter h w; Some (if r = None then 0 else 1) }"

definition anw_base_incRef :: "addr \<Rightarrow> anw_heap \<Rightarrow> anw_heap option" where
  "anw_base_incRef w h = do {
     r \<leftarrow> as_adapter h w;
     Some (case r of None \<Rightarrow> h
       | Some a \<Rightarrow> h\<lparr> anw_windows := (anw_windows h)(w \<mapsto> a\<lparr> refCount := refCount a + 1 \<rparr>) \<rparr>) }"

definition anw_base_decRef :: "addr \<Rightarrow> anw_heap \<Rightarrow> anw_heap option" where
  "anw_base_decRef w h = do {
     r \<leftarrow> as_adapter h w;
     case r of None \<Rightarrow> Some h
     | Some a \<Rightarrow> (let prev = refCount a;
           h = h\<lparr> anw_windows := (anw_windows h)(w \<mapsto> a\<lparr> refCount := prev - 1 \<rparr>) \<rparr>
         in if sint prev \<le> 1 then oh_anw_destroy w h else Some h) }"

definition wrap_oh_buffer :: "addr \<Rightarrow> AdapterAnw \<Rightarrow> addr \<Rightarrow> addr \<Rightarrow> anw_heap \<Rightarrow> addr \<times> anw_heap" where
  "wrap_oh_buffer w a ohBuf mem h = (if ohBuf = 0 then (0, h)
     else case map_of (bufCache a) ohBuf of
       Some b \<Rightarrow> (b, h)
     | None \<Rightarrow> (mem, h\<lparr> anw_buffers := (anw_buffers h)(mem \<mapsto> \<lparr> buf_oh = ohBuf, buf_magic = kAdapterAnwBufMagic \<rparr>),
         anw_windows := (anw_windows h)(w \<mapsto> a\<lparr> bufCache := (ohBuf, mem) # bufCache a \<rparr>) \<rparr>))"

definition unwrap_aosp_buffer :: "addr \<Rightarrow> anw_heap \<Rightarrow> addr option" where
  "unwrap_aosp_buffer b h = do { r \<leftarrow> as_adapter_buf h b; Some (case r of None \<Rightarrow> 0 | Some x \<Rightarrow> buf_oh x) }"

text \<open>
  The hook of an unused slot stores 0 through its third argument when that looks like an address; the
  result is the address.
\<close>

definition oh_anw_slot_probe_impl :: "u32 \<Rightarrow> u32 option" where
  "oh_anw_slot_probe_impl a2 = (if 0x10000000 \<le> a2 \<and> a2 < 0xF0000000 then Some a2 else None)"

section \<open>The hooks\<close>

definition aanw_setSwapInterval :: "ndk \<Rightarrow> addr \<Rightarrow> int \<Rightarrow> anw_heap \<Rightarrow> (int \<times> anw_heap) option" where
  "aanw_setSwapInterval E w interval h = do {
     r \<leftarrow> as_adapter h w;
     Some (case r of None \<Rightarrow> (- EINVAL, h)
       | Some a \<Rightarrow> (optResult E OH_OP_SET_SWAP_INTERVAL [interval],
           traced (HandleOpt (anw_oh a) OH_OP_SET_SWAP_INTERVAL [interval]) h)) }"

text \<open>The result has the return code and, on success, the buffer and fence that were stored.\<close>

definition aanw_dequeueBuffer ::
  "ndk \<Rightarrow> addr \<Rightarrow> addr \<Rightarrow> anw_heap \<Rightarrow> ((int \<times> (addr \<times> int) option) \<times> anw_heap) option" where
  "aanw_dequeueBuffer E w mem h = do {
     r \<leftarrow> as_adapter h w;
     case r of None \<Rightarrow> Some ((- EINVAL, None), h)
     | Some a \<Rightarrow> (let (rc, ohBuf, fence) = requestResult E; h = traced (RequestBuffer (anw_oh a)) h
         in if rc \<noteq> 0 then Some ((- EIO, None), h)
            else let (wb, h) = wrap_oh_buffer w a ohBuf mem h
              in if wb = 0 then Some ((- ENOMEM, None), h) else Some ((0, Some (wb, fence)), h)) }"

definition aanw_queueBuffer :: "ndk \<Rightarrow> addr \<Rightarrow> addr \<Rightarrow> int \<Rightarrow> anw_heap \<Rightarrow> (int \<times> anw_heap) option" where
  "aanw_queueBuffer E w b fenceFd h = do {
     r \<leftarrow> as_adapter h w;
     case r of None \<Rightarrow> Some (- EINVAL, h)
     | Some a \<Rightarrow> do {
         ohBuf \<leftarrow> unwrap_aosp_buffer b h;
         if ohBuf = 0 then Some (- EINVAL, h)
         else Some (if flushResult E \<noteq> 0 then - EIO else 0, traced (FlushBuffer (anw_oh a) ohBuf fenceFd) h) } }"

definition aanw_cancelBuffer :: "ndk \<Rightarrow> addr \<Rightarrow> addr \<Rightarrow> int \<Rightarrow> anw_heap \<Rightarrow> (int \<times> anw_heap) option" where
  "aanw_cancelBuffer E w b fenceFd h = do {
     r \<leftarrow> as_adapter h w;
     case r of None \<Rightarrow> Some (- EINVAL, h)
     | Some a \<Rightarrow> do {
         ohBuf \<leftarrow> unwrap_aosp_buffer b h;
         if ohBuf = 0 then Some (- EINVAL, h)
         else Some (abortResult E, traced (AbortBuffer (anw_oh a) ohBuf) h) } }"

definition aanw_dequeueBuffer_DEPRECATED ::
  "ndk \<Rightarrow> addr \<Rightarrow> addr \<Rightarrow> anw_heap \<Rightarrow> ((int \<times> addr option) \<times> anw_heap) option" where
  "aanw_dequeueBuffer_DEPRECATED E w mem h = do {
     ((rc, out), h) \<leftarrow> aanw_dequeueBuffer E w mem h;
     Some (case out of None \<Rightarrow> ((rc, None), h)
       | Some (wb, fence) \<Rightarrow> ((rc, Some wb), if rc = 0 \<and> fence \<ge> 0 then traced (CloseFd fence) h else h)) }"

definition aanw_lockBuffer_DEPRECATED :: int where "aanw_lockBuffer_DEPRECATED = 0"

definition aanw_queueBuffer_DEPRECATED :: "ndk \<Rightarrow> addr \<Rightarrow> addr \<Rightarrow> anw_heap \<Rightarrow> (int \<times> anw_heap) option" where
  "aanw_queueBuffer_DEPRECATED E w b = aanw_queueBuffer E w b (- 1)"

definition aanw_cancelBuffer_DEPRECATED :: "ndk \<Rightarrow> addr \<Rightarrow> addr \<Rightarrow> anw_heap \<Rightarrow> (int \<times> anw_heap) option" where
  "aanw_cancelBuffer_DEPRECATED E w b = aanw_cancelBuffer E w b (- 1)"

text \<open>The answers of \<open>query\<close> that do not ask the window library.\<close>

definition query_constant :: "int \<Rightarrow> int option" where
  "query_constant what =
     (if what = NATIVE_WINDOW_MIN_UNDEQUEUED_BUFFERS then Some 1
      else if what = NATIVE_WINDOW_QUEUES_TO_WINDOW_COMPOSER then Some 1
      else if what = NATIVE_WINDOW_CONCRETE_TYPE then Some 0
      else if what = NATIVE_WINDOW_TRANSFORM_HINT then Some 0
      else if what = NATIVE_WINDOW_BUFFER_AGE then Some 0
      else if what = NATIVE_WINDOW_LAYER_COUNT then Some 1
      else if what = NATIVE_WINDOW_IS_VALID then Some 1
      else if what = NATIVE_WINDOW_DATASPACE then Some 142671872
      else if what = NATIVE_WINDOW_MAX_BUFFER_COUNT then Some 3 else None)"

text \<open>\<open>value\<close> is null or not; the result is the return code and the number stored.\<close>

definition aanw_query :: "ndk \<Rightarrow> addr \<Rightarrow> int \<Rightarrow> bool \<Rightarrow> anw_heap \<Rightarrow> ((int \<times> int option) \<times> anw_heap) option" where
  "aanw_query E w what isNull h = do {
     r \<leftarrow> as_adapter h w;
     Some (case r of None \<Rightarrow> ((- EINVAL, None), h)
       | Some a \<Rightarrow> if isNull then ((- EINVAL, None), h)
         else if what = NATIVE_WINDOW_WIDTH \<or> what = NATIVE_WINDOW_DEFAULT_WIDTH
           then ((0, Some (snd (geometry E))), traced (HandleOpt (anw_oh a) OH_OP_GET_BUFFER_GEOMETRY []) h)
         else if what = NATIVE_WINDOW_HEIGHT \<or> what = NATIVE_WINDOW_DEFAULT_HEIGHT
           then ((0, Some (fst (geometry E))), traced (HandleOpt (anw_oh a) OH_OP_GET_BUFFER_GEOMETRY []) h)
         else if what = NATIVE_WINDOW_FORMAT
           then ((0, Some (pixelFormat E)), traced (HandleOpt (anw_oh a) OH_OP_GET_FORMAT []) h)
         else case query_constant what of
           Some v \<Rightarrow> ((0, Some v), h)
         | None \<Rightarrow> ((- ENOSYS, Some 0), h)) }"

text \<open>The argument \<open>i\<close> of the variable argument list; reading beyond its end is undefined.\<close>

definition va_arg :: "int list \<Rightarrow> nat \<Rightarrow> int option" where
  "va_arg ap i = (if i < length ap then Some (ap ! i) else None)"

definition handle_opt :: "ndk \<Rightarrow> AdapterAnw \<Rightarrow> int \<Rightarrow> int list \<Rightarrow> anw_heap \<Rightarrow> int \<times> anw_heap" where
  "handle_opt E a code args h = (optResult E code args, traced (HandleOpt (anw_oh a) code args) h)"

definition aanw_perform :: "ndk \<Rightarrow> addr \<Rightarrow> int \<Rightarrow> int list \<Rightarrow> anw_heap \<Rightarrow> (int \<times> anw_heap) option" where
  "aanw_perform E w op ap h = do {
     r \<leftarrow> as_adapter h w;
     case r of None \<Rightarrow> Some (- EINVAL, h)
     | Some a \<Rightarrow>
         if op = NATIVE_WINDOW_SET_USAGE then do {
           usage \<leftarrow> va_arg ap 0;
           Some (handle_opt E a OH_OP_SET_USAGE [usage mod 2 ^ 32] h) }
         else if op = NATIVE_WINDOW_SET_BUFFERS_DIMENSIONS \<or> op = NATIVE_WINDOW_SET_BUFFERS_GEOMETRY then do {
           width \<leftarrow> va_arg ap 0;
           height \<leftarrow> va_arg ap 1;
           format \<leftarrow> (if op = NATIVE_WINDOW_SET_BUFFERS_GEOMETRY then va_arg ap 2 else Some (- 1));
           let (rc, h) = handle_opt E a OH_OP_SET_BUFFER_GEOMETRY [width, height] h;
           Some (rc, if rc = 0 \<and> format > 0 then snd (handle_opt E a OH_OP_SET_FORMAT [format] h) else h) }
         else if op = NATIVE_WINDOW_SET_BUFFERS_FORMAT then do {
           format \<leftarrow> va_arg ap 0;
           Some (handle_opt E a OH_OP_SET_FORMAT [format] h) }
         else if op = NATIVE_WINDOW_SET_BUFFERS_TRANSFORM then do {
           transform \<leftarrow> va_arg ap 0;
           Some (handle_opt E a OH_OP_SET_TRANSFORM [transform] h) }
         else if op = NATIVE_WINDOW_SET_BUFFER_COUNT \<or> op = NATIVE_WINDOW_SET_SCALING_MODE then do {
           _ \<leftarrow> va_arg ap 0;
           Some (0, h) }
         else Some (if op \<in> set perform_ignored then 0 else - ENOSYS, h) }"

section \<open>Histories of calls\<close>

datatype anw_call =
    Wrap addr addr
  | Destroy addr
  | IncRef addr
  | DecRef addr
  | SetSwapInterval ndk addr int
  | Dequeue ndk addr addr
  | DequeueOld ndk addr addr
  | Queue ndk addr addr int
  | Cancel ndk addr addr int
  | Query ndk addr int bool
  | Perform ndk addr int "int list"

fun anw_do :: "anw_call \<Rightarrow> anw_heap \<Rightarrow> anw_heap option" where
  "anw_do (Wrap oh mem) h = Some (snd (oh_anw_wrap oh mem h))"
| "anw_do (Destroy w) h = oh_anw_destroy w h"
| "anw_do (IncRef w) h = anw_base_incRef w h"
| "anw_do (DecRef w) h = anw_base_decRef w h"
| "anw_do (SetSwapInterval E w i) h = map_option snd (aanw_setSwapInterval E w i h)"
| "anw_do (Dequeue E w mem) h = map_option snd (aanw_dequeueBuffer E w mem h)"
| "anw_do (DequeueOld E w mem) h = map_option snd (aanw_dequeueBuffer_DEPRECATED E w mem h)"
| "anw_do (Queue E w b f) h = map_option snd (aanw_queueBuffer E w b f h)"
| "anw_do (Cancel E w b f) h = map_option snd (aanw_cancelBuffer E w b f h)"
| "anw_do (Query E w q z) h = map_option snd (aanw_query E w q z h)"
| "anw_do (Perform E w q ap) h = map_option snd (aanw_perform E w q ap h)"

text \<open>The allocator returns a null pointer (\<open>calloc\<close> only) or the address of no live object.\<close>

fun possible :: "anw_heap \<Rightarrow> anw_call \<Rightarrow> bool" where
  "possible h (Wrap oh mem) \<longleftrightarrow> mem = 0 \<or> anw_windows h mem = None"
| "possible h (Dequeue E w mem) \<longleftrightarrow> mem \<noteq> 0 \<and> anw_buffers h mem = None"
| "possible h (DequeueOld E w mem) \<longleftrightarrow> mem \<noteq> 0 \<and> anw_buffers h mem = None"
| "possible h _ \<longleftrightarrow> True"

text \<open>A history of possible calls none of which is undefined.\<close>

fun run_anw :: "anw_call list \<Rightarrow> anw_heap \<Rightarrow> anw_heap option" where
  "run_anw [] h = Some h"
| "run_anw (x # xs) h = (if possible h x then do { h \<leftarrow> anw_do x h; run_anw xs h } else None)"

definition anw_step :: "anw_heap \<Rightarrow> anw_call \<Rightarrow> anw_heap" where
  "anw_step h x = (if possible h x then case anw_do x h of None \<Rightarrow> h | Some h' \<Rightarrow> h' else h)"

lemma run_anw_foldl: "run_anw xs h = Some h' \<Longrightarrow> h' = foldl anw_step h xs"
  by (induction xs arbitrary: h) (auto simp: anw_step_def split: if_splits bind_splits)

section \<open>The invariant\<close>

text \<open>The window \<open>w\<close> has the wrapper \<open>b\<close> for the OpenHarmony buffer \<open>k\<close>.\<close>

definition named :: "anw_heap \<Rightarrow> addr \<Rightarrow> addr \<Rightarrow> addr \<Rightarrow> bool" where
  "named h w k b \<longleftrightarrow> (\<exists>a. anw_windows h w = Some a \<and> (k, b) \<in> set (bufCache a))"

definition window_ok :: "addr \<Rightarrow> AdapterAnw \<Rightarrow> bool" where
  "window_ok w a \<longleftrightarrow> w \<noteq> 0 \<and> anw_magic a = kAdapterAnwMagic \<and> distinct (map fst (bufCache a)) \<and> distinct (map snd (bufCache a))"

definition wrapper :: "addr \<Rightarrow> AdapterAnwBuffer" where
  "wrapper k = \<lparr> buf_oh = k, buf_magic = kAdapterAnwBufMagic \<rparr>"

text \<open>
  Every window is intact; a wrapper that a window names is live and refers to the named buffer; no two
  windows share a wrapper; and every live wrapper is named.
\<close>

definition anw_ok :: "anw_heap \<Rightarrow> bool" where
  "anw_ok h \<longleftrightarrow> (\<forall>w a. anw_windows h w = Some a \<longrightarrow> window_ok w a)
     \<and> (\<forall>w k b. named h w k b \<longrightarrow> k \<noteq> 0 \<and> b \<noteq> 0 \<and> anw_buffers h b = Some (wrapper k))
     \<and> (\<forall>w w' k k' b. named h w k b \<longrightarrow> named h w' k' b \<longrightarrow> w = w')
     \<and> (\<forall>b. anw_buffers h b \<noteq> None \<longrightarrow> (\<exists>w k. named h w k b))"

lemma anw_okD:
  assumes "anw_ok h"
  shows "anw_windows h w = Some a \<Longrightarrow> window_ok w a"
    and "named h w k b \<Longrightarrow> k \<noteq> 0 \<and> b \<noteq> 0 \<and> anw_buffers h b = Some (wrapper k)"
    and "named h w k b \<Longrightarrow> named h w' k' b \<Longrightarrow> w = w'"
    and "anw_buffers h b \<noteq> None \<Longrightarrow> \<exists>w k. named h w k b"
  using assms unfolding anw_ok_def by blast+

lemma anw_ok_empty: "anw_ok empty_heap"
  by (simp add: anw_ok_def named_def empty_heap_def)

text \<open>Calls that change no object.\<close>

definition same_objects :: "anw_heap \<Rightarrow> anw_heap \<Rightarrow> bool" where
  "same_objects h h' \<longleftrightarrow> anw_windows h' = anw_windows h \<and> anw_buffers h' = anw_buffers h"

lemma same_objects_traced [simp]: "same_objects h (traced c h)" "same_objects h h"
  by (simp_all add: same_objects_def traced_def)

lemma same_objects_ok: "same_objects h h' \<Longrightarrow> anw_ok h' = anw_ok h"
  by (simp add: anw_ok_def named_def same_objects_def)

lemma as_adapter_live:
  "anw_ok h \<Longrightarrow> as_adapter h w = Some (Some a) \<longleftrightarrow> anw_windows h w = Some a"
  using anw_okD(1) [of h w] by (auto simp: as_adapter_def window_ok_def split: bind_splits if_splits)

fun no_object_change :: "anw_call \<Rightarrow> bool" where
  "no_object_change (SetSwapInterval E w i) \<longleftrightarrow> True"
| "no_object_change (Queue E w b f) \<longleftrightarrow> True"
| "no_object_change (Cancel E w b f) \<longleftrightarrow> True"
| "no_object_change (Query E w q z) \<longleftrightarrow> True"
| "no_object_change (Perform E w q ap) \<longleftrightarrow> True"
| "no_object_change _ \<longleftrightarrow> False"

lemma perform_same: "aanw_perform E w q ap h = Some (r, h') \<Longrightarrow> same_objects h h'"
  by (auto simp: aanw_perform_def handle_opt_def same_objects_def traced_def Let_def split: bind_splits option.splits if_splits)

lemma no_object_change_same: "no_object_change x \<Longrightarrow> anw_do x h = Some h' \<Longrightarrow> same_objects h h'"
  by (cases x)
    (auto simp: perform_same aanw_setSwapInterval_def aanw_queueBuffer_def aanw_cancelBuffer_def aanw_query_def
      split: bind_splits option.splits if_splits)

lemma delete_wrappers_Some:
  "distinct bs \<Longrightarrow> \<forall>b \<in> set bs. B b \<noteq> None \<Longrightarrow> delete_wrappers bs B = Some (\<lambda>b. if b \<in> set bs then None else B b)"
proof (induction bs arbitrary: B)
  case (Cons b bs)
  then obtain v where "B b = Some v" by auto
  moreover have "delete_wrappers bs (B(b := None)) = Some (\<lambda>c. if c \<in> set bs then None else (B(b := None)) c)"
    by (rule Cons.IH) (use Cons.prems in auto)
  ultimately show ?case by (auto simp: fun_eq_iff)
qed (simp add: fun_eq_iff)

text \<open>A window can always be destroyed; its wrappers go with it.\<close>

lemma destroy_live:
  assumes "anw_ok h" "anw_windows h w = Some a"
  shows "oh_anw_destroy w h = Some (h\<lparr> anw_windows := (anw_windows h)(w := None),
     anw_buffers := (\<lambda>b. if b \<in> snd ` set (bufCache a) then None else anw_buffers h b) \<rparr>)"
proof -
  have "\<forall>b \<in> set (map snd (bufCache a)). anw_buffers h b \<noteq> None"
    using anw_okD(2) [OF assms(1), of w] assms(2) by (auto simp: named_def)
  moreover have "distinct (map snd (bufCache a))" using anw_okD(1) [OF assms] by (simp add: window_ok_def)
  ultimately show ?thesis
    using as_adapter_live [OF assms(1), of w a] assms(2) delete_wrappers_Some [of "map snd (bufCache a)" "anw_buffers h"]
    by (simp add: oh_anw_destroy_def)
qed

lemma anw_destroy_ok:
  assumes "anw_ok h" "anw_windows h w = Some a"
  shows "anw_ok (h\<lparr> anw_windows := (anw_windows h)(w := None),
     anw_buffers := (\<lambda>b. if b \<in> snd ` set (bufCache a) then None else anw_buffers h b) \<rparr>)" (is "anw_ok ?h")
proof -
  have n: "named ?h v k b \<longleftrightarrow> v \<noteq> w \<and> named h v k b" for v k b by (auto simp: named_def)
  have o: "named h v k b \<Longrightarrow> v \<noteq> w \<Longrightarrow> b \<notin> snd ` set (bufCache a)" for v k b
    using anw_okD(3) [OF assms(1), of v k b w] assms(2) by (auto simp: named_def)
  have p: "\<exists>v k. v \<noteq> w \<and> named h v k b" if b: "b \<notin> snd ` set (bufCache a)" "anw_buffers h b \<noteq> None" for b
  proof -
    obtain v k where "named h v k b" using anw_okD(4) [OF assms(1) b(2)] by blast
    moreover have "v \<noteq> w" using calculation b(1) assms(2) by (force simp: named_def)
    ultimately show ?thesis by blast
  qed
  have "anw_windows ?h v = Some c \<Longrightarrow> window_ok v c" for v c
    using anw_okD(1) [OF assms(1)] by (auto split: if_splits)
  moreover have "anw_buffers ?h b \<noteq> None \<Longrightarrow> \<exists>v k. named ?h v k b" for b
    using p [of b] n by (auto split: if_splits)
  moreover have "named ?h v k b \<Longrightarrow> k \<noteq> 0 \<and> b \<noteq> 0 \<and> anw_buffers ?h b = Some (wrapper k)" for v k b
    using n [of v k b] o [of v k b] anw_okD(2) [OF assms(1), of v k b] by simp
  moreover have "named ?h v k b \<Longrightarrow> named ?h v' k' b \<Longrightarrow> v = v'" for v v' k k' b
    using n [of v k b] n [of v' k' b] anw_okD(3) [OF assms(1), of v k b v' k'] by simp
  ultimately show ?thesis unfolding anw_ok_def by blast
qed

lemma count_ok:
  assumes "anw_ok h" "anw_windows h w = Some a"
  shows "anw_ok (h\<lparr> anw_windows := (anw_windows h)(w \<mapsto> a\<lparr> refCount := n \<rparr>) \<rparr>)" (is "anw_ok ?h")
proof -
  have "named ?h v k b \<longleftrightarrow> named h v k b" for v k b using assms(2) by (auto simp: named_def)
  moreover have "anw_windows ?h v = Some c \<Longrightarrow> window_ok v c" for v c
    using anw_okD(1) [OF assms(1)] assms(2) by (auto simp: window_ok_def split: if_splits)
  ultimately show ?thesis using assms(1) unfolding anw_ok_def by simp
qed

lemma wrap_ok:
  assumes "anw_ok h" "mem = 0 \<or> anw_windows h mem = None"
  shows "anw_ok (snd (oh_anw_wrap oh mem h))"
proof (cases "oh = 0 \<or> mem = 0")
  case True
  then show ?thesis using assms(1) by (auto simp: oh_anw_wrap_def)
next
  case False
  let ?a = "\<lparr> anw_oh = oh, anw_magic = kAdapterAnwMagic, refCount = 1, bufCache = [] \<rparr>"
  let ?h = "h\<lparr> anw_windows := (anw_windows h)(mem \<mapsto> ?a) \<rparr>"
  have "named ?h v k b \<longleftrightarrow> named h v k b" for v k b using assms(2) False by (auto simp: named_def)
  moreover have "anw_windows ?h v = Some c \<Longrightarrow> window_ok v c" for v c
    using anw_okD(1) [OF assms(1)] False by (auto simp: window_ok_def split: if_splits)
  ultimately have "anw_ok ?h" using assms(1) unfolding anw_ok_def by simp
  then show ?thesis using False by (simp add: oh_anw_wrap_def)
qed

lemma wrap_buffer_ok:
  assumes "anw_ok h" "anw_windows h w = Some a" "mem \<noteq> 0" "anw_buffers h mem = None"
  shows "anw_ok (snd (wrap_oh_buffer w a k mem h))"
proof (cases "k = 0 \<or> map_of (bufCache a) k \<noteq> None")
  case True
  then show ?thesis using assms(1) by (auto simp: wrap_oh_buffer_def)
next
  case False
  let ?a = "a\<lparr> bufCache := (k, mem) # bufCache a \<rparr>"
  let ?h = "h\<lparr> anw_buffers := (anw_buffers h)(mem \<mapsto> wrapper k), anw_windows := (anw_windows h)(w \<mapsto> ?a) \<rparr>"
  have n: "named ?h v j b \<longleftrightarrow> named h v j b \<or> (v = w \<and> j = k \<and> b = mem)" for v j b
    using assms(2) by (auto simp: named_def)
  have m: "\<not> named h v j mem" for v j using anw_okD(2) [OF assms(1)] assms(4) by fastforce
  have a: "window_ok w ?a"
    using anw_okD(1) [OF assms(1,2)] False m [of w] assms(2)
    by (force simp: window_ok_def map_of_eq_None_iff named_def)
  have "anw_windows ?h v = Some c \<Longrightarrow> window_ok v c" for v c
    using a anw_okD(1) [OF assms(1)] by (auto split: if_splits)
  moreover have "named ?h v j b \<Longrightarrow> j \<noteq> 0 \<and> b \<noteq> 0 \<and> anw_buffers ?h b = Some (wrapper j)" for v j b
    using n [of v j b] m [of v j] anw_okD(2) [OF assms(1), of v j b] assms(3) False by (cases "b = mem") auto
  moreover have "named ?h v j b \<Longrightarrow> named ?h v' j' b \<Longrightarrow> v = v'" for v v' j j' b
    using n [of v j b] n [of v' j' b] m [of v j] m [of v' j'] anw_okD(3) [OF assms(1), of v j b v' j'] by auto
  moreover have "anw_buffers ?h b \<noteq> None \<Longrightarrow> \<exists>v j. named ?h v j b" for b
    using n anw_okD(4) [OF assms(1), of b] by (cases "b = mem") auto
  ultimately have "anw_ok ?h" unfolding anw_ok_def by blast
  then show ?thesis using False by (auto simp: wrap_oh_buffer_def wrapper_def)
qed

lemma traced_ok [simp]: "anw_ok (traced c h) = anw_ok h"
  by (rule same_objects_ok) simp

lemma anw_dequeue_ok:
  assumes "anw_ok h" "mem \<noteq> 0" "anw_buffers h mem = None" "aanw_dequeueBuffer E w mem h = Some (r, h')"
  shows "anw_ok h'"
proof -
  obtain o' where o': "as_adapter h w = Some o'" using assms(4) by (cases "as_adapter h w") (auto simp: aanw_dequeueBuffer_def)
  show ?thesis
  proof (cases o')
    case None
    then show ?thesis using assms o' by (simp add: aanw_dequeueBuffer_def)
  next
    case (Some a)
    obtain rc k f where q: "requestResult E = (rc, k, f)" by (cases "requestResult E") auto
    let ?t = "traced (RequestBuffer (anw_oh a)) h"
    have "anw_ok ?t" "anw_windows ?t w = Some a" "anw_buffers ?t mem = None"
      using assms o' Some as_adapter_live [OF assms(1), of w a] same_objects_traced(1) [of h "RequestBuffer (anw_oh a)"]
      by (simp_all add: same_objects_def)
    then have "anw_ok (snd (wrap_oh_buffer w a k mem ?t))" by (intro wrap_buffer_ok assms(2))
    then show ?thesis using assms(1,4) o' Some q
      by (auto simp: aanw_dequeueBuffer_def Let_def split: if_splits prod.splits)
  qed
qed

lemma dequeue_old_ok:
  assumes "anw_ok h" "mem \<noteq> 0" "anw_buffers h mem = None" "aanw_dequeueBuffer_DEPRECATED E w mem h = Some (r, h')"
  shows "anw_ok h'"
  using assms(4) anw_dequeue_ok [OF assms(1-3), of E w]
  by (auto simp: aanw_dequeueBuffer_DEPRECATED_def split: bind_splits option.splits if_splits prod.splits)

lemma adapter_cases:
  assumes "anw_ok h"
  obtains "as_adapter h w = None" "anw_windows h w = None" "w \<noteq> 0"
  | "as_adapter h w = Some None" "anw_windows h w = None" "w = 0"
  | a where "as_adapter h w = Some (Some a)" "anw_windows h w = Some a"
proof (cases "anw_windows h w")
  case None
  then show ?thesis using that by (cases "w = 0") (simp_all add: as_adapter_def)
next
  case (Some a)
  then show ?thesis using that(3) as_adapter_live [OF assms] by blast
qed

lemma destroy_other:
  "as_adapter h w = None \<Longrightarrow> oh_anw_destroy w h = None" "as_adapter h w = Some None \<Longrightarrow> oh_anw_destroy w h = Some h"
  by (simp_all add: oh_anw_destroy_def)

lemma decRef_live:
  assumes "anw_ok h" "anw_windows h w = Some a"
  shows "anw_base_decRef w h = (if sint (refCount a) \<le> 1 then oh_anw_destroy w h
     else Some (h\<lparr> anw_windows := (anw_windows h)(w \<mapsto> a\<lparr> refCount := refCount a - 1 \<rparr>) \<rparr>))"
proof -
  let ?h = "h\<lparr> anw_windows := (anw_windows h)(w \<mapsto> a\<lparr> refCount := refCount a - 1 \<rparr>) \<rparr>"
  have "anw_ok ?h" by (rule count_ok [OF assms])
  then have "oh_anw_destroy w ?h = oh_anw_destroy w h"
    using destroy_live [of ?h w] destroy_live [OF assms] by (simp cong: if_cong)
  then show ?thesis
    using as_adapter_live [OF assms(1), of w a] assms(2) by (simp add: anw_base_decRef_def Let_def)
qed

lemma anw_do_ok:
  assumes "anw_ok h" "possible h x" "anw_do x h = Some h'"
  shows "anw_ok h'"
proof (cases "no_object_change x")
  case True
  then show ?thesis using no_object_change_same [of x h h'] same_objects_ok assms by blast
next
  case False
  then show ?thesis
  proof (cases x)
    case (Wrap oh mem)
    then show ?thesis using assms wrap_ok by auto
  next
    case (Destroy w)
    show ?thesis
    proof (cases rule: adapter_cases [OF assms(1), of w])
      case (3 a)
      then show ?thesis using assms Destroy anw_destroy_ok [OF assms(1) 3(2)] by (simp add: destroy_live)
    qed (use assms Destroy in \<open>auto simp: destroy_other\<close>)
  next
    case (IncRef w)
    show ?thesis using assms IncRef
      by (cases rule: adapter_cases [OF assms(1), of w]) (auto simp: anw_base_incRef_def intro: count_ok)
  next
    case (DecRef w)
    show ?thesis
    proof (cases rule: adapter_cases [OF assms(1), of w])
      case (3 a)
      then show ?thesis using assms DecRef anw_destroy_ok [OF assms(1) 3(2)] count_ok [OF assms(1) 3(2)]
        by (auto simp: decRef_live destroy_live split: if_splits)
    qed (use assms DecRef in \<open>auto simp: anw_base_decRef_def\<close>)
  next
    case (Dequeue E w mem)
    then show ?thesis using assms anw_dequeue_ok [of h mem E w] by auto
  next
    case (DequeueOld E w mem)
    then show ?thesis using assms dequeue_old_ok [of h mem E w] by auto
  qed simp_all
qed

section \<open>Lifetimes\<close>

text \<open>The abstract view: the live windows with their OpenHarmony window and reference count.\<close>

type_synonym handle_table = "addr \<Rightarrow> (addr \<times> u32) option"

definition handles :: "anw_heap \<Rightarrow> handle_table" where
  "handles h = (\<lambda>w. map_option (\<lambda>a. (anw_oh a, refCount a)) (anw_windows h w))"

fun table_step :: "handle_table \<Rightarrow> anw_call \<Rightarrow> handle_table" where
  "table_step T (Wrap oh mem) = (if oh \<noteq> 0 \<and> mem \<noteq> 0 \<and> T mem = None then T(mem \<mapsto> (oh, 1)) else T)"
| "table_step T (Destroy w) = T(w := None)"
| "table_step T (IncRef w) = (case T w of None \<Rightarrow> T | Some (oh, n) \<Rightarrow> T(w \<mapsto> (oh, n + 1)))"
| "table_step T (DecRef w) = (case T w of None \<Rightarrow> T
     | Some (oh, n) \<Rightarrow> if sint n \<le> 1 then T(w := None) else T(w \<mapsto> (oh, n - 1)))"
| "table_step T _ = T"

lemma handles_same: "same_objects h h' \<Longrightarrow> handles h' = handles h"
  by (simp add: same_objects_def handles_def)

lemma handles_upd:
  "handles (h\<lparr> anw_windows := (anw_windows h)(w := v) \<rparr>) = (handles h)(w := map_option (\<lambda>a. (anw_oh a, refCount a)) v)"
  "handles (h\<lparr> anw_windows := W, anw_buffers := B \<rparr>) = handles (h\<lparr> anw_windows := W \<rparr>)"
  "handles (h\<lparr> anw_buffers := B, anw_windows := W \<rparr>) = handles (h\<lparr> anw_windows := W \<rparr>)"
  by (auto simp: handles_def)

lemma handles_id: "handles h w = v \<Longrightarrow> (handles h)(w := v) = handles h"
  by auto

lemma wrap_buffer_handles:
  assumes "anw_windows h w = Some a"
  shows "handles (snd (wrap_oh_buffer w a k mem h)) = handles h"
  using assms by (auto simp: wrap_oh_buffer_def handles_def split: option.split)

lemma dequeue_handles:
  assumes "anw_ok h" "aanw_dequeueBuffer E w mem h = Some (r, h')"
  shows "handles h' = handles h"
proof (cases rule: adapter_cases [OF assms(1), of w])
  case (3 a)
  let ?t = "traced (RequestBuffer (anw_oh a)) h"
  have "anw_windows ?t w = Some a" "handles ?t = handles h"
    using 3(2) same_objects_traced(1) [of h "RequestBuffer (anw_oh a)"] handles_same [of h ?t]
    by (simp_all add: same_objects_def)
  moreover obtain rc k f where "requestResult E = (rc, k, f)" by (cases "requestResult E") auto
  ultimately show ?thesis using assms(2) 3(1) wrap_buffer_handles [of ?t w a k mem]
    by (cases "wrap_oh_buffer w a k mem ?t") (auto simp: aanw_dequeueBuffer_def Let_def split: if_splits)
qed (use assms in \<open>auto simp: aanw_dequeueBuffer_def\<close>)

lemma dequeue_old_handles:
  assumes "anw_ok h" "aanw_dequeueBuffer_DEPRECATED E w mem h = Some (r, h')"
  shows "handles h' = handles h"
  using assms(2) dequeue_handles [OF assms(1), of E w mem] handles_same [OF same_objects_traced(1)]
  by (auto simp: aanw_dequeueBuffer_DEPRECATED_def split: bind_splits option.splits if_splits prod.splits)

lemma anw_sim:
  assumes "anw_ok h"
  shows "handles (anw_step h x) = table_step (handles h) x"
proof (cases "no_object_change x")
  case True
  then show ?thesis using no_object_change_same [of x h] handles_same
    by (cases x) (auto simp: anw_step_def split: option.split)
next
  case False
  then show ?thesis
  proof (cases x)
    case (Wrap oh mem)
    then show ?thesis by (auto simp: anw_step_def oh_anw_wrap_def handles_upd handles_def)
  next
    case (Destroy w)
    show ?thesis
    proof (cases rule: adapter_cases [OF assms, of w])
      case (3 a)
      then show ?thesis using Destroy assms by (simp add: anw_step_def destroy_live handles_upd)
    qed (use Destroy in \<open>auto simp: anw_step_def destroy_other handles_def\<close>)
  next
    case (IncRef w)
    show ?thesis
      by (cases rule: adapter_cases [OF assms, of w])
        (use IncRef in \<open>auto simp: anw_step_def anw_base_incRef_def handles_upd handles_def [of h] simp del: fun_upd_apply\<close>)
  next
    case (DecRef w)
    show ?thesis
    proof (cases rule: adapter_cases [OF assms, of w])
      case (3 a)
      have "handles h w = Some (anw_oh a, refCount a)" using 3(2) by (simp add: handles_def)
      then show ?thesis using DecRef 3 assms by (simp add: anw_step_def decRef_live destroy_live handles_upd)
    qed (use DecRef in \<open>auto simp: anw_step_def anw_base_decRef_def handles_def [of h]\<close>)
  next
    case (Dequeue E w mem)
    then show ?thesis using dequeue_handles [OF assms, of E w mem] by (auto simp: anw_step_def split: option.split)
  next
    case (DequeueOld E w mem)
    then show ?thesis using dequeue_old_handles [OF assms, of E w mem] by (auto simp: anw_step_def split: option.split)
  qed simp_all
qed

interpretation anw: simulated_machine anw_step anw_ok handles table_step
proof
  show "anw_ok (anw_step h x)" if "anw_ok h" for h x
    using anw_do_ok [OF that] that by (auto simp: anw_step_def split: option.split)
  show "handles (anw_step h x) = table_step (handles h) x" if "anw_ok h" for h x
    by (rule anw_sim [OF that])
qed

text \<open>
  C12 (anw_lifetimes): after any history of possible calls without undefined behaviour, exactly
  those windows are live, with those reference counts, that a plain reference-counted table has
  after the same calls; the heap is well formed (every wrapper belongs to one window and to one
  OpenHarmony buffer), and when no window is left no wrapper is left either.
\<close>

theorem anw_lifetimes:
  assumes "run_anw xs empty_heap = Some h"
  shows "anw_ok h \<and> handles h = foldl table_step Map.empty xs
    \<and> (handles h = Map.empty \<longrightarrow> anw_buffers h = Map.empty)"
proof -
  have h: "h = foldl anw_step empty_heap xs" by (rule run_anw_foldl [OF assms])
  have ok: "anw_ok h" unfolding h by (rule anw.run_inv [OF anw_ok_empty])
  have "handles empty_heap = Map.empty" by (simp add: handles_def empty_heap_def)
  then have "handles h = foldl table_step Map.empty xs" unfolding h using anw.run_sim [OF anw_ok_empty, of xs] by simp
  moreover have "anw_buffers h = Map.empty" if "handles h = Map.empty"
  proof -
    have "anw_windows h w = None" for w using fun_cong [OF that, of w] by (simp add: handles_def)
    then have "anw_buffers h b = None" for b using anw_okD(4) [OF ok, of b] by (metis named_def option.distinct(1))
    then show ?thesis by (simp add: fun_eq_iff)
  qed
  ultimately show ?thesis using ok by blast
qed

section \<open>Identity of buffers\<close>

lemma named_same: "same_objects h h' \<Longrightarrow> named h' w k b = named h w k b"
  by (simp add: named_def same_objects_def)

lemma dequeue_names:
  assumes "anw_ok h" "aanw_dequeueBuffer E w' mem h = Some (r, h')" "named h w k b"
  shows "named h' w k b"
proof (cases rule: adapter_cases [OF assms(1), of w'])
  case (3 a)
  let ?t = "traced (RequestBuffer (anw_oh a)) h"
  obtain rc j f where q: "requestResult E = (rc, j, f)" by (cases "requestResult E") auto
  have t: "anw_windows ?t w' = Some a" "named ?t w k b"
    using 3(2) assms(3) same_objects_traced(1) [of h "RequestBuffer (anw_oh a)"] named_same [of h ?t]
    by (simp_all add: same_objects_def)
  then have "named (snd (wrap_oh_buffer w' a j mem ?t)) w k b"
    by (auto simp: wrap_oh_buffer_def named_def split: option.split)
  then show ?thesis using assms(2) 3(1) q t
    by (cases "wrap_oh_buffer w' a j mem ?t") (auto simp: aanw_dequeueBuffer_def Let_def split: if_splits)
qed (use assms in \<open>auto simp: aanw_dequeueBuffer_def\<close>)

lemma dequeue_old_names:
  assumes "anw_ok h" "aanw_dequeueBuffer_DEPRECATED E w' mem h = Some (r, h')" "named h w k b"
  shows "named h' w k b"
  using assms(2) dequeue_names [OF assms(1) _ assms(3), of E w' mem] named_same [OF same_objects_traced(1), of _ _ w k b]
  by (auto simp: aanw_dequeueBuffer_DEPRECATED_def split: bind_splits option.splits if_splits prod.splits)

text \<open>As long as its window lives, a wrapper keeps its meaning.\<close>

lemma names_kept:
  assumes "anw_ok h" "possible h x" "anw_do x h = Some h'" "anw_windows h' w \<noteq> None" "named h w k b"
  shows "named h' w k b"
proof (cases "no_object_change x")
  case True
  then show ?thesis using no_object_change_same [of x h h'] named_same [of h h'] assms by simp
next
  case False
  have live: "anw_windows h w \<noteq> None" using assms(5) by (auto simp: named_def)
  show ?thesis
  proof (cases x)
    case (Wrap oh mem)
    then show ?thesis using assms live by (auto simp: oh_anw_wrap_def named_def split: if_splits)
  next
    case (Destroy v)
    show ?thesis
    proof (cases rule: adapter_cases [OF assms(1), of v])
      case (3 a)
      then show ?thesis using assms Destroy by (auto simp: destroy_live named_def split: if_splits)
    qed (use assms Destroy in \<open>auto simp: destroy_other\<close>)
  next
    case (IncRef v)
    show ?thesis
    proof (cases rule: adapter_cases [OF assms(1), of v])
      case (3 a)
      then show ?thesis using assms IncRef by (auto simp: anw_base_incRef_def named_def split: if_splits)
    qed (use assms IncRef in \<open>auto simp: anw_base_incRef_def\<close>)
  next
    case (DecRef v)
    show ?thesis
    proof (cases rule: adapter_cases [OF assms(1), of v])
      case (3 a)
      then show ?thesis using assms DecRef by (auto simp: decRef_live destroy_live named_def split: if_splits)
    qed (use assms DecRef in \<open>auto simp: anw_base_decRef_def\<close>)
  next
    case (Dequeue E v mem)
    then show ?thesis using assms dequeue_names [of h E v mem] by auto
  next
    case (DequeueOld E v mem)
    then show ?thesis using assms dequeue_old_names [of h E v mem] by auto
  qed (use False in simp_all)
qed

fun stays :: "addr \<Rightarrow> anw_call list \<Rightarrow> anw_heap \<Rightarrow> bool" where
  "stays w [] h \<longleftrightarrow> True"
| "stays w (x # xs) h \<longleftrightarrow> (case anw_do x h of None \<Rightarrow> False | Some h' \<Rightarrow> anw_windows h' w \<noteq> None \<and> stays w xs h')"

lemma run_names_kept:
  "anw_ok h \<Longrightarrow> run_anw ys h = Some h' \<Longrightarrow> stays w ys h \<Longrightarrow> named h w k b \<Longrightarrow> anw_ok h' \<and> named h' w k b"
proof (induction ys arbitrary: h)
  case (Cons x ys)
  then obtain h1 where "possible h x" "anw_do x h = Some h1" "run_anw ys h1 = Some h'"
    by (auto split: if_splits bind_splits)
  then show ?case using Cons names_kept [of h x h1 w k b] anw_do_ok [of h x h1] by simp
qed simp

text \<open>A dequeue names the buffer it returns, and the name determines the answers to later calls.\<close>

lemma dequeue_result:
  assumes "anw_ok h" "anw_windows h w = Some a" "requestResult E = (0, k, f)" "k \<noteq> 0" "mem \<noteq> 0" "anw_buffers h mem = None"
  shows "\<exists>b h'. aanw_dequeueBuffer E w mem h = Some ((0, Some (b, f)), h') \<and> named h' w k b \<and> (\<forall>c. named h w k c \<longrightarrow> b = c)
    \<and> (\<forall>j c. named h w j c \<longrightarrow> j \<noteq> k \<longrightarrow> b \<noteq> c)"
proof -
  let ?t = "traced (RequestBuffer (anw_oh a)) h"
  have t: "anw_windows ?t = anw_windows h" "anw_buffers ?t = anw_buffers h" by (simp_all add: traced_def)
  have r: "as_adapter h w = Some (Some a)" using as_adapter_live [OF assms(1)] assms(2) by simp
  have d: "distinct (map fst (bufCache a))" using anw_okD(1) [OF assms(1,2)] by (simp add: window_ok_def)
  note n = anw_okD(2) [OF assms(1), of w]
  show ?thesis
  proof (cases "map_of (bufCache a) k")
    case None
    then have "\<not> named h w k c" for c using assms(2) map_of_eq_None_iff [of "bufCache a" k] by (force simp: named_def)
    moreover have "\<not> named h w j mem" for j using n assms(6) by fastforce
    ultimately show ?thesis using None assms r t
      by (auto simp: aanw_dequeueBuffer_def Let_def wrap_oh_buffer_def named_def)
  next
    case (Some b)
    then have kb: "(k, b) \<in> set (bufCache a)" by (rule map_of_SomeD)
    then have nb: "named h w k b" using assms(2) by (simp add: named_def)
    have "c = b" if "named h w k c" for c using that assms(2) eq_key_imp_eq_value [OF d kb] by (simp add: named_def)
    moreover have "j = k" if "named h w j b" for j using n [of j b] n [OF nb] that by (simp add: wrapper_def)
    moreover have "named ?t w k b" using nb by (simp add: named_def t)
    moreover have "aanw_dequeueBuffer E w mem h = Some ((0, Some (b, f)), ?t)"
      using Some assms(3,4) r n [OF nb] by (simp add: aanw_dequeueBuffer_def Let_def wrap_oh_buffer_def)
    ultimately show ?thesis by blast
  qed
qed

text \<open>A window does not ask whether a buffer is its own.\<close>

lemma queue_named:
  assumes "anw_ok h" "anw_windows h w = Some a" "named h v k b"
  shows "aanw_queueBuffer E w b g h = Some (if flushResult E \<noteq> 0 then - EIO else 0, traced (FlushBuffer (anw_oh a) k g) h)"
    and "aanw_cancelBuffer E w b g h = Some (abortResult E, traced (AbortBuffer (anw_oh a) k) h)"
  using as_adapter_live [OF assms(1), of w a] assms(2) anw_okD(2) [OF assms(1,3)]
  by (simp_all add: aanw_queueBuffer_def aanw_cancelBuffer_def unwrap_aosp_buffer_def as_adapter_buf_def wrapper_def)

lemma dequeue_success:
  assumes "anw_ok h" "aanw_dequeueBuffer E w mem h = Some ((0, Some r), h')"
  shows "\<exists>a k f. anw_windows h w = Some a \<and> requestResult E = (0, k, f) \<and> k \<noteq> 0"
proof (cases rule: adapter_cases [OF assms(1), of w])
  case (3 a)
  obtain rc k f where "requestResult E = (rc, k, f)" by (cases "requestResult E") auto
  then show ?thesis using assms(2) 3
    by (auto simp: aanw_dequeueBuffer_def Let_def wrap_oh_buffer_def EIO_def ENOMEM_def split: if_splits)
qed (use assms(2) in \<open>simp_all add: aanw_dequeueBuffer_def\<close>)

text \<open>
  Fact (anw_buffer_identity): the buffer pointer that a dequeue returns stands for the requested
  OpenHarmony buffer as long as its window lives: queueing and cancelling it later reaches exactly
  that buffer, and a later dequeue returns the same pointer exactly for the same buffer.
\<close>

theorem anw_buffer_identity:
  assumes "run_anw xs empty_heap = Some h" "possible h (Dequeue E w mem)"
    and "aanw_dequeueBuffer E w mem h = Some ((0, Some (b, f)), h1)"
    and "run_anw ys h1 = Some h2" "stays w ys h1" "anw_windows h2 w = Some a"
  shows "aanw_queueBuffer E' w b g h2 = Some (if flushResult E' \<noteq> 0 then - EIO else 0,
        traced (FlushBuffer (anw_oh a) (fst (snd (requestResult E))) g) h2)
    \<and> aanw_cancelBuffer E' w b g h2 = Some (abortResult E', traced (AbortBuffer (anw_oh a) (fst (snd (requestResult E)))) h2)
    \<and> (possible h2 (Dequeue E' w mem') \<and> requestResult E' = (0, k', f') \<and> k' \<noteq> 0 \<longrightarrow>
        (\<exists>b' h3. aanw_dequeueBuffer E' w mem' h2 = Some ((0, Some (b', f')), h3)
          \<and> (b' = b \<longleftrightarrow> k' = fst (snd (requestResult E)))))"
proof -
  have ok: "anw_ok h" using run_anw_foldl [OF assms(1)] anw.run_inv [OF anw_ok_empty] by simp
  obtain a0 k f0 where e: "anw_windows h w = Some a0" "requestResult E = (0, k, f0)" "k \<noteq> 0"
    using dequeue_success [OF ok assms(3)] by blast
  have k: "fst (snd (requestResult E)) = k" using e(2) by simp
  have "named h1 w k b" using dequeue_result [OF ok e, of mem] assms(2,3) by auto
  moreover have "anw_ok h1" using anw_dequeue_ok [OF ok _ _ assms(3)] assms(2) by simp
  ultimately have n: "anw_ok h2" "named h2 w k b" using run_names_kept [OF _ assms(4,5)] by blast+
  have again: "\<exists>b' h3. aanw_dequeueBuffer E' w mem' h2 = Some ((0, Some (b', f')), h3) \<and> (b' = b \<longleftrightarrow> k' = k)"
    if "possible h2 (Dequeue E' w mem')" "requestResult E' = (0, k', f')" "k' \<noteq> 0"
    using dequeue_result [OF n(1) assms(6) that(2,3), of mem'] n(2) that(1) by auto
  show ?thesis unfolding k using queue_named [OF n(1) assms(6) n(2)] again by blast
qed

section \<open>Witnesses\<close>

definition demo_ndk :: "addr \<Rightarrow> ndk" where
  "demo_ndk k = \<lparr> requestResult = (0, k, 5), flushResult = 0, abortResult = 0, optResult = (\<lambda>c ap. 0),
     geometry = (1280, 720), pixelFormat = 12 \<rparr>"

lemmas anw_eval = oh_anw_wrap_def aanw_dequeueBuffer_def aanw_queueBuffer_def wrap_oh_buffer_def as_adapter_def
  unwrap_aosp_buffer_def as_adapter_buf_def anw_base_incRef_def anw_base_decRef_def oh_anw_destroy_def traced_def
  empty_heap_def demo_ndk_def kAdapterAnwMagic_def kAdapterAnwBufMagic_def Let_def

definition demo_history :: "anw_call list" where
  "demo_history = [Wrap 3 100, Dequeue (demo_ndk 7) 100 200, IncRef 100, Queue (demo_ndk 7) 100 200 5, DecRef 100, DecRef 100]"

lemma demo_run:
  "run_anw demo_history empty_heap = Some \<lparr> anw_windows = Map.empty, anw_buffers = Map.empty,
     ndk_trace = [RequestBuffer 3, FlushBuffer 3 7 5] \<rparr>"
  by (simp add: demo_history_def anw_eval fun_eq_iff)

theorem anw_lifetimes_witness:
  "anw_ok \<lparr> anw_windows = Map.empty, anw_buffers = Map.empty, ndk_trace = [RequestBuffer 3, FlushBuffer 3 7 5] \<rparr>
   \<and> foldl table_step Map.empty demo_history = Map.empty"
  using anw_lifetimes [OF demo_run] by (simp add: handles_def)

definition demo_heap :: anw_heap where
  "demo_heap = snd (oh_anw_wrap 3 100 empty_heap)"

theorem anw_buffer_identity_witness:
  "\<exists>h1. aanw_dequeueBuffer (demo_ndk 7) 100 200 demo_heap = Some ((0, Some (200, 5)), h1)
    \<and> aanw_queueBuffer (demo_ndk 8) 100 200 9 h1 = Some (0, traced (FlushBuffer 3 7 9) h1)
    \<and> (\<exists>b' h3. aanw_dequeueBuffer (demo_ndk 8) 100 300 h1 = Some ((0, Some (b', 5)), h3) \<and> b' \<noteq> 200)"
proof -
  have r: "run_anw [Wrap 3 100] empty_heap = Some demo_heap" by (simp add: demo_heap_def empty_heap_def)
  obtain h1 where d: "aanw_dequeueBuffer (demo_ndk 7) 100 200 demo_heap = Some ((0, Some (200, 5)), h1)"
    "anw_windows h1 100 = Some \<lparr> anw_oh = 3, anw_magic = kAdapterAnwMagic, refCount = 1, bufCache = [(7, 200)] \<rparr>"
    "anw_buffers h1 300 = None"
    by (simp add: demo_heap_def anw_eval)
  have p: "possible demo_heap (Dequeue (demo_ndk 7) 100 200)" by (simp add: demo_heap_def oh_anw_wrap_def empty_heap_def)
  show ?thesis
    using d anw_buffer_identity [OF r p d(1), of "[]" h1 _ "demo_ndk 8" 9 300 8 5] by (simp add: demo_ndk_def)
qed

end
