(* ===== verification/DisplayVsync.thy ===== *)
theory DisplayVsync
  imports Prelude
begin

text \<open>
  Frame callbacks: \<open>android-runtime/src/android_view_DisplayEventReceiver.cpp\<close>. Several threads share the
  flag \<open>scheduled\<close> of a receiver: the Java thread that asks for a frame, the vsync thread of OpenHarmony
  that delivers it, a fallback thread for processes without vsync, and a watchdog that delivers frames the
  system does not. Every access to shared state is a step of its own, so the model has the interleavings of
  the code. A receiver is used by one Java thread. The code never frees a receiver. What OpenHarmony and the
  virtual machine answer is part of the actions; \<open>None\<close> is an action that cannot happen.
\<close>

definition kFrameIntervalNs :: int where "kFrameIntervalNs = 16666666"

record DERState =
  weakRefGlobal :: bool
  scheduled :: bool
  destroyed :: bool
  ohVsync :: bool
  frameNumber :: nat

text \<open>Where a call of \<open>nativeScheduleVsync\<close>, a callback and a delivery thread are.\<close>

datatype schedule_pc = Resting | Requesting | Refilling | Undoing
datatype tick_pc = Sleeping | Taken | Inside
datatype delivery_thread = Fallback | Watchdog

text \<open>A call of \<open>dispatchVsync\<close> with the frame time line stored before it.\<close>

record vsync_dispatch =
  d_receiver :: nat
  d_time :: int
  d_frame :: int
  d_vsyncId :: nat
  d_deadline :: int

record vsync_world =
  g_javaVm :: bool
  vsync_api :: "(bool \<times> bool) option" \<comment> \<open>whether create and request were found, once resolved\<close>
  receivers :: "nat \<Rightarrow> DERState option"
  calls :: "nat \<Rightarrow> schedule_pc"
  outstanding :: "nat \<Rightarrow> nat" \<comment> \<open>accepted requests that OpenHarmony may still answer\<close>
  callback :: "nat \<Rightarrow> bool" \<comment> \<open>a callback between its store and its dispatch\<close>
  started :: "delivery_thread \<Rightarrow> bool"
  thread :: "delivery_thread \<Rightarrow> (nat \<times> tick_pc) option"
  won :: "nat \<Rightarrow> nat" \<comment> \<open>number of schedule calls that set the flag\<close>
  dispatched :: "vsync_dispatch list"

definition vsync_init :: vsync_world where
  "vsync_init = \<lparr> g_javaVm = False, vsync_api = None, receivers = Map.empty, calls = (\<lambda>r. Resting),
     outstanding = (\<lambda>r. 0), callback = (\<lambda>r. False), started = (\<lambda>t. False), thread = (\<lambda>t. None),
     won = (\<lambda>r. 0), dispatched = [] \<rparr>"

section \<open>Operations\<close>

text \<open>The first library that opens decides which symbols are there.\<close>

fun first_open :: "('p \<Rightarrow> (bool \<times> bool) option) \<Rightarrow> 'p list \<Rightarrow> bool \<times> bool" where
  "first_open lib [] = (False, False)"
| "first_open lib (p # ps) = (case lib p of Some s \<Rightarrow> s | None \<Rightarrow> first_open lib ps)"

definition vsync_candidates :: "string list" where
  "vsync_candidates = [''libnative_vsync.so'', ''/system/lib/platformsdk/libnative_vsync.so'',
     ''/system/lib64/platformsdk/libnative_vsync.so'']"

definition resolveOhVsyncApi :: "(string \<Rightarrow> (bool \<times> bool) option) \<Rightarrow> vsync_world \<Rightarrow> vsync_world" where
  "resolveOhVsyncApi lib w = (case vsync_api w of
       None \<Rightarrow> w\<lparr> vsync_api := Some (first_open lib vsync_candidates) \<rparr>
     | Some s \<Rightarrow> w)"

definition has_create :: "vsync_world \<Rightarrow> bool" where
  "has_create w \<longleftrightarrow> (case vsync_api w of None \<Rightarrow> False | Some (c, q) \<Rightarrow> c)"

definition has_request :: "vsync_world \<Rightarrow> bool" where
  "has_request w \<longleftrightarrow> (case vsync_api w of None \<Rightarrow> False | Some (c, q) \<Rightarrow> q)"

definition set_scheduled :: "bool \<Rightarrow> nat \<Rightarrow> vsync_world \<Rightarrow> vsync_world" where
  "set_scheduled v r w = (case receivers w r of None \<Rightarrow> w
     | Some s \<Rightarrow> w\<lparr> receivers := (receivers w)(r \<mapsto> s\<lparr> scheduled := v \<rparr>) \<rparr>)"

definition DER_nativeInit ::
  "bool \<Rightarrow> (string \<Rightarrow> (bool \<times> bool) option) \<Rightarrow> bool \<Rightarrow> bool \<Rightarrow> nat \<Rightarrow> vsync_world \<Rightarrow> vsync_world option" where
  "DER_nativeInit vmOk lib weak created r w = (if receivers w r \<noteq> None then None
     else let w = (if g_javaVm w then w else w\<lparr> g_javaVm := vmOk \<rparr>);
              w = resolveOhVsyncApi lib w
       in Some (w\<lparr> receivers := (receivers w)(r \<mapsto> \<lparr> weakRefGlobal = weak, scheduled = False, destroyed = False,
            ohVsync = has_create w \<and> created, frameNumber = 0 \<rparr>) \<rparr>))"

text \<open>The first part of \<open>nativeScheduleVsync\<close>: the guards and the exchange on the flag.\<close>

definition schedule_begin :: "nat \<Rightarrow> vsync_world \<Rightarrow> vsync_world option" where
  "schedule_begin r w = (case receivers w r of None \<Rightarrow> None
     | Some s \<Rightarrow> if calls w r \<noteq> Resting then None
         else if destroyed s then Some w
         else if scheduled s then Some w
         else Some ((set_scheduled True r w)\<lparr> calls := (calls w)(r := Requesting), won := (won w)(r := won w r + 1) \<rparr>))"

text \<open>A thread is started once per process, for the receiver at hand; it ends at once when it cannot attach.\<close>

definition start_thread :: "bool \<Rightarrow> delivery_thread \<Rightarrow> nat \<Rightarrow> vsync_world \<Rightarrow> vsync_world" where
  "start_thread attached t r w = (if started w t then w
     else w\<lparr> started := (started w)(t := True),
         thread := (thread w)(t := if g_javaVm w \<and> attached then Some (r, Sleeping) else None) \<rparr>)"

text \<open>The second part: the fallback, or the request with its return code and the watchdog.\<close>

definition schedule_request :: "bool \<Rightarrow> int \<Rightarrow> nat \<Rightarrow> vsync_world \<Rightarrow> vsync_world option" where
  "schedule_request attached rc r w = (case receivers w r of None \<Rightarrow> None
     | Some s \<Rightarrow> if calls w r \<noteq> Requesting then None
         else if \<not> ohVsync s \<or> \<not> has_request w
           then Some ((start_thread attached Fallback r w)\<lparr> calls := (calls w)(r := Refilling) \<rparr>)
         else let w = (if rc = 0 then w\<lparr> outstanding := (outstanding w)(r := outstanding w r + 1) \<rparr> else w);
                  w = start_thread attached Watchdog r w
           in Some (w\<lparr> calls := (calls w)(r := if rc \<noteq> 0 then Undoing else Resting) \<rparr>))"

definition schedule_end :: "nat \<Rightarrow> vsync_world \<Rightarrow> vsync_world option" where
  "schedule_end r w = (case calls w r of
       Refilling \<Rightarrow> Some ((set_scheduled True r w)\<lparr> calls := (calls w)(r := Resting) \<rparr>)
     | Undoing \<Rightarrow> Some ((set_scheduled False r w)\<lparr> calls := (calls w)(r := Resting) \<rparr>)
     | _ \<Rightarrow> None)"

text \<open>
  The two parts of \<open>onOhVsync\<close>. The flag is cleared first; then, when the thread is attached and the Java
  object is still there (\<open>alive\<close>), the frame is dispatched. The first part is \<open>None\<close> when the function
  returns at once.
\<close>

definition onOhVsync_enter :: "nat \<Rightarrow> vsync_world \<Rightarrow> vsync_world option" where
  "onOhVsync_enter r w = (case receivers w r of None \<Rightarrow> None
     | Some s \<Rightarrow> if destroyed s \<or> \<not> g_javaVm w then None else Some (set_scheduled False r w))"

definition onOhVsync_finish :: "bool \<Rightarrow> int \<Rightarrow> nat \<Rightarrow> vsync_world \<Rightarrow> vsync_world" where
  "onOhVsync_finish alive now r w = (case receivers w r of None \<Rightarrow> w
     | Some s \<Rightarrow> if \<not> weakRefGlobal s \<or> \<not> alive then w
         else w\<lparr> receivers := (receivers w)(r \<mapsto> s\<lparr> frameNumber := frameNumber s + 1 \<rparr>),
             dispatched := dispatched w @ [\<lparr> d_receiver = r, d_time = now, d_frame = sint (word_of_nat (frameNumber s) :: u32),
               d_vsyncId = frameNumber s + 1, d_deadline = now + kFrameIntervalNs \<rparr>] \<rparr>)"

definition callback_enter :: "nat \<Rightarrow> vsync_world \<Rightarrow> vsync_world option" where
  "callback_enter r w = (if outstanding w r = 0 \<or> callback w r then None
     else let w = w\<lparr> outstanding := (outstanding w)(r := outstanding w r - 1) \<rparr>
       in case onOhVsync_enter r w of None \<Rightarrow> Some w
         | Some w \<Rightarrow> Some (w\<lparr> callback := (callback w)(r := True) \<rparr>))"

definition callback_finish :: "bool \<Rightarrow> int \<Rightarrow> nat \<Rightarrow> vsync_world \<Rightarrow> vsync_world option" where
  "callback_finish alive now r w = (if \<not> callback w r then None
     else Some ((onOhVsync_finish alive now r w)\<lparr> callback := (callback w)(r := False) \<rparr>))"

text \<open>A request that a later one of the same period replaces is not answered.\<close>

definition request_replaced :: "nat \<Rightarrow> vsync_world \<Rightarrow> vsync_world option" where
  "request_replaced r w = (if outstanding w r = 0 then None
     else Some (w\<lparr> outstanding := (outstanding w)(r := outstanding w r - 1) \<rparr>))"

text \<open>One round of a delivery thread: take the flag, enter \<open>onOhVsync\<close>, dispatch.\<close>

definition thread_round :: "bool \<Rightarrow> int \<Rightarrow> delivery_thread \<Rightarrow> vsync_world \<Rightarrow> vsync_world option" where
  "thread_round alive now t w = (case thread w t of None \<Rightarrow> None
     | Some (r, pc) \<Rightarrow> (case receivers w r of None \<Rightarrow> None
       | Some s \<Rightarrow> (case pc of
           Sleeping \<Rightarrow> if destroyed s then Some (w\<lparr> thread := (thread w)(t := None) \<rparr>)
             else if scheduled s then Some ((set_scheduled False r w)\<lparr> thread := (thread w)(t \<mapsto> (r, Taken)) \<rparr>)
             else Some w
         | Taken \<Rightarrow> (case onOhVsync_enter r w of
               None \<Rightarrow> Some (w\<lparr> thread := (thread w)(t \<mapsto> (r, Sleeping)) \<rparr>)
             | Some w \<Rightarrow> Some (w\<lparr> thread := (thread w)(t \<mapsto> (r, Inside)) \<rparr>))
         | Inside \<Rightarrow> Some ((onOhVsync_finish alive now r w)\<lparr> thread := (thread w)(t \<mapsto> (r, Sleeping)) \<rparr>))))"

text \<open>The data of the latest frame: one time line; \<open>None\<close> when the virtual machine fails.\<close>

record VsyncEventData =
  frameTimelines :: "(int \<times> int \<times> int) list" \<comment> \<open>vsync id, expected presentation time, deadline\<close>
  preferredFrameTimelineIndex :: int
  frameTimelinesLength :: int
  frameInterval :: int

definition DER_nativeGetLatestVsyncEventData :: "bool \<Rightarrow> int \<Rightarrow> VsyncEventData option" where
  "DER_nativeGetLatestVsyncEventData vmOk now = (if \<not> vmOk then None
     else Some \<lparr> frameTimelines = [(1, now + kFrameIntervalNs, now + kFrameIntervalNs)],
       preferredFrameTimelineIndex = 0, frameTimelinesLength = 1, frameInterval = kFrameIntervalNs \<rparr>)"

definition DER_nativeGetDisplayEventReceiverFinalizer :: int where
  "DER_nativeGetDisplayEventReceiverFinalizer = 0"

section \<open>Interleavings\<close>

datatype vsync_action =
    Init bool "string \<Rightarrow> (bool \<times> bool) option" bool bool nat
  | ScheduleBegin nat
  | ScheduleRequest bool int nat
  | ScheduleEnd nat
  | CallbackEnter nat
  | CallbackFinish bool int nat
  | Replaced nat
  | Round bool int delivery_thread

fun vsync_do :: "vsync_action \<Rightarrow> vsync_world \<Rightarrow> vsync_world option" where
  "vsync_do (Init vmOk lib weak created r) w = DER_nativeInit vmOk lib weak created r w"
| "vsync_do (ScheduleBegin r) w = schedule_begin r w"
| "vsync_do (ScheduleRequest attached rc r) w = schedule_request attached rc r w"
| "vsync_do (ScheduleEnd r) w = schedule_end r w"
| "vsync_do (CallbackEnter r) w = callback_enter r w"
| "vsync_do (CallbackFinish alive now r) w = callback_finish alive now r w"
| "vsync_do (Replaced r) w = request_replaced r w"
| "vsync_do (Round alive now t) w = thread_round alive now t w"

inductive vsync_steps :: "vsync_world \<Rightarrow> vsync_action list \<Rightarrow> vsync_world \<Rightarrow> bool" where
  nil: "vsync_steps w [] w"
| snoc: "vsync_steps w as w' \<Longrightarrow> vsync_do a w' = Some w'' \<Longrightarrow> vsync_steps w (as @ [a]) w''"

fun vsync_run :: "vsync_action list \<Rightarrow> vsync_world \<Rightarrow> vsync_world option" where
  "vsync_run [] w = Some w"
| "vsync_run (a # as) w = do { w \<leftarrow> vsync_do a w; vsync_run as w }"

section \<open>Frames per request\<close>

definition frames_of :: "nat \<Rightarrow> vsync_world \<Rightarrow> vsync_dispatch list" where
  "frames_of r w = filter (\<lambda>d. d_receiver d = r) (dispatched w)"

definition flag :: "nat \<Rightarrow> vsync_world \<Rightarrow> nat" where
  "flag r w = (case receivers w r of None \<Rightarrow> 0 | Some s \<Rightarrow> if scheduled s then 1 else 0)"

definition busy :: "delivery_thread \<Rightarrow> nat \<Rightarrow> vsync_world \<Rightarrow> nat" where
  "busy t r w = (case thread w t of None \<Rightarrow> 0 | Some (q, pc) \<Rightarrow> if q = r \<and> pc \<noteq> Sleeping then 1 else 0)"

definition reserve :: "nat \<Rightarrow> vsync_world \<Rightarrow> nat" where
  "reserve r w = (if calls w r = Requesting \<or> calls w r = Refilling then 1 else 0)"

text \<open>
  The frames that a receiver has got or may still get without another request: dispatched, being
  dispatched by a callback or a thread, accepted by OpenHarmony, flagged, or about to be requested.
\<close>

definition potential :: "nat \<Rightarrow> vsync_world \<Rightarrow> nat" where
  "potential r w = length (frames_of r w) + (if callback w r then 1 else 0) + busy Fallback r w + busy Watchdog r w
     + outstanding w r + flag r w + reserve r w"

lemmas potential_defs = potential_def frames_of_def flag_def busy_def reserve_def

lemma set_scheduled_simps [simp]:
  "dispatched (set_scheduled v r w) = dispatched w" "callback (set_scheduled v r w) = callback w"
  "thread (set_scheduled v r w) = thread w" "outstanding (set_scheduled v r w) = outstanding w"
  "calls (set_scheduled v r w) = calls w" "won (set_scheduled v r w) = won w" "started (set_scheduled v r w) = started w"
  "g_javaVm (set_scheduled v r w) = g_javaVm w" "vsync_api (set_scheduled v r w) = vsync_api w"
  "receivers (set_scheduled v r w) = (receivers w)(r := map_option (\<lambda>s. s\<lparr> scheduled := v \<rparr>) (receivers w r))"
  by (auto simp: set_scheduled_def fun_eq_iff split: option.splits)

lemma flag_cong: "receivers w' r = receivers w r \<Longrightarrow> flag r w' = flag r w"
  by (simp add: flag_def)

lemma flag_simps:
  "receivers w r = Some s \<Longrightarrow> flag r w = (if scheduled s then 1 else 0)" "receivers w r = None \<Longrightarrow> flag r w = 0"
  by (simp_all add: flag_def)

lemma flag_set: "flag r (set_scheduled v q w) \<le> (if q = r then (if v then 1 else 0) else flag r w)"
  by (auto simp: flag_def split: option.splits)

text \<open>What a step does to the parts of the potential; the parts that are not mentioned are unchanged.\<close>

lemma potential_same:
  assumes "frames_of r w' = frames_of r w" "callback w' r = callback w r" "busy Fallback r w' \<le> busy Fallback r w"
    "busy Watchdog r w' \<le> busy Watchdog r w"
    "outstanding w' r + flag r w' + reserve r w' \<le> outstanding w r + flag r w + reserve r w + k"
  shows "potential r w' \<le> potential r w + k"
  using assms unfolding potential_def by simp

lemma resolve_simps [simp]:
  "receivers (resolveOhVsyncApi lib w) = receivers w" "dispatched (resolveOhVsyncApi lib w) = dispatched w"
  "callback (resolveOhVsyncApi lib w) = callback w" "thread (resolveOhVsyncApi lib w) = thread w"
  "started (resolveOhVsyncApi lib w) = started w" "outstanding (resolveOhVsyncApi lib w) = outstanding w"
  "calls (resolveOhVsyncApi lib w) = calls w" "won (resolveOhVsyncApi lib w) = won w"
  "g_javaVm (resolveOhVsyncApi lib w) = g_javaVm w"
  by (simp_all add: resolveOhVsyncApi_def split: option.split)

lemma init_effect:
  assumes "DER_nativeInit vmOk lib weak created q w = Some w'"
  shows "receivers w q = None" "dispatched w' = dispatched w" "callback w' = callback w" "thread w' = thread w"
    "started w' = started w" "outstanding w' = outstanding w" "calls w' = calls w" "won w' = won w" "g_javaVm w \<Longrightarrow> g_javaVm w'"
    "\<exists>v. receivers w' = (receivers w)(q \<mapsto> \<lparr> weakRefGlobal = weak, scheduled = False, destroyed = False,
       ohVsync = v, frameNumber = 0 \<rparr>)"
proof -
  let ?v = "if g_javaVm w then w else w\<lparr> g_javaVm := vmOk \<rparr>"
  let ?u = "resolveOhVsyncApi lib ?v"
  have r: "receivers w q = None" using assms by (auto simp: DER_nativeInit_def split: if_splits)
  have w': "w' = ?u\<lparr> receivers := (receivers ?u)(q \<mapsto> \<lparr> weakRefGlobal = weak, scheduled = False, destroyed = False,
      ohVsync = has_create ?u \<and> created, frameNumber = 0 \<rparr>) \<rparr>"
    using assms r by (simp add: DER_nativeInit_def Let_def)
  have u: "receivers ?u = receivers w" by simp
  show "receivers w q = None" "dispatched w' = dispatched w" "callback w' = callback w" "thread w' = thread w"
    "started w' = started w" "outstanding w' = outstanding w" "calls w' = calls w" "won w' = won w" "g_javaVm w \<Longrightarrow> g_javaVm w'"
    by (fact r) (simp_all add: w')
  show "\<exists>v. receivers w' = (receivers w)(q \<mapsto> \<lparr> weakRefGlobal = weak, scheduled = False, destroyed = False,
       ohVsync = v, frameNumber = 0 \<rparr>)"
    by (rule exI [of _ "has_create ?u \<and> created"]) (simp add: w' u)
qed

lemma init_potential:
  assumes "DER_nativeInit vmOk lib weak created q w = Some w'"
  shows "potential r w' \<le> potential r w \<and> won w' r = won w r"
proof -
  have "flag r w' = flag r w" using init_effect(1,10) [OF assms] by (cases "q = r") (auto simp: flag_def)
  then show ?thesis using init_effect(2-8) [OF assms] by (simp add: potential_def frames_of_def busy_def reserve_def)
qed

lemma begin_potential:
  assumes "schedule_begin q w = Some w'"
  shows "potential r w' + 2 * won w r \<le> potential r w + 2 * won w' r"
proof -
  obtain s where s: "receivers w q = Some s" "calls w q = Resting"
    using assms by (auto simp: schedule_begin_def split: option.splits if_splits)
  show ?thesis
  proof (cases "destroyed s \<or> scheduled s")
    case True
    then show ?thesis using assms s by (auto simp: schedule_begin_def split: if_splits)
  next
    case False
    then have w': "w' = (set_scheduled True q w)\<lparr> calls := (calls w)(q := Requesting), won := (won w)(q := won w q + 1) \<rparr>"
      using assms s by (simp add: schedule_begin_def)
    have f: "flag r w' \<le> flag r w + (if q = r then 1 else 0)"
      using flag_set [of r True q w] flag_cong [of w' r "set_scheduled True q w"] w' by (simp split: if_splits)
    have "potential r w' \<le> potential r w + (if q = r then 2 else 0)"
      by (rule potential_same) (use f s in \<open>auto simp: w' frames_of_def busy_def reserve_def\<close>)
    moreover have "won w' r = won w r + (if q = r then 1 else 0)" by (simp add: w')
    ultimately show ?thesis by (simp split: if_splits)
  qed
qed

lemma start_thread_simps [simp]:
  "dispatched (start_thread att t q w) = dispatched w" "callback (start_thread att t q w) = callback w"
  "outstanding (start_thread att t q w) = outstanding w" "calls (start_thread att t q w) = calls w"
  "won (start_thread att t q w) = won w" "receivers (start_thread att t q w) = receivers w"
  "g_javaVm (start_thread att t q w) = g_javaVm w"
  by (simp_all add: start_thread_def)

lemma start_thread_busy: "busy u r (start_thread att t q w) \<le> busy u r w"
  by (auto simp: start_thread_def busy_def)

lemma request_potential:
  assumes "schedule_request attached rc q w = Some w'"
  shows "potential r w' \<le> potential r w \<and> won w' r = won w r"
proof -
  obtain s where s: "receivers w q = Some s" "calls w q = Requesting"
    using assms by (auto simp: schedule_request_def split: option.splits if_splits)
  obtain t n c where w': "w' = (start_thread attached t q (w\<lparr> outstanding := (outstanding w)(q := outstanding w q + n) \<rparr>))\<lparr> calls := (calls w)(q := c) \<rparr>"
    "c = Refilling \<and> n = 0 \<or> c \<noteq> Requesting \<and> c \<noteq> Refilling \<and> n \<le> 1"
  proof (cases "\<not> ohVsync s \<or> \<not> has_request w")
    case True
    then show ?thesis using that [of Refilling Fallback 0] assms s by (simp add: schedule_request_def)
  next
    case False
    then show ?thesis
      using that [of "if rc \<noteq> 0 then Undoing else Resting" Watchdog "if rc = 0 then 1 else 0"] assms s
      by (cases "rc = 0") (simp_all add: schedule_request_def Let_def)
  qed
  have b: "busy u r w' \<le> busy u r w" for u
    using start_thread_busy [of u r attached t q "w\<lparr> outstanding := (outstanding w)(q := outstanding w q + n) \<rparr>"] w'
    by (simp add: busy_def)
  have "potential r w' \<le> potential r w + 0"
    by (rule potential_same) (use b s w'(2) in \<open>auto simp: w'(1) frames_of_def reserve_def flag_def\<close>)
  then show ?thesis by (simp add: w')
qed

lemma end_potential:
  assumes "schedule_end q w = Some w'"
  shows "potential r w' \<le> potential r w \<and> won w' r = won w r"
proof -
  obtain v where w': "w' = (set_scheduled v q w)\<lparr> calls := (calls w)(q := Resting) \<rparr>" "v \<longrightarrow> calls w q = Refilling"
    using assms by (auto simp: schedule_end_def split: schedule_pc.splits)
  have f: "flag r w' \<le> (if q = r then (if v then 1 else 0) else flag r w)"
    using flag_set [of r v q w] flag_cong [of w' r "set_scheduled v q w"] w' by simp
  have "potential r w' \<le> potential r w + 0"
    by (rule potential_same) (use f w'(2) in \<open>auto simp: w'(1) frames_of_def busy_def reserve_def split: if_splits\<close>)
  then show ?thesis by (simp add: w')
qed

lemma finish_effect:
  "receivers (onOhVsync_finish alive now q w) = (receivers w)(q := map_option (\<lambda>s. s\<lparr> frameNumber :=
     (if weakRefGlobal s \<and> alive then frameNumber s + 1 else frameNumber s) \<rparr>) (receivers w q))"
  "callback (onOhVsync_finish alive now q w) = callback w" "thread (onOhVsync_finish alive now q w) = thread w"
  "outstanding (onOhVsync_finish alive now q w) = outstanding w" "calls (onOhVsync_finish alive now q w) = calls w"
  "won (onOhVsync_finish alive now q w) = won w" "started (onOhVsync_finish alive now q w) = started w"
  "g_javaVm (onOhVsync_finish alive now q w) = g_javaVm w"
  by (auto simp: onOhVsync_finish_def fun_eq_iff split: option.splits)

lemma finish_frames:
  "length (frames_of r (onOhVsync_finish alive now q w)) \<le> length (frames_of r w) + (if q = r then 1 else 0)"
  by (auto simp: onOhVsync_finish_def frames_of_def split: option.splits)

lemma finish_flag: "flag r (onOhVsync_finish alive now q w) = flag r w"
  by (auto simp: flag_def finish_effect split: option.splits)

lemma callback_enter_potential:
  assumes "callback_enter q w = Some w'"
  shows "potential r w' \<le> potential r w \<and> won w' r = won w r"
proof -
  let ?o = "w\<lparr> outstanding := (outstanding w)(q := outstanding w q - 1) \<rparr>"
  have o: "outstanding w q > 0" "\<not> callback w q" using assms by (auto simp: callback_enter_def split: if_splits)
  show ?thesis
  proof (cases "onOhVsync_enter q ?o")
    case None
    then have "w' = ?o" using assms o by (simp add: callback_enter_def)
    then show ?thesis using o by (auto simp: potential_def frames_of_def busy_def reserve_def flag_def)
  next
    case (Some v)
    then have v: "v = set_scheduled False q ?o" by (auto simp: onOhVsync_enter_def split: option.splits if_splits)
    have w': "w' = v\<lparr> callback := (callback v)(q := True) \<rparr>" using assms o Some by (simp add: callback_enter_def)
    have f: "flag r w' \<le> flag r w"
      using flag_set [of r False q ?o] flag_cong [of w' r v] flag_cong [of ?o r w] v w' by (simp split: if_splits)
    have p: "frames_of r w' = frames_of r w" "busy u r w' = busy u r w" "reserve r w' = reserve r w" "won w' = won w" for u
      using v w' by (simp_all add: frames_of_def busy_def reserve_def)
    have "(if callback w' r then 1 else 0) + outstanding w' r \<le> (if callback w r then 1 else 0 :: nat) + outstanding w r"
      using o v w' by auto
    then show ?thesis using f p by (simp add: potential_def)
  qed
qed

lemma callback_finish_potential:
  assumes "callback_finish alive now q w = Some w'"
  shows "potential r w' \<le> potential r w \<and> won w' r = won w r"
proof -
  let ?f = "onOhVsync_finish alive now q w"
  have w': "w' = ?f\<lparr> callback := (callback w)(q := False) \<rparr>" "callback w q"
    using assms by (auto simp: callback_finish_def split: if_splits)
  have "frames_of r w' = frames_of r ?f" "flag r w' = flag r w"
    using w'(1) finish_flag [of r alive now q w] by (simp_all add: frames_of_def flag_def)
  then show ?thesis using finish_frames [of r alive now q w] w'
    by (auto simp: potential_def busy_def reserve_def finish_effect split: if_splits)
qed

lemma replaced_potential:
  assumes "request_replaced q w = Some w'"
  shows "potential r w' \<le> potential r w \<and> won w' r = won w r"
  using assms by (auto simp: request_replaced_def potential_defs split: if_splits)

lemma round_potential:
  assumes "thread_round alive now t w = Some w'"
  shows "potential r w' \<le> potential r w \<and> won w' r = won w r"
proof -
  obtain q pc s where q: "thread w t = Some (q, pc)" "receivers w q = Some s"
    using assms by (auto simp: thread_round_def split: option.splits)
  show ?thesis
  proof (cases pc)
    case Sleeping
    then consider "w' = w" | "w' = w\<lparr> thread := (thread w)(t := None) \<rparr>"
      | "scheduled s" "w' = (set_scheduled False q w)\<lparr> thread := (thread w)(t \<mapsto> (q, Taken)) \<rparr>"
      using assms q by (auto simp: thread_round_def split: if_splits)
    then show ?thesis
    proof cases
      case 2
      then have "busy u r w' \<le> busy u r w" for u by (auto simp: busy_def)
      then have "potential r w' \<le> potential r w + 0"
        by (intro potential_same) (use 2 in \<open>simp_all add: frames_of_def flag_def reserve_def\<close>)
      then show ?thesis using 2 by simp
    next
      case 3
      have "flag r w' + (if q = r then 1 else 0) = flag r w" using 3 q by (auto simp: flag_def)
      moreover have "busy t r w' = busy t r w + (if q = r then 1 else 0)" "u \<noteq> t \<Longrightarrow> busy u r w' = busy u r w" for u
        using 3 q Sleeping by (simp_all add: busy_def)
      ultimately show ?thesis using 3 by (cases t) (simp_all add: potential_def frames_of_def reserve_def)
    qed simp
  next
    case Taken
    obtain v pc' where w': "w' = v\<lparr> thread := (thread w)(t \<mapsto> (q, pc')) \<rparr>" "v = w \<or> v = set_scheduled False q w"
      using assms q Taken by (auto simp: thread_round_def onOhVsync_enter_def split: if_splits)
    have f: "flag r w' \<le> flag r w"
      using flag_set [of r False q w] flag_cong [of w' r v] w' by (auto split: if_splits)
    have "busy u r w' \<le> busy u r w" for u using w' q Taken by (auto simp: busy_def)
    then have "potential r w' \<le> potential r w + 0"
      by (intro potential_same) (use w' f in \<open>auto simp: frames_of_def reserve_def\<close>)
    then show ?thesis using w' by auto
  next
    case Inside
    let ?f = "onOhVsync_finish alive now q w"
    have w': "w' = ?f\<lparr> thread := (thread w)(t \<mapsto> (q, Sleeping)) \<rparr>" using assms q Inside by (simp add: thread_round_def)
    have "frames_of r w' = frames_of r ?f" "flag r w' = flag r w"
      using w' finish_flag [of r alive now q w] by (simp_all add: frames_of_def flag_def)
    moreover have "busy t r w' + (if q = r then 1 else 0) = busy t r w" "u \<noteq> t \<Longrightarrow> busy u r w' = busy u r w" for u
      using w' q Inside by (simp_all add: busy_def finish_effect)
    ultimately show ?thesis using finish_frames [of r alive now q w] w'
      by (cases t) (simp_all add: potential_def reserve_def finish_effect)
  qed
qed

lemma vsync_do_potential:
  assumes "vsync_do a w = Some w'"
  shows "potential r w' + 2 * won w r \<le> potential r w + 2 * won w' r"
  using assms init_potential [of _ _ _ _ _ w w' r] begin_potential [of _ w w' r] request_potential [of _ _ _ w w' r]
    end_potential [of _ w w' r] callback_enter_potential [of _ w w' r] callback_finish_potential [of _ _ _ w w' r]
    replaced_potential [of _ w w' r] round_potential [of _ _ _ w w' r]
  by (cases a) fastforce+

lemma vsync_potential:
  assumes "vsync_steps vsync_init as w"
  shows "potential r w \<le> 2 * won w r"
  using assms
proof (induction vsync_init as w rule: vsync_steps.induct)
  case nil
  show ?case by (simp add: potential_defs vsync_init_def)
next
  case (snoc as w a w')
  then show ?case using vsync_do_potential [of a w w' r] by simp
qed

section \<open>Numbering\<close>

definition frame_count :: "nat \<Rightarrow> vsync_world \<Rightarrow> nat" where
  "frame_count r w = (case receivers w r of None \<Rightarrow> 0 | Some s \<Rightarrow> frameNumber s)"

definition numbered :: "nat \<Rightarrow> vsync_world \<Rightarrow> bool" where
  "numbered r w \<longleftrightarrow> map d_vsyncId (frames_of r w) = [1..<Suc (frame_count r w)]"

lemma numbered_cong:
  "dispatched w' = dispatched w \<Longrightarrow> frame_count r w' = frame_count r w \<Longrightarrow> numbered r w' = numbered r w"
  by (simp add: numbered_def frames_of_def)

lemma frame_count_cong: "receivers w' r = receivers w r \<Longrightarrow> frame_count r w' = frame_count r w"
  by (simp add: frame_count_def)

lemma frame_count_set [simp]: "frame_count r (set_scheduled v q w) = frame_count r w"
  by (simp add: frame_count_def split: option.split)

lemma numbered_finish:
  assumes "numbered r w"
  shows "numbered r (onOhVsync_finish alive now q w)"
proof (cases "receivers w q")
  case None
  then show ?thesis using assms by (simp add: onOhVsync_finish_def)
next
  case (Some s)
  then show ?thesis using assms
    by (auto simp: onOhVsync_finish_def numbered_def frames_of_def frame_count_def)
qed

text \<open>A round changes at most the flag or the frames of its receiver, and keeps that receiver while it lives.\<close>

lemma round_effect:
  assumes "thread_round alive now t w = Some w'" "w' \<noteq> w"
  obtains q pc s v x where "thread w t = Some (q, pc)" "receivers w q = Some s" "w' = v\<lparr> thread := (thread w)(t := x) \<rparr>"
    "v = w \<or> v = set_scheduled False q w \<or> v = onOhVsync_finish alive now q w" "x = None \<and> destroyed s \<or> (\<exists>pc'. x = Some (q, pc'))"
proof -
  obtain q pc s where q: "thread w t = Some (q, pc)" "receivers w q = Some s"
    using assms(1) by (auto simp: thread_round_def split: option.splits)
  show thesis
  proof (cases pc)
    case Sleeping
    then show ?thesis using assms q that [OF q, of None w] that [OF q, of "Some (q, Taken)" "set_scheduled False q w"]
      by (auto simp: thread_round_def split: if_splits)
  next
    case Taken
    then show ?thesis using assms(1) q that [OF q, of "Some (q, Sleeping)" w] that [OF q, of "Some (q, Inside)" "set_scheduled False q w"]
      by (auto simp: thread_round_def onOhVsync_enter_def split: if_splits)
  next
    case Inside
    then show ?thesis using assms(1) q that [OF q, of "Some (q, Sleeping)" "onOhVsync_finish alive now q w"]
      by (simp add: thread_round_def)
  qed
qed

lemma numbered_do:
  assumes "numbered r w" "vsync_do a w = Some w'"
  shows "numbered r w'"
proof (cases a)
  case (Init vmOk lib weak created q)
  then have i: "DER_nativeInit vmOk lib weak created q w = Some w'" using assms(2) by simp
  have "frame_count r w' = frame_count r w" using init_effect(1,10) [OF i] by (cases "q = r") (auto simp: frame_count_def)
  then show ?thesis using assms(1) numbered_cong init_effect(2) [OF i] by blast
next
  case (ScheduleBegin q)
  then have "dispatched w' = dispatched w \<and> frame_count r w' = frame_count r w" using assms(2)
    by (auto simp: schedule_begin_def frame_count_def split: option.splits if_splits)
  then show ?thesis using assms(1) numbered_cong by blast
next
  case (ScheduleRequest attached rc q)
  then have "dispatched w' = dispatched w \<and> receivers w' = receivers w" using assms(2)
    by (auto simp: schedule_request_def Let_def split: option.splits if_splits)
  then show ?thesis using assms(1) numbered_cong [of w' w r] frame_count_cong [of w' r w] by simp
next
  case (ScheduleEnd q)
  then obtain v where "w' = (set_scheduled v q w)\<lparr> calls := (calls w)(q := Resting) \<rparr>" using assms(2)
    by (auto simp: schedule_end_def split: schedule_pc.splits)
  then show ?thesis using assms(1) numbered_cong [of w' w r] frame_count_cong [of w' r "set_scheduled v q w"] by simp
next
  case (CallbackEnter q)
  then have "dispatched w' = dispatched w \<and> frame_count r w' = frame_count r w" using assms(2)
    by (auto simp: callback_enter_def onOhVsync_enter_def frame_count_def Let_def split: option.splits if_splits)
  then show ?thesis using assms(1) numbered_cong by blast
next
  case (CallbackFinish alive now q)
  then have "w' = (onOhVsync_finish alive now q w)\<lparr> callback := (callback w)(q := False) \<rparr>" using assms(2)
    by (auto simp: callback_finish_def split: if_splits)
  then show ?thesis using numbered_finish [OF assms(1)] numbered_cong [of w' "onOhVsync_finish alive now q w" r]
      frame_count_cong [of w' r "onOhVsync_finish alive now q w"] by simp
next
  case (Replaced q)
  then have "dispatched w' = dispatched w \<and> receivers w' = receivers w" using assms(2)
    by (auto simp: request_replaced_def split: if_splits)
  then show ?thesis using assms(1) numbered_cong [of w' w r] frame_count_cong [of w' r w] by simp
next
  case (Round alive now t)
  show ?thesis
  proof (cases "w' = w")
    case True
    then show ?thesis using assms(1) by simp
  next
    case False
    then obtain q v x where w': "w' = v\<lparr> thread := (thread w)(t := x) \<rparr>"
      "v = w \<or> v = set_scheduled False q w \<or> v = onOhVsync_finish alive now q w"
      using Round assms(2) round_effect [of alive now t w w'] by (metis vsync_do.simps(8))
    have "numbered r v" using w'(2) assms(1) numbered_finish numbered_cong [of "set_scheduled False q w" w r] by auto
    then show ?thesis using w'(1) numbered_cong [of w' v r] frame_count_cong [of w' r v] by simp
  qed
qed


lemma vsync_run_steps: "vsync_steps u as w \<Longrightarrow> vsync_run bs w = Some w' \<Longrightarrow> vsync_steps u (as @ bs) w'"
proof (induction bs arbitrary: as w)
  case (Cons b bs)
  then obtain v where v: "vsync_do b w = Some v" "vsync_run bs v = Some w'" by (auto split: bind_splits)
  have "vsync_steps u (as @ [b]) v" using Cons.prems(1) v(1) by (rule vsync_steps.snoc)
  then show ?case using Cons.IH [OF _ v(2), of "as @ [b]"] by simp
qed simp

lemma vsync_runI: "vsync_run as vsync_init = Some w \<Longrightarrow> vsync_steps vsync_init as w"
  using vsync_run_steps [OF vsync_steps.nil] by simp

section \<open>Who is threads_serve\<close>

text \<open>
  No receiver is ever marked destroyed, a delivery thread keeps its receiver, and without callbacks of
  OpenHarmony only the receivers of the delivery threads get frames.
\<close>

definition threads_serve :: "vsync_world \<Rightarrow> bool" where
  "threads_serve w \<longleftrightarrow> (\<forall>r s. receivers w r = Some s \<longrightarrow> \<not> destroyed s)
     \<and> (\<forall>t q pc. thread w t = Some (q, pc) \<longrightarrow> started w t \<and> g_javaVm w \<and> receivers w q \<noteq> None)
     \<and> (\<forall>r. \<not> callback w r)
     \<and> (\<forall>d \<in> set (dispatched w). \<exists>t pc. thread w t = Some (d_receiver d, pc))"

lemma threads_serve_init: "threads_serve vsync_init"
  by (simp add: threads_serve_def vsync_init_def)

lemma threads_serveD:
  assumes "threads_serve w"
  shows "receivers w r = Some s \<Longrightarrow> \<not> destroyed s"
    and "thread w t = Some (q, pc) \<Longrightarrow> started w t \<and> g_javaVm w \<and> receivers w q \<noteq> None"
    and "\<not> callback w r"
    and "d \<in> set (dispatched w) \<Longrightarrow> \<exists>t pc. thread w t = Some (d_receiver d, pc)"
  using assms unfolding threads_serve_def by blast+

text \<open>Steps that only touch the flag, the counters of requests, or start a thread.\<close>

lemma threads_serve_cong:
  assumes "threads_serve w" "\<And>r. map_option destroyed (receivers w' r) = map_option destroyed (receivers w r)"
    and "thread w' = thread w" "started w' = started w" "g_javaVm w' = g_javaVm w" "callback w' = callback w"
    and "dispatched w' = dispatched w"
  shows "threads_serve w'"
proof -
  have r: "receivers w' q = None \<longleftrightarrow> receivers w q = None" for q using assms(2) [of q] by (metis map_option_is_None)
  have d: "\<not> destroyed s" if "receivers w' q = Some s" for q s
    using assms(2) [of q] that threads_serveD(1) [OF assms(1), of q] by (auto simp: map_option_case split: option.splits)
  show ?thesis using assms(1,3-) d r unfolding threads_serve_def by simp
qed

lemma threads_serve_start:
  assumes "threads_serve w" "receivers w q \<noteq> None"
  shows "threads_serve (start_thread attached t q w)"
proof (cases "started w t")
  case False
  then have n: "thread w t = None" using threads_serveD(2) [OF assms(1), of t] by (cases "thread w t") auto
  have k: "thread w u = Some p \<Longrightarrow> u \<noteq> t" for u p using n by auto
  let ?w = "start_thread attached t q w"
  have th: "thread ?w u = (if u = t then (if g_javaVm w \<and> attached then Some (q, Sleeping) else None) else thread w u)"
    "started ?w u = (u = t \<or> started w u)" for u
    using False by (auto simp: start_thread_def)
  have "started ?w u \<and> g_javaVm ?w \<and> receivers ?w p \<noteq> None" if "thread ?w u = Some (p, pc)" for u p pc
    using that th [of u] assms(2) threads_serveD(2) [OF assms(1), of u p pc] by (auto split: if_splits)
  moreover have "\<exists>u pc. thread ?w u = Some (d_receiver d, pc)" if d: "d \<in> set (dispatched ?w)" for d
  proof -
    have "d \<in> set (dispatched w)" using d by simp
    then obtain u pc where "thread w u = Some (d_receiver d, pc)" using threads_serveD(4) [OF assms(1)] by blast
    then show ?thesis using k th(1) [of u] by auto
  qed
  ultimately show ?thesis using threads_serveD(1,3) [OF assms(1)] unfolding threads_serve_def by simp
qed (use assms in \<open>simp add: start_thread_def\<close>)

lemma threads_serve_finish:
  assumes "threads_serve w" "thread w t = Some (q, pc)"
  shows "threads_serve (onOhVsync_finish alive now q w)"
proof -
  let ?f = "onOhVsync_finish alive now q w"
  have d: "d \<in> set (dispatched ?f) \<Longrightarrow> d \<in> set (dispatched w) \<or> d_receiver d = q" for d
    by (auto simp: onOhVsync_finish_def split: option.splits if_splits)
  have "\<not> destroyed s" if "receivers ?f r = Some s" for r s
    using that threads_serveD(1) [OF assms(1)] by (auto simp: finish_effect split: if_splits)
  moreover have "\<exists>u pc. thread ?f u = Some (d_receiver d, pc)" if "d \<in> set (dispatched ?f)" for d
    using d [OF that] threads_serveD(4) [OF assms(1), of d] assms(2) by (auto simp: finish_effect)
  moreover have "started ?f u \<and> g_javaVm ?f \<and> receivers ?f p \<noteq> None" if "thread ?f u = Some (p, pc')" for u p pc'
    using that threads_serveD(2) [OF assms(1), of u p pc'] by (auto simp: finish_effect)
  ultimately show ?thesis using threads_serveD(3) [OF assms(1)] unfolding threads_serve_def by (simp add: finish_effect)
qed

lemma threads_serve_pc:
  assumes "threads_serve w" "thread w t = Some (q, pc)"
  shows "threads_serve (w\<lparr> thread := (thread w)(t \<mapsto> (q, pc')) \<rparr>)" (is "threads_serve ?w")
proof -
  have "\<exists>u p. thread ?w u = Some (d_receiver d, p)" if "d \<in> set (dispatched ?w)" for d
  proof -
    have "d \<in> set (dispatched w)" using that by simp
    then obtain u c where "thread w u = Some (d_receiver d, c)" using threads_serveD(4) [OF assms(1)] by blast
    then show ?thesis using assms(2) by (cases "u = t") auto
  qed
  moreover have "started ?w u \<and> g_javaVm ?w \<and> receivers ?w p \<noteq> None" if "thread ?w u = Some (p, c)" for u p c
    using that threads_serveD(2) [OF assms(1)] assms(2) by (auto split: if_splits)
  ultimately show ?thesis using threads_serveD(1,3) [OF assms(1)] unfolding threads_serve_def by simp
qed

fun is_callback :: "vsync_action \<Rightarrow> bool" where
  "is_callback (CallbackEnter r) \<longleftrightarrow> True"
| "is_callback _ \<longleftrightarrow> False"

lemma threads_serve_do:
  assumes "threads_serve w" "vsync_do a w = Some w'" "\<not> is_callback a"
  shows "threads_serve w'"
proof (cases a)
  case (Init vmOk lib weak created q)
  then have i: "DER_nativeInit vmOk lib weak created q w = Some w'" using assms(2) by simp
  note e = init_effect [OF i]
  have "\<not> destroyed s" if "receivers w' r = Some s" for r s
    using that e(10) threads_serveD(1) [OF assms(1)] by (auto split: if_splits)
  moreover have "started w' t \<and> g_javaVm w' \<and> receivers w' p \<noteq> None" if "thread w' t = Some (p, pc)" for t p pc
    using that e(4,5,9,10) threads_serveD(2) [OF assms(1), of t p pc] by auto
  ultimately show ?thesis using e(2,3,4) threads_serveD(3,4) [OF assms(1)] unfolding threads_serve_def by simp
next
  case (ScheduleBegin q)
  show ?thesis
    by (rule threads_serve_cong [OF assms(1)])
      (use ScheduleBegin assms(2) in \<open>auto simp: schedule_begin_def split: option.splits if_splits\<close>)
next
  case (ScheduleRequest attached rc q)
  then obtain s where s: "receivers w q = Some s" using assms(2) by (auto simp: schedule_request_def split: option.splits)
  obtain t n c where w': "w' = (start_thread attached t q (w\<lparr> outstanding := n \<rparr>))\<lparr> calls := c \<rparr>"
    using ScheduleRequest assms(2) s
    by (auto simp: schedule_request_def Let_def split: if_splits) (metis vsync_world.surjective vsync_world.update_convs(5))+
  have "threads_serve (w\<lparr> outstanding := n \<rparr>)" by (rule threads_serve_cong [OF assms(1)]) simp_all
  then have "threads_serve (start_thread attached t q (w\<lparr> outstanding := n \<rparr>))" by (rule threads_serve_start) (simp add: s)
  then show ?thesis by (rule threads_serve_cong) (simp_all add: w')
next
  case (ScheduleEnd q)
  show ?thesis
    by (rule threads_serve_cong [OF assms(1)])
      (use ScheduleEnd assms(2) in \<open>auto simp: schedule_end_def option.map_comp comp_def split: schedule_pc.splits\<close>)
next
  case (CallbackEnter q)
  then show ?thesis using assms(3) by simp
next
  case (CallbackFinish alive now q)
  then show ?thesis using assms(2) threads_serveD(3) [OF assms(1)] by (simp add: callback_finish_def)
next
  case (Replaced q)
  show ?thesis
    by (rule threads_serve_cong [OF assms(1)]) (use Replaced assms(2) in \<open>auto simp: request_replaced_def split: if_splits\<close>)
next
  case (Round alive now t)
  show ?thesis
  proof (cases "w' = w")
    case True
    then show ?thesis using assms(1) by simp
  next
    case False
    obtain q pc s v x where w': "thread w t = Some (q, pc)" "receivers w q = Some s" "w' = v\<lparr> thread := (thread w)(t := x) \<rparr>"
      "v = w \<or> v = set_scheduled False q w \<or> v = onOhVsync_finish alive now q w" "x = None \<and> destroyed s \<or> (\<exists>pc'. x = Some (q, pc'))"
      using round_effect [OF _ False, of alive now t] Round assms(2) by (metis vsync_do.simps(8))
    then obtain pc' where x: "x = Some (q, pc')" using threads_serveD(1) [OF assms(1) w'(2)] by blast
    have "threads_serve (set_scheduled False q w)" by (rule threads_serve_cong [OF assms(1)]) (simp_all add: option.map_comp comp_def)
    then have v: "threads_serve v" "thread v = thread w" using w'(4) assms(1) threads_serve_finish [OF assms(1) w'(1)] by (auto simp: finish_effect)
    then show ?thesis using threads_serve_pc [OF v(1), of t q pc pc'] w'(1,3) x by simp
  qed
qed

text \<open>
  Fact (only_first_receivers_served): in a process to which OpenHarmony never delivers a callback,
  only the receivers for which the fallback thread or the watchdog was started get frames: every
  other receiver waits forever.
\<close>

theorem only_first_receivers_served:
  assumes "vsync_steps vsync_init as w" "\<not> (\<exists>a \<in> set as. is_callback a)" "d \<in> set (dispatched w)"
  shows "\<exists>t pc. thread w t = Some (d_receiver d, pc)"
proof -
  have "threads_serve w" using assms(1,2)
  proof (induction vsync_init as w rule: vsync_steps.induct)
    case nil
    show ?case by (rule threads_serve_init)
  next
    case (snoc as w a w')
    then show ?case using threads_serve_do [of w a w'] by auto
  qed
  then show ?thesis using threads_serveD(4) assms(3) by blast
qed

section \<open>Delivery\<close>

text \<open>Whatever the state of the process, three rounds of its thread deliver a flagged frame.\<close>

text \<open>
  Fact (thread_delivers): three rounds of a delivery thread dispatch a requested frame of its
  receiver and clear the request.
\<close>

theorem thread_delivers:
  assumes "thread w t = Some (r, Sleeping)" "receivers w r = Some s" "g_javaVm w"
    and "scheduled s" "\<not> destroyed s" "weakRefGlobal s"
  shows "\<exists>w'. vsync_run [Round True n1 t, Round True n2 t, Round True now t] w = Some w'
    \<and> dispatched w' = dispatched w @ [\<lparr> d_receiver = r, d_time = now, d_frame = sint (word_of_nat (frameNumber s) :: u32),
        d_vsyncId = frameNumber s + 1, d_deadline = now + kFrameIntervalNs \<rparr>]
    \<and> receivers w' r = Some (s\<lparr> scheduled := False, frameNumber := frameNumber s + 1 \<rparr>)
    \<and> thread w' t = Some (r, Sleeping)"
proof -
  let ?w1 = "(set_scheduled False r w)\<lparr> thread := (thread w)(t \<mapsto> (r, Taken)) \<rparr>"
  have 1: "thread_round True n1 t w = Some ?w1" using assms by (simp add: thread_round_def)
  let ?w2 = "(set_scheduled False r ?w1)\<lparr> thread := (thread ?w1)(t \<mapsto> (r, Inside)) \<rparr>"
  have 2: "thread_round True n2 t ?w1 = Some ?w2" using assms by (simp add: thread_round_def onOhVsync_enter_def)
  let ?w3 = "(onOhVsync_finish True now r ?w2)\<lparr> thread := (thread ?w2)(t \<mapsto> (r, Sleeping)) \<rparr>"
  have 3: "thread_round True now t ?w2 = Some ?w3" using assms by (simp add: thread_round_def)
  have "dispatched ?w3 = dispatched w @ [\<lparr> d_receiver = r, d_time = now, d_frame = sint (word_of_nat (frameNumber s) :: u32),
      d_vsyncId = frameNumber s + 1, d_deadline = now + kFrameIntervalNs \<rparr>]"
    "receivers ?w3 r = Some (s\<lparr> scheduled := False, frameNumber := frameNumber s + 1 \<rparr>)"
    using assms(2,6) by (simp_all add: onOhVsync_finish_def)
  then show ?thesis using 1 2 3 by simp
qed

section \<open>Two frames for one request\<close>

definition both_found :: "string \<Rightarrow> (bool \<times> bool) option" where
  "both_found p = Some (True, True)"

definition requested :: "vsync_action list" where
  "requested = [Init True both_found True True 0, ScheduleBegin 0, ScheduleRequest True 0 0]"

definition watchdog_then_callback :: "vsync_action list" where
  "watchdog_then_callback = requested @ [Round True 0 Watchdog, Round True 0 Watchdog, Round True 70 Watchdog,
     CallbackEnter 0, CallbackFinish True 80 0]"

lemmas vsync_eval = requested_def both_found_def vsync_init_def DER_nativeInit_def resolveOhVsyncApi_def has_create_def
  has_request_def vsync_candidates_def schedule_begin_def schedule_request_def start_thread_def set_scheduled_def
  thread_round_def onOhVsync_enter_def onOhVsync_finish_def callback_enter_def callback_finish_def kFrameIntervalNs_def Let_def

text \<open>The bound is reached: the watchdog and a late callback both answer one request.\<close>

lemma request_answered_twice:
  "\<exists>w. vsync_run watchdog_then_callback vsync_init = Some w \<and> won w 0 = 1 \<and> length (frames_of 0 w) = 2"
  by (simp add: watchdog_then_callback_def vsync_eval frames_of_def)

text \<open>The callback and the watchdog can be about to increment the frame number at the same time.\<close>

lemma frame_counter_race:
  "\<exists>w. vsync_run (requested @ [Round True 0 Watchdog, Round True 0 Watchdog, CallbackEnter 0]) vsync_init = Some w
     \<and> callback w 0 \<and> thread w Watchdog = Some (0, Inside)"
  by (simp add: vsync_eval)

section \<open>Witnesses\<close>


definition two_receivers :: "vsync_action list" where
  "two_receivers = requested @ [Init True both_found True True 1, ScheduleBegin 1, ScheduleRequest True 0 1,
     Round True 0 Watchdog, Round True 0 Watchdog, Round True 70 Watchdog]"

theorem only_first_receivers_served_witness:
  "\<exists>w d. vsync_run two_receivers vsync_init = Some w \<and> d \<in> set (dispatched w) \<and> (\<exists>t pc. thread w t = Some (d_receiver d, pc))
     \<and> frames_of 1 w = [] \<and> outstanding w 1 = 1"
proof -
  obtain w d where w: "vsync_run two_receivers vsync_init = Some w" "dispatched w = [d]" "frames_of 1 w = []" "outstanding w 1 = 1"
    by (simp add: two_receivers_def vsync_eval frames_of_def)
  have "\<not> (\<exists>a \<in> set two_receivers. is_callback a)" by (simp add: two_receivers_def requested_def)
  then have "\<exists>t pc. thread w t = Some (d_receiver d, pc)"
    using only_first_receivers_served [OF vsync_runI [OF w(1)]] w(2) by simp
  then show ?thesis using w by auto
qed

theorem thread_delivers_witness:
  "\<exists>w w'. vsync_run requested vsync_init = Some w \<and> vsync_run [Round True 1 Watchdog, Round True 2 Watchdog, Round True 3 Watchdog] w = Some w'
     \<and> map d_vsyncId (dispatched w') = [1]"
proof -
  obtain w s where w: "vsync_run requested vsync_init = Some w" "thread w Watchdog = Some (0, Sleeping)" "receivers w 0 = Some s"
    "g_javaVm w" "scheduled s" "\<not> destroyed s" "weakRefGlobal s" "dispatched w = []" "frameNumber s = 0"
    by (simp add: vsync_eval)
  show ?thesis using thread_delivers [OF w(2-7), of 1 2 3] w(1,8,9) by fastforce
qed

end
