(* ===== verification/InprocService.thy ===== *)
theory InprocService
  imports Prelude
begin

text \<open>
  Android services that run inside the app's own process: \<open>activity/jni/oh_inproc_service.cpp\<close>, with the
  entry points of \<open>activity/jni/activity_manager_adapter.cpp\<close> that reach it and the two Java classes it
  talks to, \<open>ServiceConnectionRegistry\<close> and \<open>IntentWantConverter\<close>. This theory holds the data and the
  operations, each critical section of \<open>g_mu\<close> as one function; \<open>InprocThreads\<close> interleaves them.

  Java objects are numbers. What the virtual machine and the framework answer is a record \<open>framework\<close>
  passed to the operations.
\<close>

section \<open>Intents\<close>

text \<open>An intent built from a want; the extras are what the JSON reader makes of their text.\<close>

record 'x jintent =
  ji_component :: "(string \<times> string) option"
  ji_action :: "string option"
  ji_data :: "string option"
  ji_extras :: "'x option"

definition Intent_ACTION_MAIN :: string where "Intent_ACTION_MAIN = ''android.intent.action.MAIN''"
definition Intent_ACTION_VIEW :: string where "Intent_ACTION_VIEW = ''android.intent.action.VIEW''"
definition Intent_ACTION_SEND :: string where "Intent_ACTION_SEND = ''android.intent.action.SEND''"
definition Intent_ACTION_PICK :: string where "Intent_ACTION_PICK = ''android.intent.action.PICK''"

definition want_prefix :: string where "want_prefix = ''ohos.want.action.''"

definition mapAction :: "string option \<Rightarrow> string option" where
  "mapAction a = (case a of None \<Rightarrow> None
     | Some a \<Rightarrow> Some (if a = Intent_ACTION_MAIN then ''ohos.want.action.home''
         else if a = Intent_ACTION_VIEW then ''ohos.want.action.viewData''
         else if a = Intent_ACTION_SEND then ''ohos.want.action.sendData''
         else if a = Intent_ACTION_PICK then ''ohos.want.action.select''
         else want_prefix @ a))"

definition reverseMapAction :: "string \<Rightarrow> string" where
  "reverseMapAction a = (if a = ''ohos.want.action.home'' then Intent_ACTION_MAIN
     else if a = ''ohos.want.action.viewData'' then Intent_ACTION_VIEW
     else if a = ''ohos.want.action.sendData'' then Intent_ACTION_SEND
     else if a = ''ohos.want.action.select'' then Intent_ACTION_PICK
     else a)"

definition wantToIntent :: "(string \<Rightarrow> 'x option) \<Rightarrow> string \<Rightarrow> string \<Rightarrow> string \<Rightarrow> string \<Rightarrow> string \<Rightarrow> 'x jintent" where
  "wantToIntent toBundle b c a u p = \<lparr> ji_component = Some (b, c), ji_action = Some (reverseMapAction a),
     ji_data = Some u, ji_extras = toBundle p \<rparr>"

text \<open>\<open>buildIntent\<close>: \<open>conv\<close> is the call of the converter, \<open>None\<close> when the class or the method is missing or
  it threw. Custom actions lose the prefix that the forward mapping put in front of them.\<close>

definition standard_names :: "string list" where
  "standard_names = [''home'', ''viewData'', ''sendData'', ''select'']"

definition buildIntent ::
  "(string \<Rightarrow> string \<Rightarrow> string \<Rightarrow> string \<Rightarrow> string \<Rightarrow> 'x jintent option)
     \<Rightarrow> string \<Rightarrow> string \<Rightarrow> string \<Rightarrow> string \<Rightarrow> string \<Rightarrow> 'x jintent option" where
  "buildIntent conv b c a u p = (case conv b c a u p of None \<Rightarrow> None
     | Some i \<Rightarrow> if take 17 a = want_prefix
         then (let orig = drop 17 a in
           if orig \<notin> set standard_names \<and> orig \<noteq> [] then Some (i\<lparr> ji_action := Some orig \<rparr>) else Some i)
         else Some i)"

text \<open>The native entry points turn a null string into the empty one.\<close>

definition jstr :: "string option \<Rightarrow> string" where
  "jstr s = (case s of None \<Rightarrow> [] | Some s \<Rightarrow> s)"

section \<open>Service records\<close>

record SvcRec =
  svc_token :: "nat option"
  svc_instance :: "nat option"
  svc_ibinder :: "nat option"
  bindCalled :: bool

definition SvcRec0 :: SvcRec where
  "SvcRec0 = \<lparr> svc_token = None, svc_instance = None, svc_ibinder = None, bindCalled = False \<rparr>"

record PendingBind =
  pb_cls :: string
  pb_bundle :: string
  pb_connId :: int
  pb_deadlineMs :: int

record inproc =
  g_svc :: "string \<Rightarrow> SvcRec option"
  g_pending :: "PendingBind list"
  g_inappConnIds :: "int set"
  g_workerRunning :: bool
  g_startId :: int
  serviceCache :: "string \<Rightarrow> bool option"

definition inproc_init :: inproc where
  "inproc_init = \<lparr> g_svc = Map.empty, g_pending = [], g_inappConnIds = {}, g_workerRunning = False,
     g_startId = 0, serviceCache = Map.empty \<rparr>"

text \<open>An entry of \<open>ActivityThread.mServices\<close>: its key and, unless null, the service with its class name.\<close>

record mservice =
  ms_key :: "nat option"
  ms_value :: "(string \<times> nat) option"

text \<open>
  \<open>fw_services\<close> is \<open>None\<close> when the activity thread, the field or a method of the map cannot be reached;
  \<open>fw_package\<close> is the package name of the current application. \<open>fw_appInfo\<close> and \<open>fw_serviceInfo\<close> say that the
  application info was there and the service info could be built, \<open>fw_create\<close> and \<open>fw_args\<close> that the calls
  of the application thread did not throw; \<open>fw_token\<close> is the token allocated for a create.
\<close>

record framework =
  fw_services :: "mservice list option"
  fw_application :: bool
  fw_package :: "string option"
  fw_isServiceClass :: "string \<Rightarrow> bool"
  fw_appThread :: bool
  fw_appInfo :: bool
  fw_serviceInfo :: bool
  fw_create :: bool
  fw_token :: nat
  fw_args :: bool

definition inproc_isInApp :: "framework \<Rightarrow> string \<Rightarrow> bool" where
  "inproc_isInApp fw b \<longleftrightarrow> b \<noteq> [] \<and> fw_application fw \<and> fw_package fw = Some b"

definition inproc_isService :: "framework \<Rightarrow> string \<Rightarrow> inproc \<Rightarrow> bool \<times> inproc" where
  "inproc_isService fw c s = (if c = [] then (False, s)
     else case serviceCache s c of
       Some v \<Rightarrow> (v, s)
     | None \<Rightarrow> if \<not> fw_application fw then (False, s)
         else (fw_isServiceClass fw c, s\<lparr> serviceCache := (serviceCache s)(c \<mapsto> fw_isServiceClass fw c) \<rparr>))"

definition svc :: "string \<Rightarrow> inproc \<Rightarrow> SvcRec" where
  "svc c s = (case g_svc s c of None \<Rightarrow> SvcRec0 | Some r \<Rightarrow> r)"

definition have_instance :: "string \<Rightarrow> inproc \<Rightarrow> bool" where
  "have_instance c s \<longleftrightarrow> svc_instance (svc c s) \<noteq> None"

text \<open>The scan of \<open>adoptExistingService\<close> and what it stores.\<close>

fun scan_services :: "mservice list \<Rightarrow> string \<Rightarrow> (nat \<times> nat option) option" where
  "scan_services [] c = None"
| "scan_services (e # es) c = (case ms_value e of
       Some (n, i) \<Rightarrow> if n = c then Some (i, ms_key e) else scan_services es c
     | None \<Rightarrow> scan_services es c)"

definition find_service :: "framework \<Rightarrow> string \<Rightarrow> (nat \<times> nat option) option" where
  "find_service fw c = (case fw_services fw of None \<Rightarrow> None | Some es \<Rightarrow> scan_services es c)"

definition adopt :: "string \<Rightarrow> nat \<Rightarrow> nat option \<Rightarrow> inproc \<Rightarrow> inproc" where
  "adopt c i tok s = (let r = svc c s;
       r = (if svc_instance r = None then r\<lparr> svc_instance := Some i \<rparr> else r);
       r = (if svc_token r = None \<and> tok \<noteq> None then r\<lparr> svc_token := tok \<rparr> else r)
     in s\<lparr> g_svc := (g_svc s)(c \<mapsto> r) \<rparr>)"

definition adoptExistingService :: "framework \<Rightarrow> string \<Rightarrow> inproc \<Rightarrow> bool \<times> inproc" where
  "adoptExistingService fw c s = (case find_service fw c of None \<Rightarrow> (False, s)
     | Some (i, tok) \<Rightarrow> (True, adopt c i tok s))"

text \<open>\<open>ensureCreated\<close> runs under the lock from beginning to end. Its third result tells whether a create was
  scheduled.\<close>

definition ensureCreated :: "framework \<Rightarrow> string \<Rightarrow> inproc \<Rightarrow> nat option \<times> bool \<times> inproc" where
  "ensureCreated fw c s = (if svc_token (svc c s) \<noteq> None then (svc_token (svc c s), False, s)
     else case adoptExistingService fw c s of (adopted, s) \<Rightarrow>
         if adopted then (svc_token (svc c s), False, s)
         else if \<not> fw_appThread fw \<or> \<not> fw_application fw then (None, False, s)
         else if \<not> fw_appInfo fw \<or> \<not> fw_serviceInfo fw then (None, False, s)
         else if \<not> fw_create fw then (None, False, s)
         else (Some (fw_token fw), True,
           s\<lparr> g_svc := (g_svc s)(c \<mapsto> (svc c s)\<lparr> svc_token := Some (fw_token fw) \<rparr>) \<rparr>))"

section \<open>Pending binds\<close>

fun erase_first :: "('a \<Rightarrow> bool) \<Rightarrow> 'a list \<Rightarrow> 'a list" where
  "erase_first P [] = []"
| "erase_first P (x # xs) = (if P x then xs else x # erase_first P xs)"

definition is_bind :: "int \<Rightarrow> string \<Rightarrow> PendingBind \<Rightarrow> bool" where
  "is_bind k c p \<longleftrightarrow> pb_connId p = k \<and> pb_cls p = c"

text \<open>The last block of \<open>inproc_bindService2\<close>: \<open>spawned\<close> tells whether \<open>pthread_create\<close> succeeded. The second
  result tells whether a worker was started.\<close>

definition queue_bind :: "bool \<Rightarrow> int \<Rightarrow> string \<Rightarrow> string \<Rightarrow> int \<Rightarrow> inproc \<Rightarrow> int \<times> bool \<times> inproc" where
  "queue_bind spawned now b c k s = (let
       q = (if list_ex (is_bind k c) (g_pending s) then g_pending s
            else g_pending s @ [\<lparr> pb_cls = c, pb_bundle = b, pb_connId = k, pb_deadlineMs = now + 20000 \<rparr>])
     in if g_workerRunning s then (0, False, s\<lparr> g_pending := q \<rparr>)
        else if spawned then (0, True, s\<lparr> g_pending := q, g_workerRunning := True \<rparr>)
        else (-1, False, s\<lparr> g_pending := erase_first (is_bind k c) q \<rparr>))"

definition claim :: "PendingBind \<Rightarrow> inproc \<Rightarrow> bool \<times> inproc" where
  "claim p s = (let P = is_bind (pb_connId p) (pb_cls p) in
     (list_ex P (g_pending s), s\<lparr> g_pending := erase_first P (g_pending s) \<rparr>))"

definition inproc_disconnect :: "int \<Rightarrow> inproc \<Rightarrow> int \<times> inproc" where
  "inproc_disconnect k s = (let s = s\<lparr> g_pending := erase_first (\<lambda>p. pb_connId p = k) (g_pending s) \<rparr>
     in if k \<in> g_inappConnIds s then (0, s\<lparr> g_inappConnIds := g_inappConnIds s - {k} \<rparr>) else (-1, s))"

text \<open>The store that ends a call of \<open>onBind\<close>.\<close>

definition store_ibinder :: "string \<Rightarrow> nat option \<Rightarrow> inproc \<Rightarrow> inproc" where
  "store_ibinder c ib s = s\<lparr> g_svc := (g_svc s)(c \<mapsto> (svc c s)\<lparr> svc_ibinder := ib, bindCalled := True \<rparr>) \<rparr>"

section \<open>The Java registry of connections\<close>

text \<open>Connections are numbers, the identity of their \<open>IBinder\<close>; a target is a class name.\<close>

record ConnectionRecord =
  cr_connection :: nat
  cr_target :: string
  cr_connectionId :: int

record registry =
  mConnections :: "nat \<Rightarrow> ConnectionRecord option"
  mConnectionsById :: "int \<Rightarrow> ConnectionRecord option"
  mNextConnectionId :: u32

definition registry_init :: registry where
  "registry_init = \<lparr> mConnections = Map.empty, mConnectionsById = Map.empty, mNextConnectionId = 1 \<rparr>"

definition registerConnection :: "nat \<Rightarrow> string \<Rightarrow> registry \<Rightarrow> int \<times> registry" where
  "registerConnection x c g = (case mConnections g x of
       Some r \<Rightarrow> (cr_connectionId r, g)
     | None \<Rightarrow> (let k = sint (mNextConnectionId g); r = \<lparr> cr_connection = x, cr_target = c, cr_connectionId = k \<rparr>
         in (k, g\<lparr> mConnections := (mConnections g)(x \<mapsto> r), mConnectionsById := (mConnectionsById g)(k \<mapsto> r),
               mNextConnectionId := mNextConnectionId g + 1 \<rparr>)))"

definition unregisterConnection :: "nat \<Rightarrow> registry \<Rightarrow> int \<times> registry" where
  "unregisterConnection x g = (case mConnections g x of
       None \<Rightarrow> (-1, g)
     | Some r \<Rightarrow> (cr_connectionId r, g\<lparr> mConnections := (mConnections g)(x := None),
         mConnectionsById := (mConnectionsById g)(cr_connectionId r := None) \<rparr>))"

text \<open>The connection and the component that \<open>onServiceConnected\<close> passes the service to.\<close>

definition onServiceConnected :: "int \<Rightarrow> registry \<Rightarrow> (nat \<times> string) option" where
  "onServiceConnected k g = (case mConnectionsById g k of None \<Rightarrow> None
     | Some r \<Rightarrow> Some (cr_connection r, cr_target r))"

section \<open>Facts about the operations\<close>

lemma length_want_prefix [simp]: "length want_prefix = 17" "want_prefix \<noteq> []"
  by (simp_all add: want_prefix_def)

lemma mapped_standard:
  "''ohos.want.action.home'' = want_prefix @ ''home''" "''ohos.want.action.viewData'' = want_prefix @ ''viewData''"
  "''ohos.want.action.sendData'' = want_prefix @ ''sendData''" "''ohos.want.action.select'' = want_prefix @ ''select''"
  by (simp_all add: want_prefix_def)

lemma reverseMapAction_prefix:
  "reverseMapAction (want_prefix @ a) = (if a = ''home'' then Intent_ACTION_MAIN else if a = ''viewData'' then Intent_ACTION_VIEW
     else if a = ''sendData'' then Intent_ACTION_SEND else if a = ''select'' then Intent_ACTION_PICK else want_prefix @ a)"
  unfolding reverseMapAction_def mapped_standard same_append_eq by simp

lemma action_names:
  "Intent_ACTION_MAIN \<noteq> []" "Intent_ACTION_VIEW \<noteq> []" "Intent_ACTION_SEND \<noteq> []" "Intent_ACTION_PICK \<noteq> []"
  "distinct ([Intent_ACTION_MAIN, Intent_ACTION_VIEW, Intent_ACTION_SEND, Intent_ACTION_PICK] @ standard_names)"
  unfolding Intent_ACTION_MAIN_def Intent_ACTION_VIEW_def Intent_ACTION_SEND_def Intent_ACTION_PICK_def standard_names_def by simp_all

lemma build_prefixed: "buildIntent (\<lambda>b c a u p. Some (wantToIntent toBundle b c a u p)) b c (want_prefix @ a) u p =
  Some ((wantToIntent toBundle b c (want_prefix @ a) u p)
    \<lparr> ji_action := Some (if a \<notin> set standard_names \<and> a \<noteq> [] then a else reverseMapAction (want_prefix @ a)) \<rparr>)"
  by (simp add: buildIntent_def wantToIntent_def)

lemma mapAction_prefix: "\<exists>n. mapAction (Some a) = Some (want_prefix @ n) \<and>
  n = (if a = Intent_ACTION_MAIN then ''home'' else if a = Intent_ACTION_VIEW then ''viewData'' else if a = Intent_ACTION_SEND then ''sendData''
       else if a = Intent_ACTION_PICK then ''select'' else a)"
  by (simp add: mapAction_def mapped_standard)

text \<open>
  Fact (service_action_roundtrip): the action an app starts an in-process service with arrives
  unchanged at the service exactly when it is not empty and is not one of the four names that
  stand for standard actions.
\<close>

theorem service_action_roundtrip:
  "(\<exists>i. buildIntent (\<lambda>b c a u p. Some (wantToIntent toBundle b c a u p)) b c (jstr (mapAction (Some a))) u p = Some i
      \<and> ji_action i = Some a) \<longleftrightarrow> a \<noteq> [] \<and> a \<notin> {''home'', ''viewData'', ''sendData'', ''select''}"
proof -
  obtain n where n: "mapAction (Some a) = Some (want_prefix @ n)"
    "n = (if a = Intent_ACTION_MAIN then ''home'' else if a = Intent_ACTION_VIEW then ''viewData'' else if a = Intent_ACTION_SEND then ''sendData''
       else if a = Intent_ACTION_PICK then ''select'' else a)" using mapAction_prefix by blast
  have long: "reverseMapAction (want_prefix @ n) \<noteq> n" if "n = a" "n \<in> set standard_names \<or> n = []"
    using that action_names by (auto simp: reverseMapAction_prefix standard_names_def)
  show ?thesis
    using n action_names long by (auto simp: build_prefixed jstr_def reverseMapAction_prefix standard_names_def split: if_splits)
qed

end
