(* ===== verification/InprocThreads.thy ===== *)
theory InprocThreads
  imports InprocService
begin

text \<open>
  The threads of the in-process services. Every thread has a stack of frames, the places inside a call where
  it can be interrupted; a step of a frame is one critical section of \<open>g_mu\<close>, one call of the framework or one
  call into Java. App code runs while a thread is at \<open>DOnBind\<close>, inside \<open>onBind\<close>: there, as on an idle thread,
  the app may start, bind and unbind services, on the same stack. The recursive lock \<open>g_bindOpMu\<close> has an owner
  and a depth.

  \<open>JRegister\<close> to \<open>JDisconnect\<close> are \<open>bindService\<close> and \<open>unbindService\<close> of \<open>ActivityManagerAdapter\<close> with the native
  entry points they call; \<open>B\<close> is \<open>inproc_bindService2\<close>, \<open>D\<close> \<open>deliverConnected\<close>, \<open>S\<close> \<open>inproc_startService\<close>,
  \<open>W\<close> \<open>pendingWorker\<close>. The log records what happened, in order.
\<close>

record WantParams =
  want_bundle :: string
  want_ability :: string
  want_action :: string
  want_uri :: string
  want_params :: string

datatype (plugins only: code) frame =
    JRegister nat string string | JConnect nat string string int | JResult nat | JUnregister nat
  | JUnbind nat | JDisconnect int
  | BInsert string string int | BLookup string string int | BScan string string int
  | BAdopt string string int nat "nat option" | BCreate string string int | BQueue string string int
  | DSnap string string int | DLock string string int | DCheck string string int | DCall string string int
  | DOnBind string string int | DStore string string int "nat option" | DRead string string int
  | DNotify string string int "nat option"
  | SGate WantParams | SCreate WantParams | SThread WantParams nat
  | SRead WantParams nat | SWrite WantParams nat int | SArgs WantParams nat int
  | WAttach | WTop | WItems "PendingBind list" | WScan PendingBind "PendingBind list"
  | WAdopt PendingBind "PendingBind list" nat "nat option" | WDecide PendingBind "PendingBind list" bool
  | WClaim PendingBind "PendingBind list" bool

datatype (plugins only: code) event =
    Registered nat int | Unregistered nat int | Asked nat int string
  | Callback nat string int string "nat option"
  | Created string nat | Args string nat int "string jintent option"
  | OnBind string | Connected int string "nat option"
  | Queued int string | Cancelled int string | Claimed int string | TimedOut int string
  | OhConnect int | OhDisconnect int | AttachFailed

record world =
  native :: inproc
  java :: registry
  g_bindOpMu :: "(nat \<times> nat) option" \<comment> \<open>owner and depth\<close>
  threads :: "nat \<Rightarrow> frame list"
  events :: "event list"

definition world_init :: world where
  "world_init = \<lparr> native = inproc_init, java = registry_init, g_bindOpMu = None, threads = (\<lambda>t. []), events = [] \<rparr>"

text \<open>What the framework, the app and the system answer in one step.\<close>

record answers =
  fw :: framework
  a_now :: int
  a_spawned :: "nat option" \<comment> \<open>the new thread, when \<open>pthread_create\<close> succeeds\<close>
  a_attached :: bool
  a_onBind :: "nat option" \<comment> \<open>what \<open>onBind\<close> returns; none when it throws\<close>
  a_registry :: bool
  a_connected :: bool \<comment> \<open>\<open>onServiceConnected\<close> did not throw\<close>
  a_ohResult :: int
  a_converter :: bool \<comment> \<open>the intent converter was found and did not throw\<close>
  a_toBundle :: "string \<Rightarrow> string option" \<comment> \<open>the JSON reader; extras are named by their text\<close>

datatype frame_result = Goto "frame list" | Return int

section \<open>The parts of the calls\<close>

definition note_ev :: "event list \<Rightarrow> world \<Rightarrow> world" where
  "note_ev es w = w\<lparr> events := events w @ es \<rparr>"

text \<open>\<open>nativeConnectAbility\<close>: services of the app itself are bound in the process, all others by OpenHarmony.\<close>

definition in_process :: "framework \<Rightarrow> string \<Rightarrow> string \<Rightarrow> inproc \<Rightarrow> bool \<times> inproc" where
  "in_process f b c s = (if inproc_isInApp f b then inproc_isService f c s else (False, s))"

definition j_register :: "nat \<Rightarrow> string \<Rightarrow> string \<Rightarrow> world \<Rightarrow> frame_result \<times> world" where
  "j_register x b c w = (case registerConnection x c (java w) of (k, g) \<Rightarrow>
     (Goto [JConnect x b c k], note_ev (if mConnections (java w) x = None then [Registered x k] else []) (w\<lparr> java := g \<rparr>)))"

definition j_connect :: "answers \<Rightarrow> nat \<Rightarrow> string \<Rightarrow> string \<Rightarrow> int \<Rightarrow> world \<Rightarrow> frame_result \<times> world" where
  "j_connect a x b c k w = (case in_process (fw a) b c (native w) of (inp, s) \<Rightarrow>
     if inp then (Goto [BInsert b c k, JResult x], note_ev [Asked x k c] (w\<lparr> native := s \<rparr>))
     else (if a_ohResult a < 0 then Goto [JUnregister x] else Return 1, note_ev [OhConnect k] (w\<lparr> native := s \<rparr>)))"

definition j_unregister :: "nat \<Rightarrow> world \<Rightarrow> int \<times> world" where
  "j_unregister x w = (case unregisterConnection x (java w) of (k, g) \<Rightarrow>
     (k, note_ev (if mConnections (java w) x = None then [] else [Unregistered x k]) (w\<lparr> java := g \<rparr>)))"

definition j_disconnect :: "int \<Rightarrow> world \<Rightarrow> world" where
  "j_disconnect k w = (case inproc_disconnect k (native w) of (r, s) \<Rightarrow>
     note_ev ((case find (\<lambda>p. pb_connId p = k) (g_pending (native w)) of None \<Rightarrow> [] | Some p \<Rightarrow> [Cancelled k (pb_cls p)])
       @ (if r = 0 then [] else [OhDisconnect k])) (w\<lparr> native := s \<rparr>))"

definition b_create :: "answers \<Rightarrow> string \<Rightarrow> world \<Rightarrow> nat option \<times> world" where
  "b_create a c w = (case ensureCreated (fw a) c (native w) of (tok, new, s) \<Rightarrow>
     (tok, note_ev (if new then [Created c (fw_token (fw a))] else []) (w\<lparr> native := s \<rparr>)))"

definition b_queue :: "answers \<Rightarrow> string \<Rightarrow> string \<Rightarrow> int \<Rightarrow> world \<Rightarrow> (frame_result \<times> world) option" where
  "b_queue a b c k w = (case queue_bind (a_spawned a \<noteq> None) (a_now a) b c k (native w) of (r, new, s) \<Rightarrow>
     let w' = note_ev ((if list_ex (is_bind k c) (g_pending (native w)) then [] else [Queued k c])
       @ (if r = 0 then [] else [Cancelled k c])) (w\<lparr> native := s \<rparr>)
     in if \<not> new then Some (Return r, w')
        else case a_spawned a of None \<Rightarrow> None
          | Some t \<Rightarrow> if threads w t \<noteq> [] then None
              else Some (Return r, w'\<lparr> threads := (threads w)(t := [WAttach]) \<rparr>))"

definition lock_bindOp :: "nat \<Rightarrow> world \<Rightarrow> world option" where
  "lock_bindOp t w = (case g_bindOpMu w of
       None \<Rightarrow> Some (w\<lparr> g_bindOpMu := Some (t, 1) \<rparr>)
     | Some (u, n) \<Rightarrow> if u = t then Some (w\<lparr> g_bindOpMu := Some (t, n + 1) \<rparr>) else None)"

definition unlock_bindOp :: "world \<Rightarrow> world" where
  "unlock_bindOp w = w\<lparr> g_bindOpMu := (case g_bindOpMu w of None \<Rightarrow> None
     | Some (u, n) \<Rightarrow> if n \<le> 1 then None else Some (u, n - 1)) \<rparr>"

definition d_notify :: "answers \<Rightarrow> string \<Rightarrow> int \<Rightarrow> nat option \<Rightarrow> world \<Rightarrow> frame_result \<times> world" where
  "d_notify a c k ib w = (if \<not> a_registry a \<or> \<not> a_connected a then (Return (-1), w)
     else (Return 0, note_ev (Connected k c ib # (case onServiceConnected k (java w) of None \<Rightarrow> []
       | Some (x, target) \<Rightarrow> [Callback x target k c ib])) w))"

definition w_claim :: "PendingBind \<Rightarrow> PendingBind list \<Rightarrow> bool \<Rightarrow> world \<Rightarrow> frame_result \<times> world" where
  "w_claim p ps h w = (case claim p (native w) of (claimed, s) \<Rightarrow>
     if claimed \<and> h then (Goto [DSnap (pb_bundle p) (pb_cls p) (pb_connId p), WItems ps],
       note_ev [Claimed (pb_connId p) (pb_cls p)] (w\<lparr> native := s \<rparr>))
     else (Goto [WItems ps], note_ev (if claimed then [TimedOut (pb_connId p) (pb_cls p)] else []) (w\<lparr> native := s \<rparr>)))"

definition start_intent :: "answers \<Rightarrow> WantParams \<Rightarrow> string jintent option" where
  "start_intent a v = buildIntent
     (\<lambda>b c act u p. if a_converter a then Some (wantToIntent (a_toBundle a) b c act u p) else None)
     (want_bundle v) (want_ability v) (want_action v) (want_uri v) (want_params v)"

section \<open>Steps\<close>

primrec exec_frame :: "answers \<Rightarrow> nat \<Rightarrow> frame \<Rightarrow> world \<Rightarrow> (frame_result \<times> world) option" where
  "exec_frame a t (JRegister x b c) w = Some (j_register x b c w)"
| "exec_frame a t (JConnect x b c k) w = Some (j_connect a x b c k w)"
| "exec_frame a t (JResult x) w = None"
| "exec_frame a t (JUnregister x) w = Some (Return 0, snd (j_unregister x w))"
| "exec_frame a t (JUnbind x) w = (case j_unregister x w of (k, w') \<Rightarrow>
     Some (if k \<ge> 0 then Goto [JDisconnect k] else Return 1, w'))"
| "exec_frame a t (JDisconnect k) w = Some (Return 1, j_disconnect k w)"
| "exec_frame a t (BInsert b c k) w = Some (if c = [] then (Return (-1), w)
     else (Goto [BLookup b c k], w\<lparr> native := (native w)\<lparr> g_inappConnIds := insert k (g_inappConnIds (native w)) \<rparr> \<rparr>))"
| "exec_frame a t (BLookup b c k) w =
     Some (Goto [if have_instance c (native w) then DSnap b c k else BScan b c k], w)"
| "exec_frame a t (BScan b c k) w = Some (Goto [case find_service (fw a) c of
     None \<Rightarrow> BCreate b c k | Some (i, tok) \<Rightarrow> BAdopt b c k i tok], w)"
| "exec_frame a t (BAdopt b c k i tok) w = Some (Goto [DSnap b c k], w\<lparr> native := adopt c i tok (native w) \<rparr>)"
| "exec_frame a t (BCreate b c k) w = (case b_create a c w of (tok, w') \<Rightarrow>
     Some (if tok = None then Return (-1) else Goto [BQueue b c k], w'))"
| "exec_frame a t (BQueue b c k) w = b_queue a b c k w"
| "exec_frame a t (DSnap b c k) w = Some (if \<not> have_instance c (native w) then Return (-1)
     else if bindCalled (svc c (native w)) then Goto [DNotify b c k (svc_ibinder (svc c (native w)))]
     else Goto [DLock b c k], w)"
| "exec_frame a t (DLock b c k) w = (case lock_bindOp t w of None \<Rightarrow> None | Some w' \<Rightarrow> Some (Goto [DCheck b c k], w'))"
| "exec_frame a t (DCheck b c k) w = Some (if \<not> have_instance c (native w) then (Return (-1), unlock_bindOp w)
     else if bindCalled (svc c (native w)) then (Goto [DRead b c k], w) else (Goto [DCall b c k], w))"
| "exec_frame a t (DCall b c k) w = Some (Goto [DOnBind b c k], note_ev [OnBind c] w)"
| "exec_frame a t (DOnBind b c k) w = Some (Goto [DStore b c k (a_onBind a)], w)"
| "exec_frame a t (DStore b c k ib) w = Some (Goto [DRead b c k], w\<lparr> native := store_ibinder c ib (native w) \<rparr>)"
| "exec_frame a t (DRead b c k) w = Some (Goto [DNotify b c k (svc_ibinder (svc c (native w)))], unlock_bindOp w)"
| "exec_frame a t (DNotify b c k ib) w = Some (d_notify a c k ib w)"
| "exec_frame a t (SGate v) w = (case in_process (fw a) (want_bundle v) (want_ability v) (native w) of (inp, s) \<Rightarrow>
     Some (if inp then Goto [SCreate v] else Return (a_ohResult a), w\<lparr> native := s \<rparr>))"
| "exec_frame a t (SCreate v) w = (case b_create a (want_ability v) w of (tok, w') \<Rightarrow>
     Some (case tok of None \<Rightarrow> Return 0 | Some tok \<Rightarrow> Goto [SThread v tok], w'))"
| "exec_frame a t (SThread v tok) w = Some (if fw_appThread (fw a) then Goto [SRead v tok] else Return 0, w)"
| "exec_frame a t (SRead v tok) w = Some (Goto [SWrite v tok (g_startId (native w) + 1)], w)"
| "exec_frame a t (SWrite v tok n) w = Some (Goto [SArgs v tok n], w\<lparr> native := (native w)\<lparr> g_startId := n \<rparr> \<rparr>)"
| "exec_frame a t (SArgs v tok n) w = Some (Return 0, if fw_args (fw a)
     then note_ev [Args (want_ability v) tok n (start_intent a v)] w else w)"
| "exec_frame a t WAttach w = Some (if a_attached a then (Goto [WTop], w)
     else (Return 0, note_ev [AttachFailed] (w\<lparr> native := (native w)\<lparr> g_workerRunning := False \<rparr> \<rparr>)))"
| "exec_frame a t WTop w = Some (if g_pending (native w) = []
     then (Return 0, w\<lparr> native := (native w)\<lparr> g_workerRunning := False \<rparr> \<rparr>)
     else (Goto [WItems (g_pending (native w))], w))"
| "exec_frame a t (WItems ps) w = Some (case ps of [] \<Rightarrow> Goto [WTop]
     | p # ps \<Rightarrow> if have_instance (pb_cls p) (native w) then Goto [WDecide p ps True] else Goto [WScan p ps], w)"
| "exec_frame a t (WScan p ps) w = Some (Goto [case find_service (fw a) (pb_cls p) of
     None \<Rightarrow> WDecide p ps False | Some (i, tok) \<Rightarrow> WAdopt p ps i tok], w)"
| "exec_frame a t (WAdopt p ps i tok) w =
     Some (Goto [WDecide p ps True], w\<lparr> native := adopt (pb_cls p) i tok (native w) \<rparr>)"
| "exec_frame a t (WDecide p ps h) w =
     Some (Goto [if h \<or> a_now a > pb_deadlineMs p then WClaim p ps h else WItems ps], w)"
| "exec_frame a t (WClaim p ps h) w = Some (w_claim p ps h w)"

text \<open>A call that returns to \<open>bindService\<close> with an error takes the registration back.\<close>

definition resume :: "int \<Rightarrow> frame list \<Rightarrow> frame list" where
  "resume r fs = (case fs of JResult x # gs \<Rightarrow> if r < 0 then JUnregister x # gs else gs | _ \<Rightarrow> fs)"

definition after :: "frame_result \<Rightarrow> frame list \<Rightarrow> frame list" where
  "after out fs = (case out of Goto gs \<Rightarrow> gs @ fs | Return r \<Rightarrow> resume r fs)"

definition step :: "answers \<Rightarrow> nat \<Rightarrow> world \<Rightarrow> world option" where
  "step a t w = (case threads w t of [] \<Rightarrow> None
     | f # fs \<Rightarrow> (case exec_frame a t f w of None \<Rightarrow> None
         | Some (out, w') \<Rightarrow> Some (w'\<lparr> threads := (threads w')(t := after out fs) \<rparr>)))"

datatype call = CBind nat string string | CUnbind nat | CStart WantParams

fun call_frame :: "call \<Rightarrow> frame" where
  "call_frame (CBind x b c) = JRegister x b c"
| "call_frame (CUnbind x) = JUnbind x"
| "call_frame (CStart v) = SGate v"

definition in_onBind :: "frame \<Rightarrow> bool" where
  "in_onBind f \<longleftrightarrow> (case f of DOnBind b c k \<Rightarrow> True | _ \<Rightarrow> False)"

definition in_app :: "frame list \<Rightarrow> bool" where
  "in_app fs \<longleftrightarrow> (case fs of [] \<Rightarrow> True | f # gs \<Rightarrow> in_onBind f)"

definition enter :: "nat \<Rightarrow> call \<Rightarrow> world \<Rightarrow> world option" where
  "enter t cl w = (if in_app (threads w t) then Some (w\<lparr> threads := (threads w)(t := call_frame cl # threads w t) \<rparr>) else None)"

definition binding :: "string \<Rightarrow> frame \<Rightarrow> bool" where
  "binding c f \<longleftrightarrow> (case f of DOnBind b c' k \<Rightarrow> c' = c | _ \<Rightarrow> False)"

text \<open>
  Runs. \<open>S\<close> is a set of classes that are not bound from within their own \<open>onBind\<close>; with the empty set nothing is
  asked of the app.
\<close>

definition polite :: "string set \<Rightarrow> nat \<Rightarrow> call \<Rightarrow> world \<Rightarrow> bool" where
  "polite S t cl w \<longleftrightarrow> (case cl of CBind x b c \<Rightarrow> c \<notin> S \<or> \<not> list_ex (binding c) (threads w t) | _ \<Rightarrow> True)"

inductive reach :: "string set \<Rightarrow> world \<Rightarrow> bool" for S where
  init: "reach S world_init"
| step: "reach S w \<Longrightarrow> step a t w = Some w' \<Longrightarrow> reach S w'"
| enter: "reach S w \<Longrightarrow> polite S t cl w \<Longrightarrow> enter t cl w = Some w' \<Longrightarrow> reach S w'"

section \<open>How a step changes the threads\<close>

lemmas part_defs = j_register_def j_connect_def j_unregister_def j_disconnect_def b_create_def b_queue_def lock_bindOp_def
  unlock_bindOp_def d_notify_def w_claim_def note_ev_def

lemma step_cases:
  assumes "step a t w = Some w'"
  obtains f fs out v where "threads w t = f # fs" "exec_frame a t f w = Some (out, v)"
    "w' = v\<lparr> threads := (threads v)(t := after out fs) \<rparr>"
  using assms by (auto simp: step_def split: list.splits option.splits prod.splits)

definition new_frames :: "frame_result \<Rightarrow> frame set" where
  "new_frames out = (case out of Goto gs \<Rightarrow> set gs | Return r \<Rightarrow> {})"

lemma new_frames_simps [simp]: "new_frames (Goto gs) = set gs" "new_frames (Return r) = {}"
  by (simp_all add: new_frames_def)

lemma set_resume: "set (resume r fs) \<subseteq> set fs \<union> range JUnregister"
  by (auto simp: resume_def split: list.splits frame.splits if_splits)

lemma set_after: "set (after out fs) \<subseteq> new_frames out \<union> set fs \<union> range JUnregister"
  using set_resume by (fastforce simp: after_def split: frame_result.splits)

text \<open>A step only touches the stack of its own thread, except that it may start a worker.\<close>

lemma exec_threads:
  assumes "exec_frame a t f w = Some (out, w')"
  shows "threads w' = threads w \<or> (\<exists>u. threads w u = [] \<and> threads w' = (threads w)(u := [WAttach]))"
  using assms by (cases f) (auto simp: part_defs Let_def split: if_splits option.splits prod.splits)

lemma step_frames:
  assumes "threads w t = f # fs" "exec_frame a t f w = Some (out, v)"
    "w' = v\<lparr> threads := (threads v)(t := after out fs) \<rparr>" "g \<in> set (threads w' u)"
  shows "g \<in> set (threads w u) \<or> (u = t \<and> g \<in> new_frames out) \<or> g = WAttach \<or> g \<in> range JUnregister"
proof (cases "u = t")
  case True
  then have "g \<in> set (after out fs)" using assms by simp
  then show ?thesis using set_after[of out fs] assms(1) True by auto
next
  case False
  then show ?thesis using exec_threads[OF assms(2)] assms(3,4) by (auto split: if_splits)
qed

lemma enter_cases:
  assumes "enter t cl w = Some w'"
  obtains "in_app (threads w t)" "w' = w\<lparr> threads := (threads w)(t := call_frame cl # threads w t) \<rparr>"
  using assms by (auto simp: enter_def split: if_splits)

section \<open>One create per service\<close>

lemma svc_upd: "svc d (s\<lparr> g_svc := (g_svc s)(c \<mapsto> r) \<rparr>) = (if d = c then r else svc d s)"
  by (simp add: svc_def)

lemma svc_other [simp]: "svc d (s\<lparr> g_pending := q \<rparr>) = svc d s" "svc d (s\<lparr> g_inappConnIds := I \<rparr>) = svc d s"
  "svc d (s\<lparr> g_workerRunning := v \<rparr>) = svc d s" "svc d (s\<lparr> g_startId := n \<rparr>) = svc d s"
  by (simp_all add: svc_def)

lemma svc_cong: "g_svc s = g_svc s' \<Longrightarrow> svc c s = svc c s'"
  by (simp add: svc_def)

definition token_of :: "string \<Rightarrow> world \<Rightarrow> nat option" where
  "token_of c w = svc_token (svc c (native w))"

lemma token_adopt: "svc_token (svc d s) = Some t \<Longrightarrow> svc_token (svc d (adopt c i tok s)) = Some t"
  by (auto simp: adopt_def Let_def svc_upd)

lemma token_store: "svc_token (svc d (store_ibinder c ib s)) = svc_token (svc d s)"
  by (simp add: store_ibinder_def svc_upd)

lemma isService_g_svc: "g_svc (snd (inproc_isService f c s)) = g_svc s"
  by (auto simp: inproc_isService_def split: option.splits)

lemma in_process_g_svc: "g_svc (snd (in_process f b c s)) = g_svc s"
  by (simp add: in_process_def isService_g_svc)

lemma in_process_svc: "in_process f b c s = (v, s') \<Longrightarrow> svc d s' = svc d s"
  using in_process_g_svc[of f b c s] by (auto intro: svc_cong)

lemma ensureCreated_cases:
  assumes "ensureCreated f c s = (r, new, s')"
  shows "svc_token (svc d s) = Some t \<Longrightarrow> svc_token (svc d s') = Some t"
    "r = Some t \<Longrightarrow> svc_token (svc c s') = Some t"
    "new \<Longrightarrow> svc_token (svc c s) = None \<and> r = Some (fw_token f)"
  using assms by (auto simp: ensureCreated_def adoptExistingService_def svc_upd token_adopt split: if_splits option.splits)

text \<open>Tokens never change.\<close>

lemma exec_token:
  assumes "exec_frame a t f w = Some (out, w')" "token_of c w = Some k"
  shows "token_of c w' = Some k"
  using assms by (cases f) (auto simp: part_defs Let_def token_of_def svc_upd token_adopt token_store in_process_svc
     queue_bind_def claim_def inproc_disconnect_def
     dest: ensureCreated_cases(1) split: if_splits option.splits prod.splits)

section \<open>Invariants of the shared state\<close>

text \<open>An invariant that does not mention the stacks holds in every run when every frame keeps it.\<close>

locale shared_invariant =
  fixes P :: "world \<Rightarrow> bool"
  assumes initially: "P world_init"
    and exec: "exec_frame a t f w = Some (out, w') \<Longrightarrow> P w \<Longrightarrow> P w'"
    and stacks: "P (w\<lparr> threads := T \<rparr>) = P w"
begin

lemma always: "reach S w \<Longrightarrow> P w"
proof (induction rule: reach.induct)
  case init then show ?case by (rule initially)
next
  case (step w a t w')
  obtain f fs out v where "exec_frame a t f w = Some (out, v)" "w' = v\<lparr> threads := (threads v)(t := after out fs) \<rparr>"
    using step.hyps(2) by (rule step_cases)
  then show ?case using exec step.IH stacks by blast
next
  case enter then show ?case using stacks by (auto elim: enter_cases)
qed

end

fun creates :: "string \<Rightarrow> event \<Rightarrow> bool" where
  "creates c (Created d t) \<longleftrightarrow> d = c"
| "creates c e \<longleftrightarrow> False"

text \<open>The token a frame of \<open>inproc_startService\<close> holds is the one of the record.\<close>

definition start_frame :: "frame \<Rightarrow> (string \<times> nat) option" where
  "start_frame f = (case f of SThread v k \<Rightarrow> Some (want_ability v, k) | SRead v k \<Rightarrow> Some (want_ability v, k)
     | SWrite v k n \<Rightarrow> Some (want_ability v, k) | SArgs v k n \<Rightarrow> Some (want_ability v, k) | _ \<Rightarrow> None)"

definition tokens_ok :: "world \<Rightarrow> bool" where
  "tokens_ok w \<longleftrightarrow>
     (\<forall>u f c k. f \<in> set (threads w u) \<longrightarrow> start_frame f = Some (c, k) \<longrightarrow> token_of c w = Some k) \<and>
     (\<forall>c k. Created c k \<in> set (events w) \<longrightarrow> token_of c w = Some k) \<and>
     (\<forall>c k n i. Args c k n i \<in> set (events w) \<longrightarrow> token_of c w = Some k) \<and>
     (\<forall>c. length (filter (creates c) (events w)) \<le> 1)"

lemma ensureCreated_new:
  "ensureCreated f c s = (r, True, s') \<Longrightarrow> svc_token (svc c s) = None"
  "ensureCreated f c s = (r, True, s') \<Longrightarrow> svc_token (svc c s') = Some (fw_token f)"
  using ensureCreated_cases(2,3)[of f c s r True s'] by auto

lemma exec_new_events:
  assumes "exec_frame a t f w = Some (out, w')"
  obtains es where "events w' = events w @ es" "\<forall>c k. Created c k \<in> set es \<longrightarrow> token_of c w = None \<and> token_of c w' = Some k"
    "\<forall>c. length (filter (creates c) es) \<le> 1" "\<forall>c k n i. Args c k n i \<in> set es \<longrightarrow> start_frame f = Some (c, k)"
proof -
  have "\<exists>es. events w' = events w @ es \<and> (\<forall>c k. Created c k \<in> set es \<longrightarrow> token_of c w = None \<and> token_of c w' = Some k)
     \<and> (\<forall>c. length (filter (creates c) es) \<le> 1) \<and> (\<forall>c k n i. Args c k n i \<in> set es \<longrightarrow> start_frame f = Some (c, k))"
    using assms by (cases f)
      (auto simp: part_defs Let_def token_of_def start_frame_def dest: ensureCreated_new split: if_splits option.splits prod.splits list.splits)
  then show ?thesis using that by blast
qed

lemma exec_start_frames:
  assumes "exec_frame a t f w = Some (out, w')" "g \<in> new_frames out" "start_frame g = Some (c, k)"
  shows "start_frame f = Some (c, k) \<or> token_of c w' = Some k"
  using assms by (cases f)
    (auto simp: part_defs Let_def token_of_def start_frame_def dest: ensureCreated_cases split: if_splits option.splits prod.splits list.splits)

lemma tokens_okI:
  assumes "\<And>u f c k. f \<in> set (threads w u) \<Longrightarrow> start_frame f = Some (c, k) \<Longrightarrow> token_of c w = Some k"
    "\<And>c k. Created c k \<in> set (events w) \<Longrightarrow> token_of c w = Some k"
    "\<And>c k n i. Args c k n i \<in> set (events w) \<Longrightarrow> token_of c w = Some k"
    "\<And>c. length (filter (creates c) (events w)) \<le> 1"
  shows "tokens_ok w"
  using assms unfolding tokens_ok_def by blast

lemma start_frame_others: "start_frame WAttach = None" "start_frame (JUnregister x) = None" "start_frame (JResult x) = None"
  by (simp_all add: start_frame_def)

lemma creates_iff: "filter (creates c) es \<noteq> [] \<longleftrightarrow> (\<exists>k. Created c k \<in> set es)"
proof -
  have "creates c e \<longleftrightarrow> (\<exists>k. e = Created c k)" for e by (cases "(c, e)" rule: creates.cases) auto
  then show ?thesis by (auto simp: filter_empty_conv)
qed

lemma step_tokens:
  assumes "tokens_ok w" "step a t w = Some w'"
  shows "tokens_ok w'"
proof -
  obtain f fs out v where x: "threads w t = f # fs" "exec_frame a t f w = Some (out, v)"
    "w' = v\<lparr> threads := (threads v)(t := after out fs) \<rparr>" using assms(2) by (rule step_cases)
  obtain es where es: "events v = events w @ es" "\<forall>c k. Created c k \<in> set es \<longrightarrow> token_of c w = None \<and> token_of c v = Some k"
    "\<forall>c. length (filter (creates c) es) \<le> 1" "\<forall>c k n i. Args c k n i \<in> set es \<longrightarrow> start_frame f = Some (c, k)"
    using exec_new_events[OF x(2)] by blast
  have tok: "token_of c w' = token_of c v" for c by (simp add: x(3) token_of_def)
  have ev: "events w' = events w @ es" by (simp add: x(3) es(1))
  note keep = exec_token[OF x(2)]
  have ok: "token_of c w = Some k" if "g \<in> set (threads w u)" "start_frame g = Some (c, k)" for g u c k
    using assms(1) that unfolding tokens_ok_def by blast
  have top: "token_of c v = Some k" if "start_frame f = Some (c, k)" for c k
    using keep ok[of f t c k] that x(1) by simp
  show ?thesis
  proof (rule tokens_okI)
    fix u g c k assume g: "g \<in> set (threads w' u)" "start_frame g = Some (c, k)"
    show "token_of c w' = Some k"
      using step_frames[OF x g(1)] exec_start_frames[OF x(2)] g(2) ok keep top start_frame_others tok by (metis option.distinct(1) rangeE)
  next
    fix c k assume "Created c k \<in> set (events w')"
    then show "token_of c w' = Some k" using assms(1) es(2) keep unfolding tokens_ok_def ev tok by auto
  next
    fix c k n i assume "Args c k n i \<in> set (events w')"
    then consider "Args c k n i \<in> set (events w)" | "Args c k n i \<in> set es" by (auto simp: ev)
    then show "token_of c w' = Some k"
    proof cases
      case 1 then show ?thesis using assms(1) keep unfolding tokens_ok_def tok by blast
    next
      case 2 then show ?thesis using es(4) top unfolding tok by blast
    qed
  next
    fix c show "length (filter (creates c) (events w')) \<le> 1"
    proof (cases "filter (creates c) es = []")
      case True then show ?thesis using assms(1) by (simp add: ev tokens_ok_def)
    next
      case False
      then have "token_of c w = None" using es(2) unfolding creates_iff by blast
      then have "filter (creates c) (events w) = []" using assms(1) creates_iff[of c "events w"] unfolding tokens_ok_def by auto
      then show ?thesis using es(3) by (simp add: ev)
    qed
  qed
qed

lemma enter_tokens:
  assumes "tokens_ok w" "enter t cl w = Some w'"
  shows "tokens_ok w'"
proof -
  have "w' = w\<lparr> threads := (threads w)(t := call_frame cl # threads w t) \<rparr>" using assms(2) by (elim enter_cases)
  moreover have "start_frame (call_frame cl) = None" by (cases cl) (simp_all add: start_frame_def)
  ultimately show ?thesis using assms(1) unfolding tokens_ok_def token_of_def by (auto split: if_splits)
qed

lemma reach_tokens: "reach S w \<Longrightarrow> tokens_ok w"
proof (induction rule: reach.induct)
  case init then show ?case by (simp add: tokens_ok_def world_init_def)
qed (blast intro: step_tokens enter_tokens)+


section \<open>The lock and the shape of the stacks\<close>

definition locked :: "frame \<Rightarrow> bool" where
  "locked f \<longleftrightarrow> (case f of DCheck b c k \<Rightarrow> True | DCall b c k \<Rightarrow> True | DOnBind b c k \<Rightarrow> True | DStore b c k ib \<Rightarrow> True
     | DRead b c k \<Rightarrow> True | _ \<Rightarrow> False)"

definition depth :: "frame list \<Rightarrow> nat" where
  "depth fs = length (filter locked fs)"

definition lock_ok :: "world \<Rightarrow> bool" where
  "lock_ok w \<longleftrightarrow> (\<forall>t. depth (threads w t) =
     (case g_bindOpMu w of None \<Rightarrow> 0 | Some (u, n) \<Rightarrow> if u = t then n else 0))"

lemma depth_simps [simp]: "depth [] = 0" "depth (f # fs) = (if locked f then 1 else 0) + depth fs" "depth (fs @ gs) = depth fs + depth gs"
  by (simp_all add: depth_def)

lemma depth_resume [simp]: "depth (resume r fs) = depth fs"
  by (auto simp: resume_def locked_def split: list.splits frame.splits)

definition lock_frame :: "frame \<Rightarrow> bool" where
  "lock_frame f \<longleftrightarrow> (case f of DLock b c k \<Rightarrow> True | DCheck b c k \<Rightarrow> True | DRead b c k \<Rightarrow> True | _ \<Rightarrow> False)"

lemma exec_no_lock:
  assumes "exec_frame a t f w = Some (out, w')" "\<not> lock_frame f"
  shows "g_bindOpMu w' = g_bindOpMu w"
  using assms by (cases f) (auto simp: part_defs Let_def lock_frame_def split: if_splits option.splits prod.splits)

lemma exec_same_depth:
  assumes "exec_frame a t f w = Some (out, w')" "\<not> lock_frame f"
  shows "depth (after out fs) = depth (f # fs)"
  using assms by (cases f) (auto simp: part_defs Let_def after_def lock_frame_def locked_def split: if_splits option.splits prod.splits list.splits)

lemma exec_lock:
  assumes "exec_frame a t f w = Some (out, w')"
  shows "(g_bindOpMu w' = g_bindOpMu w \<and> depth (after out fs) = depth (f # fs))
    \<or> (lock_bindOp t w = Some w' \<and> depth (after out fs) = depth (f # fs) + 1)
    \<or> (g_bindOpMu w' = g_bindOpMu (unlock_bindOp w) \<and> depth (f # fs) = depth (after out fs) + 1)"
proof (cases "lock_frame f")
  case True
  then show ?thesis using assms by (cases f) (auto simp: lock_frame_def after_def locked_def split: if_splits option.splits)
qed (use exec_no_lock exec_same_depth assms in blast)

lemma step_lock:
  assumes "lock_ok w" "step a t w = Some w'"
  shows "lock_ok w'"
proof -
  obtain f fs out v where x: "threads w t = f # fs" "exec_frame a t f w = Some (out, v)"
    "w' = v\<lparr> threads := (threads v)(t := after out fs) \<rparr>" using assms(2) by (rule step_cases)
  have d: "depth (threads w u) = (case g_bindOpMu w of None \<Rightarrow> 0 | Some (o', n) \<Rightarrow> if o' = u then n else 0)" for u
    using assms(1) by (simp add: lock_ok_def)
  have other: "depth (threads w' u) = depth (threads w u)" if "u \<noteq> t" for u
    using exec_threads[OF x(2)] that by (auto simp: x(3) locked_def)
  have own: "threads w' t = after out fs" by (simp add: x(3))
  have "depth (threads w' u) = (case g_bindOpMu w' of None \<Rightarrow> 0 | Some (o', n) \<Rightarrow> if o' = u then n else 0)" for u
    using exec_lock[OF x(2), of fs] d[of u] d[of t] other[of u] own x(1)
    by (cases "u = t") (auto simp: x(3) lock_bindOp_def unlock_bindOp_def split: option.splits if_splits prod.splits)
  then show ?thesis by (simp add: lock_ok_def)
qed

lemma call_frame_simps: "\<not> locked (call_frame cl)"
  by (cases cl) (simp_all add: locked_def)

lemma enter_lock: "lock_ok w \<Longrightarrow> enter t cl w = Some w' \<Longrightarrow> lock_ok w'"
  by (elim enter_cases) (simp add: lock_ok_def call_frame_simps)

lemma reach_lock: "reach S w \<Longrightarrow> lock_ok w"
proof (induction rule: reach.induct)
  case init then show ?case by (simp add: lock_ok_def world_init_def)
qed (blast intro: step_lock enter_lock)+

lemma mutex:
  assumes "reach S w" "f \<in> set (threads w t)" "locked f" "g \<in> set (threads w u)" "locked g"
  shows "t = u"
proof -
  have "depth (threads w t) \<noteq> 0" "depth (threads w u) \<noteq> 0" using assms(2-5) by (auto simp: depth_def filter_empty_conv)
  then show ?thesis using reach_lock[OF assms(1)] by (auto simp: lock_ok_def split: option.splits if_splits prod.splits)
qed

text \<open>Below the top of a stack there are only frames that wait for a call to return.\<close>

definition waiting :: "frame \<Rightarrow> bool" where
  "waiting f \<longleftrightarrow> (case f of DOnBind b c k \<Rightarrow> True | JResult x \<Rightarrow> True | WItems ps \<Rightarrow> True | _ \<Rightarrow> False)"

definition bind_class :: "frame \<Rightarrow> string option" where
  "bind_class f = (case f of JRegister x b c \<Rightarrow> Some c | JConnect x b c k \<Rightarrow> Some c
     | BInsert b c k \<Rightarrow> Some c | BLookup b c k \<Rightarrow> Some c | BScan b c k \<Rightarrow> Some c | BAdopt b c k i tok \<Rightarrow> Some c
     | BCreate b c k \<Rightarrow> Some c | BQueue b c k \<Rightarrow> Some c | DSnap b c k \<Rightarrow> Some c | DLock b c k \<Rightarrow> Some c
     | DCheck b c k \<Rightarrow> Some c | DCall b c k \<Rightarrow> Some c | DOnBind b c k \<Rightarrow> Some c | DStore b c k ib \<Rightarrow> Some c
     | DRead b c k \<Rightarrow> Some c | DNotify b c k ib \<Rightarrow> Some c | _ \<Rightarrow> None)"

definition worker_frame :: "frame \<Rightarrow> bool" where
  "worker_frame f \<longleftrightarrow> (case f of WAttach \<Rightarrow> True | WTop \<Rightarrow> True | WItems ps \<Rightarrow> True | WScan p ps \<Rightarrow> True
     | WAdopt p ps i tok \<Rightarrow> True | WDecide p ps h \<Rightarrow> True | WClaim p ps h \<Rightarrow> True | _ \<Rightarrow> False)"

fun stack_ok :: "string set \<Rightarrow> frame list \<Rightarrow> bool" where
  "stack_ok S [] \<longleftrightarrow> True"
| "stack_ok S (f # fs) \<longleftrightarrow> list_all waiting fs \<and> (worker_frame f \<longrightarrow> fs = []) \<and>
     (\<forall>c\<in>S. bind_class f = Some c \<longrightarrow> \<not> list_ex (binding c) fs) \<and> stack_ok S fs"

lemma stack_ok_resume: "stack_ok S fs \<Longrightarrow> stack_ok S (resume r fs)"
  by (cases fs) (auto simp: resume_def bind_class_def worker_frame_def waiting_def split: frame.splits)

lemma exec_stack:
  assumes "exec_frame a t f w = Some (out, w')" "stack_ok S (f # fs)"
  shows "stack_ok S (after out fs)"
  using assms by (cases f) (auto simp: part_defs Let_def after_def bind_class_def worker_frame_def waiting_def binding_def stack_ok_resume
     split: if_splits option.splits prod.splits list.splits)

lemma step_stack:
  assumes "\<forall>u. stack_ok S (threads w u)" "step a t w = Some w'"
  shows "\<forall>u. stack_ok S (threads w' u)"
proof
  fix u
  obtain f fs out v where x: "threads w t = f # fs" "exec_frame a t f w = Some (out, v)"
    "w' = v\<lparr> threads := (threads v)(t := after out fs) \<rparr>" using assms(2) by (rule step_cases)
  show "stack_ok S (threads w' u)"
    using exec_threads[OF x(2)] exec_stack[OF x(2)] assms(1)[rule_format, of t] assms(1)[rule_format, of u] x(1)
    by (auto simp: x(3) bind_class_def)
qed

lemma enter_stack:
  assumes "\<forall>u. stack_ok S (threads w u)" "polite S t cl w" "enter t cl w = Some w'"
  shows "\<forall>u. stack_ok S (threads w' u)"
proof -
  have x: "in_app (threads w t)" "w' = w\<lparr> threads := (threads w)(t := call_frame cl # threads w t) \<rparr>"
    using assms(3) by (elim enter_cases; simp)+
  have "list_all waiting (threads w t)"
    using x(1) assms(1)[rule_format, of t] by (cases "threads w t") (auto simp: in_app_def in_onBind_def waiting_def split: frame.splits)
  then have "stack_ok S (call_frame cl # threads w t)"
    using assms(1,2) by (cases cl) (auto simp: polite_def bind_class_def worker_frame_def)
  then show ?thesis using assms(1) by (simp add: x(2))
qed

lemma reach_stack: "reach S w \<Longrightarrow> \<forall>u. stack_ok S (threads w u)"
proof (induction rule: reach.induct)
  case init then show ?case by (simp add: world_init_def)
next
  case (step w a t w') show ?case using step.IH step.hyps(2) by (rule step_stack)
next
  case (enter w t cl w') show ?case using enter.IH enter.hyps(2,3) by (rule enter_stack)
qed

end
