(* ===== verification/InprocBinding.thy ===== *)
theory InprocBinding
  imports InprocThreads
begin

text \<open>
  The calls of \<open>onBind\<close>: an invariant over the frames that are about to call it, have called it or carry its
  result shows that it runs once per class, whatever threads bind the class, as long as the app does not bind a class
  from within its own \<open>onBind\<close>.
\<close>

section \<open>One \<open>onBind\<close> per service\<close>

text \<open>Frames that are about to call \<open>onBind\<close> of a class, or have called it and not yet stored the result.\<close>

definition started_bind :: "string \<Rightarrow> frame \<Rightarrow> bool" where
  "started_bind c f \<longleftrightarrow> (case f of DOnBind b c' k \<Rightarrow> c' = c | DStore b c' k ib \<Rightarrow> c' = c | _ \<Rightarrow> False)"

definition calling :: "string \<Rightarrow> frame \<Rightarrow> bool" where
  "calling c f \<longleftrightarrow> started_bind c f \<or> (case f of DCall b c' k \<Rightarrow> c' = c | _ \<Rightarrow> False)"

fun binds :: "string \<Rightarrow> event \<Rightarrow> bool" where
  "binds c (OnBind d) \<longleftrightarrow> d = c"
| "binds c e \<longleftrightarrow> False"

text \<open>Frames and events that carry the object \<open>onBind\<close> returned; \<open>None\<close> means it is still to be read.\<close>

definition carries :: "frame \<Rightarrow> (string \<times> nat option option) option" where
  "carries f = (case f of DRead b c k \<Rightarrow> Some (c, None) | DNotify b c k ib \<Rightarrow> Some (c, Some ib) | _ \<Rightarrow> None)"

lemma calling_locked: "calling c f \<Longrightarrow> locked f" "calling c f \<Longrightarrow> bind_class f = Some c"
  "waiting f \<Longrightarrow> calling c f = binding c f" "started_bind c f \<Longrightarrow> calling c f"
  by (auto simp: calling_def started_bind_def locked_def bind_class_def waiting_def binding_def split: frame.splits)

text \<open>On one stack at most one frame is calling.\<close>

lemma calling_top:
  assumes "stack_ok S (f # fs)" "c \<in> S" "bind_class f = Some c" "g \<in> set fs"
  shows "\<not> calling c g"
proof -
  have "waiting g" "\<not> binding c g" using assms by (auto simp: list_all_iff list_ex_iff)
  then show ?thesis by (simp add: calling_locked)
qed

text \<open>What the steps do to a record.\<close>

lemma bind_adopt: "bindCalled (svc d (adopt c i tok s)) = bindCalled (svc d s)"
  "svc_ibinder (svc d (adopt c i tok s)) = svc_ibinder (svc d s)"
  by (simp_all add: adopt_def Let_def svc_upd)

lemma bind_ensureCreated:
  assumes "ensureCreated f c s = (r, new, s')"
  shows "bindCalled (svc d s') = bindCalled (svc d s)" "svc_ibinder (svc d s') = svc_ibinder (svc d s)"
  using assms by (auto simp: ensureCreated_def adoptExistingService_def svc_upd bind_adopt split: if_splits option.splits prod.splits)

lemma bind_store: "d \<noteq> c \<Longrightarrow> svc d (store_ibinder c ib s) = svc d s"
  by (simp add: store_ibinder_def svc_upd)

lemma exec_bound:
  assumes "exec_frame a t f w = Some (out, w')" "\<And>b k ib. f \<noteq> DStore b c k ib"
  shows "bindCalled (svc c (native w')) = bindCalled (svc c (native w))"
    "svc_ibinder (svc c (native w')) = svc_ibinder (svc c (native w))"
  using assms by (cases f; force simp: part_defs Let_def svc_upd bind_adopt bind_store in_process_svc queue_bind_def claim_def
     inproc_disconnect_def dest: bind_ensureCreated[where d=c] split: if_splits option.splits prod.splits)+

lemma exec_bind_events:
  assumes "exec_frame a t f w = Some (out, w')"
  obtains es where "events w' = events w @ es"
    "filter (binds c) es = (if \<exists>b k. f = DCall b c k then [OnBind c] else [])"
    "\<forall>k ib. Connected k c ib \<in> set es \<longrightarrow> (\<exists>b. f = DNotify b c k ib)"
proof -
  have "\<exists>es. events w' = events w @ es \<and> filter (binds c) es = (if \<exists>b k. f = DCall b c k then [OnBind c] else [])
     \<and> (\<forall>k ib. Connected k c ib \<in> set es \<longrightarrow> (\<exists>b. f = DNotify b c k ib))"
    using assms by (cases f) (auto simp: part_defs Let_def split: if_splits option.splits prod.splits list.splits)
  then show ?thesis using that by blast
qed

lemma resume_keeps: "g \<in> set fs \<Longrightarrow> g \<notin> range JResult \<Longrightarrow> g \<in> set (resume r fs)"
  by (cases fs) (auto simp: resume_def split: frame.splits)

lemma step_keeps:
  assumes "threads w t = f # fs" "exec_frame a t f w = Some (out, v)"
    "w' = v\<lparr> threads := (threads v)(t := after out fs) \<rparr>" "g \<in> set (threads w u)" "u = t \<Longrightarrow> g \<in> set fs" "g \<notin> range JResult"
  shows "g \<in> set (threads w' u)"
  using exec_threads[OF assms(2)] assms(3-6) by (auto simp: after_def resume_keeps split: frame_result.splits)

definition some_started :: "string \<Rightarrow> world \<Rightarrow> bool" where
  "some_started c w \<longleftrightarrow> (\<exists>t. \<exists>f\<in>set (threads w t). started_bind c f)"

definition once_ok :: "string \<Rightarrow> world \<Rightarrow> bool" where
  "once_ok c w \<longleftrightarrow>
     (\<forall>t f. f \<in> set (threads w t) \<longrightarrow> calling c f \<longrightarrow> \<not> bindCalled (svc c (native w))) \<and>
     length (filter (binds c) (events w)) = (if bindCalled (svc c (native w)) \<or> some_started c w then 1 else 0) \<and>
     (\<forall>t f ib. f \<in> set (threads w t) \<longrightarrow> carries f = Some (c, ib) \<longrightarrow>
        bindCalled (svc c (native w)) \<and> (ib = None \<or> ib = Some (svc_ibinder (svc c (native w))))) \<and>
     (\<forall>k ib. Connected k c ib \<in> set (events w) \<longrightarrow>
        bindCalled (svc c (native w)) \<and> ib = svc_ibinder (svc c (native w)))"

lemma once_okI:
  assumes "\<And>t f. f \<in> set (threads w t) \<Longrightarrow> calling c f \<Longrightarrow> \<not> bindCalled (svc c (native w))"
    "length (filter (binds c) (events w)) = (if bindCalled (svc c (native w)) \<or> some_started c w then 1 else 0)"
    "\<And>t f ib. f \<in> set (threads w t) \<Longrightarrow> carries f = Some (c, ib) \<Longrightarrow>
        bindCalled (svc c (native w)) \<and> (ib = None \<or> ib = Some (svc_ibinder (svc c (native w))))"
    "\<And>k ib. Connected k c ib \<in> set (events w) \<Longrightarrow>
        bindCalled (svc c (native w)) \<and> ib = svc_ibinder (svc c (native w))"
  shows "once_ok c w"
  using assms unfolding once_ok_def by blast

lemma frame_others: "\<not> calling c WAttach" "\<not> calling c (JUnregister x)" "\<not> started_bind c WAttach"
  "\<not> started_bind c (JUnregister x)" "carries WAttach = None" "carries (JUnregister x) = None" "\<not> calling c (JResult x)"
  by (simp_all add: calling_def started_bind_def carries_def)

text \<open>The new frames of a step.\<close>

lemma exec_new_calling:
  assumes "exec_frame a t f w = Some (out, w')" "g \<in> new_frames out" "calling c g"
  shows "calling c f \<or> \<not> bindCalled (svc c (native w'))"
  using assms by (cases f) (auto simp: part_defs Let_def calling_def started_bind_def split: if_splits option.splits prod.splits list.splits)

lemma exec_new_started:
  assumes "exec_frame a t f w = Some (out, w')" "g \<in> new_frames out" "started_bind c g"
  shows "(\<exists>b k. f = DCall b c k) \<or> (\<exists>b k. f = DOnBind b c k)"
  using assms by (cases f) (auto simp: part_defs Let_def calling_def started_bind_def split: if_splits option.splits prod.splits list.splits)

lemma exec_new_carries:
  assumes "exec_frame a t f w = Some (out, w')" "g \<in> new_frames out" "carries g = Some (c, ib)"
  shows "(bindCalled (svc c (native w')) \<and> (ib = None \<or> ib = Some (svc_ibinder (svc c (native w')))))
    \<or> (carries f = Some (c, None) \<and> ib = Some (svc_ibinder (svc c (native w'))))"
  using assms by (cases f) (auto simp: part_defs Let_def carries_def store_ibinder_def svc_upd split: if_splits option.splits prod.splits list.splits)

text \<open>A step that does not store a result keeps what was delivered.\<close>

lemma once_quiet:
  assumes "once_ok c w" "threads w t = f # fs" "exec_frame a t f w = Some (out, v)"
    "w' = v\<lparr> threads := (threads v)(t := after out fs) \<rparr>" "\<not> calling c f"
  shows "once_ok c w'"
proof -
  note x = assms(2-4)
  obtain es where es: "events v = events w @ es" "filter (binds c) es = (if \<exists>b k. f = DCall b c k then [OnBind c] else [])"
    "\<forall>k ib. Connected k c ib \<in> set es \<longrightarrow> (\<exists>b. f = DNotify b c k ib)" using exec_bind_events[OF x(2)] by blast
  have nf: "f \<noteq> DStore b c k ib" "f \<noteq> DCall b c k" "f \<noteq> DOnBind b c k" for b k ib
    using assms(5) by (auto simp: calling_def started_bind_def)
  have same: "bindCalled (svc c (native w')) = bindCalled (svc c (native w))"
    "svc_ibinder (svc c (native w')) = svc_ibinder (svc c (native w))"
    "bindCalled (svc c (native v)) = bindCalled (svc c (native w))"
    "svc_ibinder (svc c (native v)) = svc_ibinder (svc c (native w))"
    using exec_bound[OF x(2) nf(1)] by (simp_all add: x(3))
  have top: "f \<in> set (threads w t)" by (simp add: x(1))
  have started: "some_started c w' \<longleftrightarrow> some_started c w"
  proof
    assume "some_started c w'"
    then obtain u g where g: "g \<in> set (threads w' u)" "started_bind c g" by (auto simp: some_started_def)
    then show "some_started c w"
      using step_frames[OF x g(1)] exec_new_started[OF x(2) _ g(2)] nf frame_others by (auto simp: some_started_def)
  next
    assume "some_started c w"
    then obtain u g where g: "g \<in> set (threads w u)" "started_bind c g" by (auto simp: some_started_def)
    have "u = t \<Longrightarrow> g \<in> set fs" using g x(1) assms(5) calling_locked(4) by auto
    moreover have "g \<notin> range JResult" using calling_locked(4)[OF g(2)] frame_others(7) by blast
    ultimately show "some_started c w'" using step_keeps[OF x g(1)] g(2) unfolding some_started_def by blast
  qed
  show ?thesis
  proof (rule once_okI)
    fix u g assume "g \<in> set (threads w' u)" "calling c g"
    then show "\<not> bindCalled (svc c (native w'))"
      using step_frames[OF x] exec_new_calling[OF x(2)] assms(1,5) frame_others same unfolding once_ok_def by (metis rangeE)
  next
    show "length (filter (binds c) (events w')) = (if bindCalled (svc c (native w')) \<or> some_started c w' then 1 else 0)"
      using assms(1) es(1,2) nf(2) by (simp add: x(3) started[unfolded x(3)] same[unfolded x(3)] once_ok_def)
  next
    fix u g ib assume g: "g \<in> set (threads w' u)" "carries g = Some (c, ib)"
    show "bindCalled (svc c (native w')) \<and> (ib = None \<or> ib = Some (svc_ibinder (svc c (native w'))))"
      using step_frames[OF x g(1)] exec_new_carries[OF x(2) _ g(2)] assms(1) g(2) frame_others same top
      unfolding once_ok_def by (metis option.distinct(1) rangeE)
  next
    fix k ib assume "Connected k c ib \<in> set (events w')"
    then consider "Connected k c ib \<in> set (events w)" | b where "f = DNotify b c k ib" using es(1,3) by (auto simp: x(3))
    then show "bindCalled (svc c (native w')) \<and> ib = svc_ibinder (svc c (native w'))"
    proof cases
      case 1 then show ?thesis using assms(1) same unfolding once_ok_def by metis
    next
      case 2
      then have "carries f = Some (c, Some ib)" by (simp add: carries_def)
      then show ?thesis using assms(1) top unfolding once_ok_def same by blast
    qed
  qed
qed

text \<open>A thread that is calling \<open>onBind\<close> is the only one.\<close>

lemma calling_unique:
  assumes "reach S w" "c \<in> S" "threads w t = f # fs" "calling c f" "g \<in> set (threads w u)" "calling c g"
  shows "u = t \<and> g = f"
proof -
  have "u = t" using mutex[OF assms(1)] assms(3-6) calling_locked(1) by (metis list.set_intros(1))
  moreover have "stack_ok S (f # fs)" using reach_stack[OF assms(1)] assms(3) by metis
  ultimately show ?thesis using calling_top[OF _ assms(2) calling_locked(2)[OF assms(4)], of fs] assms(3,5,6) by auto
qed

lemma once_call:
  assumes "reach S w" "c \<in> S" "once_ok c w" "threads w t = f # fs" "exec_frame a t f w = Some (out, v)"
    "w' = v\<lparr> threads := (threads v)(t := after out fs) \<rparr>" "calling c f"
  shows "once_ok c w'"
proof -
  note x = assms(4-6) and uniq = calling_unique[OF assms(1,2,4,7)]
  have top: "f \<in> set (threads w t)" by (simp add: x(1))
  have nb: "\<not> bindCalled (svc c (native w))" using assms(3,7) top unfolding once_ok_def by blast
  have nc: "Connected k c ib \<notin> set (events w)" for k ib using assms(3) nb unfolding once_ok_def by blast
  have rest: "\<not> calling c g" if "g \<in> set fs" for g
    using calling_top[OF _ assms(2) calling_locked(2)[OF assms(7)] that] reach_stack[OF assms(1)] x(1) by metis
  have nocarry: "carries g \<noteq> Some (c, ib)" if "g \<in> set (threads w u)" for g u ib using assms(3) nb that unfolding once_ok_def by blast
  have nofs: "carries g \<noteq> Some (c, ib)" if "g \<in> set fs" for g ib using nocarry[of g t] that x(1) by simp
  have cs: "carries (DOnBind b c k) = None" "carries (DStore b c k ib) = None" "carries (DRead b c k) = Some (c, None)" for b k ib by (simp_all add: carries_def)
  consider b k where "f = DCall b c k" | b k where "f = DOnBind b c k" | b k ib where "f = DStore b c k ib"
    using assms(7) by (auto simp: calling_def started_bind_def split: frame.splits)
  then show ?thesis
  proof cases
    case 1
    have st: "\<not> some_started c w" using uniq calling_locked(4) 1 by (force simp: some_started_def started_bind_def)
    have w': "w' = note_ev [OnBind c] w\<lparr> threads := (threads w)(t := DOnBind b c k # fs) \<rparr>" using x 1 by (auto simp: after_def note_ev_def)
    have sv: "svc c (native w') = svc c (native w)" by (simp add: w' note_ev_def)
    have "some_started c w'" by (auto simp: some_started_def w' started_bind_def intro!: exI[of _ t])
    then show ?thesis using assms(3) nb nc nocarry nofs st unfolding once_ok_def sv
      by (auto simp: w' note_ev_def cs split: if_splits)
  next
    case 2
    have w': "w' = w\<lparr> threads := (threads w)(t := DStore b c k (a_onBind a) # fs) \<rparr>" using x 2 by (auto simp: after_def)
    have sb: "started_bind c (DOnBind b c k)" "started_bind c (DStore b c k (a_onBind a))" by (simp_all add: started_bind_def)
    then have "some_started c w" "some_started c w'" using top 2 by (auto simp: some_started_def w' intro!: exI[of _ t])
    then show ?thesis using assms(3) nb nc nocarry nofs unfolding once_ok_def
      by (auto simp: w' cs split: if_splits)
  next
    case 3
    have w': "w' = w\<lparr> native := store_ibinder c ib (native w), threads := (threads w)(t := DRead b c k # fs) \<rparr>"
      using x 3 by (auto simp: after_def)
    have sv: "bindCalled (svc c (native w'))" by (simp add: w' store_ibinder_def svc_upd)
    have "started_bind c f" using 3 by (simp add: started_bind_def)
    then have st: "some_started c w" using top unfolding some_started_def by blast
    show ?thesis
    proof (rule once_okI)
      fix u g assume "g \<in> set (threads w' u)" "calling c g"
      then show "\<not> bindCalled (svc c (native w'))" using uniq[of g u] rest x(1)
        by (auto simp: w' calling_def started_bind_def split: if_splits)
    next
      show "length (filter (binds c) (events w')) = (if bindCalled (svc c (native w')) \<or> some_started c w' then 1 else 0)"
        using assms(3) st sv by (simp add: once_ok_def w')
    next
      fix u g ib' assume "g \<in> set (threads w' u)" "carries g = Some (c, ib')"
      then show "bindCalled (svc c (native w')) \<and> (ib' = None \<or> ib' = Some (svc_ibinder (svc c (native w'))))"
        using sv nocarry nofs cs(3) by (auto simp: w' split: if_splits)
    next
      fix k' ib' assume "Connected k' c ib' \<in> set (events w')"
      then show "bindCalled (svc c (native w')) \<and> ib' = svc_ibinder (svc c (native w'))" using nc by (simp add: w')
    qed
  qed
qed

lemma once_enter:
  assumes "once_ok c w" "enter t cl w = Some w'"
  shows "once_ok c w'"
proof -
  have w': "w' = w\<lparr> threads := (threads w)(t := call_frame cl # threads w t) \<rparr>" using assms(2) by (elim enter_cases)
  have q: "\<not> calling c (call_frame cl)" "carries (call_frame cl) = None" "\<not> started_bind c (call_frame cl)"
    by (cases cl; simp add: calling_def started_bind_def carries_def)+
  have "some_started c w' \<longleftrightarrow> some_started c w" using q by (auto simp: some_started_def w' split: if_splits)
  then show ?thesis using assms(1) q unfolding once_ok_def by (auto simp: w' split: if_splits)
qed

lemma reach_once:
  assumes "reach S w" "c \<in> S"
  shows "once_ok c w"
  using assms
proof (induction rule: reach.induct)
  case init then show ?case by (simp add: once_ok_def world_init_def some_started_def inproc_init_def svc_def SvcRec0_def)
next
  case (step w a t w')
  obtain f fs out v where x: "threads w t = f # fs" "exec_frame a t f w = Some (out, v)"
    "w' = v\<lparr> threads := (threads v)(t := after out fs) \<rparr>" using step.hyps(2) by (rule step_cases)
  show ?case using once_quiet[OF step.IH x] once_call[OF step.hyps(1) _ step.IH x] step.prems by blast
next
  case enter then show ?case using once_enter by blast
qed


end
