(* ===== verification/InprocQueue.thy ===== *)
theory InprocQueue
  imports InprocBinding
begin

text \<open>
  The queue of binds that wait for their service and the worker that serves it.
\<close>

section \<open>The worker and the queue\<close>

definition is_worker :: "world \<Rightarrow> nat \<Rightarrow> bool" where
  "is_worker w t \<longleftrightarrow> list_ex worker_frame (threads w t)"

definition worker_ok :: "world \<Rightarrow> bool" where
  "worker_ok w \<longleftrightarrow> (if g_workerRunning (native w) then \<exists>!t. is_worker w t else \<forall>t. \<not> is_worker w t)"

lemma running_isService: "in_process f b c s = (v, s') \<Longrightarrow> g_workerRunning s' = g_workerRunning s \<and> g_pending s' = g_pending s"
  by (auto simp: in_process_def inproc_isService_def split: if_splits option.splits)

lemma running_adopt [simp]: "g_workerRunning (adopt c i tok s) = g_workerRunning s" "g_pending (adopt c i tok s) = g_pending s"
  "g_workerRunning (store_ibinder c ib s) = g_workerRunning s" "g_pending (store_ibinder c ib s) = g_pending s"
  by (simp_all add: adopt_def Let_def store_ibinder_def)

lemma running_ensureCreated:
  "ensureCreated f c s = (r, new, s') \<Longrightarrow> g_workerRunning s' = g_workerRunning s \<and> g_pending s' = g_pending s"
  by (auto simp: ensureCreated_def adoptExistingService_def split: if_splits option.splits prod.splits)

lemma exec_worker:
  assumes "exec_frame a t f w = Some (out, w')" "worker_frame f"
  shows "threads w' = threads w \<and> (case out of
      Goto gs \<Rightarrow> list_ex worker_frame gs \<and> g_workerRunning (native w') = g_workerRunning (native w)
    | Return r \<Rightarrow> \<not> g_workerRunning (native w'))"
  using assms by (cases f) (auto simp: part_defs Let_def worker_frame_def claim_def split: if_splits option.splits prod.splits list.splits)

lemma exec_nonworker_frames:
  assumes "exec_frame a t f w = Some (out, w')" "\<not> worker_frame f"
  shows "g \<in> new_frames out \<Longrightarrow> \<not> worker_frame g"
  using assms by (cases f) (auto simp: part_defs Let_def worker_frame_def split: if_splits option.splits prod.splits list.splits)

lemma exec_nonworker:
  assumes "exec_frame a t f w = Some (out, w')" "\<not> worker_frame f"
  shows "(g_workerRunning (native w') = g_workerRunning (native w) \<and> threads w' = threads w)
    \<or> (\<not> g_workerRunning (native w) \<and> g_workerRunning (native w') \<and> (\<exists>u. threads w u = [] \<and> threads w' = (threads w)(u := [WAttach])))"
proof (cases "\<exists>b c k. f = BQueue b c k")
  case True
  then show ?thesis using assms(1)
    by (auto simp: b_queue_def queue_bind_def note_ev_def Let_def split: if_splits option.splits intro!: exI[of _ "the (a_spawned a)"])
next
  case False
  then show ?thesis using assms by (cases f) (auto simp: part_defs Let_def worker_frame_def inproc_disconnect_def
     dest: running_isService running_ensureCreated split: if_splits option.splits prod.splits)
qed

lemma worker_resume: "list_ex worker_frame (resume r fs) = list_ex worker_frame fs"
  by (auto simp: resume_def worker_frame_def split: list.splits frame.splits)

lemma step_worker:
  assumes "reach S w" "worker_ok w" "step a t w = Some w'"
  shows "worker_ok w'"
proof -
  obtain f fs out v where x: "threads w t = f # fs" "exec_frame a t f w = Some (out, v)"
    "w' = v\<lparr> threads := (threads v)(t := after out fs) \<rparr>" using assms(3) by (rule step_cases)
  show ?thesis
  proof (cases "worker_frame f")
    case True
    have "fs = []" using reach_stack[OF assms(1)] x(1) True by (metis stack_ok.simps(2))
    have wt: "is_worker w t" using True by (simp add: is_worker_def x(1))
    have other: "is_worker w' u = is_worker w u" if "u \<noteq> t" for u
      using exec_worker[OF x(2) True] that by (simp add: x(3) is_worker_def)
    have own: "is_worker w' t \<longleftrightarrow> g_workerRunning (native w')" "g_workerRunning (native w') \<Longrightarrow> g_workerRunning (native w)"
      using exec_worker[OF x(2) True] assms(2) wt \<open>fs = []\<close>
      by (auto simp: x(3) is_worker_def after_def resume_def worker_ok_def split: frame_result.splits if_splits)
    show ?thesis using assms(2) wt other own unfolding worker_ok_def by (metis (full_types))
  next
    case False
    have new: "\<not> list_ex worker_frame gs" if "out = Goto gs" for gs
      using exec_nonworker_frames[OF x(2) False] that by (auto simp: list_ex_iff)
    then have own: "list_ex worker_frame (after out fs) = is_worker w t"
      using False by (cases out) (auto simp: after_def x(1) is_worker_def worker_resume)
    from exec_nonworker[OF x(2) False] show ?thesis
    proof
      assume "g_workerRunning (native v) = g_workerRunning (native w) \<and> threads v = threads w"
      then have "is_worker w' u = is_worker w u" "g_workerRunning (native w') = g_workerRunning (native w)" for u
        using own by (simp_all add: is_worker_def x(3))
      then show ?thesis using assms(2) by (simp add: worker_ok_def)
    next
      assume "\<not> g_workerRunning (native w) \<and> g_workerRunning (native v) \<and> (\<exists>u. threads w u = [] \<and> threads v = (threads w)(u := [WAttach]))"
      then obtain u where u: "\<not> g_workerRunning (native w)" "g_workerRunning (native v)" "threads w u = []"
        "threads v = (threads w)(u := [WAttach])" by blast
      then have "u \<noteq> t" using x(1) by auto
      moreover have none: "\<not> is_worker w s" for s using assms(2) u(1) by (simp add: worker_ok_def)
      ultimately have "is_worker w' s \<longleftrightarrow> s = u" for s using own none[of s] none[of t] u(4)
        by (auto simp: x(3) is_worker_def worker_frame_def)
      moreover have "g_workerRunning (native w')" using u(2) by (simp add: x(3))
      ultimately show ?thesis unfolding worker_ok_def Ex1_def by auto
    qed
  qed
qed

lemma enter_worker: "worker_ok w \<Longrightarrow> enter t cl w = Some w' \<Longrightarrow> worker_ok w'"
proof -
  assume a: "worker_ok w" "enter t cl w = Some w'"
  have q: "\<not> worker_frame (call_frame cl)" by (cases cl) (simp_all add: worker_frame_def)
  have w': "w' = w\<lparr> threads := (threads w)(t := call_frame cl # threads w t) \<rparr>" using a(2) by (elim enter_cases)
  then have "is_worker w' u = is_worker w u" for u using q by (simp add: is_worker_def)
  then show ?thesis using a(1) by (simp add: worker_ok_def w')
qed

lemma reach_worker: "reach S w \<Longrightarrow> worker_ok w"
proof (induction rule: reach.induct)
  case init then show ?case by (simp add: worker_ok_def is_worker_def world_init_def inproc_init_def)
qed (blast intro: step_worker enter_worker)+

text \<open>A bind that waits has a worker, unless a worker could not attach.\<close>

definition queue_served :: "world \<Rightarrow> bool" where
  "queue_served w \<longleftrightarrow> g_pending (native w) = [] \<or> g_workerRunning (native w) \<or> AttachFailed \<in> set (events w)"

lemma exec_queue_served:
  assumes "exec_frame a t f w = Some (out, w')" "queue_served w"
  shows "queue_served w'"
proof (cases "\<exists>b c k. f = BQueue b c k")
  case True
  then show ?thesis using assms by (auto simp: queue_served_def b_queue_def queue_bind_def note_ev_def is_bind_def Let_def split: if_splits option.splits)
next
  case False
  then show ?thesis using assms by (cases f) (auto simp: queue_served_def part_defs Let_def inproc_disconnect_def claim_def
     dest: running_isService running_ensureCreated split: if_splits option.splits prod.splits)
qed

interpretation queue_served: shared_invariant queue_served
proof unfold_locales
  show "queue_served world_init" by (simp add: queue_served_def world_init_def inproc_init_def)
  show "queue_served w'" if "exec_frame a t f w = Some (out, w')" "queue_served w" for a t f w out w' using that by (rule exec_queue_served)
  show "queue_served (w\<lparr> threads := T \<rparr>) = queue_served w" for w T by (simp add: queue_served_def)
qed

text \<open>
  C24 (one_worker): g_workerRunning is set exactly while one worker thread exists, and while a bind
  waits there is a worker, unless a worker could not attach to the virtual machine.
\<close>

theorem one_worker:
  assumes "reach {} w"
  shows "(g_workerRunning (native w) \<longrightarrow> (\<exists>!t. is_worker w t)) \<and> (\<not> g_workerRunning (native w) \<longrightarrow> (\<forall>t. \<not> is_worker w t)) \<and>
    (g_pending (native w) \<noteq> [] \<and> AttachFailed \<notin> set (events w) \<longrightarrow> g_workerRunning (native w))"
  using reach_worker[OF assms] queue_served.always[OF assms] by (auto simp: worker_ok_def queue_served_def)

section \<open>What becomes of a queued bind\<close>

definition tally :: "event \<Rightarrow> event list \<Rightarrow> nat" where
  "tally e es = length (filter (\<lambda>x. x = e) es)"

lemma tally_simps [simp]: "tally e [] = 0" "tally e (x # es) = (if x = e then 1 else 0) + tally e es"
  "tally e (es @ fs) = tally e es + tally e fs"
  by (simp_all add: tally_def)

definition waiting_binds :: "int \<Rightarrow> string \<Rightarrow> inproc \<Rightarrow> nat" where
  "waiting_binds k c s = length (filter (is_bind k c) (g_pending s))"

lemma erase_first_filter:
  "length (filter R xs) = length (filter R (erase_first P xs)) + (case find P xs of Some x \<Rightarrow> if R x then 1 else 0 | None \<Rightarrow> 0)"
  by (induction xs) auto

lemma erase_first_le: "length (filter R (erase_first P xs)) \<le> length (filter R xs)"
  using erase_first_filter[of R xs P] by linarith

lemma find_Some_iff_ex: "find P xs = None \<longleftrightarrow> \<not> list_ex P xs" "find P xs = Some x \<Longrightarrow> P x"
  by (induction xs) (auto split: if_splits)

lemma erase_bind:
  "length (filter (is_bind k c) xs) = length (filter (is_bind k c) (erase_first (is_bind k' c') xs))
     + (if (k, c) = (k', c') \<and> list_ex (is_bind k' c') xs then 1 else 0)"
proof (cases "find (is_bind k' c') xs")
  case None
  then show ?thesis using erase_first_filter[of "is_bind k c" xs "is_bind k' c'"] find_Some_iff_ex(1)[of "is_bind k' c'" xs] by simp
next
  case (Some p)
  have "is_bind k' c' p" "list_ex (is_bind k' c') xs" using find_Some_iff_ex(2)[OF Some] find_Some_iff_ex(1)[of "is_bind k' c'" xs] Some by auto
  then show ?thesis using erase_first_filter[of "is_bind k c" xs "is_bind k' c'"] Some by (auto simp: is_bind_def)
qed

lemma erase_conn:
  "length (filter (is_bind k c) xs) = length (filter (is_bind k c) (erase_first (\<lambda>p. pb_connId p = k') xs))
     + (case find (\<lambda>p. pb_connId p = k') xs of None \<Rightarrow> 0 | Some p \<Rightarrow> if k = k' \<and> pb_cls p = c then 1 else 0)"
  using erase_first_filter[of "is_bind k c" xs "\<lambda>p. pb_connId p = k'"] find_Some_iff_ex(2)[of "\<lambda>p. pb_connId p = k'" xs]
  by (auto simp: is_bind_def split: option.splits)

definition accounted :: "int \<Rightarrow> string \<Rightarrow> world \<Rightarrow> bool" where
  "accounted k c w \<longleftrightarrow> waiting_binds k c (native w) \<le> 1 \<and> tally (Queued k c) (events w) = waiting_binds k c (native w)
     + tally (Cancelled k c) (events w) + tally (Claimed k c) (events w) + tally (TimedOut k c) (events w)"

lemma no_bind: "\<not> list_ex (is_bind k c) xs \<longleftrightarrow> length (filter (is_bind k c) xs) = 0"
  by (auto simp: filter_empty_conv list_ex_iff)

lemma queue_accounted:
  assumes "accounted k c w" "b_queue a b c' k' w = Some (out, w')"
  shows "accounted k c w'"
proof -
  define ps where "ps = g_pending (native w)"
  define dup where "dup = list_ex (is_bind k' c') ps"
  define q where "q = (if dup then ps else ps @ [\<lparr> pb_cls = c', pb_bundle = b, pb_connId = k', pb_deadlineMs = a_now a + 20000 \<rparr>])"
  have ex: "list_ex (is_bind k' c') q" by (auto simp: q_def dup_def is_bind_def)
  have same: "(k, c) = (k', c') \<Longrightarrow> \<not> dup \<Longrightarrow> filter (is_bind k c) ps = []"
    using no_bind[of k c ps] by (simp add: dup_def)
  have nq: "length (filter (is_bind k c) q) = length (filter (is_bind k c) ps) + (if (k, c) = (k', c') \<and> \<not> dup then 1 else 0)"
    by (auto simp: q_def is_bind_def)
  have ne: "length (filter (is_bind k c) q) = length (filter (is_bind k c) (erase_first (is_bind k' c') q)) + (if (k, c) = (k', c') then 1 else 0)"
    using erase_bind[of k c q k' c'] ex by simp
  obtain ok where r: "g_pending (native w') = (if ok then q else erase_first (is_bind k' c') q)"
    "events w' = events w @ (if dup then [] else [Queued k' c']) @ (if ok then [] else [Cancelled k' c'])"
    using assms(2) by (force simp: b_queue_def queue_bind_def note_ev_def Let_def q_def dup_def ps_def split: if_splits option.splits)
  show ?thesis using assms(1) same nq ne by (auto simp: accounted_def waiting_binds_def r ps_def)
qed

lemma disconnect_accounted: "accounted k c w \<Longrightarrow> accounted k c (j_disconnect k' w)"
  using erase_conn[of k c "g_pending (native w)" k']
  by (auto simp: accounted_def waiting_binds_def j_disconnect_def inproc_disconnect_def note_ev_def Let_def split: if_splits option.splits)

lemma claim_accounted: "accounted k c w \<Longrightarrow> accounted k c (snd (w_claim p ps h w))"
  using erase_bind[of k c "g_pending (native w)" "pb_connId p" "pb_cls p"]
  by (auto simp: accounted_def waiting_binds_def w_claim_def claim_def note_ev_def Let_def split: if_splits option.splits)

fun queue_event :: "event \<Rightarrow> bool" where
  "queue_event (Queued k c) = True"
| "queue_event (Cancelled k c) = True"
| "queue_event (Claimed k c) = True"
| "queue_event (TimedOut k c) = True"
| "queue_event e = False"

lemma tally_none: "\<forall>e\<in>set es. \<not> queue_event e \<Longrightarrow> queue_event x \<Longrightarrow> tally x es = 0"
  by (auto simp: tally_def filter_empty_conv)

lemma exec_quiet_queue:
  assumes "exec_frame a t f w = Some (out, w')" "\<nexists>b c k. f = BQueue b c k" "\<nexists>k. f = JDisconnect k" "\<nexists>p ps h. f = WClaim p ps h"
  shows "g_pending (native w') = g_pending (native w) \<and> (\<exists>es. events w' = events w @ es \<and> (\<forall>e\<in>set es. \<not> queue_event e))"
  using assms by (cases f) (auto simp: part_defs Let_def dest: running_isService running_ensureCreated split: if_splits option.splits prod.splits)

lemma exec_accounted:
  assumes "exec_frame a t f w = Some (out, w')" "accounted k c w"
  shows "accounted k c w'"
proof -
  consider b c' k' where "f = BQueue b c' k'" | k' where "f = JDisconnect k'" | p ps h where "f = WClaim p ps h"
    | "\<nexists>b c k. f = BQueue b c k" "\<nexists>k. f = JDisconnect k" "\<nexists>p ps h. f = WClaim p ps h" by blast
  then show ?thesis
  proof cases
    case 1 then show ?thesis using assms queue_accounted by simp
  next
    case 2 then show ?thesis using assms disconnect_accounted by auto
  next
    case 3 then show ?thesis using assms claim_accounted[of k c w p ps h] by simp
  next
    case 4
    then obtain es where "g_pending (native w') = g_pending (native w)" "events w' = events w @ es" "\<forall>e\<in>set es. \<not> queue_event e"
      using exec_quiet_queue[OF assms(1)] by blast
    then show ?thesis using assms(2) by (simp add: accounted_def waiting_binds_def tally_none)
  qed
qed

interpretation accounts: shared_invariant "accounted k c" for k c
proof unfold_locales
  show "accounted k c world_init" by (simp add: accounted_def waiting_binds_def world_init_def inproc_init_def)
  show "accounted k c w'" if "exec_frame a t f w = Some (out, w')" "accounted k c w" for a t f w out w' using that by (rule exec_accounted)
  show "accounted k c (w\<lparr> threads := T \<rparr>) = accounted k c w" for w T by (simp add: accounted_def)
qed

text \<open>
  C22 (binds_accounted): every bind that was queued is, at every moment, exactly one of waiting,
  cancelled, claimed for delivery or timed out, and a connection waits at most once for a class.
\<close>

theorem binds_accounted:
  assumes "reach {} w"
  shows "waiting_binds k c (native w) \<le> 1 \<and> tally (Queued k c) (events w) = waiting_binds k c (native w)
     + tally (Cancelled k c) (events w) + tally (Claimed k c) (events w) + tally (TimedOut k c) (events w)"
  using accounts.always[OF assms] unfolding accounted_def .

section \<open>The worker empties the queue\<close>

fun run_thread :: "answers \<Rightarrow> nat \<Rightarrow> nat \<Rightarrow> world \<Rightarrow> world option" where
  "run_thread a t 0 w = Some w"
| "run_thread a t (Suc n) w = (case step a t w of None \<Rightarrow> None | Some w' \<Rightarrow> run_thread a t n w')"

definition runs :: "answers \<Rightarrow> nat \<Rightarrow> world \<Rightarrow> world \<Rightarrow> bool" where
  "runs a t w w' \<longleftrightarrow> (\<exists>n. run_thread a t n w = Some w')"

lemma runsI: "run_thread a t n w = Some v \<Longrightarrow> runs a t w v"
  by (auto simp: runs_def)

lemmas runs_refl = runsI[of _ _ 0, OF run_thread.simps(1)]
lemmas run_simps = eval_nat_numeral step_def after_def

lemma runs_step: "step a t w = Some v \<Longrightarrow> runs a t v w' \<Longrightarrow> runs a t w w'"
proof -
  assume s: "step a t w = Some v" and "runs a t v w'"
  then obtain n where "run_thread a t n v = Some w'" by (auto simp: runs_def)
  then show ?thesis unfolding runs_def by (intro exI[of _ "Suc n"]) (simp add: s)
qed

lemma runs_return:
  "threads w t = f # fs \<Longrightarrow> exec_frame a t f w = Some (Return r, v) \<Longrightarrow> threads v = threads w \<Longrightarrow> resume r fs = fs \<Longrightarrow>
   runs a t (v\<lparr> threads := (threads w)(t := fs) \<rparr>) w' \<Longrightarrow> runs a t w w'"
  by (rule runs_step) (auto simp: step_def after_def)

text \<open>What such a run leaves as it was.\<close>

definition kept :: "nat \<Rightarrow> frame list \<Rightarrow> world \<Rightarrow> world \<Rightarrow> bool" where
  "kept t fs w w' \<longleftrightarrow> threads w' = (threads w)(t := fs) \<and> g_pending (native w') = g_pending (native w)
     \<and> g_bindOpMu w' = g_bindOpMu w \<and> g_workerRunning (native w') = g_workerRunning (native w)
     \<and> (\<exists>es. events w' = events w @ es)"

lemma have_store: "have_instance c (store_ibinder c ib s) = have_instance c s"
  by (simp add: have_instance_def store_ibinder_def svc_upd)

text \<open>A delivery for a running service tells the registry.\<close>

lemma notify_runs:
  assumes "threads w t = DNotify b c k ib # fs" "resume 0 fs = fs" "a_registry a" "a_connected a"
  shows "\<exists>w'. runs a t w w' \<and> kept t fs w w' \<and> Connected k c ib \<in> set (events w')"
proof (intro exI conjI)
  let ?v = "snd (d_notify a c k ib w)"
  have ex: "exec_frame a t (DNotify b c k ib) w = Some (Return 0, ?v)" "threads ?v = threads w"
    using assms(3,4) by (simp_all add: d_notify_def note_ev_def)
  show "runs a t w (?v\<lparr> threads := (threads w)(t := fs) \<rparr>)" by (rule runs_return[OF assms(1) ex assms(2) runs_refl])
  show "kept t fs w (?v\<lparr> threads := (threads w)(t := fs) \<rparr>)" "Connected k c ib \<in> set (events (?v\<lparr> threads := (threads w)(t := fs) \<rparr>))"
    using assms(3,4) by (auto simp: kept_def d_notify_def note_ev_def)
qed

lemma first_bind_runs:
  assumes "threads w t = DLock b c k # fs" "g_bindOpMu w = None" "have_instance c (native w)" "\<not> bindCalled (svc c (native w))"
  shows "\<exists>w' ib. runs a t w w' \<and> kept t (DNotify b c k ib # fs) w w'"
proof -
  let ?s = "store_ibinder c (a_onBind a) (native w)"
  let ?w = "w\<lparr> native := ?s, events := events w @ [OnBind c], threads := (threads w)(t := DNotify b c k (svc_ibinder (svc c ?s)) # fs) \<rparr>"
  have "runs a t w ?w"
    using assms by (intro runsI[of a t 6]) (simp add: run_simps lock_bindOp_def unlock_bindOp_def note_ev_def)
  then show ?thesis by (intro exI[of _ ?w] exI conjI) (auto simp: kept_def)
qed


lemma kept_trans: "kept t fs u v \<Longrightarrow> kept t gs v w \<Longrightarrow> kept t gs u w"
  by (auto simp: kept_def)

lemma runs_trans: "runs a t u v \<Longrightarrow> runs a t v w \<Longrightarrow> runs a t u w"
proof -
  have "run_thread a t n u = Some v \<Longrightarrow> runs a t v w \<Longrightarrow> runs a t u w" for n
    by (induction n arbitrary: u) (auto intro: runs_step split: option.splits)
  then show "runs a t u v \<Longrightarrow> runs a t v w \<Longrightarrow> runs a t u w" by (auto simp: runs_def)
qed

lemma deliver_runs:
  assumes "threads w t = DSnap b c k # fs" "resume 0 fs = fs" "a_registry a" "a_connected a" "g_bindOpMu w = None"
    "have_instance c (native w)"
  shows "\<exists>w' ib. runs a t w w' \<and> kept t fs w w' \<and> Connected k c ib \<in> set (events w')"
proof -
  have "\<exists>v ib. runs a t w v \<and> kept t (DNotify b c k ib # fs) w v"
  proof (cases "bindCalled (svc c (native w))")
    case True
    let ?v = "w\<lparr> threads := (threads w)(t := DNotify b c k (svc_ibinder (svc c (native w))) # fs) \<rparr>"
    have "runs a t w ?v" using True assms(1,6) by (intro runsI[of a t 1]) (simp add: run_simps)
    moreover have "kept t (DNotify b c k (svc_ibinder (svc c (native w))) # fs) w ?v" by (simp add: kept_def)
    ultimately show ?thesis by blast
  next
    case False
    let ?v = "w\<lparr> threads := (threads w)(t := DLock b c k # fs) \<rparr>"
    have "runs a t w ?v" using False assms(1,6) by (intro runsI[of a t 1]) (simp add: run_simps)
    moreover have "kept t (DLock b c k # fs) w ?v" by (simp add: kept_def)
    moreover have "\<exists>w' ib. runs a t ?v w' \<and> kept t (DNotify b c k ib # fs) ?v w'" using False assms(5,6) by (intro first_bind_runs) simp_all
    ultimately show ?thesis using runs_trans kept_trans by blast
  qed
  then obtain v ib where v: "runs a t w v" "kept t (DNotify b c k ib # fs) w v" by blast
  then have "threads v t = DNotify b c k ib # fs" by (simp add: kept_def)
  from notify_runs[OF this assms(2-4)] show ?thesis using v runs_trans kept_trans by blast
qed

text \<open>One entry of the snapshot: claimed and delivered when the service is there, else given up.\<close>

lemma have_adopt: "have_instance c (adopt c i tok s)"
  by (auto simp: have_instance_def adopt_def Let_def svc_upd)

lemma decide_runs:
  assumes "threads w t = [WItems (p # ps)]"
  shows "\<exists>v. runs a t w v \<and> kept t [WDecide p ps (have_instance (pb_cls p) (native v))] w v
    \<and> (find_service (fw a) (pb_cls p) \<noteq> None \<longrightarrow> have_instance (pb_cls p) (native v))"
proof (cases "have_instance (pb_cls p) (native w)")
  case True
  let ?v = "w\<lparr> threads := (threads w)(t := [WDecide p ps True]) \<rparr>"
  have "runs a t w ?v" using True assms by (intro runsI[of a t 1]) (simp add: run_simps)
  then show ?thesis using True by (intro exI[of _ ?v]) (simp add: kept_def)
next
  case False
  let ?u = "w\<lparr> threads := (threads w)(t := [WScan p ps]) \<rparr>"
  have u: "runs a t w ?u" using False assms by (intro runsI[of a t 1]) (simp add: run_simps)
  show ?thesis
  proof (cases "find_service (fw a) (pb_cls p)")
    case None
    let ?v = "?u\<lparr> threads := (threads w)(t := [WDecide p ps False]) \<rparr>"
    have "runs a t ?u ?v" using None by (intro runsI[of a t 1]) (simp add: run_simps)
    then show ?thesis using u False None runs_trans by (intro exI[of _ ?v]) (auto simp: kept_def)
  next
    case (Some r)
    obtain i tok where r: "r = (i, tok)" by (cases r)
    let ?v = "w\<lparr> threads := (threads w)(t := [WDecide p ps True]), native := adopt (pb_cls p) i tok (native w) \<rparr>"
    have "runs a t ?u ?v" using Some r by (intro runsI[of a t 2]) (simp add: run_simps)
    then show ?thesis using u runs_trans have_adopt by (intro exI[of _ ?v]) (auto simp: kept_def)
  qed
qed


text \<open>The outcome of a pending bind: the registry was told, or the service was not there and the bind was given up.\<close>

definition settled :: "answers \<Rightarrow> PendingBind \<Rightarrow> world \<Rightarrow> bool" where
  "settled a p w \<longleftrightarrow> (\<exists>ib. Connected (pb_connId p) (pb_cls p) ib \<in> set (events w)) \<or>
     (find_service (fw a) (pb_cls p) = None \<and> TimedOut (pb_connId p) (pb_cls p) \<in> set (events w))"

definition servable :: "answers \<Rightarrow> PendingBind \<Rightarrow> bool" where
  "servable a p \<longleftrightarrow> find_service (fw a) (pb_cls p) \<noteq> None \<or> a_now a > pb_deadlineMs p"

definition done_with :: "nat \<Rightarrow> PendingBind list \<Rightarrow> world \<Rightarrow> world \<Rightarrow> bool" where
  "done_with t ps w w' \<longleftrightarrow> threads w' = (threads w)(t := [WItems ps]) \<and> g_pending (native w') = ps
     \<and> g_bindOpMu w' = g_bindOpMu w \<and> g_workerRunning (native w') = g_workerRunning (native w) \<and> (\<exists>es. events w' = events w @ es)"

lemma claim_head: "g_pending s = p # ps \<Longrightarrow> claim p s = (True, s\<lparr> g_pending := ps \<rparr>)"
  by (simp add: claim_def Let_def is_bind_def)

lemma item_runs:
  assumes "threads w t = [WItems (p # ps)]" "g_pending (native w) = p # ps" "g_bindOpMu w = None" "servable a p"
    "a_registry a" "a_connected a"
  shows "\<exists>w'. runs a t w w' \<and> done_with t ps w w' \<and> settled a p w'"
proof -
  obtain v where v: "runs a t w v" "kept t [WDecide p ps (have_instance (pb_cls p) (native v))] w v"
    "find_service (fw a) (pb_cls p) \<noteq> None \<Longrightarrow> have_instance (pb_cls p) (native v)" using decide_runs[OF assms(1)] by blast
  have pend: "g_pending (native v) = p # ps" and mu: "g_bindOpMu v = None" using v(2) assms(2,3) by (simp_all add: kept_def)
  have thr: "threads v t = [WDecide p ps (have_instance (pb_cls p) (native v))]" using v(2) by (simp add: kept_def)
  note claims = w_claim_def claim_head[OF pend] note_ev_def
  show ?thesis
  proof (cases "have_instance (pb_cls p) (native v)")
    case True
    let ?u = "v\<lparr> native := (native v)\<lparr> g_pending := ps \<rparr>, events := events v @ [Claimed (pb_connId p) (pb_cls p)],
      threads := (threads v)(t := [DSnap (pb_bundle p) (pb_cls p) (pb_connId p), WItems ps]) \<rparr>"
    have u: "runs a t v ?u" using thr True by (intro runsI[of a t 2]) (simp add: run_simps claims)
    have "have_instance (pb_cls p) (native ?u)" using True by (simp add: have_instance_def)
    then obtain w' ib where w': "runs a t ?u w'" "kept t [WItems ps] ?u w'" "Connected (pb_connId p) (pb_cls p) ib \<in> set (events w')"
      using deliver_runs[of ?u t "pb_bundle p" "pb_cls p" "pb_connId p" "[WItems ps]" a] assms(5,6) mu by (auto simp: resume_def)
    have "done_with t ps w w'" using w'(2) v(2) by (auto simp: done_with_def kept_def)
    then show ?thesis using w' u v(1) runs_trans unfolding settled_def by blast
  next
    case False
    then have none: "find_service (fw a) (pb_cls p) = None" using v(3) by blast
    let ?u = "v\<lparr> native := (native v)\<lparr> g_pending := ps \<rparr>, events := events v @ [TimedOut (pb_connId p) (pb_cls p)],
      threads := (threads v)(t := [WItems ps]) \<rparr>"
    have "runs a t v ?u" using thr False assms(4) none by (intro runsI[of a t 2]) (simp add: run_simps claims servable_def)
    moreover have "done_with t ps w ?u" using v(2) by (auto simp: done_with_def kept_def)
    moreover have "settled a p ?u" using none by (simp add: settled_def)
    ultimately show ?thesis using v(1) runs_trans by blast
  qed
qed

lemma settled_mono: "settled a p w \<Longrightarrow> events w' = events w @ es \<Longrightarrow> settled a p w'"
  by (auto simp: settled_def)

lemma items_run:
  assumes "threads w t = [WItems ps]" "g_pending (native w) = ps" "g_bindOpMu w = None" "\<forall>p\<in>set ps. servable a p" "a_registry a" "a_connected a"
  shows "\<exists>w'. runs a t w w' \<and> done_with t [] w w' \<and> (\<forall>p\<in>set ps. settled a p w')"
  using assms(1-4)
proof (induction ps arbitrary: w)
  case Nil
  then have "done_with t [] w w" by (auto simp: done_with_def)
  then show ?case using runs_refl by fastforce
next
  case (Cons p ps)
  obtain v where v: "runs a t w v" "done_with t ps w v" "settled a p v"
    using item_runs[OF Cons.prems(1-3) _ assms(5,6)] Cons.prems(4) by auto
  then have "threads v t = [WItems ps]" "g_pending (native v) = ps" "g_bindOpMu v = None" using Cons.prems(3) by (simp_all add: done_with_def)
  moreover have "\<forall>p\<in>set ps. servable a p" using Cons.prems(4) by simp
  ultimately obtain w' where w': "runs a t v w'" "done_with t [] v w'" "\<forall>p\<in>set ps. settled a p w'" using Cons.IH[of v] by blast
  have "done_with t [] w w'" using v(2) w'(2) by (auto simp: done_with_def)
  moreover have "settled a p w'" using v(3) w'(2) settled_mono by (auto simp: done_with_def)
  ultimately show ?case using runs_trans[OF v(1) w'(1)] w'(3) by auto
qed

text \<open>
  C25 (worker_drains): from the top of its loop, when nobody else holds the bind lock and every
  waiting service is there or overdue, the worker alone ends with an empty queue, having told the
  registry of every service that is there and given up the others.
\<close>

theorem worker_drains:
  assumes "threads w t = [WTop]" "g_bindOpMu w = None"
    and "\<forall>p\<in>set (g_pending (native w)). find_service (fw a) (pb_cls p) \<noteq> None \<or> a_now a > pb_deadlineMs p"
    and "a_registry a" "a_connected a"
  shows "\<exists>n w'. run_thread a t n w = Some w' \<and> threads w' = (threads w)(t := []) \<and> g_pending (native w') = []
    \<and> \<not> g_workerRunning (native w') \<and> (\<forall>p\<in>set (g_pending (native w)).
        (\<exists>ib. Connected (pb_connId p) (pb_cls p) ib \<in> set (events w')) \<or>
        (find_service (fw a) (pb_cls p) = None \<and> TimedOut (pb_connId p) (pb_cls p) \<in> set (events w')))"
proof -
  let ?ps = "g_pending (native w)"
  have "\<exists>v. runs a t w v \<and> threads v = (threads w)(t := [WTop]) \<and> g_pending (native v) = [] \<and> (\<forall>p\<in>set ?ps. settled a p v)"
  proof (cases "?ps = []")
    case True
    moreover have "threads w = (threads w)(t := [WTop])" using assms(1) by auto
    ultimately show ?thesis using runs_refl by (intro exI[of _ w]) simp
  next
    case False
    let ?u = "w\<lparr> threads := (threads w)(t := [WItems ?ps]) \<rparr>"
    have u: "runs a t w ?u" using assms(1) False by (intro runsI[of a t 1]) (simp add: run_simps)
    obtain v where v: "runs a t ?u v" "done_with t [] ?u v" "\<forall>p\<in>set ?ps. settled a p v"
      using items_run[of ?u t ?ps a, OF _ _ _ _ assms(4,5)] assms(2,3) unfolding servable_def by auto
    let ?v = "v\<lparr> threads := (threads v)(t := [WTop]) \<rparr>"
    have "runs a t v ?v" using v(2) by (intro runsI[of a t 1]) (simp add: run_simps done_with_def)
    moreover have "\<forall>p\<in>set ?ps. settled a p ?v" using v(3) settled_mono[of a _ v ?v "[]"] by simp
    moreover have "threads ?v = (threads w)(t := [WTop])" "g_pending (native ?v) = []" using v(2) by (simp_all add: done_with_def)
    ultimately show ?thesis using runs_trans[OF u runs_trans[OF v(1)]] by blast
  qed
  then obtain v where v: "runs a t w v" "threads v = (threads w)(t := [WTop])" "g_pending (native v) = []" "\<forall>p\<in>set ?ps. settled a p v" by blast
  let ?w = "v\<lparr> native := (native v)\<lparr> g_workerRunning := False \<rparr>, threads := (threads v)(t := []) \<rparr>"
  have "runs a t v ?w" using v(2,3) by (intro runsI[of a t 1]) (simp add: run_simps resume_def)
  then have "runs a t w ?w" using v(1) runs_trans by blast
  moreover have "\<forall>p\<in>set ?ps. settled a p ?w" using v(4) settled_mono[of a _ v ?w "[]"] by simp
  moreover have "threads ?w = (threads w)(t := [])" "g_pending (native ?w) = []" "\<not> g_workerRunning (native ?w)" using v(2,3) by simp_all
  ultimately show ?thesis unfolding runs_def settled_def by blast
qed

end
