(* ===== verification/InprocCallbacks.thy ===== *)
theory InprocCallbacks
  imports InprocQueue
begin

text \<open>
  The way of a service to the app: the registry of connections answers the deliveries of the bridge. The last part
  runs the model on concrete calls.
\<close>

section \<open>Callbacks reach only live connections\<close>

text \<open>The connections a log leaves registered, with their ids, and the list of all registrations.\<close>

fun live_upd :: "(nat \<Rightarrow> int option) \<Rightarrow> event \<Rightarrow> nat \<Rightarrow> int option" where
  "live_upd m (Registered x k) = m(x \<mapsto> k)"
| "live_upd m (Unregistered x k) = m(x := None)"
| "live_upd m e = m"

definition live :: "event list \<Rightarrow> nat \<Rightarrow> int option" where
  "live es = foldl live_upd (\<lambda>x. None) es"

fun registration :: "event \<Rightarrow> (nat \<times> int) option" where
  "registration (Registered x k) = Some (x, k)"
| "registration e = None"

definition registrations :: "event list \<Rightarrow> (nat \<times> int) list" where
  "registrations es = List.map_filter registration es"

lemma live_simps: "live [] = (\<lambda>x. None)" "live (es @ [e]) = live_upd (live es) e" "live (es @ a # b # []) = live_upd (live_upd (live es) a) b"
  by (simp_all add: live_def)

lemma registrations_simps [simp]: "registrations [] = []" "registrations (es @ fs) = registrations es @ registrations fs"
  "registrations (e # es) = (case registration e of None \<Rightarrow> [] | Some r \<Rightarrow> [r]) @ registrations es"
  by (simp_all add: registrations_def List.map_filter_def split: option.splits)

lemma registration_iff: "registration e = Some (x, k) \<longleftrightarrow> e = Registered x k"
  by (cases e) auto

lemma set_registrations: "(x, k) \<in> set (registrations es) \<longleftrightarrow> Registered x k \<in> set es"
proof (induction es)
  case (Cons e es) then show ?case using registration_iff[of e x k] by (auto split: option.splits)
qed simp

lemma live_registered: "live es x = Some k \<Longrightarrow> Registered x k \<in> set es"
proof (induction es rule: rev_induct)
  case (snoc e es) then show ?case by (cases e) (auto simp: live_simps split: if_splits)
qed (simp add: live_simps)

text \<open>The registry and the log agree.\<close>

definition registry_ok :: "world \<Rightarrow> bool" where
  "registry_ok w \<longleftrightarrow>
     (\<forall>x. map_option cr_connectionId (mConnections (java w) x) = live (events w) x) \<and>
     (\<forall>k r. mConnectionsById (java w) k = Some r \<longrightarrow> mConnections (java w) (cr_connection r) = Some r \<and> cr_connectionId r = k)"

definition ids_ok :: "world \<Rightarrow> bool" where
  "ids_ok w \<longleftrightarrow> (let n = length (registrations (events w)) in mNextConnectionId (java w) = word_of_nat (Suc n) \<and>
     map snd (registrations (events w)) = map (\<lambda>i. sint (word_of_nat (Suc i) :: u32)) [0..<n])"

fun registry_event :: "event \<Rightarrow> bool" where
  "registry_event (Registered x k) = True"
| "registry_event (Unregistered x k) = True"
| "registry_event e = False"

lemma live_quiet: "\<forall>e\<in>set fs. \<not> registry_event e \<Longrightarrow> live (es @ fs) = live es"
proof (induction fs rule: rev_induct)
  case (snoc f fs) then show ?case by (cases f) (auto simp: live_simps append_assoc[symmetric] simp del: append_assoc)
qed simp

lemma registrations_quiet: "\<forall>e\<in>set fs. \<not> registry_event e \<Longrightarrow> registrations fs = []"
  by (induction fs) (auto split: option.splits elim: registration.elims)

lemma exec_quiet_registry:
  assumes "exec_frame a t f w = Some (out, w')" "\<nexists>x b c. f = JRegister x b c" "\<nexists>x. f = JUnregister x" "\<nexists>x. f = JUnbind x"
  shows "java w' = java w \<and> (\<exists>es. events w' = events w @ es \<and> (\<forall>e\<in>set es. \<not> registry_event e))"
  using assms by (cases f) (auto simp: part_defs Let_def split: if_splits option.splits prod.splits)

lemma register_ok: "registry_ok w \<Longrightarrow> registry_ok (snd (j_register x b c w))"
  by (auto simp: registry_ok_def j_register_def registerConnection_def note_ev_def live_simps Let_def split: option.splits if_splits)

lemma unregister_ok: "registry_ok w \<Longrightarrow> registry_ok (snd (j_unregister x w))"
  by (fastforce simp: registry_ok_def j_unregister_def unregisterConnection_def note_ev_def live_simps Let_def split: option.splits if_splits)

lemma register_ids: "ids_ok w \<Longrightarrow> ids_ok (snd (j_register x b c w))"
  by (auto simp: ids_ok_def j_register_def registerConnection_def note_ev_def Let_def split: option.splits)

lemma unregister_ids: "ids_ok w \<Longrightarrow> ids_ok (snd (j_unregister x w))"
  by (auto simp: ids_ok_def j_unregister_def unregisterConnection_def note_ev_def Let_def split: option.splits)

lemma exec_registry:
  assumes "exec_frame a t f w = Some (out, w')" "registry_ok w \<and> ids_ok w"
  shows "registry_ok w' \<and> ids_ok w'"
proof -
  consider x b c where "f = JRegister x b c" | x where "f = JUnregister x \<or> f = JUnbind x"
    | "\<nexists>x b c. f = JRegister x b c" "\<nexists>x. f = JUnregister x" "\<nexists>x. f = JUnbind x" by blast
  then show ?thesis
  proof cases
    case (1 x b c) then show ?thesis using assms register_ok[of w x b c] register_ids[of w x b c] by simp
  next
    case (2 x) then show ?thesis using assms unregister_ok[of w x] unregister_ids[of w x] by (auto split: prod.splits)
  next
    case 3
    then obtain es where "java w' = java w" "events w' = events w @ es" "\<forall>e\<in>set es. \<not> registry_event e"
      using exec_quiet_registry[OF assms(1)] by blast
    then show ?thesis using assms(2) by (simp add: registry_ok_def ids_ok_def live_quiet registrations_quiet Let_def)
  qed
qed

interpretation registry: shared_invariant "\<lambda>w. registry_ok w \<and> ids_ok w"
proof unfold_locales
  show "registry_ok world_init \<and> ids_ok world_init"
    by (simp add: registry_ok_def ids_ok_def world_init_def registry_init_def live_simps)
  show "registry_ok w' \<and> ids_ok w'" if "exec_frame a t f w = Some (out, w')" "registry_ok w \<and> ids_ok w" for a t f w out w'
    using that by (rule exec_registry)
  show "(registry_ok (w\<lparr> threads := T \<rparr>) \<and> ids_ok (w\<lparr> threads := T \<rparr>)) = (registry_ok w \<and> ids_ok w)" for w T
    by (simp add: registry_ok_def ids_ok_def)
qed

lemmas reach_registry = registry.always

lemma ids_distinct:
  assumes "ids_ok w" "length (registrations (events w)) \<le> 2 ^ 32" "Registered x k \<in> set (events w)" "Registered y k \<in> set (events w)"
  shows "x = y"
proof -
  let ?n = "length (registrations (events w))"
  have "inj_on (\<lambda>i. sint (word_of_nat (Suc i) :: u32)) {0..<?n}"
  proof (rule inj_onI)
    fix i j assume ij: "i \<in> {0..<?n}" "j \<in> {0..<?n}" "sint (word_of_nat (Suc i) :: u32) = sint (word_of_nat (Suc j) :: u32)"
    have "(word_of_nat (Suc i) :: u32) = word_of_nat (Suc j)" using ij(3) by (rule signed_word_eqI)
    then have "unat (word_of_nat (Suc i) :: u32) = unat (word_of_nat (Suc j) :: u32)" by (rule arg_cong)
    then have "Suc i mod 2 ^ 32 = Suc j mod 2 ^ 32" by (simp only: unat_of_nat) simp
    then show "i = j" using ij(1,2) assms(2) by (auto simp: mod_Suc split: if_splits)
  qed
  then have d: "distinct (map snd (registrations (events w)))"
    using assms(1) by (simp add: ids_ok_def Let_def distinct_map)
  moreover have "(x, k) \<in> set (registrations (events w))" "(y, k) \<in> set (registrations (events w))"
    using assms(3,4) by (simp_all add: set_registrations)
  ultimately show ?thesis by (metis distinct_map inj_onD snd_conv prod.inject)
qed

text \<open>The binds a frame works on.\<close>

definition pb_key :: "PendingBind \<Rightarrow> int \<times> string" where
  "pb_key p = (pb_connId p, pb_cls p)"

definition frame_binds :: "frame \<Rightarrow> (int \<times> string) set" where
  "frame_binds f = (case f of BInsert b c k \<Rightarrow> {(k, c)} | BLookup b c k \<Rightarrow> {(k, c)} | BScan b c k \<Rightarrow> {(k, c)}
     | BAdopt b c k i tok \<Rightarrow> {(k, c)} | BCreate b c k \<Rightarrow> {(k, c)} | BQueue b c k \<Rightarrow> {(k, c)} | DSnap b c k \<Rightarrow> {(k, c)}
     | DLock b c k \<Rightarrow> {(k, c)} | DCheck b c k \<Rightarrow> {(k, c)} | DCall b c k \<Rightarrow> {(k, c)} | DOnBind b c k \<Rightarrow> {(k, c)}
     | DStore b c k ib \<Rightarrow> {(k, c)} | DRead b c k \<Rightarrow> {(k, c)} | DNotify b c k ib \<Rightarrow> {(k, c)}
     | WItems ps \<Rightarrow> pb_key ` set ps | WScan p ps \<Rightarrow> pb_key ` set (p # ps) | WAdopt p ps i tok \<Rightarrow> pb_key ` set (p # ps)
     | WDecide p ps h \<Rightarrow> pb_key ` set (p # ps) | WClaim p ps h \<Rightarrow> pb_key ` set (p # ps) | _ \<Rightarrow> {})"

definition connecting :: "frame \<Rightarrow> (nat \<times> int) option" where
  "connecting f = (case f of JConnect x b c k \<Rightarrow> Some (x, k) | _ \<Rightarrow> None)"

definition asked :: "int \<times> string \<Rightarrow> event list \<Rightarrow> bool" where
  "asked p es \<longleftrightarrow> (\<exists>x. Asked x (fst p) (snd p) \<in> set es)"

lemma asked_append: "asked p (es @ fs) \<longleftrightarrow> asked p es \<or> asked p fs" "asked p [Asked x k c] \<longleftrightarrow> p = (k, c)"
  by (auto simp: asked_def)

definition asked_ok :: "world \<Rightarrow> bool" where
  "asked_ok w \<longleftrightarrow> (\<forall>t f p. f \<in> set (threads w t) \<longrightarrow> p \<in> frame_binds f \<longrightarrow> asked p (events w)) \<and>
     (\<forall>p. p \<in> pb_key ` set (g_pending (native w)) \<longrightarrow> asked p (events w)) \<and>
     (\<forall>t f x k. f \<in> set (threads w t) \<longrightarrow> connecting f = Some (x, k) \<longrightarrow> Registered x k \<in> set (events w)) \<and>
     (\<forall>x k c. Asked x k c \<in> set (events w) \<longrightarrow> Registered x k \<in> set (events w))"

text \<open>Every callback in a log was asked for and went to a connection registered at that moment.\<close>

definition callbacks_ok :: "event list \<Rightarrow> bool" where
  "callbacks_ok es \<longleftrightarrow> (\<forall>ps x tg k c ib qs. es = ps @ Callback x tg k c ib # qs \<longrightarrow> live ps x = Some k \<and> asked (k, c) ps)"

lemma erase_first_subset: "set (erase_first P xs) \<subseteq> set xs"
  by (induction xs) auto

lemma exec_new_binds:
  assumes "exec_frame a t f w = Some (out, w')" "g \<in> new_frames out" "p \<in> frame_binds g"
  shows "p \<in> frame_binds f \<or> p \<in> pb_key ` set (g_pending (native w)) \<or> asked p (events w')"
  using assms by (cases f) (auto simp: part_defs Let_def frame_binds_def asked_append pb_key_def split: if_splits option.splits prod.splits list.splits)

lemma exec_new_connecting:
  assumes "exec_frame a t f w = Some (out, w')" "g \<in> new_frames out" "connecting g = Some (x, k)" "registry_ok w"
  shows "Registered x k \<in> set (events w')"
proof -
  obtain b c where f: "f = JRegister x b c"
    using assms(1-3) by (cases f) (auto simp: part_defs Let_def connecting_def registerConnection_def split: if_splits option.splits prod.splits list.splits)
  then show ?thesis
    using assms by (auto simp: j_register_def registerConnection_def note_ev_def connecting_def registry_ok_def Let_def
      split: option.splits intro: live_registered) (metis live_registered option.simps(9))
qed

lemma exec_pending_subset:
  assumes "exec_frame a t f w = Some (out, w')" "p \<in> set (g_pending (native w'))"
  shows "p \<in> set (g_pending (native w)) \<or> pb_key p \<in> frame_binds f"
proof (cases "\<exists>b c k. f = BQueue b c k")
  case True
  then show ?thesis using assms by (auto simp: b_queue_def queue_bind_def note_ev_def Let_def frame_binds_def pb_key_def
    dest!: subsetD[OF erase_first_subset] split: if_splits option.splits)
next
  case False
  then show ?thesis using assms by (cases f) (auto simp: part_defs Let_def inproc_disconnect_def claim_def
    dest: running_isService running_ensureCreated dest!: subsetD[OF erase_first_subset] split: if_splits option.splits prod.splits)
qed

lemma exec_log:
  assumes "exec_frame a t f w = Some (out, w')"
  obtains es where "events w' = events w @ es" "\<forall>x k c. Asked x k c \<in> set es \<longrightarrow> connecting f = Some (x, k)"
    "\<forall>ps x tg k c ib qs. es = ps @ Callback x tg k c ib # qs \<longrightarrow>
       (\<forall>e\<in>set ps. \<not> registry_event e) \<and> onServiceConnected k (java w) = Some (x, tg) \<and> (k, c) \<in> frame_binds f"
proof -
  have "\<exists>es. events w' = events w @ es \<and> (\<forall>x k c. Asked x k c \<in> set es \<longrightarrow> connecting f = Some (x, k)) \<and>
    (\<forall>ps x tg k c ib qs. es = ps @ Callback x tg k c ib # qs \<longrightarrow>
       (\<forall>e\<in>set ps. \<not> registry_event e) \<and> onServiceConnected k (java w) = Some (x, tg) \<and> (k, c) \<in> frame_binds f)"
    using assms by (cases f) (auto simp: part_defs Let_def connecting_def frame_binds_def Cons_eq_append_conv append_eq_Cons_conv
      split: if_splits option.splits prod.splits list.splits)
  then show ?thesis using that by blast
qed


lemma asked_okI:
  assumes "\<And>t f p. f \<in> set (threads w t) \<Longrightarrow> p \<in> frame_binds f \<Longrightarrow> asked p (events w)"
    "\<And>p. p \<in> set (g_pending (native w)) \<Longrightarrow> asked (pb_key p) (events w)"
    "\<And>t f x k. f \<in> set (threads w t) \<Longrightarrow> connecting f = Some (x, k) \<Longrightarrow> Registered x k \<in> set (events w)"
    "\<And>x k c. Asked x k c \<in> set (events w) \<Longrightarrow> Registered x k \<in> set (events w)"
  shows "asked_ok w"
  using assms unfolding asked_ok_def by blast

lemma binds_others: "frame_binds WAttach = {}" "frame_binds (JUnregister x) = {}" "connecting WAttach = None" "connecting (JUnregister x) = None"
  by (simp_all add: frame_binds_def connecting_def)

lemma step_asked:
  assumes "asked_ok w" "registry_ok w" "step a t w = Some w'"
  shows "asked_ok w'"
proof -
  obtain f fs out v where x: "threads w t = f # fs" "exec_frame a t f w = Some (out, v)"
    "w' = v\<lparr> threads := (threads v)(t := after out fs) \<rparr>" using assms(3) by (rule step_cases)
  obtain es where es: "events v = events w @ es" "\<forall>x k c. Asked x k c \<in> set es \<longrightarrow> connecting f = Some (x, k)"
    using x(2) by (rule exec_log)
  have ev: "events w' = events w @ es" by (simp add: x(3) es(1))
  have top: "f \<in> set (threads w t)" by (simp add: x(1))
  have old: "asked p (events w')" if "g \<in> set (threads w u)" "p \<in> frame_binds g" for g u p
    using assms(1) that unfolding asked_ok_def ev asked_append by blast
  have oldp: "asked p (events w')" if "p \<in> pb_key ` set (g_pending (native w))" for p
    using assms(1) that unfolding asked_ok_def ev asked_append by blast
  have oldc: "Registered y k \<in> set (events w')" if "g \<in> set (threads w u)" "connecting g = Some (y, k)" for g u y k
    using assms(1) that unfolding asked_ok_def ev by auto
  show ?thesis
  proof (rule asked_okI)
    fix u g p assume g: "g \<in> set (threads w' u)" "p \<in> frame_binds g"
    consider "g \<in> set (threads w u)" | "g \<in> new_frames out" using step_frames[OF x g(1)] g(2) binds_others by auto
    then show "asked p (events w')"
    proof cases
      case 2
      moreover have "events v = events w'" by (simp add: x(3))
      ultimately show ?thesis using exec_new_binds[OF x(2) _ g(2)] old[OF top] oldp by metis
    qed (use old g(2) in blast)
  next
    fix p assume "p \<in> set (g_pending (native w'))"
    then have "p \<in> set (g_pending (native w)) \<or> pb_key p \<in> frame_binds f" using exec_pending_subset[OF x(2)] by (simp add: x(3))
    then show "asked (pb_key p) (events w')" using old[OF top] oldp by blast
  next
    fix u g y k assume g: "g \<in> set (threads w' u)" "connecting g = Some (y, k)"
    consider "g \<in> set (threads w u)" | "g \<in> new_frames out" using step_frames[OF x g(1)] g(2) binds_others by auto
    then show "Registered y k \<in> set (events w')"
    proof cases
      case 2
      then show ?thesis using exec_new_connecting[OF x(2) _ g(2) assms(2)] ev es(1) by simp
    qed (use oldc g(2) in blast)
  next
    fix y k c assume "Asked y k c \<in> set (events w')"
    then consider "Asked y k c \<in> set (events w)" | "Asked y k c \<in> set es" by (auto simp: ev)
    then show "Registered y k \<in> set (events w')"
    proof cases
      case 1
      then have "Registered y k \<in> set (events w)" using assms(1) unfolding asked_ok_def by blast
      then show ?thesis by (simp add: ev)
    next
      case 2 then show ?thesis using es(2) oldc[OF top] by blast
    qed
  qed
qed

lemma enter_asked:
  assumes "asked_ok w" "enter t cl w = Some w'"
  shows "asked_ok w'"
proof -
  have "frame_binds (call_frame cl) = {}" "connecting (call_frame cl) = None" by (cases cl; simp add: frame_binds_def connecting_def)+
  moreover have "w' = w\<lparr> threads := (threads w)(t := call_frame cl # threads w t) \<rparr>" using assms(2) by (elim enter_cases)
  ultimately show ?thesis using assms(1) unfolding asked_ok_def by (auto split: if_splits)
qed

lemma reach_asked: "reach S w \<Longrightarrow> asked_ok w"
proof (induction rule: reach.induct)
  case init then show ?case by (simp add: asked_ok_def world_init_def inproc_init_def)
next
  case step then show ?case using step_asked reach_registry by blast
next
  case enter then show ?case using enter_asked by blast
qed

lemma callbacks_append:
  assumes "callbacks_ok es"
    "\<And>ps x tg k c ib qs. fs = ps @ Callback x tg k c ib # qs \<Longrightarrow> live (es @ ps) x = Some k \<and> asked (k, c) (es @ ps)"
  shows "callbacks_ok (es @ fs)"
  unfolding callbacks_ok_def
proof (intro allI impI)
  fix ps x tg k c ib qs assume e: "es @ fs = ps @ Callback x tg k c ib # qs"
  then consider us where "es = ps @ us" "us @ fs = Callback x tg k c ib # qs" | us where "ps = es @ us" "fs = us @ Callback x tg k c ib # qs"
    by (auto simp: append_eq_append_conv2)
  then show "live ps x = Some k \<and> asked (k, c) ps"
  proof cases
    case 1
    then show ?thesis using assms unfolding callbacks_ok_def by (cases us) (auto, (metis append_Nil append_Nil2)+)
  next
    case 2 then show ?thesis using assms(2) by simp
  qed
qed

lemma step_callbacks:
  assumes "callbacks_ok (events w)" "asked_ok w" "registry_ok w" "step a t w = Some w'"
  shows "callbacks_ok (events w')"
proof -
  obtain f fs out v where x: "threads w t = f # fs" "exec_frame a t f w = Some (out, v)"
    "w' = v\<lparr> threads := (threads v)(t := after out fs) \<rparr>" using assms(4) by (rule step_cases)
  obtain es where es: "events v = events w @ es" "\<forall>ps x tg k c ib qs. es = ps @ Callback x tg k c ib # qs \<longrightarrow>
       (\<forall>e\<in>set ps. \<not> registry_event e) \<and> onServiceConnected k (java w) = Some (x, tg) \<and> (k, c) \<in> frame_binds f"
    using x(2) by (rule exec_log)
  have "callbacks_ok (events w @ es)"
  proof (rule callbacks_append[OF assms(1)])
    fix ps y tg k c ib qs assume "es = ps @ Callback y tg k c ib # qs"
    then have c: "\<forall>e\<in>set ps. \<not> registry_event e" "onServiceConnected k (java w) = Some (y, tg)" "(k, c) \<in> frame_binds f"
      using es(2) by blast+
    have "f \<in> set (threads w t)" by (simp add: x(1))
    then have "asked (k, c) (events w)" using assms(2) c(3) unfolding asked_ok_def by blast
    moreover have "live (events w) y = Some k"
      using c(2) assms(3) by (auto simp: onServiceConnected_def registry_ok_def split: option.splits) (metis option.simps(9))
    ultimately show "live (events w @ ps) y = Some k \<and> asked (k, c) (events w @ ps)" using live_quiet[OF c(1)] by (simp add: asked_append)
  qed
  then show ?thesis by (simp add: x(3) es(1))
qed

lemma reach_callbacks: "reach S w \<Longrightarrow> callbacks_ok (events w)"
proof (induction rule: reach.induct)
  case init then show ?case by (simp add: callbacks_ok_def world_init_def)
next
  case step then show ?case using step_callbacks reach_asked reach_registry by blast
next
  case enter then show ?case by (elim enter_cases) simp
qed


section \<open>Concrete runs\<close>

datatype label = Enter nat call | Steps nat answers nat

fun run_world :: "string list \<Rightarrow> label list \<Rightarrow> world \<Rightarrow> world option" where
  "run_world S [] w = Some w"
| "run_world S (Enter t cl # ls) w = (if polite (set S) t cl w
     then (case enter t cl w of None \<Rightarrow> None | Some w' \<Rightarrow> run_world S ls w') else None)"
| "run_world S (Steps t a n # ls) w = (case run_thread a t n w of None \<Rightarrow> None | Some w' \<Rightarrow> run_world S ls w')"

lemma run_thread_reach: "run_thread a t n w = Some w' \<Longrightarrow> reach S w \<Longrightarrow> reach S w'"
  by (induction n arbitrary: w) (auto intro: reach.step split: option.splits)

lemma run_world_reach: "run_world S ls w = Some w' \<Longrightarrow> reach (set S) w \<Longrightarrow> reach (set S) w'"
  by (induction S ls w rule: run_world.induct) (auto intro: reach.enter run_thread_reach split: option.splits if_splits)

lemma run_events:
  assumes "map_option f (run_world S ls world_init) = Some es"
  obtains w where "reach (set S) w" "f w = es"
  using assms run_world_reach[OF _ reach.init] by (auto simp: map_option_case split: option.splits)

lemma run_exists: "map_option f (run_world [] ls world_init) = Some r \<Longrightarrow> \<exists>w. reach {} w \<and> f w = r"
  by (erule run_events) auto

text \<open>Answers of a system in which the app is \<open>app\<close> and \<open>Svc\<close> and \<open>Aux\<close> are services; \<open>es\<close> are the running ones.\<close>

definition sys :: "mservice list \<Rightarrow> answers" where
  "sys es = \<lparr> fw = \<lparr> fw_services = Some es, fw_application = True, fw_package = Some ''app'',
      fw_isServiceClass = (\<lambda>c. c = ''Svc'' \<or> c = ''Aux''), fw_appThread = True, fw_appInfo = True, fw_serviceInfo = True,
      fw_create = True, fw_token = 5, fw_args = True \<rparr>,
    a_now = 1000, a_spawned = Some 2, a_attached = True, a_onBind = Some 50, a_registry = True, a_connected = True,
    a_ohResult = 0, a_converter = True, a_toBundle = (\<lambda>j. None) \<rparr>"

definition svc_running :: "mservice list" where
  "svc_running = [\<lparr> ms_key = Some 9, ms_value = Some (''Oth'', 41) \<rparr>, \<lparr> ms_key = Some 5, ms_value = Some (''Svc'', 40) \<rparr>]"

definition play :: WantParams where
  "play = \<lparr> want_bundle = ''app'', want_ability = ''Svc'', want_action = ''ohos.want.action.play'', want_uri = [], want_params = [] \<rparr>"

text \<open>A bind of a service that is not there yet, a second bind when it runs, and a start.\<close>

definition bind_run :: "label list" where
  "bind_run = [Enter 1 (CBind 7 ''app'' ''Svc''), Steps 1 (sys []) 7, Steps 2 (sys svc_running) 17,
     Enter 1 (CBind 8 ''app'' ''Svc''), Steps 1 (sys svc_running) 6, Enter 1 (CStart play), Steps 1 (sys svc_running) 6]"

definition bind_events :: "event list" where
  "bind_events = [Registered 7 1, Asked 7 1 ''Svc'', Created ''Svc'' 5, Queued 1 ''Svc'', Claimed 1 ''Svc'', OnBind ''Svc'',
     Connected 1 ''Svc'' (Some 50), Callback 7 ''Svc'' 1 ''Svc'' (Some 50), Registered 8 2, Asked 8 2 ''Svc'',
     Connected 2 ''Svc'' (Some 50), Callback 8 ''Svc'' 2 ''Svc'' (Some 50),
     Args ''Svc'' 5 1 (Some \<lparr> ji_component = Some (''app'', ''Svc''), ji_action = Some ''play'', ji_data = Some [], ji_extras = None \<rparr>)]"

lemma bind_run_events:
  "map_option (\<lambda>w. (events w, svc_token (svc ''Svc'' (native w)))) (run_world [] bind_run world_init) = Some (bind_events, Some 5)"
  "map_option events (run_world [''Svc''] bind_run world_init) = Some bind_events"
  by code_simp+



lemma waiting_run:
  "map_option (\<lambda>w. (map pb_key (g_pending (native w)), AttachFailed \<in> set (events w), tally (Queued 1 ''Svc'') (events w)))
     (run_world [] (take 2 bind_run) world_init) = Some ([(1, ''Svc'')], False, 1)"
  by code_simp

theorem one_worker_witness:
  "\<exists>w. reach {} w \<and> g_pending (native w) \<noteq> [] \<and> g_workerRunning (native w) \<and> (\<exists>!t. is_worker w t)"
proof -
  obtain w where w: "reach (set []) w" "(map pb_key (g_pending (native w)), AttachFailed \<in> set (events w), tally (Queued 1 ''Svc'') (events w))
    = ([(1, ''Svc'')], False, 1)" using run_events[OF waiting_run] by blast
  then have "reach {} w" "g_pending (native w) \<noteq> []" "AttachFailed \<notin> set (events w)" by auto
  then show ?thesis using one_worker[of w] by blast
qed

theorem binds_accounted_witness:
  "\<exists>w. reach {} w \<and> tally (Queued 1 ''Svc'') (events w) = 1 \<and> tally (Claimed 1 ''Svc'') (events w) = 1
     \<and> waiting_binds 1 ''Svc'' (native w) = 0"
proof -
  obtain w where w: "reach (set []) w" "(events w, svc_token (svc ''Svc'' (native w))) = (bind_events, Some 5)"
    using run_events[OF bind_run_events(1)] by blast
  then have "tally (Queued 1 ''Svc'') (events w) = 1" "tally (Claimed 1 ''Svc'') (events w) = 1" by (simp_all add: bind_events_def)
  moreover have "reach {} w" using w(1) by simp
  ultimately show ?thesis using binds_accounted[of w 1 "''Svc''"] by auto
qed


definition worker_world :: world where
  "worker_world = \<lparr> native = inproc_init\<lparr> g_workerRunning := True, g_pending :=
      [\<lparr> pb_cls = ''Svc'', pb_bundle = ''app'', pb_connId = 1, pb_deadlineMs = 20000 \<rparr>,
       \<lparr> pb_cls = ''Aux'', pb_bundle = ''app'', pb_connId = 2, pb_deadlineMs = 900 \<rparr>] \<rparr>,
    java = registry_init, g_bindOpMu = None, threads = (\<lambda>t. if t = 2 then [WTop] else []), events = [] \<rparr>"

theorem worker_drains_witness:
  "\<exists>n w'. run_thread (sys svc_running) 2 n worker_world = Some w' \<and> g_pending (native w') = [] \<and> \<not> g_workerRunning (native w')"
proof -
  have "threads worker_world 2 = [WTop]" "g_bindOpMu worker_world = None" "a_registry (sys svc_running)" "a_connected (sys svc_running)"
    "\<forall>p\<in>set (g_pending (native worker_world)). find_service (fw (sys svc_running)) (pb_cls p) \<noteq> None \<or> a_now (sys svc_running) > pb_deadlineMs p"
    by (simp_all add: worker_world_def sys_def find_service_def svc_running_def)
  then show ?thesis using worker_drains[of worker_world 2 "sys svc_running"] by blast
qed

section \<open>What the code does not exclude\<close>

text \<open>A service that binds itself from its own \<open>onBind\<close> is bound twice.\<close>

lemma rebind_runs_onBind_twice:
  "\<exists>w. reach {} w \<and> length (filter (binds ''Svc'') (events w)) = 2"
proof -
  have "map_option (\<lambda>w. length (filter (binds ''Svc'') (events w))) (run_world []
    [Enter 1 (CBind 7 ''app'' ''Svc''), Steps 1 (sys svc_running) 10, Enter 1 (CBind 8 ''app'' ''Svc''), Steps 1 (sys svc_running) 12]
    world_init) = Some 2" by code_simp
  from run_exists[OF this] show ?thesis .
qed

text \<open>A bind that the worker has claimed is delivered to the registry even when the app unbinds in between.\<close>

lemma delivery_after_unbind:
  "\<exists>w. reach {} w \<and> (\<exists>ps. events w = ps @ [Claimed 1 ''Svc'', Unregistered 7 1, OnBind ''Svc'', Connected 1 ''Svc'' (Some 50)])"
proof -
  have "map_option (\<lambda>w. drop 4 (events w)) (run_world []
    [Enter 1 (CBind 7 ''app'' ''Svc''), Steps 1 (sys []) 7, Steps 2 (sys svc_running) 7, Enter 1 (CUnbind 7), Steps 1 (sys []) 2,
     Steps 2 (sys svc_running) 8] world_init) = Some [Claimed 1 ''Svc'', Unregistered 7 1, OnBind ''Svc'', Connected 1 ''Svc'' (Some 50)]"
    by code_simp
  from run_exists[OF this] obtain w where
    "reach {} w" "drop 4 (events w) = [Claimed 1 ''Svc'', Unregistered 7 1, OnBind ''Svc'', Connected 1 ''Svc'' (Some 50)]" by blast
  then show ?thesis by (metis append_take_drop_id)
qed

text \<open>A worker that cannot attach leaves its binds waiting with no worker.\<close>

lemma attach_failure_strands: "\<exists>w. reach {} w \<and> g_pending (native w) \<noteq> [] \<and> (\<forall>t. \<not> is_worker w t)"
proof -
  have "map_option (\<lambda>w. (g_pending (native w) \<noteq> [], g_workerRunning (native w))) (run_world []
    [Enter 1 (CBind 7 ''app'' ''Svc''), Steps 1 (sys []) 7, Steps 2 ((sys [])\<lparr> a_attached := False \<rparr>) 1] world_init) = Some (True, False)"
    by code_simp
  from run_exists[OF this] obtain w where "reach {} w" "g_pending (native w) \<noteq> []" "\<not> g_workerRunning (native w)" by auto
  then show ?thesis using reach_worker by (auto simp: worker_ok_def)
qed

text \<open>Two starts on different threads can get the same start id.\<close>

lemma start_ids_repeat: "\<exists>w i. reach {} w \<and> tally (Args ''Svc'' 5 1 i) (events w) = 2"
proof -
  have "map_option (\<lambda>w. tally (bind_events ! 12) (events w)) (run_world []
    [Enter 1 (CStart play), Steps 1 (sys []) 4, Enter 3 (CStart play), Steps 3 (sys []) 6, Steps 1 (sys []) 2] world_init) = Some 2"
    by code_simp
  from run_exists[OF this] obtain w where "reach {} w" "tally (bind_events ! 12) (events w) = 2" by blast
  then show ?thesis by (auto simp: bind_events_def)
qed

text \<open>A connection that is used for two services gets the second one under the name of the first.\<close>

lemma second_service_misnamed: "\<exists>w. reach {} w \<and> Callback 7 ''Svc'' 1 ''Aux'' (Some 50) \<in> set (events w)"
proof -
  have "map_option (\<lambda>w. Callback 7 ''Svc'' 1 ''Aux'' (Some 50) \<in> set (events w)) (run_world []
    [Enter 1 (CBind 7 ''app'' ''Svc''), Steps 1 (sys []) 7, Enter 1 (CBind 7 ''app'' ''Aux''),
     Steps 1 (sys [\<lparr> ms_key = Some 6, ms_value = Some (''Aux'', 42) \<rparr>]) 14] world_init) = Some True"
    by code_simp
  from run_exists[OF this] show ?thesis by simp
qed

text \<open>An unbind removes only the first waiting bind of a connection.\<close>

lemma disconnect_leaves_second_bind:
  "\<exists>w. reach {} w \<and> OhDisconnect 1 \<notin> set (events w) \<and> live (events w) 7 = None \<and> map pb_key (g_pending (native w)) = [(1, ''Aux'')]"
proof -
  have "map_option (\<lambda>w. (OhDisconnect 1 \<in> set (events w), live (events w) 7, map pb_key (g_pending (native w)))) (run_world []
    [Enter 1 (CBind 7 ''app'' ''Svc''), Steps 1 (sys []) 7, Enter 1 (CBind 7 ''app'' ''Aux''), Steps 1 (sys []) 7,
     Enter 1 (CUnbind 7), Steps 1 (sys []) 2] world_init) = Some (False, None, [(1, ''Aux'')])"
    by code_simp
  from run_exists[OF this] show ?thesis by auto
qed

end
