(* ===== verification/AudioTrack.thy ===== *)
theory AudioTrack
  imports Prelude
begin

text \<open>
  Audio output: \<open>core/jni/oh_audiotrack_shim.cpp\<close>. Java threads write samples into a byte ring, the audio thread of
  OpenHarmony pulls them out. A write that does not fit waits; it is then a thread inside \<open>pushPcm\<close>, and every time it
  gets the lock it fills what is free (\<open>push_round\<close>). The other operations hold the lock from beginning to end.
  \<open>None\<close> is undefined behaviour (a signed overflow). What the audio library answers is a parameter.
\<close>

record ATShim =
  at_sampleRate :: int
  at_channels :: int
  at_bytesPerFrame :: int
  at_ring :: bytes
  at_cap :: nat
  at_head :: nat
  at_tail :: nat
  at_count :: nat
  at_started :: bool
  at_stopping :: bool
  at_framesRendered :: int

section \<open>Set-up\<close>

definition mul32 :: "int \<Rightarrow> int \<Rightarrow> int option" where
  "mul32 a b = (if int32 (a * b) then Some (a * b) else None)"

definition popcount :: "u32 \<Rightarrow> nat" where
  "popcount w = length (filter (bit w) [0..<32])"

definition channel_count :: "u32 \<Rightarrow> int" where
  "channel_count chMask = (let ch = int (popcount (chMask AND 0x000FFFFF));
       ch = (if ch < 1 \<or> ch > 2 then (if chMask \<noteq> 0 \<and> ch > 2 then 2 else if ch = 1 then 1 else 2) else ch)
     in if ch < 1 then 2 else ch)"

text \<open>The capacity: four times the size asked for, at least 200 ms and at least 16 KiB.\<close>

definition ring_capacity :: "int \<Rightarrow> int \<Rightarrow> int \<Rightarrow> nat option" where
  "ring_capacity rate bpf buffSize = do {
     r \<leftarrow> mul32 rate bpf;
     c \<leftarrow> mul32 (if buffSize > 0 then buffSize else r div 5) 4;
     let c = nat c;
     let c = (if c < nat (r div 5) then nat (r div 5) else c);
     Some (if c < 16384 then 16384 else c) }"

record audio_library =
  al_loaded :: bool
  al_create :: int
  al_generate :: int

definition setup_rate :: "int option \<Rightarrow> int" where
  "setup_rate rateArr = (case rateArr of Some v \<Rightarrow> if v > 0 then v else 44100 | None \<Rightarrow> 44100)"

definition AT_nSetup :: "audio_library \<Rightarrow> int option \<Rightarrow> u32 \<Rightarrow> int \<Rightarrow> (int \<times> ATShim option) option" where
  "AT_nSetup lib rateArr chMask buffSize = (if \<not> al_loaded lib then Some (- 20, None)
     else do {
       let rate = setup_rate rateArr;
       let ch = channel_count chMask;
       let bpf = 2 * ch;
       cap \<leftarrow> ring_capacity rate bpf buffSize;
       if al_create lib \<noteq> 0 then Some (- 21, None)
       else if al_generate lib \<noteq> 0 then Some (- 22, None)
       else Some (0, Some \<lparr> at_sampleRate = rate, at_channels = ch, at_bytesPerFrame = bpf, at_ring = replicate cap 0,
         at_cap = cap, at_head = 0, at_tail = 0, at_count = 0, at_started = False, at_stopping = False,
         at_framesRendered = 0 \<rparr>) })"

definition nMinBuf :: "int \<Rightarrow> u32 \<Rightarrow> int option" where
  "nMinBuf rate chMask = do {
     let ch = int (popcount (chMask AND 0xFFFFF));
     let ch = (if ch < 1 then 2 else ch);
     r \<leftarrow> mul32 rate (2 * ch);
     let b = r div 10;
     Some (if b < 4096 then 4096 else b) }"

section \<open>The ring\<close>

fun pull_loop :: "nat \<Rightarrow> ATShim \<Rightarrow> bytes \<times> ATShim" where
  "pull_loop 0 s = ([], s)"
| "pull_loop (Suc n) s = (case pull_loop n (s\<lparr> at_head := (at_head s + 1) mod at_cap s \<rparr>) of
     (out, s') \<Rightarrow> (at_ring s ! at_head s # out, s'))"

definition onWriteData :: "nat \<Rightarrow> ATShim \<Rightarrow> bytes \<times> ATShim" where
  "onWriteData len s = (let give = (if at_count s < len then at_count s else len) in
     case pull_loop give s of (out, s) \<Rightarrow>
       (out @ replicate (len - give) 0,
        s\<lparr> at_count := at_count s - give,
           at_framesRendered := at_framesRendered s + int len div (if at_bytesPerFrame s > 0 then at_bytesPerFrame s else 4) \<rparr>))"

text \<open>The inner loop of \<open>pushPcm\<close>: it returns what did not fit.\<close>

fun push_fill :: "bytes \<Rightarrow> ATShim \<Rightarrow> bytes \<times> ATShim" where
  "push_fill [] s = ([], s)"
| "push_fill (x # xs) s = (if at_count s < at_cap s
     then push_fill xs (s\<lparr> at_ring := (at_ring s)[at_tail s := x], at_tail := (at_tail s + 1) mod at_cap s,
       at_count := at_count s + 1 \<rparr>)
     else (x # xs, s))"

text \<open>A round of \<open>pushPcm\<close> under the lock: \<open>Inl\<close> is the number of bytes it returns, \<open>Inr\<close> the bytes it still has to write
  when it waits for space; \<open>sizeBytes\<close> is the number of bytes of the call.\<close>

definition push_round :: "bool \<Rightarrow> nat \<Rightarrow> bytes \<Rightarrow> ATShim \<Rightarrow> (nat + bytes) \<times> ATShim" where
  "push_round blocking sizeBytes xs s = (if xs = [] then (Inl sizeBytes, s)
     else if at_stopping s then (Inl (sizeBytes - length xs), s)
     else case push_fill xs s of (ys, s') \<Rightarrow>
       if ys = [] then (Inl sizeBytes, s')
       else if blocking then (Inr ys, s') else (Inl (sizeBytes - length ys), s'))"

text \<open>The array writes: the bytes of the array from an element on; shorts count twice.\<close>

definition AT_nWriteByte :: "bool \<Rightarrow> bytes \<Rightarrow> nat \<Rightarrow> nat \<Rightarrow> ATShim \<Rightarrow> ((nat + bytes) \<times> ATShim) option" where
  "AT_nWriteByte blocking buf off n s = do { xs \<leftarrow> slice buf off n; Some (push_round blocking n xs s) }"

definition AT_nWriteShort :: "bool \<Rightarrow> bytes \<Rightarrow> nat \<Rightarrow> nat \<Rightarrow> ATShim \<Rightarrow> ((nat + bytes) \<times> ATShim) option" where
  "AT_nWriteShort blocking buf off n s = do { xs \<leftarrow> slice buf (2 * off) (2 * n);
     Some (case push_round blocking (2 * n) xs s of (Inl w, s) \<Rightarrow> (Inl (w div 2), s) | (Inr ys, s) \<Rightarrow> (Inr ys, s)) }"

text \<open>A direct buffer.\<close>

definition AT_nWriteNative :: "bool \<Rightarrow> bytes \<Rightarrow> nat \<Rightarrow> nat \<Rightarrow> ATShim \<Rightarrow> ((nat + bytes) \<times> ATShim) option" where
  "AT_nWriteNative blocking base pos n s = do { xs \<leftarrow> slice base pos n; Some (push_round blocking n xs s) }"

definition AT_nStart :: "ATShim \<Rightarrow> ATShim" where
  "AT_nStart s = (if at_started s then s else s\<lparr> at_started := True \<rparr>)"

definition AT_nStop :: "ATShim \<Rightarrow> ATShim" where
  "AT_nStop s = s\<lparr> at_stopping := True, at_started := False \<rparr>"

definition AT_nFlush :: "ATShim \<Rightarrow> ATShim" where
  "AT_nFlush s = s\<lparr> at_head := 0, at_tail := 0, at_count := 0 \<rparr>"

definition nGetPos :: "int option \<Rightarrow> ATShim \<Rightarrow> int" where
  "nGetPos frames s = sint (word_of_int (case frames of Some f \<Rightarrow> f | None \<Rightarrow> at_framesRendered s) :: u32)"

section \<open>The ring holds a queue\<close>

text \<open>The bytes in the ring, in the order in which they were written.\<close>

definition ring_at :: "ATShim \<Rightarrow> nat \<Rightarrow> byte" where
  "ring_at s i = at_ring s ! ((at_head s + i) mod at_cap s)"

definition queued :: "ATShim \<Rightarrow> bytes" where
  "queued s = map (ring_at s) [0..<at_count s]"

definition ring_ok :: "ATShim \<Rightarrow> bool" where
  "ring_ok s \<longleftrightarrow> 0 < at_cap s \<and> length (at_ring s) = at_cap s \<and> at_head s < at_cap s \<and> at_count s \<le> at_cap s \<and>
     at_tail s = (at_head s + at_count s) mod at_cap s"

lemma length_queued [simp]: "length (queued s) = at_count s"
  by (simp add: queued_def)

lemma mod_shift: "(a mod n + b) mod n = (a + b) mod (n :: nat)"
  by (simp add: mod_add_left_eq)

lemma ring_at_move: "ring_at (s\<lparr> at_head := Suc (at_head s) mod at_cap s \<rparr>) i = ring_at s (Suc i)"
  by (simp add: ring_at_def mod_shift)

lemma pull_loop_eq:
  assumes "at_head s < at_cap s"
  shows "pull_loop n s = (map (ring_at s) [0..<n], s\<lparr> at_head := (at_head s + n) mod at_cap s \<rparr>)"
  using assms
proof (induction n arbitrary: s)
  case (Suc n)
  have "pull_loop n (s\<lparr> at_head := Suc (at_head s) mod at_cap s \<rparr>) =
    (map (\<lambda>i. ring_at s (Suc i)) [0..<n], s\<lparr> at_head := (at_head s + Suc n) mod at_cap s \<rparr>)"
    using Suc.prems Suc.IH[of "s\<lparr> at_head := Suc (at_head s) mod at_cap s \<rparr>"] by (simp add: ring_at_move mod_shift)
  moreover have "at_ring s ! at_head s = ring_at s 0" using Suc.prems by (simp add: ring_at_def)
  ultimately show ?case by (simp add: map_upt_Suc del: upt_Suc)
qed simp

lemma onWriteData_queue:
  assumes "ring_ok s" "onWriteData len s = (out, s')"
  shows "ring_ok s'" "out = take len (queued s) @ replicate (len - at_count s) 0" "queued s' = drop len (queued s)"
    "at_stopping s' = at_stopping s" "at_cap s' = at_cap s"
proof -
  let ?g = "min (at_count s) len"
  have g: "(if at_count s < len then at_count s else len) = ?g" by simp
  have s': "s' = s\<lparr> at_head := (at_head s + ?g) mod at_cap s, at_count := at_count s - ?g, at_framesRendered := at_framesRendered s' \<rparr>"
    "out = map (ring_at s) [0..<?g] @ replicate (len - ?g) 0"
    using assms by (auto simp: onWriteData_def Let_def g pull_loop_eq ring_ok_def)
  have at: "ring_at s' i = ring_at s (?g + i)" for i by (subst s'(1)) (simp add: ring_at_def mod_shift add.assoc)
  have "((at_head s + ?g) mod at_cap s + (at_count s - ?g)) mod at_cap s = (at_head s + at_count s) mod at_cap s"
    unfolding mod_shift by (simp add: min_def)
  then show "ring_ok s'" using assms(1) by (subst s'(1)) (auto simp: ring_ok_def simp del: mod_add_left_eq add_diff_assoc)
  show "out = take len (queued s) @ replicate (len - at_count s) 0" by (auto simp: s'(2) queued_def take_map min_def)
  have "at_count s' = at_count s - ?g" by (subst s'(1)) simp
  then show "queued s' = drop len (queued s)"
    by (intro nth_equalityI) (auto simp: queued_def at min_def)
  show "at_stopping s' = at_stopping s" "at_cap s' = at_cap s" by (subst s'(1), simp)+
qed

lemma mod_distinct:
  assumes "i < j" "j < n"
  shows "(h + i) mod n \<noteq> (h + j) mod (n :: nat)"
proof
  assume "(h + i) mod n = (h + j) mod n"
  then have "(h + j) mod n = (h + i) mod n" by simp
  then have "n dvd (h + j) - (h + i)" using assms(1) by (subst (asm) mod_eq_dvd_iff_nat) simp_all
  then have "n dvd j - i" by simp
  then show False using assms by (auto dest!: dvd_imp_le)
qed


definition put_tail :: "byte \<Rightarrow> ATShim \<Rightarrow> ATShim" where
  "put_tail x s = s\<lparr> at_ring := (at_ring s)[at_tail s := x], at_tail := (at_tail s + 1) mod at_cap s, at_count := at_count s + 1 \<rparr>"

lemma put_tail_queue:
  assumes "ring_ok s" "at_count s < at_cap s"
  shows "ring_ok (put_tail x s)" "queued (put_tail x s) = queued s @ [x]"
proof -
  have t: "at_tail s = (at_head s + at_count s) mod at_cap s" "length (at_ring s) = at_cap s" "0 < at_cap s"
    using assms by (auto simp: ring_ok_def)
  have "ring_at (put_tail x s) i = ring_at s i" if "i < at_count s" for i
    using that t assms(2) mod_distinct[of i "at_count s" "at_cap s" "at_head s"] by (simp add: put_tail_def ring_at_def)
  moreover have "ring_at (put_tail x s) (at_count s) = x"
    using t by (simp add: put_tail_def ring_at_def)
  ultimately have "map (ring_at (put_tail x s)) [0..<Suc (at_count s)] = map (ring_at s) [0..<at_count s] @ [x]" by simp
  moreover have "at_count (put_tail x s) = Suc (at_count s)" by (simp add: put_tail_def)
  ultimately show "queued (put_tail x s) = queued s @ [x]" unfolding queued_def by argo
  show "ring_ok (put_tail x s)" using assms t by (auto simp: ring_ok_def put_tail_def mod_Suc_eq)
qed

lemma push_fill_put: "push_fill (x # xs) s = (if at_count s < at_cap s then push_fill xs (put_tail x s) else (x # xs, s))"
  by (simp add: put_tail_def)

lemma push_fill_queue:
  assumes "ring_ok s" "push_fill xs s = (ys, s')"
  shows "ring_ok s' \<and> queued s' = queued s @ take (at_cap s - at_count s) xs \<and> ys = drop (at_cap s - at_count s) xs
    \<and> at_cap s' = at_cap s \<and> at_stopping s' = at_stopping s"
  using assms
proof (induction xs arbitrary: s)
  case (Cons x xs)
  show ?case
  proof (cases "at_count s < at_cap s")
    case True
    have f: "at_cap (put_tail x s) = at_cap s" "at_count (put_tail x s) = Suc (at_count s)" "at_stopping (put_tail x s) = at_stopping s"
      by (simp_all add: put_tail_def)
    have "push_fill xs (put_tail x s) = (ys, s')" using Cons.prems(2) True unfolding push_fill_put by simp
    from Cons.IH[OF put_tail_queue(1)[OF Cons.prems(1) True] this] show ?thesis
      using True f put_tail_queue(2)[OF Cons.prems(1) True, of x]
      by (cases "at_cap s - at_count s") (auto simp: Suc_diff_Suc[symmetric])
  qed (use Cons.prems in auto)
qed auto


section \<open>Histories\<close>

text \<open>
  Calls of \<open>write\<close> by Java threads, rounds of writers that wait, pulls of the audio thread, and control calls. The
  state also records what was taken from the writers, what was played without the silence, the blocks the audio thread
  got and the results the writers saw.
\<close>

datatype audio_op = Write nat bytes bool | Wake nat | Pull nat | Start | Stop | Flush

record 'q audio =
  device :: 'q
  blocked :: "nat \<Rightarrow> (nat \<times> bytes) option"
  accepted :: bytes
  played :: bytes
  heard :: "bytes list"
  returned :: "(nat \<times> nat) list"

definition new_audio :: "'q \<Rightarrow> 'q audio" where
  "new_audio d = \<lparr> device = d, blocked = Map.empty, accepted = [], played = [], heard = [], returned = [] \<rparr>"

text \<open>A round of a writer, over any device with such a round.\<close>

definition writer_round ::
  "('q \<Rightarrow> (nat + bytes) \<times> 'q) \<Rightarrow> nat \<Rightarrow> nat \<Rightarrow> bytes \<Rightarrow> 'q audio \<Rightarrow> 'q audio" where
  "writer_round push t n xs w = (case push (device w) of
       (Inl r, d) \<Rightarrow> w\<lparr> device := d, blocked := (blocked w)(t := None), returned := returned w @ [(t, r)],
         accepted := accepted w @ take (r - (n - length xs)) xs \<rparr>
     | (Inr ys, d) \<Rightarrow> w\<lparr> device := d, blocked := (blocked w)(t \<mapsto> (n, ys)),
         accepted := accepted w @ take (length xs - length ys) xs \<rparr>)"

fun audio_step :: "ATShim audio \<Rightarrow> audio_op \<Rightarrow> ATShim audio" where
  "audio_step w (Write t xs b) = (if blocked w t \<noteq> None then w
     else writer_round (push_round b (length xs) xs) t (length xs) xs w)"
| "audio_step w (Wake t) = (case blocked w t of None \<Rightarrow> w
     | Some (n, xs) \<Rightarrow> writer_round (push_round True n xs) t n xs w)"
| "audio_step w (Pull len) = (case onWriteData len (device w) of (out, d) \<Rightarrow>
     w\<lparr> device := d, heard := heard w @ [out], played := played w @ take (at_count (device w)) out \<rparr>)"
| "audio_step w Start = w\<lparr> device := AT_nStart (device w) \<rparr>"
| "audio_step w Stop = w\<lparr> device := AT_nStop (device w) \<rparr>"
| "audio_step w Flush = w\<lparr> device := AT_nFlush (device w) \<rparr>"

text \<open>The specification: a bounded queue that can be stopped for good.\<close>

record bounded_queue =
  bq :: bytes
  bq_limit :: nat
  bq_stopped :: bool

definition bq_push :: "bool \<Rightarrow> nat \<Rightarrow> bytes \<Rightarrow> bounded_queue \<Rightarrow> (nat + bytes) \<times> bounded_queue" where
  "bq_push blocking n xs d = (if xs = [] then (Inl n, d)
     else if bq_stopped d then (Inl (n - length xs), d)
     else let k = bq_limit d - length (bq d); d' = d\<lparr> bq := bq d @ take k xs \<rparr> in
       if length xs \<le> k then (Inl n, d') else if blocking then (Inr (drop k xs), d') else (Inl (n - (length xs - k)), d'))"

fun queue_step :: "bounded_queue audio \<Rightarrow> audio_op \<Rightarrow> bounded_queue audio" where
  "queue_step w (Write t xs b) = (if blocked w t \<noteq> None then w
     else writer_round (bq_push b (length xs) xs) t (length xs) xs w)"
| "queue_step w (Wake t) = (case blocked w t of None \<Rightarrow> w
     | Some (n, xs) \<Rightarrow> writer_round (bq_push True n xs) t n xs w)"
| "queue_step w (Pull len) = (let d = device w; out = take len (bq d) in
     w\<lparr> device := d\<lparr> bq := drop len (bq d) \<rparr>, heard := heard w @ [out @ replicate (len - length (bq d)) 0], played := played w @ out \<rparr>)"
| "queue_step w Start = w"
| "queue_step w Stop = w\<lparr> device := (device w)\<lparr> bq_stopped := True \<rparr> \<rparr>"
| "queue_step w Flush = w\<lparr> device := (device w)\<lparr> bq := [] \<rparr> \<rparr>"

definition ring_queue :: "ATShim \<Rightarrow> bounded_queue" where
  "ring_queue s = \<lparr> bq = queued s, bq_limit = at_cap s, bq_stopped = at_stopping s \<rparr>"

definition audio_abs :: "ATShim audio \<Rightarrow> bounded_queue audio" where
  "audio_abs w = \<lparr> device = ring_queue (device w), blocked = blocked w, accepted = accepted w, played = played w,
     heard = heard w, returned = returned w \<rparr>"

definition audio_ok :: "ATShim audio \<Rightarrow> bool" where
  "audio_ok w \<longleftrightarrow> ring_ok (device w)"

lemma push_round_queue:
  assumes "ring_ok s"
  shows "ring_ok (snd (push_round b n xs s))"
    "bq_push b n xs (ring_queue s) = map_prod id ring_queue (push_round b n xs s)"
proof -
  obtain ys s' where f: "push_fill xs s = (ys, s')" by (cases "push_fill xs s")
  note q = push_fill_queue[OF assms f]
  show "ring_ok (snd (push_round b n xs s))" using assms q by (auto simp: push_round_def f)
  show "bq_push b n xs (ring_queue s) = map_prod id ring_queue (push_round b n xs s)"
    using q by (auto simp: push_round_def bq_push_def f ring_queue_def Let_def)
qed

lemma writer_round_sim:
  assumes "audio_ok w"
  shows "audio_ok (writer_round (push_round b n xs) t n' xs' w)"
    "audio_abs (writer_round (push_round b n xs) t n' xs' w) = writer_round (bq_push b n xs) t n' xs' (audio_abs w)"
proof -
  obtain r d where p: "push_round b n xs (device w) = (r, d)" by (cases "push_round b n xs (device w)")
  have q: "ring_ok d" "bq_push b n xs (ring_queue (device w)) = (r, ring_queue d)"
    using push_round_queue[of "device w" b n xs] assms by (auto simp: p audio_ok_def)
  show "audio_ok (writer_round (push_round b n xs) t n' xs' w)" using q(1) by (auto simp: writer_round_def p audio_ok_def split: sum.splits)
  show "audio_abs (writer_round (push_round b n xs) t n' xs' w) = writer_round (bq_push b n xs) t n' xs' (audio_abs w)"
    using q(2) by (auto simp: writer_round_def p audio_abs_def split: sum.splits)
qed

interpretation ring: simulated_machine audio_step audio_ok audio_abs queue_step
proof unfold_locales
  fix w x assume ok: "audio_ok w"
  then have r: "ring_ok (device w)" by (simp add: audio_ok_def)
  show "audio_ok (audio_step w x)"
  proof (cases x)
    case (Pull len)
    obtain out d where p: "onWriteData len (device w) = (out, d)" by (cases "onWriteData len (device w)")
    show ?thesis using onWriteData_queue[OF r p] Pull by (simp add: p audio_ok_def)
  qed (use ok writer_round_sim(1)[OF ok] r in \<open>auto simp: audio_ok_def ring_ok_def AT_nStart_def AT_nStop_def AT_nFlush_def split: option.splits\<close>)
  show "audio_abs (audio_step w x) = queue_step (audio_abs w) x"
  proof (cases x)
    case (Pull len)
    obtain out d where p: "onWriteData len (device w) = (out, d)" by (cases "onWriteData len (device w)")
    have "take (at_count (device w)) (take len (queued (device w)) @ replicate (len - at_count (device w)) 0) = take len (queued (device w))"
      by (cases "at_count (device w) \<le> len") auto
    then show ?thesis using onWriteData_queue[OF r p] Pull by (simp add: p audio_abs_def ring_queue_def Let_def)
  next
    case Write
    then show ?thesis using writer_round_sim(2)[OF ok] by (auto simp: audio_abs_def)
  next
    case Wake
    then show ?thesis using writer_round_sim(2)[OF ok] by (auto simp: audio_abs_def split: option.splits)
  qed (auto simp: audio_abs_def ring_queue_def AT_nStart_def AT_nStop_def AT_nFlush_def queued_def ring_at_def)
qed


text \<open>
  C26 (ring_refines_queue): every history of writes, wake-ups of waiting writers, pulls of the
  audio thread and control calls on the byte ring behaves exactly like one on a bounded queue of
  bytes: the same blocks are heard and the same results are returned to the writers.
\<close>

theorem ring_refines_queue:
  assumes "ring_ok s"
  shows "audio_abs (foldl audio_step (new_audio s) ops) = foldl queue_step (audio_abs (new_audio s)) ops
    \<and> ring_ok (device (foldl audio_step (new_audio s) ops))"
  using ring.run_sim[of "new_audio s" ops] ring.run_inv[of "new_audio s" ops] assms by (simp add: audio_ok_def new_audio_def)

section \<open>What is played\<close>

text \<open>Without a flush, what was taken from the writers is what was played and then what is in the queue.\<close>

definition in_order :: "bounded_queue audio \<Rightarrow> bool" where
  "in_order w \<longleftrightarrow> accepted w = played w @ bq (device w) \<and> length (bq (device w)) \<le> bq_limit (device w) \<and>
     (\<forall>t n xs. blocked w t = Some (n, xs) \<longrightarrow> length xs \<le> n)"

lemma bq_push_bounds:
  assumes "bq_push b n xs d = (r, d')" "length (bq d) \<le> bq_limit d" "length xs \<le> n"
  shows "length (bq d') \<le> bq_limit d' \<and> (case r of
      Inl m \<Rightarrow> bq d' = bq d @ take (m - (n - length xs)) xs \<and> m \<le> n
    | Inr ys \<Rightarrow> bq d' = bq d @ take (length xs - length ys) xs \<and> length ys \<le> length xs)"
  using assms by (auto simp: bq_push_def Let_def split: if_splits)

lemma writer_round_order:
  assumes "in_order w" "length xs \<le> n"
  shows "in_order (writer_round (bq_push b n xs) t n xs w)"
proof -
  obtain r d where p: "bq_push b n xs (device w) = (r, d)" by (cases "bq_push b n xs (device w)")
  show ?thesis using bq_push_bounds[OF p _ assms(2)] assms
    by (auto simp: in_order_def writer_round_def p split: sum.splits)
qed

lemma queue_step_order:
  assumes "in_order w" "x \<noteq> Flush"
  shows "in_order (queue_step w x)"
proof (cases x)
  case (Wake t)
  show ?thesis
  proof (cases "blocked w t")
    case (Some r)
    obtain n xs where r: "r = (n, xs)" by (cases r)
    then have "length xs \<le> n" using assms(1) Some by (simp add: in_order_def)
    from writer_round_order[OF assms(1) this] show ?thesis using Some Wake r by simp
  qed (use Wake assms in simp)
next
  case (Write t xs b)
  then show ?thesis using assms(1) writer_round_order[OF assms(1) order_refl, of b xs t] by simp
qed (use assms in \<open>auto simp: in_order_def Let_def\<close>)

lemma queue_run_order: "in_order w \<Longrightarrow> Flush \<notin> set ops \<Longrightarrow> in_order (foldl queue_step w ops)"
proof (induction ops arbitrary: w)
  case (Cons x ops)
  have "in_order (queue_step w x)" using queue_step_order Cons.prems by auto
  then show ?case using Cons.IH Cons.prems(2) by simp
qed simp


text \<open>
  C0 (audio_in_order): without a flush, the bytes taken from the writers are the bytes played, in
  order, followed by the bytes in the ring.
\<close>

theorem audio_in_order:
  assumes "ring_ok s" "at_count s = 0" "Flush \<notin> set ops" "w = foldl audio_step (new_audio s) ops"
  shows "accepted w = played w @ queued (device w)"
proof -
  have "in_order (audio_abs (new_audio s))" using assms(2) by (simp add: in_order_def audio_abs_def new_audio_def ring_queue_def queued_def)
  then have "in_order (audio_abs w)" using queue_run_order assms(3,4) ring.run_sim[of "new_audio s" ops] assms(1)
    by (simp add: audio_ok_def new_audio_def)
  then show ?thesis by (simp add: in_order_def audio_abs_def ring_queue_def)
qed

section \<open>Waiting writers\<close>

text \<open>A writer that waits gets all its bytes in when the audio thread keeps pulling and nobody stops the track.\<close>

lemma wake_progress:
  assumes "ring_ok (device w)" "\<not> at_stopping (device w)" "blocked w t = Some (n, xs)" "0 < len" "xs \<noteq> []"
    "w' = audio_step (audio_step w (Pull len)) (Wake t)"
  shows "(t, n) \<in> set (returned w') \<or> (\<exists>ys. blocked w' t = Some (n, ys) \<and> ys \<noteq> [] \<and> length ys < length xs
    \<and> ring_ok (device w') \<and> \<not> at_stopping (device w'))"
proof -
  obtain out d where p: "onWriteData len (device w) = (out, d)" by (cases "onWriteData len (device w)")
  note q = onWriteData_queue[OF assms(1) p]
  have "length (queued d) = at_count (device w) - len" using q(3) length_queued[of "device w"] by (metis length_drop)
  then have free: "0 < at_cap d - at_count d" using q(5) assms(1,4) by (auto simp: ring_ok_def)
  obtain ys d' where f: "push_fill xs d = (ys, d')" by (cases "push_fill xs d")
  note g = push_fill_queue[OF q(1) f]
  have pr: "push_round True n xs d = (if ys = [] then (Inl n, d') else (Inr ys, d'))"
    using assms(2,5) q(4) by (simp add: push_round_def f)
  show ?thesis
  proof (cases "ys = []")
    case True
    then show ?thesis using assms(3,6) by (simp add: p writer_round_def pr)
  next
    case False
    then have "length ys < length xs" using g free assms(5) by (simp add: length_greater_0_conv)
    moreover have "blocked w' t = Some (n, ys)" "device w' = d'" using assms(3,6) False by (simp_all add: p writer_round_def pr)
    moreover have "ring_ok d'" "\<not> at_stopping d'" using g assms(2) q(4) by simp_all
    ultimately show ?thesis using False by blast
  qed
qed

lemma returned_mono: "set (returned w) \<subseteq> set (returned (audio_step w x))"
  by (cases x) (auto simp: writer_round_def split: option.splits sum.splits prod.splits)

lemma returned_run: "set (returned w) \<subseteq> set (returned (foldl audio_step w ops))"
  by (induction ops arbitrary: w) (use returned_mono in fastforce)+


text \<open>A track that was stopped never takes another byte: nothing resets the flag.\<close>

lemma writer_round_stopped:
  "at_stopping (device w) \<Longrightarrow> at_stopping (device (writer_round (push_round b n xs) t n xs w))
     \<and> accepted (writer_round (push_round b n xs) t n xs w) = accepted w"
  by (simp add: writer_round_def push_round_def)

lemma stopped_keeps:
  assumes "audio_ok w" "at_stopping (device w)"
  shows "at_stopping (device (audio_step w x)) \<and> accepted (audio_step w x) = accepted w"
proof (cases x)
  case (Pull len)
  obtain out d where p: "onWriteData len (device w) = (out, d)" by (cases "onWriteData len (device w)")
  then show ?thesis using onWriteData_queue(4)[OF _ p] assms Pull by (simp add: audio_ok_def)
next
  case Write then show ?thesis using assms(2) writer_round_stopped by (metis audio_step.simps(1))
next
  case Wake then show ?thesis using assms(2) writer_round_stopped by (auto split: option.splits prod.splits)
qed (use assms(2) in \<open>auto simp: AT_nStart_def AT_nStop_def AT_nFlush_def\<close>)

text \<open>
  C0 (stopped_for_good): a track that was stopped once never takes another byte, whatever is
  called afterwards, also after a new start.
\<close>

theorem stopped_for_good:
  assumes "ring_ok s"
  shows "accepted (foldl audio_step (new_audio s) (ops @ Stop # ops')) = accepted (foldl audio_step (new_audio s) ops)"
proof -
  have "at_stopping (device w) \<Longrightarrow> audio_ok w \<Longrightarrow> accepted (foldl audio_step w xs) = accepted w" for w xs
  proof (induction xs arbitrary: w)
    case (Cons x xs)
    then show ?case using stopped_keeps[of w x] ring.step_inv[of w x] by simp
  qed simp
  moreover have "audio_ok (foldl audio_step (new_audio s) ops)" using ring.run_inv[of "new_audio s"] assms by (simp add: audio_ok_def new_audio_def)
  ultimately show ?thesis by (simp add: AT_nStop_def audio_ok_def ring_ok_def)
qed


section \<open>Set-up\<close>

lemma channel_count_range: "channel_count m = 1 \<or> channel_count m = 2"
  by (auto simp: channel_count_def Let_def)

text \<open>
  C0 (setup_ring): the set-up either reports an error or makes an empty ring of at least 16 KiB,
  200 ms and four times the size asked for.
\<close>

theorem setup_ring:
  assumes "AT_nSetup lib rateArr m buffSize = Some (rc, r)"
  shows "(rc = 0 \<longleftrightarrow> r \<noteq> None) \<and> (\<forall>s. r = Some s \<longrightarrow> ring_ok s \<and> at_count s = 0 \<and> \<not> at_stopping s \<and> at_cap s \<ge> 16384
     \<and> int (at_cap s) \<ge> at_sampleRate s * at_bytesPerFrame s div 5 \<and> int (at_cap s) \<ge> 4 * buffSize
     \<and> at_bytesPerFrame s \<in> {2, 4} \<and> at_sampleRate s > 0)"
proof (cases "al_loaded lib")
  case True
  let ?rate = "setup_rate rateArr"
  have rate: "?rate > 0" by (auto simp: setup_rate_def split: option.splits)
  obtain cap where cap: "ring_capacity ?rate (2 * channel_count m) buffSize = Some cap"
    using assms(1) True by (auto simp: AT_nSetup_def Let_def split: Option.bind_splits)
  then have c: "cap \<ge> 16384" "int cap \<ge> ?rate * (2 * channel_count m) div 5" "int cap \<ge> 4 * buffSize"
    using rate channel_count_range[of m] by (auto simp: ring_capacity_def mul32_def Let_def split: Option.bind_splits if_splits)
  show ?thesis using assms(1) True cap c rate channel_count_range[of m]
    by (auto simp: AT_nSetup_def Let_def ring_ok_def split: if_splits)
next
  case False
  then show ?thesis using assms(1) by (auto simp: AT_nSetup_def)
qed

text \<open>The multiplication of the requested size by four overflows for a size of half a gigabyte.\<close>

lemma setup_overflow: "buffSize \<ge> 2 ^ 29 \<Longrightarrow> al_loaded lib \<Longrightarrow> AT_nSetup lib None m buffSize = None"
proof -
  assume a: "buffSize \<ge> 2 ^ 29" "al_loaded lib"
  then have "mul32 buffSize 4 = None" by (simp add: mul32_def int32_def)
  moreover have "buffSize > 0" using a(1) by (rule less_le_trans[rotated]) simp
  ultimately show ?thesis using a(2) by (auto simp: AT_nSetup_def ring_capacity_def Let_def split: Option.bind_splits)
qed

section \<open>Examples\<close>

definition small_ring :: ATShim where
  "small_ring = \<lparr> at_sampleRate = 44100, at_channels = 1, at_bytesPerFrame = 2, at_ring = replicate 3 0, at_cap = 3, at_head = 2,
     at_tail = 2, at_count = 0, at_started = True, at_stopping = False, at_framesRendered = 0 \<rparr>"

definition small_ops :: "audio_op list" where
  "small_ops = [Write 1 [1, 2, 3, 4, 5] True, Pull 2, Wake 1, Pull 4, Write 2 [6] False, Pull 1]"

lemma small_run: "let w = foldl audio_step (new_audio small_ring) small_ops in
  (heard w, returned w, accepted w, queued (device w)) = ([[1, 2], [3, 4, 5, 0], [6]], [(1, 5), (2, 1)], [1, 2, 3, 4, 5, 6], [])"
  by code_simp

theorem ring_refines_queue_witness:
  "ring_ok small_ring \<and> heard (audio_abs (foldl audio_step (new_audio small_ring) small_ops)) =
     heard (foldl queue_step (audio_abs (new_audio small_ring)) small_ops)"
proof -
  have "ring_ok small_ring" by (simp add: ring_ok_def small_ring_def)
  then show ?thesis using ring_refines_queue[of small_ring small_ops] by simp
qed

theorem audio_in_order_witness:
  "accepted (foldl audio_step (new_audio small_ring) small_ops) = [1, 2, 3, 4, 5, 6] \<and>
   played (foldl audio_step (new_audio small_ring) small_ops) = [1, 2, 3, 4, 5, 6]"
proof -
  have ok: "ring_ok small_ring" "at_count small_ring = 0" "Flush \<notin> set small_ops"
    by (simp_all add: ring_ok_def small_ring_def small_ops_def)
  then show ?thesis using audio_in_order[OF ok refl] small_run by (metis append_Nil2 prod.inject)
qed


theorem stopped_for_good_witness:
  "accepted (foldl audio_step (new_audio small_ring) ([Write 1 [7] True] @ Stop # [Start, Write 1 [8] True])) = [7]"
proof -
  have "ring_ok small_ring" by (simp add: ring_ok_def small_ring_def)
  from stopped_for_good[OF this, of "[Write 1 [7] True]" "[Start, Write 1 [8] True]"] show ?thesis
    by (simp add: new_audio_def small_ring_def writer_round_def push_round_def)
qed

theorem setup_ring_witness:
  "\<exists>s. AT_nSetup \<lparr> al_loaded = True, al_create = 0, al_generate = 0 \<rparr> (Some 48000) 0xC 3840 = Some (0, Some s) \<and> ring_ok s \<and> at_cap s \<ge> 16384"
proof -
  have "channel_count 0xC = 2" by code_simp
  then obtain s where s: "AT_nSetup \<lparr> al_loaded = True, al_create = 0, al_generate = 0 \<rparr> (Some 48000) 0xC 3840 = Some (0, Some s)"
    by (simp add: AT_nSetup_def ring_capacity_def mul32_def int32_def setup_rate_def)
  then show ?thesis using setup_ring[OF s] by simp
qed

text \<open>A short write that finds an odd number of free bytes leaves half a sample in the ring.\<close>

lemma short_write_splits_sample:
  "map_option (\<lambda>(r, s). (r, queued s)) (AT_nWriteShort False [1, 2, 3, 4] 0 2 small_ring) = Some (Inl 1, [1, 2, 3])"
  by code_simp

end
