(* ===== verification/MediaCodec.thy ===== *)
theory MediaCodec
  imports Prelude
begin

text \<open>
  Audio decoding: \<open>core/jni/oh_mediacodec_shim.cpp\<close>. The codec of OpenHarmony calls back with free input buffers and
  filled output buffers, the shim queues them, and Java takes them from the queues (synchronous mode) or is called back
  (asynchronous mode). What the codec library answers is a parameter; a buffer is its address, 0 is null. \<open>None\<close> is a
  callback on a codec that was freed.
\<close>

section \<open>State\<close>

record codec_attr =
  ca_pts :: int
  ca_size :: int
  ca_offset :: int
  ca_flags :: u32

record Codec =
  mc_codec :: bool
  inIdx :: "u32 list"
  outQ :: "(u32 \<times> codec_attr) list"
  inBufs :: "u32 \<Rightarrow> nat option"
  outBufs :: "u32 \<Rightarrow> nat option"
  mc_sampleRate :: int
  mc_channels :: int
  formatSent :: bool
  mc_started :: bool
  mc_err :: bool
  javaCodec :: bool
  mc_cb :: bool
  asyncFmtSent :: bool

definition Codec0 :: Codec where
  "Codec0 = \<lparr> mc_codec = False, inIdx = [], outQ = [], inBufs = Map.empty, outBufs = Map.empty, mc_sampleRate = 44100,
     mc_channels = 2, formatSent = False, mc_started = False, mc_err = False, javaCodec = False, mc_cb = False, asyncFmtSent = False \<rparr>"

record codec_library =
  cl_ok :: bool
  cl_create :: "string \<Rightarrow> bool \<Rightarrow> bool"
  cl_start :: int
  cl_input :: "u32 \<Rightarrow> nat"
  cl_output :: "u32 \<Rightarrow> nat"
  cl_addr :: "nat \<Rightarrow> u64"
  cl_cap :: "nat \<Rightarrow> int"
  cl_desc :: "(int option \<times> int option) option"

record codec_info =
  bi_off :: int
  bi_size :: int
  bi_pts :: int
  bi_flags :: int

definition MC_FLAG_EOS :: int where "MC_FLAG_EOS = 4"
definition OH_FLAG_EOS :: u32 where "OH_FLAG_EOS = 1"
definition MC_TRY_AGAIN :: int where "MC_TRY_AGAIN = -1"
definition MC_OUTPUT_FORMAT_CHANGED :: int where "MC_OUTPUT_FORMAT_CHANGED = -2"

definition codec_info_of :: "codec_attr \<Rightarrow> codec_info" where
  "codec_info_of a = \<lparr> bi_off = ca_offset a, bi_size = ca_size a, bi_pts = ca_pts a,
     bi_flags = (if ca_flags a AND OH_FLAG_EOS \<noteq> 0 then MC_FLAG_EOS else 0) \<rparr>"

section \<open>Callbacks of the codec\<close>

datatype codec_event = OnInput int | OnFormat int int | OnOutput int codec_info

text \<open>The method ids the shim caches when a callback is set.\<close>

record codec_ids =
  id_onInput :: bool
  id_onOutput :: bool
  id_onFormat :: bool

definition fireAsyncInput :: "codec_ids \<Rightarrow> bool \<Rightarrow> u32 \<Rightarrow> Codec \<Rightarrow> codec_event list" where
  "fireAsyncInput ids env idx c = (if \<not> mc_cb c \<or> \<not> javaCodec c \<or> \<not> id_onInput ids then []
     else if \<not> env then [] else [OnInput (sint idx)])"

definition fireAsyncOutput :: "codec_ids \<Rightarrow> bool \<Rightarrow> u32 \<Rightarrow> codec_attr \<Rightarrow> Codec \<Rightarrow> codec_event list \<times> Codec" where
  "fireAsyncOutput ids env idx a c = (if \<not> mc_cb c \<or> \<not> javaCodec c then ([], c)
     else if \<not> env then ([], c)
     else let fmt = \<not> asyncFmtSent c \<and> id_onFormat ids in
       ((if fmt then [OnFormat (mc_sampleRate c) (mc_channels c)] else []) @
          (if id_onOutput ids then [OnOutput (sint idx) (codec_info_of a)] else []),
        if fmt then c\<lparr> asyncFmtSent := True \<rparr> else c))"

definition cbError :: "Codec \<Rightarrow> Codec" where
  "cbError c = c\<lparr> mc_err := True \<rparr>"

definition cbStream :: "int option \<Rightarrow> int option \<Rightarrow> Codec \<Rightarrow> Codec" where
  "cbStream rate ch c = c\<lparr> mc_sampleRate := (case rate of Some v \<Rightarrow> v | None \<Rightarrow> mc_sampleRate c),
     mc_channels := (case ch of Some v \<Rightarrow> v | None \<Rightarrow> mc_channels c) \<rparr>"

definition cbInput :: "codec_ids \<Rightarrow> bool \<Rightarrow> u32 \<Rightarrow> nat \<Rightarrow> Codec \<Rightarrow> codec_event list \<times> Codec" where
  "cbInput ids env idx b c = (let c = c\<lparr> inIdx := inIdx c @ [idx], inBufs := (inBufs c)(idx \<mapsto> b) \<rparr> in
     (if mc_cb c then fireAsyncInput ids env idx c else [], c))"

definition cbOutput :: "codec_ids \<Rightarrow> bool \<Rightarrow> u32 \<Rightarrow> nat \<Rightarrow> codec_attr \<Rightarrow> Codec \<Rightarrow> codec_event list \<times> Codec" where
  "cbOutput ids env idx b attr c = (let a = (if b \<noteq> 0 then attr else \<lparr> ca_pts = 0, ca_size = 0, ca_offset = 0, ca_flags = 0 \<rparr>);
       c = c\<lparr> outQ := outQ c @ [(idx, a)], outBufs := (outBufs c)(idx \<mapsto> b) \<rparr> in
     if mc_cb c then fireAsyncOutput ids env idx a c else ([], c))"

section \<open>The natives\<close>

fun has_mp :: "string \<Rightarrow> bool" where
  "has_mp (x # y # s) \<longleftrightarrow> (x = CHR ''m'' \<and> y = CHR ''p'') \<or> has_mp (y # s)"
| "has_mp s \<longleftrightarrow> False"

definition codec_mime :: "string \<Rightarrow> bool \<Rightarrow> string" where
  "codec_mime nm nameIsType = (if nameIsType then nm else if has_mp nm then ''audio/mpeg'' else nm)"

definition MC_nSetup :: "codec_library \<Rightarrow> string option \<Rightarrow> bool \<Rightarrow> bool \<Rightarrow> Codec" where
  "MC_nSetup lib jname nameIsType encoder = (let nm = (case jname of Some s \<Rightarrow> s | None \<Rightarrow> '''') in
     if cl_ok lib then Codec0\<lparr> mc_codec := cl_create lib (codec_mime nm nameIsType) encoder \<rparr> else Codec0)"

fun configure_keys :: "(string \<times> int option) list \<Rightarrow> Codec \<Rightarrow> Codec" where
  "configure_keys [] c = c"
| "configure_keys ((k, v) # kvs) c = configure_keys kvs (case v of None \<Rightarrow> c
     | Some iv \<Rightarrow> if k = ''sample-rate'' then c\<lparr> mc_sampleRate := iv \<rparr>
         else if k = ''channel-count'' then c\<lparr> mc_channels := iv \<rparr> else c)"

definition MC_nConfigure :: "(string \<times> int option) list \<Rightarrow> Codec \<Rightarrow> Codec" where
  "MC_nConfigure kvs c = (if \<not> mc_codec c then c else configure_keys kvs c)"

definition MC_nStart :: "codec_library \<Rightarrow> Codec \<Rightarrow> Codec" where
  "MC_nStart lib c = (if \<not> mc_codec c then c
     else c\<lparr> mc_started := (if cl_ok lib then cl_start lib else -1) = 0 \<rparr>)"

text \<open>A wait ends when its predicate holds or, with a timeout, when the time is over; \<open>None\<close>: it goes on.\<close>

definition still_waits :: "int \<Rightarrow> bool \<Rightarrow> Codec \<Rightarrow> bool" where
  "still_waits timeoutUs expired c \<longleftrightarrow> timeoutUs \<noteq> 0 \<and> \<not> mc_err c \<and> (timeoutUs < 0 \<or> \<not> expired)"

definition nDequeueInput :: "int \<Rightarrow> bool \<Rightarrow> Codec \<Rightarrow> (u32 option \<times> Codec) option" where
  "nDequeueInput timeoutUs expired c = (case inIdx c of
       [] \<Rightarrow> if still_waits timeoutUs expired c then None else Some (None, c)
     | idx # r \<Rightarrow> Some (Some idx, c\<lparr> inIdx := r \<rparr>))"

definition nGetBuffer :: "codec_library \<Rightarrow> bool \<Rightarrow> int \<Rightarrow> Codec \<Rightarrow> (u64 \<times> int) option" where
  "nGetBuffer lib input index c = (if \<not> mc_codec c then None
     else let i = word_of_int index;
              b = (case (if input then inBufs c else outBufs c) i of Some b \<Rightarrow> b | None \<Rightarrow> 0);
              b = (if b = 0 then if input then cl_input lib i else cl_output lib i else b);
              addr = (if b = 0 then 0 else cl_addr lib b); cap = (if b = 0 then 0 else cl_cap lib b) in
       if b = 0 \<or> addr = 0 \<or> cap \<le> 0 then None else Some (addr, cap))"

text \<open>\<open>nQueueInput\<close> returns what it pushes to the codec: the index and the buffer whose attributes it set.\<close>

definition nQueueInput :: "codec_library \<Rightarrow> int \<Rightarrow> int \<Rightarrow> int \<Rightarrow> int \<Rightarrow> u32 \<Rightarrow> Codec \<Rightarrow> (u32 \<times> (nat \<times> codec_attr) option) list \<times> Codec" where
  "nQueueInput lib index offset sz pts flags c = (if \<not> mc_codec c then ([], c)
     else let i = word_of_int index;
              b = (case inBufs c i of Some b \<Rightarrow> b | None \<Rightarrow> 0);
              c = c\<lparr> inBufs := (inBufs c)(i := None) \<rparr>;
              b = (if b = 0 then cl_input lib i else b) in
       ([(i, if b = 0 then None else Some (b, \<lparr> ca_pts = pts, ca_size = sz, ca_offset = offset,
          ca_flags = (if flags AND word_of_int MC_FLAG_EOS \<noteq> 0 then OH_FLAG_EOS else 0) \<rparr>))], c))"

datatype codec_out = FormatChanged | TryAgain | Filled u32 codec_info

definition nDequeueOutput :: "int \<Rightarrow> bool \<Rightarrow> Codec \<Rightarrow> (codec_out \<times> Codec) option" where
  "nDequeueOutput timeoutUs expired c = (if \<not> formatSent c then Some (FormatChanged, c\<lparr> formatSent := True \<rparr>)
     else case outQ c of
       [] \<Rightarrow> if still_waits timeoutUs expired c then None else Some (TryAgain, c)
     | (idx, a) # r \<Rightarrow> Some (Filled idx (codec_info_of a), c\<lparr> outQ := r \<rparr>))"

definition codec_out_code :: "codec_out \<Rightarrow> int" where
  "codec_out_code r = (case r of FormatChanged \<Rightarrow> MC_OUTPUT_FORMAT_CHANGED | TryAgain \<Rightarrow> MC_TRY_AGAIN | Filled idx i \<Rightarrow> sint idx)"

definition nReleaseOutput :: "int \<Rightarrow> Codec \<Rightarrow> u32 list \<times> Codec" where
  "nReleaseOutput index c = (if \<not> mc_codec c then ([], c)
     else ([word_of_int index], c\<lparr> outBufs := (outBufs c)(word_of_int index := None) \<rparr>))"

definition buildFormatMap :: "codec_library \<Rightarrow> Codec option \<Rightarrow> int \<times> int" where
  "buildFormatMap lib c = (let sr = (case c of Some c \<Rightarrow> mc_sampleRate c | None \<Rightarrow> 44100);
       ch = (case c of Some c \<Rightarrow> mc_channels c | None \<Rightarrow> 2) in
     case c of Some c \<Rightarrow> (if \<not> mc_codec c then (sr, ch) else case cl_desc lib of None \<Rightarrow> (sr, ch)
       | Some (r, h) \<Rightarrow> (case r of Some v \<Rightarrow> v | None \<Rightarrow> sr, case h of Some v \<Rightarrow> v | None \<Rightarrow> ch)) | None \<Rightarrow> (sr, ch))"

definition MC_nFlush :: "Codec \<Rightarrow> Codec" where
  "MC_nFlush c = c\<lparr> inIdx := [], outQ := [] \<rparr>"

definition nSetCallback :: "bool \<Rightarrow> Codec \<Rightarrow> Codec" where
  "nSetCallback callback c = c\<lparr> javaCodec := True, mc_cb := callback \<rparr>"

section \<open>Histories\<close>

datatype codec_op =
    CError | CStream "int option" "int option" | CInput bool u32 nat | COutput bool u32 nat codec_attr
  | Configure "(string \<times> int option) list" | StartCodec | DequeueInput int bool | DequeueOutput int bool
  | QueueInput int int int int u32 | ReleaseOutput int | FlushCodec | ReleaseCodec | SetCallback bool

text \<open>
  The codec of a Java object, which is gone after its release; what was pushed to and freed at the library, the callbacks of
  the app and the results of the dequeue functions. \<open>held_in\<close> and \<open>held_out\<close> are the indices Java has taken from the
  queues and not given back.
\<close>

record codec_world =
  mNativeContext :: "Codec option"
  pushed :: "(u32 \<times> (nat \<times> codec_attr) option) list"
  freed :: "u32 list"
  app_events :: "codec_event list"
  in_results :: "u32 option list"
  out_results :: "codec_out list"
  held_in :: "u32 set"
  held_out :: "u32 set"

definition set_codec :: "Codec \<Rightarrow> codec_world \<Rightarrow> codec_world" where
  "set_codec c w = w\<lparr> mNativeContext := Some c \<rparr>"

primrec codec_call :: "codec_library \<Rightarrow> codec_ids \<Rightarrow> Codec \<Rightarrow> codec_world \<Rightarrow> codec_op \<Rightarrow> codec_world" where
  "codec_call lib ids c w CError = set_codec (cbError c) w"
| "codec_call lib ids c w (CStream r ch) = set_codec (cbStream r ch c) w"
| "codec_call lib ids c w (CInput env i b) = (case cbInput ids env i b c of (ev, c) \<Rightarrow>
     set_codec c (w\<lparr> app_events := app_events w @ ev \<rparr>))"
| "codec_call lib ids c w (COutput env i b a) = (case cbOutput ids env i b a c of (ev, c) \<Rightarrow>
     set_codec c (w\<lparr> app_events := app_events w @ ev \<rparr>))"
| "codec_call lib ids c w (Configure kvs) = set_codec (MC_nConfigure kvs c) w"
| "codec_call lib ids c w StartCodec = set_codec (MC_nStart lib c) w"
| "codec_call lib ids c w (DequeueInput t e) = (case nDequeueInput t e c of None \<Rightarrow> w
     | Some (r, c) \<Rightarrow> set_codec c (w\<lparr> in_results := in_results w @ [r], held_in := held_in w \<union> set_option r \<rparr>))"
| "codec_call lib ids c w (DequeueOutput t e) = (case nDequeueOutput t e c of None \<Rightarrow> w
     | Some (r, c) \<Rightarrow> set_codec c (w\<lparr> out_results := out_results w @ [r],
         held_out := held_out w \<union> (case r of Filled i _ \<Rightarrow> {i} | _ \<Rightarrow> {}) \<rparr>))"
| "codec_call lib ids c w (QueueInput i off sz pts fl) = (case nQueueInput lib i off sz pts fl c of (p, c) \<Rightarrow>
     set_codec c (w\<lparr> pushed := pushed w @ p, held_in := held_in w - {word_of_int i} \<rparr>))"
| "codec_call lib ids c w (ReleaseOutput i) = (case nReleaseOutput i c of (f, c) \<Rightarrow>
     set_codec c (w\<lparr> freed := freed w @ f, held_out := held_out w - {word_of_int i} \<rparr>))"
| "codec_call lib ids c w FlushCodec = set_codec (MC_nFlush c) (w\<lparr> held_in := {}, held_out := {} \<rparr>)"
| "codec_call lib ids c w ReleaseCodec = w\<lparr> mNativeContext := None \<rparr>"
| "codec_call lib ids c w (SetCallback b) = set_codec (nSetCallback b c) w"

text \<open>Without a codec the dequeue functions return at once and the other natives do nothing; a callback is undefined.\<close>

primrec codec_gone :: "codec_world \<Rightarrow> codec_op \<Rightarrow> codec_world option" where
  "codec_gone w CError = None"
| "codec_gone w (CStream r ch) = None"
| "codec_gone w (CInput env i b) = None"
| "codec_gone w (COutput env i b a) = None"
| "codec_gone w (Configure kvs) = Some w"
| "codec_gone w StartCodec = Some w"
| "codec_gone w (DequeueInput t e) = Some (w\<lparr> in_results := in_results w @ [None] \<rparr>)"
| "codec_gone w (DequeueOutput t e) = Some (w\<lparr> out_results := out_results w @ [TryAgain] \<rparr>)"
| "codec_gone w (QueueInput i off sz pts fl) = Some w"
| "codec_gone w (ReleaseOutput i) = Some w"
| "codec_gone w FlushCodec = Some w"
| "codec_gone w ReleaseCodec = Some w"
| "codec_gone w (SetCallback b) = Some w"

definition codec_step :: "codec_library \<Rightarrow> codec_ids \<Rightarrow> codec_world \<Rightarrow> codec_op \<Rightarrow> codec_world option" where
  "codec_step lib ids w x = (case mNativeContext w of None \<Rightarrow> codec_gone w x | Some c \<Rightarrow> Some (codec_call lib ids c w x))"

definition new_codec_world :: "Codec \<Rightarrow> codec_world" where
  "new_codec_world c = \<lparr> mNativeContext = Some c, pushed = [], freed = [], app_events = [], in_results = [], out_results = [],
     held_in = {}, held_out = {} \<rparr>"

section \<open>Synchronous mode: buffers travel with their index\<close>

text \<open>
  The specification: queues of indices with their buffers, what Java holds, and the calls on the library. A buffer that Java
  queues goes to the library under the index it came with.
\<close>

record codec_spec =
  sp_live :: bool
  sp_in :: "(u32 \<times> nat) list"
  sp_in_java :: "u32 \<Rightarrow> nat option"
  sp_out :: "(u32 \<times> nat \<times> codec_attr) list"
  sp_out_java :: "u32 \<Rightarrow> nat option"
  sp_fmt :: bool
  sp_err :: bool
  sp_pushed :: "(u32 \<times> (nat \<times> codec_attr) option) list"
  sp_freed :: "u32 list"
  sp_in_results :: "u32 option list"
  sp_out_results :: "codec_out list"

definition sp_waits :: "int \<Rightarrow> bool \<Rightarrow> codec_spec \<Rightarrow> bool" where
  "sp_waits t e s \<longleftrightarrow> t \<noteq> 0 \<and> \<not> sp_err s \<and> (t < 0 \<or> \<not> e)"

primrec spec_call :: "codec_spec \<Rightarrow> codec_op \<Rightarrow> codec_spec" where
  "spec_call s CError = s\<lparr> sp_err := True \<rparr>"
| "spec_call s (CStream r ch) = s"
| "spec_call s (CInput env i b) = s\<lparr> sp_in := sp_in s @ [(i, b)] \<rparr>"
| "spec_call s (COutput env i b a) = s\<lparr> sp_out := sp_out s @ [(i, b, a)] \<rparr>"
| "spec_call s (Configure kvs) = s"
| "spec_call s StartCodec = s"
| "spec_call s (DequeueInput t e) = (case sp_in s of
       [] \<Rightarrow> if sp_waits t e s then s else s\<lparr> sp_in_results := sp_in_results s @ [None] \<rparr>
     | (i, b) # r \<Rightarrow> s\<lparr> sp_in := r, sp_in_java := (sp_in_java s)(i \<mapsto> b), sp_in_results := sp_in_results s @ [Some i] \<rparr>)"
| "spec_call s (DequeueOutput t e) = (if \<not> sp_fmt s then s\<lparr> sp_fmt := True, sp_out_results := sp_out_results s @ [FormatChanged] \<rparr>
     else case sp_out s of
       [] \<Rightarrow> if sp_waits t e s then s else s\<lparr> sp_out_results := sp_out_results s @ [TryAgain] \<rparr>
     | (i, b, a) # r \<Rightarrow> s\<lparr> sp_out := r, sp_out_java := (sp_out_java s)(i \<mapsto> b),
         sp_out_results := sp_out_results s @ [Filled i (codec_info_of a)] \<rparr>)"
| "spec_call s (QueueInput i off sz pts fl) = s\<lparr> sp_in_java := (sp_in_java s)(word_of_int i := None),
     sp_pushed := sp_pushed s @ [(word_of_int i, Some (the (sp_in_java s (word_of_int i)),
       \<lparr> ca_pts = pts, ca_size = sz, ca_offset = off, ca_flags = (if bit fl 2 then 1 else 0) \<rparr>))] \<rparr>"
| "spec_call s (ReleaseOutput i) = s\<lparr> sp_out_java := (sp_out_java s)(word_of_int i := None), sp_freed := sp_freed s @ [word_of_int i] \<rparr>"
| "spec_call s FlushCodec = s\<lparr> sp_in := [], sp_out := [], sp_in_java := Map.empty, sp_out_java := Map.empty \<rparr>"
| "spec_call s ReleaseCodec = s\<lparr> sp_live := False, sp_in := [], sp_out := [], sp_in_java := Map.empty, sp_out_java := Map.empty,
     sp_fmt := False, sp_err := False \<rparr>"
| "spec_call s (SetCallback b) = s"

definition spec_step :: "codec_spec \<Rightarrow> codec_op \<Rightarrow> codec_spec" where
  "spec_step s x = (if sp_live s then spec_call s x else case x of
       DequeueInput t e \<Rightarrow> s\<lparr> sp_in_results := sp_in_results s @ [None] \<rparr>
     | DequeueOutput t e \<Rightarrow> s\<lparr> sp_out_results := sp_out_results s @ [TryAgain] \<rparr> | _ \<Rightarrow> s)"

text \<open>
  The sides of the library and of Java: the library offers buffers that it has, Java gives back what it holds, no callback is
  set, and the library does not call back after the codec was destroyed.
\<close>

primrec codec_ok :: "codec_world \<Rightarrow> codec_op \<Rightarrow> bool" where
  "codec_ok w CError \<longleftrightarrow> mNativeContext w \<noteq> None"
| "codec_ok w (CStream r ch) \<longleftrightarrow> mNativeContext w \<noteq> None"
| "codec_ok w (CInput env i b) \<longleftrightarrow> b \<noteq> 0 \<and> (case mNativeContext w of None \<Rightarrow> False | Some c \<Rightarrow> i \<notin> set (inIdx c) \<union> held_in w)"
| "codec_ok w (COutput env i b a) \<longleftrightarrow> b \<noteq> 0 \<and> (case mNativeContext w of None \<Rightarrow> False | Some c \<Rightarrow> i \<notin> fst ` set (outQ c) \<union> held_out w)"
| "codec_ok w (Configure kvs) \<longleftrightarrow> True"
| "codec_ok w StartCodec \<longleftrightarrow> True"
| "codec_ok w (DequeueInput t e) \<longleftrightarrow> True"
| "codec_ok w (DequeueOutput t e) \<longleftrightarrow> True"
| "codec_ok w (QueueInput i off sz pts fl) \<longleftrightarrow> word_of_int i \<in> held_in w"
| "codec_ok w (ReleaseOutput i) \<longleftrightarrow> word_of_int i \<in> held_out w"
| "codec_ok w FlushCodec \<longleftrightarrow> True"
| "codec_ok w ReleaseCodec \<longleftrightarrow> True"
| "codec_ok w (SetCallback b) \<longleftrightarrow> \<not> b"

text \<open>A queue of indices and the indices Java holds, with a table of their buffers.\<close>

definition indices_ok :: "u32 list \<Rightarrow> u32 set \<Rightarrow> (u32 \<Rightarrow> nat option) \<Rightarrow> bool" where
  "indices_ok q h m \<longleftrightarrow> distinct q \<and> set q \<inter> h = {} \<and> (\<forall>i\<in>set q \<union> h. \<exists>b. m i = Some b \<and> b \<noteq> 0)"

definition codec_inv :: "codec_world \<Rightarrow> bool" where
  "codec_inv w \<longleftrightarrow> (\<forall>c. mNativeContext w = Some c \<longrightarrow> mc_codec c \<and> \<not> mc_cb c \<and>
     indices_ok (inIdx c) (held_in w) (inBufs c) \<and> indices_ok (map fst (outQ c)) (held_out w) (outBufs c))"

definition codec_abs :: "codec_world \<Rightarrow> codec_spec" where
  "codec_abs w = (case mNativeContext w of
      None \<Rightarrow> \<lparr> sp_live = False, sp_in = [], sp_in_java = Map.empty, sp_out = [], sp_out_java = Map.empty, sp_fmt = False,
        sp_err = False, sp_pushed = pushed w, sp_freed = freed w, sp_in_results = in_results w, sp_out_results = out_results w \<rparr>
    | Some c \<Rightarrow> \<lparr> sp_live = True, sp_in = map (\<lambda>i. (i, the (inBufs c i))) (inIdx c), sp_in_java = inBufs c |` held_in w,
        sp_out = map (\<lambda>(i, a). (i, the (outBufs c i), a)) (outQ c), sp_out_java = outBufs c |` held_out w,
        sp_fmt = formatSent c, sp_err = mc_err c, sp_pushed = pushed w, sp_freed = freed w,
        sp_in_results = in_results w, sp_out_results = out_results w \<rparr>)"

lemma tokens_offer: "indices_ok q h m \<Longrightarrow> i \<notin> set q \<union> h \<Longrightarrow> b \<noteq> 0 \<Longrightarrow> indices_ok (q @ [i]) h (m(i \<mapsto> b))"
  by (auto simp: indices_ok_def)

lemma tokens_take: "indices_ok (i # q) h m \<Longrightarrow> indices_ok q (insert i h) m"
  by (auto simp: indices_ok_def)

lemma tokens_give: "indices_ok q h m \<Longrightarrow> i \<in> h \<Longrightarrow> indices_ok q (h - {i}) (m(i := None))"
  by (auto simp: indices_ok_def)

lemma tokens_flush: "indices_ok [] {} m"
  by (simp add: indices_ok_def)

lemma configure_keeps:
  "mc_codec (configure_keys kvs c) = mc_codec c" "mc_cb (configure_keys kvs c) = mc_cb c" "inIdx (configure_keys kvs c) = inIdx c"
  "outQ (configure_keys kvs c) = outQ c" "inBufs (configure_keys kvs c) = inBufs c" "outBufs (configure_keys kvs c) = outBufs c"
  "formatSent (configure_keys kvs c) = formatSent c" "mc_err (configure_keys kvs c) = mc_err c"
  by (induction kvs c rule: configure_keys.induct) (auto split: option.splits)

lemma codec_step_inv:
  assumes "codec_inv w" "codec_ok w x"
  shows "\<exists>w'. codec_step lib ids w x = Some w' \<and> codec_inv w'"
proof (cases "mNativeContext w")
  case None
  then show ?thesis using assms by (cases x) (auto simp: codec_step_def codec_inv_def)
next
  case (Some c)
  have i: "mc_codec c" "\<not> mc_cb c" "indices_ok (inIdx c) (held_in w) (inBufs c)" "indices_ok (map fst (outQ c)) (held_out w) (outBufs c)"
    using assms(1) Some by (auto simp: codec_inv_def)
  have "codec_inv (codec_call lib ids c w x)"
    using i assms(2) Some
    by (cases x) (auto simp: codec_inv_def set_codec_def cbError_def cbStream_def cbInput_def cbOutput_def Let_def MC_nConfigure_def
      configure_keeps MC_nStart_def nDequeueInput_def nDequeueOutput_def nQueueInput_def nReleaseOutput_def MC_nFlush_def nSetCallback_def
      tokens_offer tokens_give tokens_flush image_iff split: list.splits option.splits intro: tokens_take)
  then show ?thesis using Some by (simp add: codec_step_def)
qed

lemma eos_bit: "(fl AND word_of_int MC_FLAG_EOS = 0) \<longleftrightarrow> \<not> bit fl 2" for fl :: u32
proof -
  have "(word_of_int MC_FLAG_EOS :: u32) = push_bit 2 1" by (simp add: MC_FLAG_EOS_def)
  then show ?thesis by (simp only: bit_iff_and_push_bit_not_eq_0) simp
qed

lemma waits_abs: "mNativeContext w = Some c \<Longrightarrow> sp_waits t e (codec_abs w) = still_waits t e c"
  by (simp add: sp_waits_def still_waits_def codec_abs_def)

text \<open>The queue after an offer, and the buffers Java holds after a take and a give.\<close>

lemma offer_abs:
  assumes "i \<notin> set q \<union> h"
  shows "map (\<lambda>j. (j, the ((m(i \<mapsto> b)) j))) (q @ [i]) = map (\<lambda>j. (j, the (m j))) q @ [(i, b)]" "m(i \<mapsto> b) |` h = m |` h"
  using assms by (auto simp: restrict_map_def fun_eq_iff)

lemma offer_out_abs:
  assumes "i \<notin> fst ` set q"
  shows "map (\<lambda>(j, a). (j, the ((m(i \<mapsto> b)) j), a)) (q @ [(i, x)]) = map (\<lambda>(j, a). (j, the (m j), a)) q @ [(i, b, x)]"
  using assms by (auto simp: image_iff)

lemma take_abs: "m i = Some b \<Longrightarrow> m |` (insert i h) = (m |` h)(i \<mapsto> b)"
  by (auto simp: restrict_map_def fun_eq_iff)

lemma give_abs: "m(i := None) |` (h - {i}) = (m |` h)(i := None)"
  by (auto simp: restrict_map_def fun_eq_iff)

lemma give_queue_abs: "i \<notin> set q \<Longrightarrow> map (\<lambda>j. (j, the ((m(i := None)) j))) q = map (\<lambda>j. (j, the (m j))) q"
  by auto

lemma give_out_abs: "i \<notin> fst ` set q \<Longrightarrow> map (\<lambda>(j, a). (j, the ((m(i := None)) j), a)) q = map (\<lambda>(j, a). (j, the (m j), a)) q"
  by (auto simp: image_iff)

lemma codec_call_abs:
  assumes "codec_inv w" "codec_ok w x" "mNativeContext w = Some c"
  shows "codec_abs (codec_call lib ids c w x) = spec_call (codec_abs w) x"
proof -
  have i: "mc_codec c" "\<not> mc_cb c" "indices_ok (inIdx c) (held_in w) (inBufs c)" "indices_ok (map fst (outQ c)) (held_out w) (outBufs c)"
    using assms(1,3) by (auto simp: codec_inv_def)
  show ?thesis
  proof (cases x)
    case (CInput env k b)
    then have "k \<notin> set (inIdx c) \<union> held_in w" using assms(2,3) by simp
    moreover from this have "k \<notin> held_in w" by simp
    ultimately show ?thesis using i(2) assms(3) CInput offer_abs(1)[of k "inIdx c" "held_in w" "inBufs c" b]
      by (simp add: codec_abs_def set_codec_def cbInput_def Let_def del: map_append fun_upd_apply)
  next
    case (COutput env k b a)
    then have k: "k \<notin> fst ` set (outQ c)" "k \<notin> held_out w" "b \<noteq> 0" using assms(2,3) by simp_all
    show ?thesis using offer_out_abs[OF k(1), of "outBufs c" b a] k(2) i(2) assms(3) COutput k(3)
      by (simp add: codec_abs_def set_codec_def cbOutput_def Let_def del: map_append fun_upd_apply)
  next
    case (DequeueInput t e)
    show ?thesis
    proof (cases "inIdx c")
      case Nil
      then show ?thesis using DequeueInput assms(3) waits_abs[OF assms(3)] by (auto simp: nDequeueInput_def codec_abs_def set_codec_def)
    next
      case (Cons k q)
      then obtain b where "inBufs c k = Some b" using i(3) by (auto simp: indices_ok_def)
      then show ?thesis using Cons DequeueInput assms(3) by (simp add: nDequeueInput_def codec_abs_def set_codec_def take_abs)
    qed
  next
    case (DequeueOutput t e)
    show ?thesis
    proof (cases "outQ c")
      case Nil
      then show ?thesis using DequeueOutput assms(3) waits_abs[OF assms(3)] by (auto simp: nDequeueOutput_def codec_abs_def set_codec_def)
    next
      case (Cons ka q)
      obtain k a where ka: "ka = (k, a)" by (cases ka)
      then obtain b where "outBufs c k = Some b" using i(4) Cons by (auto simp: indices_ok_def)
      then show ?thesis using Cons ka DequeueOutput assms(3) by (simp add: nDequeueOutput_def codec_abs_def set_codec_def take_abs)
    qed
  next
    case (QueueInput k off sz pts fl)
    then have h: "word_of_int k \<in> held_in w" using assms(2) by simp
    then obtain b where b: "inBufs c (word_of_int k) = Some b" "b \<noteq> 0" using i(3) by (auto simp: indices_ok_def)
    have "word_of_int k \<notin> set (inIdx c)" using h i(3) by (auto simp: indices_ok_def)
    then show ?thesis using QueueInput b h i(1) assms(3) give_queue_abs[of "word_of_int k" "inIdx c" "inBufs c"]
      by (simp add: codec_abs_def set_codec_def nQueueInput_def Let_def give_abs eos_bit OH_FLAG_EOS_def del: fun_upd_apply)
  next
    case (ReleaseOutput k)
    then have "word_of_int k \<notin> fst ` set (outQ c)" using assms(2) i(4) by (auto simp: indices_ok_def)
    then show ?thesis using ReleaseOutput i(1) assms(3) give_out_abs[of "word_of_int k" "outQ c" "outBufs c"]
      by (simp add: codec_abs_def set_codec_def nReleaseOutput_def give_abs del: fun_upd_apply)
  qed (use i assms(3) in \<open>auto simp: codec_abs_def set_codec_def cbError_def cbStream_def MC_nConfigure_def configure_keeps MC_nStart_def
      MC_nFlush_def nSetCallback_def\<close>)
qed

lemma codec_step_abs:
  assumes "codec_inv w" "codec_ok w x" "codec_step lib ids w x = Some w'"
  shows "codec_abs w' = spec_step (codec_abs w) x"
proof (cases "mNativeContext w")
  case None
  then show ?thesis using assms by (cases x) (auto simp: codec_step_def codec_abs_def spec_step_def)
next
  case (Some c)
  then show ?thesis using codec_call_abs[OF assms(1,2) Some] assms(3) by (auto simp: codec_step_def spec_step_def codec_abs_def)
qed

interpretation codec: guarded_simulation "codec_step lib ids" codec_ok codec_inv codec_abs spec_step for lib ids
  by unfold_locales (use codec_step_inv codec_step_abs in blast)+

lemma new_codec_inv: "mc_codec c \<Longrightarrow> inIdx c = [] \<Longrightarrow> outQ c = [] \<Longrightarrow> \<not> mc_cb c \<Longrightarrow> codec_inv (new_codec_world c)"
  by (simp add: codec_inv_def new_codec_world_def tokens_flush)

text \<open>What \<open>getBuffer\<close> gives Java for a buffer.\<close>

definition byte_buffer :: "codec_library \<Rightarrow> nat \<Rightarrow> (u64 \<times> int) option" where
  "byte_buffer lib b = (if cl_addr lib b = 0 \<or> cl_cap lib b \<le> 0 then None else Some (cl_addr lib b, cl_cap lib b))"

lemma held_buffer:
  assumes "codec_inv w" "mNativeContext w = Some c" "i \<in> held_in w"
  shows "\<exists>b. sp_in_java (codec_abs w) i = Some b \<and> nGetBuffer lib True (sint i) c = byte_buffer lib b"
proof -
  have c: "mc_codec c" "indices_ok (inIdx c) (held_in w) (inBufs c)" using assms(1,2) by (auto simp: codec_inv_def)
  then obtain b where "inBufs c i = Some b" "b \<noteq> 0" using assms(3) unfolding indices_ok_def by blast
  with c(1) show ?thesis using assms(2,3) by (simp add: codec_abs_def nGetBuffer_def byte_buffer_def)
qed

text \<open>
  C27 (codec_refines): in synchronous mode, when the library offers only buffers it has and Java
  gives back only what it holds, every history of callbacks and native calls behaves like queues
  of indices that carry their buffers: what Java queues reaches the library as the buffer that
  came with the index, with the attributes given, and getBuffer shows Java that buffer.
\<close>

theorem codec_refines:
  assumes "mc_codec (MC_nSetup lib jname ty enc)" "w0 = new_codec_world (MC_nSetup lib jname ty enc)"
    "calls_ok (codec_step lib ids) codec_ok w0 ops"
  shows "\<exists>w. run_calls (codec_step lib ids) w0 ops = Some w \<and> codec_abs w = foldl spec_step (codec_abs w0) ops \<and>
    (\<forall>c i. mNativeContext w = Some c \<and> i \<in> held_in w \<longrightarrow>
       (\<exists>b. sp_in_java (codec_abs w) i = Some b \<and> nGetBuffer lib True (sint i) c = byte_buffer lib b))"
proof -
  have "codec_inv w0" using assms(1,2) by (auto intro!: new_codec_inv simp: MC_nSetup_def Codec0_def Let_def)
  from codec.run_abs[OF this assms(3)] obtain w where w: "run_calls (codec_step lib ids) w0 ops = Some w" "codec_inv w"
    "codec_abs w = foldl spec_step (codec_abs w0) ops" by blast
  then show ?thesis using held_buffer[OF w(2)] by blast
qed

section \<open>Output arrives in order\<close>

definition delivered :: "codec_op list \<Rightarrow> (u32 \<times> codec_info) list" where
  "delivered ops = concat (map (\<lambda>x. case x of COutput env i b a \<Rightarrow> [(i, codec_info_of a)] | _ \<Rightarrow> []) ops)"

definition mc_filled :: "codec_out list \<Rightarrow> (u32 \<times> codec_info) list" where
  "mc_filled rs = concat (map (\<lambda>r. case r of Filled i a \<Rightarrow> [(i, a)] | _ \<Rightarrow> []) rs)"

definition format_first :: "codec_out list \<Rightarrow> bool" where
  "format_first rs \<longleftrightarrow> rs = [] \<or> (hd rs = FormatChanged \<and> FormatChanged \<notin> set (tl rs))"

definition out_order :: "(u32 \<times> codec_info) list \<Rightarrow> codec_spec \<Rightarrow> bool" where
  "out_order d s \<longleftrightarrow> sp_live s \<and> mc_filled (sp_out_results s) @ map (\<lambda>(i, b, a). (i, codec_info_of a)) (sp_out s) = d \<and>
     format_first (sp_out_results s) \<and> (sp_fmt s \<longleftrightarrow> sp_out_results s \<noteq> [])"

lemma filled_append [simp]: "mc_filled (xs @ ys) = mc_filled xs @ mc_filled ys" "mc_filled [] = []" "mc_filled [FormatChanged] = []"
  "mc_filled [TryAgain] = []" "mc_filled [Filled i a] = [(i, a)]"
  by (simp_all add: mc_filled_def)

lemma format_first_snoc: "format_first rs \<Longrightarrow> rs \<noteq> [] \<Longrightarrow> r \<noteq> FormatChanged \<Longrightarrow> format_first (rs @ [r])"
  by (auto simp: format_first_def)

lemma out_order_step:
  assumes "out_order d s" "x \<noteq> FlushCodec" "x \<noteq> ReleaseCodec"
  shows "out_order (d @ delivered [x]) (spec_step s x)"
proof (cases x)
  case (DequeueOutput t e)
  show ?thesis
  proof (cases "sp_fmt s")
    case True
    then show ?thesis using assms DequeueOutput format_first_snoc[of "sp_out_results s"]
      by (cases "sp_out s") (auto simp: out_order_def spec_step_def delivered_def)
  qed (use assms DequeueOutput in \<open>auto simp: out_order_def spec_step_def delivered_def format_first_def\<close>)
qed (use assms in \<open>auto simp: out_order_def spec_step_def delivered_def split: list.splits\<close>)

lemma out_order_run:
  "out_order d s \<Longrightarrow> FlushCodec \<notin> set ops \<Longrightarrow> ReleaseCodec \<notin> set ops \<Longrightarrow> out_order (d @ delivered ops) (foldl spec_step s ops)"
proof (induction ops arbitrary: d s)
  case (Cons x ops)
  have "out_order (d @ delivered [x]) (spec_step s x)" using out_order_step Cons.prems by auto
  from Cons.IH[OF this] Cons.prems show ?case by (simp add: delivered_def)
qed (simp add: delivered_def)

text \<open>
  C0 (codec_output_order): in synchronous mode without flush and release, the format is reported
  first and once, and the outputs reported to Java followed by those still queued are the outputs
  of the library, in order, none lost.
\<close>

theorem codec_output_order:
  assumes "mc_codec (MC_nSetup lib jname ty enc)" "w0 = new_codec_world (MC_nSetup lib jname ty enc)"
    "calls_ok (codec_step lib ids) codec_ok w0 ops" "FlushCodec \<notin> set ops" "ReleaseCodec \<notin> set ops"
  shows "\<exists>w c. run_calls (codec_step lib ids) w0 ops = Some w \<and> mNativeContext w = Some c \<and> format_first (out_results w) \<and>
    delivered ops = mc_filled (out_results w) @ map (\<lambda>(i, a). (i, codec_info_of a)) (outQ c)"
proof -
  have inv: "codec_inv w0" using assms(1,2) by (auto intro!: new_codec_inv simp: MC_nSetup_def Codec0_def Let_def)
  have "out_order [] (codec_abs w0)"
    using assms(1,2) by (auto simp: out_order_def codec_abs_def new_codec_world_def format_first_def MC_nSetup_def Codec0_def Let_def)
  from out_order_run[OF this assms(4,5)] have o: "out_order (delivered ops) (foldl spec_step (codec_abs w0) ops)" by simp
  from codec.run_abs[OF inv assms(3)] obtain w where w: "run_calls (codec_step lib ids) w0 ops = Some w"
    "codec_abs w = foldl spec_step (codec_abs w0) ops" by blast
  with o have o: "out_order (delivered ops) (codec_abs w)" by simp
  then obtain c where c: "mNativeContext w = Some c" by (auto simp: out_order_def codec_abs_def split: option.splits)
  have f: "(\<lambda>(i, b, a). (i, codec_info_of a)) \<circ> (\<lambda>(i, a). (i, the (outBufs c i), a)) = (\<lambda>(i, a). (i, codec_info_of a))"
    by (auto simp: fun_eq_iff)
  show ?thesis using o c w(1) by (auto simp: out_order_def codec_abs_def f)
qed

section \<open>Asynchronous mode\<close>

fun is_input_event :: "codec_event \<Rightarrow> bool" where
  "is_input_event (OnInput i) = True"
| "is_input_event e = False"

fun is_output_event :: "codec_event \<Rightarrow> bool" where
  "is_output_event (OnOutput i a) = True"
| "is_output_event e = False"

definition announced :: "codec_event list \<Rightarrow> bool" where
  "announced evs \<longleftrightarrow> (\<exists>r ch outs. filter (Not \<circ> is_input_event) evs = OnFormat r ch # outs \<and> list_all is_output_event outs)"

definition format_inv :: "codec_world \<Rightarrow> bool" where
  "format_inv w \<longleftrightarrow> (case mNativeContext w of
      None \<Rightarrow> list_all is_input_event (app_events w) \<or> announced (app_events w)
    | Some c \<Rightarrow> if asyncFmtSent c then announced (app_events w) else list_all is_input_event (app_events w))"

lemma announced_input: "announced evs \<Longrightarrow> announced (evs @ [OnInput i])"
  by (simp add: announced_def)

lemma announced_output: "announced evs \<Longrightarrow> announced (evs @ [OnOutput i a])"
  by (auto simp: announced_def)

lemma announced_first: "list_all is_input_event evs \<Longrightarrow> announced (evs @ OnFormat r ch # [OnOutput i a])"
  "list_all is_input_event evs \<Longrightarrow> announced (evs @ [OnFormat r ch])"
  by (auto simp: announced_def list_all_iff filter_empty_conv[THEN iffD2])

lemma configure_async: "asyncFmtSent (configure_keys kvs c) = asyncFmtSent c"
  by (induction kvs c rule: configure_keys.induct) (auto split: option.splits)

lemma format_inv_step:
  assumes "format_inv w" "id_onFormat ids" "codec_step lib ids w x = Some w'"
  shows "format_inv w'"
proof (cases "mNativeContext w")
  case None
  then show ?thesis using assms by (cases x) (auto simp: codec_step_def format_inv_def)
next
  case (Some c)
  then have w': "w' = codec_call lib ids c w x" using assms(3) by (simp add: codec_step_def)
  show ?thesis
  proof (cases x)
    case (CInput env i b)
    then show ?thesis using assms(1) Some announced_input[of "app_events w"]
      by (auto simp: w' format_inv_def set_codec_def cbInput_def fireAsyncInput_def Let_def split: if_splits)
  next
    case (COutput env i b a)
    then show ?thesis using assms(1,2) Some announced_output[of "app_events w"] announced_first[of "app_events w"]
      by (auto simp: w' format_inv_def set_codec_def cbOutput_def fireAsyncOutput_def Let_def split: if_splits)
  qed (use assms(1) Some in \<open>auto simp: w' format_inv_def set_codec_def cbError_def cbStream_def MC_nConfigure_def configure_async
      MC_nStart_def nDequeueInput_def nDequeueOutput_def nQueueInput_def nReleaseOutput_def MC_nFlush_def nSetCallback_def Let_def
      split: list.splits if_splits\<close>)
qed

text \<open>
  C0 (async_format_first): in every history the app is told of the output format at most once, and
  before any output buffer.
\<close>

theorem async_format_first:
  assumes "id_onFormat ids" "run_calls (codec_step lib ids) (new_codec_world (MC_nSetup lib jname ty enc)) ops = Some w"
  shows "list_all is_input_event (app_events w) \<or> announced (app_events w)"
proof -
  have run: "format_inv w0 \<Longrightarrow> run_calls (codec_step lib ids) w0 ops = Some w \<Longrightarrow> format_inv w" for w0
  proof (induction ops arbitrary: w0)
    case (Cons x ops)
    obtain w1 where w1: "codec_step lib ids w0 x = Some w1" "run_calls (codec_step lib ids) w1 ops = Some w"
      using Cons.prems(2) by (auto split: option.splits)
    show ?case by (rule Cons.IH[OF format_inv_step[OF Cons.prems(1) assms(1) w1(1)] w1(2)])
  qed simp
  have "format_inv (new_codec_world (MC_nSetup lib jname ty enc))"
    by (simp add: format_inv_def new_codec_world_def MC_nSetup_def Codec0_def Let_def)
  from run[OF this assms(2)] show ?thesis by (auto simp: format_inv_def split: option.splits if_splits)
qed

text \<open>In this mode nobody takes the indices out of the queues: they grow with every buffer.\<close>

lemma async_queue_grows:
  assumes "mNativeContext w = Some c" "run_calls (codec_step lib ids) w ops = Some w'"
    "\<forall>x\<in>set ops. (\<exists>env i b. x = CInput env i b) \<or> (\<exists>i off sz pts fl. x = QueueInput i off sz pts fl)"
  shows "\<exists>c'. mNativeContext w' = Some c' \<and> length (inIdx c') = length (inIdx c) + length (filter (\<lambda>x. \<exists>env i b. x = CInput env i b) ops)"
  using assms
proof (induction ops arbitrary: w c)
  case (Cons x ops)
  from Cons.prems(3) consider env i b where "x = CInput env i b" | i' off sz pts fl where "x = QueueInput i' off sz pts fl" by auto
  moreover have "codec_step lib ids w x = Some (codec_call lib ids c w x)" using Cons.prems(1) by (simp add: codec_step_def)
  then have run: "run_calls (codec_step lib ids) (codec_call lib ids c w x) ops = Some w'" using Cons.prems(2) by simp
  ultimately show ?case
  proof cases
    case 1
    let ?c = "snd (cbInput ids env i b c)"
    have "mNativeContext (codec_call lib ids c w x) = Some ?c" using 1 by (simp add: set_codec_def split: prod.splits)
    from Cons.IH[OF this run] Cons.prems(3) show ?thesis using 1 by (auto simp: cbInput_def Let_def)
  next
    case 2
    let ?c = "snd (nQueueInput lib i' off sz pts fl c)"
    have "mNativeContext (codec_call lib ids c w x) = Some ?c" using 2 by (simp add: set_codec_def split: prod.splits)
    from Cons.IH[OF this run] Cons.prems(3) show ?thesis using 2 by (auto simp: nQueueInput_def Let_def)
  qed
qed simp

section \<open>Waiting\<close>

text \<open>A waiting call returns when a buffer arrives or the codec fails; the failure looks like an empty queue.\<close>

lemma waiter_wakes:
  assumes "nDequeueInput t e c = None"
  shows "nDequeueInput t e (snd (cbInput ids env i b c)) \<noteq> None" "nDequeueInput t e (cbError c) = Some (None, cbError c)"
  using assms by (auto simp: nDequeueInput_def cbInput_def cbError_def still_waits_def Let_def split: list.splits if_splits)

lemma output_waiter_wakes:
  assumes "nDequeueOutput t e c = None"
  shows "nDequeueOutput t e (snd (cbOutput ids env i b a c)) \<noteq> None" "nDequeueOutput t e (cbError c) = Some (TryAgain, cbError c)"
  using assms by (auto simp: nDequeueOutput_def cbOutput_def fireAsyncOutput_def cbError_def still_waits_def Let_def split: list.splits if_splits)

section \<open>Examples\<close>

definition a_library :: codec_library where
  "a_library = \<lparr> cl_ok = True, cl_create = (\<lambda>m e. m = ''audio/mpeg''), cl_start = 0, cl_input = (\<lambda>i. 0), cl_output = (\<lambda>i. 0),
     cl_addr = (\<lambda>b. of_nat b), cl_cap = (\<lambda>b. 4096), cl_desc = None \<rparr>"

definition all_ids :: codec_ids where
  "all_ids = \<lparr> id_onInput = True, id_onOutput = True, id_onFormat = True \<rparr>"

definition an_attr :: "int \<Rightarrow> codec_attr" where
  "an_attr t = \<lparr> ca_pts = t, ca_size = 4, ca_offset = 0, ca_flags = 1 \<rparr>"

definition a_world :: codec_world where
  "a_world = new_codec_world (MC_nSetup a_library (Some ''OH.audio.mp3.decoder'') False False)"

definition decode_ops :: "codec_op list" where
  "decode_ops = [StartCodec, CInput True 0 64, CInput True 1 128, DequeueInput 0 False, QueueInput 0 0 100 7 4, DequeueOutput 0 False,
     COutput True 0 192 (an_attr 7), DequeueOutput 0 False, ReleaseOutput 0, DequeueInput (-1) False, DequeueOutput 0 False]"

lemma decode_ok: "mc_codec (MC_nSetup a_library (Some ''OH.audio.mp3.decoder'') False False)"
  "calls_ok (codec_step a_library all_ids) codec_ok a_world decode_ops"
  by code_simp+

theorem codec_refines_witness:
  "\<exists>w. run_calls (codec_step a_library all_ids) a_world decode_ops = Some w \<and>
     sp_pushed (codec_abs w) = [(0, Some (64, \<lparr> ca_pts = 7, ca_size = 100, ca_offset = 0, ca_flags = 1 \<rparr>))]"
proof -
  obtain w where w: "run_calls (codec_step a_library all_ids) a_world decode_ops = Some w"
    "codec_abs w = foldl spec_step (codec_abs a_world) decode_ops"
    using codec_refines[OF decode_ok(1) a_world_def decode_ok(2)] by blast
  have "sp_pushed (foldl spec_step (codec_abs a_world) decode_ops) = [(0, Some (64, \<lparr> ca_pts = 7, ca_size = 100, ca_offset = 0, ca_flags = 1 \<rparr>))]"
    by code_simp
  then show ?thesis using w by simp
qed

theorem codec_output_order_witness:
  "\<exists>w c. run_calls (codec_step a_library all_ids) a_world decode_ops = Some w \<and> mNativeContext w = Some c \<and>
     mc_filled (out_results w) @ map (\<lambda>(i, a). (i, codec_info_of a)) (outQ c) =
       [(0, \<lparr> bi_off = 0, bi_size = 4, bi_pts = 7, bi_flags = 4 \<rparr>)]"
proof -
  have f: "FlushCodec \<notin> set decode_ops" "ReleaseCodec \<notin> set decode_ops" by (simp_all add: decode_ops_def)
  have "delivered decode_ops = [(0, \<lparr> bi_off = 0, bi_size = 4, bi_pts = 7, bi_flags = 4 \<rparr>)]" by code_simp
  then show ?thesis using codec_output_order[OF decode_ok(1) a_world_def decode_ok(2) f] by metis
qed

theorem async_format_first_witness:
  "\<exists>w. run_calls (codec_step a_library all_ids) a_world [SetCallback True, CInput True 0 64, COutput True 0 128 (an_attr 7),
      COutput True 1 192 (an_attr 8)] = Some w \<and> announced (app_events w)"
proof -
  have "case run_calls (codec_step a_library all_ids) a_world [SetCallback True, CInput True 0 64, COutput True 0 128 (an_attr 7),
      COutput True 1 192 (an_attr 8)] of None \<Rightarrow> False | Some w \<Rightarrow> \<not> list_all is_input_event (app_events w)" by code_simp
  then obtain w where w: "run_calls (codec_step a_library all_ids) a_world [SetCallback True, CInput True 0 64, COutput True 0 128 (an_attr 7),
      COutput True 1 192 (an_attr 8)] = Some w" "\<not> list_all is_input_event (app_events w)"
    by (auto simp del: run_calls.simps split: option.splits)
  have "id_onFormat all_ids" by (simp add: all_ids_def)
  then show ?thesis using async_format_first[OF _ w(1)[unfolded a_world_def]] w by blast
qed

text \<open>A flush keeps the buffers of the indices it invalidates; the flag for configuration data is lost on the way; an index
  of the library that is negative as an integer reads as a return code.\<close>

lemma flush_keeps_buffers:
  "(case run_calls (codec_step a_library all_ids) a_world [CInput True 0 64, FlushCodec] of None \<Rightarrow> None
    | Some w \<Rightarrow> (case mNativeContext w of None \<Rightarrow> None | Some c \<Rightarrow> nGetBuffer a_library True 0 c)) = Some (64, 4096)"
  by code_simp

lemma config_flag_lost:
  "map (map_option (ca_flags \<circ> snd) \<circ> snd) (fst (nQueueInput a_library 0 0 5 0 2 (snd (cbInput all_ids True 0 64 (MC_nSetup a_library (Some ''audio/mpeg'') True False)))))
     = [Some 0]"
  by code_simp

lemma index_reads_as_code: "codec_out_code (Filled 0xFFFFFFFF a) = codec_out_code TryAgain"
  by (simp add: codec_out_code_def MC_TRY_AGAIN_def)

end
