(* ===== verification/MotionEvents.thy ===== *)
theory MotionEvents
  imports Prelude
begin

text \<open>
  Motion events: the class of \<open>android-runtime/include/input/Input.h\<close> and \<open>android_input_Input_aosp.cpp\<close>, and its JNI
  functions in \<open>android_view_MotionEvent_aosp.cpp\<close>. Events live in a store from native pointers to objects; \<open>None\<close> is
  undefined behaviour: a call through a pointer to no live event, or an access outside a vector. Floats are any type
  with the operations the code uses, no law is assumed of them.
\<close>

section \<open>Pointer coordinates\<close>

record 'f PointerCoords =
  pc_bits :: u64
  pc_values :: "'f list"
  pc_isResampled :: bool

definition PointerCoords_clear :: "'f::zero PointerCoords" where
  "PointerCoords_clear = \<lparr> pc_bits = 0, pc_values = replicate 32 0, pc_isResampled = False \<rparr>"

definition pc_setAxisValue :: "int \<Rightarrow> 'f \<Rightarrow> 'f PointerCoords \<Rightarrow> 'f PointerCoords" where
  "pc_setAxisValue axis v pc = (if axis < 0 \<or> axis \<ge> 32 then pc
     else pc\<lparr> pc_values := (pc_values pc)[nat axis := v], pc_bits := pc_bits pc OR push_bit (nat axis) 1 \<rparr>)"

definition pc_getAxisValue :: "int \<Rightarrow> 'f::zero PointerCoords \<Rightarrow> 'f" where
  "pc_getAxisValue axis pc = (if axis < 0 \<or> axis \<ge> 32 then 0
     else if pc_bits pc AND push_bit (nat axis) 1 = 0 then 0 else pc_values pc ! nat axis)"

record PointerProperties =
  pp_id :: int
  pp_toolType :: int

section \<open>The event\<close>

record 'f MotionEvent =
  mId :: int
  mDeviceId :: int
  mSource :: u32
  mDisplayId :: int
  mAction :: int
  mActionButton :: int
  mFlags :: int
  mEdgeFlags :: int
  mMetaState :: u32
  mButtonState :: int
  mClassification :: int
  mXOffset :: 'f
  mYOffset :: 'f
  mXPrecision :: 'f
  mYPrecision :: 'f
  mXCursorPosition :: 'f
  mYCursorPosition :: 'f
  mDownTime :: int
  mPointerProperties :: "PointerProperties list"
  mSampleEventTimes :: "int list"
  mSamplePointerCoords :: "'f PointerCoords list"

definition addSample :: "int \<Rightarrow> 'f PointerCoords list \<Rightarrow> 'f MotionEvent \<Rightarrow> 'f MotionEvent option" where
  "addSample t cs e = (let n = length (mPointerProperties e) in if length cs < n then None
     else Some (e\<lparr> mSampleEventTimes := mSampleEventTimes e @ [t],
       mSamplePointerCoords := mSamplePointerCoords e @ take n cs \<rparr>))"

definition copyFrom :: "'f MotionEvent \<Rightarrow> bool \<Rightarrow> 'f MotionEvent option" where
  "copyFrom other keepHistory = (if keepHistory then Some other
     else if mSampleEventTimes other = [] then Some (other\<lparr> mSampleEventTimes := [], mSamplePointerCoords := [] \<rparr>)
     else let n = length (mPointerProperties other); base = length (mSamplePointerCoords other) - n in
       if length (mSamplePointerCoords other) < n then None
       else Some (other\<lparr> mSampleEventTimes := [last (mSampleEventTimes other)],
         mSamplePointerCoords := take n (drop base (mSamplePointerCoords other)) \<rparr>))"

text \<open>A copy of an event onto itself without its history clears the samples before it reads them.\<close>

definition copy_self :: "bool \<Rightarrow> 'f MotionEvent \<Rightarrow> 'f MotionEvent" where
  "copy_self keepHistory e = (if keepHistory then e else e\<lparr> mSampleEventTimes := [], mSamplePointerCoords := [] \<rparr>)"

definition getEventTime :: "'f MotionEvent \<Rightarrow> int" where
  "getEventTime e = (if mSampleEventTimes e = [] then 0 else last (mSampleEventTimes e))"

definition getHistoricalEventTime :: "nat \<Rightarrow> 'f MotionEvent \<Rightarrow> int" where
  "getHistoricalEventTime h e = (if h \<ge> length (mSampleEventTimes e) then 0 else mSampleEventTimes e ! h)"

definition getPointerId :: "nat \<Rightarrow> 'f MotionEvent \<Rightarrow> int" where
  "getPointerId i e = (if i \<ge> length (mPointerProperties e) then -1 else pp_id (mPointerProperties e ! i))"

definition getToolType :: "nat \<Rightarrow> 'f MotionEvent \<Rightarrow> int" where
  "getToolType i e = (if i \<ge> length (mPointerProperties e) then 0 else pp_toolType (mPointerProperties e ! i))"

fun find_id :: "int \<Rightarrow> nat \<Rightarrow> PointerProperties list \<Rightarrow> int" where
  "find_id pid i [] = -1"
| "find_id pid i (p # ps) = (if pp_id p = pid then int i else find_id pid (Suc i) ps)"

definition findPointerIndex :: "int \<Rightarrow> 'f MotionEvent \<Rightarrow> int" where
  "findPointerIndex pid e = find_id pid 0 (mPointerProperties e)"

definition getHistorySize :: "'f MotionEvent \<Rightarrow> nat" where
  "getHistorySize e = (if mSampleEventTimes e = [] then 0 else length (mSampleEventTimes e) - 1)"

definition AINPUT_SOURCE_CLASS_POINTER :: u32 where "AINPUT_SOURCE_CLASS_POINTER = 2"

definition isTouchEvent :: "'f MotionEvent \<Rightarrow> bool" where
  "isTouchEvent e \<longleftrightarrow> mSource e AND AINPUT_SOURCE_CLASS_POINTER \<noteq> 0"

definition getHistoricalRawPointerCoords :: "nat \<Rightarrow> nat \<Rightarrow> 'f MotionEvent \<Rightarrow> 'f PointerCoords option" where
  "getHistoricalRawPointerCoords i h e = (let n = length (mPointerProperties e) in if n = 0 then None
     else let base = h * n + i in
       if base \<ge> length (mSamplePointerCoords e) then None else Some (mSamplePointerCoords e ! base))"

definition isResampled :: "nat \<Rightarrow> nat \<Rightarrow> 'f MotionEvent \<Rightarrow> bool" where
  "isResampled i h e = (case getHistoricalRawPointerCoords i h e of None \<Rightarrow> False | Some pc \<Rightarrow> pc_isResampled pc)"

definition current_sample :: "'f MotionEvent \<Rightarrow> nat" where
  "current_sample e = (if mSampleEventTimes e = [] then 0 else length (mSampleEventTimes e) - 1)"

definition getRawPointerCoords :: "nat \<Rightarrow> 'f MotionEvent \<Rightarrow> 'f PointerCoords option" where
  "getRawPointerCoords i e = getHistoricalRawPointerCoords i (current_sample e) e"

definition getHistoricalRawAxisValue :: "int \<Rightarrow> nat \<Rightarrow> nat \<Rightarrow> 'f::zero MotionEvent \<Rightarrow> 'f" where
  "getHistoricalRawAxisValue axis i h e = (case getHistoricalRawPointerCoords i h e of
     None \<Rightarrow> 0 | Some pc \<Rightarrow> pc_getAxisValue axis pc)"

definition getRawAxisValue :: "int \<Rightarrow> nat \<Rightarrow> 'f::zero MotionEvent \<Rightarrow> 'f" where
  "getRawAxisValue axis i e = getHistoricalRawAxisValue axis i (current_sample e) e"

definition AXIS_X :: int where "AXIS_X = 0"
definition AXIS_Y :: int where "AXIS_Y = 1"

definition add_offset :: "int \<Rightarrow> 'f::plus MotionEvent \<Rightarrow> 'f \<Rightarrow> 'f" where
  "add_offset axis e v = (if axis = AXIS_X then v + mXOffset e else if axis = AXIS_Y then v + mYOffset e else v)"

definition getHistoricalAxisValue :: "int \<Rightarrow> nat \<Rightarrow> nat \<Rightarrow> 'f::{zero,plus} MotionEvent \<Rightarrow> 'f" where
  "getHistoricalAxisValue axis i h e = add_offset axis e (getHistoricalRawAxisValue axis i h e)"

definition getAxisValue :: "int \<Rightarrow> nat \<Rightarrow> 'f::{zero,plus} MotionEvent \<Rightarrow> 'f" where
  "getAxisValue axis i e = add_offset axis e (getRawAxisValue axis i e)"

definition offsetLocation :: "'f \<Rightarrow> 'f \<Rightarrow> 'f::plus MotionEvent \<Rightarrow> 'f MotionEvent" where
  "offsetLocation dx dy e = e\<lparr> mXOffset := mXOffset e + dx, mYOffset := mYOffset e + dy \<rparr>"

definition scale_coords :: "'f::times \<Rightarrow> 'f PointerCoords \<Rightarrow> 'f PointerCoords" where
  "scale_coords k pc = pc\<lparr> pc_values := map (\<lambda>axis. if pc_bits pc AND push_bit axis 1 \<noteq> 0 then pc_values pc ! axis * k
     else pc_values pc ! axis) [0..<32] \<rparr>"

definition scale_event :: "'f::times \<Rightarrow> 'f MotionEvent \<Rightarrow> 'f MotionEvent" where
  "scale_event k e = e\<lparr> mXOffset := mXOffset e * k, mYOffset := mYOffset e * k,
     mSamplePointerCoords := map (scale_coords k) (mSamplePointerCoords e) \<rparr>"

section \<open>Java objects\<close>

record 'f JPointerCoords =
  jc_x :: 'f
  jc_y :: 'f
  jc_pressure :: 'f
  jc_size :: 'f
  jc_touchMajor :: 'f
  jc_touchMinor :: 'f
  jc_toolMajor :: 'f
  jc_toolMinor :: 'f
  jc_orientation :: 'f
  jc_relativeX :: 'f
  jc_relativeY :: 'f
  jc_isResampled :: bool
  jc_packedBits :: u64

text \<open>The axes that have a field, with their numbers.\<close>

definition axis_fields :: "(int \<times> ('f JPointerCoords \<Rightarrow> 'f)) list" where
  "axis_fields = [(0, jc_x), (1, jc_y), (2, jc_pressure), (3, jc_size), (4, jc_touchMajor), (5, jc_touchMinor),
     (6, jc_toolMajor), (7, jc_toolMinor), (8, jc_orientation), (27, jc_relativeX), (28, jc_relativeY)]"

definition native_axis :: "'f::minus \<Rightarrow> 'f \<Rightarrow> 'f JPointerCoords \<Rightarrow> int \<Rightarrow> ('f JPointerCoords \<Rightarrow> 'f) \<Rightarrow> 'f" where
  "native_axis xo yo j axis fld = (if axis = 0 then fld j - xo else if axis = 1 then fld j - yo else fld j)"

definition pointerCoordsToNative :: "'f \<Rightarrow> 'f \<Rightarrow> 'f JPointerCoords \<Rightarrow> 'f::{zero,minus} PointerCoords" where
  "pointerCoordsToNative xo yo j = (foldl (\<lambda>pc (axis, fld). pc_setAxisValue axis (native_axis xo yo j axis fld) pc)
     PointerCoords_clear axis_fields)\<lparr> pc_isResampled := jc_isResampled j \<rparr>"

definition pointerCoordsFromNative :: "'f::zero PointerCoords \<Rightarrow> 'f JPointerCoords" where
  "pointerCoordsFromNative pc = \<lparr> jc_x = pc_getAxisValue 0 pc, jc_y = pc_getAxisValue 1 pc, jc_pressure = pc_getAxisValue 2 pc,
     jc_size = pc_getAxisValue 3 pc, jc_touchMajor = pc_getAxisValue 4 pc, jc_touchMinor = pc_getAxisValue 5 pc,
     jc_toolMajor = pc_getAxisValue 6 pc, jc_toolMinor = pc_getAxisValue 7 pc, jc_orientation = pc_getAxisValue 8 pc,
     jc_relativeX = pc_getAxisValue 27 pc, jc_relativeY = pc_getAxisValue 28 pc, jc_isResampled = pc_isResampled pc, jc_packedBits = 0 \<rparr>"


section \<open>The JNI functions\<close>

datatype jexception = IllegalArgument string | NullPointer string | UnsupportedOperation string

record 'f motion_world =
  objects :: "u64 \<Rightarrow> 'f MotionEvent option"
  id_counter :: u32

text \<open>\<open>new MotionEvent()\<close> clears the members that have no initialiser. The key of a verified event (\<open>mHmac\<close>) is always the
  invalid one and is left out.\<close>

definition blank_event :: "'f::{zero,one} MotionEvent" where
  "blank_event = \<lparr> mId = 0, mDeviceId = 0, mSource = 0, mDisplayId = 0, mAction = 0, mActionButton = 0, mFlags = 0, mEdgeFlags = 0,
     mMetaState = 0, mButtonState = 0, mClassification = 0, mXOffset = 0, mYOffset = 0, mXPrecision = 1, mYPrecision = 1,
     mXCursorPosition = 0, mYCursorPosition = 0, mDownTime = 0, mPointerProperties = [], mSampleEventTimes = [],
     mSamplePointerCoords = [] \<rparr>"

text \<open>The arguments of \<open>nativeInitialize\<close>; arrays and their elements may be null.\<close>

record 'f init_args =
  ia_deviceId :: int
  ia_source :: u32
  ia_displayId :: int
  ia_action :: int
  ia_flags :: int
  ia_edgeFlags :: int
  ia_metaState :: u32
  ia_buttonState :: int
  ia_classification :: int
  ia_xOffset :: 'f
  ia_yOffset :: 'f
  ia_xPrecision :: 'f
  ia_yPrecision :: 'f
  ia_nan :: 'f \<comment> \<open>the not-a-number of the cursor position\<close>
  ia_downTime :: int
  ia_eventTime :: int
  ia_pointerCount :: int
  ia_properties :: "PointerProperties option list option"
  ia_coords :: "'f JPointerCoords option list option"

definition validatePointerCount :: "int \<Rightarrow> jexception option" where
  "validatePointerCount n = (if n < 1 then Some (IllegalArgument ''pointerCount must be >= 1'') else None)"

definition validate_array :: "string \<Rightarrow> string \<Rightarrow> 'a list option \<Rightarrow> int \<Rightarrow> jexception option" where
  "validate_array nm small arr expected = (case arr of None \<Rightarrow> Some (NullPointer nm)
     | Some xs \<Rightarrow> if int (length xs) < expected then Some (IllegalArgument small) else None)"

definition validatePointerPropertiesArray :: "PointerProperties option list option \<Rightarrow> int \<Rightarrow> jexception option" where
  "validatePointerPropertiesArray = validate_array ''pointerProperties'' ''pointerProperties array too small''"

definition validatePointerCoordsObjArray :: "'f JPointerCoords option list option \<Rightarrow> int \<Rightarrow> jexception option" where
  "validatePointerCoordsObjArray = validate_array ''pointerCoords'' ''pointerCoords array too small''"

definition validatePointerIndex :: "int \<Rightarrow> 'f MotionEvent \<Rightarrow> jexception option" where
  "validatePointerIndex i e = (if i < 0 \<or> nat i \<ge> length (mPointerProperties e)
     then Some (IllegalArgument ''pointerIndex out of range'') else None)"

definition validateHistoryPos :: "int \<Rightarrow> 'f MotionEvent \<Rightarrow> jexception option" where
  "validateHistoryPos h e = (if h < 0 \<or> nat h \<ge> getHistorySize e
     then Some (IllegalArgument ''historyPos out of range'') else None)"

fun all_present :: "'a option list \<Rightarrow> 'a list option" where
  "all_present [] = Some []"
| "all_present (x # xs) = (case x of None \<Rightarrow> None | Some y \<Rightarrow> map_option ((#) y) (all_present xs))"

definition nextId :: "'f motion_world \<Rightarrow> int \<times> 'f motion_world" where
  "nextId w = (sint (id_counter w), w\<lparr> id_counter := id_counter w + 1 \<rparr>)"

definition initialize :: "int \<Rightarrow> 'f init_args \<Rightarrow> PointerProperties list \<Rightarrow> 'f PointerCoords list \<Rightarrow> 'f MotionEvent option" where
  "initialize i a pps pcs = addSample (ia_eventTime a) pcs
     \<lparr> mId = i, mDeviceId = ia_deviceId a, mSource = ia_source a, mDisplayId = ia_displayId a, mAction = ia_action a,
       mActionButton = 0, mFlags = ia_flags a, mEdgeFlags = ia_edgeFlags a, mMetaState = ia_metaState a,
       mButtonState = ia_buttonState a, mClassification = ia_classification a mod 256, mXOffset = ia_xOffset a,
       mYOffset = ia_yOffset a, mXPrecision = ia_xPrecision a, mYPrecision = ia_yPrecision a,
       mXCursorPosition = ia_nan a, mYCursorPosition = ia_nan a, mDownTime = ia_downTime a,
       mPointerProperties = pps, mSampleEventTimes = [], mSamplePointerCoords = [] \<rparr>"

text \<open>
  \<open>nativeInitialize\<close> owns the event while it reads the arrays: a null element deletes it. \<open>fresh\<close> is the address of a
  new event.
\<close>

definition nativeInitialize ::
  "u64 \<Rightarrow> u64 \<Rightarrow> 'f::{zero,minus} init_args \<Rightarrow> 'f motion_world \<Rightarrow> ((jexception + u64) \<times> 'f motion_world) option" where
  "nativeInitialize ptr fresh a w = (let n = ia_pointerCount a in
     case validatePointerCount n of Some ex \<Rightarrow> Some (Inl ex, w) | None \<Rightarrow>
     case validatePointerPropertiesArray (ia_properties a) n of Some ex \<Rightarrow> Some (Inl ex, w) | None \<Rightarrow>
     case validatePointerCoordsObjArray (ia_coords a) n of Some ex \<Rightarrow> Some (Inl ex, w) | None \<Rightarrow>
     if ptr \<noteq> 0 \<and> objects w ptr = None then None
     else let p = (if ptr = 0 then fresh else ptr) in
       case (all_present (take (nat n) (the (ia_properties a))), all_present (take (nat n) (the (ia_coords a)))) of
         (Some pps, Some jcs) \<Rightarrow> do {
           let (i, w) = nextId w;
           e \<leftarrow> initialize i a pps (map (pointerCoordsToNative (ia_xOffset a) (ia_yOffset a)) jcs);
           Some (Inr p, w\<lparr> objects := (objects w)(p \<mapsto> e) \<rparr>) }
       | _ \<Rightarrow> Some (Inr 0, w\<lparr> objects := (objects w)(p := None) \<rparr>))"

definition nativeDispose :: "u64 \<Rightarrow> 'f motion_world \<Rightarrow> 'f motion_world option" where
  "nativeDispose ptr w = (if ptr = 0 then Some w else if objects w ptr = None then None
     else Some (w\<lparr> objects := (objects w)(ptr := None) \<rparr>))"

definition nativeAddBatch ::
  "u64 \<Rightarrow> int \<Rightarrow> 'f JPointerCoords option list option \<Rightarrow> u32 \<Rightarrow> 'f::{zero,minus} motion_world \<Rightarrow> 'f motion_world option" where
  "nativeAddBatch ptr t coords meta w = do {
     e \<leftarrow> objects w ptr;
     let n = length (mPointerProperties e);
     case validatePointerCoordsObjArray coords (int n) of Some ex \<Rightarrow> Some w | None \<Rightarrow>
     (case all_present (take n (the coords)) of None \<Rightarrow> Some w
      | Some jcs \<Rightarrow> do {
          e \<leftarrow> addSample t (map (pointerCoordsToNative (mXOffset e) (mYOffset e)) jcs) e;
          Some (w\<lparr> objects := (objects w)(ptr \<mapsto> e\<lparr> mMetaState := mMetaState e OR meta \<rparr>) \<rparr>) }) }"

definition nativeCopy :: "u64 \<Rightarrow> u64 \<Rightarrow> u64 \<Rightarrow> bool \<Rightarrow> 'f::{zero,one} motion_world \<Rightarrow> (u64 \<times> 'f motion_world) option" where
  "nativeCopy destPtr fresh srcPtr keepHistory w = (if destPtr \<noteq> 0 \<and> objects w destPtr = None then None
     else let p = (if destPtr = 0 then fresh else destPtr);
              w = (if destPtr = 0 then w\<lparr> objects := (objects w)(p \<mapsto> blank_event) \<rparr> else w) in
       if srcPtr = 0 then Some (p, w)
       else do {
         src \<leftarrow> objects w srcPtr;
         e \<leftarrow> (if srcPtr = p then Some (copy_self keepHistory src) else copyFrom src keepHistory);
         Some (p, w\<lparr> objects := (objects w)(p \<mapsto> e) \<rparr>) })"

text \<open>The functions that change one event in place.\<close>

definition on_event :: "u64 \<Rightarrow> ('f MotionEvent \<Rightarrow> 'f MotionEvent) \<Rightarrow> 'f motion_world \<Rightarrow> 'f motion_world option" where
  "on_event ptr f w = map_option (\<lambda>e. w\<lparr> objects := (objects w)(ptr \<mapsto> f e) \<rparr>) (objects w ptr)"

definition HISTORY_CURRENT :: int where "HISTORY_CURRENT = - 0x80000000"

text \<open>Reading functions: an exception or a value.\<close>

definition nativeGetAxisValue :: "u64 \<Rightarrow> int \<Rightarrow> int \<Rightarrow> int \<Rightarrow> 'f::{zero,plus} motion_world \<Rightarrow> (jexception + 'f) option" where
  "nativeGetAxisValue ptr axis i h w = do {
     e \<leftarrow> objects w ptr;
     Some (case validatePointerIndex i e of Some ex \<Rightarrow> Inl ex
       | None \<Rightarrow> if h = HISTORY_CURRENT then Inr (getAxisValue axis (nat i) e)
           else case validateHistoryPos h e of Some ex \<Rightarrow> Inl ex
             | None \<Rightarrow> Inr (getHistoricalAxisValue axis (nat i) (nat h) e)) }"

definition nativeGetRawAxisValue :: "u64 \<Rightarrow> int \<Rightarrow> int \<Rightarrow> int \<Rightarrow> 'f::zero motion_world \<Rightarrow> (jexception + 'f) option" where
  "nativeGetRawAxisValue ptr axis i h w = do {
     e \<leftarrow> objects w ptr;
     Some (case validatePointerIndex i e of Some ex \<Rightarrow> Inl ex
       | None \<Rightarrow> if h = HISTORY_CURRENT then Inr (getRawAxisValue axis (nat i) e)
           else case validateHistoryPos h e of Some ex \<Rightarrow> Inl ex
             | None \<Rightarrow> Inr (getHistoricalRawAxisValue axis (nat i) (nat h) e)) }"

definition nativeGetPointerCoords :: "u64 \<Rightarrow> int \<Rightarrow> int \<Rightarrow> 'f::zero motion_world \<Rightarrow> (jexception + 'f JPointerCoords option) option" where
  "nativeGetPointerCoords ptr i h w = do {
     e \<leftarrow> objects w ptr;
     Some (case validatePointerIndex i e of Some ex \<Rightarrow> Inl ex
       | None \<Rightarrow> case (if h = HISTORY_CURRENT then None else validateHistoryPos h e) of Some ex \<Rightarrow> Inl ex
           | None \<Rightarrow> Inr (map_option pointerCoordsFromNative
               (if h = HISTORY_CURRENT then getRawPointerCoords (nat i) e else getHistoricalRawPointerCoords (nat i) (nat h) e))) }"

definition nativeGetPointerProperties :: "u64 \<Rightarrow> int \<Rightarrow> 'f motion_world \<Rightarrow> (jexception + PointerProperties) option" where
  "nativeGetPointerProperties ptr i w = do {
     e \<leftarrow> objects w ptr;
     Some (case validatePointerIndex i e of Some ex \<Rightarrow> Inl ex | None \<Rightarrow> Inr (mPointerProperties e ! nat i)) }"

definition nativeGetPointerId :: "u64 \<Rightarrow> int \<Rightarrow> 'f motion_world \<Rightarrow> (jexception + int) option" where
  "nativeGetPointerId ptr i w = do {
     e \<leftarrow> objects w ptr;
     Some (case validatePointerIndex i e of Some ex \<Rightarrow> Inl ex | None \<Rightarrow> Inr (getPointerId (nat i) e)) }"

definition nativeGetToolType :: "u64 \<Rightarrow> int \<Rightarrow> 'f motion_world \<Rightarrow> (jexception + int) option" where
  "nativeGetToolType ptr i w = do {
     e \<leftarrow> objects w ptr;
     Some (case validatePointerIndex i e of Some ex \<Rightarrow> Inl ex | None \<Rightarrow> Inr (getToolType (nat i) e)) }"

definition nativeGetEventTimeNanos :: "u64 \<Rightarrow> int \<Rightarrow> 'f motion_world \<Rightarrow> (jexception + int) option" where
  "nativeGetEventTimeNanos ptr h w = do {
     e \<leftarrow> objects w ptr;
     Some (if h = HISTORY_CURRENT then Inr (getEventTime e)
       else case validateHistoryPos h e of Some ex \<Rightarrow> Inl ex | None \<Rightarrow> Inr (getHistoricalEventTime (nat h) e)) }"

section \<open>Calls\<close>

datatype 'f motion_call =
    Initialize u64 u64 "'f init_args" | Dispose u64 | AddBatch u64 int "'f JPointerCoords option list option" u32
  | Copy u64 u64 u64 bool | OffsetLocation u64 'f 'f | Scale u64 'f | SetSource u64 u32 | SetDisplayId u64 int
  | SetAction u64 int | SetActionButton u64 int | SetFlags u64 int | SetEdgeFlags u64 int | SetButtonState u64 int
  | SetCursorPosition u64 'f 'f | SetDownTime u64 int

primrec motion_step :: "'f::{zero,one,plus,minus,times} motion_world \<Rightarrow> 'f motion_call \<Rightarrow> 'f motion_world option" where
  "motion_step w (Initialize p fresh a) = map_option snd (nativeInitialize p fresh a w)"
| "motion_step w (Dispose p) = nativeDispose p w"
| "motion_step w (AddBatch p t cs m) = nativeAddBatch p t cs m w"
| "motion_step w (Copy d fresh s k) = map_option snd (nativeCopy d fresh s k w)"
| "motion_step w (OffsetLocation p dx dy) = on_event p (offsetLocation dx dy) w"
| "motion_step w (Scale p k) = on_event p (scale_event k) w"
| "motion_step w (SetSource p v) = on_event p (\<lambda>e. e\<lparr> mSource := v \<rparr>) w"
| "motion_step w (SetDisplayId p v) = on_event p (\<lambda>e. e\<lparr> mDisplayId := v \<rparr>) w"
| "motion_step w (SetAction p v) = on_event p (\<lambda>e. e\<lparr> mAction := v \<rparr>) w"
| "motion_step w (SetActionButton p v) = on_event p (\<lambda>e. e\<lparr> mActionButton := v \<rparr>) w"
| "motion_step w (SetFlags p v) = on_event p (\<lambda>e. e\<lparr> mFlags := v \<rparr>) w"
| "motion_step w (SetEdgeFlags p v) = on_event p (\<lambda>e. e\<lparr> mEdgeFlags := v \<rparr>) w"
| "motion_step w (SetButtonState p v) = on_event p (\<lambda>e. e\<lparr> mButtonState := v \<rparr>) w"
| "motion_step w (SetCursorPosition p x y) = on_event p (\<lambda>e. e\<lparr> mXCursorPosition := x, mYCursorPosition := y \<rparr>) w"
| "motion_step w (SetDownTime p v) = on_event p (\<lambda>e. e\<lparr> mDownTime := v \<rparr>) w"

text \<open>The pointers a call may be given: live events, and for the three functions that allow it, null. A new event gets
  an unused address. An event is not copied onto itself without its history.\<close>

primrec call_live :: "'f motion_world \<Rightarrow> 'f motion_call \<Rightarrow> bool" where
  "call_live w (Initialize p fresh a) \<longleftrightarrow> (p = 0 \<or> objects w p \<noteq> None) \<and> fresh \<noteq> 0 \<and> objects w fresh = None"
| "call_live w (Dispose p) \<longleftrightarrow> p = 0 \<or> objects w p \<noteq> None"
| "call_live w (AddBatch p t cs m) \<longleftrightarrow> objects w p \<noteq> None"
| "call_live w (Copy d fresh s k) \<longleftrightarrow> (d = 0 \<or> objects w d \<noteq> None) \<and> (s = 0 \<or> objects w s \<noteq> None) \<and>
     fresh \<noteq> 0 \<and> objects w fresh = None \<and> (d = s \<longrightarrow> k \<or> d = 0)"
| "call_live w (OffsetLocation p dx dy) \<longleftrightarrow> objects w p \<noteq> None"
| "call_live w (Scale p k) \<longleftrightarrow> objects w p \<noteq> None"
| "call_live w (SetSource p v) \<longleftrightarrow> objects w p \<noteq> None"
| "call_live w (SetDisplayId p v) \<longleftrightarrow> objects w p \<noteq> None"
| "call_live w (SetAction p v) \<longleftrightarrow> objects w p \<noteq> None"
| "call_live w (SetActionButton p v) \<longleftrightarrow> objects w p \<noteq> None"
| "call_live w (SetFlags p v) \<longleftrightarrow> objects w p \<noteq> None"
| "call_live w (SetEdgeFlags p v) \<longleftrightarrow> objects w p \<noteq> None"
| "call_live w (SetButtonState p v) \<longleftrightarrow> objects w p \<noteq> None"
| "call_live w (SetCursorPosition p x y) \<longleftrightarrow> objects w p \<noteq> None"
| "call_live w (SetDownTime p v) \<longleftrightarrow> objects w p \<noteq> None"

section \<open>Events stay well formed\<close>

text \<open>Every sample has coordinates for every pointer, and an event with pointers has a sample.\<close>

definition event_wf :: "'f MotionEvent \<Rightarrow> bool" where
  "event_wf e \<longleftrightarrow> length (mSamplePointerCoords e) = length (mSampleEventTimes e) * length (mPointerProperties e) \<and>
     (\<forall>pc\<in>set (mSamplePointerCoords e). length (pc_values pc) = 32) \<and>
     (mPointerProperties e \<noteq> [] \<longrightarrow> mSampleEventTimes e \<noteq> [])"

definition world_wf :: "'f motion_world \<Rightarrow> bool" where
  "world_wf w \<longleftrightarrow> (\<forall>p e. objects w p = Some e \<longrightarrow> event_wf e)"

lemma length_values_set [simp]: "length (pc_values (pc_setAxisValue axis v pc)) = length (pc_values pc)"
  by (simp add: pc_setAxisValue_def)

lemma toNative_width: "length (pc_values (pointerCoordsToNative xo yo j)) = 32"
proof -
  have "length (pc_values (foldl (\<lambda>pc (axis, fld). pc_setAxisValue axis (native_axis xo yo j axis fld) pc) pc xs)) = length (pc_values pc)"
    for pc :: "'a PointerCoords" and xs
    by (induction xs arbitrary: pc) (auto split: prod.splits)
  then show ?thesis by (simp add: pointerCoordsToNative_def PointerCoords_clear_def)
qed

lemma addSample_wf:
  assumes "length (mSamplePointerCoords e) = length (mSampleEventTimes e) * length (mPointerProperties e)"
    "\<forall>pc\<in>set (mSamplePointerCoords e). length (pc_values pc) = 32"
    "length cs \<ge> length (mPointerProperties e)" "\<forall>pc\<in>set cs. length (pc_values pc) = 32"
  shows "\<exists>e'. addSample t cs e = Some e' \<and> event_wf e'"
  using assms by (auto simp: addSample_def event_wf_def Let_def dest: in_set_takeD)

lemma copyFrom_wf:
  assumes "event_wf e"
  shows "\<exists>e'. copyFrom e k = Some e' \<and> event_wf e'"
proof (cases "k \<or> mSampleEventTimes e = []")
  case True
  then show ?thesis using assms by (auto simp: copyFrom_def event_wf_def)
next
  case False
  let ?n = "length (mPointerProperties e)"
  have "?n \<le> length (mSampleEventTimes e) * ?n" using False by (cases "mSampleEventTimes e") auto
  then have "?n \<le> length (mSamplePointerCoords e)" using assms by (simp add: event_wf_def)
  then show ?thesis using False assms
    by (auto simp: copyFrom_def event_wf_def Let_def dest: in_set_takeD in_set_dropD)
qed

lemma all_present_length: "all_present xs = Some ys \<Longrightarrow> length ys = length xs"
  by (induction xs arbitrary: ys) (auto split: option.splits)

lemma world_wf_upd: "world_wf w \<Longrightarrow> event_wf e \<Longrightarrow> world_wf (w\<lparr> objects := (objects w)(p \<mapsto> e) \<rparr>)"
  by (simp add: world_wf_def)

lemma world_wf_del: "world_wf w \<Longrightarrow> world_wf (w\<lparr> objects := (objects w)(p := None) \<rparr>)"
  by (simp add: world_wf_def)

lemma on_event_wf:
  assumes "world_wf w" "objects w p \<noteq> None" "\<And>e. event_wf e \<Longrightarrow> event_wf (f e)"
  shows "\<exists>w'. on_event p f w = Some w' \<and> world_wf w'"
  using assms by (auto simp: on_event_def world_wf_def)

lemma blank_wf: "event_wf blank_event"
  by (simp add: event_wf_def blank_event_def)

lemma scale_event_wf: "event_wf e \<Longrightarrow> event_wf (scale_event k e)"
  by (auto simp: event_wf_def scale_event_def scale_coords_def)

lemma offsetLocation_wf: "event_wf e \<Longrightarrow> event_wf (offsetLocation dx dy e)"
  by (simp add: event_wf_def offsetLocation_def)

lemma initialize_wf:
  assumes "length pps = length pcs" "\<forall>pc\<in>set pcs. length (pc_values pc) = 32"
  shows "\<exists>e. initialize i a pps pcs = Some e \<and> event_wf e"
  unfolding initialize_def by (rule addSample_wf) (use assms in auto)

lemma nativeInitialize_wf:
  assumes "world_wf w" "p = 0 \<or> objects w p \<noteq> None"
  shows "\<exists>r w'. nativeInitialize p fresh a w = Some (r, w') \<and> world_wf w'"
proof (cases "validatePointerCount (ia_pointerCount a) = None \<and> validatePointerPropertiesArray (ia_properties a) (ia_pointerCount a) = None
    \<and> validatePointerCoordsObjArray (ia_coords a) (ia_pointerCount a) = None")
  case True
  let ?n = "nat (ia_pointerCount a)"
  let ?ps = "all_present (take ?n (the (ia_properties a)))" and ?cs = "all_present (take ?n (the (ia_coords a)))"
  obtain xs ys where v: "ia_properties a = Some xs" "ia_coords a = Some ys" "?n \<le> length xs" "?n \<le> length ys"
    using True by (auto simp: validatePointerPropertiesArray_def validatePointerCoordsObjArray_def validate_array_def split: option.splits if_splits)
  show ?thesis
  proof (cases "?ps = None \<or> ?cs = None")
    case False
    then obtain pps jcs where j: "?ps = Some pps" "?cs = Some jcs" by auto
    have "length pps = length jcs" using all_present_length[OF j(1)] all_present_length[OF j(2)] v by simp
    then obtain e where e: "initialize (sint (id_counter w)) a pps (map (pointerCoordsToNative (ia_xOffset a) (ia_yOffset a)) jcs) = Some e" "event_wf e"
      using initialize_wf[of pps "map (pointerCoordsToNative (ia_xOffset a) (ia_yOffset a)) jcs"] toNative_width by fastforce
    show ?thesis using True assms e j by (auto simp: nativeInitialize_def Let_def nextId_def world_wf_def)
  qed (use True assms world_wf_del[OF assms(1)] in \<open>auto simp: nativeInitialize_def Let_def split: option.splits\<close>)
qed (use assms(1) in \<open>auto simp: nativeInitialize_def Let_def split: option.splits\<close>)

lemma nativeAddBatch_wf:
  assumes "world_wf w" "objects w p \<noteq> None"
  shows "\<exists>w'. nativeAddBatch p t cs m w = Some w' \<and> world_wf w'"
proof -
  obtain e where e: "objects w p = Some e" "event_wf e" using assms by (auto simp: world_wf_def)
  let ?n = "length (mPointerProperties e)"
  show ?thesis
  proof (cases "validatePointerCoordsObjArray cs (int ?n) = None \<and> all_present (take ?n (the cs)) \<noteq> None")
    case True
    then obtain xs jcs where v: "cs = Some xs" "?n \<le> length xs" "all_present (take ?n xs) = Some jcs"
      by (auto simp: validatePointerCoordsObjArray_def validate_array_def split: option.splits if_splits)
    have len: "?n \<le> length (map (pointerCoordsToNative (mXOffset e) (mYOffset e)) jcs)"
      using all_present_length[OF v(3)] v(2) by simp
    obtain e' where "addSample t (map (pointerCoordsToNative (mXOffset e) (mYOffset e)) jcs) e = Some e'" "event_wf e'"
      using addSample_wf[OF _ _ len] e(2) toNative_width by (fastforce simp: event_wf_def)
    moreover from this(2) have "event_wf (e'\<lparr> mMetaState := mMetaState e' OR m \<rparr>)" by (simp add: event_wf_def)
    ultimately show ?thesis using True v e world_wf_upd[OF assms(1)] by (simp add: nativeAddBatch_def Let_def)
  qed (use e assms(1) in \<open>auto simp: nativeAddBatch_def Let_def split: option.splits\<close>)
qed

lemma nativeCopy_wf:
  assumes "world_wf w" "call_live w (Copy d fresh s k)"
  shows "\<exists>p w'. nativeCopy d fresh s k w = Some (p, w') \<and> world_wf w'"
proof (cases "s = 0")
  case True
  then show ?thesis using assms world_wf_upd[OF assms(1) blank_wf] by (auto simp: nativeCopy_def Let_def)
next
  case False
  then obtain e where o: "objects w s = Some e" using assms(2) by auto
  then have "event_wf e" "s \<noteq> fresh" using assms by (auto simp: world_wf_def)
  note e = o this
  obtain e' where c: "copyFrom e k = Some e'" "event_wf e'" using copyFrom_wf[OF e(2)] by blast
  show ?thesis
  proof (cases "d = s")
    case True
    then show ?thesis using False assms e by (auto simp: nativeCopy_def copy_self_def Let_def world_wf_def)
  qed (use False assms e c in \<open>auto simp: nativeCopy_def Let_def world_wf_def\<close>)
qed

lemma motion_step_wf:
  assumes "world_wf w" "call_live w c"
  shows "\<exists>w'. motion_step w c = Some w' \<and> world_wf w'"
proof (cases c)
  case (Initialize p fresh a)
  then show ?thesis using nativeInitialize_wf[OF assms(1), of p fresh a] assms(2) by auto
next
  case (Copy d fresh s k)
  then show ?thesis using nativeCopy_wf[OF assms(1), of d fresh s k] assms(2) by auto
next
  case (AddBatch p t cs m)
  then show ?thesis using nativeAddBatch_wf[OF assms(1)] assms(2) by simp
next
  case (Dispose p)
  then show ?thesis using assms world_wf_del[OF assms(1)] by (auto simp: nativeDispose_def)
qed (use assms in \<open>auto intro!: on_event_wf scale_event_wf offsetLocation_wf simp: event_wf_def\<close>)

section \<open>Histories of calls\<close>

interpretation motion: guarded_machine motion_step call_live world_wf
  by unfold_locales (rule motion_step_wf)

definition motion_world0 :: "'f motion_world" where
  "motion_world0 = \<lparr> objects = Map.empty, id_counter = 1 \<rparr>"

text \<open>A valid index and history position always name a sample.\<close>

lemma sample_present:
  assumes "event_wf e" "i < length (mPointerProperties e)" "h < length (mSampleEventTimes e)"
  shows "getHistoricalRawPointerCoords i h e = Some (mSamplePointerCoords e ! (h * length (mPointerProperties e) + i))"
    "h * length (mPointerProperties e) + i < length (mSamplePointerCoords e)"
proof -
  let ?n = "length (mPointerProperties e)"
  have "h * ?n + i < Suc h * ?n" using assms(2) by simp
  also have "\<dots> \<le> length (mSampleEventTimes e) * ?n" using assms(3) by (intro mult_le_mono1) simp
  finally show "h * ?n + i < length (mSamplePointerCoords e)" using assms(1) by (simp add: event_wf_def)
  then show "getHistoricalRawPointerCoords i h e = Some (mSamplePointerCoords e ! (h * ?n + i))"
    using assms(2) by (auto simp: getHistoricalRawPointerCoords_def Let_def)
qed

lemma getPointerCoords_present:
  assumes "world_wf w" "objects w p = Some e" "0 \<le> i" "i < int (length (mPointerProperties e))"
    "h = HISTORY_CURRENT \<or> 0 \<le> h \<and> h < int (getHistorySize e)"
  shows "\<exists>pc\<in>set (mSamplePointerCoords e). nativeGetPointerCoords p i h w = Some (Inr (Some (pointerCoordsFromNative pc)))"
proof -
  have wf: "event_wf e" using assms(1,2) by (simp add: world_wf_def)
  have i: "nat i < length (mPointerProperties e)" using assms(3,4) by simp
  then have t: "mSampleEventTimes e \<noteq> []" using wf by (auto simp: event_wf_def)
  define k where "k = (if h = HISTORY_CURRENT then current_sample e else nat h)"
  have k: "k < length (mSampleEventTimes e)" using assms(5) t
    by (cases "mSampleEventTimes e") (auto simp: k_def current_sample_def getHistorySize_def)
  have v: "validatePointerIndex i e = None" "h \<noteq> HISTORY_CURRENT \<Longrightarrow> validateHistoryPos h e = None"
    using assms(3-5) by (auto simp: validatePointerIndex_def validateHistoryPos_def)
  note s = sample_present[OF wf i k]
  have "nativeGetPointerCoords p i h w =
      Some (Inr (Some (pointerCoordsFromNative (mSamplePointerCoords e ! (k * length (mPointerProperties e) + nat i)))))"
    using assms(2) v s(1) by (cases "h = HISTORY_CURRENT") (simp_all add: nativeGetPointerCoords_def getRawPointerCoords_def k_def)
  then show ?thesis using s(2) nth_mem by blast
qed


section \<open>Samples are read back\<close>

lemma axis_bit: "(w AND 2 ^ n = 0) \<longleftrightarrow> \<not> bit w n" for w :: u64
  by (simp add: bit_iff_and_push_bit_not_eq_0)

lemma get_set_axis:
  assumes "0 \<le> a" "a < 32" "length (pc_values pc) = 32"
  shows "pc_getAxisValue b (pc_setAxisValue a v pc) = (if a = b then v else pc_getAxisValue b pc)"
proof -
  have "bit (pc_bits pc OR push_bit (nat a) 1) (nat b) \<longleftrightarrow> a = b \<or> bit (pc_bits pc) (nat b)" if "0 \<le> b" "b < 32"
    using that assms by (auto simp: bit_or_iff bit_exp_iff)
  then show ?thesis using assms by (auto simp: pc_getAxisValue_def pc_setAxisValue_def axis_bit)
qed

lemma toNative_axis:
  assumes "(axis, fld) \<in> set axis_fields"
  shows "pc_getAxisValue axis (pointerCoordsToNative xo yo j) = native_axis xo yo j axis fld"
proof -
  have r: "pc_getAxisValue b (pc\<lparr> pc_isResampled := r \<rparr>) = pc_getAxisValue b pc" for b r and pc :: "'a PointerCoords"
    by (simp add: pc_getAxisValue_def)
  show ?thesis using assms
    by (auto simp: axis_fields_def pointerCoordsToNative_def r get_set_axis PointerCoords_clear_def)
qed

text \<open>The event that holds a list of samples.\<close>

type_synonym 'f sample = "int \<times> 'f JPointerCoords list"

definition holds_samples :: "nat \<Rightarrow> 'f::{zero,minus} \<Rightarrow> 'f \<Rightarrow> 'f sample list \<Rightarrow> 'f MotionEvent \<Rightarrow> bool" where
  "holds_samples n xo yo S e \<longleftrightarrow> length (mPointerProperties e) = n \<and> mXOffset e = xo \<and> mYOffset e = yo \<and>
     mSampleEventTimes e = map fst S \<and>
     mSamplePointerCoords e = concat (map (\<lambda>s. map (pointerCoordsToNative xo yo) (take n (snd s))) S)"

lemma nth_concat_block:
  assumes "\<And>x. x \<in> set xss \<Longrightarrow> length x = n" "s < length xss" "i < n"
  shows "concat xss ! (s * n + i) = xss ! s ! i"
  using assms
proof (induction xss arbitrary: s)
  case (Cons x xss)
  then show ?case by (cases s) (auto simp: nth_append)
qed simp

lemma holds_sample_at:
  assumes "holds_samples n xo yo S e" "\<forall>s\<in>set S. n \<le> length (snd s)" "s < length S" "i < n"
  shows "getHistoricalRawPointerCoords i s e = Some (pointerCoordsToNative xo yo (snd (S ! s) ! i))"
proof -
  let ?X = "map (\<lambda>s. map (pointerCoordsToNative xo yo) (take n (snd s))) S"
  have x: "\<And>x. x \<in> set ?X \<Longrightarrow> length x = n" using assms(2) by auto
  have m: "n \<le> length (snd (S ! s))" using assms(2,3) by simp
  have c: "concat ?X ! (s * n + i) = pointerCoordsToNative xo yo (snd (S ! s) ! i)"
    using nth_concat_block[of ?X n s i] x assms(3,4) m by simp
  have "length (concat ?X) = length S * n" using assms(2)
    by (induction S) (auto simp: min_def)
  moreover have "s * n + i < Suc s * n" using assms(4) by simp
  moreover have "Suc s * n \<le> length S * n" using assms(3) by (intro mult_le_mono1) simp
  ultimately have "s * n + i < length (concat ?X)" by linarith
  then show ?thesis using assms(1,4) c by (simp add: getHistoricalRawPointerCoords_def holds_samples_def Let_def)
qed

lemma all_present_map: "all_present (map Some xs) = Some xs"
  by (induction xs) auto

lemma addBatch_holds:
  assumes "objects w p = Some e" "holds_samples n xo yo S e" "n \<le> length js"
  shows "\<exists>w' e'. motion_step w (AddBatch p t (Some (map Some js)) m) = Some w' \<and> objects w' p = Some e' \<and>
    holds_samples n xo yo (S @ [(t, js)]) e'"
  using assms by (simp add: nativeAddBatch_def holds_samples_def Let_def validatePointerCoordsObjArray_def validate_array_def
      take_map all_present_map addSample_def)

definition batch_calls :: "u64 \<Rightarrow> (int \<times> 'f JPointerCoords list \<times> u32) list \<Rightarrow> 'f motion_call list" where
  "batch_calls p bs = map (\<lambda>(t, js, m). AddBatch p t (Some (map Some js)) m) bs"

lemma batches_hold:
  assumes "objects w p = Some e" "holds_samples n xo yo S e" "\<forall>b\<in>set bs. n \<le> length (fst (snd b))"
  shows "\<exists>w' e'. run_calls motion_step w (batch_calls p bs) = Some w' \<and> objects w' p = Some e' \<and>
    holds_samples n xo yo (S @ map (\<lambda>(t, js, m). (t, js)) bs) e'"
  using assms
proof (induction bs arbitrary: w e S)
  case (Cons b bs)
  obtain t js m where b: "b = (t, js, m)" by (cases b)
  obtain w' e' where s: "motion_step w (AddBatch p t (Some (map Some js)) m) = Some w'" "objects w' p = Some e'"
      "holds_samples n xo yo (S @ [(t, js)]) e'"
    using addBatch_holds[OF Cons.prems(1,2)] Cons.prems(3) b by force
  from Cons.IH[OF s(2,3)] Cons.prems(3) obtain w2 e2 where
    "run_calls motion_step w' (batch_calls p bs) = Some w2" "objects w2 p = Some e2"
    "holds_samples n xo yo ((S @ [(t, js)]) @ map (\<lambda>(t, js, m). (t, js)) bs) e2" by auto
  then show ?case using s(1) by (simp add: b batch_calls_def del: motion_step.simps)
qed (simp add: batch_calls_def)


lemma nativeInitialize_holds:
  assumes "ia_pointerCount a = int n" "0 < n" "ia_properties a = Some (map Some pps)" "ia_coords a = Some (map Some js)"
    "n \<le> length pps" "n \<le> length js" "fresh \<noteq> 0"
  shows "\<exists>w' e. motion_step w (Initialize 0 fresh a) = Some w' \<and> objects w' fresh = Some e \<and>
    holds_samples n (ia_xOffset a) (ia_yOffset a) [(ia_eventTime a, js)] e"
  using assms by (simp add: nativeInitialize_def holds_samples_def Let_def validatePointerCount_def validatePointerPropertiesArray_def
      validatePointerCoordsObjArray_def validate_array_def take_map all_present_map addSample_def initialize_def nextId_def)

text \<open>The axis value that the conversion there and back leaves.\<close>

definition there_and_back :: "'f \<Rightarrow> 'f \<Rightarrow> int \<Rightarrow> 'f \<Rightarrow> 'f::{minus,plus}" where
  "there_and_back xo yo axis v = (if axis = AXIS_X then v - xo + xo else if axis = AXIS_Y then v - yo + yo else v)"

lemma there_and_back_group [simp]: "there_and_back xo yo axis v = v" for v :: "'f::group_add"
  by (simp add: there_and_back_def)

lemma read_sample:
  assumes "holds_samples n xo yo S e" "\<forall>s\<in>set S. n \<le> length (snd s)" "s < length S" "i < n" "(axis, fld) \<in> set axis_fields"
  shows "getHistoricalAxisValue axis i s e = there_and_back xo yo axis (fld (snd (S ! s) ! i))"
    "getHistoricalEventTime s e = fst (S ! s)"
proof -
  have "getHistoricalRawAxisValue axis i s e = native_axis xo yo (snd (S ! s) ! i) axis fld"
    using holds_sample_at[OF assms(1-4)] toNative_axis[OF assms(5)] by (simp add: getHistoricalRawAxisValue_def)
  then show "getHistoricalAxisValue axis i s e = there_and_back xo yo axis (fld (snd (S ! s) ! i))"
    using assms(1) by (simp add: getHistoricalAxisValue_def add_offset_def native_axis_def there_and_back_def holds_samples_def AXIS_X_def AXIS_Y_def)
  show "getHistoricalEventTime s e = fst (S ! s)" using assms(1,3) by (simp add: getHistoricalEventTime_def holds_samples_def)
qed

text \<open>The current sample is the last one.\<close>

lemma current_is_last:
  assumes "holds_samples n xo yo S e" "S \<noteq> []"
  shows "getAxisValue axis i e = getHistoricalAxisValue axis i (length S - 1) e"
    "getEventTime e = getHistoricalEventTime (length S - 1) e" "getHistorySize e = length S - 1"
proof -
  have t: "mSampleEventTimes e = map fst S" using assms(1) by (simp add: holds_samples_def)
  show "getAxisValue axis i e = getHistoricalAxisValue axis i (length S - 1) e" using assms(2)
    by (simp add: getAxisValue_def getHistoricalAxisValue_def getRawAxisValue_def current_sample_def t)
  show "getEventTime e = getHistoricalEventTime (length S - 1) e" "getHistorySize e = length S - 1" using assms(2)
    by (cases S rule: rev_cases; simp add: getEventTime_def getHistoricalEventTime_def getHistorySize_def t nth_append)+
qed

definition history_pos :: "nat \<Rightarrow> nat \<Rightarrow> int" where
  "history_pos s m = (if Suc s = m then HISTORY_CURRENT else int s)"

lemma read_sample_jni:
  assumes "objects w p = Some e" "holds_samples n xo yo S e" "\<forall>s\<in>set S. n \<le> length (snd s)" "s < length S" "i < n"
    "(axis, fld) \<in> set axis_fields"
  shows "nativeGetAxisValue p axis (int i) (history_pos s (length S)) w = Some (Inr (there_and_back xo yo axis (fld (snd (S ! s) ! i)))) \<and>
    nativeGetEventTimeNanos p (history_pos s (length S)) w = Some (Inr (fst (S ! s)))"
proof -
  note r = read_sample[OF assms(2-6)]
  have S: "S \<noteq> []" using assms(4) by auto
  note c = current_is_last[OF assms(2) S]
  have i: "validatePointerIndex (int i) e = None" using assms(2,5) by (simp add: validatePointerIndex_def holds_samples_def)
  show ?thesis
  proof (cases "Suc s = length S")
    case True
    then have "length S - 1 = s" by simp
    then show ?thesis using True r c i assms(1) by (simp add: nativeGetAxisValue_def nativeGetEventTimeNanos_def history_pos_def)
  next
    case False
    then have "validateHistoryPos (int s) e = None" using c(3) assms(4) by (simp add: validateHistoryPos_def)
    then show ?thesis using False r i assms(1) by (simp add: nativeGetAxisValue_def nativeGetEventTimeNanos_def history_pos_def HISTORY_CURRENT_def)
  qed
qed

text \<open>
  C29 (samples_read_back): an event that is initialised and extended by batches returns, for every
  sample, every pointer and each of the eleven axes, the value of the Java object it was given
  (for x and y, less the offset and plus the offset), and the time of the sample.
\<close>

theorem samples_read_back:
  assumes "ia_pointerCount a = int n" "0 < n" "ia_properties a = Some (map Some pps)" "ia_coords a = Some (map Some js)"
    "n \<le> length pps" "n \<le> length js" "fresh \<noteq> 0" "\<forall>b\<in>set bs. n \<le> length (fst (snd b))"
    and "S = (ia_eventTime a, js) # map (\<lambda>(t, js, m). (t, js)) bs"
  shows "\<exists>w'. run_calls motion_step w (Initialize 0 fresh a # batch_calls fresh bs) = Some w' \<and>
    (\<forall>s i axis fld. s < length S \<and> i < n \<and> (axis, fld) \<in> set axis_fields \<longrightarrow>
       nativeGetAxisValue fresh axis (int i) (history_pos s (length S)) w' =
         Some (Inr (there_and_back (ia_xOffset a) (ia_yOffset a) axis (fld (snd (S ! s) ! i)))) \<and>
       nativeGetEventTimeNanos fresh (history_pos s (length S)) w' = Some (Inr (fst (S ! s))))"
proof -
  obtain w1 e1 where i: "motion_step w (Initialize 0 fresh a) = Some w1" "objects w1 fresh = Some e1"
      "holds_samples n (ia_xOffset a) (ia_yOffset a) [(ia_eventTime a, js)] e1"
    using nativeInitialize_holds[OF assms(1-7)] by blast
  obtain w2 e2 where b: "run_calls motion_step w1 (batch_calls fresh bs) = Some w2" "objects w2 fresh = Some e2"
      "holds_samples n (ia_xOffset a) (ia_yOffset a) S e2"
    using batches_hold[OF i(2,3) assms(8)] assms(9) by auto
  have "\<forall>s\<in>set S. n \<le> length (snd s)" using assms(6,8,9) by auto
  note r = read_sample_jni[OF b(2,3) this]
  have "run_calls motion_step w (Initialize 0 fresh a # batch_calls fresh bs) = Some w2"
    using i(1) b(1) by (simp del: motion_step.simps)
  then show ?thesis using r by blast
qed


section \<open>What the accessors do not agree on\<close>

text \<open>\<open>getPointerCoords\<close> returns the stored coordinates, without the offset that \<open>getX\<close> adds.\<close>

lemma coords_without_offset:
  assumes "getHistoricalRawPointerCoords i h e = Some pc"
  shows "getHistoricalAxisValue AXIS_X i h e = jc_x (pointerCoordsFromNative pc) + mXOffset e"
    "getHistoricalAxisValue AXIS_Y i h e = jc_y (pointerCoordsFromNative pc) + mYOffset e"
  using assms by (simp_all add: getHistoricalAxisValue_def getHistoricalRawAxisValue_def add_offset_def AXIS_X_def AXIS_Y_def
      pointerCoordsFromNative_def)

text \<open>\<open>scale\<close> multiplies every axis that is set, pressure and orientation as well.\<close>

lemma scale_every_axis:
  assumes "0 \<le> axis" "axis < 32" "bit (pc_bits pc) (nat axis)"
  shows "pc_getAxisValue axis (scale_coords k pc) = pc_getAxisValue axis pc * k"
  using assms by (simp add: pc_getAxisValue_def scale_coords_def axis_bit)

lemma scale_pressure: "pc_getAxisValue 2 (scale_coords k (pointerCoordsToNative xo yo j)) = jc_pressure j * k"
proof -
  have "bit (pc_bits (pointerCoordsToNative xo yo j)) 2"
    by (simp add: pointerCoordsToNative_def axis_fields_def pc_setAxisValue_def PointerCoords_clear_def bit_or_iff bit_exp_iff)
  moreover have "pc_getAxisValue 2 (pointerCoordsToNative xo yo j) = jc_pressure j"
    using toNative_axis[of 2 jc_pressure xo yo j] by (simp add: axis_fields_def native_axis_def)
  ultimately show ?thesis using scale_every_axis[of 2 "pointerCoordsToNative xo yo j" k] by simp
qed

text \<open>A copy onto itself without history leaves an event with pointers and no coordinates.\<close>

lemma copy_self_loses_sample:
  assumes "objects w p = Some e" "p \<noteq> 0" "mPointerProperties e \<noteq> []"
  shows "\<exists>w'. nativeCopy p fresh p False w = Some (p, w') \<and> nativeGetPointerCoords p 0 HISTORY_CURRENT w' = Some (Inr None)"
  using assms by (simp add: nativeCopy_def copy_self_def Let_def nativeGetPointerCoords_def validatePointerIndex_def
      getRawPointerCoords_def getHistoricalRawPointerCoords_def)

section \<open>Examples\<close>

definition a_touch :: "int \<Rightarrow> int JPointerCoords" where
  "a_touch v = \<lparr> jc_x = v, jc_y = v + 1, jc_pressure = 1, jc_size = 2, jc_touchMajor = 3, jc_touchMinor = 4, jc_toolMajor = 5,
     jc_toolMinor = 6, jc_orientation = 7, jc_relativeX = 8, jc_relativeY = 9, jc_isResampled = False, jc_packedBits = 0 \<rparr>"

definition an_init :: "int init_args" where
  "an_init = \<lparr> ia_deviceId = 0, ia_source = 0x1002, ia_displayId = 0, ia_action = 0, ia_flags = 0, ia_edgeFlags = 0,
     ia_metaState = 0, ia_buttonState = 0, ia_classification = 0, ia_xOffset = 100, ia_yOffset = 200, ia_xPrecision = 1,
     ia_yPrecision = 1, ia_nan = 0, ia_downTime = 5, ia_eventTime = 5, ia_pointerCount = 1,
     ia_properties = Some (map Some [\<lparr> pp_id = 0, pp_toolType = 1 \<rparr>]), ia_coords = Some (map Some [a_touch 10]) \<rparr>"

theorem samples_read_back_witness:
  "\<exists>w. run_calls motion_step motion_world0 (Initialize 0 64 an_init # batch_calls 64 [(6, [a_touch 20], 0)]) = Some w \<and>
     nativeGetAxisValue 64 0 0 0 w = Some (Inr 10) \<and> nativeGetAxisValue 64 0 0 HISTORY_CURRENT w = Some (Inr 20) \<and>
     nativeGetEventTimeNanos 64 HISTORY_CURRENT w = Some (Inr 6)"
proof -
  let ?S = "(ia_eventTime an_init, [a_touch 10]) # map (\<lambda>(t, js, m). (t, js)) [(6, [a_touch 20], 0 :: u32)]"
  have "\<exists>w'. run_calls motion_step motion_world0 (Initialize 0 64 an_init # batch_calls 64 [(6, [a_touch 20], 0)]) = Some w' \<and>
    (\<forall>s i axis fld. s < length ?S \<and> i < 1 \<and> (axis, fld) \<in> set axis_fields \<longrightarrow>
       nativeGetAxisValue 64 axis (int i) (history_pos s (length ?S)) w' =
         Some (Inr (there_and_back (ia_xOffset an_init) (ia_yOffset an_init) axis (fld (snd (?S ! s) ! i)))) \<and>
       nativeGetEventTimeNanos 64 (history_pos s (length ?S)) w' = Some (Inr (fst (?S ! s))))"
    by (rule samples_read_back[where pps = "[\<lparr> pp_id = 0, pp_toolType = 1 \<rparr>]"]) (simp_all add: an_init_def)
  then obtain w where w: "run_calls motion_step motion_world0 (Initialize 0 64 an_init # batch_calls 64 [(6, [a_touch 20], 0)]) = Some w"
    and r: "\<And>s i axis fld. s < length ?S \<Longrightarrow> i < 1 \<Longrightarrow> (axis, fld) \<in> set axis_fields \<Longrightarrow>
       nativeGetAxisValue 64 axis (int i) (history_pos s (length ?S)) w =
         Some (Inr (there_and_back (ia_xOffset an_init) (ia_yOffset an_init) axis (fld (snd (?S ! s) ! i)))) \<and>
       nativeGetEventTimeNanos 64 (history_pos s (length ?S)) w = Some (Inr (fst (?S ! s)))"
    by blast
  have "nativeGetAxisValue 64 0 0 0 w = Some (Inr 10)" using r[of 0 0 0 jc_x] by (simp add: history_pos_def axis_fields_def a_touch_def)
  moreover have "nativeGetAxisValue 64 0 0 HISTORY_CURRENT w = Some (Inr 20)" "nativeGetEventTimeNanos 64 HISTORY_CURRENT w = Some (Inr 6)"
    using r[of 1 0 0 jc_x] by (simp_all add: history_pos_def axis_fields_def a_touch_def)
  ultimately show ?thesis using w by blast
qed


text \<open>The offset shows in the one accessor and not in the other.\<close>

lemma offset_example:
  "(case run_calls motion_step motion_world0 [Initialize 0 64 an_init] of None \<Rightarrow> None
    | Some w \<Rightarrow> Some (nativeGetAxisValue 64 0 0 HISTORY_CURRENT w, nativeGetPointerCoords 64 0 HISTORY_CURRENT w)) =
   Some (Some (Inr 10), Some (Inr (Some ((a_touch 10)\<lparr> jc_x := - 90, jc_y := - 189 \<rparr>))))"
  by code_simp

end
