(* ===== verification/Spec2Isabelle.thy ===== *)
theory Spec2Isabelle
  imports AxmlParser ApkManifest BundleParser MiniZip SpawnChild SqliteConnection SignatureVerifier InstallEntry GraphicBuffer SystemProperties JavaParcelCalls InputChannels NativeWindow DisplayVsync InprocCallbacks AudioTrack MediaCodec MotionEvents
begin

text \<open>
  Verification of the Westlake adapter, which runs Android applications on OpenHarmony. The modelled
  sources are the C++ files of the adapter under
  \<open>src/arm64-session-2026-07-29/bridge-full-src/framework/\<close>; paths below are relative to it.

  \<^bold>\<open>The program.\<close> An APK is installed by \<open>package-manager/jni\<close>: the C entry points open the archive, the
  manifest parser drives the binary XML parser, permissions and components are mapped to a bundle, the
  signature is checked, and the installer copies the archive, its native libraries and its icons to disk.
  A started application is forked by the spawner \<open>appspawn-x\<close>, which reads requests from a socket, sets up the
  credentials of the child before it enters Java, and brings
  its own ZIP reader and property store for the Android runtime. In the application process, \<open>surface\<close>
  hands OpenHarmony buffers to the Android buffer queue, \<open>sqlite\<close> runs queries and keeps their results in
  cursor windows that Java reads, \<open>android-runtime\<close> implements the Java parcel, the input channels with their
  receivers and the display event receiver that paces drawing, \<open>activity\<close> runs the services of the app inside its
  process, \<open>core\<close> decodes audio and plays it through a ring buffer, and \<open>window\<close> translates input events, writes
  them to the channels and wraps OpenHarmony windows as Android native windows.

  \<^bold>\<open>Conventions.\<close> A byte buffer is a list of bytes, a machine integer a word of its width where it can wrap
  around, a C string a list without its terminator, a pointer into a buffer an offset. The value \<open>None\<close> of
  an operation is undefined behaviour of the C++ code (an access outside an object, a signed overflow, a
  freed object), so a theorem that a result is not \<open>None\<close> is a safety theorem. Where a run may not end
  (\<open>SignatureVerifier\<close>), not returning is a value of its own; the functions of the other theories are total,
  by structural recursion or with a measure (bytes left, rounds left), so no fuel bound is chosen anywhere.
  Logging is left out. Code outside the repository (minizip, OpenSSL, zlib, the surface, the parameter
  store, the virtual machine, the sockets and the file system) enters as a record or function parameter;
  what a theorem needs of it is a hypothesis of the theorem, and its witness instantiates the parameter.

  \<^bold>\<open>The theories.\<close>
  \<^item> \<open>Prelude\<close>: byte buffers, little-endian reads and writes with the collections \<open>rd_simps\<close> and \<open>width_simps\<close>,
    and the interfaces: \<open>field_codec\<close> (a fixed-width field that is read back where it was written,
    interpreted for 16, 32 and 64 bits), \<open>op_machine\<close> (operations that keep an invariant, so every history
    does) and \<open>simulated_machine\<close> (operations that implement an abstract machine), with \<open>guarded_machine\<close> and
    \<open>guarded_simulation\<close> for calls that are defined only when the client keeps its side.
  \<^item> \<open>AxmlParser\<close> (\<open>axml_parser.cpp\<close>): the pull parser with its string cache. A reference encoder and the
    round trip of whole documents, progress of \<open>next\<close>, UTF-16 to UTF-8, the length prefixes.
  \<^item> \<open>ApkManifest\<close> (\<open>apk_manifest_parser.cpp\<close>): every element branch of \<open>ParseAXML\<close> and its state machine. What
    any successful parse guarantees, the stack discipline, what an activity element adds.
  \<^item> \<open>PermissionMapper\<close>, \<open>BundleParser\<close> (\<open>permission_mapper.cpp\<close>, \<open>apk_bundle_parser.cpp\<close>): the name tables and
    the calls on the bundle. Which names survive a round trip, visibility of abilities, keys.
  \<^item> \<open>SignatureVerifier\<close> (\<open>apk_signature_verifier.cpp\<close>): both signature schemes. The verdict on well-formed
    signing blocks, a block on which the walk does not end, equality of certificates.
  \<^item> \<open>UnzLib\<close>: the interface of the external minizip reader as a record of functions.
  \<^item> \<open>ApkInstaller\<close> (\<open>apk_installer.cpp\<close>): deployment, removal, native libraries and the resources package
    over an explicit file system. Exact outcomes, and that nothing outside the package is touched.
  \<^item> \<open>InstallEntry\<close> (\<open>oh_adapter_install_apk_c_entry.cpp\<close>): the composition of parser and installer; return
    codes and what each implies, the JSON hand-over.
  \<^item> \<open>MiniZip\<close> (\<open>appspawn-x/bionic_compat/src/minizip.cpp\<close>): the ZIP reader. Safety on arbitrary bytes, round
    trip of stored entries, what is written to a descriptor.
  \<^item> \<open>SpawnProtocol\<close> (\<open>spawn_msg.h\<close>, \<open>spawn_server.cpp\<close>): both request formats, connections, the server loop.
    One response per connection, independence of packet boundaries, parser safety, round trip.
  \<^item> \<open>SpawnChild\<close> (\<open>child_main.cpp\<close>): the child from a request to its first Java call. Order of the steps, the
    credentials it runs with, its exit status, and the requests for which it keeps the privileges of the spawner.
  \<^item> \<open>SystemProperties\<close> (\<open>system_properties.cpp\<close>): the property cache, as an \<open>op_machine\<close>.
  \<^item> \<open>CursorWindow\<close> (\<open>sqlite/wl_CursorWindow.cpp\<close>): the memory layout and all operations on rows and slots. An
    invariant that any client sequence keeps (\<open>op_machine\<close>), and that stored values are read back.
  \<^item> \<open>SqliteCursor\<close> (\<open>copyRow\<close> and \<open>nativeExecuteForCursorWindow\<close> of \<open>android_database_SQLiteConnection.cpp\<close>): from
    the answers of a statement to a window. The window shows consecutive rows of the result with the required
    one among them, for every sequence of answers; rows that fit are always copied.
  \<^item> \<open>CursorNatives\<close> (\<open>android_database_CursorWindow.cpp\<close>): the Java accessors. What Java reads after a query is what
    the database had; numbers as text and back.
  \<^item> \<open>SqliteConnection\<close> (the rest of \<open>android_database_SQLiteConnection.cpp\<close>, \<open>android_database_SQLiteCommon.cpp\<close>,
    \<open>wl_sqlite3_android.cpp\<close>): connections with their handles and statements as histories of calls, execution without a
    window, aggregates, errors, collations. Who owns which handle, and the calls that use a freed one.
  \<^item> \<open>GraphicBuffer\<close> (\<open>surface/jni/oh_graphic_buffer_producer.cpp\<close>, \<open>pixel_format_mapper.h\<close>): the producer, which
    implements a pool of handed-out buffers (\<open>simulated_machine\<close>) with exact descriptor accounting.
  \<^item> \<open>JavaParcel\<close>, \<open>JavaParcelCalls\<close> (\<open>android-runtime/src/android_os_Parcel_aosp.cpp\<close>): the parcel and its JNI
    functions over a store of parcels. Round trip of every kind of value, the invariant under any history
    of calls (\<open>op_machine\<close>), bounds of reads, marshalling, and the calls that are undefined.
  \<^item> \<open>InputBridge\<close>, \<open>InputReceiver\<close> (\<open>window/jni/oh_input_bridge.cpp\<close>,
    \<open>android-runtime/src/android_view_InputEventReceiver.cpp\<close>): the two ends of the input channel. Delivery of
    injected events across the socket, safety of the decoder, times of a gesture, control commands.
  \<^item> \<open>InputChannels\<close> (\<open>android_view_InputChannel.cpp\<close>, \<open>window/jni/input_event_bridge.cpp\<close>, creation and disposal of
    receivers): the socket pairs behind the channels in a table of descriptors. Who owns which descriptor, that a
    session and the receiver of its window stay connected, and the descriptor that is closed twice.
  \<^item> \<open>NativeWindow\<close> (\<open>window/jni/oh_anativewindow_shim.cpp\<close>): window adapters with reference counts and buffer
    wrappers on an explicit heap. The live windows are those of a reference-counted table, no wrapper outlives
    its window, and a buffer pointer keeps standing for its OpenHarmony buffer.
  \<^item> \<open>DisplayVsync\<close> (\<open>android_view_DisplayEventReceiver.cpp\<close>): the Java thread, the callbacks of OpenHarmony and the two
    delivery threads as interleaved steps. Numbering of frames, frames per request, which receivers are served.
  \<^item> \<open>InprocService\<close>, \<open>InprocThreads\<close>, \<open>InprocBinding\<close>, \<open>InprocQueue\<close>, \<open>InprocCallbacks\<close>
    (\<open>activity/jni/oh_inproc_service.cpp\<close> with its callers in \<open>activity_manager_adapter.cpp\<close> and the Java registry of
    connections): services of the app itself, as threads with stacks of frames whose steps are the critical sections. One
    create and one \<open>onBind\<close> per class, the account of waiting binds, the worker (one at a time, empties the queue), no
    callback after an unbind, the action of a start. Invariants that do not mention the stacks go through the locale
    \<open>shared_invariant\<close>; the runs at the end show what the code does not exclude.
  \<^item> \<open>AudioTrack\<close> (\<open>core/jni/oh_audiotrack_shim.cpp\<close>): writers that may wait for space and the audio thread that pulls, on a
    byte ring. The ring implements a bounded queue (\<open>simulated_machine\<close>), sound comes out in the order it went in, waiting
    writers finish, and a stopped track stays silent.
  \<^item> \<open>MediaCodec\<close> (\<open>core/jni/oh_mediacodec_shim.cpp\<close>): the queues between the codec library and Java. In synchronous mode
    they implement queues of indices that carry their buffers (\<open>guarded_simulation\<close>) and report outputs in order; in
    asynchronous mode the format comes first, and the queues grow.
  \<^item> \<open>MotionEvents\<close> (\<open>android_input_Input_aosp.cpp\<close>, \<open>include/input/Input.h\<close>, \<open>android_view_MotionEvent_aosp.cpp\<close>): motion events
    in a store of native objects. Histories of calls on live events are defined (\<open>guarded_machine\<close>), samples are read back,
    and the accessors that disagree about the offset.

  \<^bold>\<open>Not modelled.\<close> The patched sources of the Android runtime (\<open>class_linker.cc\<close>, \<open>runtime.cc\<close>, \<open>thread.cc\<close>,
  \<open>dalvikvm.cc\<close>) and the natives taken over from Android are third-party code whose headers are not in the
  repository. The activity, window manager, broadcast and data share adapters forward single calls to
  IPC proxies, to Java methods or to libraries found with \<open>dlsym\<close>. Within modelled files: \<open>createFromParcel\<close> and
  \<open>writeToParcel\<close> of the cursor window (their only callers pass a null parcel), binding of statement parameters and
  scalar functions of SQLite, float samples and the release of an audio track, \<open>initSecurity\<close> and the \<open>SIGCHLD\<close> handler of the spawner, the reflective hand-over to
  the view hierarchy in the input bridge. Locks are left out: each operation is one step, except in
  \<open>DisplayVsync\<close> and the theories of the in-process services, where the operations are split at the points at which
  threads can interleave.

  \<^bold>\<open>Plan.\<close> What is left is the input manager bridge (\<open>oh_input_manager_bridge.cpp\<close>), most of whose functions are
  stubs, and the window manager client, once the classes it calls are part of the repository.
\<close>

end
